(* ===== verification/QJS_Prelude.thy ===== *)
theory QJS_Prelude
  imports Main "HOL-Library.Word" "HOL-Library.Monad_Syntax"
begin

unbundle bit_operations_syntax

text \<open>
  What every component shares: the C integer types, memory accesses, byte order and a few
  generic lemmas.

  \<^item> Undefined behaviour of C (an access outside a block, a failed \<open>assert\<close>, \<open>abort()\<close>) is
    the value \<open>None\<close> of an \<open>option\<close> type, and a function that may have it is written in the
    option monad (\<open>do\<close> notation). A theorem \<open>\<exists>r. f x = Some r\<close> or \<open>f x = Some r\<close> is then also
    a memory-safety statement. C error codes are ordinary values and never \<open>None\<close>.
  \<^item> A memory block is the list of its cells. \<open>rd\<close>, \<open>wr\<close> access one cell, \<open>rd_block\<close> and
    \<open>wr_block\<close> are \<open>memcpy\<close> out of and into a block.
  \<^item> \<open>size_t\<close> values are natural numbers; \<open>szt\<close> writes out their wrap-around where the code
    adds or multiplies them.
  \<^item> Multi-byte accesses through the packed structs of cutils.h are little endian, the byte
    order of the targets the repository builds for.
\<close>

type_synonym u8 = "8 word"
type_synonym u16 = "16 word"
type_synonym u32 = "32 word"
type_synonym u64 = "64 word"

named_theorems mem_defs

section \<open>Memory blocks\<close>

definition rd :: "'a list \<Rightarrow> nat \<Rightarrow> 'a option" where
  [mem_defs]: "rd m i = (if i < length m then Some (m ! i) else None)"

definition wr :: "'a list \<Rightarrow> nat \<Rightarrow> 'a \<Rightarrow> 'a list option" where
  [mem_defs]: "wr m i v = (if i < length m then Some (m[i := v]) else None)"

definition rd_block :: "'a list \<Rightarrow> nat \<Rightarrow> nat \<Rightarrow> 'a list option" where
  [mem_defs]: "rd_block m off n =
     (if off + n \<le> length m then Some (take n (drop off m)) else None)"

definition wr_block :: "'a list \<Rightarrow> nat \<Rightarrow> 'a list \<Rightarrow> 'a list option" where
  [mem_defs]: "wr_block m off d =
     (if off + length d \<le> length m
      then Some (take off m @ d @ drop (off + length d) m) else None)"

definition c_assert :: "bool \<Rightarrow> unit option" where
  [mem_defs]: "c_assert b = (if b then Some () else None)"

lemma c_assert_Some [simp]: "c_assert b = Some u \<longleftrightarrow> b"
  by (simp add: c_assert_def)

lemma c_assert_True [simp]: "c_assert True = Some ()"
  by (simp add: c_assert_def)

lemma rd_Some_iff: "rd m i = Some v \<longleftrightarrow> i < length m \<and> v = m ! i"
  by (auto simp: rd_def)

lemma rd_nth [simp]: "i < length m \<Longrightarrow> rd m i = Some (m ! i)"
  by (simp add: rd_def)

lemma wr_nth [simp]: "i < length m \<Longrightarrow> wr m i v = Some (m[i := v])"
  by (simp add: wr_def)

lemma wr_block_Some_iff:
  "wr_block m off d = Some m' \<longleftrightarrow>
     off + length d \<le> length m \<and> m' = take off m @ d @ drop (off + length d) m"
  by (auto simp: wr_block_def)

lemma wr_block_length: "wr_block m off d = Some m' \<Longrightarrow> length m' = length m"
  by (auto simp: wr_block_Some_iff)

lemma rd_block_Some_iff:
  "rd_block m off n = Some d \<longleftrightarrow> off + n \<le> length m \<and> d = take n (drop off m)"
  by (auto simp: rd_block_def)

lemma rd_block_length: "rd_block m off n = Some d \<Longrightarrow> length d = n"
  by (auto simp: rd_block_Some_iff)

lemma rd_append_left [simp]: "i < length xs \<Longrightarrow> rd (xs @ ys) i = rd xs i"
  by (simp add: rd_def nth_append)

lemma rd_block_append_mid:
  "off = length xs \<Longrightarrow> n = length ys \<Longrightarrow> rd_block (xs @ ys @ zs) off n = Some ys"
  by (simp add: rd_block_def)

section \<open>size\_t arithmetic\<close>

definition szt :: "nat \<Rightarrow> nat" where
  "szt n = n mod 2 ^ 64"

lemma szt_small [simp]: "n < 2 ^ 64 \<Longrightarrow> szt n = n"
  by (simp add: szt_def)

lemma szt_le [simp]: "szt n \<le> n"
  by (simp add: szt_def)

lemma szt_less: "szt n < 2 ^ 64"
  by (simp add: szt_def)

definition szt_sub :: "nat \<Rightarrow> nat \<Rightarrow> nat" where
  "szt_sub a b = szt (a + 2 ^ 64 - szt b)"

lemma szt_sub_le: "b \<le> a \<Longrightarrow> a < 2 ^ 64 \<Longrightarrow> szt_sub a b = a - b"
proof -
  assume "b \<le> a" "a < 2 ^ 64"
  then have "a + 2 ^ 64 - szt b = (a - b) + 2 ^ 64" by simp
  moreover have "((a - b) + 2 ^ 64) mod 2 ^ 64 = a - b"
    using \<open>a < 2 ^ 64\<close> by (simp del: One_nat_def)
  ultimately show ?thesis by (simp add: szt_sub_def szt_def)
qed

section \<open>Little-endian bytes\<close>

fun le_bytes :: "nat \<Rightarrow> nat \<Rightarrow> u8 list" where
  "le_bytes 0 x = []"
| "le_bytes (Suc n) x = word_of_nat (x mod 256) # le_bytes n (x div 256)"

fun le_nat :: "u8 list \<Rightarrow> nat" where
  "le_nat [] = 0"
| "le_nat (b # bs) = unat b + 256 * le_nat bs"

lemma le_bytes_length [simp]: "length (le_bytes n x) = n"
  by (induction n arbitrary: x) auto

lemma unat_byte_of_nat [simp]: "unat (word_of_nat x :: u8) = x mod 256"
  by (simp add: unat_of_nat)

lemma le_nat_le_bytes: "le_nat (le_bytes n x) = x mod 256 ^ n"
proof (induction n arbitrary: x)
  case 0
  then show ?case by simp
next
  case (Suc n)
  then show ?case
    by (simp add: mod_mult2_eq)
qed

lemma le_nat_bound: "le_nat bs < 256 ^ length bs"
proof (induction bs)
  case Nil
  then show ?case by simp
next
  case (Cons b bs)
  have "unat b < 256"
    using unsigned_less [of b, where ?'a = nat] by simp
  moreover have "le_nat bs + 1 \<le> 256 ^ length bs"
    using Cons.IH by simp
  then have "256 * le_nat bs + 256 \<le> 256 * 256 ^ length bs"
    by linarith
  ultimately show ?case
    by simp
qed

text \<open>\<open>put_u16\<close>, \<open>put_u32\<close>, \<open>put_u64\<close> and their readers (cutils.h).\<close>

definition bytes_u16 :: "u16 \<Rightarrow> u8 list" where
  "bytes_u16 v = le_bytes 2 (unat v)"

definition bytes_u32 :: "u32 \<Rightarrow> u8 list" where
  "bytes_u32 v = le_bytes 4 (unat v)"

definition bytes_u64 :: "u64 \<Rightarrow> u8 list" where
  "bytes_u64 v = le_bytes 8 (unat v)"

definition get_u8 :: "u8 list \<Rightarrow> nat \<Rightarrow> u32 option" where
  "get_u8 tab p = map_option ucast (rd tab p)"

definition get_u16 :: "u8 list \<Rightarrow> nat \<Rightarrow> u32 option" where
  "get_u16 tab p = map_option (\<lambda>bs. word_of_nat (le_nat bs)) (rd_block tab p 2)"

definition get_u32 :: "u8 list \<Rightarrow> nat \<Rightarrow> u32 option" where
  "get_u32 tab p = map_option (\<lambda>bs. word_of_nat (le_nat bs)) (rd_block tab p 4)"

definition get_u64 :: "u8 list \<Rightarrow> nat \<Rightarrow> u64 option" where
  "get_u64 tab p = map_option (\<lambda>bs. word_of_nat (le_nat bs)) (rd_block tab p 8)"

definition put_u16 :: "u8 list \<Rightarrow> nat \<Rightarrow> u16 \<Rightarrow> u8 list option" where
  "put_u16 tab p v = wr_block tab p (bytes_u16 v)"

definition put_u32 :: "u8 list \<Rightarrow> nat \<Rightarrow> u32 \<Rightarrow> u8 list option" where
  "put_u32 tab p v = wr_block tab p (bytes_u32 v)"

definition put_u64 :: "u8 list \<Rightarrow> nat \<Rightarrow> u64 \<Rightarrow> u8 list option" where
  "put_u64 tab p v = wr_block tab p (bytes_u64 v)"

lemma bytes_lengths [simp]:
  "length (bytes_u16 a) = 2" "length (bytes_u32 b) = 4" "length (bytes_u64 c) = 8"
  by (simp_all add: bytes_u16_def bytes_u32_def bytes_u64_def)

lemma le_nat_bytes_u16 [simp]: "le_nat (bytes_u16 v) = unat v"
  using unsigned_less [of v, where ?'a = nat] by (simp add: bytes_u16_def le_nat_le_bytes)

lemma le_nat_bytes_u32 [simp]: "le_nat (bytes_u32 v) = unat v"
  using unsigned_less [of v, where ?'a = nat] by (simp add: bytes_u32_def le_nat_le_bytes)

lemma le_nat_bytes_u64 [simp]: "le_nat (bytes_u64 v) = unat v"
  using unsigned_less [of v, where ?'a = nat] by (simp add: bytes_u64_def le_nat_le_bytes)

lemma get_u16_bytes: "p = length xs \<Longrightarrow> get_u16 (xs @ bytes_u16 v @ ys) p = Some (ucast v)"
  by (simp add: get_u16_def rd_block_def unsigned_of_nat)

lemma get_u32_bytes: "p = length xs \<Longrightarrow> get_u32 (xs @ bytes_u32 v @ ys) p = Some v"
  by (simp add: get_u32_def rd_block_def)

lemma get_u32_append_left:
  "p + 4 \<le> length xs \<Longrightarrow> get_u32 (xs @ ys) p = get_u32 xs p"
  by (simp add: get_u32_def rd_block_def)

lemma get_u16_append_left:
  "p + 2 \<le> length xs \<Longrightarrow> get_u16 (xs @ ys) p = get_u16 xs p"
  by (simp add: get_u16_def rd_block_def)

section \<open>Option monad\<close>

lemma bind_Some_iff: "Option.bind m f = Some r \<longleftrightarrow> (\<exists>x. m = Some x \<and> f x = Some r)"
  by (cases m) auto

lemma bind_SomeI: "m = Some x \<Longrightarrow> f x = Some r \<Longrightarrow> Option.bind m f = Some r"
  by simp

section \<open>Words as numbers\<close>

text \<open>Shifts, masks and disjoint \<open>|\<close> read as arithmetic on \<open>unat\<close>.\<close>

lemma unat_shr: "unat (drop_bit k w) = unat w div 2 ^ k" for w :: "'a::len word"
proof -
  have "take_bit LENGTH('a) (unat w) = unat w"
    by (rule take_bit_nat_eq_self) (rule unsigned_less)
  then show ?thesis by (simp add: unsigned_drop_bit_eq drop_bit_eq_div [of k "unat w"])
qed

lemma unat_mask: "unat (take_bit k w) = unat w mod 2 ^ k" for w :: "'a::len word"
  by (simp add: unsigned_take_bit_eq) (simp add: take_bit_eq_mod)

lemma unat_ucast_mod: "unat (ucast w :: 'b::len word) = unat w mod 2 ^ LENGTH('b)" for w :: "'a::len word"
  by (simp add: unsigned_ucast_eq take_bit_eq_mod)

lemma eq_word_of_nat: "unat w = n \<Longrightarrow> w = word_of_nat n" for w :: "'a::len word"
  by auto

lemma and_mask_take_bit:
  "x AND 0x3f = take_bit 6 x" "x AND 0x1f = take_bit 5 x" "x AND 0xf = take_bit 4 x"
  "x AND 0x7 = take_bit 3 x" "x AND 0x3 = take_bit 2 x" "x AND 0x1 = take_bit 1 x"
  "x AND 0x7f = take_bit 7 x" "x AND 0xff = take_bit 8 x" "x AND 0x3ff = take_bit 10 x"
  for x :: "'a::len word"
  by (simp_all add: take_bit_eq_mask mask_numeral)

lemma or_low:
  fixes a b :: "'a::len word"
  assumes "unat a < 2 ^ k" "take_bit k b = 0"
  shows "a OR b = a + b"
proof (rule disjunctive_add [symmetric])
  fix n
  show "\<not> bit a n \<or> \<not> bit b n"
  proof (cases "n < k")
    case True
    then have "bit (take_bit k b) n = bit b n" by (simp add: bit_take_bit_iff)
    with assms(2) show ?thesis by simp
  next
    case False
    have "take_bit k (unat a) = unat a" using assms(1) by (rule take_bit_nat_eq_self)
    then have "\<not> bit (unat a) n" using False by (metis bit_take_bit_iff)
    then show ?thesis by (auto simp: bit_unsigned_iff dest: bit_imp_le_length)
  qed
qed

lemma unat_or_low:
  fixes a b :: "'a::len word"
  assumes "unat a < 2 ^ k" "take_bit k b = 0" "unat a + unat b < 2 ^ LENGTH('a)"
  shows "unat (a OR b) = unat a + unat b"
  using assms by (simp add: or_low unat_word_ariths)

lemma unat_shl:
  "unat w * 2 ^ k < 2 ^ LENGTH('a) \<Longrightarrow> unat (push_bit k w) = unat w * 2 ^ k" for w :: "'a::len word"
  by (simp add: unsigned_push_bit_eq) (simp add: push_bit_eq_mult take_bit_eq_mod)

lemma take_bit_push_bit_low [simp]: "take_bit k (push_bit k w) = 0" for w :: "'a::len word"
  by (rule bit_word_eqI) (simp add: bit_take_bit_iff bit_push_bit_iff)

text \<open>\<open>(a << k) | b\<close> with a \<open>k\<close>-bit \<open>b\<close>.\<close>

lemma unat_shl_or:
  fixes a b :: "'a::len word"
  assumes "unat b < 2 ^ k" "unat a * 2 ^ k + unat b < 2 ^ LENGTH('a)"
  shows "unat (push_bit k a OR b) = unat a * 2 ^ k + unat b"
proof -
  have "unat (b OR push_bit k a) = unat b + unat (push_bit k a)"
    using assms by (intro unat_or_low) (auto simp: unat_shl)
  with assms show ?thesis by (simp add: or.commute unat_shl)
qed

section \<open>Lists\<close>

lemma take_append_exact [simp]: "n = length xs \<Longrightarrow> take n (xs @ ys) = xs"
  by simp

lemma drop_append_exact [simp]: "n = length xs \<Longrightarrow> drop n (xs @ ys) = ys"
  by simp

lemma take_drop_take: "off + len \<le> n \<Longrightarrow> take len (drop off (take n xs)) = take len (drop off xs)"
  by (simp add: drop_take min_def)

text \<open>A prefix of \<open>n\<close> cells after \<open>d\<close> was copied over the cells from \<open>off\<close> on.\<close>

lemma take_overwrite:
  assumes "n \<le> length xs" "off \<le> n" "off + length d \<le> length xs"
  shows "take (max n (off + length d)) (take off xs @ d @ drop (off + length d) xs)
           = take off (take n xs) @ d @ drop (off + length d) (take n xs)"
proof (cases "off + length d \<le> n")
  case True
  with assms show ?thesis
    by (simp add: max_absorb1 min_absorb1 drop_take)
next
  case False
  with assms show ?thesis
    by (simp add: max_absorb2 min_absorb1)
qed

text \<open>The cells from \<open>pos\<close> to \<open>n\<close>, copied to \<open>d\<close>, were moved up by \<open>len\<close>.\<close>

lemma take_shifted:
  assumes "pos \<le> n" "n + len \<le> length xs" "length d = n - pos"
  shows "take (n + len) (take (pos + len) xs @ d @ r)
           = take pos (take n xs) @ take len (drop pos xs) @ d"
proof -
  have "length (take (pos + len) xs @ d) = n + len"
    using assms by simp
  then have "take (n + len) ((take (pos + len) xs @ d) @ r) = take (pos + len) xs @ d"
    by (simp only: take_append_exact)
  with assms show ?thesis
    by (simp add: take_add min_def)
qed

end
