(* ===== verification/Unicode_Props.thy ===== *)
theory Unicode_Props
  imports Unicode_Tables
begin

text \<open>
  Property lookups of libunicode.c (lines 160 to 238, 265 to 270, 433 to 447) and the
  identifier tests of libregexp.h.

  A property is a byte string that encodes run lengths, alternately outside and inside the
  set; an index gives, for every block of about 32 bytes, the code and the byte at which the
  block starts. A pointer into the table is the rest of the table from there on, and reading
  past its end is \<open>None\<close>.

  The lemmas: the shipped indexes agree with the shipped tables (checked by evaluation), so a
  lookup never reads outside its table and gives what reading the table from its first byte gives.
\<close>

section \<open>Lookup\<close>

definition get_le24 :: "u8 list \<Rightarrow> nat \<Rightarrow> u32 option" where
  "get_le24 tab p = do {
     a \<leftarrow> rd tab p;
     b \<leftarrow> rd tab (p + 1);
     c \<leftarrow> rd tab (p + 2);
     Some (ucast a OR push_bit 8 (ucast b) OR push_bit 16 (ucast c))
   }"

definition UNICODE_INDEX_BLOCK_LEN :: nat where
  "UNICODE_INDEX_BLOCK_LEN = 32"

definition index_code :: "u32 \<Rightarrow> u32" where
  "index_code v = v AND (2 ^ 21 - 1)"

definition index_offset :: "nat \<Rightarrow> u32 \<Rightarrow> nat" where
  "index_offset i v = (i + 1) * UNICODE_INDEX_BLOCK_LEN + unat (drop_bit 21 v)"

text \<open>The binary search between \<open>idx_min\<close> and \<open>idx_max\<close>.\<close>

function get_index_search :: "u8 list \<Rightarrow> u32 \<Rightarrow> nat \<Rightarrow> nat \<Rightarrow> nat option" where
  "get_index_search index_table c idx_min idx_max =
     (if idx_max - idx_min > 1 then do {
        let idx = (idx_max + idx_min) div 2;
        v \<leftarrow> get_le24 index_table (idx * 3);
        if c < index_code v then get_index_search index_table c idx_min idx
        else get_index_search index_table c idx idx_max
      } else Some idx_min)"
  by auto
termination
  by (relation "measure (\<lambda>(t, c, i, j). j - i)") auto

declare get_index_search.simps [simp del]

text \<open>The result is \<open>(offset, *pcode)\<close>, or -1 with \<open>*pcode\<close> unset.\<close>

definition get_index_pos :: "u32 \<Rightarrow> u8 list \<Rightarrow> nat \<Rightarrow> (int \<times> u32) option" where
  "get_index_pos c index_table index_table_len = do {
     v \<leftarrow> get_le24 index_table 0;
     if c < index_code v then Some (0, 0)
     else do {
       let idx_max = index_table_len - 1;
       code \<leftarrow> get_le24 index_table (idx_max * 3);
       if c \<ge> code then Some (-1, 0)
       else do {
         idx_min \<leftarrow> get_index_search index_table c 0 idx_max;
         v \<leftarrow> get_le24 index_table (idx_min * 3);
         Some (int (index_offset idx_min v), index_code v)
       }
     }
   }"

text \<open>The loop of \<open>lre_is_in_table\<close>; \<open>p\<close> is the rest of the table.\<close>

fun lre_table_scan :: "u32 \<Rightarrow> u8 list \<Rightarrow> u32 \<Rightarrow> bool \<Rightarrow> bool option" where
  "lre_table_scan c [] code bt = None"
| "lre_table_scan c (b # p) code bt =
     (if b < 64 then
        let code = code + ucast (drop_bit 3 b) + 1 in
        if c < code then Some bt
        else
          let bt = (\<not> bt); code = code + ucast (b AND 7) + 1 in
          if c < code then Some bt else lre_table_scan c p code (\<not> bt)
      else if b \<ge> 0x80 then
        let code = code + ucast b - 0x80 + 1 in
        if c < code then Some bt else lre_table_scan c p code (\<not> bt)
      else if b < 0x60 then
        (case p of
           p0 # p \<Rightarrow>
             let code = code + (push_bit 8 (ucast b - 0x40) OR ucast p0) + 1 in
             if c < code then Some bt else lre_table_scan c p code (\<not> bt)
         | [] \<Rightarrow> None)
      else
        (case p of
           p0 # p1 # p \<Rightarrow>
             let code = code + (push_bit 16 (ucast b - 0x60) OR push_bit 8 (ucast p0) OR ucast p1) + 1 in
             if c < code then Some bt else lre_table_scan c p code (\<not> bt)
         | _ \<Rightarrow> None))"

definition lre_is_in_table :: "u32 \<Rightarrow> u8 list \<Rightarrow> u8 list \<Rightarrow> nat \<Rightarrow> bool option" where
  "lre_is_in_table c table index_table index_table_len = do {
     (pos, code) \<leftarrow> get_index_pos c index_table index_table_len;
     if pos < 0 then Some False
     else lre_table_scan c (drop (nat pos) table) code False
   }"

definition lre_is_case_ignorable :: "u32 \<Rightarrow> bool option" where
  "lre_is_case_ignorable c =
     lre_is_in_table c unicode_prop_Case_Ignorable_table unicode_prop_Case_Ignorable_index
       (length unicode_prop_Case_Ignorable_index div 3)"

definition lre_is_id_start :: "u32 \<Rightarrow> bool option" where
  "lre_is_id_start c =
     lre_is_in_table c unicode_prop_ID_Start_table unicode_prop_ID_Start_index
       (length unicode_prop_ID_Start_index div 3)"

definition lre_is_id_continue :: "u32 \<Rightarrow> bool option" where
  "lre_is_id_continue c = do {
     r \<leftarrow> lre_is_id_start c;
     if r then Some True
     else lre_is_in_table c unicode_prop_ID_Continue1_table unicode_prop_ID_Continue1_index
            (length unicode_prop_ID_Continue1_index div 3)
   }"

definition lre_id_start_table_ascii :: "u32 list" where
  "lre_id_start_table_ascii = [0x00000000, 0x00000010, 0x87FFFFFE, 0x07FFFFFE]"

definition lre_id_continue_table_ascii :: "u32 list" where
  "lre_id_continue_table_ascii = [0x00000000, 0x03FF0010, 0x87FFFFFE, 0x07FFFFFE]"

definition lre_js_is_ident_first :: "u32 \<Rightarrow> bool option" where
  "lre_js_is_ident_first c =
     (if c < 128 then
        map_option (\<lambda>w. bit w (unat (c AND 31))) (rd lre_id_start_table_ascii (unat (drop_bit 5 c)))
      else lre_is_id_start c)"

definition lre_js_is_ident_next :: "u32 \<Rightarrow> bool option" where
  "lre_js_is_ident_next c =
     (if c < 128 then
        map_option (\<lambda>w. bit w (unat (c AND 31))) (rd lre_id_continue_table_ascii (unat (drop_bit 5 c)))
      else do {
        r \<leftarrow> lre_is_id_continue c;
        Some (r \<or> c = 0x200C \<or> c = 0x200D)
      })"

section \<open>The index agrees with the table\<close>

text \<open>
  \<open>table_run\<close> reads one encoded step: the one or two run lengths, the rest of the table and the
  number of bytes read. \<open>table_walk\<close> follows a whole stretch of \<open>n\<close> bytes and gives the rest of
  the table, the code and the side at its end, if a step ends exactly there.
\<close>

fun table_run :: "u8 list \<Rightarrow> (u32 list \<times> u8 list \<times> nat) option" where
  "table_run [] = None"
| "table_run (b # p) =
     (if b < 64 then Some ([ucast (drop_bit 3 b) + 1, ucast (b AND 7) + 1], p, 1)
      else if b \<ge> 0x80 then Some ([ucast b - 0x80 + 1], p, 1)
      else if b < 0x60 then
        (case p of p0 # p \<Rightarrow> Some ([(push_bit 8 (ucast b - 0x40) OR ucast p0) + 1], p, 2) | [] \<Rightarrow> None)
      else
        (case p of
           p0 # p1 # p \<Rightarrow>
             Some ([(push_bit 16 (ucast b - 0x60) OR push_bit 8 (ucast p0) OR ucast p1) + 1], p, 3)
         | _ \<Rightarrow> None))"

lemma table_run_rest: "table_run p = Some (rs, q, k) \<Longrightarrow> k \<le> length p \<and> 0 < k \<and> q = drop k p"
  by (cases p) (auto split: if_splits list.splits)

fun run_steps :: "u32 \<Rightarrow> u32 list \<Rightarrow> u32 \<Rightarrow> bool \<Rightarrow> (u32 \<Rightarrow> bool \<Rightarrow> bool option) \<Rightarrow> bool option" where
  "run_steps c [] code bt k = k code bt"
| "run_steps c (r # rs) code bt k =
     (if c < code + r then Some bt else run_steps c rs (code + r) (\<not> bt) k)"

lemma lre_table_scan_run:
  "lre_table_scan c p code bt =
     (case table_run p of
        None \<Rightarrow> None
      | Some (rs, q, k) \<Rightarrow> run_steps c rs code bt (lre_table_scan c q))"
  by (cases p) (auto simp: Let_def algebra_simps split: list.splits)

function table_walk :: "nat \<Rightarrow> u8 list \<Rightarrow> nat \<Rightarrow> bool \<Rightarrow> (u8 list \<times> nat \<times> bool) option" where
  "table_walk n p code bt =
     (if n = 0 then Some (p, code, bt)
      else case table_run p of
        None \<Rightarrow> None
      | Some (rs, q, k) \<Rightarrow>
          if k \<le> n then table_walk (n - k) q (code + sum_list (map unat rs)) (bt \<noteq> odd (length rs))
          else None)"
  by auto
termination
  by (relation "measure fst") (auto dest: table_run_rest)

declare table_walk.simps [simp del]

lemma table_walk_mono: "table_walk n p code bt = Some (q, code', bt') \<Longrightarrow> code \<le> code' \<and> q = drop n p"
proof (induction n p code bt rule: table_walk.induct)
  case (1 n p code bt)
  show ?case
  proof (cases "n = 0")
    case True
    with "1.prems" show ?thesis by (simp add: table_walk.simps)
  next
    case False
    with "1.prems" obtain rs q1 k where run: "table_run p = Some (rs, q1, k)" "k \<le> n"
      "table_walk (n - k) q1 (code + sum_list (map unat rs)) (bt \<noteq> odd (length rs)) = Some (q, code', bt')"
      by (subst (asm) table_walk.simps) (auto split: option.splits if_splits)
    have "code + sum_list (map unat rs) \<le> code' \<and> q = drop (n - k) q1"
      using "1.IH" [OF False run(1) refl refl run(2,3)] .
    with run(2) table_run_rest [OF run(1)] show ?thesis by auto
  qed
qed

lemma run_steps_past:
  "unat code + sum_list (map unat rs) \<le> unat c \<Longrightarrow>
     run_steps c rs code bt k
       = k (word_of_nat (unat code + sum_list (map unat rs))) (bt \<noteq> odd (length rs))"
proof (induction rs arbitrary: code bt)
  case Nil
  then show ?case by simp
next
  case (Cons r rs)
  have "unat code + unat r < 2 ^ 32"
    using Cons.prems unsigned_less [of c, where ?'a = nat] by simp
  then have u: "unat (code + r) = unat code + unat r"
    by (simp add: unat_word_ariths)
  with Cons.prems have "\<not> c < code + r"
    by (simp add: word_less_nat_alt)
  with Cons.IH [of "code + r" "\<not> bt"] Cons.prems u show ?case
    by (simp add: add.assoc)
qed

lemma run_steps_total:
  "unat code + sum_list (map unat rs) < 2 ^ 32 \<Longrightarrow> unat c < unat code + sum_list (map unat rs) \<Longrightarrow>
     unat code \<le> unat c \<Longrightarrow> \<exists>r. run_steps c rs code bt k = Some r"
proof (induction rs arbitrary: code bt)
  case Nil
  then show ?case by simp
next
  case (Cons r rs)
  have u: "unat (code + r) = unat code + unat r"
    using Cons.prems(1) by (simp add: unat_word_ariths)
  show ?case
  proof (cases "c < code + r")
    case True
    then show ?thesis by simp
  next
    case False
    with Cons.IH [of "code + r" "\<not> bt"] Cons.prems u show ?thesis
      by (simp add: word_less_nat_alt add.assoc)
  qed
qed

lemma table_walk_scan:
  assumes "table_walk n p code bt = Some (q, code', bt')" "code \<le> unat c" "code' < 2 ^ 32"
  shows "if code' \<le> unat c
         then lre_table_scan c p (word_of_nat code) bt = lre_table_scan c q (word_of_nat code') bt'
         else \<exists>r. lre_table_scan c p (word_of_nat code) bt = Some r"
  using assms
proof (induction n p code bt rule: table_walk.induct)
  case (1 n p code bt)
  show ?case
  proof (cases "n = 0")
    case True
    with "1.prems" show ?thesis by (simp add: table_walk.simps)
  next
    case False
    with "1.prems"(1) obtain rs q1 k where run: "table_run p = Some (rs, q1, k)" "k \<le> n"
      "table_walk (n - k) q1 (code + sum_list (map unat rs)) (bt \<noteq> odd (length rs)) = Some (q, code', bt')"
      by (subst (asm) table_walk.simps) (auto split: option.splits if_splits)
    let ?code = "code + sum_list (map unat rs)"
    have le: "?code \<le> code'" using table_walk_mono [OF run(3)] by simp
    with "1.prems"(3) have u: "unat (word_of_nat code :: u32) = code"
      by (simp add: unat_of_nat)
    have scan: "lre_table_scan c p (word_of_nat code) bt
        = run_steps c rs (word_of_nat code) bt (lre_table_scan c q1)"
      by (subst lre_table_scan_run) (simp add: run(1))
    show ?thesis
    proof (cases "?code \<le> unat c")
      case True
      then have "lre_table_scan c p (word_of_nat code) bt
          = lre_table_scan c q1 (word_of_nat ?code) (bt \<noteq> odd (length rs))"
        using scan run_steps_past [of "word_of_nat code" rs c bt] u by simp
      with "1.IH" [OF False run(1) refl refl run(2,3) True "1.prems"(3)] show ?thesis
        by (simp only:)
    next
      case past: False
      then have "\<exists>r. lre_table_scan c p (word_of_nat code) bt = Some r"
        using scan run_steps_total [of "word_of_nat code" rs c bt] u le "1.prems"(2,3) by simp
      with past le show ?thesis by simp
    qed
  qed
qed

text \<open>An entry of the index as the offset and the code it names, and the check of all of them.\<close>

definition index_entry :: "u8 list \<Rightarrow> nat \<Rightarrow> (nat \<times> nat) option" where
  "index_entry tab i = map_option (\<lambda>v.
     (index_offset i v, unat (index_code v))) (get_le24 tab (i * 3))"

fun index_check :: "(nat \<times> nat) list \<Rightarrow> nat \<Rightarrow> u8 list \<Rightarrow> nat \<Rightarrow> bool" where
  "index_check [] pos p code \<longleftrightarrow> False"
| "index_check [(P, C)] pos p code \<longleftrightarrow> table_walk (length p) p code False = Some ([], C, False)"
| "index_check ((P, C) # es) pos p code \<longleftrightarrow>
     pos \<le> P \<and>
     (case table_walk (P - pos) p code False of
        None \<Rightarrow> False
      | Some (q, code', bt') \<Rightarrow> code' = C \<and> \<not> bt' \<and> index_check es P q C)"

lemma index_check_ge: "index_check es pos p code \<Longrightarrow> e \<in> set es \<Longrightarrow> code \<le> snd e"
proof (induction es pos p code arbitrary: e rule: index_check.induct)
  case (2 P C pos p code)
  then show ?case by (auto dest: table_walk_mono)
next
  case (3 P C e' es pos p code)
  then obtain q where w: "table_walk (P - pos) p code False = Some (q, C, False)"
    "index_check (e' # es) P q C"
    by (auto split: option.splits)
  have "code \<le> C" using table_walk_mono [OF w(1)] by simp
  with 3(1) [OF w(1) refl refl w(2), of e] 3(3) show ?case by auto
qed auto

lemma index_check_first:
  "index_check es pos p code \<Longrightarrow> 2 \<le> length es \<Longrightarrow> snd (es ! 0) \<le> snd (last es)"
proof (induction es pos p code rule: index_check.induct)
  case (3 P C e es pos p code)
  then obtain q where w: "index_check (e # es) P q C"
    by (auto split: option.splits)
  have "C \<le> snd (last (e # es))"
    by (rule index_check_ge [OF w last_in_set]) simp
  then show ?case by simp
qed auto

lemma index_check_scan:
  assumes "index_check es pos p code" "snd (last es) < 2 ^ 32" "code \<le> unat c" "unat c < snd (last es)"
  shows "(\<exists>r. lre_table_scan c p (word_of_nat code) False = Some r) \<and>
    (\<forall>i. i + 1 < length es \<and> snd (es ! i) \<le> unat c \<longrightarrow>
       lre_table_scan c p (word_of_nat code) False
         = lre_table_scan c (drop (fst (es ! i) - pos) p) (word_of_nat (snd (es ! i))) False
       \<and> pos \<le> fst (es ! i))"
  using assms
proof (induction es pos p code rule: index_check.induct)
  case (1 pos p code)
  then show ?case by simp
next
  case (2 P C pos p code)
  then have w: "table_walk (length p) p code False = Some ([], C, False)" "C < 2 ^ 32" "\<not> C \<le> unat c"
    by auto
  show ?case using table_walk_scan [OF w(1) 2(3) w(2)] w(3) by auto
next
  case (3 P C e es pos p code)
  then obtain q where w: "table_walk (P - pos) p code False = Some (q, C, False)" "pos \<le> P"
    "index_check (e # es) P q C"
    by (auto split: option.splits)
  have q: "q = drop (P - pos) p" using table_walk_mono [OF w(1)] by simp
  show ?case
  proof (cases "C \<le> unat c")
    case True
    then have C: "C < 2 ^ 32" using unsigned_less [of c, where ?'a = nat] by simp
    have here: "lre_table_scan c p (word_of_nat code) False = lre_table_scan c q (word_of_nat C) False"
      using table_walk_scan [OF w(1) 3(4) C] True by simp
    have *: "(\<exists>r. lre_table_scan c q (word_of_nat C) False = Some r) \<and>
      (\<forall>i. i + 1 < length (e # es) \<and> snd ((e # es) ! i) \<le> unat c \<longrightarrow>
       lre_table_scan c q (word_of_nat C) False
         = lre_table_scan c (drop (fst ((e # es) ! i) - P) q) (word_of_nat (snd ((e # es) ! i))) False
       \<and> P \<le> fst ((e # es) ! i))"
      using "3.IH" [OF w(1) refl refl w(3) _ True] 3(3,5) by simp
    show ?thesis
    proof (intro conjI allI impI)
      show "\<exists>r. lre_table_scan c p (word_of_nat code) False = Some r" using here * by simp
      fix i assume i: "i + 1 < length ((P, C) # e # es) \<and> snd (((P, C) # e # es) ! i) \<le> unat c"
      show "lre_table_scan c p (word_of_nat code) False
         = lre_table_scan c (drop (fst (((P, C) # e # es) ! i) - pos) p)
             (word_of_nat (snd (((P, C) # e # es) ! i))) False"
        using i here * w(2) q by (cases i) (auto simp: add.commute)
      show "pos \<le> fst (((P, C) # e # es) ! i)"
        using i * w(2) by (cases i) auto
    qed
  next
    case False
    have C: "C < 2 ^ 32"
      using index_check_ge [OF w(3) last_in_set] 3(3) by (simp split: if_splits)
    have "\<exists>r. lre_table_scan c p (word_of_nat code) False = Some r"
      using table_walk_scan [OF w(1) 3(4) C] False by simp
    moreover have "\<not> snd (((P, C) # e # es) ! i) \<le> unat c" if "i < length ((P, C) # e # es)" for i
    proof (cases i)
      case 0
      with False show ?thesis by simp
    next
      case (Suc j)
      with that have "C \<le> snd ((e # es) ! j)"
        by (intro index_check_ge [OF w(3) nth_mem]) simp
      with Suc False show ?thesis by simp
    qed
    ultimately show ?thesis by auto
  qed
qed

section \<open>The search in the index\<close>

definition index_entries :: "u8 list \<Rightarrow> nat \<Rightarrow> (nat \<times> nat) list" where
  "index_entries tab n = map (\<lambda>i. the (index_entry tab i)) [0..<n]"

text \<open>
  A well formed pair of table and index: at least two entries, all readable, no offset bits in
  the last one, and the entries agree with the table.
\<close>

definition index_ok :: "u8 list \<Rightarrow> u8 list \<Rightarrow> bool" where
  "index_ok table tab \<longleftrightarrow>
     (let n = length tab div 3 in
      2 \<le> n \<and> length tab = 3 * n
      \<and> index_check (index_entries tab n) 0 table 0
      \<and> fst (last (index_entries tab n)) = n * UNICODE_INDEX_BLOCK_LEN)"

lemma index_code_take_bit: "index_code v = take_bit 21 v"
  by (simp only: index_code_def take_bit_eq_mask mask_eq_exp_minus_1)

lemma get_le24_some:
  assumes "i < length tab div 3"
  obtains v where "get_le24 tab (i * 3) = Some v"
    "index_entry tab i = Some (index_offset i v, unat (index_code v))"
    "index_entries tab (length tab div 3) ! i = (index_offset i v, unat (index_code v))"
proof -
  have "i * 3 + 2 < length tab" using assms by linarith
  then have "rd tab (i * 3) = Some (tab ! (i * 3))" "rd tab (i * 3 + 1) = Some (tab ! (i * 3 + 1))"
    "rd tab (i * 3 + 2) = Some (tab ! (i * 3 + 2))"
    by simp_all
  then have "\<exists>v. get_le24 tab (i * 3) = Some v"
    unfolding get_le24_def by (simp only: bind.bind_lunit) blast
  then obtain v where "get_le24 tab (i * 3) = Some v" by blast
  with that assms show thesis by (simp add: index_entry_def index_entries_def)
qed

lemma get_index_search_spec:
  assumes "idx_min < idx_max" "idx_max < n" "n = length tab div 3"
    and "snd (index_entries tab n ! idx_min) \<le> unat c" "unat c < snd (index_entries tab n ! idx_max)"
  shows "\<exists>i. get_index_search tab c idx_min idx_max = Some i \<and> i + 1 < n
           \<and> snd (index_entries tab n ! i) \<le> unat c"
  using assms
proof (induction tab c idx_min idx_max rule: get_index_search.induct)
  case (1 tab c lo hi)
  show ?case
  proof (cases "hi - lo > 1")
    case False
    with 1 show ?thesis
      by (subst get_index_search.simps) (auto intro!: exI [of _ lo])
  next
    case True
    let ?m = "(hi + lo) div 2"
    have m: "lo < ?m" "?m < hi" using True by auto
    then have "?m < length tab div 3" using "1.prems" by simp
    then obtain v where v: "get_le24 tab (?m * 3) = Some v"
      and e: "index_entries tab n ! ?m
              = (index_offset ?m v, unat (index_code v))"
      unfolding "1.prems"(3) by (rule get_le24_some)
    then have e: "snd (index_entries tab n ! ?m) = unat (index_code v)" by simp
    have step: "get_index_search tab c lo hi =
        (if c < index_code v then get_index_search tab c lo ?m else get_index_search tab c ?m hi)"
      using True v(1) by (subst get_index_search.simps) (simp add: Let_def)
    show ?thesis
    proof (cases "c < index_code v")
      case less: True
      have "\<exists>i. get_index_search tab c lo ?m = Some i \<and> i + 1 < n
           \<and> snd (index_entries tab n ! i) \<le> unat c"
        using less m e "1.prems" by (intro "1.IH"(1) [OF True refl v(1)]) (auto simp: word_less_nat_alt)
      with step less show ?thesis by simp
    next
      case ge: False
      have "\<exists>i. get_index_search tab c ?m hi = Some i \<and> i + 1 < n
           \<and> snd (index_entries tab n ! i) \<le> unat c"
        using ge m e "1.prems" by (intro "1.IH"(2) [OF True refl v(1)]) (auto simp: word_less_nat_alt)
      with step ge show ?thesis by simp
    qed
  qed
qed

text \<open>
  With a well formed index a lookup is the scan of the table from its first byte, below the
  last code of the index, and false from there on.
\<close>

lemma lre_is_in_table_scan:
  assumes ok: "index_ok table tab"
  shows "\<exists>r limit. lre_is_in_table c table tab (length tab div 3) = Some r
           \<and> limit = word_of_nat (snd (last (index_entries tab (length tab div 3))))
           \<and> (if c < limit then lre_table_scan c table 0 False = Some r else \<not> r)"
proof -
  define n where "n = length tab div 3"
  define es where "es = index_entries tab n"
  have n: "2 \<le> n" "length es = n" and chk: "index_check es 0 table 0"
    and off: "fst (last es) = n * UNICODE_INDEX_BLOCK_LEN"
    using ok by (simp_all add: index_ok_def Let_def n_def es_def index_entries_def)
  have n0: "0 < length tab div 3" and nl: "n - 1 < length tab div 3" using n(1) by (auto simp: n_def)
  obtain v0 where v0: "get_le24 tab (0 * 3) = Some v0"
    "es ! 0 = (index_offset 0 v0, unat (index_code v0))"
    unfolding es_def n_def by (rule get_le24_some [OF n0])
  obtain vl where vl': "get_le24 tab ((n - 1) * 3) = Some vl"
    "es ! (n - 1) = (index_offset (n - 1) vl, unat (index_code vl))"
    unfolding es_def n_def by (rule get_le24_some [OF nl [unfolded n_def]])
  have vl: "get_le24 tab ((n - 1) * 3) = Some vl"
    "es ! (n - 1) = (n * UNICODE_INDEX_BLOCK_LEN + unat (drop_bit 21 vl), unat (index_code vl))"
    using vl' n(1) by (simp_all add: index_offset_def)
  have "es \<noteq> []" using n by auto
  then have last: "last es = es ! (n - 1)" using n(2) by (simp add: last_conv_nth)
  have "drop_bit 21 vl = 0" using off last vl(2) by (simp add: unat_eq_0)
  then have "unat vl < 2 ^ 21"
    using unat_shr [of 21 vl] by (simp add: div_eq_0_iff)
  then have vl_code: "index_code vl = vl"
    by (simp add: index_code_take_bit word_unat_eq_iff unat_mask)
  have lim: "snd (last es) = unat vl" "word_of_nat (snd (last es)) = vl"
    using last vl(2) vl_code by simp_all
  have le0: "lre_is_in_table c table tab n =
      (if c < index_code v0 then lre_table_scan c table 0 False
       else if c \<ge> vl then Some False
       else do {
         i \<leftarrow> get_index_search tab c 0 (n - 1);
         v \<leftarrow> get_le24 tab (i * 3);
         lre_table_scan c (drop (index_offset i v) table)
           (index_code v) False
       })"
    using v0(1) vl(1)
    by (simp add: lre_is_in_table_def get_index_pos_def Let_def bind_assoc nat_add_distrib)
  have scan: "(\<exists>r. lre_table_scan c table 0 False = Some r) \<and>
    (\<forall>i. i + 1 < n \<and> snd (es ! i) \<le> unat c \<longrightarrow>
       lre_table_scan c table 0 False
         = lre_table_scan c (drop (fst (es ! i)) table) (word_of_nat (snd (es ! i))) False)"
    if "c < vl"
    using index_check_scan [OF chk, of c] that lim(1) n(2) unsigned_less [of vl, where ?'a = nat]
    by (auto simp: word_less_nat_alt)
  have v0_le: "unat (index_code v0) \<le> unat vl"
    using index_check_first [OF chk] n v0(2) lim(1) by simp
  show ?thesis
  proof (cases "c < vl")
    case False
    then have "\<not> c < index_code v0" using v0_le by (simp add: word_less_nat_alt)
    moreover have "vl \<le> c" using False by simp
    ultimately have "lre_is_in_table c table tab n = Some False" using le0 by simp
    with False lim(2) show ?thesis by (intro exI [of _ False] exI [of _ vl]) (simp add: n_def es_def)
  next
    case True
    obtain r where r: "lre_table_scan c table 0 False = Some r" using scan [OF True] by blast
    have "lre_is_in_table c table tab n = Some r"
    proof (cases "c < index_code v0")
      case True
      with le0 r show ?thesis by simp
    next
      case ge: False
      have "\<exists>i. get_index_search tab c 0 (n - 1) = Some i \<and> i + 1 < n \<and> snd (es ! i) \<le> unat c"
        using n ge True v0(2) last lim(1) unfolding es_def
        by (intro get_index_search_spec) (auto simp: n_def word_less_nat_alt)
      then obtain i where i: "get_index_search tab c 0 (n - 1) = Some i" "i + 1 < n"
        "snd (es ! i) \<le> unat c" by blast
      then have "i < length tab div 3" by (simp add: n_def)
      then obtain v where v: "get_le24 tab (i * 3) = Some v"
        and e: "es ! i = (index_offset i v, unat (index_code v))"
        unfolding es_def n_def by (rule get_le24_some)
      have "lre_table_scan c table 0 False
          = lre_table_scan c (drop (fst (es ! i)) table) (word_of_nat (snd (es ! i))) False"
        using scan [OF True] i(2,3) by blast
      then show ?thesis
        using le0 ge True i(1) v e r by simp
    qed
    with True r lim(2) show ?thesis by (simp add: n_def es_def)
  qed
qed

section \<open>Evaluating the check on the shipped tables\<close>

lemma unat_ucast_minus:
  "unat k \<le> unat b \<Longrightarrow> unat k < 2 ^ 8 \<Longrightarrow> unat (ucast (b :: u8) - k :: u32) = unat b - unat k"
proof -
  assume "unat k \<le> unat b"
  moreover have "unat (ucast b :: u32) = unat b"
    using unsigned_less [of b, where ?'a = nat] by (simp add: unat_ucast_mod)
  ultimately show ?thesis by (subst unat_sub) (simp_all add: word_le_nat_alt)
qed

lemma unat_byte_steps:
  fixes b :: u8
  shows "unat (ucast (drop_bit 3 b) + 1 :: u32) = unat b div 8 + 1"
    "unat (ucast (b AND 7) + 1 :: u32) = unat b mod 8 + 1"
proof -
  have "unat b < 256" using unsigned_less [of b, where ?'a = nat] by simp
  then have "unat b div 8 < 256" by linarith
  then show "unat (ucast (drop_bit 3 b) + 1 :: u32) = unat b div 8 + 1"
    by (simp add: unat_word_ariths unat_ucast_mod unat_shr)
  have "unat b mod 8 < 256" by (rule order.strict_trans [of _ 8]) simp_all
  then show "unat (ucast (b AND 7) + 1 :: u32) = unat b mod 8 + 1"
    by (simp add: unat_word_ariths unat_ucast_mod unat_mask and_mask_take_bit del: mod_less_divisor)
qed

lemma unat_run1: "0x80 \<le> b \<Longrightarrow> unat (ucast (b :: u8) - 0x80 + 1 :: u32) = unat b - 127"
  using unat_ucast_minus [of "0x7f" b] by (simp add: word_le_nat_alt)

lemma unat_run2:
  fixes b p0 :: u8
  assumes "0x40 \<le> b" "b < 0x60"
  shows "unat ((push_bit 8 (ucast b - 0x40) OR ucast p0) + 1 :: u32) = (unat b - 64) * 256 + unat p0 + 1"
proof -
  have b: "64 \<le> unat b" "unat b < 96" using assms by (simp_all add: word_le_nat_alt word_less_nat_alt)
  have p: "unat p0 < 256" using unsigned_less [of p0, where ?'a = nat] by simp
  have u: "unat (ucast b - 0x40 :: u32) = unat b - 64"
    using unat_ucast_minus [of "0x40" b] b by simp
  have "unat (push_bit 8 (ucast b - 0x40) OR ucast p0 :: u32) = (unat b - 64) * 2 ^ 8 + unat (ucast p0 :: u32)"
    using b p u by (subst unat_shl_or) (simp_all add: unat_ucast_mod)
  then show ?thesis using b p by (simp add: unat_word_ariths unat_ucast_mod)
qed

lemma unat_run3:
  fixes b p0 p1 :: u8
  assumes "0x60 \<le> b" "b < 0x80"
  shows "unat ((push_bit 16 (ucast b - 0x60) OR push_bit 8 (ucast p0) OR ucast p1) + 1 :: u32)
     = (unat b - 96) * 65536 + unat p0 * 256 + unat p1 + 1"
proof -
  have b: "96 \<le> unat b" "unat b < 128" using assms by (simp_all add: word_le_nat_alt word_less_nat_alt)
  have p: "unat p0 < 256" "unat p1 < 256" using unsigned_less [of p0, where ?'a = nat] unsigned_less [of p1, where ?'a = nat] by simp_all
  have u: "unat (ucast b - 0x60 :: u32) = unat b - 96"
    using unat_ucast_minus [of "0x60" b] b by simp
  have lo: "unat (push_bit 8 (ucast p0) OR ucast p1 :: u32) = unat p0 * 2 ^ 8 + unat p1"
    using p by (subst unat_shl_or) (simp_all add: unat_ucast_mod)
  have "unat (push_bit 16 (ucast b - 0x60) OR (push_bit 8 (ucast p0) OR ucast p1) :: u32) = (unat b - 96) * 2 ^ 16 + (unat p0 * 2 ^ 8 + unat p1)"
    using b p u lo by (subst unat_shl_or) simp_all
  then show ?thesis using b p by (simp add: unat_word_ariths or.assoc)
qed

lemma table_walk_0: "table_walk 0 p code bt = Some (p, code, bt)"
  by (simp add: table_walk.simps)

lemma table_walk_short:
  "0 < n \<Longrightarrow> b < 64 \<Longrightarrow>
     table_walk n (b # p) code bt = table_walk (n - 1) p (code + (unat b div 8 + unat b mod 8 + 2)) bt"
  by (subst table_walk.simps) (simp only: table_run.simps unat_byte_steps option.case prod.case
      if_True list.map sum_list.Cons sum_list.Nil, simp add: ac_simps)

lemma table_walk_1:
  "0 < n \<Longrightarrow> 0x80 \<le> b \<Longrightarrow>
     table_walk n (b # p) code bt = table_walk (n - 1) p (code + (unat b - 127)) (\<not> bt)"
  using unat_run1 [of b]
  by (subst table_walk.simps) (auto simp: word_less_nat_alt word_le_nat_alt)

lemma table_walk_2:
  "1 < n \<Longrightarrow> 0x40 \<le> b \<Longrightarrow> b < 0x60 \<Longrightarrow>
     table_walk n (b # p0 # p) code bt
       = table_walk (n - 2) p (code + ((unat b - 64) * 256 + unat p0 + 1)) (\<not> bt)"
  by (subst table_walk.simps) (simp add: unat_run2 word_less_nat_alt word_le_nat_alt)

lemma table_walk_3:
  "2 < n \<Longrightarrow> 0x60 \<le> b \<Longrightarrow> b < 0x80 \<Longrightarrow>
     table_walk n (b # p0 # p1 # p) code bt
       = table_walk (n - 3) p (code + ((unat b - 96) * 65536 + unat p0 * 256 + unat p1 + 1)) (\<not> bt)"
  by (subst table_walk.simps) (simp add: unat_run3 word_less_nat_alt word_le_nat_alt)

lemma table_walk_cong:
  "n = n' \<Longrightarrow> code = code' \<Longrightarrow> bt = bt' \<Longrightarrow> table_walk n p code bt = table_walk n' p code' bt'"
  by simp

lemmas table_walk_rules = table_walk_0 table_walk_short table_walk_1 table_walk_2 table_walk_3

text \<open>The rest of the table is left alone while a stretch of it is walked.\<close>

lemma index_check_cong:
  "es = es' \<Longrightarrow> pos = pos' \<Longrightarrow> code = code' \<Longrightarrow> index_check es pos p code = index_check es' pos' p code'"
  by simp

lemmas index_entry_eval = index_entries_def index_entry_def get_le24_def rd_def upt_rec
  index_offset_def UNICODE_INDEX_BLOCK_LEN_def index_code_def

lemma Cased1_entries:
  "index_entries unicode_prop_Cased1_index 6 =
    [(39, 697), (66, 7840), (98, 42654), (128, 119994), (160, 120713), (192, 127370)]"
  by (simp add: index_entry_eval unicode_prop_Cased1_index_def)

lemma index_ok_Cased1: "index_ok unicode_prop_Cased1_table unicode_prop_Cased1_index"
proof -
  have "length unicode_prop_Cased1_index = 18" by (simp add: unicode_prop_Cased1_index_def)
  moreover have "index_check (index_entries unicode_prop_Cased1_index 6) 0 unicode_prop_Cased1_table 0"
    unfolding Cased1_entries unicode_prop_Cased1_table_def
    by (simp add: table_walk_rules cong: table_walk_cong index_check_cong)
  ultimately show ?thesis
    by (simp add: index_ok_def Cased1_entries UNICODE_INDEX_BLOCK_LEN_def)
qed

lemma Case_Ignorable_entries:
  "index_entries unicode_prop_Case_Ignorable_index 22 =
    [(32, 1470), (64, 2046), (97, 2642), (129, 3077), (162, 3643), (194, 4193),
     (225, 6159), (259, 6979), (288, 7545), (320, 8433), (354, 42509), (385, 43310),
     (416, 43742), (449, 65295), (482, 68327), (513, 70018), (547, 70852), (576, 72004),
     (609, 73032), (640, 113828), (672, 123198), (704, 918000)]"
  by (simp add: index_entry_eval unicode_prop_Case_Ignorable_index_def)

lemma index_ok_Case_Ignorable: "index_ok unicode_prop_Case_Ignorable_table unicode_prop_Case_Ignorable_index"
proof -
  have "length unicode_prop_Case_Ignorable_index = 66" by (simp add: unicode_prop_Case_Ignorable_index_def)
  moreover have "index_check (index_entries unicode_prop_Case_Ignorable_index 22) 0 unicode_prop_Case_Ignorable_table 0"
    unfolding Case_Ignorable_entries unicode_prop_Case_Ignorable_table_def
    by (simp add: table_walk_rules cong: table_walk_cong index_check_cong)
  ultimately show ?thesis
    by (simp add: index_ok_def Case_Ignorable_entries UNICODE_INDEX_BLOCK_LEN_def)
qed

lemma ID_Start_entries:
  "index_entries unicode_prop_ID_Start_index 33 =
    [(33, 1014), (64, 1958), (96, 2473), (128, 2740), (160, 3002), (192, 3390),
     (225, 3808), (256, 4695), (288, 5867), (321, 6602), (355, 7616), (384, 8320),
     (416, 11566), (449, 12736), (481, 42889), (512, 43504), (544, 44003), (576, 64830),
     (609, 65787), (643, 67383), (672, 68097), (705, 69405), (736, 70188), (769, 70856),
     (801, 72145), (832, 73031), (865, 92729), (896, 101641), (928, 119996), (961, 120745),
     (992, 126522), (1025, 173790), (1056, 201547)]"
  by (simp add: index_entry_eval unicode_prop_ID_Start_index_def)

lemma index_ok_ID_Start: "index_ok unicode_prop_ID_Start_table unicode_prop_ID_Start_index"
proof -
  have "length unicode_prop_ID_Start_index = 99" by (simp add: unicode_prop_ID_Start_index_def)
  moreover have "index_check (index_entries unicode_prop_ID_Start_index 33) 0 unicode_prop_ID_Start_table 0"
    unfolding ID_Start_entries unicode_prop_ID_Start_table_def
    by (simp add: table_walk_rules cong: table_walk_cong index_check_cong)
  ultimately show ?thesis
    by (simp add: index_ok_def ID_Start_entries UNICODE_INDEX_BLOCK_LEN_def)
qed

lemma ID_Continue1_entries:
  "index_entries unicode_prop_ID_Continue1_index 20 =
    [(32, 1786), (64, 2436), (96, 2800), (128, 3184), (160, 3572), (193, 4170),
     (225, 6170), (257, 7028), (288, 8413), (320, 43020), (353, 43610), (384, 65306),
     (416, 69293), (449, 70200), (481, 71105), (513, 72165), (545, 73130), (578, 119180),
     (609, 123210), (640, 918000)]"
  by (simp add: index_entry_eval unicode_prop_ID_Continue1_index_def)

lemma index_ok_ID_Continue1: "index_ok unicode_prop_ID_Continue1_table unicode_prop_ID_Continue1_index"
proof -
  have "length unicode_prop_ID_Continue1_index = 60" by (simp add: unicode_prop_ID_Continue1_index_def)
  moreover have "index_check (index_entries unicode_prop_ID_Continue1_index 20) 0 unicode_prop_ID_Continue1_table 0"
    unfolding ID_Continue1_entries unicode_prop_ID_Continue1_table_def
    by (simp add: table_walk_rules cong: table_walk_cong index_check_cong)
  ultimately show ?thesis
    by (simp add: index_ok_def ID_Continue1_entries UNICODE_INDEX_BLOCK_LEN_def)
qed

section \<open>Properties\<close>

text \<open>What a lookup gives by reading the table from its first byte.\<close>

definition table_reference :: "u32 \<Rightarrow> u32 \<Rightarrow> u8 list \<Rightarrow> bool option" where
  "table_reference limit c table = (if c < limit then lre_table_scan c table 0 False else Some False)"

lemma lre_is_in_table_reference:
  assumes "index_ok table tab"
  shows "\<exists>r. lre_is_in_table c table tab (length tab div 3) = Some r
           \<and> table_reference (word_of_nat (snd (last (index_entries tab (length tab div 3))))) c table = Some r"
  using lre_is_in_table_scan [OF assms, of c] by (auto simp: table_reference_def)

text \<open>
  C11: the indexed lookups of the Unicode properties agree with their tables for every code
  point: \<open>lre_is_case_ignorable\<close>, \<open>lre_is_id_start\<close> and \<open>lre_is_id_continue\<close> never read outside
  the shipped tables and give what decoding the run lengths from the first byte gives, the index
  being only a shortcut.
\<close>

theorem property_lookups_reference:
  "\<exists>i s k.
     lre_is_case_ignorable c = Some i
     \<and> table_reference 918000 c unicode_prop_Case_Ignorable_table = Some i
     \<and> lre_is_id_start c = Some s \<and> table_reference 201547 c unicode_prop_ID_Start_table = Some s
     \<and> table_reference 918000 c unicode_prop_ID_Continue1_table = Some k
     \<and> lre_is_id_continue c = Some (s \<or> k)"
proof -
  have l: "length unicode_prop_Case_Ignorable_index div 3 = 22"
    "length unicode_prop_ID_Start_index div 3 = 33" "length unicode_prop_ID_Continue1_index div 3 = 20"
    by (simp_all add: unicode_prop_Case_Ignorable_index_def unicode_prop_ID_Start_index_def
        unicode_prop_ID_Continue1_index_def)
  obtain i where "lre_is_case_ignorable c = Some i"
    "table_reference 918000 c unicode_prop_Case_Ignorable_table = Some i"
    using lre_is_in_table_reference [OF index_ok_Case_Ignorable, of c]
    unfolding lre_is_case_ignorable_def l by (auto simp: Case_Ignorable_entries)
  moreover obtain s where "lre_is_id_start c = Some s"
    "table_reference 201547 c unicode_prop_ID_Start_table = Some s"
    using lre_is_in_table_reference [OF index_ok_ID_Start, of c]
    unfolding lre_is_id_start_def l by (auto simp: ID_Start_entries)
  moreover obtain k where
    "lre_is_in_table c unicode_prop_ID_Continue1_table unicode_prop_ID_Continue1_index 20 = Some k"
    "table_reference 918000 c unicode_prop_ID_Continue1_table = Some k"
    using lre_is_in_table_reference [OF index_ok_ID_Continue1, of c]
    unfolding l by (auto simp: ID_Continue1_entries)
  ultimately show ?thesis
    by (simp add: lre_is_id_continue_def l)
qed

lemma lre_is_id_start_total: "\<exists>r. lre_is_id_start c = Some r"
  using lre_is_in_table_reference [OF index_ok_ID_Start, of c] by (auto simp: lre_is_id_start_def)

lemma lre_is_id_continue_total: "\<exists>r. lre_is_id_continue c = Some r"
  using lre_is_in_table_reference [OF index_ok_ID_Start, of c]
    lre_is_in_table_reference [OF index_ok_ID_Continue1, of c]
  by (auto simp: lre_is_id_continue_def lre_is_id_start_def)

lemma ascii_index: "c < 128 \<Longrightarrow> unat (drop_bit 5 c) < 4" for c :: u32
  by (simp add: unat_shr word_less_nat_alt less_mult_imp_div_less)

lemma lre_js_is_ident_total:
  "\<exists>r. lre_js_is_ident_first c = Some r" "\<exists>r. lre_js_is_ident_next c = Some r"
  using lre_is_id_start_total [of c] lre_is_id_continue_total [of c] ascii_index [of c]
  by (auto simp: lre_js_is_ident_first_def lre_js_is_ident_next_def rd_def
      lre_id_start_table_ascii_def lre_id_continue_table_ascii_def)

end
