(* ===== verification/Js_Alloc.thy ===== *)
theory Js_Alloc
  imports QJS_Prelude
begin

text \<open>
  The runtime's allocator, quickjs.c lines 1749 to 1803: \<open>js_def_malloc\<close>, \<open>js_def_free\<close> and
  \<open>js_def_realloc\<close> over the counters of \<open>JSMallocState\<close>, and the interface the growing buffers
  of the program (\<open>DynBuf\<close>, \<open>CharRange\<close>) rely on, as the locale \<open>reallocator\<close>.

  A pointer to a block is \<open>None\<close> for NULL and \<open>Some b\<close> with the block's cells otherwise; a cell
  takes \<open>esz\<close> bytes. The C library is not deterministic: the record \<open>libc_env\<close> says which
  requests succeed, what fresh cells hold and how large a block really is. A request of more
  than \<open>PTRDIFF_MAX\<close> bytes never succeeds.
\<close>

section \<open>The C library\<close>

record 'a libc_env =
  lc_avail :: "nat \<Rightarrow> bool"
  lc_usable :: "nat \<Rightarrow> nat"
  lc_junk :: "nat \<Rightarrow> 'a"

definition PTRDIFF_MAX :: nat where
  "PTRDIFF_MAX = 2 ^ 63 - 1"

definition libc_malloc :: "'a libc_env \<Rightarrow> nat \<Rightarrow> nat \<Rightarrow> 'a list option" where
  "libc_malloc env esz sz =
     (if lc_avail env sz \<and> sz \<le> PTRDIFF_MAX then Some (map (lc_junk env) [0..<sz div esz]) else None)"

definition libc_realloc :: "'a libc_env \<Rightarrow> nat \<Rightarrow> 'a list \<Rightarrow> nat \<Rightarrow> 'a list option" where
  "libc_realloc env esz b sz =
     (if lc_avail env sz \<and> sz \<le> PTRDIFF_MAX
      then Some (take (sz div esz) b @ map (lc_junk env) [length b..<sz div esz])
      else None)"

section \<open>JSMallocState and the default allocator\<close>

record js_malloc_state =
  malloc_count :: nat
  malloc_size :: nat
  malloc_limit :: nat

definition MALLOC_OVERHEAD :: nat where
  "MALLOC_OVERHEAD = 8"

definition js_def_malloc_usable_size :: "'a libc_env \<Rightarrow> nat \<Rightarrow> 'a list \<Rightarrow> nat" where
  "js_def_malloc_usable_size env esz ptr = lc_usable env (length ptr * esz)"

definition js_def_malloc ::
  "'a libc_env \<Rightarrow> nat \<Rightarrow> js_malloc_state \<Rightarrow> nat \<Rightarrow> ('a list option \<times> js_malloc_state) option" where
  "js_def_malloc env esz s sz = do {
     c_assert (sz \<noteq> 0);
     if szt (malloc_size s + sz) > malloc_limit s then Some (None, s)
     else case libc_malloc env esz sz of
       None \<Rightarrow> Some (None, s)
     | Some ptr \<Rightarrow>
         Some (Some ptr,
               s\<lparr>malloc_count := szt (malloc_count s + 1),
                 malloc_size := szt (malloc_size s +
                    (js_def_malloc_usable_size env esz ptr + MALLOC_OVERHEAD))\<rparr>)
   }"

definition js_def_free ::
  "'a libc_env \<Rightarrow> nat \<Rightarrow> js_malloc_state \<Rightarrow> 'a list option \<Rightarrow> js_malloc_state" where
  "js_def_free env esz s p =
     (case p of
        None \<Rightarrow> s
      | Some ptr \<Rightarrow>
          s\<lparr>malloc_count := szt_sub (malloc_count s) 1,
            malloc_size := szt_sub (malloc_size s)
              (js_def_malloc_usable_size env esz ptr + MALLOC_OVERHEAD)\<rparr>)"

definition js_def_realloc ::
  "'a libc_env \<Rightarrow> nat \<Rightarrow> js_malloc_state \<Rightarrow> 'a list option \<Rightarrow> nat
     \<Rightarrow> ('a list option \<times> js_malloc_state) option" where
  "js_def_realloc env esz s p sz =
     (case p of
        None \<Rightarrow> if sz = 0 then Some (None, s) else js_def_malloc env esz s sz
      | Some ptr \<Rightarrow>
          let old_size = js_def_malloc_usable_size env esz ptr in
          if sz = 0 then
            Some (None,
                  s\<lparr>malloc_count := szt_sub (malloc_count s) 1,
                    malloc_size := szt_sub (malloc_size s) (old_size + MALLOC_OVERHEAD)\<rparr>)
          else if szt_sub (szt (malloc_size s + sz)) old_size > malloc_limit s then
            Some (None, s)
          else case libc_realloc env esz ptr sz of
            None \<Rightarrow> Some (None, s)
          | Some ptr' \<Rightarrow>
              Some (Some ptr',
                    s\<lparr>malloc_size := szt (malloc_size s +
                       szt_sub (js_def_malloc_usable_size env esz ptr') old_size)\<rparr>))"

section \<open>The interface of a growing buffer\<close>

text \<open>The cells behind a pointer.\<close>

definition block :: "'a list option \<Rightarrow> 'a list" where
  "block p = (case p of None \<Rightarrow> [] | Some b \<Rightarrow> b)"

lemma block_simps [simp]: "block None = []" "block (Some b) = b"
  by (simp_all add: block_def)

text \<open>
  What a \<open>realloc_func\<close> promises its caller: it returns, a block it returns has the size
  asked for, it keeps the cells that fit, and no block is larger than \<open>PTRDIFF_MAX\<close>.
\<close>

locale reallocator =
  fixes ra :: "'o \<Rightarrow> 'a list option \<Rightarrow> nat \<Rightarrow> ('a list option \<times> 'o) option"
    and esz :: nat
  assumes ra_total: "\<exists>r. ra st p n = Some r"
    and ra_length: "0 < k \<Longrightarrow> ra st p (k * esz) = Some (Some b, st') \<Longrightarrow> length b = k"
    and ra_prefix: "0 < k \<Longrightarrow> ra st p (k * esz) = Some (Some b, st') \<Longrightarrow>
                      take (min k (length (block p))) b = take (min k (length (block p))) (block p)"
    and ra_bounded: "ra st p n = Some (Some b, st') \<Longrightarrow> n \<le> PTRDIFF_MAX"

lemma js_def_realloc_total: "\<exists>r. js_def_realloc env esz s p n = Some r"
  by (auto simp: js_def_realloc_def js_def_malloc_def Let_def split: option.splits)

lemma js_def_realloc_block:
  assumes "0 < k" "0 < esz" "js_def_realloc env esz s p (k * esz) = Some (Some b, s')"
  shows "b = take k (block p) @ map (lc_junk env) [length (block p)..<k]"
  using assms
  by (auto simp: js_def_realloc_def js_def_malloc_def libc_malloc_def libc_realloc_def Let_def
      bind_Some_iff split: option.splits if_splits)

text \<open>The default allocator is such a function, whatever the C library answers.\<close>

interpretation js_heap: reallocator "js_def_realloc env (Suc e)" "Suc e" for env e
proof (unfold_locales, goal_cases)
  case (1 st p n)
  show ?case by (rule js_def_realloc_total)
next
  case (2 k st p b st')
  then show ?case using js_def_realloc_block [of k "Suc e" env st p b st'] by simp
next
  case (3 k st p b st')
  then show ?case using js_def_realloc_block [of k "Suc e" env st p b st'] by simp
next
  case (4 st p n b st')
  then show ?case
    by (auto simp: js_def_realloc_def js_def_malloc_def libc_malloc_def libc_realloc_def Let_def
        bind_Some_iff split: option.splits if_splits)
qed

section \<open>Accounting\<close>

text \<open>
  \<open>accounts env esz s bs\<close>: the counters of \<open>s\<close> are those of a heap whose live blocks are
  \<open>bs\<close>. Every operation keeps this, as long as the sizes fit a \<open>size_t\<close>.
\<close>

definition charge :: "'a libc_env \<Rightarrow> nat \<Rightarrow> 'a list \<Rightarrow> nat" where
  "charge env esz b = js_def_malloc_usable_size env esz b + MALLOC_OVERHEAD"

definition accounts :: "'a libc_env \<Rightarrow> nat \<Rightarrow> js_malloc_state \<Rightarrow> 'a list list \<Rightarrow> bool" where
  "accounts env esz s bs \<longleftrightarrow>
     malloc_count s = length bs \<and> malloc_size s = sum_list (map (charge env esz) bs)"

definition live :: "'a list option \<Rightarrow> 'a list list" where
  "live p = (case p of None \<Rightarrow> [] | Some b \<Rightarrow> [b])"

lemma live_simps [simp]: "live None = []" "live (Some b) = [b]"
  by (simp_all add: live_def)

lemma accounts_malloc:
  assumes "accounts env esz s bs" "n \<noteq> 0" "length bs + 1 < 2 ^ 64"
    and "js_def_malloc env esz s n = Some (Some b, s')"
    and "charge env esz b + sum_list (map (charge env esz) bs) < 2 ^ 64"
  shows "accounts env esz s' (b # bs)"
  using assms
  by (auto simp: accounts_def charge_def js_def_malloc_def add.commute
      split: option.splits if_splits)

lemma accounts_release:
  assumes "accounts env esz s (b # bs)" "malloc_count s < 2 ^ 64" "malloc_size s < 2 ^ 64"
  shows "accounts env esz (s\<lparr>malloc_count := szt_sub (malloc_count s) 1,
           malloc_size := szt_sub (malloc_size s)
             (js_def_malloc_usable_size env esz b + MALLOC_OVERHEAD)\<rparr>) bs"
  using assms by (simp add: accounts_def charge_def szt_sub_le)

lemma szt_exchange:
  assumes "old + r < 2 ^ 64" "new + r < 2 ^ 64"
  shows "szt ((old + r) + szt_sub new old) = new + r"
proof (cases "old \<le> new")
  case True
  then show ?thesis using assms by (simp add: szt_sub_le)
next
  case False
  with assms have "szt_sub new old = new + 2 ^ 64 - old"
    by (simp add: szt_sub_def szt_def)
  moreover have "(old + r) + (new + 2 ^ 64 - old) = (new + r) + 2 ^ 64"
    using False assms by simp
  ultimately show ?thesis
    using assms by (simp only: szt_def) simp
qed

lemma accounts_exchange:
  assumes "accounts env esz s (b # bs)" "malloc_size s < 2 ^ 64"
    and "charge env esz b' + sum_list (map (charge env esz) bs) < 2 ^ 64"
  shows "accounts env esz
           (s\<lparr>malloc_size := szt (malloc_size s + szt_sub
               (js_def_malloc_usable_size env esz b') (js_def_malloc_usable_size env esz b))\<rparr>)
           (b' # bs)"
  using assms
    szt_exchange [of "js_def_malloc_usable_size env esz b"
      "MALLOC_OVERHEAD + sum_list (map (charge env esz) bs)" "js_def_malloc_usable_size env esz b'"]
  by (simp add: accounts_def charge_def ac_simps)

text \<open>
  C13: the counters of the default allocator stay exact. Reallocating (which is also how a
  block is created, from NULL, and released, to size 0) either fails and leaves the counters
  alone, or leaves counters that describe the live blocks with the new block in the place of
  the old one.
\<close>

theorem js_def_realloc_accounts:
  assumes "accounts env esz s (live p @ bs)"
    and "length bs + 1 < 2 ^ 64" and "malloc_size s < 2 ^ 64"
    and "js_def_realloc env esz s p n = Some (q, s')"
    and "sum_list (map (charge env esz) (live q @ bs)) < 2 ^ 64"
  shows "if q = None \<and> n \<noteq> 0 then s' = s else accounts env esz s' (live q @ bs)"
proof (cases p)
  case None
  with assms show ?thesis
    using accounts_malloc [of env esz s bs n _ s']
    by (auto simp: js_def_realloc_def js_def_malloc_def split: if_splits option.splits)
next
  case (Some b)
  with assms(1,2) have c: "malloc_count s < 2 ^ 64" by (simp add: accounts_def)
  show ?thesis
    using assms Some accounts_release [OF _ c assms(3)]
      accounts_exchange [of env esz s b bs, OF _ assms(3)]
    by (auto simp: js_def_realloc_def Let_def charge_def split: if_splits option.splits)
qed

theorem js_def_realloc_accounts_witness:
  "let env = \<lparr>lc_avail = (\<lambda>n. n \<le> 100), lc_usable = (\<lambda>n. n + 4), lc_junk = (\<lambda>i. 0)\<rparr>;
       s = \<lparr>malloc_count = 2, malloc_size = 38, malloc_limit = 1000\<rparr>
   in \<exists>s'. js_def_realloc env 1 s (Some [1, 2, 3 :: u8]) 5 = Some (Some [1, 2, 3, 0, 0], s')
        \<and> accounts env 1 s' [[1, 2, 3, 0, 0], [7, 8, 9, 10, 11, 12, 13 :: u8, 14, 15, 16, 17]]"
proof -
  define env :: "u8 libc_env" where
    "env = \<lparr>lc_avail = (\<lambda>n. n \<le> 100), lc_usable = (\<lambda>n. n + 4), lc_junk = (\<lambda>i. 0)\<rparr>"
  define s where "s = \<lparr>malloc_count = 2, malloc_size = 38, malloc_limit = 1000\<rparr>"
  let ?other = "[7, 8, 9, 10, 11, 12, 13, 14, 15, 16, 17] :: u8 list"
  have a: "accounts env 1 s (live (Some [1, 2, 3]) @ [?other])"
    by (simp add: accounts_def charge_def js_def_malloc_usable_size_def MALLOC_OVERHEAD_def
        env_def s_def)
  have r: "js_def_realloc env 1 s (Some [1, 2, 3]) 5
             = Some (Some [1, 2, 3, 0, 0], s\<lparr>malloc_size := 40\<rparr>)"
    by (simp add: js_def_realloc_def libc_realloc_def js_def_malloc_usable_size_def env_def s_def
        szt_def szt_sub_def upt_rec PTRDIFF_MAX_def)
  have "accounts env 1 (s\<lparr>malloc_size := 40\<rparr>) (live (Some [1, 2, 3, 0, 0]) @ [?other])"
    using js_def_realloc_accounts [OF a _ _ r]
    by (simp add: charge_def js_def_malloc_usable_size_def MALLOC_OVERHEAD_def env_def s_def)
  then show ?thesis
    using r unfolding env_def [symmetric] s_def [symmetric] Let_def by auto
qed

end
