(* ===== verification/Char_Range.thy ===== *)
theory Char_Range
  imports Js_Alloc
begin

text \<open>
  Sets of code points: libunicode.c lines 286 to 431 and the inline functions of libunicode.h,
  with the class tables and \<open>cr_init_char_range\<close>, \<open>cr_canonicalize\<close> and \<open>lre_is_space\<close> of
  libregexp.c.

  A \<open>CharRange\<close> is an array of points in increasing order: the set holds a code \<open>c\<close> when an
  odd number of points is at most \<open>c\<close> (\<open>cr_mem\<close>). The struct is the record \<open>char_range\<close>; its
  \<open>realloc_func\<close> is the first argument of the operations that allocate and the allocator's state
  \<open>st\<close>, which several ranges share, is passed and returned. \<open>int\<close> arithmetic that would
  overflow is undefined (\<open>c_assert\<close>).

  The lemmas: the operations are the set operations their names say and give canonical (strictly
  increasing) arrays, or they report -1 for a failed allocation; no access leaves an array.
\<close>

section \<open>The struct and its memory\<close>

record char_range =
  cr_len :: nat
  cr_size :: nat
  cr_points :: "u32 list option"

type_synonym 'o point_realloc =
  "'o \<Rightarrow> u32 list option \<Rightarrow> nat \<Rightarrow> (u32 list option \<times> 'o) option"

definition cr_init :: char_range where
  "cr_init = \<lparr>cr_len = 0, cr_size = 0, cr_points = None\<rparr>"

definition cr_free :: "'o point_realloc \<Rightarrow> char_range \<Rightarrow> 'o \<Rightarrow> 'o option" where
  "cr_free ra cr st = map_option snd (ra st (cr_points cr) 0)"

definition cr_realloc ::
  "'o point_realloc \<Rightarrow> char_range \<Rightarrow> nat \<Rightarrow> 'o \<Rightarrow> (int \<times> char_range \<times> 'o) option" where
  "cr_realloc ra cr sz st =
     (if sz > cr_size cr then do {
        c_assert (cr_size cr * 3 < 2 ^ 31);
        let new_size = max sz (cr_size cr * 3 div 2);
        (new_buf, st) \<leftarrow> ra st (cr_points cr) (new_size * 4);
        (case new_buf of
           None \<Rightarrow> Some (-1, cr, st)
         | Some b \<Rightarrow> Some (0, cr\<lparr>cr_points := Some b, cr_size := new_size\<rparr>, st))
      } else Some (0, cr, st))"

definition cr_store :: "char_range \<Rightarrow> nat \<Rightarrow> u32 \<Rightarrow> char_range option" where
  "cr_store cr i v = do {
     b \<leftarrow> wr (block (cr_points cr)) i v;
     Some (cr\<lparr>cr_points := Some b\<rparr>)
   }"

definition cr_copy ::
  "'o point_realloc \<Rightarrow> char_range \<Rightarrow> char_range \<Rightarrow> 'o \<Rightarrow> (int \<times> char_range \<times> 'o) option" where
  "cr_copy ra cr cr1 st = do {
     (r, cr, st) \<leftarrow> cr_realloc ra cr (cr_len cr1) st;
     if r \<noteq> 0 then Some (-1, cr, st)
     else do {
       data \<leftarrow> rd_block (block (cr_points cr1)) 0 (cr_len cr1);
       b \<leftarrow> wr_block (block (cr_points cr)) 0 data;
       Some (0, cr\<lparr>cr_points := map_option (\<lambda>_. b) (cr_points cr), cr_len := cr_len cr1\<rparr>, st)
     }
   }"

definition cr_add_point ::
  "'o point_realloc \<Rightarrow> char_range \<Rightarrow> u32 \<Rightarrow> 'o \<Rightarrow> (int \<times> char_range \<times> 'o) option" where
  "cr_add_point ra cr v st = do {
     (r, cr, st) \<leftarrow> (if cr_len cr \<ge> cr_size cr then cr_realloc ra cr (cr_len cr + 1) st
                    else Some (0, cr, st));
     if r \<noteq> 0 then Some (-1, cr, st)
     else do {
       cr \<leftarrow> cr_store cr (cr_len cr) v;
       Some (0, cr\<lparr>cr_len := cr_len cr + 1\<rparr>, st)
     }
   }"

definition cr_add_interval ::
  "'o point_realloc \<Rightarrow> char_range \<Rightarrow> u32 \<Rightarrow> u32 \<Rightarrow> 'o \<Rightarrow> (int \<times> char_range \<times> 'o) option" where
  "cr_add_interval ra cr c1 c2 st = do {
     (r, cr, st) \<leftarrow> (if cr_len cr + 2 > cr_size cr then cr_realloc ra cr (cr_len cr + 2) st
                    else Some (0, cr, st));
     if r \<noteq> 0 then Some (-1, cr, st)
     else do {
       cr \<leftarrow> cr_store cr (cr_len cr) c1;
       let cr = cr\<lparr>cr_len := cr_len cr + 1\<rparr>;
       cr \<leftarrow> cr_store cr (cr_len cr) c2;
       Some (0, cr\<lparr>cr_len := cr_len cr + 1\<rparr>, st)
     }
   }"

section \<open>Compression\<close>

text \<open>The inner loop of \<open>cr_compress\<close>: the last interval that continues the one at \<open>j\<close>.\<close>

function cr_compress_run :: "u32 list \<Rightarrow> nat \<Rightarrow> nat \<Rightarrow> nat option" where
  "cr_compress_run pt len j =
     (if j + 3 < len then do {
        a \<leftarrow> rd pt (j + 1);
        b \<leftarrow> rd pt (j + 2);
        if a = b then cr_compress_run pt len (j + 2) else Some j
      } else Some j)"
  by auto
termination
  by (relation "measure (\<lambda>(pt, len, j). len - j)") auto

declare cr_compress_run.simps [simp del]

lemma cr_compress_run_ge: "cr_compress_run pt len j = Some j' \<Longrightarrow> j \<le> j'"
proof (induction pt len j rule: cr_compress_run.induct)
  case (1 pt len j)
  from 1(2) show ?case
    by (subst (asm) cr_compress_run.simps)
      (auto simp: bind_Some_iff split: if_splits dest!: 1(1))
qed

function cr_compress_loop :: "u32 list \<Rightarrow> nat \<Rightarrow> nat \<Rightarrow> nat \<Rightarrow> (u32 list \<times> nat) option" where
  "cr_compress_loop pt len i k =
     (if i + 1 < len then do {
        a \<leftarrow> rd pt i;
        b \<leftarrow> rd pt (i + 1);
        if a = b then cr_compress_loop pt len (i + 2) k
        else do {
          j \<leftarrow> cr_compress_run pt len i;
          pt \<leftarrow> wr pt k a;
          b \<leftarrow> rd pt (j + 1);
          pt \<leftarrow> wr pt (k + 1) b;
          cr_compress_loop pt len (j + 2) (k + 2)
        }
      } else Some (pt, k))"
  by auto
termination
  by (relation "measure (\<lambda>(pt, len, i, k). len - i)") (auto dest: cr_compress_run_ge)

declare cr_compress_loop.simps [simp del]

definition cr_compress :: "char_range \<Rightarrow> char_range option" where
  "cr_compress cr = do {
     (pt, k) \<leftarrow> cr_compress_loop (block (cr_points cr)) (cr_len cr) 0 0;
     Some (cr\<lparr>cr_points := map_option (\<lambda>_. pt) (cr_points cr), cr_len := k\<rparr>)
   }"

section \<open>Set operations\<close>

datatype cr_op_enum = CR_OP_UNION | CR_OP_INTER | CR_OP_XOR

text \<open>One more point from \<open>a\<close> or \<open>b\<close> in increasing order; \<open>None\<close> is the \<open>break\<close>.\<close>

definition cr_op_next ::
  "u32 list \<Rightarrow> nat \<Rightarrow> u32 list \<Rightarrow> nat \<Rightarrow> (u32 \<times> nat \<times> nat) option" where
  "cr_op_next a_pt a_idx b_pt b_idx =
     (if a_idx < length a_pt \<and> b_idx < length b_pt then
        (if a_pt ! a_idx < b_pt ! b_idx then Some (a_pt ! a_idx, a_idx + 1, b_idx)
         else if a_pt ! a_idx = b_pt ! b_idx then Some (a_pt ! a_idx, a_idx + 1, b_idx + 1)
         else Some (b_pt ! b_idx, a_idx, b_idx + 1))
      else if a_idx < length a_pt then Some (a_pt ! a_idx, a_idx + 1, b_idx)
      else if b_idx < length b_pt then Some (b_pt ! b_idx, a_idx, b_idx + 1)
      else None)"

fun cr_op_is_in :: "cr_op_enum \<Rightarrow> bool \<Rightarrow> bool \<Rightarrow> bool" where
  "cr_op_is_in CR_OP_UNION a b = (a \<or> b)"
| "cr_op_is_in CR_OP_INTER a b = (a \<and> b)"
| "cr_op_is_in CR_OP_XOR a b = (a \<noteq> b)"

lemma cr_op_next_decreases:
  "cr_op_next a ai b bi = Some (v, ai', bi') \<Longrightarrow>
     (length a - ai') + (length b - bi') < (length a - ai) + (length b - bi)"
  by (auto simp: cr_op_next_def split: if_splits)

function cr_op_loop ::
  "'o point_realloc \<Rightarrow> u32 list \<Rightarrow> u32 list \<Rightarrow> cr_op_enum \<Rightarrow> nat \<Rightarrow> nat \<Rightarrow> char_range \<Rightarrow> 'o
     \<Rightarrow> (int \<times> char_range \<times> 'o) option" where
  "cr_op_loop ra a_pt b_pt op a_idx b_idx cr st =
     (case cr_op_next a_pt a_idx b_pt b_idx of
        None \<Rightarrow> Some (0, cr, st)
      | Some (v, a_idx, b_idx) \<Rightarrow>
          if cr_op_is_in op (odd a_idx) (odd b_idx) \<noteq> odd (cr_len cr) then do {
            (r, cr, st) \<leftarrow> cr_add_point ra cr v st;
            if r \<noteq> 0 then Some (-1, cr, st)
            else cr_op_loop ra a_pt b_pt op a_idx b_idx cr st
          }
          else cr_op_loop ra a_pt b_pt op a_idx b_idx cr st)"
  by auto
termination
  by (relation "measure (\<lambda>(ra, a, b, op, ai, bi, cr, st). (length a - ai) + (length b - bi))")
    (auto dest: cr_op_next_decreases)

declare cr_op_loop.simps [simp del]

definition cr_op ::
  "'o point_realloc \<Rightarrow> char_range \<Rightarrow> u32 list \<Rightarrow> u32 list \<Rightarrow> cr_op_enum \<Rightarrow> 'o
     \<Rightarrow> (int \<times> char_range \<times> 'o) option" where
  "cr_op ra cr a_pt b_pt op st = do {
     (r, cr, st) \<leftarrow> cr_op_loop ra a_pt b_pt op 0 0 cr st;
     if r \<noteq> 0 then Some (-1, cr, st)
     else do {
       cr \<leftarrow> cr_compress cr;
       Some (0, cr, st)
     }
   }"

definition cr_union1 ::
  "'o point_realloc \<Rightarrow> char_range \<Rightarrow> u32 list \<Rightarrow> 'o \<Rightarrow> (int \<times> char_range \<times> 'o) option" where
  "cr_union1 ra cr b_pt st = do {
     let a = cr;
     a_pt \<leftarrow> rd_block (block (cr_points a)) 0 (cr_len a);
     (ret, cr, st) \<leftarrow> cr_op ra \<lparr>cr_len = 0, cr_size = 0, cr_points = None\<rparr> a_pt b_pt CR_OP_UNION st;
     st \<leftarrow> cr_free ra a st;
     Some (ret, cr, st)
   }"

definition cr_union_interval ::
  "'o point_realloc \<Rightarrow> char_range \<Rightarrow> u32 \<Rightarrow> u32 \<Rightarrow> 'o \<Rightarrow> (int \<times> char_range \<times> 'o) option" where
  "cr_union_interval ra cr c1 c2 st = cr_union1 ra cr [c1, c2 + 1] st"

definition UINT32_MAX :: u32 where
  "UINT32_MAX = 0xffffffff"

definition cr_invert ::
  "'o point_realloc \<Rightarrow> char_range \<Rightarrow> 'o \<Rightarrow> (int \<times> char_range \<times> 'o) option" where
  "cr_invert ra cr st = do {
     let len = cr_len cr;
     (r, cr, st) \<leftarrow> cr_realloc ra cr (len + 2) st;
     if r \<noteq> 0 then Some (-1, cr, st)
     else do {
       data \<leftarrow> rd_block (block (cr_points cr)) 0 len;
       b \<leftarrow> wr_block (block (cr_points cr)) 1 data;
       b \<leftarrow> wr b 0 0;
       b \<leftarrow> wr b (len + 1) UINT32_MAX;
       cr \<leftarrow> cr_compress (cr\<lparr>cr_points := Some b, cr_len := len + 2\<rparr>);
       Some (0, cr, st)
     }
   }"

section \<open>The classes of the regular expressions\<close>

definition char_range_d :: "u32 list" where
  "char_range_d = [1, 0x0030, 0x0039 + 1]"

definition char_range_s :: "u32 list" where
  "char_range_s =
     [10,
      0x0009, 0x000D + 1,
      0x0020, 0x0020 + 1,
      0x00A0, 0x00A0 + 1,
      0x1680, 0x1680 + 1,
      0x2000, 0x200A + 1,
      0x2028, 0x2029 + 1,
      0x202F, 0x202F + 1,
      0x205F, 0x205F + 1,
      0x3000, 0x3000 + 1,
      0xFEFF, 0xFEFF + 1]"

definition char_range_w :: "u32 list" where
  "char_range_w =
     [4,
      0x0030, 0x0039 + 1,
      0x0041, 0x005A + 1,
      0x005F, 0x005F + 1,
      0x0061, 0x007A + 1]"

definition char_range_table :: "u32 list list" where
  "char_range_table = [char_range_d, char_range_s, char_range_w]"

text \<open>\<open>lre_is_space\<close>: the loop from interval \<open>i\<close> on, \<open>fuel\<close> the intervals left.\<close>

fun lre_is_space_from :: "nat \<Rightarrow> nat \<Rightarrow> u32 \<Rightarrow> bool" where
  "lre_is_space_from 0 i c = False"
| "lre_is_space_from (Suc fuel) i c =
     (if c < char_range_s ! (2 * i + 1) then False
      else if c < char_range_s ! (2 * i + 2) then True
      else lre_is_space_from fuel (i + 1) c)"

definition lre_is_space :: "u32 \<Rightarrow> bool" where
  "lre_is_space c = lre_is_space_from ((length char_range_s - 1) div 2) 0 c"

fun cr_add_points ::
  "'o point_realloc \<Rightarrow> char_range \<Rightarrow> u32 list \<Rightarrow> 'o \<Rightarrow> (int \<times> char_range \<times> 'o) option" where
  "cr_add_points ra cr [] st = Some (0, cr, st)"
| "cr_add_points ra cr (v # vs) st = do {
     (r, cr, st) \<leftarrow> cr_add_point ra cr v st;
     if r \<noteq> 0 then Some (-1, cr, st) else cr_add_points ra cr vs st
   }"

definition cr_fail :: "'o point_realloc \<Rightarrow> char_range \<Rightarrow> 'o \<Rightarrow> (int \<times> char_range \<times> 'o) option" where
  "cr_fail ra cr st = map_option (\<lambda>st. (-1, cr, st)) (cr_free ra cr st)"

definition cr_init_char_range ::
  "'o point_realloc \<Rightarrow> nat \<Rightarrow> 'o \<Rightarrow> (int \<times> char_range \<times> 'o) option" where
  "cr_init_char_range ra c st = do {
     let invert = odd c;
     c_pt \<leftarrow> rd char_range_table (c div 2);
     len \<leftarrow> rd c_pt 0;
     pts \<leftarrow> rd_block c_pt 1 (unat len * 2);
     (r, cr, st) \<leftarrow> cr_add_points ra cr_init pts st;
     if r \<noteq> 0 then cr_fail ra cr st
     else if invert then do {
       (r, cr, st) \<leftarrow> cr_invert ra cr st;
       if r \<noteq> 0 then cr_fail ra cr st else Some (0, cr, st)
     }
     else Some (0, cr, st)
   }"

definition cr_canonicalize ::
  "'o point_realloc \<Rightarrow> char_range \<Rightarrow> 'o \<Rightarrow> (int \<times> char_range \<times> 'o) option" where
  "cr_canonicalize ra cr st = do {
     a_pt \<leftarrow> rd_block (block (cr_points cr)) 0 (cr_len cr);
     (ret, a, st) \<leftarrow> cr_op ra cr_init a_pt [97, 122 + 1] CR_OP_INTER st;
     if ret \<noteq> 0 then do {
       st \<leftarrow> cr_free ra a st;
       Some (ret, cr, st)
     } else do {
       pts \<leftarrow> rd_block (block (cr_points a)) 0 (cr_len a);
       (ret, cr, st) \<leftarrow> cr_union1 ra cr (map (\<lambda>p. p + (65 - 97)) pts) st;
       st \<leftarrow> cr_free ra a st;
       Some (ret, cr, st)
     }
   }"

section \<open>The points as a set\<close>

definition cr_mem :: "u32 list \<Rightarrow> u32 \<Rightarrow> bool" where
  "cr_mem pts c = odd (length (filter (\<lambda>p. p \<le> c) pts))"

definition cr_list :: "char_range \<Rightarrow> u32 list" where
  "cr_list cr = take (cr_len cr) (block (cr_points cr))"

definition cr_ok :: "char_range \<Rightarrow> bool" where
  "cr_ok cr \<longleftrightarrow> length (block (cr_points cr)) = cr_size cr \<and> cr_len cr \<le> cr_size cr"

lemma cr_mem_simps [simp]:
  "cr_mem [] c = False"
  "cr_mem (p # pts) c = ((p \<le> c) \<noteq> cr_mem pts c)"
  by (auto simp: cr_mem_def)

lemma cr_mem_append: "cr_mem (xs @ ys) c = (cr_mem xs c \<noteq> cr_mem ys c)"
  by (auto simp: cr_mem_def)

lemma cr_mem_above: "\<forall>p \<in> set pts. c < p \<Longrightarrow> \<not> cr_mem pts c"
  by (induction pts) (auto simp: not_le)

text \<open>On a sorted array this is membership in one of the intervals \<open>[a, b)\<close>.\<close>

lemma cr_mem_interval:
  "sorted (a # b # pts) \<Longrightarrow> cr_mem (a # b # pts) c \<longleftrightarrow> (a \<le> c \<and> c < b) \<or> cr_mem pts c"
proof -
  assume s: "sorted (a # b # pts)"
  show ?thesis
  proof (cases "b \<le> c")
    case True
    with s have "a \<le> c" by auto
    with True show ?thesis by auto
  next
    case False
    with s have "\<forall>p \<in> set pts. c < p" by fastforce
    with False cr_mem_above [of pts c] show ?thesis by auto
  qed
qed

lemma cr_list_length: "cr_ok cr \<Longrightarrow> length (cr_list cr) = cr_len cr"
  by (simp add: cr_ok_def cr_list_def)

lemma cr_init_ok [simp]: "cr_ok cr_init" "cr_list cr_init = []" "cr_len cr_init = 0"
  by (simp_all add: cr_init_def cr_ok_def cr_list_def)

section \<open>What compression does to the points\<close>

fun cr_run :: "u32 \<Rightarrow> u32 list \<Rightarrow> u32 \<times> u32 list" where
  "cr_run b (c # d # pts) = (if b = c then cr_run d pts else (b, c # d # pts))"
| "cr_run b pts = (b, pts)"

lemma cr_run_length: "length (snd (cr_run b pts)) \<le> length pts"
  by (induction b pts rule: cr_run.induct) auto

lemma cr_run_short: "length pts \<le> 1 \<Longrightarrow> cr_run b pts = (b, pts)"
  by (cases "(b, pts)" rule: cr_run.cases) auto

function cr_canon :: "u32 list \<Rightarrow> u32 list" where
  "cr_canon (a # b # pts) =
     (if a = b then cr_canon pts
      else a # fst (cr_run b pts) # cr_canon (snd (cr_run b pts)))"
| "cr_canon [] = []"
| "cr_canon [a] = []"
  by pat_completeness auto
termination
  by (relation "measure length") (auto simp: cr_run_length le_imp_less_Suc le_SucI)

lemma cr_run_mem: "((fst (cr_run b pts) \<le> c) \<noteq> cr_mem (snd (cr_run b pts)) c) = ((b \<le> c) \<noteq> cr_mem pts c)"
  by (induction b pts rule: cr_run.induct) auto

lemma cr_run_even: "even (length (snd (cr_run b pts))) = even (length pts)"
  by (induction b pts rule: cr_run.induct) auto

lemma cr_canon_even [simp]: "even (length (cr_canon pts))"
  by (induction pts rule: cr_canon.induct) auto

lemma cr_canon_mem: "even (length pts) \<Longrightarrow> cr_mem (cr_canon pts) c = cr_mem pts c"
proof (induction pts rule: cr_canon.induct)
  case (1 a b pts)
  then show ?case
    using cr_run_mem [of b pts c] cr_run_even [of b pts] by auto
qed auto

lemma cr_canon_length: "length (cr_canon pts) \<le> length pts"
proof (induction pts rule: cr_canon.induct)
  case (1 a b pts)
  then show ?case using cr_run_length [of b pts] by auto
qed auto

lemma cr_run_sorted:
  "sorted (b # pts) \<Longrightarrow> b \<le> fst (cr_run b pts) \<and> sorted (snd (cr_run b pts))
     \<and> (\<forall>p \<in> set (snd (cr_run b pts)). p \<in> set pts)
     \<and> (even (length pts) \<longrightarrow> (\<forall>p \<in> set (snd (cr_run b pts)). fst (cr_run b pts) < p))"
proof (induction b pts rule: cr_run.induct)
  case (1 b c d pts)
  then show ?case by (auto simp: order.strict_iff_order intro: order.trans)
qed auto

lemma cr_canon_set: "set (cr_canon pts) \<subseteq> set pts"
proof (induction pts rule: cr_canon.induct)
  case (1 a b pts)
  have "fst (cr_run b pts) \<in> insert b (set pts) \<and> set (snd (cr_run b pts)) \<subseteq> set pts"
    by (induction b pts rule: cr_run.induct) auto
  with 1 show ?case by auto
qed auto

lemma cr_canon_strict: "even (length pts) \<Longrightarrow> sorted pts \<Longrightarrow> sorted_wrt (<) (cr_canon pts)"
proof (induction pts rule: cr_canon.induct)
  case (1 a b pts)
  show ?case
  proof (cases "a = b")
    case True
    with 1 show ?thesis by auto
  next
    case False
    let ?e = "fst (cr_run b pts)" and ?r = "snd (cr_run b pts)"
    have r: "b \<le> ?e" "sorted ?r" "\<forall>p \<in> set ?r. ?e < p"
      using cr_run_sorted [of b pts] "1.prems" by auto
    have "a < ?e" using False r(1) "1.prems"(2) by auto
    moreover have "sorted_wrt (<) (cr_canon ?r)"
      using 1(2) [OF False] r(2) cr_run_even [of b pts] "1.prems"(1) by simp
    ultimately show ?thesis
      using False r(3) cr_canon_set [of ?r] by auto (meson less_trans subsetD)
  qed
qed auto

lemma cr_canon_id: "even (length pts) \<Longrightarrow> sorted_wrt (<) pts \<Longrightarrow> cr_canon pts = pts"
proof (induction pts rule: cr_canon.induct)
  case (1 a b pts)
  then have "cr_run b pts = (b, pts)"
    by (cases "(b, pts)" rule: cr_run.cases) auto
  with 1 show ?case by auto
qed auto

section \<open>The loops compute it\<close>

lemma cr_compress_run_spec:
  assumes "i + 1 < len" "len \<le> length pt"
  shows "\<exists>j. cr_compress_run pt len i = Some j \<and> i \<le> j \<and> j + 1 < len
           \<and> cr_run (pt ! (i + 1)) (drop (i + 2) (take len pt)) = (pt ! (j + 1), drop (j + 2) (take len pt))"
  using assms
proof (induction pt len i rule: cr_compress_run.induct)
  case (1 pt len j)
  show ?case
  proof (cases "j + 3 < len")
    case True
    then have s: "drop (j + 2) (take len pt) = pt ! (j + 2) # pt ! (j + 3) # drop (j + 4) (take len pt)"
      using 1(3) by (simp add: Cons_nth_drop_Suc [symmetric] numeral_eq_Suc)
    show ?thesis
    proof (cases "pt ! (j + 1) = pt ! (j + 2)")
      case eq: True
      have "cr_compress_run pt len j = cr_compress_run pt len (j + 2)"
        using True 1(3) eq by (subst cr_compress_run.simps) simp
      moreover have "\<exists>j'. cr_compress_run pt len (j + 2) = Some j' \<and> j + 2 \<le> j' \<and> j' + 1 < len
          \<and> cr_run (pt ! (j + 2 + 1)) (drop (j + 2 + 2) (take len pt))
              = (pt ! (j' + 1), drop (j' + 2) (take len pt))"
        using 1(1) [OF True _ _ eq] True 1(3) by simp
      ultimately show ?thesis
        using s eq by (auto simp: numeral_eq_Suc)
    next
      case False
      then show ?thesis
        using True 1(3) s by (subst cr_compress_run.simps) auto
    qed
  next
    case False
    then have "length (drop (j + 2) (take len pt)) \<le> 1"
      using 1(3) by simp
    then have "cr_run (pt ! (j + 1)) (drop (j + 2) (take len pt)) = (pt ! (j + 1), drop (j + 2) (take len pt))"
      by (rule cr_run_short)
    with False 1(2) show ?thesis
      by (subst cr_compress_run.simps) simp
  qed
qed

lemma cr_compress_loop_spec:
  assumes "k \<le> i" "i \<le> len" "len \<le> length pt"
  shows "\<exists>pt' k'. cr_compress_loop pt len i k = Some (pt', k') \<and> length pt' = length pt \<and> k' \<le> len
           \<and> take k' pt' = take k pt @ cr_canon (drop i (take len pt))"
  using assms
proof (induction "len - i" arbitrary: pt i k rule: less_induct)
  case less
  show ?case
  proof (cases "i + 1 < len")
    case False
    then have "length (drop i (take len pt)) \<le> 1" using less.prems by simp
    then have "cr_canon (drop i (take len pt)) = []"
      by (cases "drop i (take len pt)" rule: cr_canon.cases) auto
    with False less.prems show ?thesis
      by (subst cr_compress_loop.simps) simp
  next
    case True
    then have s: "drop i (take len pt) = pt ! i # pt ! (i + 1) # drop (i + 2) (take len pt)"
      using less.prems by (simp add: Cons_nth_drop_Suc [symmetric])
    show ?thesis
    proof (cases "pt ! i = pt ! (i + 1)")
      case eq: True
      have "cr_compress_loop pt len i k = cr_compress_loop pt len (i + 2) k"
        using True less.prems eq by (subst cr_compress_loop.simps) simp
      with less.hyps [of "i + 2" k pt] True less.prems s eq show ?thesis
        by simp
    next
      case ne: False
      obtain j where j: "cr_compress_run pt len i = Some j" "i \<le> j" "j + 1 < len"
        "cr_run (pt ! (i + 1)) (drop (i + 2) (take len pt)) = (pt ! (j + 1), drop (j + 2) (take len pt))"
        using cr_compress_run_spec [of i len pt] True less.prems by auto
      define pt2 where "pt2 = pt[k := pt ! i, k + 1 := pt ! (j + 1)]"
      have "cr_compress_loop pt len i k = cr_compress_loop pt2 len (j + 2) (k + 2)"
        using True less.prems ne j unfolding pt2_def
        by (subst cr_compress_loop.simps) simp
      moreover have "\<exists>pt' k'. cr_compress_loop pt2 len (j + 2) (k + 2) = Some (pt', k')
          \<and> length pt' = length pt2 \<and> k' \<le> len
          \<and> take k' pt' = take (k + 2) pt2 @ cr_canon (drop (j + 2) (take len pt2))"
        using j less.prems True by (intro less.hyps) (auto simp: pt2_def)
      moreover have "take (k + 2) pt2 = take k pt @ [pt ! i, pt ! (j + 1)]"
        using less.prems True by (simp add: pt2_def take_Suc_conv_app_nth numeral_eq_Suc)
      moreover have "drop (j + 2) (take len pt2) = drop (j + 2) (take len pt)"
        using less.prems j by (simp add: pt2_def drop_take)
      ultimately show ?thesis
        using s ne j(4) by (auto simp: pt2_def)
    qed
  qed
qed

lemma cr_compress_spec:
  assumes "cr_ok cr"
  shows "\<exists>cr'. cr_compress cr = Some cr' \<and> cr_ok cr' \<and> cr_list cr' = cr_canon (cr_list cr)"
proof -
  obtain pt k where "cr_compress_loop (block (cr_points cr)) (cr_len cr) 0 0 = Some (pt, k)"
    "length pt = cr_size cr" "k \<le> cr_len cr" "take k pt = cr_canon (cr_list cr)"
    using cr_compress_loop_spec [of 0 0 "cr_len cr" "block (cr_points cr)"] assms
    by (auto simp: cr_ok_def cr_list_def)
  then show ?thesis
    using assms by (cases "cr_points cr") (auto simp: cr_compress_def cr_ok_def cr_list_def)
qed

section \<open>The points a set operation emits\<close>

function cr_emit ::
  "u32 list \<Rightarrow> u32 list \<Rightarrow> cr_op_enum \<Rightarrow> nat \<Rightarrow> nat \<Rightarrow> bool \<Rightarrow> u32 list" where
  "cr_emit a b op ai bi r =
     (case cr_op_next a ai b bi of
        None \<Rightarrow> []
      | Some (v, ai, bi) \<Rightarrow>
          if cr_op_is_in op (odd ai) (odd bi) \<noteq> r
          then v # cr_emit a b op ai bi (\<not> r)
          else cr_emit a b op ai bi r)"
  by auto
termination
  by (relation "measure (\<lambda>(a, b, op, ai, bi, r). (length a - ai) + (length b - bi))")
    (auto dest: cr_op_next_decreases)

declare cr_emit.simps [simp del]

lemma cr_op_next_None: "cr_op_next a ai b bi = None \<longleftrightarrow> length a \<le> ai \<and> length b \<le> bi"
  by (auto simp: cr_op_next_def)

lemma drop_nth_Cons: "i < length xs \<Longrightarrow> drop i xs = xs ! i # drop (Suc i) xs"
  by (simp add: Cons_nth_drop_Suc)

lemma cr_op_next_SomeE:
  assumes "cr_op_next a ai b bi = Some (v, ai', bi')"
  obtains "ai < length a" "v = a ! ai" "ai' = Suc ai" "bi' = bi" "bi < length b \<Longrightarrow> v < b ! bi"
  | "bi < length b" "v = b ! bi" "ai' = ai" "bi' = Suc bi" "ai < length a \<Longrightarrow> v < a ! ai"
  | "ai < length a" "bi < length b" "v = a ! ai" "v = b ! bi" "ai' = Suc ai" "bi' = Suc bi"
proof -
  consider "ai < length a" "bi < length b" "a ! ai < b ! bi" | "ai < length a" "bi < length b" "a ! ai = b ! bi"
    | "ai < length a" "bi < length b" "b ! bi < a ! ai" | "ai < length a" "\<not> bi < length b"
    | "\<not> ai < length a" "bi < length b" | "\<not> ai < length a" "\<not> bi < length b"
    using linorder_less_linear by blast
  then show thesis
  proof cases
    case 1 with assms that(1) show ?thesis by (simp add: cr_op_next_def)
  next
    case 2
    with assms have "v = b ! bi" "ai' = Suc ai" "bi' = Suc bi" by (auto simp: cr_op_next_def)
    with 2 show ?thesis by (intro that(3)) simp_all
  next
    case 3
    then have "\<not> a ! ai < b ! bi" "a ! ai \<noteq> b ! bi" by auto
    with 3 assms that(2) show ?thesis by (simp add: cr_op_next_def)
  next
    case 4 with assms that(1) show ?thesis by (simp add: cr_op_next_def)
  next
    case 5 with assms that(2) show ?thesis by (simp add: cr_op_next_def)
  next
    case 6 with assms show ?thesis by (simp add: cr_op_next_def)
  qed
qed

lemma sorted_drop_ge: "sorted xs \<Longrightarrow> i < length xs \<Longrightarrow> p \<in> set (drop i xs) \<Longrightarrow> xs ! i \<le> p"
  by (metis drop_nth_Cons insertE list.simps(15) nle_le sorted_wrt.simps(2) sorted_wrt_drop)

lemma cr_op_next_min:
  assumes "cr_op_next a ai b bi = Some (v, ai', bi')" "sorted a" "sorted b"
  shows "p \<in> set (drop ai a) \<union> set (drop bi b) \<Longrightarrow> v \<le> p"
  using assms(1)
proof (cases rule: cr_op_next_SomeE)
  case 1
  then show "p \<in> set (drop ai a) \<union> set (drop bi b) \<Longrightarrow> v \<le> p"
    using sorted_drop_ge [OF assms(2), of ai p] sorted_drop_ge [OF assms(3), of bi p]
    by (cases "bi < length b") auto
next
  case 2
  then show "p \<in> set (drop ai a) \<union> set (drop bi b) \<Longrightarrow> v \<le> p"
    using sorted_drop_ge [OF assms(2), of ai p] sorted_drop_ge [OF assms(3), of bi p]
    by (cases "ai < length a") auto
next
  case 3
  then show "p \<in> set (drop ai a) \<union> set (drop bi b) \<Longrightarrow> v \<le> p"
    using sorted_drop_ge [OF assms(2), of ai p] sorted_drop_ge [OF assms(3), of bi p] by auto
qed

lemma cr_op_next_mem:
  assumes "cr_op_next a ai b bi = Some (v, ai', bi')" "v \<le> c"
  shows "(odd ai' \<noteq> cr_mem (drop ai' a) c) = (odd ai \<noteq> cr_mem (drop ai a) c)"
    and "(odd bi' \<noteq> cr_mem (drop bi' b) c) = (odd bi \<noteq> cr_mem (drop bi b) c)"
proof -
  show "(odd ai' \<noteq> cr_mem (drop ai' a) c) = (odd ai \<noteq> cr_mem (drop ai a) c)"
    using assms(1)
  proof (cases rule: cr_op_next_SomeE)
    case 2 then show ?thesis by (simp only:)
  qed (use assms(2) in \<open>simp_all add: drop_nth_Cons\<close>)
  show "(odd bi' \<noteq> cr_mem (drop bi' b) c) = (odd bi \<noteq> cr_mem (drop bi b) c)"
    using assms(1)
  proof (cases rule: cr_op_next_SomeE)
    case 1 then show ?thesis by (simp only:)
  qed (use assms(2) in \<open>simp_all add: drop_nth_Cons\<close>)
qed

lemma cr_op_next_subset:
  "cr_op_next a ai b bi = Some (v, ai', bi') \<Longrightarrow>
     v \<in> set (drop ai a) \<union> set (drop bi b) \<and>
     set (drop ai' a) \<subseteq> set (drop ai a) \<and> set (drop bi' b) \<subseteq> set (drop bi b)"
  by (erule cr_op_next_SomeE) (simp_all add: drop_nth_Cons subset_insertI)

lemma cr_emit_None: "cr_op_next a ai b bi = None \<Longrightarrow> cr_emit a b op ai bi r = []"
  by (subst cr_emit.simps) simp

lemma cr_emit_Some:
  "cr_op_next a ai b bi = Some (v, ai', bi') \<Longrightarrow>
     cr_emit a b op ai bi r =
       (if cr_op_is_in op (odd ai') (odd bi') \<noteq> r then v # cr_emit a b op ai' bi' (\<not> r)
        else cr_emit a b op ai' bi' r)"
  by (subst cr_emit.simps) simp

lemma cr_emit_induct [case_names None Some]:
  assumes none: "\<And>ai bi r. cr_op_next a ai b bi = None \<Longrightarrow> P ai bi r"
    and some: "\<And>ai bi r v ai' bi'. cr_op_next a ai b bi = Some (v, ai', bi') \<Longrightarrow>
                 (\<And>r'. P ai' bi' r') \<Longrightarrow> P ai bi r"
  shows "P ai bi r"
proof (induction "(length a - ai) + (length b - bi)" arbitrary: ai bi r rule: less_induct)
  case less
  show ?case
  proof (cases "cr_op_next a ai b bi")
    case None
    then show ?thesis by (rule none)
  next
    case (Some t)
    obtain v ai' bi' where t: "t = (v, ai', bi')" by (cases t)
    have nx: "cr_op_next a ai b bi = Some (v, ai', bi')" using Some t by simp
    show ?thesis
      by (rule some [OF nx]) (rule less, rule cr_op_next_decreases [OF nx])
  qed
qed

lemma cr_emit_set: "set (cr_emit a b op ai bi r) \<subseteq> set (drop ai a) \<union> set (drop bi b)"
proof (induction ai bi r rule: cr_emit_induct [of a b])
  case None
  then show ?case by (simp add: cr_emit_None)
next
  case (Some ai bi r v ai' bi')
  show ?case
    using cr_op_next_subset [OF Some(1)] Some(2) [of r] Some(2) [of "\<not> r"]
    unfolding cr_emit_Some [OF Some(1)] by (simp only: split: if_split) fastforce
qed

lemma cr_op_next_later:
  assumes "cr_op_next a ai b bi = Some (v, ai', bi')" "sorted a" "sorted b"
  shows "\<forall>p \<in> set (cr_emit a b op ai' bi' r). v \<le> p"
  using cr_emit_set [of a b op ai' bi' r] cr_op_next_min [OF assms] cr_op_next_subset [OF assms(1)]
  by blast

lemma cr_emit_sorted:
  assumes "sorted a" "sorted b"
  shows "sorted (cr_emit a b op ai bi r)"
proof (induction ai bi r rule: cr_emit_induct [of a b])
  case None
  then show ?case by (simp add: cr_emit_None)
next
  case (Some ai bi r v ai' bi')
  then show ?case
    using cr_op_next_later [OF Some(1) assms] by (simp add: cr_emit_Some [OF Some(1)])
qed

lemma cr_emit_mem:
  assumes "sorted a" "sorted b"
  shows "r = cr_op_is_in op (odd ai) (odd bi) \<Longrightarrow> (r \<noteq> cr_mem (cr_emit a b op ai bi r) c) =
     cr_op_is_in op (odd ai \<noteq> cr_mem (drop ai a) c) (odd bi \<noteq> cr_mem (drop bi b) c)"
proof (induction ai bi r rule: cr_emit_induct [of a b])
  case (None ai bi r)
  then have "drop ai a = []" "drop bi b = []" by (simp_all add: cr_op_next_None)
  with None show ?case by (simp add: cr_emit_None)
next
  case (Some ai bi r v ai' bi')
  note nx = Some(1)
  show ?case
  proof (cases "v \<le> c")
    case False
    then have "\<forall>p \<in> set (drop ai a) \<union> set (drop bi b). c < p"
      using cr_op_next_min [OF nx assms] by (meson not_le order.trans)
    then have "\<not> cr_mem (drop ai a) c" "\<not> cr_mem (drop bi b) c"
      "\<not> cr_mem (cr_emit a b op ai bi r) c"
      using cr_emit_set [of a b op ai bi r] by (simp_all add: cr_mem_above subset_iff)
    with Some(3) show ?thesis by simp
  next
    case True
    let ?r = "cr_op_is_in op (odd ai') (odd bi')"
    have "(?r \<noteq> cr_mem (cr_emit a b op ai' bi' ?r) c) =
        cr_op_is_in op (odd ai \<noteq> cr_mem (drop ai a) c) (odd bi \<noteq> cr_mem (drop bi b) c)"
      using Some(2) [of ?r] cr_op_next_mem [OF nx True] by simp
    then show ?thesis
      using True unfolding cr_emit_Some [OF nx] by (cases ?r; cases r) simp_all
  qed
qed

lemma cr_emit_even:
  "r = cr_op_is_in op (odd ai) (odd bi) \<Longrightarrow> ai \<le> length a \<Longrightarrow> bi \<le> length b \<Longrightarrow>
     (r \<noteq> odd (length (cr_emit a b op ai bi r))) = cr_op_is_in op (odd (length a)) (odd (length b))"
proof (induction ai bi r rule: cr_emit_induct [of a b])
  case (None ai bi r)
  then have "ai = length a" "bi = length b" by (simp_all add: cr_op_next_None)
  with None show ?case by (simp add: cr_emit_None)
next
  case (Some ai bi r v ai' bi')
  let ?r = "cr_op_is_in op (odd ai') (odd bi')"
  have "ai' \<le> length a" "bi' \<le> length b"
    using Some(1,4,5) by (auto elim!: cr_op_next_SomeE)
  with Some(2) [of ?r] show ?case
    unfolding cr_emit_Some [OF Some(1)] by (cases ?r; cases r) simp_all
qed

lemma cr_emit_length: "length (cr_emit a b op ai bi r) \<le> (length a - ai) + (length b - bi)"
proof (induction ai bi r rule: cr_emit_induct [of a b])
  case None
  then show ?case by (simp add: cr_emit_None)
next
  case (Some ai bi r v ai' bi')
  show ?case
    using Some(2) [of r] Some(2) [of "\<not> r"] cr_op_next_decreases [OF Some(1)]
    unfolding cr_emit_Some [OF Some(1)] by (simp only: length_Cons split: if_split) linarith
qed

section \<open>The operations\<close>

definition cr_outcome :: "char_range \<Rightarrow> u32 list \<Rightarrow> (int \<times> char_range \<times> 'o) option \<Rightarrow> bool" where
  "cr_outcome cr pts res \<longleftrightarrow>
     (\<exists>r cr' st'. res = Some (r, cr', st') \<and> cr_ok cr' \<and>
        (r = 0 \<and> cr_list cr' = pts \<or> r = -1 \<and> (\<exists>n. cr_list cr' = take n pts)))"

definition cr_canonical :: "u32 list \<Rightarrow> bool" where
  "cr_canonical pts \<longleftrightarrow> sorted_wrt (<) pts \<and> even (length pts)"

lemma cr_canonical_sorted: "cr_canonical pts \<Longrightarrow> sorted pts \<and> even (length pts)"
  by (auto simp: cr_canonical_def intro: strict_sorted_imp_sorted)

text \<open>A range was produced that holds the codes \<open>S\<close>, or an allocation failed.\<close>

definition cr_result :: "(u32 \<Rightarrow> bool) \<Rightarrow> (u32 \<Rightarrow> bool) \<Rightarrow> (int \<times> char_range \<times> 'o) option \<Rightarrow> bool" where
  "cr_result D S res \<longleftrightarrow>
     (\<exists>r cr' st'. res = Some (r, cr', st') \<and> cr_ok cr' \<and>
        (r = 0 \<and> cr_canonical (cr_list cr') \<and> (\<forall>c. D c \<longrightarrow> cr_mem (cr_list cr') c = S c) \<or> r = -1))"

locale point_reallocator = reallocator ra 4 for ra :: "'o point_realloc"

context point_reallocator
begin

lemma cr_free_total: "\<exists>st'. cr_free ra cr st = Some st'"
  using ra_total [of st "cr_points cr" 0] by (auto simp: cr_free_def)

lemma cr_realloc_spec:
  assumes ok: "cr_ok cr" and sz: "sz \<le> 2 ^ 29"
  shows "\<exists>r cr' st'. cr_realloc ra cr sz st = Some (r, cr', st') \<and> cr_ok cr'
           \<and> cr_len cr' = cr_len cr \<and> cr_list cr' = cr_list cr
           \<and> (r = 0 \<and> sz \<le> cr_size cr' \<and> (cr_size cr < sz \<longrightarrow> cr_points cr' \<noteq> None) \<or> r = -1)"
proof (cases "sz > cr_size cr")
  case False
  with ok show ?thesis by (auto simp: cr_realloc_def)
next
  case True
  define n where "n = max sz (cr_size cr * 3 div 2)"
  have n: "0 < n" "cr_size cr * 3 < 2 ^ 31" "sz \<le> n" "cr_size cr \<le> n"
    using True sz by (auto simp: n_def)
  obtain p st' where r: "ra st (cr_points cr) (n * 4) = Some (p, st')"
    using ra_total [of st "cr_points cr" "n * 4"] by auto
  show ?thesis
  proof (cases p)
    case None
    with True n r ok show ?thesis by (auto simp: cr_realloc_def n_def)
  next
    case (Some b)
    have l: "length b = n"
      using ra_length [OF n(1)] r Some by simp
    have "take (min n (length (block (cr_points cr)))) b
            = take (min n (length (block (cr_points cr)))) (block (cr_points cr))"
      using ra_prefix [OF n(1)] r Some by simp
    moreover have "min n (length (block (cr_points cr))) = cr_size cr"
      using ok n by (simp add: cr_ok_def)
    ultimately have "take (cr_size cr) b = block (cr_points cr)"
      using ok by (simp add: cr_ok_def)
    then have "take (cr_len cr) b = cr_list cr"
      using ok by (simp add: cr_ok_def cr_list_def) (metis min.absorb1 take_take)
    then show ?thesis
      using True n r ok l Some by (auto simp: cr_realloc_def n_def cr_ok_def cr_list_def)
  qed
qed

lemma cr_store_append:
  assumes "cr_ok cr" "cr_len cr < cr_size cr"
  shows "\<exists>cr'. cr_store cr (cr_len cr) v = Some cr' \<and> cr_len cr' = cr_len cr \<and> cr_size cr' = cr_size cr
     \<and> cr_ok (cr'\<lparr>cr_len := Suc (cr_len cr)\<rparr>)
     \<and> cr_list (cr'\<lparr>cr_len := Suc (cr_len cr)\<rparr>) = cr_list cr @ [v]"
  using assms by (auto simp: cr_store_def cr_ok_def cr_list_def take_Suc_conv_app_nth)

lemma cr_add_point_spec:
  assumes ok: "cr_ok cr" and len: "cr_len cr < 2 ^ 29"
  shows "\<exists>r cr' st'. cr_add_point ra cr v st = Some (r, cr', st') \<and> cr_ok cr'
           \<and> (r = 0 \<and> cr_list cr' = cr_list cr @ [v] \<and> cr_len cr' = Suc (cr_len cr)
              \<or> r = -1 \<and> cr_list cr' = cr_list cr)"
proof -
  obtain r cr1 st1 where r: "(if cr_len cr \<ge> cr_size cr then cr_realloc ra cr (cr_len cr + 1) st
                    else Some (0, cr, st)) = Some (r, cr1, st1)"
    "cr_ok cr1" "cr_len cr1 = cr_len cr" "cr_list cr1 = cr_list cr"
    "r = 0 \<and> cr_len cr < cr_size cr1 \<or> r = -1"
    using cr_realloc_spec [OF ok, of "cr_len cr + 1" st] ok len
    by (cases "cr_len cr \<ge> cr_size cr") auto
  show ?thesis
  proof (cases "r = 0")
    case True
    with r cr_store_append [of cr1 v] show ?thesis
      by (auto simp: cr_add_point_def)
  next
    case False
    with r show ?thesis by (auto simp: cr_add_point_def)
  qed
qed

lemma cr_add_points_spec:
  assumes "cr_ok cr" "cr_len cr + length vs \<le> 2 ^ 29"
  shows "cr_outcome cr (cr_list cr @ vs) (cr_add_points ra cr vs st)"
  using assms
proof (induction vs arbitrary: cr st)
  case Nil
  then show ?case by (auto simp: cr_outcome_def)
next
  case (Cons v vs)
  obtain r cr1 st1 where r: "cr_add_point ra cr v st = Some (r, cr1, st1)" "cr_ok cr1"
    "r = 0 \<and> cr_list cr1 = cr_list cr @ [v] \<and> cr_len cr1 = Suc (cr_len cr)
       \<or> r = -1 \<and> cr_list cr1 = cr_list cr"
    using cr_add_point_spec [of cr v st] Cons.prems by auto
  show ?case
  proof (cases "r = 0")
    case True
    with r Cons.IH [of cr1 st1] Cons.prems show ?thesis
      by (auto simp: cr_outcome_def)
  next
    case False
    with r show ?thesis
      by (auto simp: cr_outcome_def intro!: exI [of _ "length (cr_list cr)"])
  qed
qed

lemma cr_op_loop_spec:
  assumes "cr_ok cr" "cr_len cr + (length a - ai) + (length b - bi) \<le> 2 ^ 29"
  shows "cr_outcome cr (cr_list cr @ cr_emit a b op ai bi (odd (cr_len cr)))
           (cr_op_loop ra a b op ai bi cr st)"
  using assms
proof (induction "(length a - ai) + (length b - bi)" arbitrary: ai bi cr st rule: less_induct)
  case less
  show ?case
  proof (cases "cr_op_next a ai b bi")
    case None
    with less.prems show ?thesis
      by (subst cr_op_loop.simps) (auto simp: cr_outcome_def cr_emit_None)
  next
    case (Some t)
    obtain v ai' bi' where t: "t = (v, ai', bi')" by (cases t)
    with Some have nx: "cr_op_next a ai b bi = Some (v, ai', bi')" by simp
    note dec = cr_op_next_decreases [OF nx]
    show ?thesis
    proof (cases "cr_op_is_in op (odd ai') (odd bi') = odd (cr_len cr)")
      case True
      have "cr_outcome cr (cr_list cr @ cr_emit a b op ai' bi' (odd (cr_len cr)))
              (cr_op_loop ra a b op ai' bi' cr st)"
        using less.hyps [OF dec less.prems(1)] less.prems(2) dec by simp
      with True nx show ?thesis
        by (subst cr_op_loop.simps) (simp add: cr_emit_Some)
    next
      case False
      obtain r cr1 st1 where r: "cr_add_point ra cr v st = Some (r, cr1, st1)" "cr_ok cr1"
        "r = 0 \<and> cr_list cr1 = cr_list cr @ [v] \<and> cr_len cr1 = Suc (cr_len cr)
           \<or> r = -1 \<and> cr_list cr1 = cr_list cr"
        using cr_add_point_spec [of cr v st] less.prems dec by fastforce
      have e: "cr_emit a b op ai bi (odd (cr_len cr)) = v # cr_emit a b op ai' bi' (\<not> odd (cr_len cr))"
        using False by (simp add: cr_emit_Some [OF nx])
      show ?thesis
      proof (cases "r = 0")
        case True
        then have "cr_outcome cr1 (cr_list cr1 @ cr_emit a b op ai' bi' (odd (cr_len cr1)))
              (cr_op_loop ra a b op ai' bi' cr1 st1)"
          using less.hyps [OF dec r(2)] r(3) less.prems(2) dec by simp
        with True False nx r e show ?thesis
          by (subst cr_op_loop.simps) (simp add: cr_outcome_def)
      next
        case fail: False
        have "cr_op_loop ra a b op ai bi cr st = Some (-1, cr1, st1)"
          using fail False nx r(1) by (subst cr_op_loop.simps) simp
        then show ?thesis
          using r(2,3) fail e
          by (auto simp: cr_outcome_def intro!: exI [of _ "length (cr_list cr)"])
      qed
    qed
  qed
qed

lemma cr_op_points:
  assumes "cr_ok cr" "cr_len cr = 0" "length a + length b \<le> 2 ^ 29"
  shows "\<exists>r cr' st'. cr_op ra cr a b op st = Some (r, cr', st') \<and> cr_ok cr'
           \<and> (r = 0 \<and> cr_list cr' = cr_canon (cr_emit a b op 0 0 False) \<or> r = -1)"
proof -
  have "cr_list cr = []" using assms(2) by (simp add: cr_list_def)
  with cr_op_loop_spec [of cr a 0 b 0 op st] assms
  obtain r cr1 st1 where "cr_op_loop ra a b op 0 0 cr st = Some (r, cr1, st1)" "cr_ok cr1"
    "r = 0 \<and> cr_list cr1 = cr_emit a b op 0 0 False \<or> r = -1"
    by (auto simp: cr_outcome_def)
  then show ?thesis
    using cr_compress_spec [of cr1] by (auto simp: cr_op_def)
qed

lemma cr_op_result:
  assumes "cr_ok cr" "cr_len cr = 0" "length a + length b \<le> 2 ^ 29"
    and "sorted a" "even (length a)" "sorted b" "even (length b)"
  shows "cr_result (\<lambda>c. True) (\<lambda>c. cr_op_is_in op (cr_mem a c) (cr_mem b c)) (cr_op ra cr a b op st)"
proof -
  let ?e = "cr_emit a b op 0 0 False"
  have z: "False = cr_op_is_in op (odd (0 :: nat)) (odd (0 :: nat))" by (cases op) simp_all
  have "even (length ?e)"
    using cr_emit_even [OF z, of a b] assms(5,7) z by (cases op) simp_all
  moreover have "sorted ?e" using assms(4,6) by (rule cr_emit_sorted)
  moreover have "cr_mem ?e c = cr_op_is_in op (cr_mem a c) (cr_mem b c)" for c
    using cr_emit_mem [OF assms(4,6) z, of c] by simp
  ultimately have "cr_canonical (cr_canon ?e)"
    "\<forall>c. cr_mem (cr_canon ?e) c = cr_op_is_in op (cr_mem a c) (cr_mem b c)"
    by (simp_all add: cr_canonical_def cr_canon_strict cr_canon_mem)
  then show ?thesis
    using cr_op_points [OF assms(1-3), of op st] unfolding cr_result_def by metis
qed

lemma cr_union1_result:
  assumes "cr_ok cr" "cr_canonical (cr_list cr)" "sorted b" "even (length b)"
    and "cr_len cr + length b \<le> 2 ^ 29"
  shows "cr_result (\<lambda>c. True) (\<lambda>c. cr_mem (cr_list cr) c \<or> cr_mem b c) (cr_union1 ra cr b st)"
proof -
  let ?z = "\<lparr>cr_len = 0, cr_size = 0, cr_points = None\<rparr>"
  have a: "rd_block (block (cr_points cr)) 0 (cr_len cr) = Some (cr_list cr)"
    using assms(1) by (simp add: rd_block_def cr_ok_def cr_list_def)
  have "cr_ok ?z" "cr_len ?z = 0" by (simp_all add: cr_ok_def)
  from cr_op_result [OF this, of "cr_list cr" b CR_OP_UNION st] assms
  have u: "cr_result (\<lambda>c. True) (\<lambda>c. cr_mem (cr_list cr) c \<or> cr_mem b c)
      (cr_op ra ?z (cr_list cr) b CR_OP_UNION st)"
    using cr_canonical_sorted [OF assms(2)] by (simp add: cr_list_length)
  then obtain r cr' st' where op: "cr_op ra ?z (cr_list cr) b CR_OP_UNION st = Some (r, cr', st')"
    by (auto simp: cr_result_def)
  obtain st'' where "cr_free ra cr st' = Some st''"
    using cr_free_total by blast
  with a op have "cr_union1 ra cr b st = Some (r, cr', st'')"
    by (simp add: cr_union1_def)
  with u op show ?thesis by (simp add: cr_result_def)
qed

lemma cr_union1_length:
  assumes "cr_ok cr" "cr_len cr + length b \<le> 2 ^ 29" "cr_union1 ra cr b st = Some (0, cr', st')"
  shows "cr_len cr' \<le> cr_len cr + length b"
proof -
  let ?z = "\<lparr>cr_len = 0, cr_size = 0, cr_points = None\<rparr>"
  have a: "rd_block (block (cr_points cr)) 0 (cr_len cr) = Some (cr_list cr)"
    using assms(1) by (simp add: rd_block_def cr_ok_def cr_list_def)
  have z: "cr_ok ?z" "cr_len ?z = 0" by (simp_all add: cr_ok_def)
  have la: "length (cr_list cr) = cr_len cr" using assms(1) by (rule cr_list_length)
  obtain r cr1 st1 where r: "cr_op ra ?z (cr_list cr) b CR_OP_UNION st = Some (r, cr1, st1)" "cr_ok cr1"
    "r = 0 \<and> cr_list cr1 = cr_canon (cr_emit (cr_list cr) b CR_OP_UNION 0 0 False) \<or> r = -1"
    using cr_op_points [OF z, of "cr_list cr" b CR_OP_UNION st] assms(2) la by auto
  have "r = 0" "cr1 = cr'"
    using assms(3) a r(1) by (auto simp: cr_union1_def Let_def bind_Some_iff)
  then have "length (cr_list cr') \<le> cr_len cr + length b"
    using r(3) cr_canon_length [of "cr_emit (cr_list cr) b CR_OP_UNION 0 0 False"]
      cr_emit_length [of "cr_list cr" b CR_OP_UNION 0 0 False] la by simp
  with r(2) \<open>cr1 = cr'\<close> show ?thesis by (simp add: cr_list_length)
qed

lemma cr_invert_result:
  assumes ok: "cr_ok cr" and srt: "sorted (cr_list cr)" and ev: "even (cr_len cr)"
    and len: "cr_len cr + 2 \<le> 2 ^ 29"
  shows "cr_result (\<lambda>c. c < UINT32_MAX) (\<lambda>c. \<not> cr_mem (cr_list cr) c) (cr_invert ra cr st)"
proof -
  let ?n = "cr_len cr" and ?pts = "0 # cr_list cr @ [UINT32_MAX]"
  have max: "p \<le> UINT32_MAX" for p
    by (simp add: UINT32_MAX_def word_le_nat_alt less_Suc_eq_le [symmetric])
      (use unsigned_less [of p, where ?'a = nat] in simp)
  obtain r cr1 st1 where r: "cr_realloc ra cr (?n + 2) st = Some (r, cr1, st1)" "cr_ok cr1"
    "cr_len cr1 = ?n" "cr_list cr1 = cr_list cr" "r = 0 \<and> ?n + 2 \<le> cr_size cr1 \<or> r = -1"
    using cr_realloc_spec [OF ok len] by blast
  show ?thesis
  proof (cases "r = 0")
    case False
    with r show ?thesis by (auto simp: cr_invert_def Let_def cr_result_def)
  next
    case True
    let ?B = "block (cr_points cr1)"
    have B: "length ?B = cr_size cr1" "?n + 2 \<le> cr_size cr1" "take ?n ?B = cr_list cr"
      using r True by (auto simp: cr_ok_def cr_list_def)
    define b where "b = (take 1 ?B @ cr_list cr @ drop (1 + ?n) ?B)[0 := 0, ?n + 1 := UINT32_MAX]"
    have l: "length (cr_list cr) = ?n" using ok by (rule cr_list_length)
    let ?cr2 = "cr1\<lparr>cr_points := Some b, cr_len := ?n + 2\<rparr>"
    have "take (?n + 2) b = ?pts" "length b = cr_size cr1"
      using B l unfolding b_def
      by (cases ?B; simp add: list_update_append take_Suc_conv_app_nth nth_append)+
    then have c2: "cr_ok ?cr2" "cr_list ?cr2 = ?pts"
      using B by (simp_all add: cr_ok_def cr_list_def)
    obtain cr3 where c3: "cr_compress ?cr2 = Some cr3" "cr_ok cr3" "cr_list cr3 = cr_canon ?pts"
      using cr_compress_spec [OF c2(1)] c2(2) by auto
    have "cr_invert ra cr st = Some (0, cr3, st1)"
      using r(1,3) True c3(1) B l
      by (simp add: cr_invert_def Let_def rd_block_def wr_block_def b_def)
    moreover have "even (length ?pts)" "sorted ?pts"
      using l ev srt max by (auto simp: sorted_append)
    then have "cr_canonical (cr_canon ?pts)"
      by (simp add: cr_canonical_def cr_canon_strict)
    moreover have "cr_mem (cr_canon ?pts) c \<longleftrightarrow> \<not> cr_mem (cr_list cr) c" if "c < UINT32_MAX" for c
      using that \<open>even (length ?pts)\<close> by (simp add: cr_canon_mem cr_mem_append not_le [symmetric])
    ultimately show ?thesis
      using c3(2,3) by (simp add: cr_result_def)
  qed
qed

end

section \<open>Properties\<close>

interpretation js_points: point_reallocator "js_def_realloc env 4" for env
proof -
  have "Suc 3 = 4" by simp
  then show "point_reallocator (js_def_realloc env 4)"
    using js_heap.reallocator_axioms [of env 3] by (simp add: point_reallocator_def)
qed

text \<open>
  C6: \<open>cr_op\<close> computes the set operation. For two sorted arrays of points it returns, with
  no access out of bounds and no overflow of its \<open>int\<close> sizes, and either reports -1 (an
  allocation failed) or leaves in a fresh range the strictly increasing array whose set is the
  union, intersection or symmetric difference of the two.
\<close>

theorem cr_op_computes_set_operation:
  assumes "sorted a" "even (length a)" "sorted b" "even (length b)"
    and "length a + length b \<le> 2 ^ 29"
  shows "\<exists>r cr st'. cr_op (js_def_realloc env 4) cr_init a b op st = Some (r, cr, st') \<and>
    (r = 0 \<and> sorted_wrt (<) (cr_list cr) \<and> even (length (cr_list cr)) \<and>
       (\<forall>c. cr_mem (cr_list cr) c = cr_op_is_in op (cr_mem a c) (cr_mem b c)) \<or> r = -1)"
  using js_points.cr_op_result [of cr_init a b op env st] assms
  by (auto simp: cr_result_def cr_canonical_def)

theorem cr_op_computes_set_operation_witness:
  "\<exists>r cr st'. cr_op (js_def_realloc \<lparr>lc_avail = (\<lambda>n. True), lc_usable = id, lc_junk = (\<lambda>i. 0)\<rparr> 4) cr_init
      [48, 58, 65, 91] [50, 70] CR_OP_INTER \<lparr>malloc_count = 0, malloc_size = 0, malloc_limit = 1000\<rparr>
      = Some (r, cr, st') \<and>
    (r = 0 \<and> sorted_wrt (<) (cr_list cr) \<and> even (length (cr_list cr)) \<and>
       (\<forall>c. cr_mem (cr_list cr) c = cr_op_is_in CR_OP_INTER (cr_mem [48, 58, 65, 91] c) (cr_mem [50, 70] c))
     \<or> r = -1)"
  by (rule cr_op_computes_set_operation) simp_all

text \<open>
  C7: \<open>cr_union_interval\<close> followed by \<open>cr_invert\<close>, the way a class \<open>[^a-b]\<close> is built, gives
  the complement: a canonical array whose set, below \<open>UINT32_MAX\<close>, is every code that was neither
  in the range nor in the closed interval from \<open>c1\<close> to \<open>c2\<close>.
\<close>

theorem cr_union_interval_invert:
  assumes "cr_ok cr" "cr_canonical (cr_list cr)" "cr_len cr + 4 \<le> 2 ^ 29"
    and "c1 \<le> c2" "c2 < UINT32_MAX"
  shows "\<exists>r cr' st'. cr_union_interval (js_def_realloc env 4) cr c1 c2 st = Some (r, cr', st') \<and>
    (r = -1 \<or> (\<exists>q cr'' st''. cr_invert (js_def_realloc env 4) cr' st' = Some (q, cr'', st'') \<and>
      (q = -1 \<or> sorted_wrt (<) (cr_list cr'')
         \<and> (\<forall>c < UINT32_MAX. cr_mem (cr_list cr'') c = (\<not> cr_mem (cr_list cr) c \<and> \<not> (c1 \<le> c \<and> c \<le> c2))))))"
proof -
  let ?ra = "js_def_realloc env 4"
  have lt: "c \<le> c2 \<longleftrightarrow> c < c2 + 1" for c
    using assms(5)
    by (simp add: UINT32_MAX_def word_less_nat_alt word_le_nat_alt unat_word_ariths less_Suc_eq_le)
  then have s: "sorted [c1, c2 + 1]" using assms(4) by auto
  have "cr_result (\<lambda>c. True) (\<lambda>c. cr_mem (cr_list cr) c \<or> cr_mem [c1, c2 + 1] c)
      (cr_union1 ?ra cr [c1, c2 + 1] st)"
    using js_points.cr_union1_result [OF assms(1,2) s, of env st] assms(3) by simp
  then obtain r cr' st' where u: "cr_union1 ?ra cr [c1, c2 + 1] st = Some (r, cr', st')" "cr_ok cr'"
    "r = 0 \<and> cr_canonical (cr_list cr') \<and>
       (\<forall>c. cr_mem (cr_list cr') c \<longleftrightarrow> cr_mem (cr_list cr) c \<or> cr_mem [c1, c2 + 1] c) \<or> r = -1"
    by (auto simp: cr_result_def)
  show ?thesis
  proof (cases "r = 0")
    case False
    with u show ?thesis by (simp add: cr_union_interval_def)
  next
    case True
    have len: "cr_len cr' + 2 \<le> 2 ^ 29"
      using js_points.cr_union1_length [OF assms(1), of "[c1, c2 + 1]" env st cr' st'] u(1) True
        assms(3) by simp
    have m: "cr_mem [c1, c2 + 1] c \<longleftrightarrow> c1 \<le> c \<and> c \<le> c2" for c
      using cr_mem_interval [of c1 "c2 + 1" "[]" c] s by (simp add: lt)
    have "sorted (cr_list cr')" "even (cr_len cr')"
      using cr_canonical_sorted [of "cr_list cr'"] u True by (auto simp: cr_list_length)
    then have "cr_result (\<lambda>c. c < UINT32_MAX) (\<lambda>c. \<not> cr_mem (cr_list cr') c) (cr_invert ?ra cr' st')"
      using js_points.cr_invert_result [OF u(2)] len by blast
    then show ?thesis
      using u True m by (auto simp: cr_result_def cr_canonical_def cr_union_interval_def)
  qed
qed

theorem cr_union_interval_invert_witness:
  "let env = \<lparr>lc_avail = (\<lambda>n. n < 100), lc_usable = id, lc_junk = (\<lambda>i. 0)\<rparr>;
       st = \<lparr>malloc_count = 0, malloc_size = 0, malloc_limit = 1000\<rparr>
   in \<exists>r cr' st'. cr_union_interval (js_def_realloc env 4) cr_init 97 122 st = Some (r, cr', st') \<and>
    (r = -1 \<or> (\<exists>q cr'' st''. cr_invert (js_def_realloc env 4) cr' st' = Some (q, cr'', st'') \<and>
      (q = -1 \<or> sorted_wrt (<) (cr_list cr'')
         \<and> (\<forall>c < UINT32_MAX. cr_mem (cr_list cr'') c =
               (\<not> cr_mem (cr_list cr_init) c \<and> \<not> (97 \<le> c \<and> c \<le> 122))))))"
  unfolding Let_def
  by (rule cr_union_interval_invert) (simp_all add: cr_canonical_def UINT32_MAX_def)

section \<open>The class tables\<close>

lemma lre_is_space_from_mem:
  "2 * (i + fuel) + 1 = length char_range_s \<Longrightarrow> sorted (drop (2 * i + 1) char_range_s) \<Longrightarrow>
     lre_is_space_from fuel i c = cr_mem (drop (2 * i + 1) char_range_s) c"
proof (induction fuel arbitrary: i)
  case 0
  then show ?case by simp
next
  case (Suc fuel)
  let ?a = "char_range_s ! (2 * i + 1)" and ?b = "char_range_s ! (2 * i + 2)"
  let ?r = "drop (2 * (i + 1) + 1) char_range_s"
  have d: "drop (2 * i + 1) char_range_s = ?a # ?b # ?r"
    using Suc.prems(1) by (simp add: Cons_nth_drop_Suc)
  with Suc.prems have s: "sorted (?a # ?b # ?r)" by simp
  then have "lre_is_space_from fuel (i + 1) c = cr_mem ?r c"
    using Suc.prems(1) by (intro Suc.IH) auto
  moreover have "\<not> cr_mem ?r c" if "c < ?b"
    using s that by (intro cr_mem_above) fastforce
  ultimately show ?case
    unfolding d cr_mem_interval [OF s] using s by auto
qed

lemma lre_is_space_mem: "lre_is_space c = cr_mem (drop 1 char_range_s) c"
proof -
  have l: "length char_range_s = 21" by (simp add: char_range_s_def)
  have "sorted (drop (2 * 0 + 1) char_range_s)" by (simp add: char_range_s_def)
  then have "lre_is_space_from 10 0 c = cr_mem (drop (2 * 0 + 1) char_range_s) c"
    by (intro lre_is_space_from_mem) (simp_all add: l)
  then show ?thesis by (simp add: lre_is_space_def l)
qed

text \<open>The class of a \<open>CharRangeEnum\<close> value, before the inversion of the upper case escapes.\<close>

definition class_pred :: "nat \<Rightarrow> u32 \<Rightarrow> bool" where
  "class_pred k c =
     (if k = 0 then 48 \<le> c \<and> c \<le> 57
      else if k = 1 then lre_is_space c
      else 48 \<le> c \<and> c \<le> 57 \<or> 65 \<le> c \<and> c \<le> 90 \<or> c = 95 \<or> 97 \<le> c \<and> c \<le> 122)"

lemma class_table:
  assumes "k < 3"
  shows "\<exists>len pts. char_range_table ! k = len # pts \<and> length pts = 2 * unat len \<and> unat len \<le> 10
           \<and> cr_canonical pts \<and> (\<forall>c. cr_mem pts c = class_pred k c)"
proof -
  have w: "c \<le> b \<longleftrightarrow> c < b + 1" if "b < 1000" for c b :: u32
    using that by (simp add: word_less_nat_alt word_le_nat_alt unat_word_ariths less_Suc_eq_le)
  have d: "cr_mem [48, 58] c = class_pred 0 c" for c
    using cr_mem_interval [of 48 58 "[]" c] w [of 57 c] by (simp add: class_pred_def)
  have s: "cr_mem (drop 1 char_range_s) c = class_pred 1 c" for c
    by (simp add: class_pred_def lre_is_space_mem)
  have "c = 95 \<longleftrightarrow> 95 \<le> c \<and> c < 96" for c :: u32
    using w [of 95 c] by auto
  then have x: "cr_mem [48, 58, 65, 91, 95, 96, 97, 123] c = class_pred 2 c" for c
    using cr_mem_interval [of 48 58 "[65, 91, 95, 96, 97, 123]" c]
      cr_mem_interval [of 65 91 "[95, 96, 97, 123]" c] cr_mem_interval [of 95 96 "[97, 123]" c]
      cr_mem_interval [of 97 123 "[]" c] w [of 57 c] w [of 90 c] w [of 122 c]
    by (simp add: class_pred_def del: cr_mem_simps(2))
  consider "k = 0" | "k = 1" | "k = 2" using assms by linarith
  then show ?thesis
  proof cases
    case 1
    with d show ?thesis
      by (intro exI [of _ 1] exI [of _ "[48, 58]"])
        (simp add: char_range_table_def char_range_d_def cr_canonical_def del: cr_mem_simps(2))
  next
    case 2
    with s show ?thesis
      by (intro exI [of _ 10] exI [of _ "drop 1 char_range_s"])
        (simp add: char_range_table_def char_range_s_def cr_canonical_def del: cr_mem_simps(2))
  next
    case 3
    with x show ?thesis
      by (intro exI [of _ 4] exI [of _ "[48, 58, 65, 91, 95, 96, 97, 123]"])
        (simp add: char_range_table_def char_range_w_def cr_canonical_def del: cr_mem_simps(2))
  qed
qed

text \<open>
  C8: the escapes \<open>\d \D \s \S \w \W\<close> denote the classes of the language. \<open>cr_init_char_range\<close>
  on a \<open>CharRangeEnum\<close> value returns, without leaving its tables, and unless an allocation fails the
  range holds exactly the digits, the codes \<open>lre_is_space\<close> accepts, or the word characters, and
  the complement of these (below \<open>UINT32_MAX\<close>) for the upper case escapes.
\<close>

theorem cr_init_char_range_classes:
  assumes "k < 6"
  shows "\<exists>r cr st'. cr_init_char_range (js_def_realloc env 4) k st = Some (r, cr, st') \<and>
    (r = -1 \<or> r = 0 \<and> cr_ok cr \<and> cr_canonical (cr_list cr) \<and>
       (\<forall>c < UINT32_MAX. cr_mem (cr_list cr) c = (odd k \<noteq> class_pred (k div 2) c)))"
proof -
  let ?ra = "js_def_realloc env 4"
  have "k div 2 < 3" using assms by simp
  from class_table [OF this] obtain len pts where tab: "char_range_table ! (k div 2) = len # pts" "length pts = 2 * unat len"
    "unat len \<le> 10" "cr_canonical pts" "\<forall>c. cr_mem pts c = class_pred (k div 2) c"
    by blast
  have "length char_range_table = 3" by (simp add: char_range_table_def)
  with tab(1,2) assms have ld: "rd char_range_table (k div 2) = Some (len # pts)"
    "rd_block (len # pts) 1 (unat len * 2) = Some pts"
    by (auto simp: rd_def rd_block_def)
  have "cr_outcome cr_init pts (cr_add_points ?ra cr_init pts st)"
    using js_points.cr_add_points_spec [of cr_init pts env st] tab(2,3) by simp
  then obtain r cr1 st1 where r: "cr_add_points ?ra cr_init pts st = Some (r, cr1, st1)" "cr_ok cr1"
    "r = 0 \<and> cr_list cr1 = pts \<or> r = -1"
    by (auto simp: cr_outcome_def)
  have fail: "\<exists>st'. cr_fail ?ra cr st'' = Some (-1, cr, st')" for cr st''
    using js_points.cr_free_total [of env cr st''] by (auto simp: cr_fail_def)
  have run: "cr_init_char_range ?ra k st =
      (if r \<noteq> 0 then cr_fail ?ra cr1 st1
       else if odd k then do {
         (r, cr, st) \<leftarrow> cr_invert ?ra cr1 st1;
         if r \<noteq> 0 then cr_fail ?ra cr st else Some (0, cr, st)
       } else Some (0, cr1, st1))"
    by (simp add: cr_init_char_range_def Let_def ld r(1) rd_def [of "_ # _"] del: One_nat_def)
  consider "r \<noteq> 0" | "r = 0" "even k" | "r = 0" "odd k" by blast
  then show ?thesis
  proof cases
    case 1
    with run fail [of cr1 st1] show ?thesis by auto
  next
    case 2
    with run r(2,3) tab(4,5) show ?thesis by simp
  next
    case 3
    with r(3) have l1: "cr_list cr1 = pts" by simp
    with tab(2) cr_list_length [OF r(2)] have "cr_len cr1 = 2 * unat len" by simp
    then have "cr_result (\<lambda>c. c < UINT32_MAX) (\<lambda>c. \<not> cr_mem pts c) (cr_invert ?ra cr1 st1)"
      using js_points.cr_invert_result [OF r(2)] cr_canonical_sorted [OF tab(4)] tab(3) l1 by simp
    then obtain q cr2 st2 where q: "cr_invert ?ra cr1 st1 = Some (q, cr2, st2)" "cr_ok cr2"
      "q = 0 \<and> cr_canonical (cr_list cr2) \<and> (\<forall>c < UINT32_MAX. cr_mem (cr_list cr2) c = (\<not> cr_mem pts c))
         \<or> q = -1"
      by (auto simp: cr_result_def)
    then show ?thesis
      using run 3 tab(5) fail [of cr2 st2] by (cases "q = 0") auto
  qed
qed

theorem cr_init_char_range_classes_witness:
  "\<exists>r cr st'. cr_init_char_range (js_def_realloc \<lparr>lc_avail = (\<lambda>n. True), lc_usable = id, lc_junk = (\<lambda>i. 0)\<rparr> 4) 3
      \<lparr>malloc_count = 0, malloc_size = 0, malloc_limit = 10000\<rparr> = Some (r, cr, st') \<and>
    (r = -1 \<or> r = 0 \<and> cr_ok cr \<and> cr_canonical (cr_list cr) \<and>
       (\<forall>c < UINT32_MAX. cr_mem (cr_list cr) c = (odd (3 :: nat) \<noteq> class_pred (3 div 2) c)))"
  by (rule cr_init_char_range_classes) simp

end
