(* ===== verification/Case_Conv.thy ===== *)
theory Case_Conv
  imports Unicode_Props Char_Range
begin

text \<open>
  Case conversion: \<open>lre_case_conv\<close> and \<open>lre_is_cased\<close> of libunicode.c (lines 34 to 158 and 240
  to 263) and \<open>lre_canonicalize\<close> of libregexp.c, over the shipped tables.

  An entry of \<open>case_conv_table1\<close> packs a first code (17 bits), a length (7 bits), a run type
  and the upper part of an index; \<open>case_conv_table2\<close> holds its lower part. \<open>conv_type\<close> is 0 for
  upper case, 1 for lower case and 2 for case folding. \<open>lre_case_conv\<close> gives the list of codes it
  stores to \<open>res\<close>, whose length is its result, or \<open>None\<close> for a read outside a table.
\<close>

section \<open>Entries\<close>

datatype run_type =
    RUN_TYPE_U | RUN_TYPE_L | RUN_TYPE_UF | RUN_TYPE_LF | RUN_TYPE_UL | RUN_TYPE_LSU
  | RUN_TYPE_U2L_399_EXT2 | RUN_TYPE_UF_D20 | RUN_TYPE_UF_D1_EXT | RUN_TYPE_U_EXT
  | RUN_TYPE_LF_EXT | RUN_TYPE_U_EXT2 | RUN_TYPE_L_EXT2 | RUN_TYPE_U_EXT3

text \<open>The type field holds 14 values and more; the last two take the \<open>default\<close> branch.\<close>

definition run_type_of :: "nat \<Rightarrow> run_type" where
  "run_type_of n =
     (if n < 14 then
        [RUN_TYPE_U, RUN_TYPE_L, RUN_TYPE_UF, RUN_TYPE_LF, RUN_TYPE_UL, RUN_TYPE_LSU,
         RUN_TYPE_U2L_399_EXT2, RUN_TYPE_UF_D20, RUN_TYPE_UF_D1_EXT, RUN_TYPE_U_EXT,
         RUN_TYPE_LF_EXT, RUN_TYPE_U_EXT2, RUN_TYPE_L_EXT2, RUN_TYPE_U_EXT3] ! n
      else RUN_TYPE_U_EXT3)"

definition cc_code :: "u32 \<Rightarrow> u32" where
  "cc_code v = drop_bit 15 v"

definition cc_len :: "u32 \<Rightarrow> u32" where
  "cc_len v = drop_bit 8 v AND 0x7f"

definition cc_type :: "u32 \<Rightarrow> run_type" where
  "cc_type v = run_type_of (unat (drop_bit 4 v AND 0xf))"

text \<open>
  The binary search: the index of the entry that covers \<open>c\<close> with its value, \<open>Some None\<close> when
  the loop ends without one.
\<close>

function case_conv_search :: "u32 list \<Rightarrow> u32 \<Rightarrow> int \<Rightarrow> int \<Rightarrow> (nat \<times> u32) option option" where
  "case_conv_search tab c idx_min idx_max =
     (if idx_min \<le> idx_max then do {
        let idx = (idx_max + idx_min) div 2;
        v \<leftarrow> (if idx < 0 then None else rd tab (nat idx));
        if c < cc_code v then case_conv_search tab c idx_min (idx - 1)
        else if c \<ge> cc_code v + cc_len v then case_conv_search tab c (idx + 1) idx_max
        else Some (Some (nat idx, v))
      } else Some None)"
  by auto
termination
  by (relation "measure (\<lambda>(tab, c, lo, hi). nat (hi - lo + 1))") auto

declare case_conv_search.simps [simp del]

section \<open>Conversion\<close>

definition rd_ext :: "u32 \<Rightarrow> u32 option" where
  "rd_ext i = map_option ucast (rd case_conv_ext (unat i))"

text \<open>The \<open>switch\<close> on the run type for the code \<open>c\<close> in the run that starts at \<open>code\<close>.\<close>

definition case_conv_run :: "u32 \<Rightarrow> nat \<Rightarrow> u32 \<Rightarrow> run_type \<Rightarrow> nat \<Rightarrow> u32 \<Rightarrow> u32 list option" where
  "case_conv_run c conv_type code ty tynum data =
     (let is_lower = (if conv_type \<noteq> 0 then 1 else 0 :: u32); a = c - code in
      case ty of
        RUN_TYPE_U2L_399_EXT2 \<Rightarrow>
          if is_lower = 0 then do {
            e \<leftarrow> rd_ext (drop_bit 6 data);
            Some [c - code + e, 0x399]
          } else do {
            e \<leftarrow> rd_ext (data AND 0x3f);
            Some [c - code + e]
          }
      | RUN_TYPE_UL \<Rightarrow>
          if a AND 1 \<noteq> 1 - is_lower then Some [c] else Some [(a XOR 1) + code]
      | RUN_TYPE_LSU \<Rightarrow>
          if a = 1 then Some [c + (2 * is_lower - 1)]
          else if a = (1 - is_lower) * 2 then Some [c + (2 * is_lower - 1) * 2]
          else Some [c]
      | RUN_TYPE_UF_D20 \<Rightarrow>
          if conv_type = 1 then Some [c]
          else Some [data + (if conv_type = 2 then 0x20 else 0)]
      | RUN_TYPE_UF_D1_EXT \<Rightarrow>
          if conv_type = 1 then Some [c]
          else do {
            e \<leftarrow> rd_ext data;
            Some [e + (if conv_type = 2 then 1 else 0)]
          }
      | RUN_TYPE_U_EXT \<Rightarrow>
          if is_lower \<noteq> 0 then Some [c] else map_option (\<lambda>e. [e]) (rd_ext data)
      | RUN_TYPE_LF_EXT \<Rightarrow>
          if is_lower \<noteq> 1 then Some [c] else map_option (\<lambda>e. [e]) (rd_ext data)
      | RUN_TYPE_U_EXT2 \<Rightarrow>
          if conv_type \<noteq> 0 then Some [c]
          else do {
            e0 \<leftarrow> rd_ext (drop_bit 6 data);
            e1 \<leftarrow> rd_ext (data AND 0x3f);
            Some [c - code + e0, e1]
          }
      | RUN_TYPE_L_EXT2 \<Rightarrow>
          if conv_type \<noteq> 1 then Some [c]
          else do {
            e0 \<leftarrow> rd_ext (drop_bit 6 data);
            e1 \<leftarrow> rd_ext (data AND 0x3f);
            Some [c - code + e0, e1]
          }
      | RUN_TYPE_U_EXT3 \<Rightarrow>
          if conv_type \<noteq> 0 then Some [c]
          else do {
            e0 \<leftarrow> rd_ext (drop_bit 8 data);
            e1 \<leftarrow> rd_ext (drop_bit 4 data AND 0xf);
            e2 \<leftarrow> rd_ext (data AND 0xf);
            Some [e0, e1, e2]
          }
      | _ \<Rightarrow>
          if conv_type = tynum mod 2 \<or> (2 \<le> tynum \<and> conv_type = 2) then do {
            v \<leftarrow> rd case_conv_table1 (unat data);
            Some [c - code + cc_code v]
          } else Some [c])"

definition lre_case_conv :: "u32 \<Rightarrow> nat \<Rightarrow> u32 list option" where
  "lre_case_conv c conv_type =
     (if c < 128 then
        (if conv_type \<noteq> 0 then
           (if 65 \<le> c \<and> c \<le> 90 then Some [c - 65 + 97] else Some [c])
         else
           (if 97 \<le> c \<and> c \<le> 122 then Some [c - 97 + 65] else Some [c]))
      else do {
        r \<leftarrow> case_conv_search case_conv_table1 c 0 (int (length case_conv_table1) - 1);
        (case r of
           None \<Rightarrow> Some [c]
         | Some (idx, v) \<Rightarrow> do {
             lo \<leftarrow> rd case_conv_table2 idx;
             let data = push_bit 8 (v AND 0xf) OR ucast lo;
             case_conv_run c conv_type (cc_code v) (cc_type v) (unat (drop_bit 4 v AND 0xf)) data
           })
      })"

definition lre_is_cased :: "u32 \<Rightarrow> bool option" where
  "lre_is_cased c = do {
     r \<leftarrow> case_conv_search case_conv_table1 c 0 (int (length case_conv_table1) - 1);
     if r \<noteq> None then Some True
     else lre_is_in_table c unicode_prop_Cased1_table unicode_prop_Cased1_index
            (length unicode_prop_Cased1_index div 3)
   }"

text \<open>libregexp.c: canonicalization with the rules of the regular expressions.\<close>

definition lre_canonicalize :: "u32 \<Rightarrow> bool \<Rightarrow> u32 option" where
  "lre_canonicalize c is_utf16 =
     (if is_utf16 then
        (if c < 128 then Some (if 65 \<le> c \<and> c \<le> 90 then c - 65 + 97 else c)
         else do {
           res \<leftarrow> lre_case_conv c 2;
           rd res 0
         })
      else
        (if c < 128 then Some (if 97 \<le> c \<and> c \<le> 122 then c - 97 + 65 else c)
         else do {
           res \<leftarrow> lre_case_conv c 0;
           r0 \<leftarrow> rd res 0;
           Some (if length res = 1 \<and> r0 \<ge> 128 then r0 else c)
         }))"

section \<open>The search\<close>

definition covers :: "u32 \<Rightarrow> u32 \<Rightarrow> bool" where
  "covers v c \<longleftrightarrow> cc_code v \<le> c \<and> c < cc_code v + cc_len v"

text \<open>Entries in increasing order, each run ending before the next one starts.\<close>

fun runs_sorted :: "u32 list \<Rightarrow> bool" where
  "runs_sorted (v # w # tab) \<longleftrightarrow>
     unat (cc_code v) + unat (cc_len v) \<le> unat (cc_code w) \<and> runs_sorted (w # tab)"
| "runs_sorted _ \<longleftrightarrow> True"

lemma cc_end: "unat (cc_code v + cc_len v) = unat (cc_code v) + unat (cc_len v)"
proof -
  have "unat (cc_code v) < 2 ^ 17"
    using unsigned_less [of v, where ?'a = nat]
    by (simp add: cc_code_def unat_shr less_mult_imp_div_less)
  moreover have "unat (cc_len v) < 2 ^ 7"
    by (simp add: cc_len_def and_mask_take_bit unat_mask)
  ultimately show ?thesis by (simp add: unat_word_ariths)
qed

lemma runs_sorted_step:
  "runs_sorted tab \<Longrightarrow> Suc i < length tab \<Longrightarrow>
     unat (cc_code (tab ! i)) + unat (cc_len (tab ! i)) \<le> unat (cc_code (tab ! Suc i))"
proof (induction tab arbitrary: i rule: runs_sorted.induct)
  case (1 v w tab)
  then show ?case by (cases i) auto
qed auto

lemma runs_sorted_nth:
  assumes "runs_sorted tab" "i < j" "j < length tab"
  shows "unat (cc_code (tab ! i)) + unat (cc_len (tab ! i)) \<le> unat (cc_code (tab ! j))"
  using assms(2,3)
proof (induction j)
  case 0
  then show ?case by simp
next
  case (Suc j)
  then show ?case
    using runs_sorted_step [OF assms(1), of j] by (cases "i = j") auto
qed

lemma case_conv_search_spec:
  assumes "runs_sorted tab" "0 \<le> lo" "hi < int (length tab)"
    and "\<forall>i < length tab. covers (tab ! i) c \<longrightarrow> lo \<le> int i \<and> int i \<le> hi"
  shows "\<exists>r. case_conv_search tab c lo hi = Some r \<and>
    (case r of
       None \<Rightarrow> \<forall>i < length tab. \<not> covers (tab ! i) c
     | Some (i, v) \<Rightarrow> i < length tab \<and> v = tab ! i \<and> covers v c)"
  using assms
proof (induction "nat (hi - lo + 1)" arbitrary: lo hi rule: less_induct)
  case less
  show ?case
  proof (cases "lo \<le> hi")
    case False
    with less.prems(4) have "\<forall>i < length tab. \<not> covers (tab ! i) c" by force
    with False show ?thesis by (subst case_conv_search.simps) simp
  next
    case True
    define m where "m = (hi + lo) div 2"
    have m: "lo \<le> m" "m \<le> hi" "0 \<le> m" "nat m < length tab"
      using True less.prems(2,3) by (auto simp: m_def)
    define v where "v = tab ! nat m"
    have nn: "\<not> hi + lo < 0" using less.prems(2) True by linarith
    have step: "case_conv_search tab c lo hi =
       (if c < cc_code v then case_conv_search tab c lo (m - 1)
        else if c \<ge> cc_code v + cc_len v then case_conv_search tab c (m + 1) hi
        else Some (Some (nat m, v)))"
      using True nn m(4) by (subst case_conv_search.simps) (simp add: v_def m_def Let_def)
    have later: "unat (cc_code v) + unat (cc_len v) \<le> unat (cc_code (tab ! i))"
      if "i < length tab" "nat m < i" for i
      using runs_sorted_nth [OF less.prems(1) that(2,1)] by (simp add: v_def)
    have earlier: "unat (cc_code (tab ! i)) + unat (cc_len (tab ! i)) \<le> unat (cc_code v)"
      if "i < nat m" for i
      using runs_sorted_nth [OF less.prems(1) that m(4)] by (simp add: v_def)
    consider "c < cc_code v" | "\<not> c < cc_code v" "c \<ge> cc_code v + cc_len v"
      | "\<not> c < cc_code v" "\<not> c \<ge> cc_code v + cc_len v" by blast
    then show ?thesis
    proof cases
      case 1
      have "\<forall>i < length tab. covers (tab ! i) c \<longrightarrow> lo \<le> int i \<and> int i \<le> m - 1"
      proof (intro allI impI)
        fix i assume i: "i < length tab" "covers (tab ! i) c"
        have "\<not> nat m \<le> i"
        proof
          assume "nat m \<le> i"
          then have "unat (cc_code v) \<le> unat (cc_code (tab ! i))"
            using later [OF i(1)] by (cases "nat m = i") (auto simp: v_def)
          with 1 i(2) show False by (simp add: covers_def word_less_nat_alt word_le_nat_alt)
        qed
        with less.prems(4) i m show "lo \<le> int i \<and> int i \<le> m - 1" by auto
      qed
      with less.hyps [of "m - 1" lo] less.prems m 1 step show ?thesis by simp
    next
      case 2
      have "\<forall>i < length tab. covers (tab ! i) c \<longrightarrow> m + 1 \<le> int i \<and> int i \<le> hi"
      proof (intro allI impI)
        fix i assume i: "i < length tab" "covers (tab ! i) c"
        have "\<not> i \<le> nat m"
        proof
          assume "i \<le> nat m"
          then have "unat (cc_code (tab ! i)) + unat (cc_len (tab ! i))
              \<le> unat (cc_code v) + unat (cc_len v)"
            using earlier [of i] by (cases "nat m = i") (auto simp: v_def)
          with 2(2) i(2) show False
            by (simp add: covers_def word_less_nat_alt word_le_nat_alt cc_end)
        qed
        with less.prems(4) i m show "m + 1 \<le> int i \<and> int i \<le> hi" by auto
      qed
      with less.hyps [of hi "m + 1"] less.prems m 2 step show ?thesis by simp
    next
      case 3
      then have "case_conv_search tab c lo hi = Some (Some (nat m, v))"
        by (simp only: step if_False)
      moreover have "covers v c" using 3 by (simp add: covers_def not_le not_less)
      ultimately show ?thesis using m(4) by (simp add: v_def)
    qed
  qed
qed

section \<open>The shipped tables\<close>

text \<open>Every index an entry's run type can read is inside its table.\<close>

definition ext_in :: "u32 \<Rightarrow> bool" where
  "ext_in i \<longleftrightarrow> unat i < 58"

definition entry_ok :: "u32 \<Rightarrow> u8 \<Rightarrow> bool" where
  "entry_ok v lo \<longleftrightarrow>
     (let data = push_bit 8 (v AND 0xf) OR ucast lo in
      case cc_type v of
        RUN_TYPE_U2L_399_EXT2 \<Rightarrow> ext_in (drop_bit 6 data) \<and> ext_in (data AND 0x3f)
      | RUN_TYPE_UL \<Rightarrow> True
      | RUN_TYPE_LSU \<Rightarrow> True
      | RUN_TYPE_UF_D20 \<Rightarrow> True
      | RUN_TYPE_UF_D1_EXT \<Rightarrow> ext_in data
      | RUN_TYPE_U_EXT \<Rightarrow> ext_in data
      | RUN_TYPE_LF_EXT \<Rightarrow> ext_in data
      | RUN_TYPE_U_EXT2 \<Rightarrow> ext_in (drop_bit 6 data) \<and> ext_in (data AND 0x3f)
      | RUN_TYPE_L_EXT2 \<Rightarrow> ext_in (drop_bit 6 data) \<and> ext_in (data AND 0x3f)
      | RUN_TYPE_U_EXT3 \<Rightarrow> ext_in (drop_bit 8 data) \<and> ext_in (drop_bit 4 data AND 0xf) \<and> ext_in (data AND 0xf)
      | _ \<Rightarrow> unat data < 361)"

fun entries_ok :: "u32 list \<Rightarrow> u8 list \<Rightarrow> bool" where
  "entries_ok (v # vs) (lo # los) \<longleftrightarrow> entry_ok v lo \<and> entries_ok vs los"
| "entries_ok [] [] \<longleftrightarrow> True"
| "entries_ok _ _ \<longleftrightarrow> False"

lemma case_conv_lengths: "length case_conv_table1 = 361" "length case_conv_table2 = 361"
  "length case_conv_ext = 58"
  by (simp_all add: case_conv_table1_def case_conv_table2_def case_conv_ext_def)

lemma runs_sorted_cong: "runs_sorted tab = runs_sorted tab"
  by (rule refl)

lemma case_conv_table1_sorted: "runs_sorted case_conv_table1"
  unfolding case_conv_table1_def by (simp add: cc_code_def cc_len_def cong: runs_sorted_cong)

lemma entries_ok_cong: "entries_ok vs los = entries_ok vs los"
  by (rule refl)

lemma case_conv_tables_ok: "entries_ok case_conv_table1 case_conv_table2"
  unfolding case_conv_table1_def case_conv_table2_def
  by (simp add: cc_type_def entry_ok_def Let_def run_type_of_def ext_in_def cong: entries_ok_cong)

lemma entries_ok_nth: "entries_ok vs los \<Longrightarrow> i < length vs \<Longrightarrow> entry_ok (vs ! i) (los ! i)"
proof (induction vs los arbitrary: i rule: entries_ok.induct)
  case (1 v vs lo los)
  then show ?case by (cases i) auto
qed auto

lemma rd_ext_some: "ext_in i \<Longrightarrow> rd_ext i = Some (ucast (case_conv_ext ! unat i))"
  by (simp add: rd_ext_def ext_in_def case_conv_lengths)

lemma case_conv_run_total:
  assumes "entry_ok v lo"
  shows "\<exists>res. case_conv_run c conv_type (cc_code v) (cc_type v) tynum (push_bit 8 (v AND 0xf) OR ucast lo)
           = Some res \<and> res \<noteq> [] \<and> length res \<le> 3"
  using assms
  by (cases "cc_type v")
    (simp_all add: entry_ok_def case_conv_run_def Let_def case_conv_lengths rd_ext_some)

section \<open>Properties\<close>

lemma case_conv_lookup:
  "\<exists>r. case_conv_search case_conv_table1 c 0 (int (length case_conv_table1) - 1) = Some r \<and>
    (case r of
       None \<Rightarrow> \<forall>i < length case_conv_table1. \<not> covers (case_conv_table1 ! i) c
     | Some (i, v) \<Rightarrow> i < length case_conv_table1 \<and> v = case_conv_table1 ! i \<and> covers v c)"
  by (rule case_conv_search_spec [OF case_conv_table1_sorted]) auto

lemma covers_unique:
  assumes "covers (case_conv_table1 ! i) c" "covers (case_conv_table1 ! j) c"
    and "i < length case_conv_table1" "j < length case_conv_table1"
  shows "i = j"
proof (rule ccontr)
  assume "i \<noteq> j"
  then consider "i < j" | "j < i" by linarith
  then show False
    using runs_sorted_nth [OF case_conv_table1_sorted, of i j]
      runs_sorted_nth [OF case_conv_table1_sorted, of j i] assms
    by cases (auto simp: covers_def word_le_nat_alt word_less_nat_alt cc_end)
qed

text \<open>The conversion an entry of the tables asks for.\<close>

definition entry_conv :: "nat \<Rightarrow> u32 \<Rightarrow> nat \<Rightarrow> u32 list option" where
  "entry_conv i c conv_type =
     (let v = case_conv_table1 ! i in
      case_conv_run c conv_type (cc_code v) (cc_type v) (unat (drop_bit 4 v AND 0xf))
        (push_bit 8 (v AND 0xf) OR ucast (case_conv_table2 ! i)))"

lemma lre_case_conv_lookup:
  assumes "\<not> c < 128"
  shows "lre_case_conv c k =
    (case the (case_conv_search case_conv_table1 c 0 (int (length case_conv_table1) - 1)) of
       None \<Rightarrow> Some [c]
     | Some (i, v) \<Rightarrow> entry_conv i c k)"
proof -
  obtain r where r: "case_conv_search case_conv_table1 c 0 (int (length case_conv_table1) - 1) = Some r"
    "case r of None \<Rightarrow> True | Some (i, v) \<Rightarrow> i < length case_conv_table1 \<and> v = case_conv_table1 ! i"
    using case_conv_lookup [of c] by (auto split: option.splits)
  then show ?thesis
    using assms
    by (auto simp: lre_case_conv_def entry_conv_def Let_def case_conv_lengths split: option.splits)
qed

text \<open>The runs of the table that cover a code.\<close>

definition covering_runs :: "u32 \<Rightarrow> nat list" where
  "covering_runs c = filter (\<lambda>i. covers (case_conv_table1 ! i) c) [0..<361]"

lemma covering_runs_none:
  "(\<And>i. i < 361 \<Longrightarrow> \<not> covers (case_conv_table1 ! i) c) \<Longrightarrow> covering_runs c = []"
  by (simp add: covering_runs_def filter_empty_conv)

lemma covering_runs_one:
  assumes "i < 361" "covers (case_conv_table1 ! i) c"
  shows "covering_runs c = [i]"
proof -
  have d: "distinct (covering_runs c)" by (simp add: covering_runs_def)
  have s: "set (covering_runs c) = {i}"
  proof (intro set_eqI iffI)
    fix j assume "j \<in> set (covering_runs c)"
    then have "j < 361" "covers (case_conv_table1 ! j) c" by (simp_all add: covering_runs_def)
    with assms covers_unique [of j c i] show "j \<in> {i}" by (simp add: case_conv_lengths)
  qed (use assms in \<open>simp add: covering_runs_def\<close>)
  from d s show ?thesis
    by (cases "covering_runs c"; cases "tl (covering_runs c)") auto
qed

lemma lre_case_conv_total: "\<exists>res. lre_case_conv c k = Some res \<and> res \<noteq> [] \<and> length res \<le> 3"
proof (cases "c < 128")
  case True
  then show ?thesis by (simp add: lre_case_conv_def)
next
  case False
  obtain r where r: "case_conv_search case_conv_table1 c 0 (int (length case_conv_table1) - 1) = Some r"
    "case r of None \<Rightarrow> True | Some (i, v) \<Rightarrow> i < 361"
    using case_conv_lookup [of c] by (auto simp: case_conv_lengths split: option.splits)
  note conv = lre_case_conv_lookup [OF False, of k, unfolded r(1) option.sel]
  show ?thesis
  proof (cases r)
    case None
    with conv show ?thesis by simp
  next
    case (Some p)
    obtain i v where p: "p = (i, v)" by (cases p)
    with Some r(2) have "i < 361" by simp
    then have "\<exists>res. entry_conv i c k = Some res \<and> res \<noteq> [] \<and> length res \<le> 3"
      using case_conv_run_total [OF entries_ok_nth [OF case_conv_tables_ok]]
      unfolding entry_conv_def Let_def case_conv_lengths by blast
    with conv Some p show ?thesis by simp
  qed
qed

lemma lre_canonicalize_total: "\<exists>r. lre_canonicalize c u = Some r"
proof -
  have "\<exists>res. lre_case_conv c k = Some res \<and> rd res 0 = Some (res ! 0)" for k
    using lre_case_conv_total [of c k] by (auto simp: rd_def)
  then obtain r0 r2 where "lre_case_conv c 0 = Some r0" "rd r0 0 = Some (r0 ! 0)"
    "lre_case_conv c 2 = Some r2" "rd r2 0 = Some (r2 ! 0)"
    by blast
  then show ?thesis by (simp add: lre_canonicalize_def)
qed

lemma lre_is_cased_by_table:
  "\<exists>r. lre_is_cased c = Some (covering_runs c \<noteq> [] \<or> r)
     \<and> table_reference 127370 c unicode_prop_Cased1_table = Some r"
proof -
  obtain s where s: "case_conv_search case_conv_table1 c 0 (int (length case_conv_table1) - 1) = Some s"
    "case s of
       None \<Rightarrow> \<forall>i < length case_conv_table1. \<not> covers (case_conv_table1 ! i) c
     | Some (i, v) \<Rightarrow> i < length case_conv_table1 \<and> v = case_conv_table1 ! i \<and> covers v c"
    using case_conv_lookup [of c] by blast
  have l: "length unicode_prop_Cased1_index div 3 = 6"
    by (simp add: unicode_prop_Cased1_index_def)
  obtain r where r: "lre_is_in_table c unicode_prop_Cased1_table unicode_prop_Cased1_index 6 = Some r"
    "table_reference 127370 c unicode_prop_Cased1_table = Some r"
    using lre_is_in_table_reference [OF index_ok_Cased1, of c] unfolding l
    by (auto simp: Cased1_entries)
  show ?thesis
  proof (cases s)
    case None
    with s(2) have "covering_runs c = []"
      by (intro covering_runs_none) (simp add: case_conv_lengths)
    with None s(1) r l show ?thesis by (simp add: lre_is_cased_def)
  next
    case (Some p)
    then have "covering_runs c \<noteq> []"
      using s(2) covering_runs_one [of "fst p" c] by (cases p) (simp add: case_conv_lengths)
    with Some s(1) r show ?thesis by (simp add: lre_is_cased_def)
  qed
qed

end
