(* ===== verification/Case_Maps.thy ===== *)
theory Case_Maps
  imports Case_Conv
begin

text \<open>
  What the case conversion of libunicode.c means: every run type of its table as the upper case, the lower case and the
  folding of a code, and \<open>lre_case_conv\<close> and \<open>lre_is_cased\<close> against it.
\<close>

section \<open>Case conversion against the meaning of the runs\<close>

text \<open>
  What an entry of the table says about a code c of its run, which starts at \<open>start\<close>: its upper case, its lower case
  and its folding. The types U, L, UF and LF map the run to the run of another entry; UL is a run of pairs, an upper
  and a lower case letter; LSU is a triple of an upper case, a title case and a lower case letter; the other types name
  the result or its parts in \<open>case_conv_ext\<close>.
\<close>

definition ext_code :: "u32 \<Rightarrow> u32" where
  "ext_code i = ucast (case_conv_ext ! unat i)"

definition run_maps :: "run_type \<Rightarrow> u32 \<Rightarrow> u32 \<Rightarrow> u32 \<Rightarrow> u32 list \<times> u32 list \<times> u32 list" where
  "run_maps ty start data c =
     (let other = [cc_code (case_conv_table1 ! unat data) + (c - start)];
          e = ext_code data;
          first = ext_code (data div 64) + (c - start);
          second = ext_code (data mod 64)
      in case ty of
           RUN_TYPE_U \<Rightarrow> (other, [c], [c])
         | RUN_TYPE_L \<Rightarrow> ([c], other, [c])
         | RUN_TYPE_UF \<Rightarrow> (other, [c], other)
         | RUN_TYPE_LF \<Rightarrow> ([c], other, other)
         | RUN_TYPE_UL \<Rightarrow> if odd (unat (c - start)) then ([c - 1], [c], [c]) else ([c], [c + 1], [c + 1])
         | RUN_TYPE_LSU \<Rightarrow> if c - start \<le> 2 then ([start], [start + 2], [start + 2]) else ([c], [c], [c])
         | RUN_TYPE_U2L_399_EXT2 \<Rightarrow> ([first, 0x399], [second + (c - start)], [second + (c - start)])
         | RUN_TYPE_UF_D20 \<Rightarrow> ([data], [c], [data + 32])
         | RUN_TYPE_UF_D1_EXT \<Rightarrow> ([e], [c], [e + 1])
         | RUN_TYPE_U_EXT \<Rightarrow> ([e], [c], [c])
         | RUN_TYPE_LF_EXT \<Rightarrow> ([c], [e], [e])
         | RUN_TYPE_U_EXT2 \<Rightarrow> ([first, second], [c], [c])
         | RUN_TYPE_L_EXT2 \<Rightarrow> ([c], [first, second], [c])
         | RUN_TYPE_U_EXT3 \<Rightarrow> ([ext_code (data div 256), ext_code (data div 16 mod 16), ext_code (data mod 16)], [c], [c]))"

definition case_maps :: "u32 \<Rightarrow> u32 list \<times> u32 list \<times> u32 list" where
  "case_maps c =
     (if c < 128 then
        (if 97 \<le> c \<and> c \<le> 122 then ([c - 32], [c], [c])
         else if 65 \<le> c \<and> c \<le> 90 then ([c], [c + 32], [c + 32])
         else ([c], [c], [c]))
      else case covering_runs c of
             [] \<Rightarrow> ([c], [c], [c])
           | i # _ \<Rightarrow> let v = case_conv_table1 ! i in
               run_maps (cc_type v) (cc_code v) (256 * (v mod 16) + ucast (case_conv_table2 ! i)) c)"

lemma odd_unat: "odd (unat (a :: u32)) \<longleftrightarrow> odd a"
  by (simp only: bit_0 [symmetric] bit_unsigned_iff) simp

lemma and_1_odd: "(a :: u32) AND 1 = of_bool (odd (unat a))"
  by (simp add: odd_unat and_one_eq mod_2_eq_odd)

lemma xor_1_odd: "(a :: u32) XOR 1 = (if odd (unat a) then a - 1 else a + 1)"
  by (simp add: odd_unat xor_one_eq)

lemma data_split:
  "push_bit 8 (v AND 0xf) OR ucast (lo :: u8) = (256 * (v mod 16) + ucast lo :: u32)"
proof -
  have "push_bit 8 (v AND 0xf) AND (ucast lo :: u32) = 0"
    by (rule bit_word_eqI) (auto simp: bit_simps dest: bit_imp_le_length)
  then have "push_bit 8 (v AND 0xf) OR ucast lo = push_bit 8 (v AND 0xf) + (ucast lo :: u32)"
    using word_plus_and_or [of "push_bit 8 (v AND 0xf)" "ucast lo :: u32"] by simp
  moreover have "v AND 0xf = v mod 16" using take_bit_eq_mask [of 4 v] by (simp add: take_bit_eq_mod mask_eq_exp_minus_1)
  ultimately show ?thesis by (simp add: push_bit_eq_mult mult.commute)
qed

lemma cc_type_number:
  defines "n v \<equiv> unat (drop_bit 4 v AND 0xf :: u32)"
  shows "cc_type v = RUN_TYPE_U \<Longrightarrow> n v = 0" "cc_type v = RUN_TYPE_L \<Longrightarrow> n v = 1"
    "cc_type v = RUN_TYPE_UF \<Longrightarrow> n v = 2" "cc_type v = RUN_TYPE_LF \<Longrightarrow> n v = 3"
  unfolding n_def cc_type_def run_type_of_def
  by (auto simp: less_Suc_eq numeral_eq_Suc split: if_splits)

lemma drop_and: "drop_bit 6 (x :: u32) = x div 64" "x AND 0x3f = x mod 64" "drop_bit 8 x = x div 256"
  "drop_bit 4 x = x div 16" "x AND 0xf = x mod 16"
  using take_bit_eq_mask [of 6 x] take_bit_eq_mask [of 4 x]
  by (simp_all add: drop_bit_eq_div take_bit_eq_mod mask_eq_exp_minus_1)

lemma le_2_cases: "(x :: u32) \<le> 2 \<Longrightarrow> x = 0 \<or> x = 1 \<or> x = 2"
  by (auto simp: word_le_nat_alt word_unat_eq_iff)

lemma case_conv_run_maps:
  assumes ok: "entry_ok v lo"
  defines "data \<equiv> push_bit 8 (v AND 0xf) OR ucast lo"
  shows "(case run_maps (cc_type v) (cc_code v) data c of (upper, lower, folded) \<Rightarrow>
    case_conv_run c 0 (cc_code v) (cc_type v) (unat (drop_bit 4 v AND 0xf)) data = Some upper \<and>
    case_conv_run c 1 (cc_code v) (cc_type v) (unat (drop_bit 4 v AND 0xf)) data = Some lower \<and>
    case_conv_run c 2 (cc_code v) (cc_type v) (unat (drop_bit 4 v AND 0xf)) data = Some folded)"
proof -
  note ev = case_conv_run_def run_maps_def Let_def rd_ext_some ext_code_def case_conv_lengths
  note ok' = ok [unfolded entry_ok_def data_def [symmetric] Let_def]
  show ?thesis
  proof (cases "cc_type v")
    case RUN_TYPE_UL
    then show ?thesis by (simp add: ev and_1_odd xor_1_odd)
  next
    case RUN_TYPE_LSU
    consider "c = cc_code v" | "c = cc_code v + 1" | "c = cc_code v + 2" | "\<not> c - cc_code v \<le> 2"
      using le_2_cases [of "c - cc_code v"] by (auto simp: diff_eq_eq add.commute)
    then show ?thesis using RUN_TYPE_LSU by cases (auto simp: ev)
  qed (use ok' cc_type_number [of v] in \<open>simp_all add: ev drop_and\<close>)
qed

lemma case_conv_entry:
  assumes "i < 361"
  shows "(case run_maps (cc_type (case_conv_table1 ! i)) (cc_code (case_conv_table1 ! i))
      (256 * (case_conv_table1 ! i mod 16) + ucast (case_conv_table2 ! i)) c of (upper, lower, folded) \<Rightarrow>
    entry_conv i c 0 = Some upper \<and> entry_conv i c 1 = Some lower \<and> entry_conv i c 2 = Some folded)"
proof -
  have "entry_ok (case_conv_table1 ! i) (case_conv_table2 ! i)"
    using entries_ok_nth [OF case_conv_tables_ok] assms by (simp add: case_conv_lengths)
  from case_conv_run_maps [OF this, of c] show ?thesis
    unfolding entry_conv_def Let_def data_split .
qed

text \<open>
  C12: case conversion. For every code \<open>lre_case_conv\<close> reads inside its tables and gives the upper case, the lower case and
  the folding that the table means: ASCII letters move by 32, a code in a run of the table has the mappings of the
  run's type (\<open>run_maps\<close>), all other codes stay; no code is in two runs. \<open>lre_is_cased\<close> holds for the codes in runs
  and those of the table \<open>Cased1\<close>.
\<close>

theorem lre_case_conv_maps:
  "(case case_maps c of (upper, lower, folded) \<Rightarrow>
      lre_case_conv c 0 = Some upper \<and> lre_case_conv c 1 = Some lower \<and> lre_case_conv c 2 = Some folded) \<and>
   length (covering_runs c) \<le> 1 \<and>
   (\<exists>r. table_reference 127370 c unicode_prop_Cased1_table = Some r \<and> lre_is_cased c = Some (if covering_runs c = [] then r else True))"
proof -
  have cased: "\<exists>r. table_reference 127370 c unicode_prop_Cased1_table = Some r \<and> lre_is_cased c = Some (if covering_runs c = [] then r else True)"
    using lre_is_cased_by_table [of c] by (cases "covering_runs c = []") auto
  obtain r where r: "case_conv_search case_conv_table1 c 0 (int (length case_conv_table1) - 1) = Some r"
    "case r of
       None \<Rightarrow> \<forall>i < length case_conv_table1. \<not> covers (case_conv_table1 ! i) c
     | Some (i, v) \<Rightarrow> i < length case_conv_table1 \<and> v = case_conv_table1 ! i \<and> covers v c"
    using case_conv_lookup [of c] by blast
  have conv: "lre_case_conv c k = (case r of None \<Rightarrow> Some [c] | Some (i, v) \<Rightarrow> entry_conv i c k)" if "\<not> c < 128" for k
    using lre_case_conv_lookup [OF that, of k, unfolded r(1) option.sel] .
  have ascii: ?thesis if "c < 128" "length (covering_runs c) \<le> 1"
  proof -
    have "c \<le> 90 \<Longrightarrow> \<not> 97 \<le> c" by (auto simp: word_le_nat_alt)
    then show ?thesis using that cased by (auto simp: lre_case_conv_def case_maps_def)
  qed
  show ?thesis
  proof (cases r)
    case None
    with r(2) have "covering_runs c = []" by (intro covering_runs_none) (simp add: case_conv_lengths)
    with None conv cased ascii show ?thesis by (cases "c < 128") (simp_all add: case_maps_def)
  next
    case (Some p)
    then have one: "covering_runs c = [fst p]" "fst p < 361"
      using r(2) covering_runs_one [of "fst p" c] by (cases p; simp add: case_conv_lengths)+
    with Some conv cased ascii case_conv_entry [OF one(2), of c] show ?thesis
      by (cases "c < 128") (simp_all add: case_maps_def Let_def case_prod_unfold)
  qed
qed

end
