(* ===== verification/Re_Opcode.thy ===== *)
theory Re_Opcode
  imports QJS_Prelude
begin

text \<open>
  The instruction set of the regular expression byte code: libregexp-opcode.h and the header
  layout of libregexp.c. An opcode is a byte, its number in the enumeration \<open>REOPCodeEnum\<close>.
\<close>

datatype reop =
    REOP_invalid
  | REOP_char
  | REOP_char32
  | REOP_dot
  | REOP_any
  | REOP_line_start
  | REOP_line_end
  | REOP_goto
  | REOP_split_goto_first
  | REOP_split_next_first
  | REOP_match
  | REOP_save_start
  | REOP_save_end
  | REOP_save_reset
  | REOP_loop
  | REOP_push_i32
  | REOP_drop
  | REOP_word_boundary
  | REOP_not_word_boundary
  | REOP_back_reference
  | REOP_backward_back_reference
  | REOP_range
  | REOP_range32
  | REOP_lookahead
  | REOP_negative_lookahead
  | REOP_push_char_pos
  | REOP_bne_char_pos
  | REOP_prev
  | REOP_simple_greedy_quant

definition reop_enum :: "reop list" where
  "reop_enum =
     [REOP_invalid, REOP_char, REOP_char32, REOP_dot, REOP_any, REOP_line_start, REOP_line_end,
      REOP_goto, REOP_split_goto_first, REOP_split_next_first, REOP_match, REOP_save_start,
      REOP_save_end, REOP_save_reset, REOP_loop, REOP_push_i32, REOP_drop, REOP_word_boundary,
      REOP_not_word_boundary, REOP_back_reference, REOP_backward_back_reference, REOP_range,
      REOP_range32, REOP_lookahead, REOP_negative_lookahead, REOP_push_char_pos,
      REOP_bne_char_pos, REOP_prev, REOP_simple_greedy_quant]"

definition REOP_COUNT :: nat where
  "REOP_COUNT = 29"

primrec reop_code :: "reop \<Rightarrow> nat" where
  "reop_code REOP_invalid = 0"
| "reop_code REOP_char = 1"
| "reop_code REOP_char32 = 2"
| "reop_code REOP_dot = 3"
| "reop_code REOP_any = 4"
| "reop_code REOP_line_start = 5"
| "reop_code REOP_line_end = 6"
| "reop_code REOP_goto = 7"
| "reop_code REOP_split_goto_first = 8"
| "reop_code REOP_split_next_first = 9"
| "reop_code REOP_match = 10"
| "reop_code REOP_save_start = 11"
| "reop_code REOP_save_end = 12"
| "reop_code REOP_save_reset = 13"
| "reop_code REOP_loop = 14"
| "reop_code REOP_push_i32 = 15"
| "reop_code REOP_drop = 16"
| "reop_code REOP_word_boundary = 17"
| "reop_code REOP_not_word_boundary = 18"
| "reop_code REOP_back_reference = 19"
| "reop_code REOP_backward_back_reference = 20"
| "reop_code REOP_range = 21"
| "reop_code REOP_range32 = 22"
| "reop_code REOP_lookahead = 23"
| "reop_code REOP_negative_lookahead = 24"
| "reop_code REOP_push_char_pos = 25"
| "reop_code REOP_bne_char_pos = 26"
| "reop_code REOP_prev = 27"
| "reop_code REOP_simple_greedy_quant = 28"

text \<open>The opcode a byte stands for; \<open>None\<close> for a byte outside the enumeration.\<close>

definition reop_of :: "nat \<Rightarrow> reop option" where
  "reop_of n = find (\<lambda>x. reop_code x = n) reop_enum"

text \<open>The size column of the opcode table (\<open>reopcode_info\<close>).\<close>

primrec reop_size :: "reop \<Rightarrow> nat" where
  "reop_size REOP_invalid = 1"
| "reop_size REOP_char = 3"
| "reop_size REOP_char32 = 5"
| "reop_size REOP_dot = 1"
| "reop_size REOP_any = 1"
| "reop_size REOP_line_start = 1"
| "reop_size REOP_line_end = 1"
| "reop_size REOP_goto = 5"
| "reop_size REOP_split_goto_first = 5"
| "reop_size REOP_split_next_first = 5"
| "reop_size REOP_match = 1"
| "reop_size REOP_save_start = 2"
| "reop_size REOP_save_end = 2"
| "reop_size REOP_save_reset = 3"
| "reop_size REOP_loop = 5"
| "reop_size REOP_push_i32 = 5"
| "reop_size REOP_drop = 1"
| "reop_size REOP_word_boundary = 1"
| "reop_size REOP_not_word_boundary = 1"
| "reop_size REOP_back_reference = 2"
| "reop_size REOP_backward_back_reference = 2"
| "reop_size REOP_range = 3"
| "reop_size REOP_range32 = 3"
| "reop_size REOP_lookahead = 5"
| "reop_size REOP_negative_lookahead = 5"
| "reop_size REOP_push_char_pos = 1"
| "reop_size REOP_bne_char_pos = 5"
| "reop_size REOP_prev = 1"
| "reop_size REOP_simple_greedy_quant = 17"

lemma reop_of_code [simp]: "reop_of (reop_code x) = Some x"
  by (cases x) (simp_all add: reop_of_def reop_enum_def)

lemma reop_code_less: "reop_code x < REOP_COUNT"
  by (cases x) (simp_all add: REOP_COUNT_def)

lemma reop_size_pos [simp]: "0 < reop_size x"
  by (cases x) simp_all

lemma reop_code_inj: "reop_code x = reop_code y \<Longrightarrow> x = y"
  by (metis option.inject reop_of_code)

lemma reop_of_Some: "reop_of n = Some x \<longleftrightarrow> reop_code x = n"
  by (metis (mono_tags, lifting) find_Some_iff2 reop_of_code reop_of_def)

instantiation reop :: linorder
begin

definition less_eq_reop :: "reop \<Rightarrow> reop \<Rightarrow> bool" where
  "less_eq_reop x y = (reop_code x \<le> reop_code y)"

definition less_reop :: "reop \<Rightarrow> reop \<Rightarrow> bool" where
  "less_reop x y = (reop_code x < reop_code y)"

instance
  by standard (auto simp: less_eq_reop_def less_reop_def intro: reop_code_inj)

end

section \<open>Header\<close>

definition RE_HEADER_FLAGS :: nat where "RE_HEADER_FLAGS = 0"
definition RE_HEADER_CAPTURE_COUNT :: nat where "RE_HEADER_CAPTURE_COUNT = 1"
definition RE_HEADER_STACK_SIZE :: nat where "RE_HEADER_STACK_SIZE = 2"
definition RE_HEADER_LEN :: nat where "RE_HEADER_LEN = 7"

definition CAPTURE_COUNT_MAX :: nat where "CAPTURE_COUNT_MAX = 255"
definition STACK_SIZE_MAX :: nat where "STACK_SIZE_MAX = 255"

text \<open>The flag bits of libregexp.h, by their position.\<close>

definition LRE_FLAG_GLOBAL :: nat where "LRE_FLAG_GLOBAL = 0"
definition LRE_FLAG_IGNORECASE :: nat where "LRE_FLAG_IGNORECASE = 1"
definition LRE_FLAG_MULTILINE :: nat where "LRE_FLAG_MULTILINE = 2"
definition LRE_FLAG_DOTALL :: nat where "LRE_FLAG_DOTALL = 3"
definition LRE_FLAG_UTF16 :: nat where "LRE_FLAG_UTF16 = 4"
definition LRE_FLAG_STICKY :: nat where "LRE_FLAG_STICKY = 5"
definition LRE_FLAG_NAMED_GROUPS :: nat where "LRE_FLAG_NAMED_GROUPS = 7"

lemmas re_header_defs = RE_HEADER_FLAGS_def RE_HEADER_CAPTURE_COUNT_def RE_HEADER_STACK_SIZE_def
  RE_HEADER_LEN_def

definition lre_get_capture_count :: "u8 list \<Rightarrow> nat option" where
  "lre_get_capture_count bc_buf = map_option unat (rd bc_buf RE_HEADER_CAPTURE_COUNT)"

definition lre_get_flags :: "u8 list \<Rightarrow> u8 option" where
  "lre_get_flags bc_buf = rd bc_buf RE_HEADER_FLAGS"

text \<open>The position of the group names, \<open>Some None\<close> for NULL.\<close>

definition lre_get_groupnames :: "u8 list \<Rightarrow> nat option option" where
  "lre_get_groupnames bc_buf = do {
     flags \<leftarrow> lre_get_flags bc_buf;
     if \<not> bit flags LRE_FLAG_NAMED_GROUPS then Some None
     else do {
       re_bytecode_len \<leftarrow> get_u32 bc_buf 3;
       Some (Some (7 + unat re_bytecode_len))
     }
   }"

end
