(* ===== verification/Re_Exec.thy ===== *)
theory Re_Exec
  imports Re_Opcode Case_Conv
begin

text \<open>
  The byte code executor, libregexp.c lines 1911 to 2535: the character access macros,
  \<open>push_state\<close>, \<open>lre_exec_backtrack\<close> and \<open>lre_exec\<close>.

  The subject is the byte block \<open>cbuf\<close> and the byte code the block \<open>bc\<close>; \<open>cptr\<close> and \<open>pc\<close> are
  positions in them, a capture is such a position or NULL (\<open>None\<close>). The backtracking stack is a
  block whose cells are the records \<open>re_exec_state\<close>, grown through \<open>lre_realloc\<close>. The main loop
  and the loop of a simple quantifier are written with fuel, \<open>RE_TIMEOUT\<close> standing for fuel that
  ran out. \<open>None\<close> is undefined behaviour: a read or write outside a block, a failed \<open>assert\<close>,
  \<open>abort()\<close>, or an integer stack popped below its bottom.
\<close>

section \<open>State\<close>

datatype re_state_type =
    RE_EXEC_STATE_SPLIT
  | RE_EXEC_STATE_LOOKAHEAD
  | RE_EXEC_STATE_NEGATIVE_LOOKAHEAD
  | RE_EXEC_STATE_GREEDY_QUANT

text \<open>\<open>REExecState\<close>; \<open>buf\<close> holds the captures and then the integer stack.\<close>

record re_exec_state =
  rs_type :: re_state_type
  rs_stack_len :: nat
  rs_count :: nat
  rs_cptr :: nat
  rs_pc :: nat
  rs_capture :: "nat option list"
  rs_stack :: "u64 list"

text \<open>
  \<open>REExecContext\<close>; \<open>cbuf_addr\<close> is the address of \<open>cbuf\<close>, seen by the program only through
  \<open>(uintptr_t)cptr\<close>, and \<open>opaque\<close> the allocator behind \<open>lre_realloc\<close>.
\<close>

record 'o re_exec_context =
  cbuf :: "u8 list"
  cbuf_end :: nat
  cbuf_addr :: u64
  cbuf_type :: nat
  capture_count :: nat
  stack_size_max :: nat
  multi_line :: bool
  ignore_case :: bool
  is_utf16 :: bool
  opaque :: 'o
  state_size :: nat
  state_stack :: "re_exec_state list option"
  state_stack_size :: nat
  state_stack_len :: nat

type_synonym 'o state_realloc =
  "'o \<Rightarrow> re_exec_state list option \<Rightarrow> nat \<Rightarrow> (re_exec_state list option \<times> 'o) option"

text \<open>The parameters and local variables of \<open>lre_exec_backtrack\<close> that a step changes.\<close>

record re_thread =
  th_capture :: "nat option list"
  th_stack :: "u64 list"
  th_stack_len :: nat
  th_pc :: nat
  th_cptr :: nat

section \<open>Characters\<close>

definition is_line_terminator :: "u32 \<Rightarrow> bool" where
  "is_line_terminator c \<longleftrightarrow> c = 10 \<or> c = 13 \<or> c = 0x2028 \<or> c = 0x2029"

definition is_word_char :: "u32 \<Rightarrow> bool" where
  "is_word_char c \<longleftrightarrow>
     48 \<le> c \<and> c \<le> 57 \<or> 97 \<le> c \<and> c \<le> 122 \<or> 65 \<le> c \<and> c \<le> 90 \<or> c = 95"

definition is_hi_surrogate :: "u32 \<Rightarrow> bool" where
  "is_hi_surrogate c \<longleftrightarrow> 0xd800 \<le> c \<and> c < 0xdc00"

definition is_lo_surrogate :: "u32 \<Rightarrow> bool" where
  "is_lo_surrogate c \<longleftrightarrow> 0xdc00 \<le> c \<and> c < 0xe000"

definition from_surrogate :: "u32 \<Rightarrow> u32 \<Rightarrow> u32" where
  "from_surrogate hi lo = (push_bit 10 (hi AND 0x3ff) OR (lo AND 0x3ff)) + 0x10000"

text \<open>The 16-bit unit at a byte position counted back from \<open>p\<close>.\<close>

definition unit_before :: "u8 list \<Rightarrow> nat \<Rightarrow> nat \<Rightarrow> u32 option" where
  "unit_before m p k = (if k \<le> p then get_u16 m (p - k) else None)"

text \<open>\<open>GET_CHAR(c, cptr, cbuf_end)\<close>: the code and the new position.\<close>

definition GET_CHAR :: "nat \<Rightarrow> u8 list \<Rightarrow> nat \<Rightarrow> nat \<Rightarrow> (u32 \<times> nat) option" where
  "GET_CHAR ty m cptr cend =
     (if ty = 0 then do {
        b \<leftarrow> rd m cptr;
        Some (ucast b, cptr + 1)
      } else do {
        c \<leftarrow> get_u16 m cptr;
        let cptr = cptr + 2;
        if is_hi_surrogate c \<and> ty = 2 \<and> cptr < cend then do {
          c1 \<leftarrow> get_u16 m cptr;
          Some (if is_lo_surrogate c1 then (from_surrogate c c1, cptr + 2) else (c, cptr))
        } else Some (c, cptr)
      })"

definition PEEK_CHAR :: "nat \<Rightarrow> u8 list \<Rightarrow> nat \<Rightarrow> nat \<Rightarrow> u32 option" where
  "PEEK_CHAR ty m cptr cend =
     (if ty = 0 then map_option ucast (rd m cptr)
      else do {
        c \<leftarrow> get_u16 m cptr;
        if is_hi_surrogate c \<and> ty = 2 \<and> cptr + 2 < cend then do {
          c1 \<leftarrow> get_u16 m (cptr + 2);
          Some (if is_lo_surrogate c1 then from_surrogate c c1 else c)
        } else Some c
      })"

text \<open>\<open>PEEK_PREV_CHAR\<close>; \<open>(cptr - 4) >= cbuf_start\<close> with \<open>cbuf_start\<close> the start of the block.\<close>

definition PEEK_PREV_CHAR :: "nat \<Rightarrow> u8 list \<Rightarrow> nat \<Rightarrow> u32 option" where
  "PEEK_PREV_CHAR ty m cptr =
     (if ty = 0 then (if cptr = 0 then None else map_option ucast (rd m (cptr - 1)))
      else do {
        c \<leftarrow> unit_before m cptr 2;
        if is_lo_surrogate c \<and> ty = 2 \<and> 4 \<le> cptr then do {
          c1 \<leftarrow> unit_before m cptr 4;
          Some (if is_hi_surrogate c1 then from_surrogate c1 c else c)
        } else Some c
      })"

definition GET_PREV_CHAR :: "nat \<Rightarrow> u8 list \<Rightarrow> nat \<Rightarrow> nat \<Rightarrow> (u32 \<times> nat) option" where
  "GET_PREV_CHAR ty m cptr cstart =
     (if ty = 0 then
        (if cptr = 0 then None else map_option (\<lambda>b. (ucast b, cptr - 1)) (rd m (cptr - 1)))
      else do {
        c \<leftarrow> unit_before m cptr 2;
        let cptr = cptr - 2;
        if is_lo_surrogate c \<and> ty = 2 \<and> cptr > cstart then do {
          c1 \<leftarrow> unit_before m cptr 2;
          Some (if is_hi_surrogate c1 then (from_surrogate c1 c, cptr - 2) else (c, cptr))
        } else Some (c, cptr)
      })"

text \<open>\<open>PREV_CHAR(cptr, cbuf_start)\<close>; the 16-bit types without UTF-16 do not read the unit.\<close>

definition PREV_CHAR :: "nat \<Rightarrow> u8 list \<Rightarrow> nat \<Rightarrow> nat \<Rightarrow> nat option" where
  "PREV_CHAR ty m cptr cstart =
     (if ty = 0 then (if cptr = 0 then None else Some (cptr - 1))
      else if cptr < 2 then None
      else if ty = 2 then do {
        c \<leftarrow> unit_before m cptr 2;
        let cptr = cptr - 2;
        if is_lo_surrogate c \<and> cptr > cstart then do {
          c1 \<leftarrow> unit_before m cptr 2;
          Some (if is_hi_surrogate c1 then cptr - 2 else cptr)
        } else Some cptr
      }
      else Some (cptr - 2))"

fun prev_chars :: "nat \<Rightarrow> u8 list \<Rightarrow> nat \<Rightarrow> nat \<Rightarrow> nat option" where
  "prev_chars ty m 0 cptr = Some cptr"
| "prev_chars ty m (Suc n) cptr = do {
     cptr \<leftarrow> PREV_CHAR ty m cptr 0;
     prev_chars ty m n cptr
   }"

definition re_canon :: "'o re_exec_context \<Rightarrow> u32 \<Rightarrow> u32 option" where
  "re_canon s c = (if ignore_case s then lre_canonicalize c (is_utf16 s) else Some c)"

section \<open>The backtracking stack\<close>

text \<open>
  A cell has room for \<open>stack_size_max\<close> integers after the captures; \<open>stack_len\<close> is stored in a
  byte. The result is 0, or -1 when the stack cannot grow.
\<close>

definition push_state ::
  "'o state_realloc \<Rightarrow> 'o re_exec_context \<Rightarrow> re_thread \<Rightarrow> nat \<Rightarrow> re_state_type \<Rightarrow> nat
     \<Rightarrow> (int \<times> 'o re_exec_context) option" where
  "push_state ra s th pc ty count = do {
     (fail, s) \<leftarrow>
       (if state_stack_len s + 1 > state_stack_size s then do {
          let new_size = szt (state_stack_size s * 3) div 2;
          let new_size = (if new_size < 8 then 8 else new_size);
          (new_stack, st) \<leftarrow> ra (opaque s) (state_stack s) (szt (new_size * state_size s));
          let s = s\<lparr>opaque := st\<rparr>;
          Some (case new_stack of
            None \<Rightarrow> (True, s)
          | Some b \<Rightarrow> (False, s\<lparr>state_stack_size := new_size, state_stack := Some b\<rparr>))
        } else Some (False, s));
     if fail then Some (-1, s)
     else do {
       caps \<leftarrow> rd_block (th_capture th) 0 (2 * capture_count s);
       ints \<leftarrow> rd_block (th_stack th) 0 (th_stack_len th);
       c_assert (th_stack_len th \<le> stack_size_max s);
       b \<leftarrow> wr (block (state_stack s)) (state_stack_len s)
              \<lparr>rs_type = ty, rs_stack_len = th_stack_len th mod 256, rs_count = count,
               rs_cptr = th_cptr th, rs_pc = pc, rs_capture = caps, rs_stack = ints\<rparr>;
       Some (0, s\<lparr>state_stack := Some b, state_stack_len := state_stack_len s + 1\<rparr>)
     }
   }"

text \<open>The two \<open>memcpy\<close> that restore a thread from a state.\<close>

definition restore_stack :: "re_exec_state \<Rightarrow> re_thread \<Rightarrow> re_thread option" where
  "restore_stack rs th = do {
     ints \<leftarrow> rd_block (rs_stack rs) 0 (rs_stack_len rs);
     stack \<leftarrow> wr_block (th_stack th) 0 ints;
     Some (th\<lparr>th_stack := stack, th_stack_len := rs_stack_len rs\<rparr>)
   }"

definition restore_capture :: "'o re_exec_context \<Rightarrow> re_exec_state \<Rightarrow> re_thread \<Rightarrow> re_thread option" where
  "restore_capture s rs th = do {
     caps \<leftarrow> rd_block (rs_capture rs) 0 (2 * capture_count s);
     capture \<leftarrow> wr_block (th_capture th) 0 caps;
     Some (th\<lparr>th_capture := capture\<rparr>)
   }"

datatype re_result = RE_ERROR | RE_NO_MATCH | RE_MATCH | RE_CPTR nat | RE_TIMEOUT

definition re_jump :: "nat \<Rightarrow> u32 \<Rightarrow> nat option" where
  "re_jump pc val = (let t = int pc + sint val in if t < 0 then None else Some (nat t))"

text \<open>
  The loop at label \<open>recurse\<close>, over the number of states left: \<open>Some r\<close> is a \<open>return r\<close>, the
  inner \<open>None\<close> its \<open>break\<close> with the thread to go on with.
\<close>

fun re_recurse ::
  "u8 list \<Rightarrow> nat \<Rightarrow> bool \<Rightarrow> 'o re_exec_context \<Rightarrow> re_thread
     \<Rightarrow> (re_result option \<times> 'o re_exec_context \<times> re_thread) option" where
  "re_recurse bc 0 ret s th = Some (Some (if ret then RE_MATCH else RE_NO_MATCH), s, th)"
| "re_recurse bc (Suc n) ret s th = do {
     rs \<leftarrow> rd (block (state_stack s)) n;
     let pop = s\<lparr>state_stack_len := n\<rparr>;
     (case rs_type rs of
        RE_EXEC_STATE_SPLIT \<Rightarrow>
          if \<not> ret then do {
            th \<leftarrow> restore_capture s rs th;
            th \<leftarrow> restore_stack rs th;
            Some (None, pop, th\<lparr>th_pc := rs_pc rs, th_cptr := rs_cptr rs\<rparr>)
          } else re_recurse bc n ret pop th
      | RE_EXEC_STATE_GREEDY_QUANT \<Rightarrow>
          if \<not> ret then do {
            th \<leftarrow> restore_capture s rs th;
            th \<leftarrow> restore_stack rs th;
            char_count \<leftarrow> get_u32 bc (rs_pc rs + 12);
            cptr \<leftarrow> prev_chars (cbuf_type s) (cbuf s) (unat char_count) (rs_cptr rs);
            next_pos \<leftarrow> get_u32 bc (rs_pc rs);
            pc \<leftarrow> re_jump (rs_pc rs + 16) next_pos;
            let rs = rs\<lparr>rs_cptr := cptr, rs_count := szt_sub (rs_count rs) 1\<rparr>;
            b \<leftarrow> wr (block (state_stack s)) n rs;
            Some (None,
                  s\<lparr>state_stack := Some b, state_stack_len := (if rs_count rs = 0 then n else Suc n)\<rparr>,
                  th\<lparr>th_pc := pc, th_cptr := cptr\<rparr>)
          } else re_recurse bc n ret pop th
      | RE_EXEC_STATE_LOOKAHEAD \<Rightarrow>
          if ret then do {
            th \<leftarrow> restore_stack rs th;
            Some (None, pop, th\<lparr>th_pc := rs_pc rs, th_cptr := rs_cptr rs\<rparr>)
          } else re_recurse bc n False pop th
      | RE_EXEC_STATE_NEGATIVE_LOOKAHEAD \<Rightarrow>
          if \<not> ret then do {
            th \<leftarrow> restore_capture s rs th;
            th \<leftarrow> restore_stack rs th;
            Some (None, pop, th\<lparr>th_pc := rs_pc rs, th_cptr := rs_cptr rs\<rparr>)
          } else re_recurse bc n False pop th)
   }"

section \<open>One instruction\<close>

text \<open>
  What an instruction does: go on with the next one, \<open>goto no_match\<close>, reach \<open>REOP_match\<close>, or
  return an error. A simple quantifier is left to the main loop, which calls itself.
\<close>

datatype 'o re_outcome =
    Next "'o re_exec_context" re_thread
  | No_match "'o re_exec_context" re_thread
  | Match "'o re_exec_context" re_thread
  | Fail "'o re_exec_context" re_thread

text \<open>The test of \<open>REOP_range\<close> and \<open>REOP_range32\<close>: a limit of width \<open>w\<close> bytes at \<open>p\<close>.\<close>

definition range_limit :: "nat \<Rightarrow> u8 list \<Rightarrow> nat \<Rightarrow> u32 option" where
  "range_limit w bc p = (if w = 2 then get_u16 bc p else get_u32 bc p)"

text \<open>
  The binary search over the \<open>n\<close> pairs at \<open>p\<close>; at most \<open>fuel\<close> rounds (\<open>n\<close> of them are enough
  for sorted pairs). \<open>idx_max = idx - 1\<close> is unsigned in the code.
\<close>

fun range_search :: "nat \<Rightarrow> nat \<Rightarrow> u8 list \<Rightarrow> nat \<Rightarrow> u32 \<Rightarrow> u32 \<Rightarrow> u32 \<Rightarrow> bool option" where
  "range_search 0 w bc p c idx_min idx_max = None"
| "range_search (Suc fuel) w bc p c idx_min idx_max =
     (if idx_min \<le> idx_max then do {
        let idx = (idx_min + idx_max) div 2;
        low \<leftarrow> range_limit w bc (p + unat idx * (2 * w));
        high \<leftarrow> range_limit w bc (p + unat idx * (2 * w) + w);
        if c < low then range_search fuel w bc p c idx_min (idx - 1)
        else if c > high then range_search fuel w bc p c (idx + 1) idx_max
        else Some True
      } else Some False)"

definition range_match :: "nat \<Rightarrow> u8 list \<Rightarrow> nat \<Rightarrow> nat \<Rightarrow> u32 \<Rightarrow> bool option" where
  "range_match w bc p n c = do {
     low \<leftarrow> range_limit w bc p;
     if c < low then Some False
     else do {
       let idx_max = word_of_nat n - 1;
       high \<leftarrow> range_limit w bc (p + unat idx_max * (2 * w) + w);
       if w = 2 \<and> c \<ge> 0xffff \<and> high = 0xffff then Some True
       else if c > high then Some False
       else range_search (n + 1) w bc p c 0 idx_max
     }
   }"

text \<open>Reset of the captures \<open>val\<close> to \<open>val2\<close>.\<close>

fun reset_captures :: "nat \<Rightarrow> nat \<Rightarrow> nat option list \<Rightarrow> nat option list option" where
  "reset_captures val 0 capture = Some capture"
| "reset_captures val (Suc k) capture = do {
     capture \<leftarrow> wr capture (2 * val) None;
     capture \<leftarrow> wr capture (2 * val + 1) None;
     reset_captures (val + 1) k capture
   }"

text \<open>
  The comparison of a back reference: \<open>Some None\<close> is \<open>goto no_match\<close>, \<open>Some (Some cptr)\<close> its
  end. The fuel is the length of the captured text, which each character shortens.
\<close>

fun back_ref ::
  "nat \<Rightarrow> 'o re_exec_context \<Rightarrow> nat \<Rightarrow> nat \<Rightarrow> nat \<Rightarrow> nat option option" where
  "back_ref fuel s cptr1 cptr1_end cptr =
     (if cptr1 < cptr1_end then
        (case fuel of
           0 \<Rightarrow> None
         | Suc fuel \<Rightarrow>
             if cptr \<ge> cbuf_end s then Some None
             else do {
               (c1, cptr1) \<leftarrow> GET_CHAR (cbuf_type s) (cbuf s) cptr1 cptr1_end;
               (c2, cptr) \<leftarrow> GET_CHAR (cbuf_type s) (cbuf s) cptr (cbuf_end s);
               c1 \<leftarrow> re_canon s c1;
               c2 \<leftarrow> re_canon s c2;
               if c1 \<noteq> c2 then Some None else back_ref fuel s cptr1 cptr1_end cptr
             })
      else Some (Some cptr))"

fun backward_back_ref ::
  "nat \<Rightarrow> 'o re_exec_context \<Rightarrow> nat \<Rightarrow> nat \<Rightarrow> nat \<Rightarrow> nat option option" where
  "backward_back_ref fuel s cptr1 cptr1_start cptr =
     (if cptr1 > cptr1_start then
        (case fuel of
           0 \<Rightarrow> None
         | Suc fuel \<Rightarrow>
             if cptr = 0 then Some None
             else do {
               (c1, cptr1) \<leftarrow> GET_PREV_CHAR (cbuf_type s) (cbuf s) cptr1 cptr1_start;
               (c2, cptr) \<leftarrow> GET_PREV_CHAR (cbuf_type s) (cbuf s) cptr 0;
               c1 \<leftarrow> re_canon s c1;
               c2 \<leftarrow> re_canon s c2;
               if c1 \<noteq> c2 then Some None else backward_back_ref fuel s cptr1 cptr1_start cptr
             })
      else Some (Some cptr))"

text \<open>Test one character with \<open>f\<close>; \<open>pc\<close> is where the code goes on.\<close>

definition test_char ::
  "'o re_exec_context \<Rightarrow> re_thread \<Rightarrow> nat \<Rightarrow> (u32 \<Rightarrow> bool option) \<Rightarrow> 'o re_outcome option" where
  "test_char s th pc f =
     (if th_cptr th \<ge> cbuf_end s then Some (No_match s th)
      else do {
        (c, cptr) \<leftarrow> GET_CHAR (cbuf_type s) (cbuf s) (th_cptr th) (cbuf_end s);
        ok \<leftarrow> f c;
        let th = th\<lparr>th_cptr := cptr\<rparr>;
        Some (if ok then Next s (th\<lparr>th_pc := pc\<rparr>) else No_match s th)
      })"

definition re_push ::
  "'o state_realloc \<Rightarrow> 'o re_exec_context \<Rightarrow> re_thread \<Rightarrow> nat \<Rightarrow> nat \<Rightarrow> re_state_type
     \<Rightarrow> 'o re_outcome option" where
  "re_push ra s th pc pc1 ty = do {
     (ret, s) \<leftarrow> push_state ra s th pc1 ty 0;
     Some (if ret < 0 then Fail s th else Next s (th\<lparr>th_pc := pc\<rparr>))
   }"

definition word_at :: "'o re_exec_context \<Rightarrow> nat \<Rightarrow> (bool \<times> bool) option" where
  "word_at s cptr = do {
     v1 \<leftarrow> (if cptr = 0 then Some False
           else map_option is_word_char (PEEK_PREV_CHAR (cbuf_type s) (cbuf s) cptr));
     v2 \<leftarrow> (if cptr \<ge> cbuf_end s then Some False
           else map_option is_word_char (PEEK_CHAR (cbuf_type s) (cbuf s) cptr (cbuf_end s)));
     Some (v1, v2)
   }"

definition push_int :: "re_thread \<Rightarrow> u64 \<Rightarrow> re_thread option" where
  "push_int th v = do {
     stack \<leftarrow> wr (th_stack th) (th_stack_len th) v;
     Some (th\<lparr>th_stack := stack, th_stack_len := th_stack_len th + 1\<rparr>)
   }"

text \<open>
  The \<open>switch\<close> of \<open>lre_exec_backtrack\<close>; \<open>pc\<close> is the position after the opcode byte.
\<close>

definition re_step ::
  "'o state_realloc \<Rightarrow> u8 list \<Rightarrow> reop \<Rightarrow> nat \<Rightarrow> 'o re_exec_context \<Rightarrow> re_thread
     \<Rightarrow> 'o re_outcome option" where
  "re_step ra bc opcode pc s th =
     (let next = (\<lambda>k th. Some (Next s (th\<lparr>th_pc := pc + k\<rparr>)));
          cptr = th_cptr th in
      case opcode of
        REOP_match \<Rightarrow> Some (Match s th)
      | REOP_char32 \<Rightarrow> do {
          val \<leftarrow> get_u32 bc pc;
          test_char s th (pc + 4) (\<lambda>c. map_option (\<lambda>c. val = c) (re_canon s c))
        }
      | REOP_char \<Rightarrow> do {
          val \<leftarrow> get_u16 bc pc;
          test_char s th (pc + 2) (\<lambda>c. map_option (\<lambda>c. val = c) (re_canon s c))
        }
      | REOP_split_goto_first \<Rightarrow> do {
          val \<leftarrow> get_u32 bc pc;
          target \<leftarrow> re_jump (pc + 4) val;
          re_push ra s th target (pc + 4) RE_EXEC_STATE_SPLIT
        }
      | REOP_split_next_first \<Rightarrow> do {
          val \<leftarrow> get_u32 bc pc;
          target \<leftarrow> re_jump (pc + 4) val;
          re_push ra s th (pc + 4) target RE_EXEC_STATE_SPLIT
        }
      | REOP_lookahead \<Rightarrow> do {
          val \<leftarrow> get_u32 bc pc;
          target \<leftarrow> re_jump (pc + 4) val;
          re_push ra s th (pc + 4) target RE_EXEC_STATE_LOOKAHEAD
        }
      | REOP_negative_lookahead \<Rightarrow> do {
          val \<leftarrow> get_u32 bc pc;
          target \<leftarrow> re_jump (pc + 4) val;
          re_push ra s th (pc + 4) target RE_EXEC_STATE_NEGATIVE_LOOKAHEAD
        }
      | REOP_goto \<Rightarrow> do {
          val \<leftarrow> get_u32 bc pc;
          target \<leftarrow> re_jump (pc + 4) val;
          Some (Next s (th\<lparr>th_pc := target\<rparr>))
        }
      | REOP_line_start \<Rightarrow>
          if cptr = 0 then next 0 th
          else if \<not> multi_line s then Some (No_match s th)
          else do {
            c \<leftarrow> PEEK_PREV_CHAR (cbuf_type s) (cbuf s) cptr;
            if \<not> is_line_terminator c then Some (No_match s th) else next 0 th
          }
      | REOP_line_end \<Rightarrow>
          if cptr = cbuf_end s then next 0 th
          else if \<not> multi_line s then Some (No_match s th)
          else do {
            c \<leftarrow> PEEK_CHAR (cbuf_type s) (cbuf s) cptr (cbuf_end s);
            if \<not> is_line_terminator c then Some (No_match s th) else next 0 th
          }
      | REOP_dot \<Rightarrow>
          if cptr = cbuf_end s then Some (No_match s th)
          else do {
            (c, cptr) \<leftarrow> GET_CHAR (cbuf_type s) (cbuf s) cptr (cbuf_end s);
            let th = th\<lparr>th_cptr := cptr\<rparr>;
            if is_line_terminator c then Some (No_match s th) else next 0 th
          }
      | REOP_any \<Rightarrow>
          if cptr = cbuf_end s then Some (No_match s th)
          else do {
            (c, cptr) \<leftarrow> GET_CHAR (cbuf_type s) (cbuf s) cptr (cbuf_end s);
            next 0 (th\<lparr>th_cptr := cptr\<rparr>)
          }
      | REOP_save_start \<Rightarrow> do {
          val \<leftarrow> rd bc pc;
          c_assert (unat val < capture_count s);
          capture \<leftarrow> wr (th_capture th) (2 * unat val) (Some cptr);
          next 1 (th\<lparr>th_capture := capture\<rparr>)
        }
      | REOP_save_end \<Rightarrow> do {
          val \<leftarrow> rd bc pc;
          c_assert (unat val < capture_count s);
          capture \<leftarrow> wr (th_capture th) (2 * unat val + 1) (Some cptr);
          next 1 (th\<lparr>th_capture := capture\<rparr>)
        }
      | REOP_save_reset \<Rightarrow> do {
          val \<leftarrow> rd bc pc;
          val2 \<leftarrow> rd bc (pc + 1);
          c_assert (unat val2 < capture_count s);
          capture \<leftarrow> reset_captures (unat val) (unat val2 + 1 - unat val) (th_capture th);
          next 2 (th\<lparr>th_capture := capture\<rparr>)
        }
      | REOP_push_i32 \<Rightarrow> do {
          val \<leftarrow> get_u32 bc pc;
          th \<leftarrow> push_int th (ucast val);
          next 4 th
        }
      | REOP_drop \<Rightarrow>
          if th_stack_len th = 0 then None
          else next 0 (th\<lparr>th_stack_len := th_stack_len th - 1\<rparr>)
      | REOP_loop \<Rightarrow> do {
          val \<leftarrow> get_u32 bc pc;
          i \<leftarrow> (if th_stack_len th = 0 then None else Some (th_stack_len th - 1));
          n \<leftarrow> rd (th_stack th) i;
          stack \<leftarrow> wr (th_stack th) i (n - 1);
          let th = th\<lparr>th_stack := stack\<rparr>;
          if n - 1 \<noteq> 0 then do {
            target \<leftarrow> re_jump (pc + 4) val;
            Some (Next s (th\<lparr>th_pc := target\<rparr>))
          } else next 4 th
        }
      | REOP_push_char_pos \<Rightarrow> do {
          th \<leftarrow> push_int th (cbuf_addr s + word_of_nat cptr);
          next 0 th
        }
      | REOP_bne_char_pos \<Rightarrow> do {
          val \<leftarrow> get_u32 bc pc;
          i \<leftarrow> (if th_stack_len th = 0 then None else Some (th_stack_len th - 1));
          n \<leftarrow> rd (th_stack th) i;
          let th = th\<lparr>th_stack_len := i\<rparr>;
          if n \<noteq> cbuf_addr s + word_of_nat cptr then do {
            target \<leftarrow> re_jump (pc + 4) val;
            Some (Next s (th\<lparr>th_pc := target\<rparr>))
          } else next 4 th
        }
      | REOP_word_boundary \<Rightarrow> do {
          (v1, v2) \<leftarrow> word_at s cptr;
          if v1 = v2 then Some (No_match s th) else next 0 th
        }
      | REOP_not_word_boundary \<Rightarrow> do {
          (v1, v2) \<leftarrow> word_at s cptr;
          if v1 \<noteq> v2 then Some (No_match s th) else next 0 th
        }
      | REOP_back_reference \<Rightarrow> do {
          val \<leftarrow> rd bc pc;
          if unat val \<ge> capture_count s then Some (No_match s th)
          else do {
            a \<leftarrow> rd (th_capture th) (2 * unat val);
            b \<leftarrow> rd (th_capture th) (2 * unat val + 1);
            (case (a, b) of
               (Some cptr1_start, Some cptr1_end) \<Rightarrow> do {
                 r \<leftarrow> back_ref (cptr1_end - cptr1_start) s cptr1_start cptr1_end cptr;
                 (case r of
                    None \<Rightarrow> Some (No_match s th)
                  | Some cptr \<Rightarrow> next 1 (th\<lparr>th_cptr := cptr\<rparr>))
               }
             | _ \<Rightarrow> next 1 th)
          }
        }
      | REOP_backward_back_reference \<Rightarrow> do {
          val \<leftarrow> rd bc pc;
          if unat val \<ge> capture_count s then Some (No_match s th)
          else do {
            a \<leftarrow> rd (th_capture th) (2 * unat val);
            b \<leftarrow> rd (th_capture th) (2 * unat val + 1);
            (case (a, b) of
               (Some cptr1_start, Some cptr1_end) \<Rightarrow> do {
                 r \<leftarrow> backward_back_ref (cptr1_end - cptr1_start) s cptr1_end cptr1_start cptr;
                 (case r of
                    None \<Rightarrow> Some (No_match s th)
                  | Some cptr \<Rightarrow> next 1 (th\<lparr>th_cptr := cptr\<rparr>))
               }
             | _ \<Rightarrow> next 1 th)
          }
        }
      | REOP_range \<Rightarrow> do {
          n \<leftarrow> get_u16 bc pc;
          test_char s th (pc + 2 + 4 * unat n)
            (\<lambda>c. do { c \<leftarrow> re_canon s c; range_match 2 bc (pc + 2) (unat n) c })
        }
      | REOP_range32 \<Rightarrow> do {
          n \<leftarrow> get_u16 bc pc;
          test_char s th (pc + 2 + 8 * unat n)
            (\<lambda>c. do { c \<leftarrow> re_canon s c; range_match 4 bc (pc + 2) (unat n) c })
        }
      | REOP_prev \<Rightarrow>
          if cptr = 0 then Some (No_match s th)
          else do {
            cptr \<leftarrow> PREV_CHAR (cbuf_type s) (cbuf s) cptr 0;
            next 0 (th\<lparr>th_cptr := cptr\<rparr>)
          }
      | _ \<Rightarrow> None)"

section \<open>The main loop\<close>

text \<open>
  \<open>lre_exec_backtrack\<close> takes one unit of fuel per instruction, and \<open>re_greedy\<close>, the loop of
  \<open>REOP_simple_greedy_quant\<close>, one per repetition; the recursive calls of that loop share the
  captures and the integer stack with the caller, not \<open>stack_len\<close>, \<open>pc\<close> and \<open>cptr\<close>. \<open>re_greedy\<close>
  gives \<open>None\<close> and the number of repetitions when its loop is left, or the error to return.
\<close>

definition INT32_MAX :: u32 where
  "INT32_MAX = 0x7fffffff"

fun lre_exec_backtrack ::
  "nat \<Rightarrow> 'o state_realloc \<Rightarrow> u8 list \<Rightarrow> 'o re_exec_context \<Rightarrow> re_thread \<Rightarrow> bool
     \<Rightarrow> (re_result \<times> 'o re_exec_context \<times> re_thread) option"
and re_greedy ::
  "nat \<Rightarrow> 'o state_realloc \<Rightarrow> u8 list \<Rightarrow> 'o re_exec_context \<Rightarrow> re_thread \<Rightarrow> nat \<Rightarrow> u32 \<Rightarrow> nat
     \<Rightarrow> (re_result option \<times> nat \<times> 'o re_exec_context \<times> re_thread) option"
where
  "lre_exec_backtrack 0 ra bc s th no_recurse = Some (RE_TIMEOUT, s, th)"
| "lre_exec_backtrack (Suc fuel) ra bc s th no_recurse = do {
     b \<leftarrow> rd bc (th_pc th);
     opcode \<leftarrow> reop_of (unat b);
     let pc = th_pc th + 1;
     let finish = (\<lambda>ret s th. do {
       (r, s, th) \<leftarrow> re_recurse bc (state_stack_len s) ret s th;
       (case r of
          Some r \<Rightarrow> Some (r, s, th)
        | None \<Rightarrow> lre_exec_backtrack fuel ra bc s th no_recurse)
     });
     if opcode = REOP_simple_greedy_quant then do {
       next_pos \<leftarrow> get_u32 bc pc;
       quant_min \<leftarrow> get_u32 bc (pc + 4);
       quant_max \<leftarrow> get_u32 bc (pc + 8);
       let pc1 = pc + 16;
       target \<leftarrow> re_jump pc1 next_pos;
       (r, q, s, th) \<leftarrow> re_greedy fuel ra bc s th pc1 quant_max 0;
       (case r of
          Some r \<Rightarrow> Some (r, s, th)
        | None \<Rightarrow>
            if q < unat quant_min then
              (if no_recurse then Some (RE_NO_MATCH, s, th) else finish False s th)
            else do {
              (ret, s) \<leftarrow> (if q > unat quant_min
                then push_state ra s th (pc1 - 16) RE_EXEC_STATE_GREEDY_QUANT (q - unat quant_min)
                else Some (0, s));
              if ret < 0 then Some (RE_ERROR, s, th)
              else lre_exec_backtrack fuel ra bc s (th\<lparr>th_pc := target\<rparr>) no_recurse
            })
     }
     else do {
       outc \<leftarrow> re_step ra bc opcode pc s th;
       (case outc of
          Next s th \<Rightarrow> lre_exec_backtrack fuel ra bc s th no_recurse
        | Match s th \<Rightarrow> if no_recurse then Some (RE_CPTR (th_cptr th), s, th) else finish True s th
        | No_match s th \<Rightarrow> if no_recurse then Some (RE_NO_MATCH, s, th) else finish False s th
        | Fail s th \<Rightarrow> Some (RE_ERROR, s, th))
     }
   }"
| "re_greedy 0 ra bc s th pc1 quant_max q = Some (Some RE_TIMEOUT, q, s, th)"
| "re_greedy (Suc fuel) ra bc s th pc1 quant_max q = do {
     (res, s, th1) \<leftarrow> lre_exec_backtrack fuel ra bc s (th\<lparr>th_pc := pc1\<rparr>) True;
     let th = th\<lparr>th_capture := th_capture th1, th_stack := th_stack th1\<rparr>;
     (case res of
        RE_CPTR cptr \<Rightarrow>
          let th = th\<lparr>th_cptr := cptr\<rparr>; q = q + 1 in
          if q \<ge> unat quant_max \<and> quant_max \<noteq> INT32_MAX then Some (None, q, s, th)
          else re_greedy fuel ra bc s th pc1 quant_max q
      | RE_NO_MATCH \<Rightarrow> Some (None, q, s, th)
      | res \<Rightarrow> Some (Some res, q, s, th))
   }"

text \<open>
  \<open>lre_exec\<close>. \<open>capture\<close> is the caller's array and \<open>stack_buf\<close> what \<open>alloca\<close> gave, of
  \<open>stack_size_max\<close> integers; \<open>addr\<close> is the address of the subject. The size of a backtracking state
  is that of a \<open>REExecState\<close> (32 bytes), its captures and its integers (8 bytes each).
\<close>

definition lre_exec ::
  "nat \<Rightarrow> 'o state_realloc \<Rightarrow> nat option list \<Rightarrow> u64 list \<Rightarrow> u8 list \<Rightarrow> u8 list \<Rightarrow> u64 \<Rightarrow> nat \<Rightarrow> nat \<Rightarrow> nat \<Rightarrow> 'o
     \<Rightarrow> (re_result \<times> nat option list \<times> 'o) option" where
  "lre_exec fuel ra capture stack_buf bc_buf subject addr cindex clen ctype op = do {
     re_flags \<leftarrow> rd bc_buf RE_HEADER_FLAGS;
     cc \<leftarrow> rd bc_buf RE_HEADER_CAPTURE_COUNT;
     sm \<leftarrow> rd bc_buf RE_HEADER_STACK_SIZE;
     let u16 = bit re_flags LRE_FLAG_UTF16;
     let s = \<lparr>cbuf = subject, cbuf_end = push_bit ctype clen, cbuf_addr = addr,
              cbuf_type = (if ctype = 1 \<and> u16 then 2 else ctype),
              capture_count = unat cc, stack_size_max = unat sm,
              multi_line = bit re_flags LRE_FLAG_MULTILINE,
              ignore_case = bit re_flags LRE_FLAG_IGNORECASE, is_utf16 = u16, opaque = op,
              state_size = 32 + unat cc * 8 * 2 + unat sm * 8,
              state_stack = None, state_stack_size = 0, state_stack_len = 0\<rparr>;
     capture \<leftarrow> wr_block capture 0 (replicate (unat cc * 2) None);
     (ret, s, th) \<leftarrow> lre_exec_backtrack fuel ra bc_buf s
        \<lparr>th_capture = capture, th_stack = stack_buf, th_stack_len = 0,
         th_pc = RE_HEADER_LEN, th_cptr = push_bit ctype cindex\<rparr> False;
     (p, op) \<leftarrow> ra (opaque s) (state_stack s) 0;
     Some (ret, th_capture th, op)
   }"

end
