(* ===== verification/Dyn_Buf.thy ===== *)
theory Dyn_Buf
  imports Js_Alloc
begin

text \<open>
  cutils.c: the string helpers (lines 56 to 104) and the dynamic buffer package (lines 106 to
  225), with \<open>dbuf_put_u16/u32/u64\<close> of cutils.h and \<open>dbuf_insert\<close> of libregexp.c.

  A C string is a block of bytes read up to its terminating zero. A \<open>DynBuf\<close> is its struct:
  the block behind \<open>buf\<close>, \<open>size\<close>, \<open>allocated_size\<close> and \<open>error\<close>; its \<open>realloc_func\<close> is the
  first argument of every operation that calls it, and what \<open>opaque\<close> points to (the state of
  the allocator) is a field that the reallocations update. An operation returns C's result code
  with the new buffer, and \<open>None\<close> where it would write outside the block.

  The lemmas: every operation keeps the buffer's invariant, never writes out of bounds, and acts
  on the bytes of the buffer (\<open>dbuf_bytes\<close>) as the list operation it implements, or reports an
  allocation failure and leaves the bytes as they were. They are proved once for any
  \<open>reallocator\<close>.
\<close>

section \<open>C strings\<close>

fun strlen :: "u8 list \<Rightarrow> nat \<Rightarrow> nat option" where
  "strlen [] n = None"
| "strlen (c # m) n = (if c = 0 then Some n else strlen m (Suc n))"

text \<open>
  \<open>pstrcpy(buf + base, buf_size, str)\<close>: \<open>q\<close> is the write position, \<open>lim\<close> the position
  \<open>buf + buf_size - 1\<close> past which nothing but the final zero is written.
\<close>

fun pstrcpy_loop :: "u8 list \<Rightarrow> nat \<Rightarrow> int \<Rightarrow> u8 list \<Rightarrow> u8 list option" where
  "pstrcpy_loop buf q lim [] = None"
| "pstrcpy_loop buf q lim (c # str) =
     (if c = 0 \<or> int q \<ge> lim then wr buf q 0
      else do {
        buf \<leftarrow> wr buf q c;
        pstrcpy_loop buf (Suc q) lim str
      })"

definition pstrcpy :: "u8 list \<Rightarrow> nat \<Rightarrow> int \<Rightarrow> u8 list \<Rightarrow> u8 list option" where
  "pstrcpy buf base buf_size str =
     (if buf_size \<le> 0 then Some buf
      else pstrcpy_loop buf base (int base + buf_size - 1) str)"

definition pstrcat :: "u8 list \<Rightarrow> int \<Rightarrow> u8 list \<Rightarrow> u8 list option" where
  "pstrcat buf buf_size s = do {
     len \<leftarrow> strlen buf 0;
     if int len < buf_size then pstrcpy buf len (buf_size - int len) s else Some buf
   }"

text \<open>\<open>strstart\<close> returns the position after the prefix (what it stores to \<open>*ptr\<close>), or 0 for no match.\<close>

fun strstart :: "u8 list \<Rightarrow> u8 list \<Rightarrow> nat \<Rightarrow> (bool \<times> nat) option" where
  "strstart str [] p = None"
| "strstart str (v # val) p =
     (if v = 0 then Some (True, p)
      else case str of
        [] \<Rightarrow> None
      | c # str' \<Rightarrow> if c \<noteq> v then Some (False, 0) else strstart str' val (Suc p))"

definition has_suffix :: "u8 list \<Rightarrow> u8 list \<Rightarrow> bool option" where
  "has_suffix str suffix = do {
     len \<leftarrow> strlen str 0;
     slen \<leftarrow> strlen suffix 0;
     if len \<ge> slen then do {
       a \<leftarrow> rd_block str (len - slen) slen;
       b \<leftarrow> rd_block suffix 0 slen;
       Some (a = b)
     } else Some False
   }"

text \<open>The string a block holds.\<close>

definition c_str :: "u8 list \<Rightarrow> u8 list" where
  "c_str m = takeWhile (\<lambda>c. c \<noteq> 0) m"

lemma c_str_append [simp]: "0 \<notin> set s \<Longrightarrow> c_str (s @ 0 # r) = s"
  by (auto simp: c_str_def takeWhile_tail takeWhile_append)

lemma strlen_c_str: "0 \<in> set m \<Longrightarrow> strlen m n = Some (n + length (c_str m))"
  by (induction m arbitrary: n) (auto simp: c_str_def)

lemma c_str_split: "0 \<in> set m \<Longrightarrow> \<exists>r. m = c_str m @ 0 # r"
  by (induction m) (auto simp: c_str_def)

lemma pstrcpy_loop_spec:
  assumes "0 \<notin> set s" "q + min (length s) k < length buf"
  shows "pstrcpy_loop buf q (int (q + k)) (s @ 0 # r) =
           Some (take q buf @ take k s @ 0 # drop (q + min (length s) k + 1) buf)"
  using assms
proof (induction s arbitrary: buf q k)
  case Nil
  then show ?case
    by (simp add: upd_conv_take_nth_drop)
next
  case (Cons c s)
  show ?case
  proof (cases k)
    case 0
    with Cons.prems show ?thesis
      by (simp add: upd_conv_take_nth_drop)
  next
    case (Suc k')
    with Cons.prems have "pstrcpy_loop (buf[q := c]) (Suc q) (int (Suc q + k')) (s @ 0 # r) =
        Some (take (Suc q) (buf[q := c]) @ take k' s @
              0 # drop (Suc q + min (length s) k' + 1) (buf[q := c]))"
      by (intro Cons.IH) auto
    with Cons.prems Suc show ?thesis
      by (simp add: take_Suc_conv_app_nth)
  qed
qed

text \<open>
  C14: \<open>pstrcpy\<close> truncates and always terminates: into a destination with room for
  \<open>buf_size > 0\<close> bytes it writes the first \<open>buf_size - 1\<close> bytes of the source string (all of it
  if it is shorter) and a zero, no byte outside that room, and never runs past a block.
\<close>

theorem pstrcpy_truncates:
  assumes "0 \<in> set str" "0 < buf_size" "base + nat buf_size \<le> length buf"
  shows "\<exists>t. pstrcpy buf base buf_size str = Some (take base buf @ t @ drop (base + length t) buf)
           \<and> c_str t = take (nat buf_size - 1) (c_str str)
           \<and> length t \<le> nat buf_size \<and> last t = 0"
proof -
  obtain r where r: "str = c_str str @ 0 # r"
    using c_str_split [OF assms(1)] by blast
  have nz: "0 \<notin> set (c_str str)"
    by (auto simp: c_str_def dest: set_takeWhileD)
  let ?k = "nat buf_size - 1"
  let ?t = "take ?k (c_str str) @ [0]"
  have "pstrcpy_loop buf base (int (base + ?k)) (c_str str @ 0 # r) =
          Some (take base buf @ take ?k (c_str str) @
                0 # drop (base + min (length (c_str str)) ?k + 1) buf)"
    using assms by (intro pstrcpy_loop_spec [OF nz]) auto
  then have "pstrcpy buf base buf_size str =
               Some (take base buf @ ?t @ drop (base + length ?t) buf)"
    using assms r by (simp add: pstrcpy_def of_nat_diff add_diff_eq min.commute)
  moreover have "0 \<notin> set (take ?k (c_str str))"
    using nz by (auto dest: in_set_takeD)
  ultimately show ?thesis
    using assms(2) by (intro exI [of _ ?t]) auto
qed

theorem pstrcpy_truncates_witness:
  "\<exists>t. pstrcpy [9, 9, 9, 9, 9, 9] 1 3 [65, 66, 67, 68, 0] = Some ([9] @ t @ drop (1 + length t) [9, 9, 9, 9, 9, 9])
     \<and> c_str t = [65, 66] \<and> length t \<le> 3 \<and> last t = (0 :: u8)"
  using pstrcpy_truncates [of "[65, 66, 67, 68, 0]" 3 1 "[9, 9, 9, 9, 9, 9]"]
  by (simp add: c_str_def)

section \<open>DynBuf\<close>

record 'o dynbuf =
  db_buf :: "u8 list option"
  db_size :: nat
  db_allocated :: nat
  db_error :: bool
  db_opaque :: 'o

type_synonym 'o realloc_func =
  "'o \<Rightarrow> u8 list option \<Rightarrow> nat \<Rightarrow> (u8 list option \<times> 'o) option"

definition dbuf_init2 :: "'o \<Rightarrow> 'o dynbuf" where
  "dbuf_init2 st =
     \<lparr>db_buf = None, db_size = 0, db_allocated = 0, db_error = False, db_opaque = st\<rparr>"

definition dbuf_realloc :: "'o realloc_func \<Rightarrow> 'o dynbuf \<Rightarrow> nat \<Rightarrow> (int \<times> 'o dynbuf) option" where
  "dbuf_realloc ra s new_size =
     (if new_size > db_allocated s then
        (if db_error s then Some (-1, s)
         else
           let sz = szt (db_allocated s * 3) div 2;
               new_size = (if sz > new_size then sz else new_size)
           in do {
             (new_buf, st) \<leftarrow> ra (db_opaque s) (db_buf s) new_size;
             let s = s\<lparr>db_opaque := st\<rparr>;
             (case new_buf of
                None \<Rightarrow> Some (-1, s\<lparr>db_error := True\<rparr>)
              | Some b \<Rightarrow> Some (0, s\<lparr>db_buf := Some b, db_allocated := new_size\<rparr>))
           })
      else Some (0, s))"

text \<open>\<open>memcpy(s->buf + offset, data, len)\<close>: copying nothing is harmless also while \<open>buf\<close> is NULL.\<close>

definition dbuf_memcpy :: "'o dynbuf \<Rightarrow> nat \<Rightarrow> u8 list \<Rightarrow> 'o dynbuf option" where
  "dbuf_memcpy s off data =
     (case db_buf s of
        None \<Rightarrow> if data = [] then Some s else None
      | Some b \<Rightarrow> map_option (\<lambda>b. s\<lparr>db_buf := Some b\<rparr>) (wr_block b off data))"

definition dbuf_write ::
  "'o realloc_func \<Rightarrow> 'o dynbuf \<Rightarrow> nat \<Rightarrow> u8 list \<Rightarrow> (int \<times> 'o dynbuf) option" where
  "dbuf_write ra s offset data =
     (let e = szt (offset + length data) in do {
        (r, s) \<leftarrow> dbuf_realloc ra s e;
        if r \<noteq> 0 then Some (-1, s)
        else do {
          s \<leftarrow> dbuf_memcpy s offset data;
          Some (0, if e > db_size s then s\<lparr>db_size := e\<rparr> else s)
        }
      })"

definition dbuf_grow :: "'o realloc_func \<Rightarrow> 'o dynbuf \<Rightarrow> nat \<Rightarrow> (int \<times> 'o dynbuf) option" where
  "dbuf_grow ra s len =
     (if szt (db_size s + len) > db_allocated s
      then dbuf_realloc ra s (szt (db_size s + len)) else Some (0, s))"

definition dbuf_put :: "'o realloc_func \<Rightarrow> 'o dynbuf \<Rightarrow> u8 list \<Rightarrow> (int \<times> 'o dynbuf) option" where
  "dbuf_put ra s data = do {
     (r, s) \<leftarrow> dbuf_grow ra s (length data);
     if r \<noteq> 0 then Some (-1, s)
     else do {
       s \<leftarrow> dbuf_memcpy s (db_size s) data;
       Some (0, s\<lparr>db_size := szt (db_size s + length data)\<rparr>)
     }
   }"

definition dbuf_put_self ::
  "'o realloc_func \<Rightarrow> 'o dynbuf \<Rightarrow> nat \<Rightarrow> nat \<Rightarrow> (int \<times> 'o dynbuf) option" where
  "dbuf_put_self ra s offset len = do {
     (r, s) \<leftarrow> dbuf_grow ra s len;
     if r \<noteq> 0 then Some (-1, s)
     else do {
       data \<leftarrow> rd_block (block (db_buf s)) offset len;
       s \<leftarrow> dbuf_memcpy s (db_size s) data;
       Some (0, s\<lparr>db_size := szt (db_size s + len)\<rparr>)
     }
   }"

definition dbuf_putc :: "'o realloc_func \<Rightarrow> 'o dynbuf \<Rightarrow> u8 \<Rightarrow> (int \<times> 'o dynbuf) option" where
  "dbuf_putc ra s c = dbuf_put ra s [c]"

definition dbuf_putstr :: "'o realloc_func \<Rightarrow> 'o dynbuf \<Rightarrow> u8 list \<Rightarrow> (int \<times> 'o dynbuf) option" where
  "dbuf_putstr ra s str = do {
     n \<leftarrow> strlen str 0;
     data \<leftarrow> rd_block str 0 n;
     dbuf_put ra s data
   }"

definition dbuf_put_u16 :: "'o realloc_func \<Rightarrow> 'o dynbuf \<Rightarrow> u16 \<Rightarrow> (int \<times> 'o dynbuf) option" where
  "dbuf_put_u16 ra s val = dbuf_put ra s (bytes_u16 val)"

definition dbuf_put_u32 :: "'o realloc_func \<Rightarrow> 'o dynbuf \<Rightarrow> u32 \<Rightarrow> (int \<times> 'o dynbuf) option" where
  "dbuf_put_u32 ra s val = dbuf_put ra s (bytes_u32 val)"

definition dbuf_put_u64 :: "'o realloc_func \<Rightarrow> 'o dynbuf \<Rightarrow> u64 \<Rightarrow> (int \<times> 'o dynbuf) option" where
  "dbuf_put_u64 ra s val = dbuf_put ra s (bytes_u64 val)"

text \<open>
  \<open>dbuf_free\<close> clears the whole struct; the field \<open>db_opaque\<close>, the allocator's own state, is what
  the releasing call left.
\<close>

definition dbuf_free :: "'o realloc_func \<Rightarrow> 'o dynbuf \<Rightarrow> 'o dynbuf option" where
  "dbuf_free ra s = do {
     st \<leftarrow> (case db_buf s of
              None \<Rightarrow> Some (db_opaque s)
            | Some b \<Rightarrow> map_option snd (ra (db_opaque s) (Some b) 0));
     Some \<lparr>db_buf = None, db_size = 0, db_allocated = 0, db_error = False, db_opaque = st\<rparr>
   }"

definition dbuf_set_error :: "'o dynbuf \<Rightarrow> 'o dynbuf" where
  "dbuf_set_error s = s\<lparr>db_error := True\<rparr>"

text \<open>\<open>dbuf_insert\<close> of libregexp.c opens a gap of \<open>len\<close> bytes at \<open>pos\<close>; the gap keeps its old bytes.\<close>

definition dbuf_insert ::
  "'o realloc_func \<Rightarrow> 'o dynbuf \<Rightarrow> nat \<Rightarrow> nat \<Rightarrow> (int \<times> 'o dynbuf) option" where
  "dbuf_insert ra s pos len = do {
     (r, s) \<leftarrow> dbuf_realloc ra s (szt (db_size s + len));
     if r \<noteq> 0 then Some (-1, s)
     else do {
       c_assert (pos \<le> db_size s);
       data \<leftarrow> rd_block (block (db_buf s)) pos (db_size s - pos);
       s \<leftarrow> dbuf_memcpy s (pos + len) data;
       Some (0, s\<lparr>db_size := szt (db_size s + len)\<rparr>)
     }
   }"

section \<open>Invariant and abstraction\<close>

definition dbuf_ok :: "'o dynbuf \<Rightarrow> bool" where
  "dbuf_ok s \<longleftrightarrow> length (block (db_buf s)) = db_allocated s \<and> db_size s \<le> db_allocated s
     \<and> db_allocated s \<le> PTRDIFF_MAX"

definition dbuf_bytes :: "'o dynbuf \<Rightarrow> u8 list" where
  "dbuf_bytes s = take (db_size s) (block (db_buf s))"

lemma dbuf_bytes_length: "dbuf_ok s \<Longrightarrow> length (dbuf_bytes s) = db_size s"
  by (simp add: dbuf_ok_def dbuf_bytes_def)

lemma dbuf_init2_ok [simp]: "dbuf_ok (dbuf_init2 st)" "dbuf_bytes (dbuf_init2 st) = []"
  by (simp_all add: dbuf_ok_def dbuf_bytes_def dbuf_init2_def)

lemma dbuf_memcpy_spec:
  assumes "dbuf_ok s" "off + length data \<le> db_allocated s"
  shows "\<exists>b. dbuf_memcpy s off data = Some (s\<lparr>db_buf := b\<rparr>) \<and> length (block b) = db_allocated s
           \<and> block b = take off (block (db_buf s)) @ data @ drop (off + length data) (block (db_buf s))"
proof (cases "db_buf s")
  case None
  with assms show ?thesis
    by (intro exI [of _ None]) (auto simp: dbuf_memcpy_def dbuf_ok_def)
next
  case (Some b)
  with assms show ?thesis
    by (auto simp: dbuf_memcpy_def dbuf_ok_def wr_block_def)
qed

text \<open>
  The outcome of an operation that appends or overwrites: success with the new bytes, or a
  reported failure that leaves the bytes alone.
\<close>

definition dbuf_outcome ::
  "'o dynbuf \<Rightarrow> u8 list \<Rightarrow> (int \<times> 'o dynbuf) option \<Rightarrow> bool" where
  "dbuf_outcome s bs res \<longleftrightarrow>
     (\<exists>r s'. res = Some (r, s') \<and> dbuf_ok s' \<and>
        (r = 0 \<and> dbuf_bytes s' = bs \<and> db_error s' = db_error s \<or>
         r = -1 \<and> dbuf_bytes s' = dbuf_bytes s \<and> db_error s'))"

locale byte_reallocator = reallocator ra "Suc 0" for ra :: "'o realloc_func"

context byte_reallocator
begin

lemma ra_bytes:
  assumes "ra st p n = Some (Some b, st')" "0 < n"
  shows "length b = n" "m \<le> n \<Longrightarrow> m \<le> length (block p) \<Longrightarrow> take m b = take m (block p)"
proof -
  show "length b = n"
    using ra_length [of n st p b st'] assms by simp
  assume m: "m \<le> n" "m \<le> length (block p)"
  have "take (min n (length (block p))) b = take (min n (length (block p))) (block p)"
    using ra_prefix [of n st p b st'] assms by simp
  then have "take m (take (min n (length (block p))) b)
               = take m (take (min n (length (block p))) (block p))"
    by simp
  with m show "take m b = take m (block p)"
    by (simp add: min_def split: if_splits)
qed

lemma dbuf_realloc_spec:
  assumes ok: "dbuf_ok s"
  shows "\<exists>r s'. dbuf_realloc ra s n = Some (r, s') \<and> dbuf_ok s' \<and> db_size s' = db_size s
           \<and> dbuf_bytes s' = dbuf_bytes s
           \<and> take (db_allocated s) (block (db_buf s')) = block (db_buf s)
           \<and> (r = 0 \<and> n \<le> db_allocated s' \<and> db_error s' = db_error s \<or> r = -1 \<and> db_error s')"
proof (cases "n > db_allocated s \<and> \<not> db_error s")
  case False
  with ok show ?thesis by (auto simp: dbuf_realloc_def dbuf_ok_def)
next
  case True
  define n' where "n' = (if szt (db_allocated s * 3) div 2 > n
                         then szt (db_allocated s * 3) div 2 else n)"
  have n': "0 < n'" "n \<le> n'"
    using True by (auto simp: n'_def)
  obtain p st where r: "ra (db_opaque s) (db_buf s) n' = Some (p, st)"
    using ra_total [of "db_opaque s" "db_buf s" n'] by auto
  have eq: "dbuf_realloc ra s n = Some (case p of
      None \<Rightarrow> (-1, s\<lparr>db_opaque := st, db_error := True\<rparr>)
    | Some b \<Rightarrow> (0, s\<lparr>db_opaque := st, db_buf := Some b, db_allocated := n'\<rparr>))"
    using True r unfolding n'_def dbuf_realloc_def Let_def by (simp split: option.split)
  show ?thesis
  proof (cases p)
    case None
    with eq ok show ?thesis
      by (auto simp: dbuf_ok_def dbuf_bytes_def)
  next
    case (Some b)
    with r have b: "ra (db_opaque s) (db_buf s) n' = Some (Some b, st)" by simp
    note bl = ra_bytes [OF b n'(1)]
    have "take (db_size s) b = take (db_size s) (block (db_buf s))"
      "take (db_allocated s) b = block (db_buf s)"
      using bl(2) ok True n' by (auto simp: dbuf_ok_def)
    then show ?thesis
      using eq Some bl(1) n' ok True ra_bounded [OF b] by (auto simp: dbuf_ok_def dbuf_bytes_def)
  qed
qed

lemma dbuf_size_add [simp]:
  "dbuf_ok s \<Longrightarrow> len \<le> PTRDIFF_MAX \<Longrightarrow> szt (db_size s + len) = db_size s + len"
  by (rule szt_small) (auto simp: dbuf_ok_def PTRDIFF_MAX_def)

lemma dbuf_grow_spec:
  assumes ok: "dbuf_ok s" and len: "len \<le> PTRDIFF_MAX"
  shows "\<exists>r s'. dbuf_grow ra s len = Some (r, s') \<and> dbuf_ok s' \<and> db_size s' = db_size s
           \<and> dbuf_bytes s' = dbuf_bytes s
           \<and> (r = 0 \<and> db_size s + len \<le> db_allocated s' \<and> db_error s' = db_error s
              \<or> r = -1 \<and> db_error s')"
  using dbuf_realloc_spec [OF ok, of "db_size s + len"] assms
  by (auto simp: dbuf_grow_def)

text \<open>The step every appending operation ends with.\<close>

lemma dbuf_append_step:
  assumes "dbuf_ok s" "db_size s + length data \<le> db_allocated s"
  shows "\<exists>s1. dbuf_memcpy s (db_size s) data = Some s1 \<and> db_size s1 = db_size s
           \<and> db_error s1 = db_error s
           \<and> dbuf_ok (s1\<lparr>db_size := db_size s + length data\<rparr>)
           \<and> dbuf_bytes (s1\<lparr>db_size := db_size s + length data\<rparr>) = dbuf_bytes s @ data"
  using dbuf_memcpy_spec [OF assms] assms by (auto simp: dbuf_ok_def dbuf_bytes_def)

lemma dbuf_put_spec:
  assumes ok: "dbuf_ok s" and len: "length data \<le> PTRDIFF_MAX"
  shows "dbuf_outcome s (dbuf_bytes s @ data) (dbuf_put ra s data)"
proof -
  obtain r s1 where g: "dbuf_grow ra s (length data) = Some (r, s1)"
    and s1: "dbuf_ok s1" "db_size s1 = db_size s" "dbuf_bytes s1 = dbuf_bytes s"
    and r: "r = 0 \<and> db_size s + length data \<le> db_allocated s1 \<and> db_error s1 = db_error s
              \<or> r = -1 \<and> db_error s1"
    using dbuf_grow_spec [OF assms] by blast
  then show ?thesis
    using dbuf_append_step [OF s1(1), of data] len dbuf_size_add [OF ok len]
    by (auto simp: dbuf_put_def dbuf_outcome_def)
qed

lemma dbuf_put_self_spec:
  assumes ok: "dbuf_ok s" and len: "offset + len \<le> db_size s"
  shows "dbuf_outcome s (dbuf_bytes s @ take len (drop offset (dbuf_bytes s)))
           (dbuf_put_self ra s offset len)"
proof -
  have len': "len \<le> PTRDIFF_MAX"
    using assms by (auto simp: dbuf_ok_def)
  obtain r s1 where g: "dbuf_grow ra s len = Some (r, s1)"
    and s1: "dbuf_ok s1" "db_size s1 = db_size s" "dbuf_bytes s1 = dbuf_bytes s"
    and r: "r = 0 \<and> db_size s + len \<le> db_allocated s1 \<and> db_error s1 = db_error s
              \<or> r = -1 \<and> db_error s1"
    using dbuf_grow_spec [OF ok len'] by blast
  let ?d = "take len (drop offset (dbuf_bytes s))"
  have "?d = take len (drop offset (take (db_size s1) (block (db_buf s1))))"
    using s1(3) by (simp add: dbuf_bytes_def)
  then have d: "take len (drop offset (block (db_buf s1))) = ?d"
    using s1(2) len by (simp add: take_drop_take)
  have l: "length ?d = len"
    using len dbuf_bytes_length [OF ok] by simp
  have rb: "rd_block (block (db_buf s1)) offset len = Some ?d"
    using d s1 len by (auto simp: rd_block_def dbuf_ok_def)
  show ?thesis
    using g r rb s1 dbuf_append_step [OF s1(1), of ?d] l dbuf_size_add [OF ok len']
    by (auto simp: dbuf_put_self_def dbuf_outcome_def)
qed

lemma dbuf_write_spec:
  assumes ok: "dbuf_ok s" and off: "offset \<le> db_size s" and len: "length data \<le> PTRDIFF_MAX"
  shows "dbuf_outcome s
           (take offset (dbuf_bytes s) @ data @ drop (offset + length data) (dbuf_bytes s))
           (dbuf_write ra s offset data)"
proof -
  let ?e = "offset + length data"
  have e: "szt ?e = ?e"
    using assms by (intro szt_small) (auto simp: dbuf_ok_def PTRDIFF_MAX_def)
  obtain r s1 where g: "dbuf_realloc ra s ?e = Some (r, s1)"
    and s1: "dbuf_ok s1" "db_size s1 = db_size s" "dbuf_bytes s1 = dbuf_bytes s"
    and r: "r = 0 \<and> ?e \<le> db_allocated s1 \<and> db_error s1 = db_error s \<or> r = -1 \<and> db_error s1"
    using dbuf_realloc_spec [OF ok] by blast
  show ?thesis
  proof (cases "r = 0")
    case False
    with g r s1 e show ?thesis by (simp add: dbuf_write_def dbuf_outcome_def)
  next
    case True
    with r have fits: "?e \<le> db_allocated s1" by simp
    obtain b where b: "dbuf_memcpy s1 offset data = Some (s1\<lparr>db_buf := b\<rparr>)"
      "length (block b) = db_allocated s1"
      "block b = take offset (block (db_buf s1)) @ data @ drop ?e (block (db_buf s1))"
      using dbuf_memcpy_spec [OF s1(1) fits] by blast
    let ?s2 = "s1\<lparr>db_buf := b, db_size := max (db_size s) ?e\<rparr>"
    have "(if ?e > db_size s then s1\<lparr>db_buf := b, db_size := ?e\<rparr> else s1\<lparr>db_buf := b\<rparr>) = ?s2"
      using s1(2) by (auto simp: max_def)
    then have "dbuf_write ra s offset data = Some (0, ?s2)"
      using g b(1) True s1(2) e by (simp add: dbuf_write_def Let_def)
    moreover have "dbuf_ok ?s2" "db_error ?s2 = db_error s"
      using s1 b fits True r by (auto simp: dbuf_ok_def)
    moreover have "dbuf_bytes ?s2
        = take offset (dbuf_bytes s1) @ data @ drop ?e (dbuf_bytes s1)"
      using take_overwrite [of "db_size s" "block (db_buf s1)" offset data] s1(1,2) b(3) off fits
      by (simp add: dbuf_bytes_def dbuf_ok_def)
    ultimately show ?thesis
      using s1(3) by (simp add: dbuf_outcome_def)
  qed
qed

lemma dbuf_insert_spec:
  assumes ok: "dbuf_ok s" and pos: "pos \<le> db_size s" and len: "len \<le> PTRDIFF_MAX"
  shows "\<exists>g. length g = len
           \<and> dbuf_outcome s (take pos (dbuf_bytes s) @ g @ drop pos (dbuf_bytes s))
               (dbuf_insert ra s pos len)"
proof -
  obtain r s1 where g: "dbuf_realloc ra s (db_size s + len) = Some (r, s1)"
    and s1: "dbuf_ok s1" "db_size s1 = db_size s" "dbuf_bytes s1 = dbuf_bytes s"
    and r: "r = 0 \<and> db_size s + len \<le> db_allocated s1 \<and> db_error s1 = db_error s
              \<or> r = -1 \<and> db_error s1"
    using dbuf_realloc_spec [OF ok] by blast
  note sz = dbuf_size_add [OF ok len]
  show ?thesis
  proof (cases "r = 0")
    case False
    with g r s1 sz show ?thesis
      by (intro exI [of _ "replicate len 0"]) (simp add: dbuf_insert_def dbuf_outcome_def)
  next
    case True
    with r have fits: "db_size s + len \<le> db_allocated s1" by simp
    let ?B = "block (db_buf s1)"
    let ?d = "take (db_size s - pos) (drop pos ?B)"
    have "drop pos (dbuf_bytes s1) = ?d"
      using s1(2) by (simp add: dbuf_bytes_def drop_take)
    then have d: "length ?d = db_size s - pos" "?d = drop pos (dbuf_bytes s)"
      using s1 fits by (auto simp: dbuf_ok_def)
    have "pos + len + length ?d \<le> db_allocated s1"
      using d(1) fits pos by simp
    from dbuf_memcpy_spec [OF s1(1) this] obtain b where
      b: "dbuf_memcpy s1 (pos + len) ?d = Some (s1\<lparr>db_buf := b\<rparr>)" "length (block b) = db_allocated s1"
      "block b = take (pos + len) ?B @ ?d @ drop (pos + len + length ?d) ?B"
      by blast
    let ?s2 = "s1\<lparr>db_buf := b, db_size := db_size s + len\<rparr>"
    have "rd_block ?B pos (db_size s - pos) = Some ?d"
      using s1 fits pos by (auto simp: rd_block_def dbuf_ok_def)
    then have "dbuf_insert ra s pos len = Some (0, ?s2)"
      using g b(1) True s1(2) sz pos by (simp add: dbuf_insert_def)
    moreover have "dbuf_ok ?s2" "db_error ?s2 = db_error s"
      using s1 b fits True r by (auto simp: dbuf_ok_def)
    moreover have "dbuf_bytes ?s2 = take pos (dbuf_bytes s1) @ take len (drop pos ?B) @ ?d"
      using take_shifted [of pos "db_size s" len ?B ?d] s1(1,2) b(3) fits pos d(1)
      by (simp add: dbuf_bytes_def dbuf_ok_def)
    ultimately show ?thesis
      using d s1 fits pos
      by (intro exI [of _ "take len (drop pos ?B)"]) (auto simp: dbuf_outcome_def dbuf_ok_def)
  qed
qed

end

interpretation js_bytes: byte_reallocator "js_def_realloc env (Suc 0)" for env
  by (rule byte_reallocator.intro) (rule js_heap.reallocator_axioms)

section \<open>Sequences of operations\<close>

text \<open>
  A caller's use of one buffer: a sequence of operations, given up at the first one that
  reports a failure. \<open>dbuf_op_spec\<close> is the list operation each stands for, \<open>dbuf_op_pre\<close> what
  its caller has to respect.
\<close>

datatype dbuf_op =
    OpPut "u8 list"
  | OpPutSelf nat nat
  | OpWrite nat "u8 list"
  | OpInsert nat nat
  | OpPutU16 u16
  | OpPutU32 u32

fun dbuf_op_run :: "'o realloc_func \<Rightarrow> 'o dynbuf \<Rightarrow> dbuf_op \<Rightarrow> (int \<times> 'o dynbuf) option" where
  "dbuf_op_run ra s (OpPut d) = dbuf_put ra s d"
| "dbuf_op_run ra s (OpPutSelf off len) = dbuf_put_self ra s off len"
| "dbuf_op_run ra s (OpWrite off d) = dbuf_write ra s off d"
| "dbuf_op_run ra s (OpInsert pos len) = dbuf_insert ra s pos len"
| "dbuf_op_run ra s (OpPutU16 v) = dbuf_put_u16 ra s v"
| "dbuf_op_run ra s (OpPutU32 v) = dbuf_put_u32 ra s v"

fun dbuf_ops_run :: "'o realloc_func \<Rightarrow> 'o dynbuf \<Rightarrow> dbuf_op list \<Rightarrow> (int \<times> 'o dynbuf) option" where
  "dbuf_ops_run ra s [] = Some (0, s)"
| "dbuf_ops_run ra s (x # xs) = do {
     (r, s) \<leftarrow> dbuf_op_run ra s x;
     if r \<noteq> 0 then Some (r, s) else dbuf_ops_run ra s xs
   }"

fun dbuf_op_pre :: "dbuf_op \<Rightarrow> nat \<Rightarrow> bool" where
  "dbuf_op_pre (OpPut d) n \<longleftrightarrow> length d \<le> PTRDIFF_MAX"
| "dbuf_op_pre (OpPutSelf off len) n \<longleftrightarrow> off + len \<le> n"
| "dbuf_op_pre (OpWrite off d) n \<longleftrightarrow> off \<le> n \<and> length d \<le> PTRDIFF_MAX"
| "dbuf_op_pre (OpInsert pos len) n \<longleftrightarrow> pos \<le> n \<and> len \<le> PTRDIFF_MAX"
| "dbuf_op_pre (OpPutU16 v) n \<longleftrightarrow> True"
| "dbuf_op_pre (OpPutU32 v) n \<longleftrightarrow> True"

fun dbuf_op_len :: "dbuf_op \<Rightarrow> nat \<Rightarrow> nat" where
  "dbuf_op_len (OpPut d) n = n + length d"
| "dbuf_op_len (OpPutSelf off len) n = n + len"
| "dbuf_op_len (OpWrite off d) n = max n (off + length d)"
| "dbuf_op_len (OpInsert pos len) n = n + len"
| "dbuf_op_len (OpPutU16 v) n = n + 2"
| "dbuf_op_len (OpPutU32 v) n = n + 4"

fun dbuf_ops_pre :: "dbuf_op list \<Rightarrow> nat \<Rightarrow> bool" where
  "dbuf_ops_pre [] n \<longleftrightarrow> True"
| "dbuf_ops_pre (x # xs) n \<longleftrightarrow> dbuf_op_pre x n \<and> dbuf_ops_pre xs (dbuf_op_len x n)"

text \<open>The bytes before and after; the gap an insertion opens holds arbitrary bytes.\<close>

fun dbuf_op_spec :: "dbuf_op \<Rightarrow> u8 list \<Rightarrow> u8 list \<Rightarrow> bool" where
  "dbuf_op_spec (OpPut d) bs bs' \<longleftrightarrow> bs' = bs @ d"
| "dbuf_op_spec (OpPutSelf off len) bs bs' \<longleftrightarrow> bs' = bs @ take len (drop off bs)"
| "dbuf_op_spec (OpWrite off d) bs bs' \<longleftrightarrow> bs' = take off bs @ d @ drop (off + length d) bs"
| "dbuf_op_spec (OpInsert pos len) bs bs' \<longleftrightarrow>
     length bs' = length bs + len \<and> take pos bs' = take pos bs \<and> drop (pos + len) bs' = drop pos bs"
| "dbuf_op_spec (OpPutU16 v) bs bs' \<longleftrightarrow> bs' = bs @ bytes_u16 v"
| "dbuf_op_spec (OpPutU32 v) bs bs' \<longleftrightarrow> bs' = bs @ bytes_u32 v"

inductive dbuf_ops_spec :: "dbuf_op list \<Rightarrow> u8 list \<Rightarrow> u8 list \<Rightarrow> bool" where
  spec_Nil: "dbuf_ops_spec [] bs bs"
| spec_Cons: "dbuf_op_spec x bs bs1 \<Longrightarrow> dbuf_ops_spec xs bs1 bs' \<Longrightarrow> dbuf_ops_spec (x # xs) bs bs'"

inductive_cases dbuf_ops_specE: "dbuf_ops_spec (x # xs) bs bs'"

lemma dbuf_op_spec_length:
  "dbuf_op_pre x (length bs) \<Longrightarrow> dbuf_op_spec x bs bs' \<Longrightarrow> length bs' = dbuf_op_len x (length bs)"
  by (cases x) (auto simp: max_def)

lemma dbuf_outcomeE:
  assumes "dbuf_outcome s bs res"
  obtains s' where "res = Some (0, s')" "dbuf_ok s'" "dbuf_bytes s' = bs" "db_error s' = db_error s"
  | s' where "res = Some (-1, s')" "dbuf_ok s'" "dbuf_bytes s' = dbuf_bytes s" "db_error s'"
  using assms by (auto simp: dbuf_outcome_def)

context byte_reallocator
begin

lemma dbuf_op_run_outcome:
  assumes "dbuf_ok s" "dbuf_op_pre x (db_size s)"
  shows "\<exists>bs. dbuf_op_spec x (dbuf_bytes s) bs \<and> dbuf_outcome s bs (dbuf_op_run ra s x)"
proof (cases x)
  case (OpInsert pos len)
  with assms dbuf_insert_spec [of s pos len] obtain g where
    g: "length g = len"
    "dbuf_outcome s (take pos (dbuf_bytes s) @ g @ drop pos (dbuf_bytes s)) (dbuf_insert ra s pos len)"
    by auto
  with assms OpInsert dbuf_bytes_length [OF assms(1)] show ?thesis
    by (intro exI [of _ "take pos (dbuf_bytes s) @ g @ drop pos (dbuf_bytes s)"]) auto
next
  case (OpPutU16 v)
  then show ?thesis
    using assms dbuf_put_spec [of s "bytes_u16 v"] by (simp add: dbuf_put_u16_def PTRDIFF_MAX_def)
next
  case (OpPutU32 v)
  then show ?thesis
    using assms dbuf_put_spec [of s "bytes_u32 v"] by (simp add: dbuf_put_u32_def PTRDIFF_MAX_def)
qed (use assms dbuf_put_spec dbuf_put_self_spec dbuf_write_spec in auto)

lemma dbuf_ops_run_outcome:
  assumes "dbuf_ok s" "dbuf_ops_pre ops (db_size s)"
  shows "\<exists>r s' n. dbuf_ops_run ra s ops = Some (r, s') \<and> dbuf_ok s'
           \<and> dbuf_ops_spec (take n ops) (dbuf_bytes s) (dbuf_bytes s')
           \<and> (r = 0 \<and> n = length ops \<and> db_error s' = db_error s \<or> r = -1 \<and> db_error s')"
  using assms
proof (induction ops arbitrary: s)
  case Nil
  then show ?case by (auto intro: spec_Nil)
next
  case (Cons x ops)
  then have pre: "dbuf_op_pre x (db_size s)" by simp
  obtain bs where bs: "dbuf_op_spec x (dbuf_bytes s) bs" "dbuf_outcome s bs (dbuf_op_run ra s x)"
    using dbuf_op_run_outcome [OF Cons.prems(1) pre] by blast
  from bs(2) show ?case
  proof (cases rule: dbuf_outcomeE)
    case (1 s1)
    have "db_size s1 = dbuf_op_len x (db_size s)"
      using dbuf_op_spec_length [of x "dbuf_bytes s" bs] pre bs(1) 1 Cons.prems(1)
      by (simp flip: dbuf_bytes_length)
    with Cons.prems 1 have "dbuf_ops_pre ops (db_size s1)" by simp
    with Cons.IH [OF 1(2)] obtain r s' n where
      "dbuf_ops_run ra s1 ops = Some (r, s')" "dbuf_ok s'"
      "dbuf_ops_spec (take n ops) bs (dbuf_bytes s')"
      "r = 0 \<and> n = length ops \<and> db_error s' = db_error s \<or> r = -1 \<and> db_error s'"
      using 1(3,4) by metis
    with 1 bs(1) show ?thesis
      by (intro exI [of _ r] exI [of _ s'] exI [of _ "Suc n"]) (auto intro: spec_Cons)
  next
    case (2 s1)
    then show ?thesis
      by (intro exI [of _ "-1"] exI [of _ s1] exI [of _ 0]) (auto intro: spec_Nil)
  qed
qed

end

text \<open>
  C9: any sequence of buffer operations over the runtime's allocator is memory safe and has the
  effect of the list operations it stands for. Whatever the C library answers and wherever the
  memory limit is, the sequence returns; it either succeeds, with exactly the specified bytes in
  the buffer, or it reports -1 with the error flag set and the bytes of the operations before
  the one that failed.
\<close>

theorem dbuf_ops_refine:
  assumes "dbuf_ops_pre ops 0"
  shows "\<exists>r s' n. dbuf_ops_run (js_def_realloc env (Suc 0)) (dbuf_init2 st) ops = Some (r, s')
           \<and> dbuf_ok s' \<and> dbuf_ops_spec (take n ops) [] (dbuf_bytes s')
           \<and> (r = 0 \<and> n = length ops \<and> \<not> db_error s' \<or> r = -1 \<and> db_error s')"
proof -
  have "db_size (dbuf_init2 st) = 0" "\<not> db_error (dbuf_init2 st)"
    by (simp_all add: dbuf_init2_def)
  with assms js_bytes.dbuf_ops_run_outcome [of "dbuf_init2 st" ops env] show ?thesis by simp
qed

theorem dbuf_ops_refine_witness:
  "\<exists>r s' n. dbuf_ops_run (js_def_realloc \<lparr>lc_avail = (\<lambda>n. True), lc_usable = id, lc_junk = (\<lambda>i. 0)\<rparr> (Suc 0))
      (dbuf_init2 \<lparr>malloc_count = 0, malloc_size = 0, malloc_limit = 100\<rparr>)
      [OpPut [1, 2, 3], OpInsert 1 2, OpPutSelf 0 1, OpWrite 4 [9, 9, 9]] = Some (r, s')
    \<and> dbuf_ok s'
    \<and> dbuf_ops_spec (take n [OpPut [1, 2, 3], OpInsert 1 2, OpPutSelf 0 1, OpWrite 4 [9, 9, 9]])
        [] (dbuf_bytes s')
    \<and> (r = 0 \<and> n = length [OpPut [1, 2, 3], OpInsert 1 2, OpPutSelf 0 1, OpWrite 4 [9, 9, 9]]
         \<and> \<not> db_error s' \<or> r = -1 \<and> db_error s')"
  by (rule dbuf_ops_refine) (simp add: PTRDIFF_MAX_def)

end
