(* ===== verification/Utf8.thy ===== *)
theory Utf8
  imports QJS_Prelude
begin

text \<open>
  cutils.c lines 229 to 327: the UTF-8 encoder and decoder that the lexer, the strings and the
  regular expression parser share, and \<open>from_hex\<close> of cutils.h.

  \<open>unicode_to_utf8\<close> is given as the bytes it writes (its result is their number, 0 for a code
  above \<open>0x7fffffff\<close>). \<open>unicode_from_utf8\<close> reads the memory \<open>mem\<close> at position \<open>p\<close>; the
  position \<open>*pp\<close> is passed in and returned, since the function leaves it alone on an error.
  The lemmas reduce both to the same arithmetic: a head byte and \<open>l\<close> continuation bytes that
  hold the base-64 digits of the code (\<open>utf8_digits\<close>).
\<close>

section \<open>The encoder\<close>

definition utf8_cont_byte :: "nat \<Rightarrow> u32 \<Rightarrow> u8" where
  "utf8_cont_byte k c = ucast ((drop_bit k c AND 0x3f) OR 0x80)"

definition unicode_to_utf8 :: "u32 \<Rightarrow> u8 list" where
  "unicode_to_utf8 c =
     (if c < 0x80 then [ucast c]
      else if c < 0x800 then
        [ucast (drop_bit 6 c OR 0xc0), utf8_cont_byte 0 c]
      else if c < 0x10000 then
        [ucast (drop_bit 12 c OR 0xe0), utf8_cont_byte 6 c, utf8_cont_byte 0 c]
      else if c < 0x00200000 then
        [ucast (drop_bit 18 c OR 0xf0), utf8_cont_byte 12 c, utf8_cont_byte 6 c, utf8_cont_byte 0 c]
      else if c < 0x04000000 then
        [ucast (drop_bit 24 c OR 0xf8), utf8_cont_byte 18 c, utf8_cont_byte 12 c,
         utf8_cont_byte 6 c, utf8_cont_byte 0 c]
      else if c < 0x80000000 then
        [ucast (drop_bit 30 c OR 0xfc), utf8_cont_byte 24 c, utf8_cont_byte 18 c,
         utf8_cont_byte 12 c, utf8_cont_byte 6 c, utf8_cont_byte 0 c]
      else [])"

section \<open>The decoder\<close>

definition utf8_min_code :: "u32 list" where
  "utf8_min_code = [0x80, 0x800, 0x10000, 0x00200000, 0x04000000]"

definition utf8_first_code_mask :: "u32 list" where
  "utf8_first_code_mask = [0x1f, 0xf, 0x7, 0x3, 0x1]"

text \<open>The \<open>switch\<close> on the first byte.\<close>

definition utf8_seq_len :: "u32 \<Rightarrow> nat option" where
  "utf8_seq_len c =
     (if 0xc0 \<le> c \<and> c \<le> 0xdf then Some 1
      else if 0xe0 \<le> c \<and> c \<le> 0xef then Some 2
      else if 0xf0 \<le> c \<and> c \<le> 0xf7 then Some 3
      else if 0xf8 \<le> c \<and> c \<le> 0xfb then Some 4
      else if 0xfc \<le> c \<and> c \<le> 0xfd then Some 5
      else None)"

text \<open>The loop over the continuation bytes; the inner \<open>None\<close> is its \<open>return -1\<close>.\<close>

fun utf8_cont_loop :: "u8 list \<Rightarrow> nat \<Rightarrow> nat \<Rightarrow> u32 \<Rightarrow> (u32 \<times> nat) option option" where
  "utf8_cont_loop mem p 0 c = Some (Some (c, p))"
| "utf8_cont_loop mem p (Suc l) c = do {
     b \<leftarrow> rd mem p;
     if b < 0x80 \<or> b \<ge> 0xc0 then Some None
     else utf8_cont_loop mem (Suc p) l (push_bit 6 c OR (ucast b AND 0x3f))
   }"

definition unicode_from_utf8 :: "u8 list \<Rightarrow> nat \<Rightarrow> int \<Rightarrow> nat \<Rightarrow> (int \<times> nat) option" where
  "unicode_from_utf8 mem p max_len pp = do {
     b \<leftarrow> rd mem p;
     let c = ucast b;
     if c < 0x80 then Some (uint c, Suc p)
     else case utf8_seq_len c of
       None \<Rightarrow> Some (-1, pp)
     | Some l \<Rightarrow>
         if int l > max_len - 1 then Some (-1, pp)
         else do {
           r \<leftarrow> utf8_cont_loop mem (Suc p) l (c AND utf8_first_code_mask ! (l - 1));
           (case r of
              None \<Rightarrow> Some (-1, pp)
            | Some (c, p) \<Rightarrow>
                if c < utf8_min_code ! (l - 1) then Some (-1, pp) else Some (uint c, p))
         }
   }"

definition from_hex :: "int \<Rightarrow> int" where
  "from_hex c =
     (if c \<ge> 48 \<and> c \<le> 57 then c - 48
      else if c \<ge> 65 \<and> c \<le> 70 then c - 65 + 10
      else if c \<ge> 97 \<and> c \<le> 102 then c - 97 + 10
      else -1)"

section \<open>Both as base-64 digits\<close>

fun utf8_digits :: "nat \<Rightarrow> nat \<Rightarrow> u8 list" where
  "utf8_digits 0 c = []"
| "utf8_digits (Suc l) c = word_of_nat (128 + c div 64 ^ l mod 64) # utf8_digits l c"

definition utf8_lead :: "nat \<Rightarrow> nat" where
  "utf8_lead l = 256 - 2 ^ (7 - l)"

definition utf8_class :: "nat \<Rightarrow> nat" where
  "utf8_class c = (if c < 0x800 then 1 else if c < 0x10000 then 2 else if c < 0x200000 then 3
                   else if c < 0x4000000 then 4 else 5)"

lemma utf8_digits_length [simp]: "length (utf8_digits l c) = l"
  by (induction l) auto

lemma utf8_cont_byte_nat: "utf8_cont_byte k c = word_of_nat (128 + unat c div 2 ^ k mod 64)"
proof -
  have "unat (drop_bit k c AND 0x3f) = unat c div 2 ^ k mod 64"
    by (simp add: and_mask_take_bit unat_shr unat_mask)
  then have "unat (drop_bit k c AND 0x3f OR 0x80) = unat c div 2 ^ k mod 64 + 128"
    by (subst unat_or_low [where k = 6]) auto
  then have "unat (utf8_cont_byte k c) = 128 + unat c div 2 ^ k mod 64"
    by (simp add: utf8_cont_byte_def unat_ucast_mod)
  then show ?thesis
    by (rule eq_word_of_nat)
qed

lemma utf8_head_byte:
  fixes c :: u32
  assumes "unat c < 2 ^ (j + k)" "take_bit j b = 0" "2 ^ j + unat b \<le> 256"
  shows "ucast (drop_bit k c OR b) = (word_of_nat (unat b + unat c div 2 ^ k) :: u8)"
proof -
  have d: "unat c div 2 ^ k < 2 ^ j"
    using assms(1) by (simp add: less_mult_imp_div_less power_add)
  then have "unat (drop_bit k c OR b) = unat b + unat c div 2 ^ k"
    using assms by (subst unat_or_low [where k = j]) (auto simp: unat_shr)
  with d assms(3) have "unat (ucast (drop_bit k c OR b) :: u8) = unat b + unat c div 2 ^ k"
    by (simp add: unat_ucast_mod)
  then show ?thesis
    by (rule eq_word_of_nat)
qed

lemma utf8_digits_unfold:
  "utf8_digits (Suc 0) c = [word_of_nat (128 + c mod 64)]"
  "utf8_digits 2 c = word_of_nat (128 + c div 64 mod 64) # utf8_digits (Suc 0) c"
  "utf8_digits 3 c = word_of_nat (128 + c div 64 ^ 2 mod 64) # utf8_digits 2 c"
  "utf8_digits 4 c = word_of_nat (128 + c div 64 ^ 3 mod 64) # utf8_digits 3 c"
  "utf8_digits 5 c = word_of_nat (128 + c div 64 ^ 4 mod 64) # utf8_digits 4 c"
  using utf8_digits.simps(2) [of 0 c] utf8_digits.simps(2) [of 1 c, unfolded Suc_1] utf8_digits.simps(2) [of 2 c]
    utf8_digits.simps(2) [of 3 c] utf8_digits.simps(2) [of 4 c]
  by (simp_all del: utf8_digits.simps(2))

lemma unicode_to_utf8_digits:
  assumes "unat c < 2 ^ 31" "\<not> unat c < 128"
  shows "unicode_to_utf8 c =
    (let l = utf8_class (unat c) in
     word_of_nat (utf8_lead l + unat c div 64 ^ l) # utf8_digits l (unat c))"
proof -
  let ?n = "unat c"
  note heads = utf8_head_byte [of c 5 6 "0xc0"] utf8_head_byte [of c 4 12 "0xe0"]
    utf8_head_byte [of c 3 18 "0xf0"] utf8_head_byte [of c 2 24 "0xf8"]
    utf8_head_byte [of c 1 30 "0xfc"]
  note defs = unicode_to_utf8_def utf8_class_def utf8_lead_def utf8_cont_byte_nat
    word_less_nat_alt utf8_digits_unfold Let_def
  consider "?n < 0x800" | "\<not> ?n < 0x800" "?n < 0x10000" | "\<not> ?n < 0x10000" "?n < 0x200000"
    | "\<not> ?n < 0x200000" "?n < 0x4000000" | "\<not> ?n < 0x4000000"
    by linarith
  then show ?thesis
  proof cases
    case 1 with assms heads(1) show ?thesis by (simp add: defs)
  next
    case 2 with assms heads(2) show ?thesis by (simp add: defs)
  next
    case 3 with assms heads(3) show ?thesis by (simp add: defs)
  next
    case 4 with assms heads(4) show ?thesis by (simp add: defs)
  next
    case 5 with assms heads(5) show ?thesis by (simp add: defs)
  qed
qed

section \<open>The loop over the continuation bytes\<close>

lemma utf8_acc:
  fixes acc :: u32 and b :: u8
  assumes "unat acc * 64 + 64 \<le> 2 ^ 32"
  shows "unat (push_bit 6 acc OR (ucast b AND 0x3f)) = unat acc * 64 + unat b mod 64"
proof -
  have b: "unat (ucast b AND 0x3f :: u32) = unat b mod 64"
    using unsigned_less [of b, where ?'a = nat]
    by (simp add: and_mask_take_bit unat_mask unat_ucast_mod)
  then have "unat (ucast b AND 0x3f :: u32) < 2 ^ 6"
    "unat acc * 2 ^ 6 + unat (ucast b AND 0x3f :: u32) < 2 ^ LENGTH(32)"
    using assms by simp_all
  from unat_shl_or [OF this] b show ?thesis by simp
qed

lemma utf8_mod64:
  "(128 + n) mod 64 = n mod (64 :: nat)"
  "128 \<le> n \<Longrightarrow> n < 192 \<Longrightarrow> 128 + n mod 64 = (n :: nat)"
proof -
  show first: "(128 + n) mod 64 = n mod (64 :: nat)" for n
    using mod_mult_self2 [of n 64 2] by (simp add: add.commute)
  assume "128 \<le> n" "n < 192"
  then show "128 + n mod 64 = n"
    using first [of "n - 128"] by simp
qed

lemma utf8_cont_loop_digits:
  assumes "unat acc * 64 ^ l + 64 ^ l \<le> 2 ^ 32" "p = length pre"
  shows "utf8_cont_loop (pre @ utf8_digits l v @ post) p l acc =
           Some (Some (word_of_nat (unat acc * 64 ^ l + v mod 64 ^ l), p + l))"
  using assms
proof (induction l arbitrary: acc p pre)
  case 0
  then show ?case by simp
next
  case (Suc l)
  let ?d = "v div 64 ^ l mod 64"
  let ?b = "word_of_nat (128 + ?d) :: u8"
  have "128 + ?d < 256" by (simp add: add_less_mono1 less_imp_le)
  then have b: "unat ?b = 128 + ?d"
    by (simp only: unat_byte_of_nat mod_less)
  have "\<not> ?b < 0x80" "\<not> ?b \<ge> 0xc0"
    using b by (simp_all add: word_less_nat_alt word_le_nat_alt del: of_nat_add)
  moreover have "unat acc * 64 + 64 \<le> 2 ^ 32"
  proof -
    have "(unat acc * 64 + 64) * 1 \<le> (unat acc * 64 + 64) * 64 ^ l"
      by (intro mult_le_mono2) simp
    also have "\<dots> \<le> 2 ^ 32"
      using Suc.prems by (simp add: algebra_simps)
    finally show ?thesis by simp
  qed
  then have acc: "unat (push_bit 6 acc OR (ucast ?b AND 0x3f)) = unat acc * 64 + ?d"
    using b utf8_mod64(1) [of ?d] by (simp add: utf8_acc del: of_nat_add)
  moreover have "v mod 64 ^ Suc l = 64 ^ l * ?d + v mod 64 ^ l"
    by (simp only: power_Suc2 mod_mult2_eq)
  moreover have "(unat acc * 64 + ?d) * 64 ^ l + 64 ^ l \<le> 2 ^ 32"
  proof -
    have "(unat acc * 64 + ?d + 1) * 64 ^ l \<le> (unat acc * 64 + 64) * 64 ^ l"
      by (intro mult_le_mono1) (simp add: Suc_le_eq)
    also have "\<dots> \<le> 2 ^ 32"
      using Suc.prems by (simp add: algebra_simps)
    finally show ?thesis by (simp add: algebra_simps)
  qed
  ultimately show ?case
    using Suc.IH [of "push_bit 6 acc OR (ucast ?b AND 0x3f)" "Suc p" "pre @ [?b]"] Suc.prems(2)
    by (simp add: algebra_simps del: of_nat_add)
qed

lemma utf8_cont_loop_inv:
  assumes "unat acc * 64 ^ l + 64 ^ l \<le> 2 ^ 32" "p + l \<le> length mem"
  shows "\<exists>r. utf8_cont_loop mem p l acc = Some r \<and>
    (r = None \<or> (\<exists>c. r = Some (c, p + l) \<and> take l (drop p mem) = utf8_digits l (unat c)
                    \<and> unat c div 64 ^ l = unat acc))"
  using assms
proof (induction l arbitrary: acc p)
  case 0
  then show ?case by simp
next
  case (Suc l)
  let ?b = "mem ! p"
  let ?acc = "push_bit 6 acc OR (ucast ?b AND 0x3f)"
  have p: "p < length mem" using Suc.prems by simp
  show ?case
  proof (cases "?b < 0x80 \<or> ?b \<ge> 0xc0")
    case True
    then show ?thesis using p by auto
  next
    case False
    then have b: "128 \<le> unat ?b" "unat ?b < 192"
      by (simp_all add: word_less_nat_alt word_le_nat_alt)
    have "(unat acc * 64 + 64) * 1 \<le> (unat acc * 64 + 64) * 64 ^ l"
      by (intro mult_le_mono2) simp
    also have full: "\<dots> \<le> 2 ^ 32"
      using Suc.prems by (simp add: algebra_simps)
    finally have acc: "unat ?acc = unat acc * 64 + unat ?b mod 64"
      by (simp add: utf8_acc)
    have "(unat ?acc + 1) * 64 ^ l \<le> (unat acc * 64 + 64) * 64 ^ l"
      using acc by (intro mult_le_mono1) (simp add: Suc_le_eq)
    with full have "unat ?acc * 64 ^ l + 64 ^ l \<le> 2 ^ 32"
      by (simp add: algebra_simps)
    from Suc.IH [OF this, of "Suc p"] Suc.prems obtain r where
      r: "utf8_cont_loop mem (Suc p) l ?acc = Some r"
      "r = None \<or> (\<exists>c. r = Some (c, Suc p + l) \<and> take l (drop (Suc p) mem) = utf8_digits l (unat c)
                    \<and> unat c div 64 ^ l = unat ?acc)"
      by auto
    have step: "utf8_cont_loop mem p (Suc l) acc = Some r"
      using p False r(1) by auto
    show ?thesis
    proof (cases r)
      case None
      with step show ?thesis by simp
    next
      case (Some a)
      with r(2) obtain c where c: "r = Some (c, Suc p + l)"
        "take l (drop (Suc p) mem) = utf8_digits l (unat c)" "unat c div 64 ^ l = unat ?acc"
        by auto
      have "unat c div 64 ^ l mod 64 = unat ?b mod 64"
        using c(3) acc by simp
      then have "128 + unat c div 64 ^ l mod 64 = unat ?b"
        using utf8_mod64(2) [OF b] by simp
      then have "?b = word_of_nat (128 + unat c div 64 ^ l mod 64)"
        by (intro eq_word_of_nat) simp
      moreover have "unat c div 64 ^ Suc l = unat acc"
        using c(3) acc by (simp add: div_mult2_eq power_Suc2 del: power_Suc)
      moreover have "take (Suc l) (drop p mem) = ?b # take l (drop (Suc p) mem)"
        using p by (simp add: Cons_nth_drop_Suc [symmetric])
      ultimately show ?thesis
        using step c by simp
    qed
  qed
qed

section \<open>The first byte\<close>

lemma unat_ucast_u8_u32 [simp]: "unat (ucast (b :: u8) :: u32) = unat b"
  using unsigned_less [of b, where ?'a = nat] by (simp add: unat_ucast_mod)

lemma uint_ucast_u8_u32 [simp]: "uint (ucast (b :: u8) :: u32) = uint b"
  by (simp only: uint_nat unat_ucast_u8_u32)

lemma utf8_seq_len_iff:
  "utf8_seq_len (ucast (b :: u8)) = Some l \<longleftrightarrow>
     1 \<le> l \<and> l \<le> 5 \<and> utf8_lead l \<le> unat b \<and> unat b < utf8_lead l + 2 ^ (6 - l)"
proof -
  have "l = 1 \<or> l = 2 \<or> l = 3 \<or> l = 4 \<or> l = 5 \<or> \<not> (1 \<le> l \<and> l \<le> 5)" by auto
  then show ?thesis
    by (elim disjE)
      (simp_all add: utf8_seq_len_def utf8_lead_def word_le_nat_alt split: if_splits, linarith+)
qed

lemma utf8_seq_len_lead: "utf8_seq_len c = Some l \<Longrightarrow> \<not> c < 0x80"
  by (simp add: utf8_seq_len_def word_less_nat_alt word_le_nat_alt split: if_splits)

lemma utf8_first_mask:
  assumes "1 \<le> l" "l \<le> 5"
  shows "unat (x AND utf8_first_code_mask ! (l - 1)) = unat x mod 2 ^ (6 - l)"
proof -
  have "l \<in> {1, 2, 3, 4, 5}" using assms by auto
  then have "x AND utf8_first_code_mask ! (l - 1) = take_bit (6 - l) x"
    by (auto simp: utf8_first_code_mask_def and_mask_take_bit)
  then show ?thesis by (simp add: unat_mask)
qed

lemma utf8_lead_mod: "1 \<le> l \<Longrightarrow> l \<le> 5 \<Longrightarrow> d < 2 ^ (6 - l) \<Longrightarrow> (utf8_lead l + d) mod 2 ^ (6 - l) = d"
proof -
  assume l: "1 \<le> l" "l \<le> 5" and d: "d < 2 ^ (6 - l)"
  have "l \<in> {1, 2, 3, 4, 5}" using l by auto
  then have "2 ^ (6 - l) dvd utf8_lead l"
    by (auto simp: utf8_lead_def dvd_def)
  with d show ?thesis
    by (auto elim!: dvdE)
qed

lemma utf8_class_range: "1 \<le> utf8_class c" "utf8_class c \<le> 5"
  by (simp_all add: utf8_class_def)

lemma utf8_class_lead: "c < 2 ^ 31 \<Longrightarrow> c div 64 ^ utf8_class c < 2 ^ (6 - utf8_class c)"
  by (auto simp: utf8_class_def less_mult_imp_div_less)

lemma utf8_class_unique:
  assumes "1 \<le> l" "l \<le> 5" "c div 64 ^ l < 2 ^ (6 - l)" "\<not> c < unat (utf8_min_code ! (l - 1))"
  shows "utf8_class c = l" "c < 2 ^ 31"
proof -
  have l: "l \<in> {1, 2, 3, 4, 5}" using assms by auto
  then show "utf8_class c = l"
    using assms(3,4) by (auto simp: utf8_class_def utf8_min_code_def div_less_iff_less_mult)
  show "c < 2 ^ 31"
    using assms(3) l by (auto simp: div_less_iff_less_mult)
qed

lemma utf8_class_min: "\<not> c < 128 \<Longrightarrow> \<not> c < unat (utf8_min_code ! (utf8_class c - 1))"
  by (auto simp: utf8_class_def utf8_min_code_def)

lemma utf8_acc_room: "1 \<le> l \<Longrightarrow> l \<le> 5 \<Longrightarrow> d < 2 ^ (6 - l) \<Longrightarrow> d * 64 ^ l + 64 ^ l \<le> (2 :: nat) ^ 32"
proof -
  assume l: "1 \<le> l" "l \<le> 5" and d: "d < 2 ^ (6 - l)"
  have "l \<in> {1, 2, 3, 4, 5}" using l by auto
  then have "2 ^ (6 - l) * 64 ^ l \<le> (2 :: nat) ^ 32" by auto
  moreover have "(d + 1) * 64 ^ l \<le> 2 ^ (6 - l) * 64 ^ l"
    using d by (intro mult_le_mono1) simp
  ultimately show ?thesis by (simp add: algebra_simps)
qed

section \<open>Decoding a sequence\<close>

lemma utf8_decoded_canonical:
  assumes l: "1 \<le> l" "l \<le> 5" and d: "unat (mem ! p) = utf8_lead l + d" "d < 2 ^ (6 - l)"
    and p: "p < length mem"
    and c: "take l (drop (Suc p) mem) = utf8_digits l (unat c)" "unat c div 64 ^ l = d"
      "\<not> c < utf8_min_code ! (l - 1)"
  shows "take (Suc l) (drop p mem) = unicode_to_utf8 c" "uint c < 2 ^ 31"
proof -
  have cls: "utf8_class (unat c) = l" "unat c < 2 ^ 31"
    using utf8_class_unique [OF l, of "unat c"] d(2) c(2,3) by (simp_all add: word_less_nat_alt)
  then show "uint c < 2 ^ 31"
    using word_less_nat_alt [of c "0x80000000"] word_less_def [of c "0x80000000"] by simp
  have "128 \<le> unat (utf8_min_code ! (l - 1))"
    using l by (auto simp: utf8_min_code_def nth_Cons')
  with c(3) have "\<not> unat c < 128" by (simp add: word_less_nat_alt)
  with cls have "unicode_to_utf8 c = word_of_nat (utf8_lead l + d) # utf8_digits l (unat c)"
    using unicode_to_utf8_digits [of c] c(2) by (simp add: Let_def)
  moreover have "mem ! p = word_of_nat (utf8_lead l + d)"
    using d(1) by (rule eq_word_of_nat)
  moreover have "take (Suc l) (drop p mem) = mem ! p # take l (drop (Suc p) mem)"
    using p by (simp add: Cons_nth_drop_Suc [symmetric])
  ultimately show "take (Suc l) (drop p mem) = unicode_to_utf8 c"
    using c(1) by (simp del: of_nat_add)
qed

lemma utf8_decode_seq:
  assumes sl: "utf8_seq_len (ucast (mem ! p)) = Some l" and fits: "p + l < length mem"
    and len: "int l \<le> max_len - 1"
  shows "unicode_from_utf8 mem p max_len pp = Some (-1, pp) \<or>
    (\<exists>c. unicode_from_utf8 mem p max_len pp = Some (uint c, Suc p + l) \<and> uint c < 2 ^ 31
         \<and> take (Suc l) (drop p mem) = unicode_to_utf8 c)"
proof -
  have l: "1 \<le> l" "l \<le> 5" "utf8_lead l \<le> unat (mem ! p)" "unat (mem ! p) < utf8_lead l + 2 ^ (6 - l)"
    using sl by (simp_all only: utf8_seq_len_iff)
  define acc :: u32 where "acc = ucast (mem ! p) AND utf8_first_code_mask ! (l - 1)"
  define d where "d = unat (mem ! p) - utf8_lead l"
  have d: "unat (mem ! p) = utf8_lead l + d" "d < 2 ^ (6 - l)"
    using l by (auto simp: d_def)
  have acc: "unat acc = d"
    using utf8_first_mask [OF l(1,2)] utf8_lead_mod [OF l(1,2) d(2)] d(1) by (simp add: acc_def)
  have "Suc p + l \<le> length mem" using fits by simp
  from utf8_cont_loop_inv [OF _ this, of acc] acc utf8_acc_room [OF l(1,2) d(2)]
  obtain r where r: "utf8_cont_loop mem (Suc p) l acc = Some r"
    "r = None \<or> (\<exists>c. r = Some (c, Suc p + l) \<and> take l (drop (Suc p) mem) = utf8_digits l (unat c)
              \<and> unat c div 64 ^ l = d)"
    by auto
  have dec: "unicode_from_utf8 mem p max_len pp = Some (case r of None \<Rightarrow> (-1, pp)
      | Some (c, q) \<Rightarrow> if c < utf8_min_code ! (l - 1) then (-1, pp) else (uint c, q))"
    using sl fits len r(1) utf8_seq_len_lead [OF sl]
    by (simp add: unicode_from_utf8_def acc_def split: option.split)
  show ?thesis
  proof (cases r)
    case None
    with dec show ?thesis by simp
  next
    case (Some a)
    with r(2) obtain c where c: "r = Some (c, Suc p + l)"
      "take l (drop (Suc p) mem) = utf8_digits l (unat c)" "unat c div 64 ^ l = d"
      by auto
    have "p < length mem" using fits by simp
    note can = utf8_decoded_canonical [OF l(1,2) d this c(2,3)]
    show ?thesis
      using dec c(1) can by (cases "c < utf8_min_code ! (l - 1)") auto
  qed
qed

section \<open>Properties\<close>

text \<open>
  C4: the decoder inverts the encoder. For every code up to \<open>0x7fffffff\<close> the bytes
  \<open>unicode_to_utf8\<close> writes, wherever they stand in memory and whatever follows them, are decoded
  to that code and the position moves past exactly these bytes.
\<close>

theorem unicode_utf8_roundtrip:
  assumes "c < 0x80000000" "int (length (unicode_to_utf8 c)) \<le> max_len"
  shows "unicode_from_utf8 (pre @ unicode_to_utf8 c @ post) (length pre) max_len pp =
           Some (uint c, length pre + length (unicode_to_utf8 c))"
proof (cases "c < 0x80")
  case True
  then have "unat c < 128" by (simp add: word_less_nat_alt)
  then have "ucast (ucast c :: u8) = c"
    by (intro word_unat_eq_iff [THEN iffD2]) (simp add: unat_ucast_mod)
  with True show ?thesis
    by (simp add: unicode_from_utf8_def unicode_to_utf8_def rd_def)
next
  case False
  then have c: "unat c < 2 ^ 31" "\<not> unat c < 128"
    using assms(1) by (simp_all add: word_less_nat_alt)
  define l where "l = utf8_class (unat c)"
  let ?d = "unat c div 64 ^ l"
  let ?b = "word_of_nat (utf8_lead l + ?d) :: u8"
  note lr = utf8_class_range [of "unat c", folded l_def]
  have enc: "unicode_to_utf8 c = ?b # utf8_digits l (unat c)"
    using unicode_to_utf8_digits [OF c] by (simp add: l_def Let_def)
  have d: "?d < 2 ^ (6 - l)"
    using utf8_class_lead [OF c(1)] by (simp add: l_def)
  have "l \<in> {1, 2, 3, 4, 5}" using lr by auto
  then have "utf8_lead l + 2 ^ (6 - l) \<le> 256"
    by (auto simp: utf8_lead_def)
  with d have b: "unat ?b = utf8_lead l + ?d"
    by (simp only: unat_byte_of_nat mod_less)
  have sl: "utf8_seq_len (ucast ?b) = Some l"
    using lr d b by (simp add: utf8_seq_len_iff)
  have m: "unat (ucast ?b AND utf8_first_code_mask ! (l - 1) :: u32) = ?d"
    using lr d b by (simp add: utf8_first_mask utf8_lead_mod del: of_nat_add One_nat_def)
  have hd: "\<not> (ucast ?b :: u32) < 0x80"
    using sl by (rule utf8_seq_len_lead)
  have "utf8_cont_loop (pre @ (?b # utf8_digits l (unat c)) @ post) (Suc (length pre)) l
          (ucast ?b AND utf8_first_code_mask ! (l - 1))
        = Some (Some (c, Suc (length pre) + l))"
    using utf8_cont_loop_digits [of "ucast ?b AND utf8_first_code_mask ! (l - 1)" l
        "Suc (length pre)" "pre @ [?b]" "unat c" post] utf8_acc_room [OF lr d]
    by (simp only: m div_mult_mod_eq) simp
  moreover have "\<not> c < utf8_min_code ! (l - 1)"
    using utf8_class_min [OF c(2)] by (simp add: l_def word_less_nat_alt)
  moreover have "rd (pre @ (?b # utf8_digits l (unat c)) @ post) (length pre) = Some ?b"
    by (simp add: rd_def nth_append)
  ultimately show ?thesis
    using assms(2) sl hd unfolding unicode_from_utf8_def enc Let_def
    by (simp del: append_Cons of_nat_add)
qed

theorem unicode_utf8_roundtrip_witness:
  "unicode_from_utf8 ([7] @ unicode_to_utf8 0x20AC @ [1, 2]) 1 6 0 = Some (0x20AC, 4)"
  using unicode_utf8_roundtrip [of "0x20AC" 6 "[7]" "[1, 2]" 0]
  by (simp add: unicode_to_utf8_def)

text \<open>
  C5: the decoder accepts only the canonical encoding, and reads nothing outside the
  \<open>max_len\<close> bytes it is given. On any memory that holds them it returns, either -1 with the
  position unchanged, or a code together with a position such that the bytes in between are
  exactly those \<open>unicode_to_utf8\<close> writes for that code: overlong forms, lone continuation bytes
  and truncated sequences are refused.
\<close>

theorem unicode_from_utf8_canonical:
  assumes "1 \<le> max_len" "p + nat max_len \<le> length mem"
  shows "\<exists>r pp'. unicode_from_utf8 mem p max_len pp = Some (r, pp') \<and>
    (r = -1 \<and> pp' = pp
     \<or> 0 \<le> r \<and> r < 2 ^ 31 \<and> p < pp' \<and> pp' \<le> p + nat max_len
       \<and> take (pp' - p) (drop p mem) = unicode_to_utf8 (word_of_int r))"
proof -
  let ?b = "mem ! p"
  have p: "p < length mem" using assms by simp
  then have rd: "rd mem p = Some ?b" by simp
  consider "(ucast ?b :: u32) < 0x80" | "\<not> (ucast ?b :: u32) < 0x80" "utf8_seq_len (ucast ?b) = None"
    | l where "\<not> (ucast ?b :: u32) < 0x80" "utf8_seq_len (ucast ?b) = Some l"
    by (cases "utf8_seq_len (ucast ?b)") auto
  then show ?thesis
  proof cases
    case 1
    have "ucast (ucast ?b :: u32) = ?b"
      using unsigned_less [of ?b, where ?'a = nat]
      by (intro word_unat_eq_iff [THEN iffD2]) (simp add: unat_ucast_mod)
    moreover have "unicode_from_utf8 mem p max_len pp = Some (uint ?b, Suc p)"
      using 1 rd by (simp add: unicode_from_utf8_def)
    moreover have "uint ?b < 2 ^ 31" "Suc p \<le> p + nat max_len"
      using uint_bounded [of ?b] assms(1) by simp_all
    moreover have "take (Suc p - p) (drop p mem) = [?b]"
      using p by (simp add: Cons_nth_drop_Suc [symmetric])
    ultimately show ?thesis
      using 1 by (intro exI [of _ "uint ?b"] exI [of _ "Suc p"]) (simp add: unicode_to_utf8_def)
  next
    case 2
    with rd show ?thesis by (simp add: unicode_from_utf8_def)
  next
    case (3 l)
    show ?thesis
    proof (cases "int l > max_len - 1")
      case True
      with 3 rd show ?thesis by (simp add: unicode_from_utf8_def)
    next
      case False
      then have "p + l < length mem" "int l \<le> max_len - 1" "Suc p + l \<le> p + nat max_len"
        using assms by linarith+
      then show ?thesis
        using utf8_decode_seq [OF 3(2), of max_len pp] by force
    qed
  qed
qed

theorem unicode_from_utf8_canonical_witness:
  "\<exists>r pp'. unicode_from_utf8 [0xC0, 0x80, 0x41] 0 3 9 = Some (r, pp') \<and>
    (r = -1 \<and> pp' = 9
     \<or> 0 \<le> r \<and> r < 2 ^ 31 \<and> 0 < pp' \<and> pp' \<le> 0 + nat 3
       \<and> take (pp' - 0) (drop 0 [0xC0, 0x80, 0x41]) = unicode_to_utf8 (word_of_int r))"
  by (rule unicode_from_utf8_canonical) simp_all

end
