(* ===== verification/Re_Emit.thy ===== *)
theory Re_Emit
  imports Re_Exec Dyn_Buf Utf8 Char_Range
begin

text \<open>
  What the regular expression compiler is built from (libregexp.c): the parser state
  \<open>REParseState\<close>, the \<open>re_emit_*\<close> functions (lines 394 to 428), \<open>re_parse_error\<close>,
  \<open>parse_digits\<close>, \<open>re_parse_expect\<close>, \<open>lre_parse_escape\<close> (430 to 601), \<open>re_emit_range\<close> (821 to
  857) and the two code analyses \<open>re_check_advance\<close> and \<open>re_is_simple_quantifier\<close> (945 to 1071).

  The pattern is the block \<open>ps_buf\<close> with its terminating zero, and a pointer into it a position.
  The allocator behind \<open>lre_realloc\<close> is one state, \<open>ps_opaque\<close>, shared by both buffers and the
  character ranges; \<open>with_code\<close> and \<open>with_names\<close> run a buffer operation on it.
\<close>

section \<open>The parser state\<close>

record 'o re_parse_state =
  ps_byte_code :: "'o dynbuf"
  ps_buf :: "u8 list"
  ps_buf_ptr :: nat
  ps_buf_end :: nat
  ps_re_flags :: u32
  ps_is_utf16 :: bool
  ps_ignore_case :: bool
  ps_dotall :: bool
  ps_capture_count :: nat
  ps_total_capture_count :: int
  ps_has_named_captures :: int
  ps_opaque :: 'o
  ps_group_names :: "'o dynbuf"
  ps_u :: "u8 list"

definition TMP_BUF_SIZE :: nat where
  "TMP_BUF_SIZE = 128"

definition with_code ::
  "('o dynbuf \<Rightarrow> (int \<times> 'o dynbuf) option) \<Rightarrow> 'o re_parse_state \<Rightarrow> (int \<times> 'o re_parse_state) option"
where
  "with_code f s = do {
     (r, d) \<leftarrow> f ((ps_byte_code s)\<lparr>db_opaque := ps_opaque s\<rparr>);
     Some (r, s\<lparr>ps_byte_code := d, ps_opaque := db_opaque d\<rparr>)
   }"

definition with_names ::
  "('o dynbuf \<Rightarrow> (int \<times> 'o dynbuf) option) \<Rightarrow> 'o re_parse_state \<Rightarrow> (int \<times> 'o re_parse_state) option"
where
  "with_names f s = do {
     (r, d) \<leftarrow> f ((ps_group_names s)\<lparr>db_opaque := ps_opaque s\<rparr>);
     Some (r, s\<lparr>ps_group_names := d, ps_opaque := db_opaque d\<rparr>)
   }"

text \<open>\<open>byte_code.size\<close>, and the stores into \<open>byte_code.buf\<close>.\<close>

abbreviation code_size :: "'o re_parse_state \<Rightarrow> nat" where
  "code_size s \<equiv> db_size (ps_byte_code s)"

definition code_set :: "'o re_parse_state \<Rightarrow> nat \<Rightarrow> u8 \<Rightarrow> 'o re_parse_state option" where
  "code_set s pos v = do {
     b \<leftarrow> wr (block (db_buf (ps_byte_code s))) pos v;
     Some (s\<lparr>ps_byte_code := (ps_byte_code s)\<lparr>db_buf := Some b\<rparr>\<rparr>)
   }"

definition code_put_u32 :: "'o re_parse_state \<Rightarrow> nat \<Rightarrow> u32 \<Rightarrow> 'o re_parse_state option" where
  "code_put_u32 s pos v = do {
     b \<leftarrow> put_u32 (block (db_buf (ps_byte_code s))) pos v;
     Some (s\<lparr>ps_byte_code := (ps_byte_code s)\<lparr>db_buf := Some b\<rparr>\<rparr>)
   }"

text \<open>The text of an error message or of a group name in the union \<open>u\<close>.\<close>

definition c_chars :: "string \<Rightarrow> u8 list" where
  "c_chars str = map (\<lambda>ch. word_of_nat (of_char ch)) str"

definition re_parse_error :: "'o re_parse_state \<Rightarrow> string \<Rightarrow> int \<times> 'o re_parse_state" where
  "re_parse_error s msg = (let m = take (TMP_BUF_SIZE - 1) (c_chars msg) @ [0] in
       (-1, s\<lparr>ps_u := m @ drop (length m) (ps_u s)\<rparr>))"

definition re_parse_out_of_memory :: "'o re_parse_state \<Rightarrow> int \<times> 'o re_parse_state" where
  "re_parse_out_of_memory s = re_parse_error s ''out of memory''"

section \<open>Emission\<close>

definition op_byte :: "reop \<Rightarrow> u8" where
  "op_byte opcode = word_of_nat (reop_code opcode)"

text \<open>The results of the buffer operations are ignored; a failure is the buffer's error flag.\<close>

definition re_emit_op ::
  "'o realloc_func \<Rightarrow> 'o re_parse_state \<Rightarrow> reop \<Rightarrow> 'o re_parse_state option" where
  "re_emit_op rb s opcode = map_option snd (with_code (\<lambda>d. dbuf_putc rb d (op_byte opcode)) s)"

definition re_emit_u8 ::
  "'o realloc_func \<Rightarrow> 'o re_parse_state \<Rightarrow> u32 \<Rightarrow> 'o re_parse_state option" where
  "re_emit_u8 rb s val = map_option snd (with_code (\<lambda>d. dbuf_putc rb d (ucast val)) s)"

definition re_emit_u16 ::
  "'o realloc_func \<Rightarrow> 'o re_parse_state \<Rightarrow> u32 \<Rightarrow> 'o re_parse_state option" where
  "re_emit_u16 rb s val = map_option snd (with_code (\<lambda>d. dbuf_put_u16 rb d (ucast val)) s)"

definition re_emit_u32 ::
  "'o realloc_func \<Rightarrow> 'o re_parse_state \<Rightarrow> u32 \<Rightarrow> 'o re_parse_state option" where
  "re_emit_u32 rb s val = map_option snd (with_code (\<lambda>d. dbuf_put_u32 rb d val) s)"

definition re_emit_op_u32 ::
  "'o realloc_func \<Rightarrow> 'o re_parse_state \<Rightarrow> reop \<Rightarrow> u32 \<Rightarrow> (nat \<times> 'o re_parse_state) option" where
  "re_emit_op_u32 rb s opcode val = do {
     s \<leftarrow> re_emit_op rb s opcode;
     let pos = code_size s;
     s \<leftarrow> re_emit_u32 rb s val;
     Some (pos, s)
   }"

definition re_emit_goto ::
  "'o realloc_func \<Rightarrow> 'o re_parse_state \<Rightarrow> reop \<Rightarrow> u32 \<Rightarrow> (nat \<times> 'o re_parse_state) option" where
  "re_emit_goto rb s opcode val = do {
     s \<leftarrow> re_emit_op rb s opcode;
     let pos = code_size s;
     s \<leftarrow> re_emit_u32 rb s (val - word_of_nat (pos + 4));
     Some (pos, s)
   }"

definition re_emit_op_u8 ::
  "'o realloc_func \<Rightarrow> 'o re_parse_state \<Rightarrow> reop \<Rightarrow> u32 \<Rightarrow> 'o re_parse_state option" where
  "re_emit_op_u8 rb s opcode val = do {
     s \<leftarrow> re_emit_op rb s opcode;
     re_emit_u8 rb s val
   }"

definition re_emit_op_u16 ::
  "'o realloc_func \<Rightarrow> 'o re_parse_state \<Rightarrow> reop \<Rightarrow> u32 \<Rightarrow> 'o re_parse_state option" where
  "re_emit_op_u16 rb s opcode val = do {
     s \<leftarrow> re_emit_op rb s opcode;
     re_emit_u16 rb s val
   }"

text \<open>\<open>re_emit_range\<close>: the pairs of the array, at most 65534 of them, inclusive upper limits.\<close>

fun re_emit_pairs16 ::
  "'o realloc_func \<Rightarrow> 'o re_parse_state \<Rightarrow> u32 list \<Rightarrow> 'o re_parse_state option" where
  "re_emit_pairs16 rb s [] = Some s"
| "re_emit_pairs16 rb s [a] = None"
| "re_emit_pairs16 rb s (a # b # pts) = do {
     s \<leftarrow> re_emit_u16 rb s a;
     let high = b - 1;
     let high = (if high = UINT32_MAX - 1 then 0xffff else high);
     s \<leftarrow> re_emit_u16 rb s high;
     re_emit_pairs16 rb s pts
   }"

fun re_emit_pairs32 ::
  "'o realloc_func \<Rightarrow> 'o re_parse_state \<Rightarrow> u32 list \<Rightarrow> 'o re_parse_state option" where
  "re_emit_pairs32 rb s [] = Some s"
| "re_emit_pairs32 rb s [a] = None"
| "re_emit_pairs32 rb s (a # b # pts) = do {
     s \<leftarrow> re_emit_u32 rb s a;
     s \<leftarrow> re_emit_u32 rb s (b - 1);
     re_emit_pairs32 rb s pts
   }"

definition re_emit_range ::
  "'o realloc_func \<Rightarrow> 'o re_parse_state \<Rightarrow> char_range \<Rightarrow> (int \<times> 'o re_parse_state) option" where
  "re_emit_range rb s cr = do {
     let len = cr_len cr div 2;
     if len \<ge> 65535 then Some (re_parse_error s ''too many ranges'')
     else if len = 0 then do {
       (pos, s) \<leftarrow> re_emit_op_u32 rb s REOP_char32 (-1);
       Some (0, s)
     } else do {
       pts \<leftarrow> rd_block (block (cr_points cr)) 0 (cr_len cr);
       high \<leftarrow> rd pts (cr_len cr - 1);
       high \<leftarrow> (if high = UINT32_MAX then rd pts (cr_len cr - 2) else Some high);
       if high \<le> 0xffff then do {
         s \<leftarrow> re_emit_op_u16 rb s REOP_range (word_of_nat len);
         s \<leftarrow> re_emit_pairs16 rb s pts;
         Some (0, s)
       } else do {
         s \<leftarrow> re_emit_op_u16 rb s REOP_range32 (word_of_nat len);
         s \<leftarrow> re_emit_pairs32 rb s pts;
         Some (0, s)
       }
     }
   }"

section \<open>Numbers and escapes\<close>

definition is_digit :: "u8 \<Rightarrow> bool" where
  "is_digit c \<longleftrightarrow> 48 \<le> c \<and> c \<le> 57"

text \<open>
  \<open>parse_digits\<close>: the value or -1, and the new position. The loop runs over the text from \<open>p\<close> on.
\<close>

definition DIGITS_MAX :: nat where
  "DIGITS_MAX = 2 ^ 31 - 1"

fun parse_digits_loop :: "u8 list \<Rightarrow> nat \<Rightarrow> nat \<Rightarrow> bool \<Rightarrow> (int \<times> nat) option option" where
  "parse_digits_loop [] p v allow_overflow = None"
| "parse_digits_loop (c # m) p v allow_overflow =
     (if \<not> is_digit c then Some (Some (int v, p))
      else
        let v = v * 10 + unat c - 48 in
        if v \<ge> DIGITS_MAX then
          (if allow_overflow then parse_digits_loop m (Suc p) DIGITS_MAX allow_overflow else Some None)
        else parse_digits_loop m (Suc p) v allow_overflow)"

definition parse_digits :: "u8 list \<Rightarrow> nat \<Rightarrow> bool \<Rightarrow> (int \<times> nat) option" where
  "parse_digits buf p allow_overflow = do {
     r \<leftarrow> parse_digits_loop (drop p buf) p 0 allow_overflow;
     Some (case r of None \<Rightarrow> (-1, p) | Some (v, q) \<Rightarrow> (v, q))
   }"

text \<open>\<open>re_parse_expect\<close>: 0 and the position after the character, or -1.\<close>

definition re_parse_expect ::
  "'o re_parse_state \<Rightarrow> nat \<Rightarrow> char \<Rightarrow> (int \<times> nat \<times> 'o re_parse_state) option" where
  "re_parse_expect s p c = do {
     b \<leftarrow> rd (ps_buf s) p;
     if b \<noteq> word_of_nat (of_char c) then
       (let (r, s) = re_parse_error s (''expecting '' @ [CHR 0x27, c, CHR 0x27]) in Some (r, p, s))
     else Some (0, p + 1, s)
   }"

text \<open>The hexadecimal digits of an escape; the inner \<open>None\<close> is \<open>return -1\<close>.\<close>

fun escape_brace :: "u8 list \<Rightarrow> nat \<Rightarrow> u32 \<Rightarrow> (u32 \<times> nat) option option" where
  "escape_brace [] p c = None"
| "escape_brace (b # m) p c =
     (let h = from_hex (uint b) in
      if h < 0 then Some None
      else
        let c = push_bit 4 c OR word_of_int h in
        if c > 0x10FFFF then Some None
        else (case m of
                [] \<Rightarrow> None
              | d # _ \<Rightarrow> if d = 125 then Some (Some (c, Suc p)) else escape_brace m (Suc p) c))"

fun escape_fixed :: "nat \<Rightarrow> u8 list \<Rightarrow> nat \<Rightarrow> u32 \<Rightarrow> (u32 \<times> nat) option option" where
  "escape_fixed 0 buf p c = Some (Some (c, p))"
| "escape_fixed (Suc n) buf p c = do {
     b \<leftarrow> rd buf p;
     let h = from_hex (uint b);
     if h < 0 then Some None
     else escape_fixed n buf (p + 1) (push_bit 4 c OR word_of_int h)
   }"

definition escape_hex :: "u8 list \<Rightarrow> nat \<Rightarrow> bool \<Rightarrow> nat \<Rightarrow> (u32 \<times> nat) option option" where
  "escape_hex buf p is_x allow_utf16 = do {
     b \<leftarrow> rd buf p;
     if b = 123 \<and> allow_utf16 \<noteq> 0 then do {
       r \<leftarrow> escape_brace (drop (p + 1) buf) (p + 1) 0;
       Some (case r of None \<Rightarrow> None | Some (c, p) \<Rightarrow> Some (c, p + 1))
     } else do {
       r \<leftarrow> escape_fixed (if is_x then 2 else 4) buf p 0;
       (case r of
          None \<Rightarrow> Some None
        | Some (c, p) \<Rightarrow>
            if is_hi_surrogate c \<and> allow_utf16 = 2 then do {
              b0 \<leftarrow> rd buf p;
              if b0 \<noteq> 92 then Some (Some (c, p))
              else do {
                b1 \<leftarrow> rd buf (p + 1);
                if b1 \<noteq> 117 then Some (Some (c, p))
                else do {
                  r \<leftarrow> escape_fixed 4 buf (p + 2) 0;
                  (case r of
                     None \<Rightarrow> Some (Some (c, p))
                   | Some (c1, _) \<Rightarrow>
                       if is_lo_surrogate c1 then Some (Some (from_surrogate c c1, p + 6))
                       else Some (Some (c, p)))
                }
              }
            } else Some (Some (c, p)))
     }
   }"

text \<open>A legacy octal sequence, after its first digit.\<close>

definition escape_octal :: "u8 list \<Rightarrow> nat \<Rightarrow> u32 \<Rightarrow> (u32 \<times> nat) option" where
  "escape_octal buf p c = do {
     b \<leftarrow> rd buf p;
     let v = ucast b - 48;
     if v > 7 then Some (c, p)
     else do {
       let c = push_bit 3 c OR v;
       if c \<ge> 32 then Some (c, p + 1)
       else do {
         b \<leftarrow> rd buf (p + 1);
         let v = ucast b - 48;
         if v > 7 then Some (c, p + 1)
         else Some (push_bit 3 c OR v, p + 2)
       }
     }
   }"

text \<open>
  \<open>lre_parse_escape\<close>, \<open>p\<close> after the backslash: the code, -1 or -2, and the new position.
\<close>

definition lre_parse_escape :: "u8 list \<Rightarrow> nat \<Rightarrow> nat \<Rightarrow> (int \<times> nat) option" where
  "lre_parse_escape buf pp allow_utf16 = do {
     c \<leftarrow> rd buf pp;
     let p = pp + 1;
     if c = 98 then Some (8, p)
     else if c = 102 then Some (12, p)
     else if c = 110 then Some (10, p)
     else if c = 114 then Some (13, p)
     else if c = 116 then Some (9, p)
     else if c = 118 then Some (11, p)
     else if c = 120 \<or> c = 117 then do {
       r \<leftarrow> escape_hex buf p (c = 120) allow_utf16;
       Some (case r of None \<Rightarrow> (-1, pp) | Some (c, p) \<Rightarrow> (uint c, p))
     }
     else if 48 \<le> c \<and> c \<le> 55 then
       (if allow_utf16 = 2 then do {
          b \<leftarrow> rd buf p;
          if c \<noteq> 48 \<or> is_digit b then Some (-1, pp) else Some (0, p)
        } else do {
          (c, p) \<leftarrow> escape_octal buf p (ucast c - 48);
          Some (uint c, p)
        })
     else Some (-2, pp)
   }"

section \<open>Analyses of the emitted code\<close>

text \<open>The length of the instruction at \<open>pos\<close>, with the ranges that follow \<open>REOP_range\<close>.\<close>

definition instr_len :: "u8 list \<Rightarrow> nat \<Rightarrow> reop \<Rightarrow> nat option" where
  "instr_len bc_buf pos opcode =
     (if opcode = REOP_range then
        map_option (\<lambda>v. reop_size opcode + unat v * 4) (get_u16 bc_buf (pos + 1))
      else if opcode = REOP_range32 then
        map_option (\<lambda>v. reop_size opcode + unat v * 8) (get_u16 bc_buf (pos + 1))
      else Some (reop_size opcode))"

lemma instr_len_pos: "instr_len bc pos opcode = Some n \<Longrightarrow> 0 < n"
  by (auto simp: instr_len_def split: if_splits)

text \<open>The reset captures \<open>val\<close> up to, not including, \<open>last\<close>.\<close>

fun mark_captures :: "nat \<Rightarrow> nat \<Rightarrow> u8 list \<Rightarrow> u8 list option" where
  "mark_captures val 0 bm = Some bm"
| "mark_captures val (Suc n) bm = do {
     b \<leftarrow> rd bm val;
     bm \<leftarrow> wr bm val (b OR 1);
     mark_captures (val + 1) n bm
   }"

definition mark_capture :: "u8 list \<Rightarrow> nat \<Rightarrow> u8 \<Rightarrow> u8 list option" where
  "mark_capture bm val m = do {
     b \<leftarrow> rd bm val;
     wr bm val (b OR m)
   }"

function check_advance_loop ::
  "u8 list \<Rightarrow> nat \<Rightarrow> int \<Rightarrow> bool \<Rightarrow> u8 list \<Rightarrow> (int \<times> bool \<times> u8 list) option" where
  "check_advance_loop bc_buf pos ret has_ref bm =
     (if pos < length bc_buf then
        (case reop_of (unat (bc_buf ! pos)) of
           None \<Rightarrow> None
         | Some opcode \<Rightarrow>
             (case instr_len bc_buf pos opcode of
                None \<Rightarrow> None
              | Some n \<Rightarrow>
                  (case
                    (if opcode \<in> {REOP_range, REOP_range32, REOP_char, REOP_char32, REOP_dot, REOP_any} then
                       Some (if ret = -2 then 1 else ret, has_ref, bm)
                     else if opcode \<in> {REOP_line_start, REOP_line_end, REOP_push_i32, REOP_push_char_pos,
                       REOP_drop, REOP_word_boundary, REOP_not_word_boundary, REOP_prev} then
                       Some (ret, has_ref, bm)
                     else if opcode \<in> {REOP_save_start, REOP_save_end} then do {
                       val \<leftarrow> rd bc_buf (pos + 1);
                       bm \<leftarrow> mark_capture bm (unat val) 1;
                       Some (ret, has_ref, bm)
                     }
                     else if opcode = REOP_save_reset then do {
                       val \<leftarrow> rd bc_buf (pos + 1);
                       last \<leftarrow> rd bc_buf (pos + 2);
                       bm \<leftarrow> mark_captures (unat val) (unat last - unat val) bm;
                       Some (ret, has_ref, bm)
                     }
                     else if opcode \<in> {REOP_back_reference, REOP_backward_back_reference} then do {
                       val \<leftarrow> rd bc_buf (pos + 1);
                       bm \<leftarrow> mark_capture bm (unat val) 2;
                       Some (ret, True, bm)
                     }
                     else Some (if ret = -2 then 0 else ret, has_ref, bm)) of
                     None \<Rightarrow> None
                   | Some (ret, has_ref, bm) \<Rightarrow> check_advance_loop bc_buf (pos + n) ret has_ref bm)))
      else Some (ret, has_ref, bm))"
  by pat_completeness auto
termination
  by (relation "measure (\<lambda>(bc, pos, ret, has_ref, bm). length bc - pos)")
    (auto dest: instr_len_pos)

declare check_advance_loop.simps [simp del]

definition re_check_advance :: "u8 list \<Rightarrow> int option" where
  "re_check_advance bc_buf = do {
     (ret, has_ref, bm) \<leftarrow> check_advance_loop bc_buf 0 (-2) False (replicate CAPTURE_COUNT_MAX 0);
     Some (if has_ref \<and> 3 \<in> set bm then -1 else if ret = -2 then 0 else ret)
   }"

function simple_quantifier_loop :: "u8 list \<Rightarrow> nat \<Rightarrow> int \<Rightarrow> int option" where
  "simple_quantifier_loop bc_buf pos count =
     (if pos < length bc_buf then
        (case reop_of (unat (bc_buf ! pos)) of
           None \<Rightarrow> None
         | Some opcode \<Rightarrow>
             (case instr_len bc_buf pos opcode of
                None \<Rightarrow> None
              | Some n \<Rightarrow>
                  if opcode \<in> {REOP_range, REOP_range32, REOP_char, REOP_char32, REOP_dot, REOP_any}
                  then simple_quantifier_loop bc_buf (pos + n) (count + 1)
                  else if opcode \<in> {REOP_line_start, REOP_line_end, REOP_word_boundary, REOP_not_word_boundary}
                  then simple_quantifier_loop bc_buf (pos + n) count
                  else Some (-1)))
      else Some count)"
  by pat_completeness auto
termination
  by (relation "measure (\<lambda>(bc, pos, count). length bc - pos)")
    (auto dest: instr_len_pos)

declare simple_quantifier_loop.simps [simp del]

definition re_is_simple_quantifier :: "u8 list \<Rightarrow> int option" where
  "re_is_simple_quantifier bc_buf = simple_quantifier_loop bc_buf 0 0"

end
