(* ===== verification/Re_Escapes.thy ===== *)
theory Re_Escapes
  imports Re_Emit
begin

text \<open>
  The lexical functions of the regular expression compiler on a zero-terminated pattern:
  \<open>parse_digits\<close> computes the saturated decimal value, \<open>lre_parse_escape\<close> never reads past the
  terminating zero and gives a code point, and the escapes written by \<open>js_escape\<close> are read back.
\<close>

section \<open>Numbers\<close>

definition decimal :: "nat \<Rightarrow> u8 list \<Rightarrow> nat" where
  "decimal v ds = foldl (\<lambda>v c. v * 10 + (unat c - 48)) v ds"

lemma decimal_simps [simp]:
  "decimal v [] = v" "decimal v (c # ds) = decimal (v * 10 + (unat c - 48)) ds"
  by (simp_all add: decimal_def)

lemma decimal_mono: "v \<le> w \<Longrightarrow> decimal v ds \<le> decimal w ds"
  by (induction ds arbitrary: v w) (auto intro: add_mono)

lemma decimal_ge: "v \<le> decimal v ds"
proof (induction ds arbitrary: v)
  case (Cons c ds)
  have "v \<le> v * 10 + (unat c - 48)" by simp
  also have "\<dots> \<le> decimal v (c # ds)" using Cons.IH by simp
  finally show ?case .
qed simp

lemma is_digit_ge: "is_digit c \<Longrightarrow> 48 \<le> unat c"
  by (simp add: is_digit_def word_le_nat_alt)

text \<open>Where the digits from a position end.\<close>

lemma parse_digits_loop_value:
  assumes "takeWhile is_digit m \<noteq> m" "v \<le> DIGITS_MAX" "v < DIGITS_MAX \<or> ov"
  shows "parse_digits_loop m p v ov =
    Some (if decimal v (takeWhile is_digit m) \<ge> DIGITS_MAX \<and> \<not> ov then None
          else Some (int (min (decimal v (takeWhile is_digit m)) DIGITS_MAX),
                     p + length (takeWhile is_digit m)))"
  using assms
proof (induction m arbitrary: p v)
  case (Cons c m)
  show ?case
  proof (cases "is_digit c")
    case False
    with Cons.prems show ?thesis by (auto simp: min_def)
  next
    case True
    let ?w = "v * 10 + (unat c - 48)"
    have w: "v * 10 + unat c - 48 = ?w" using is_digit_ge [OF True] by simp
    have tw: "takeWhile is_digit m \<noteq> m" using Cons.prems(1) True by simp
    show ?thesis
    proof (cases "?w \<ge> DIGITS_MAX")
      case small: False
      with Cons.IH [OF tw, of ?w "Suc p"] True show ?thesis
        by (simp add: w Let_def)
    next
      case big: True
      then have "decimal ?w (takeWhile is_digit m) \<ge> DIGITS_MAX"
        using decimal_ge [of ?w] order_trans by blast
      moreover have "decimal DIGITS_MAX (takeWhile is_digit m) \<ge> DIGITS_MAX"
        by (rule decimal_ge)
      ultimately show ?thesis
        using Cons.IH [OF tw, of DIGITS_MAX "Suc p"] True big
        by (cases ov) (simp_all add: w Let_def min_def)
    qed
  qed
qed simp

text \<open>
  C17: \<open>parse_digits\<close> reads the longest run of decimal digits and moves behind it; its value is the
  number they write, saturated at \<open>INT32_MAX\<close> when overflow is allowed, and otherwise -1, with
  the position unchanged, for a number of \<open>INT32_MAX\<close> or more.
\<close>

theorem parse_digits_value:
  assumes "takeWhile is_digit (drop p buf) = ds" "p + length ds < length buf"
  shows "parse_digits buf p allow_overflow =
    Some (if decimal 0 ds \<ge> DIGITS_MAX \<and> \<not> allow_overflow then (-1, p)
          else (int (min (decimal 0 ds) DIGITS_MAX), p + length ds))"
proof -
  have "takeWhile is_digit (drop p buf) \<noteq> drop p buf"
    using assms by (metis add.commute less_diff_conv length_drop less_irrefl)
  then show ?thesis
    using parse_digits_loop_value [of "drop p buf" 0 allow_overflow p] assms(1)
    by (simp add: parse_digits_def DIGITS_MAX_def)
qed

theorem parse_digits_value_witness:
  "parse_digits [123, 52, 50, 44, 0] 1 True =
     Some (if decimal 0 [52, 50] \<ge> DIGITS_MAX \<and> \<not> True then (-1, 1)
           else (int (min (decimal 0 [52, 50]) DIGITS_MAX), 1 + length [52 :: u8, 50]))"
  by (rule parse_digits_value) (simp_all add: is_digit_def)

section \<open>Escapes stay inside the pattern\<close>

definition terminated :: "u8 list \<Rightarrow> nat \<Rightarrow> bool" where
  "terminated buf p \<longleftrightarrow> 0 \<in> set (drop p buf)"

lemma terminated_rd:
  assumes "terminated buf p"
  obtains b where "rd buf p = Some b" "p < length buf" "buf ! p = b" "b \<noteq> 0 \<Longrightarrow> terminated buf (p + 1)"
proof -
  have p: "p < length buf" using assms by (cases "p < length buf") (auto simp: terminated_def)
  then have "drop p buf = buf ! p # drop (p + 1) buf" by (simp add: Cons_nth_drop_Suc)
  with assms p show thesis by (intro that [of "buf ! p"]) (auto simp: terminated_def)
qed

lemma terminated_next: "terminated buf p \<Longrightarrow> rd buf p = Some b \<Longrightarrow> b \<noteq> 0 \<Longrightarrow> terminated buf (p + 1)"
  by (erule terminated_rd) simp

lemma from_hex_zero [simp]: "from_hex 0 = -1"
  by (simp add: from_hex_def)

lemma from_hex_bounds: "from_hex c < 16" "-1 \<le> from_hex c"
  by (auto simp: from_hex_def)

lemma unat_hex:
  assumes "0 \<le> from_hex c"
  shows "unat (word_of_int (from_hex c) :: u32) = nat (from_hex c)"
proof -
  have "unat (word_of_nat (nat (from_hex c)) :: u32) = nat (from_hex c)"
  proof -
    have "nat (from_hex c) < 16" using from_hex_bounds(1) [of c] by (simp add: nat_less_iff)
    then show ?thesis by (simp only: unat_of_nat) simp
  qed
  moreover have "word_of_nat (nat (from_hex c)) = (word_of_int (from_hex c) :: u32)"
    using assms by (metis int_nat_eq of_int_of_nat_eq)
  ultimately show ?thesis by simp
qed

lemma escape_fixed_ok:
  assumes "terminated buf p" "unat c < 16 ^ k" "k + n \<le> 4"
  shows "\<exists>r. escape_fixed n buf p c = Some r \<and>
     (\<forall>c' q. r = Some (c', q) \<longrightarrow> q = p + n \<and> terminated buf q \<and> unat c' < 16 ^ (k + n))"
  using assms
proof (induction n arbitrary: p c k)
  case (Suc n)
  obtain b where b: "rd buf p = Some b" "b \<noteq> 0 \<Longrightarrow> terminated buf (p + 1)"
    using terminated_rd [OF Suc.prems(1)] by blast
  show ?case
  proof (cases "from_hex (uint b) < 0")
    case True
    with b show ?thesis by simp
  next
    case False
    then have t: "terminated buf (p + 1)" using b(2) by (cases "b = 0") auto
    let ?h = "word_of_int (from_hex (uint b)) :: u32"
    have h: "unat ?h < 16"
      using from_hex_bounds [of "uint b"] False by (simp add: unat_hex nat_less_iff)
    have k: "(16 :: nat) ^ k \<le> 16 ^ 3" by (rule power_increasing) (use Suc.prems(3) in auto)
    then have "unat c * 16 + unat ?h < 2 ^ 32" using Suc.prems(2) h by simp
    then have "unat (push_bit 4 c OR ?h) = unat c * 16 + unat ?h"
      using unat_shl_or [of ?h 4 c] h by simp
    then have "unat (push_bit 4 c OR ?h) < 16 ^ Suc k" using Suc.prems(2) h by simp
    with Suc.IH [OF t, of "push_bit 4 c OR ?h" "Suc k"] Suc.prems(3) b False show ?thesis
      by auto
  qed
qed auto

lemma drop_rd: "drop p buf = b # m \<Longrightarrow> rd buf p = Some b \<and> drop (p + 1) buf = m"
  by (metis Cons_nth_drop_Suc Suc_eq_plus1 drop_eq_Nil list.distinct(1) list.inject not_le rd_nth)

lemma escape_brace_ok:
  assumes "terminated buf p" "drop p buf = m"
  shows "\<exists>r. escape_brace m p c = Some r \<and>
     (\<forall>c' q. r = Some (c', q) \<longrightarrow> p < q \<and> terminated buf (q + 1) \<and> c' \<le> 0x10FFFF)"
  using assms
proof (induction m p c rule: escape_brace.induct)
  case (1 p c)
  then show ?case by (simp add: terminated_def)
next
  case (2 b m p c)
  have rb: "rd buf p = Some b" "drop (p + 1) buf = m" using drop_rd [OF 2(3)] by auto
  show ?case
  proof (cases "from_hex (uint b) < 0 \<or> push_bit 4 c OR word_of_int (from_hex (uint b)) > (0x10FFFF :: u32)")
    case True
    then show ?thesis by (auto simp: Let_def)
  next
    case False
    have "b \<noteq> 0" using False by auto
    then have t: "terminated buf (p + 1)" by (rule terminated_next [OF 2(2) rb(1)])
    then obtain d m' where m: "m = d # m'" using rb(2) by (cases m) (auto simp: terminated_def)
    have d: "drop (Suc p) buf = d # m'" using rb(2) m by simp
    show ?thesis
    proof (cases "d = 125")
      case True
      have "rd buf (p + 1) = Some d" using drop_rd [OF d] by simp
      then have "terminated buf (p + 1 + 1)" using terminated_next [OF t] True by simp
      with True False m show ?thesis by (auto simp: Let_def not_less)
    next
      case not_close: False
      from 2(1) [of "from_hex (uint b)" "push_bit 4 c OR word_of_int (from_hex (uint b))" d m'] False m not_close t rb(2)
      obtain r where "escape_brace m (Suc p) (push_bit 4 c OR word_of_int (from_hex (uint b))) = Some r"
        "\<forall>c' q. r = Some (c', q) \<longrightarrow> Suc p < q \<and> terminated buf (q + 1) \<and> c' \<le> 0x10FFFF"
        by auto
      with m not_close False show ?thesis by (auto simp: Let_def not_less)
    qed
  qed
qed

lemma from_surrogate_le: "from_surrogate hi lo \<le> 0x10FFFF"
proof -
  have m: "unat (hi AND 0x3ff) < 2 ^ 10" "unat (lo AND 0x3ff) < 2 ^ 10"
    by (simp_all only: and_mask_take_bit unat_mask) simp_all
  have "unat (push_bit 10 (hi AND 0x3ff) OR (lo AND 0x3ff)) = unat (hi AND 0x3ff) * 2 ^ 10 + unat (lo AND 0x3ff)"
    using m by (intro unat_shl_or) auto
  then have "unat (push_bit 10 (hi AND 0x3ff) OR (lo AND 0x3ff)) \<le> 0xFFFFF" using m by simp
  then show ?thesis
    by (simp add: from_surrogate_def word_le_nat_alt unat_word_ariths)
qed

text \<open>What an escape function may return: the inner \<open>None\<close>, or a code point and a position inside.\<close>

definition escape_ok :: "u8 list \<Rightarrow> nat \<Rightarrow> (u32 \<times> nat) option option \<Rightarrow> bool" where
  "escape_ok buf p res \<longleftrightarrow>
     (\<exists>r. res = Some r \<and> (\<forall>c q. r = Some (c, q) \<longrightarrow> p \<le> q \<and> terminated buf q \<and> c \<le> 0x10FFFF))"

lemma escape_okI:
  "escape_ok buf p (Some None)"
  "p \<le> q \<Longrightarrow> terminated buf q \<Longrightarrow> c \<le> 0x10FFFF \<Longrightarrow> escape_ok buf p (Some (Some (c, q)))"
  by (simp_all add: escape_ok_def)

lemma escape_hex_ok:
  assumes "terminated buf p"
  shows "escape_ok buf p (escape_hex buf p is_x m)"
proof -
  obtain b where b: "rd buf p = Some b" using terminated_rd [OF assms] by blast
  show ?thesis
  proof (cases "b = 123 \<and> m \<noteq> 0")
    case True
    then have t: "terminated buf (p + 1)" using terminated_next [OF assms b] by simp
    obtain r where "escape_brace (drop (p + 1) buf) (p + 1) 0 = Some r"
      "\<forall>c' q. r = Some (c', q) \<longrightarrow> p + 1 < q \<and> terminated buf (q + 1) \<and> c' \<le> 0x10FFFF"
      using escape_brace_ok [OF t refl] by blast
    with b True show ?thesis
      by (auto simp: escape_hex_def escape_ok_def split: option.splits)
  next
    case False
    let ?n = "if is_x then 2 else 4 :: nat"
    obtain r where r: "escape_fixed ?n buf p 0 = Some r"
      "\<And>c' q. r = Some (c', q) \<Longrightarrow> q = p + ?n \<and> terminated buf q \<and> unat c' < 16 ^ ?n"
    proof -
      have n: "0 + ?n \<le> 4" and z: "unat (0 :: u32) < 16 ^ 0" by simp_all
      show thesis using escape_fixed_ok [OF assms z n] that by auto
    qed
    show ?thesis
    proof (cases r)
      case None
      with r(1) b False show ?thesis by (auto simp: escape_hex_def escape_okI)
    next
      case (Some x)
      obtain c q where x: "x = (c, q)" by force
      with Some r(2) have q: "p \<le> q" "terminated buf q" "unat c < 16 ^ ?n" by auto
      then have c: "c \<le> 0x10FFFF" by (auto simp: word_le_nat_alt split: if_splits)
      obtain b0 where b0: "rd buf q = Some b0" using terminated_rd [OF q(2)] by blast
      have base: "escape_hex buf p is_x m =
        (if is_hi_surrogate c \<and> m = 2 \<and> b0 = 92 then do {
           b1 \<leftarrow> rd buf (q + 1);
           if b1 \<noteq> 117 then Some (Some (c, q))
           else do {
             r \<leftarrow> escape_fixed 4 buf (q + 2) 0;
             (case r of
                None \<Rightarrow> Some (Some (c, q))
              | Some (c1, _) \<Rightarrow>
                  if is_lo_surrogate c1 then Some (Some (from_surrogate c c1, q + 6))
                  else Some (Some (c, q)))
           }
         } else Some (Some (c, q)))"
        using b r(1) Some x False b0 by (auto simp: escape_hex_def)
      show ?thesis
      proof (cases "is_hi_surrogate c \<and> m = 2 \<and> b0 = 92")
        case no: False
        then have "escape_hex buf p is_x m = Some (Some (c, q))" using base by (simp only: if_False)
        then show ?thesis using q c by (simp add: escape_okI)
      next
        case yes: True
        then have t1: "terminated buf (q + 1)" using terminated_next [OF q(2) b0] by simp
        then obtain b1 where b1: "rd buf (q + 1) = Some b1" using terminated_rd by blast
        show ?thesis
        proof (cases "b1 = 117")
          case no: False
          then show ?thesis using base yes b1 q c by (simp add: escape_okI)
        next
          case u: True
          then have t2: "terminated buf (q + 2)" using terminated_next [OF t1 b1] by simp
          obtain r2 where r2: "escape_fixed 4 buf (q + 2) 0 = Some r2"
            "\<And>c' q'. r2 = Some (c', q') \<Longrightarrow> q' = q + 2 + 4 \<and> terminated buf q'"
            using escape_fixed_ok [OF t2, of 0 0 4] by auto
          then show ?thesis using base yes b1 u q c from_surrogate_le
            by (auto simp: escape_ok_def add.commute [of q 6] split: option.splits)
        qed
      qed
    qed
  qed
qed

lemma escape_octal_ok:
  assumes "terminated buf p" "unat c \<le> 7"
  shows "\<exists>c' q. escape_octal buf p c = Some (c', q) \<and> p \<le> q \<and> terminated buf q \<and> c' \<le> 0x10FFFF"
proof -
  have oct: "unat (push_bit 3 d OR v) = unat d * 8 + unat v" if "unat v \<le> 7" "unat d \<le> 255" for d v :: u32
    using unat_shl_or [of v 3 d] that by simp
  obtain b where b: "rd buf p = Some b" using terminated_rd [OF assms(1)] by blast
  let ?v = "ucast b - 48 :: u32"
  show ?thesis
  proof (cases "?v > 7")
    case True
    with b assms show ?thesis by (auto simp: escape_octal_def word_le_nat_alt)
  next
    case False
    then have "b \<noteq> 0" by auto
    then have t1: "terminated buf (p + 1)" by (rule terminated_next [OF assms(1) b])
    let ?c = "push_bit 3 c OR ?v"
    have v: "unat ?v \<le> 7" using False by (simp add: word_le_nat_alt not_less)
    have c: "unat ?c \<le> 63" using oct [OF v, of c] v assms(2) by simp
    obtain b1 where b1: "rd buf (p + 1) = Some b1" using terminated_rd [OF t1] by blast
    let ?v1 = "ucast b1 - 48 :: u32"
    show ?thesis
    proof (cases "?c \<ge> 32 \<or> ?v1 > 7")
      case True
      with b False b1 t1 c show ?thesis by (auto simp: escape_octal_def Let_def word_le_nat_alt)
    next
      case more: False
      then have "b1 \<noteq> 0" by auto
      then have t2: "terminated buf (p + 2)" using terminated_next [OF t1 b1] by simp
      have v1: "unat ?v1 \<le> 7" using more by (simp add: word_le_nat_alt not_less)
      have "unat (push_bit 3 ?c OR ?v1) \<le> 511" using oct [OF v1, of ?c] c v1 by simp
      with b False b1 more t2 show ?thesis by (auto simp: escape_octal_def Let_def word_le_nat_alt)
    qed
  qed
qed

text \<open>
  C16: \<open>lre_parse_escape\<close> on a zero-terminated pattern, in each of its three modes: it never reads
  past the terminating zero; a recognised escape gives a code point, at most \<open>0x10FFFF\<close>, and a
  later position at or before the zero, and a malformed (-1) or unknown (-2) one leaves the
  position alone.
\<close>

theorem lre_parse_escape_safe:
  assumes "terminated buf p"
  shows "\<exists>v q. lre_parse_escape buf p allow_utf16 = Some (v, q) \<and>
           (v = -1 \<and> q = p \<or> v = -2 \<and> q = p \<or>
            0 \<le> v \<and> v \<le> 0x10FFFF \<and> p < q \<and> terminated buf q)"
proof -
  obtain c where c: "rd buf p = Some c" using terminated_rd [OF assms] by blast
  have next_ok: "terminated buf (p + 1)" if "c \<noteq> 0" by (rule terminated_next [OF assms c that])
  have le: "uint w \<le> 0x10FFFF" if "w \<le> 0x10FFFF" for w :: u32
    using that by (simp add: word_le_def)
  consider "c \<in> {98, 102, 110, 114, 116, 118}" | "c = 120 \<or> c = 117" | "48 \<le> c \<and> c \<le> 55"
    | "c \<notin> {98, 102, 110, 114, 116, 118, 120, 117} \<and> \<not> (48 \<le> c \<and> c \<le> 55)" by auto
  then show ?thesis
  proof cases
    case 1
    then show ?thesis using c next_ok by (auto simp: lre_parse_escape_def)
  next
    case 2
    then have t: "terminated buf (p + 1)" using next_ok by auto
    obtain r where r: "escape_hex buf (p + 1) (c = 120) allow_utf16 = Some r"
      "\<And>w q. r = Some (w, q) \<Longrightarrow> p + 1 \<le> q \<and> terminated buf q \<and> w \<le> 0x10FFFF"
      using escape_hex_ok [OF t] unfolding escape_ok_def by metis
    show ?thesis
      using 2 c r le by (cases r) (force simp: lre_parse_escape_def)+
  next
    case 3
    then have "c \<noteq> 0" by (auto simp: word_le_nat_alt)
    then have t: "terminated buf (p + 1)" by (rule next_ok)
    obtain b where b: "rd buf (p + 1) = Some b" using terminated_rd [OF t] by blast
    have d: "unat (ucast c - 48 :: u32) \<le> 7"
    proof -
      have "48 \<le> (ucast c :: u32)" "unat (ucast c :: u32) \<le> 55"
        using 3 by (auto simp: word_le_nat_alt)
      then show ?thesis by (simp add: unat_sub)
    qed
    obtain w q where "escape_octal buf (p + 1) (ucast c - 48) = Some (w, q)" "p + 1 \<le> q" "terminated buf q"
      "w \<le> 0x10FFFF"
      using escape_octal_ok [OF t d] by blast
    with 3 c b t le show ?thesis
      by (cases "allow_utf16 = 2") (auto simp: lre_parse_escape_def)
  next
    case 4
    then show ?thesis using c by (auto simp: lre_parse_escape_def)
  qed
qed

text \<open>\<open>u{1F600}\<close>, in a pattern with the flag u.\<close>

theorem lre_parse_escape_safe_witness:
  "\<exists>v q. lre_parse_escape [117, 123, 49, 70, 54, 48, 48, 125, 0] 0 2 = Some (v, q) \<and>
     (v = -1 \<and> q = 0 \<or> v = -2 \<and> q = 0 \<or>
      0 \<le> v \<and> v \<le> 0x10FFFF \<and> 0 < q \<and> terminated [117, 123, 49, 70, 54, 48, 48, 125, 0] q)"
  by (rule lre_parse_escape_safe) (simp add: terminated_def)

section \<open>Escapes are read back\<close>

definition hex_digit :: "nat \<Rightarrow> u8" where
  "hex_digit n = (if n < 10 then word_of_nat (48 + n) else word_of_nat (87 + n))"

lemma from_hex_digit:
  assumes "n < 16"
  shows "from_hex (uint (hex_digit n)) = int n"
proof -
  have "unat (hex_digit n) = (if n < 10 then 48 + n else 87 + n)"
    using assms by (simp add: hex_digit_def del: of_nat_add)
  then have "uint (hex_digit n) = int (if n < 10 then 48 + n else 87 + n)" by (simp only: uint_nat)
  then show ?thesis using assms by (simp add: from_hex_def)
qed

definition hex_value :: "nat \<Rightarrow> nat list \<Rightarrow> nat" where
  "hex_value a hs = foldl (\<lambda>a h. a * 16 + h) a hs"

lemma escape_fixed_hex:
  assumes "\<forall>h \<in> set hs. h < 16" "a < 16 ^ k" "k + length hs \<le> 4"
  shows "escape_fixed (length hs) (pre @ map hex_digit hs @ r) (length pre) (word_of_nat a)
           = Some (Some (word_of_nat (hex_value a hs), length pre + length hs))"
  using assms
proof (induction hs arbitrary: pre a k)
  case (Cons h hs)
  have h: "h < 16" using Cons.prems(1) by simp
  have k: "(16 :: nat) ^ k \<le> 16 ^ 3" by (rule power_increasing) (use Cons.prems(3) in auto)
  have a: "a * 16 + h < 16 ^ Suc k" using Cons.prems(2) h by simp
  have "unat (word_of_nat a :: u32) = a" "unat (word_of_nat h :: u32) = h"
    using Cons.prems(2) k h by (simp_all add: unat_of_nat)
  then have "unat (push_bit 4 (word_of_nat a) OR word_of_nat h :: u32) = a * 16 + h"
    using unat_shl_or [of "word_of_nat h :: u32" 4 "word_of_nat a"] Cons.prems(2) k h by simp
  then have w: "push_bit 4 (word_of_nat a) OR word_of_nat h = (word_of_nat (a * 16 + h) :: u32)"
    by (rule eq_word_of_nat)
  have rd: "rd (pre @ hex_digit h # map hex_digit hs @ r) (length pre) = Some (hex_digit h)"
    by (simp add: rd_def)
  have "escape_fixed (length hs) ((pre @ [hex_digit h]) @ map hex_digit hs @ r) (length (pre @ [hex_digit h]))
          (word_of_nat (a * 16 + h))
        = Some (Some (word_of_nat (hex_value (a * 16 + h) hs), length (pre @ [hex_digit h]) + length hs))"
    using Cons.prems by (intro Cons.IH [OF _ a]) auto
  then show ?case
    using rd from_hex_digit [OF h] w by (simp add: hex_value_def Let_def)
qed (simp add: hex_value_def)

definition hex4 :: "nat \<Rightarrow> nat list" where
  "hex4 c = [c div 4096 mod 16, c div 256 mod 16, c div 16 mod 16, c mod 16]"

lemma hex4_length [simp]: "length (hex4 c) = 4"
  by (simp add: hex4_def)

lemma hex4_first: "p = length xs \<Longrightarrow> \<exists>b. rd (xs @ map hex_digit (hex4 c) @ r) p = Some b \<and> b \<noteq> 123"
proof -
  have "hex_digit n \<noteq> 123" if "n < 16" for n
    using from_hex_digit [OF that] by (auto simp: from_hex_def)
  then show "p = length xs \<Longrightarrow> ?thesis"
    by (auto simp: rd_def hex4_def nth_append)
qed

lemma hex4_value:
  assumes "c < 65536"
  shows "hex_value 0 (hex4 c) = c"
proof -
  have d: "c div 256 = c div 16 div 16" "c div 4096 = c div 256 div 16" by (simp_all add: div_mult2_eq)
  have "c div 4096 mod 16 * 16 + c div 256 mod 16 = c div 256"
    using assms div_mult_mod_eq [of "c div 256" 16] unfolding d(2) by simp
  moreover have "c div 256 * 16 + c div 16 mod 16 = c div 16"
    using div_mult_mod_eq [of "c div 16" 16] unfolding d(1) .
  ultimately show ?thesis
    using div_mult_mod_eq [of c 16] by (simp only: hex_value_def hex4_def foldl.simps mult_0 add_0)
qed

lemma escape_fixed_hex4:
  assumes "c < 65536"
  shows "escape_fixed 4 (pre @ map hex_digit (hex4 c) @ r) (length pre) 0
           = Some (Some (word_of_nat c, length pre + 4))"
proof -
  have "length (hex4 c) = 4" "\<forall>h \<in> set (hex4 c). h < 16" by (simp_all add: hex4_def)
  then show ?thesis
    using escape_fixed_hex [of "hex4 c" 0 0 pre r] hex4_value [OF assms] by (simp del: escape_fixed.simps)
qed

text \<open>How a code point is written with the escapes of a pattern: one \<open>\u\<close> or a surrogate pair.\<close>

definition js_escape :: "nat \<Rightarrow> u8 list" where
  "js_escape c =
     (if c < 0x10000 then 117 # map hex_digit (hex4 c)
      else 117 # map hex_digit (hex4 (0xd800 + (c - 0x10000) div 1024)) @
           [92, 117] @ map hex_digit (hex4 (0xdc00 + (c - 0x10000) mod 1024)))"

lemma from_surrogate_pair:
  assumes "0x10000 \<le> c" "c \<le> 0x10FFFF"
  shows "from_surrogate (word_of_nat (0xd800 + (c - 0x10000) div 1024))
           (word_of_nat (0xdc00 + (c - 0x10000) mod 1024)) = word_of_nat c"
proof -
  let ?n = "c - 0x10000"
  have q: "?n div 1024 < 1024" using assms by simp
  have n32: "?n < 4294967296" using assms by simp
  have "?n mod 1024 < 1024" by simp
  then have lo32: "0xdc00 + ?n mod 1024 < 2 ^ LENGTH(32)" by simp
  have "(0xd800 + ?n div 1024) mod 1024 = (?n div 1024) mod 1024"
    using mod_mult_self3 [of 54 1024 "?n div 1024"] by simp
  moreover have "(0xdc00 + ?n mod 1024) mod 1024 = ?n mod 1024"
    using mod_mult_self3 [of 55 1024 "?n mod 1024"] by simp
  ultimately have
    "unat ((word_of_nat (0xd800 + ?n div 1024) :: u32) AND 0x3ff) = ?n div 1024"
    "unat ((word_of_nat (0xdc00 + ?n mod 1024) :: u32) AND 0x3ff) = ?n mod 1024"
    using q lo32 by (simp_all only: and_mask_take_bit unat_mask unat_of_nat) (simp_all add: mod_less)
  moreover from this have
    "unat (push_bit 10 ((word_of_nat (0xd800 + ?n div 1024) :: u32) AND 0x3ff)
       OR ((word_of_nat (0xdc00 + ?n mod 1024) :: u32) AND 0x3ff)) = ?n div 1024 * 2 ^ 10 + ?n mod 1024"
    using q n32 by (subst unat_shl_or) auto
  ultimately have "unat (from_surrogate (word_of_nat (0xd800 + ?n div 1024)) (word_of_nat (0xdc00 + ?n mod 1024))) = c"
    using assms by (simp add: from_surrogate_def unat_word_ariths)
  then show ?thesis by (rule eq_word_of_nat)
qed

lemma escape_hex_single:
  assumes "rd buf p = Some b" "b \<noteq> 123" "escape_fixed 4 buf p 0 = Some (Some (c, q))" "\<not> is_hi_surrogate c"
  shows "escape_hex buf p False 2 = Some (Some (c, q))"
  using assms by (simp add: escape_hex_def del: escape_fixed.simps)

lemma escape_hex_pair:
  assumes "rd buf p = Some b" "b \<noteq> 123" "escape_fixed 4 buf p 0 = Some (Some (c, q))" "is_hi_surrogate c"
    and "rd buf q = Some 92" "rd buf (q + 1) = Some 117"
    and "escape_fixed 4 buf (q + 2) 0 = Some (Some (c1, z))" "is_lo_surrogate c1"
  shows "escape_hex buf p False 2 = Some (Some (from_surrogate c c1, q + 6))"
  using assms by (simp add: escape_hex_def del: escape_fixed.simps)

text \<open>
  C15: writing a code point that is not a surrogate as \<open>\uXXXX\<close>, or above the basic plane as an
  escaped surrogate pair, and reading it back with \<open>lre_parse_escape\<close> in the mode of the flag u
  gives the same code point and the position after the escape, whatever surrounds it.
\<close>

theorem lre_parse_escape_roundtrip:
  assumes "c \<le> 0x10FFFF" "\<not> (0xd800 \<le> c \<and> c < 0xe000)"
  shows "lre_parse_escape (pre @ js_escape c @ r) (length pre) 2
           = Some (int c, length pre + length (js_escape c))"
proof (cases "c < 0x10000")
  case True
  let ?buf = "(pre @ [117]) @ map hex_digit (hex4 c) @ r"
  have f: "escape_fixed 4 ?buf (length pre + 1) 0 = Some (Some (word_of_nat c, length pre + 5))"
    using escape_fixed_hex4 [of c "pre @ [117]" r] True by (simp del: escape_fixed.simps)
  have ns: "\<not> is_hi_surrogate (word_of_nat c)"
    using assms(2) True by (auto simp: is_hi_surrogate_def word_le_nat_alt word_less_nat_alt unat_of_nat)
  obtain b where b: "rd ?buf (length pre + 1) = Some b" "b \<noteq> 123"
    using hex4_first [of "length pre + 1" "pre @ [117]" c r] by auto
  have c: "uint (word_of_nat c :: u32) = int c"
    using True by (simp add: uint_nat unat_of_nat)
  have "escape_hex ?buf (length pre + 1) False 2 = Some (Some (word_of_nat c, length pre + 5))"
    by (rule escape_hex_single [OF b f ns])
  moreover have "rd ?buf (length pre) = Some 117" by (simp add: rd_def nth_append)
  ultimately have "lre_parse_escape ?buf (length pre) 2 = Some (int c, length pre + 5)"
    unfolding lre_parse_escape_def by (simp only: Option.bind.bind_lunit Let_def) (simp add: c)
  with True show ?thesis by (simp add: js_escape_def)
next
  case False
  let ?hi = "0xd800 + (c - 0x10000) div 1024" and ?lo = "0xdc00 + (c - 0x10000) mod 1024"
  let ?H = "map hex_digit (hex4 ?hi)" and ?L = "map hex_digit (hex4 ?lo)"
  let ?buf = "(pre @ [117]) @ ?H @ [92, 117] @ ?L @ r"
  have hi: "?hi < 0xdc00" using assms(1) False by simp
  have "(c - 0x10000) mod 1024 < 1024" by simp
  then have lo: "?lo < 0xe000" by simp
  have f: "escape_fixed 4 ?buf (length pre + 1) 0 = Some (Some (word_of_nat ?hi, length pre + 5))"
    using escape_fixed_hex4 [of ?hi "pre @ [117]" "[92, 117] @ ?L @ r"] hi by (simp del: escape_fixed.simps of_nat_add)
  have "escape_fixed 4 ((pre @ [117] @ ?H @ [92, 117]) @ ?L @ r) (length (pre @ [117] @ ?H @ [92, 117])) 0
    = Some (Some (word_of_nat ?lo, length (pre @ [117] @ ?H @ [92, 117]) + 4))"
    by (rule escape_fixed_hex4) (use lo in simp)
  moreover have "length (pre @ [117] @ ?H @ [92, 117]) = length pre + 7" by simp
  ultimately have g: "escape_fixed 4 ?buf (length pre + 7) 0 = Some (Some (word_of_nat ?lo, length pre + 11))"
    by (simp del: escape_fixed.simps of_nat_add)
  have s: "is_hi_surrogate (word_of_nat ?hi)" "is_lo_surrogate (word_of_nat ?lo)"
    using hi lo by (auto simp: is_hi_surrogate_def is_lo_surrogate_def word_le_nat_alt word_less_nat_alt
        unat_of_nat simp del: of_nat_add)
  obtain b where b: "rd ?buf (length pre + 1) = Some b" "b \<noteq> 123"
    using hex4_first [of "length pre + 1" "pre @ [117]" ?hi "[92, 117] @ ?L @ r"] by auto
  have rds: "rd ?buf (length pre + 5) = Some 92" "rd ?buf (length pre + 5 + 1) = Some 117"
    by (simp_all add: rd_def nth_append)
  have c: "uint (word_of_nat c :: u32) = int c"
    using assms by (simp add: uint_nat unat_of_nat)
  have fs: "from_surrogate (word_of_nat ?hi) (word_of_nat ?lo) = word_of_nat c"
    by (rule from_surrogate_pair) (use False assms in auto)
  have two: "length pre + 5 + 2 = length pre + 7" "length pre + 5 + 6 = length pre + 11" by simp_all
  have "escape_hex ?buf (length pre + 1) False 2 = Some (Some (word_of_nat c, length pre + 11))"
    using escape_hex_pair [OF b f s(1) rds, unfolded two, OF g s(2)] by (simp only: fs)
  moreover have "rd ?buf (length pre) = Some 117" by (simp add: rd_def nth_append)
  ultimately have "lre_parse_escape ?buf (length pre) 2 = Some (int c, length pre + 11)"
    unfolding lre_parse_escape_def by (simp only: Option.bind.bind_lunit Let_def) (simp add: c)
  with False show ?thesis by (simp add: js_escape_def)
qed

theorem lre_parse_escape_roundtrip_witness:
  "lre_parse_escape ([92] @ js_escape 0x1F600 @ [0]) (length [92 :: u8]) 2
     = Some (int 0x1F600, length [92 :: u8] + length (js_escape 0x1F600))"
  by (rule lre_parse_escape_roundtrip) simp_all

end
