(* ===== verification/Unicode_Ranges.thy ===== *)
theory Unicode_Ranges
  imports Unicode_Range_Tables Char_Range Case_Conv
begin

text \<open>
  The character ranges of the Unicode property escapes, libunicode.c lines 926 to 1554:
  \<open>unicode_find_name\<close>, \<open>unicode_script\<close>, \<open>unicode_general_category\<close>, \<open>unicode_prop\<close> and what
  they are built from. Every loop reads a run-length table and adds intervals to a \<open>CharRange\<close>.
  A loop takes the rest of its table; reading past the end is \<open>None\<close>. The result is C's code (0,
  -1 for a failed allocation, -2 for an unknown name) with the range and the allocator.
\<close>

section \<open>Names\<close>

text \<open>The names of a row are separated by commas.\<close>

function row_has :: "string \<Rightarrow> string \<Rightarrow> bool" where
  "row_has name row =
     (if takeWhile (\<lambda>c. c \<noteq> CHR '','') row = name then True
      else (case dropWhile (\<lambda>c. c \<noteq> CHR '','') row of
              [] \<Rightarrow> False
            | _ # row' \<Rightarrow> row_has name row'))"
  by pat_completeness auto
termination
proof (relation "measure (\<lambda>(name, row). length row)", goal_cases)
  case (2 name row c row')
  have "length (dropWhile (\<lambda>c. c \<noteq> CHR '','') row) \<le> length row"
    by (rule length_dropWhile_le)
  with 2 show ?case by simp
qed simp

declare row_has.simps [simp del]

fun find_name_from :: "string list \<Rightarrow> string \<Rightarrow> int \<Rightarrow> int" where
  "find_name_from [] name pos = -1"
| "find_name_from (row # rows) name pos =
     (if row_has name row then pos else find_name_from rows name (pos + 1))"

definition unicode_find_name :: "string list \<Rightarrow> string \<Rightarrow> int" where
  "unicode_find_name name_table name = find_name_from name_table name 0"

section \<open>Scripts\<close>

text \<open>One run of \<open>unicode_script_table\<close>: its length less one, its script and the rest.\<close>

definition script_len :: "u8 \<Rightarrow> u8 list \<Rightarrow> (u32 \<times> u8 list) option" where
  "script_len b p =
     (let n = (ucast b AND 0x7f :: u32) in
      if n < 96 then Some (n, p)
      else if n < 112 then
        (case p of
           p0 # p \<Rightarrow> Some ((push_bit 8 (n - 96) OR ucast p0) + 96, p)
         | _ \<Rightarrow> None)
      else
        (case p of
           p0 # p1 # p \<Rightarrow>
             Some ((push_bit 16 (n - 112) OR push_bit 8 (ucast p0) OR ucast p1) + (96 + push_bit 12 1), p)
         | _ \<Rightarrow> None))"

definition script_run :: "u8 list \<Rightarrow> (u32 \<times> u32 \<times> u8 list) option" where
  "script_run p = (case p of
     [] \<Rightarrow> None
   | b # p \<Rightarrow> do {
       (n, p) \<leftarrow> script_len b p;
       (if drop_bit 7 b = 0 then Some (n, 0, p)
        else (case p of v # p \<Rightarrow> Some (n, ucast v, p) | [] \<Rightarrow> None))
     })"

lemma script_len_shorter: "script_len b p = Some (n, q) \<Longrightarrow> length q \<le> length p"
  by (auto simp: script_len_def Let_def split: list.splits if_splits)

lemma script_run_shorter: "script_run p = Some (n, v, q) \<Longrightarrow> length q < length p"
  by (auto simp: script_run_def bind_Some_iff neq_Nil_conv split: list.splits if_splits
      dest!: script_len_shorter)

function unicode_script_loop ::
  "'o point_realloc \<Rightarrow> u32 \<Rightarrow> u8 list \<Rightarrow> u32 \<Rightarrow> char_range \<Rightarrow> 'o \<Rightarrow> (int \<times> char_range \<times> 'o) option" where
  "unicode_script_loop ra idx p c cr st =
     (if p = [] then Some (0, cr, st)
      else (case script_run p of
              None \<Rightarrow> None
            | Some (n, v, p) \<Rightarrow> do {
                let c1 = c + n + 1;
                (r, cr, st) \<leftarrow> (if v = idx then cr_add_interval ra cr c c1 st else Some (0, cr, st));
                if r \<noteq> 0 then Some (-1, cr, st)
                else unicode_script_loop ra idx p c1 cr st
              }))"
  by pat_completeness auto
termination
  by (relation "measure (\<lambda>(ra, idx, p, c, cr, st). length p)") (auto dest: script_run_shorter)

declare unicode_script_loop.simps [simp del]

text \<open>One run of \<open>unicode_script_ext_table\<close>: its length less one, its scripts and the rest.\<close>

definition script_ext_len :: "u8 list \<Rightarrow> (u32 \<times> u8 list) option" where
  "script_ext_len p = (case p of
     [] \<Rightarrow> None
   | b # p \<Rightarrow>
       if b < 128 then Some (ucast b, p)
       else if b < 128 + 64 then
         (case p of
            p0 # p \<Rightarrow> Some ((push_bit 8 (ucast b - 128) OR ucast p0) + 128, p)
          | _ \<Rightarrow> None)
       else
         (case p of
            p0 # p1 # p \<Rightarrow>
              Some ((push_bit 16 (ucast b - 128 - 64) OR push_bit 8 (ucast p0) OR ucast p1)
                      + (128 + push_bit 14 1), p)
          | _ \<Rightarrow> None))"

definition script_ext_run :: "u8 list \<Rightarrow> (u32 \<times> u8 list \<times> u8 list) option" where
  "script_ext_run p = do {
     (n, p) \<leftarrow> script_ext_len p;
     (case p of
        [] \<Rightarrow> None
      | v_len # p \<Rightarrow> do {
          vs \<leftarrow> rd_block p 0 (unat v_len);
          Some (n, vs, drop (unat v_len) p)
        })
   }"

lemma script_ext_len_shorter: "script_ext_len p = Some (n, q) \<Longrightarrow> length q < length p"
  by (auto simp: script_ext_len_def split: list.splits if_splits)

lemma script_ext_run_shorter: "script_ext_run p = Some (n, vs, q) \<Longrightarrow> length q < length p"
  by (auto simp: script_ext_run_def bind_Some_iff neq_Nil_conv split: list.splits
      dest!: script_ext_len_shorter)

function script_ext_loop ::
  "'o point_realloc \<Rightarrow> bool \<Rightarrow> u32 \<Rightarrow> u8 list \<Rightarrow> u32 \<Rightarrow> char_range \<Rightarrow> 'o \<Rightarrow> (int \<times> char_range \<times> 'o) option"
where
  "script_ext_loop ra is_common idx p c cr2 st =
     (if p = [] then Some (0, cr2, st)
      else (case script_ext_run p of
              None \<Rightarrow> None
            | Some (n, vs, p) \<Rightarrow> do {
                let c1 = c + n + 1;
                (r, cr2, st) \<leftarrow>
                  (if (if is_common then vs \<noteq> [] else idx \<in> set (map ucast vs))
                   then cr_add_interval ra cr2 c c1 st else Some (0, cr2, st));
                if r \<noteq> 0 then Some (-1, cr2, st)
                else script_ext_loop ra is_common idx p c1 cr2 st
              }))"
  by pat_completeness auto
termination
  by (relation "measure (\<lambda>(ra, ic, idx, p, c, cr, st). length p)") (auto dest: script_ext_run_shorter)

declare script_ext_loop.simps [simp del]

text \<open>
  The code at label \<open>fail\<close> ends in \<open>goto fail\<close>: it does not return, which is \<open>None\<close> here.
\<close>

partial_function (option) unicode_script_fail ::
  "'o point_realloc \<Rightarrow> bool \<Rightarrow> char_range \<Rightarrow> char_range \<Rightarrow> 'o \<Rightarrow> (int \<times> char_range \<times> 'o) option"
where
  "unicode_script_fail ra is_ext cr1 cr2 st =
     Option.bind
       (if is_ext then Option.bind (cr_free ra cr1 st) (\<lambda>st. cr_free ra cr2 st) else Some st)
       (\<lambda>st. unicode_script_fail ra is_ext cr1 cr2 st)"

definition unicode_script ::
  "'o point_realloc \<Rightarrow> char_range \<Rightarrow> string \<Rightarrow> bool \<Rightarrow> 'o \<Rightarrow> (int \<times> char_range \<times> 'o) option" where
  "unicode_script ra cr script_name is_ext st =
     (let i = unicode_find_name unicode_script_name_table script_name in
      if i < 0 then Some (-2, cr, st)
      else do {
        let idx = nat i + (UNICODE_SCRIPT_Unknown + 1);
        let is_common = (idx = UNICODE_SCRIPT_Common \<or> idx = UNICODE_SCRIPT_Inherited);
        let script_idx = (word_of_nat idx :: u32);
        (r, cr1, st) \<leftarrow> unicode_script_loop ra script_idx unicode_script_table 0
           (if is_ext then cr_init else cr) st;
        if r \<noteq> 0 then unicode_script_fail ra is_ext cr1 cr_init st
        else if \<not> is_ext then Some (0, cr1, st)
        else do {
          (r, cr2, st) \<leftarrow> script_ext_loop ra is_common script_idx unicode_script_ext_table 0 cr_init st;
          if r \<noteq> 0 then unicode_script_fail ra is_ext cr1 cr2 st
          else do {
            (r, cr2, st) \<leftarrow> (if is_common then cr_invert ra cr2 st else Some (0, cr2, st));
            if r \<noteq> 0 then unicode_script_fail ra is_ext cr1 cr2 st
            else do {
              a_pt \<leftarrow> rd_block (block (cr_points cr1)) 0 (cr_len cr1);
              b_pt \<leftarrow> rd_block (block (cr_points cr2)) 0 (cr_len cr2);
              (r, cr, st) \<leftarrow> cr_op ra cr a_pt b_pt (if is_common then CR_OP_INTER else CR_OP_UNION) st;
              if r \<noteq> 0 then unicode_script_fail ra is_ext cr1 cr2 st
              else do {
                st \<leftarrow> cr_free ra cr1 st;
                st \<leftarrow> cr_free ra cr2 st;
                Some (0, cr, st)
              }
            }
          }
        }
      })"

section \<open>General categories\<close>

text \<open>\<open>n\<close> times the interval \<open>[c0, c0 + 1)\<close>, each two codes after the one before.\<close>

fun cr_add_alternate ::
  "'o point_realloc \<Rightarrow> nat \<Rightarrow> u32 \<Rightarrow> char_range \<Rightarrow> 'o \<Rightarrow> (int \<times> char_range \<times> 'o) option" where
  "cr_add_alternate ra 0 c0 cr st = Some (0, cr, st)"
| "cr_add_alternate ra (Suc n) c0 cr st = do {
     (r, cr, st) \<leftarrow> cr_add_interval ra cr c0 (c0 + 1) st;
     if r \<noteq> 0 then Some (-1, cr, st) else cr_add_alternate ra n (c0 + 2) cr st
   }"

definition GC_M :: "unicode_gc \<Rightarrow> u32" where
  "GC_M g = push_bit (gc_index g) 1"

definition gc_masks :: "unicode_gc list \<Rightarrow> u32" where
  "gc_masks gs = foldr (\<lambda>g m. GC_M g OR m) gs 0"

text \<open>One run of \<open>unicode_gc_table\<close>: its length less one, its category (31 for Lu, Ll in turn).\<close>

definition gc_run :: "u8 list \<Rightarrow> (u32 \<times> u32 \<times> u8 list) option" where
  "gc_run p = (case p of
     [] \<Rightarrow> None
   | b # p \<Rightarrow> do {
       let n = (drop_bit 5 (ucast b) :: u32);
       let v = (ucast b AND 0x1f :: u32);
       (n, p) \<leftarrow>
         (if n = 7 then
            (case p of
               [] \<Rightarrow> None
             | p0 # p \<Rightarrow>
                 if p0 < 128 then Some (ucast p0 + 7, p)
                 else if p0 < 128 + 64 then
                   (case p of
                      p1 # p \<Rightarrow> Some ((push_bit 8 (ucast p0 - 128) OR ucast p1) + (7 + 128), p)
                    | _ \<Rightarrow> None)
                 else
                   (case p of
                      p1 # p2 # p \<Rightarrow>
                        Some ((push_bit 16 (ucast p0 - 128 - 64) OR push_bit 8 (ucast p1) OR ucast p2)
                                + (7 + 128 + push_bit 14 1), p)
                    | _ \<Rightarrow> None))
          else Some (n, p));
       Some (n, v, p)
     })"

lemma gc_run_shorter: "gc_run p = Some (n, v, q) \<Longrightarrow> length q < length p"
  by (auto simp: gc_run_def Let_def bind_Some_iff split: list.splits if_splits)

function gc_loop ::
  "'o point_realloc \<Rightarrow> u32 \<Rightarrow> u8 list \<Rightarrow> u32 \<Rightarrow> char_range \<Rightarrow> 'o \<Rightarrow> (int \<times> char_range \<times> 'o) option" where
  "gc_loop ra gc_mask p c cr st =
     (if p = [] then Some (0, cr, st)
      else (case gc_run p of
              None \<Rightarrow> None
            | Some (n, v, p) \<Rightarrow> do {
                let c0 = c;
                let c = c + n + 1;
                (r, cr, st) \<leftarrow>
                  (if v = 31 then
                     let b = gc_mask AND gc_masks [UNICODE_GC_Lu, UNICODE_GC_Ll] in
                     if b = 0 then Some (0, cr, st)
                     else if b = gc_masks [UNICODE_GC_Lu, UNICODE_GC_Ll] then cr_add_interval ra cr c0 c st
                     else
                       let c0 = c0 + (if gc_mask AND GC_M UNICODE_GC_Ll \<noteq> 0 then 1 else 0) in
                       cr_add_alternate ra ((unat (c - c0) + 1) div 2) c0 cr st
                   else if bit gc_mask (unat v) then cr_add_interval ra cr c0 c st
                   else Some (0, cr, st));
                if r \<noteq> 0 then Some (-1, cr, st)
                else gc_loop ra gc_mask p c cr st
              }))"
  by pat_completeness auto
termination
  by (relation "measure (\<lambda>(ra, m, p, c, cr, st). length p)") (auto dest: gc_run_shorter)

declare gc_loop.simps [simp del]

definition unicode_general_category1 ::
  "'o point_realloc \<Rightarrow> char_range \<Rightarrow> u32 \<Rightarrow> 'o \<Rightarrow> (int \<times> char_range \<times> 'o) option" where
  "unicode_general_category1 ra cr gc_mask st = gc_loop ra gc_mask unicode_gc_table 0 cr st"

definition unicode_gc_mask_table :: "u32 list" where
  "unicode_gc_mask_table =
     [gc_masks [UNICODE_GC_Lu, UNICODE_GC_Ll, UNICODE_GC_Lt],
      gc_masks [UNICODE_GC_Lu, UNICODE_GC_Ll, UNICODE_GC_Lt, UNICODE_GC_Lm, UNICODE_GC_Lo],
      gc_masks [UNICODE_GC_Mn, UNICODE_GC_Mc, UNICODE_GC_Me],
      gc_masks [UNICODE_GC_Nd, UNICODE_GC_Nl, UNICODE_GC_No],
      gc_masks [UNICODE_GC_Sm, UNICODE_GC_Sc, UNICODE_GC_Sk, UNICODE_GC_So],
      gc_masks [UNICODE_GC_Pc, UNICODE_GC_Pd, UNICODE_GC_Ps, UNICODE_GC_Pe, UNICODE_GC_Pi,
        UNICODE_GC_Pf, UNICODE_GC_Po],
      gc_masks [UNICODE_GC_Zs, UNICODE_GC_Zl, UNICODE_GC_Zp],
      gc_masks [UNICODE_GC_Cc, UNICODE_GC_Cf, UNICODE_GC_Cs, UNICODE_GC_Co, UNICODE_GC_Cn]]"

definition unicode_general_category ::
  "'o point_realloc \<Rightarrow> char_range \<Rightarrow> string \<Rightarrow> 'o \<Rightarrow> (int \<times> char_range \<times> 'o) option" where
  "unicode_general_category ra cr gc_name st =
     (let gc_idx = unicode_find_name unicode_gc_name_table gc_name in
      if gc_idx < 0 then Some (-2, cr, st)
      else do {
        gc_mask \<leftarrow>
          (if gc_idx \<le> int (gc_index UNICODE_GC_Co) then Some (push_bit (nat gc_idx) 1)
           else rd unicode_gc_mask_table (nat gc_idx - gc_index UNICODE_GC_LC));
        unicode_general_category1 ra cr gc_mask st
      })"

section \<open>Binary properties\<close>

text \<open>
  \<open>unicode_prop1\<close>: a byte below 64 holds two runs. \<open>prop_run\<close> gives the run lengths of the next
  byte and the rest of the table.
\<close>

definition prop_run :: "u8 list \<Rightarrow> (u32 list \<times> u8 list) option" where
  "prop_run p = (case p of
     [] \<Rightarrow> None
   | b # p \<Rightarrow>
       if b < 64 then Some ([ucast (drop_bit 3 b) + 1, ucast (b AND 7) + 1], p)
       else if b \<ge> 0x80 then Some ([ucast b - 0x80 + 1], p)
       else if b < 0x60 then
         (case p of
            p0 # p \<Rightarrow> Some ([(push_bit 8 (ucast b - 0x40) OR ucast p0) + 1], p)
          | _ \<Rightarrow> None)
       else
         (case p of
            p0 # p1 # p \<Rightarrow>
              Some ([(push_bit 16 (ucast b - 0x60) OR push_bit 8 (ucast p0) OR ucast p1) + 1], p)
          | _ \<Rightarrow> None))"

lemma prop_run_shorter: "prop_run p = Some (ns, q) \<Longrightarrow> length q < length p"
  by (auto simp: prop_run_def split: list.splits if_splits)

fun prop_add_runs ::
  "'o point_realloc \<Rightarrow> u32 list \<Rightarrow> u32 \<Rightarrow> bool \<Rightarrow> char_range \<Rightarrow> 'o
     \<Rightarrow> (int \<times> u32 \<times> bool \<times> char_range \<times> 'o) option" where
  "prop_add_runs ra [] c bt cr st = Some (0, c, bt, cr, st)"
| "prop_add_runs ra (n # ns) c bt cr st = do {
     (r, cr, st) \<leftarrow> (if bt then cr_add_interval ra cr c (c + n) st else Some (0, cr, st));
     if r \<noteq> 0 then Some (-1, c + n, bt, cr, st)
     else prop_add_runs ra ns (c + n) (\<not> bt) cr st
   }"

function unicode_prop1_loop ::
  "'o point_realloc \<Rightarrow> u8 list \<Rightarrow> u32 \<Rightarrow> bool \<Rightarrow> char_range \<Rightarrow> 'o \<Rightarrow> (int \<times> char_range \<times> 'o) option"
where
  "unicode_prop1_loop ra p c bt cr st =
     (if p = [] then Some (0, cr, st)
      else (case prop_run p of
              None \<Rightarrow> None
            | Some (ns, p) \<Rightarrow> do {
                (r, c, bt, cr, st) \<leftarrow> prop_add_runs ra ns c bt cr st;
                if r \<noteq> 0 then Some (-1, cr, st)
                else unicode_prop1_loop ra p c bt cr st
              }))"
  by pat_completeness auto
termination
  by (relation "measure (\<lambda>(ra, p, c, bt, cr, st). length p)") (auto dest: prop_run_shorter)

declare unicode_prop1_loop.simps [simp del]

definition unicode_prop1 ::
  "'o point_realloc \<Rightarrow> char_range \<Rightarrow> nat \<Rightarrow> 'o \<Rightarrow> (int \<times> char_range \<times> 'o) option" where
  "unicode_prop1 ra cr prop_idx st = do {
     p \<leftarrow> rd unicode_prop_table prop_idx;
     unicode_prop1_loop ra p 0 False cr st
   }"

section \<open>Case properties\<close>

text \<open>The bits of \<open>case_mask\<close> (upper, lower, fold) as their set.\<close>

datatype case_bit = CASE_U | CASE_L | CASE_F

fun tab_run_mask :: "case_bit \<Rightarrow> run_type list" where
  "tab_run_mask CASE_U =
     [RUN_TYPE_U, RUN_TYPE_UF, RUN_TYPE_UL, RUN_TYPE_LSU, RUN_TYPE_U2L_399_EXT2, RUN_TYPE_UF_D20,
      RUN_TYPE_UF_D1_EXT, RUN_TYPE_U_EXT, RUN_TYPE_U_EXT2, RUN_TYPE_U_EXT3]"
| "tab_run_mask CASE_L =
     [RUN_TYPE_L, RUN_TYPE_LF, RUN_TYPE_UL, RUN_TYPE_LSU, RUN_TYPE_U2L_399_EXT2, RUN_TYPE_LF_EXT,
      RUN_TYPE_L_EXT2]"
| "tab_run_mask CASE_F =
     [RUN_TYPE_UF, RUN_TYPE_LF, RUN_TYPE_UL, RUN_TYPE_LSU, RUN_TYPE_U2L_399_EXT2, RUN_TYPE_LF_EXT,
      RUN_TYPE_UF_D20, RUN_TYPE_UF_D1_EXT, RUN_TYPE_LF_EXT]"

definition case1_run ::
  "'o point_realloc \<Rightarrow> case_bit list \<Rightarrow> u32 \<Rightarrow> char_range \<Rightarrow> 'o \<Rightarrow> (int \<times> char_range \<times> 'o) option" where
  "case1_run ra case_mask v cr st =
     (let ty = cc_type v; code = cc_code v; len = cc_len v;
          both = CASE_U \<in> set case_mask \<and> (CASE_L \<in> set case_mask \<or> CASE_F \<in> set case_mask)
      in
        if ty = RUN_TYPE_UL \<and> \<not> both then
          cr_add_alternate ra ((unat len + 1) div 2)
            (code + (if CASE_U \<in> set case_mask then 1 else 0)) cr st
        else if ty = RUN_TYPE_LSU \<and> \<not> both then do {
          (r, cr, st) \<leftarrow> (if CASE_U \<notin> set case_mask then cr_add_interval ra cr code (code + 1) st
                         else Some (0, cr, st));
          if r \<noteq> 0 then Some (-1, cr, st)
          else do {
            (r, cr, st) \<leftarrow> cr_add_interval ra cr (code + 1) (code + 2) st;
            if r \<noteq> 0 then Some (-1, cr, st)
            else if CASE_U \<in> set case_mask then cr_add_interval ra cr (code + 2) (code + 3) st
            else Some (0, cr, st)
          }
        }
        else cr_add_interval ra cr code (code + len) st)"

fun case1_loop ::
  "'o point_realloc \<Rightarrow> case_bit list \<Rightarrow> u32 list \<Rightarrow> char_range \<Rightarrow> 'o \<Rightarrow> (int \<times> char_range \<times> 'o) option" where
  "case1_loop ra case_mask [] cr st = Some (0, cr, st)"
| "case1_loop ra case_mask (v # tab) cr st = do {
     (r, cr, st) \<leftarrow>
       (if \<exists>x \<in> set case_mask. cc_type v \<in> set (tab_run_mask x)
        then case1_run ra case_mask v cr st else Some (0, cr, st));
     if r \<noteq> 0 then Some (-1, cr, st) else case1_loop ra case_mask tab cr st
   }"

definition unicode_case1 ::
  "'o point_realloc \<Rightarrow> char_range \<Rightarrow> case_bit list \<Rightarrow> 'o \<Rightarrow> (int \<times> char_range \<times> 'o) option" where
  "unicode_case1 ra cr case_mask st =
     (if case_mask = [] then Some (0, cr, st) else case1_loop ra case_mask case_conv_table1 cr st)"

section \<open>Combinations\<close>

text \<open>\<open>unicode_prop_ops\<close>: a stack machine over ranges; the head of the list is its top.\<close>

datatype prop_op =
    POP_GC u32
  | POP_PROP nat
  | POP_CASE "case_bit list"
  | POP_UNION
  | POP_INTER
  | POP_XOR
  | POP_INVERT
  | POP_END

definition POP_STACK_LEN_MAX :: nat where
  "POP_STACK_LEN_MAX = 4"

fun pop_cr_op :: "prop_op \<Rightarrow> cr_op_enum" where
  "pop_cr_op POP_INTER = CR_OP_INTER"
| "pop_cr_op POP_XOR = CR_OP_XOR"
| "pop_cr_op _ = CR_OP_UNION"

fun cr_free_all :: "'o point_realloc \<Rightarrow> char_range list \<Rightarrow> 'o \<Rightarrow> 'o option" where
  "cr_free_all ra [] st = Some st"
| "cr_free_all ra (cr # crs) st = do {
     st \<leftarrow> cr_free ra cr st;
     cr_free_all ra crs st
   }"

definition prop_ops_push ::
  "(char_range \<Rightarrow> 'o \<Rightarrow> (int \<times> char_range \<times> 'o) option) \<Rightarrow> char_range list \<Rightarrow> 'o
     \<Rightarrow> (int \<times> char_range list \<times> 'o) option" where
  "prop_ops_push f stk st = do {
     c_assert (length stk < POP_STACK_LEN_MAX);
     (r, cr, st) \<leftarrow> f cr_init st;
     Some (r, cr # stk, st)
   }"

definition prop_ops_step ::
  "'o point_realloc \<Rightarrow> prop_op \<Rightarrow> char_range list \<Rightarrow> 'o \<Rightarrow> (int \<times> char_range list \<times> 'o) option" where
  "prop_ops_step ra op stk st =
     (case op of
        POP_GC a \<Rightarrow> prop_ops_push (\<lambda>cr. unicode_general_category1 ra cr a) stk st
      | POP_PROP a \<Rightarrow> prop_ops_push (\<lambda>cr. unicode_prop1 ra cr a) stk st
      | POP_CASE a \<Rightarrow> prop_ops_push (\<lambda>cr. unicode_case1 ra cr a) stk st
      | POP_INVERT \<Rightarrow>
          (case stk of
             [] \<Rightarrow> None
           | cr # stk \<Rightarrow> do {
               (r, cr, st) \<leftarrow> cr_invert ra cr st;
               Some (r, cr # stk, st)
             })
      | POP_END \<Rightarrow> None
      | _ \<Rightarrow>
          (case stk of
             cr2 # cr1 # stk' \<Rightarrow> do {
               c_assert (length stk < POP_STACK_LEN_MAX);
               a_pt \<leftarrow> rd_block (block (cr_points cr1)) 0 (cr_len cr1);
               b_pt \<leftarrow> rd_block (block (cr_points cr2)) 0 (cr_len cr2);
               (r, cr3, st) \<leftarrow> cr_op ra cr_init a_pt b_pt (pop_cr_op op) st;
               if r \<noteq> 0 then Some (r, cr3 # stk, st)
               else do {
                 st \<leftarrow> cr_free ra cr1 st;
                 st \<leftarrow> cr_free ra cr2 st;
                 Some (0, cr3 # stk', st)
               }
             }
           | _ \<Rightarrow> None))"

fun prop_ops_loop ::
  "'o point_realloc \<Rightarrow> prop_op list \<Rightarrow> char_range list \<Rightarrow> char_range \<Rightarrow> 'o
     \<Rightarrow> (int \<times> char_range \<times> 'o) option" where
  "prop_ops_loop ra [] stk cr st = None"
| "prop_ops_loop ra (op # ops) stk cr st =
     (if op = POP_END then
        (case stk of
           [cr1] \<Rightarrow> do {
             (ret, cr, st) \<leftarrow> cr_copy ra cr cr1 st;
             st \<leftarrow> cr_free ra cr1 st;
             Some (ret, cr, st)
           }
         | _ \<Rightarrow> None)
      else do {
        (r, stk, st) \<leftarrow> prop_ops_step ra op stk st;
        if r \<noteq> 0 then do {
          st \<leftarrow> cr_free_all ra (rev stk) st;
          Some (-1, cr, st)
        }
        else prop_ops_loop ra ops stk cr st
      })"

definition unicode_prop_ops ::
  "'o point_realloc \<Rightarrow> char_range \<Rightarrow> prop_op list \<Rightarrow> 'o \<Rightarrow> (int \<times> char_range \<times> 'o) option" where
  "unicode_prop_ops ra cr ops st = prop_ops_loop ra ops [] cr st"

text \<open>The stack programs of the derived properties, as \<open>unicode_prop\<close> calls them.\<close>

definition prop_program :: "nat \<Rightarrow> prop_op list option" where
  "prop_program prop_idx =
     (if prop_idx = UNICODE_PROP_Assigned then
        Some [POP_GC (gc_masks [UNICODE_GC_Cn]), POP_INVERT, POP_END]
      else if prop_idx = UNICODE_PROP_Math then
        Some [POP_GC (gc_masks [UNICODE_GC_Sm]), POP_PROP UNICODE_PROP_Other_Math, POP_UNION, POP_END]
      else if prop_idx = UNICODE_PROP_Lowercase then
        Some [POP_GC (gc_masks [UNICODE_GC_Ll]), POP_PROP UNICODE_PROP_Other_Lowercase, POP_UNION,
              POP_END]
      else if prop_idx = UNICODE_PROP_Uppercase then
        Some [POP_GC (gc_masks [UNICODE_GC_Lu]), POP_PROP UNICODE_PROP_Other_Uppercase, POP_UNION,
              POP_END]
      else if prop_idx = UNICODE_PROP_Cased then
        Some [POP_GC (gc_masks [UNICODE_GC_Lu, UNICODE_GC_Ll, UNICODE_GC_Lt]),
              POP_PROP UNICODE_PROP_Other_Uppercase, POP_UNION,
              POP_PROP UNICODE_PROP_Other_Lowercase, POP_UNION, POP_END]
      else if prop_idx = UNICODE_PROP_Alphabetic then
        Some [
              POP_GC (gc_masks [UNICODE_GC_Lu, UNICODE_GC_Ll, UNICODE_GC_Lt, UNICODE_GC_Lm, UNICODE_GC_Lo, UNICODE_GC_Nl]),
              POP_PROP UNICODE_PROP_Other_Uppercase, POP_UNION,
              POP_PROP UNICODE_PROP_Other_Lowercase, POP_UNION,
              POP_PROP UNICODE_PROP_Other_Alphabetic, POP_UNION, POP_END]
      else if prop_idx = UNICODE_PROP_Grapheme_Base then
        Some [
              POP_GC (gc_masks [UNICODE_GC_Cc, UNICODE_GC_Cf, UNICODE_GC_Cs, UNICODE_GC_Co, UNICODE_GC_Cn, UNICODE_GC_Zl, UNICODE_GC_Zp, UNICODE_GC_Me, UNICODE_GC_Mn]),
              POP_PROP UNICODE_PROP_Other_Grapheme_Extend, POP_UNION, POP_INVERT, POP_END]
      else if prop_idx = UNICODE_PROP_Grapheme_Extend then
        Some [POP_GC (gc_masks [UNICODE_GC_Me, UNICODE_GC_Mn]),
              POP_PROP UNICODE_PROP_Other_Grapheme_Extend, POP_UNION, POP_END]
      else if prop_idx = UNICODE_PROP_XID_Start then
        Some [
              POP_GC (gc_masks [UNICODE_GC_Lu, UNICODE_GC_Ll, UNICODE_GC_Lt, UNICODE_GC_Lm, UNICODE_GC_Lo, UNICODE_GC_Nl]),
              POP_PROP UNICODE_PROP_Other_ID_Start, POP_UNION, POP_PROP UNICODE_PROP_Pattern_Syntax,
              POP_PROP UNICODE_PROP_Pattern_White_Space, POP_UNION, POP_PROP UNICODE_PROP_XID_Start1,
              POP_UNION, POP_INVERT, POP_INTER, POP_END]
      else if prop_idx = UNICODE_PROP_XID_Continue then
        Some [
              POP_GC (gc_masks [UNICODE_GC_Lu, UNICODE_GC_Ll, UNICODE_GC_Lt, UNICODE_GC_Lm, UNICODE_GC_Lo, UNICODE_GC_Nl, UNICODE_GC_Mn, UNICODE_GC_Mc, UNICODE_GC_Nd, UNICODE_GC_Pc]),
              POP_PROP UNICODE_PROP_Other_ID_Start, POP_UNION,
              POP_PROP UNICODE_PROP_Other_ID_Continue, POP_UNION,
              POP_PROP UNICODE_PROP_Pattern_Syntax, POP_PROP UNICODE_PROP_Pattern_White_Space,
              POP_UNION, POP_PROP UNICODE_PROP_XID_Continue1, POP_UNION, POP_INVERT, POP_INTER,
              POP_END]
      else if prop_idx = UNICODE_PROP_Changes_When_Titlecased then
        Some [POP_CASE [CASE_U], POP_PROP UNICODE_PROP_Changes_When_Titlecased1, POP_XOR, POP_END]
      else if prop_idx = UNICODE_PROP_Changes_When_Casefolded then
        Some [POP_CASE [CASE_F], POP_PROP UNICODE_PROP_Changes_When_Casefolded1, POP_XOR, POP_END]
      else if prop_idx = UNICODE_PROP_Changes_When_NFKC_Casefolded then
        Some [POP_CASE [CASE_F], POP_PROP UNICODE_PROP_Changes_When_NFKC_Casefolded1, POP_XOR, POP_END]
      else if prop_idx = UNICODE_PROP_ID_Continue then
        Some [POP_PROP UNICODE_PROP_ID_Start, POP_PROP UNICODE_PROP_ID_Continue1, POP_XOR, POP_END]
      else None)"

definition unicode_prop ::
  "'o point_realloc \<Rightarrow> char_range \<Rightarrow> string \<Rightarrow> 'o \<Rightarrow> (int \<times> char_range \<times> 'o) option" where
  "unicode_prop ra cr prop_name st =
     (let i = unicode_find_name unicode_prop_name_table prop_name in
      if i < 0 then Some (-2, cr, st)
      else
        let prop_idx = nat i + UNICODE_PROP_ASCII_Hex_Digit in
        if prop_idx = UNICODE_PROP_ASCII then cr_add_interval ra cr 0x00 (0x7f + 1) st
        else if prop_idx = UNICODE_PROP_Any then cr_add_interval ra cr 0x00000 (0x10ffff + 1) st
        else if prop_idx = UNICODE_PROP_Changes_When_Uppercased then unicode_case1 ra cr [CASE_U] st
        else if prop_idx = UNICODE_PROP_Changes_When_Lowercased then unicode_case1 ra cr [CASE_L] st
        else if prop_idx = UNICODE_PROP_Changes_When_Casemapped then
          unicode_case1 ra cr [CASE_U, CASE_L, CASE_F] st
        else (case prop_program prop_idx of
                Some ops \<Rightarrow> unicode_prop_ops ra cr ops st
              | None \<Rightarrow>
                  if prop_idx \<ge> length unicode_prop_table then Some (-2, cr, st)
                  else unicode_prop1 ra cr prop_idx st))"

end
