(* ===== verification/Re_Class.thy ===== *)
theory Re_Class
  imports Re_Emit Unicode_Ranges
begin

text \<open>
  The character classes of the regular expression compiler, libregexp.c lines 207 to 216 and 603
  to 943: \<open>parse_unicode_property\<close>, \<open>get_class_atom\<close> and \<open>re_parse_char_class\<close>.

  \<open>get_class_atom\<close> returns the character or \<open>CLASS_RANGE_BASE\<close>, and the range it initialised:
  \<open>None\<close> while its caller's \<open>CharRange\<close> is not initialised, so that using it then is undefined.
  \<open>rb\<close> and \<open>rp\<close> are \<open>lre_realloc\<close> on blocks of bytes and of code points.
\<close>

definition CLASS_RANGE_BASE :: int where
  "CLASS_RANGE_BASE = 0x40000000"

definition UTF8_CHAR_LEN_MAX :: int where
  "UTF8_CHAR_LEN_MAX = 6"

text \<open>The indices of \<open>CharRangeEnum\<close>.\<close>

definition CHAR_RANGE_d :: nat where "CHAR_RANGE_d = 0"
definition CHAR_RANGE_D :: nat where "CHAR_RANGE_D = 1"
definition CHAR_RANGE_s :: nat where "CHAR_RANGE_s = 2"
definition CHAR_RANGE_S :: nat where "CHAR_RANGE_S = 3"
definition CHAR_RANGE_w :: nat where "CHAR_RANGE_w = 4"
definition CHAR_RANGE_W :: nat where "CHAR_RANGE_W = 5"

section \<open>Unicode properties\<close>

definition is_unicode_char :: "u8 \<Rightarrow> bool" where
  "is_unicode_char c \<longleftrightarrow>
     48 \<le> c \<and> c \<le> 57 \<or> 65 \<le> c \<and> c \<le> 90 \<or> 97 \<le> c \<and> c \<le> 122 \<or> c = 95"

text \<open>
  Copy a name into a buffer of 64 bytes: whether it fits, the name and the new position. The text
  is read from \<open>p\<close> on.
\<close>

fun scan_name :: "u8 list \<Rightarrow> nat \<Rightarrow> string \<Rightarrow> (bool \<times> string \<times> nat) option" where
  "scan_name [] p name = None"
| "scan_name (c # m) p name =
     (if \<not> is_unicode_char c then Some (True, name, p)
      else if length name \<ge> 63 then Some (False, name, p)
      else scan_name m (Suc p) (name @ [char_of (unat c)]))"

text \<open>After the names: the range of the property. The code is 0 or -1, with the error set.\<close>

definition property_range ::
  "'o point_realloc \<Rightarrow> 'o re_parse_state \<Rightarrow> string \<Rightarrow> string
     \<Rightarrow> (int \<times> char_range option \<times> 'o re_parse_state) option" where
  "property_range rp s name val =
     (let fail = (\<lambda>cr st msg. do {
            st \<leftarrow> cr_free rp cr st;
            let (r, s) = re_parse_error (s\<lparr>ps_opaque := st\<rparr>) msg;
            Some (r, None, s)
          });
          oom = ''out of memory'';
          ok = (\<lambda>cr st. Some (0, Some cr, s\<lparr>ps_opaque := st\<rparr>)) in
      if name = ''Script'' \<or> name = ''sc'' \<or> name = ''Script_Extensions'' \<or> name = ''scx'' then do {
        (ret, cr, st) \<leftarrow> unicode_script rp cr_init val (name = ''Script_Extensions'' \<or> name = ''scx'') (ps_opaque s);
        if ret = 0 then ok cr st
        else fail cr st (if ret = -2 then ''unknown unicode script'' else oom)
      }
      else if name = ''General_Category'' \<or> name = ''gc'' then do {
        (ret, cr, st) \<leftarrow> unicode_general_category rp cr_init val (ps_opaque s);
        if ret = 0 then ok cr st
        else fail cr st (if ret = -2 then ''unknown unicode general category'' else oom)
      }
      else if val = [] then do {
        (ret, cr, st) \<leftarrow> unicode_general_category rp cr_init name (ps_opaque s);
        if ret = -1 then fail cr st oom
        else if ret < 0 then do {
          (ret, cr, st) \<leftarrow> unicode_prop rp cr name st;
          if ret = 0 then ok cr st
          else fail cr st (if ret = -2 then ''unknown unicode property name'' else oom)
        }
        else ok cr st
      }
      else
        (let (r, s) = re_parse_error s ''unknown unicode property name'' in Some (r, None, s)))"

definition parse_unicode_property ::
  "'o point_realloc \<Rightarrow> 'o re_parse_state \<Rightarrow> nat \<Rightarrow> bool
     \<Rightarrow> (int \<times> char_range option \<times> nat \<times> 'o re_parse_state) option" where
  "parse_unicode_property rp s p0 is_inv =
     (let err = (\<lambda>msg. let (r, s) = re_parse_error s msg in Some (r, None, p0, s)) in do {
        b \<leftarrow> rd (ps_buf s) p0;
        if b \<noteq> 123 then err (''expecting '' @ [CHR 0x27] @ ''{'' @ [CHR 0x27] @ '' after '' @ [CHR 0x5c] @ ''p'')
        else do {
          (fits, name, p) \<leftarrow> scan_name (drop (p0 + 1) (ps_buf s)) (p0 + 1) [];
          if \<not> fits then err ''unknown unicode property name''
          else do {
            b \<leftarrow> rd (ps_buf s) p;
            (fits, val, p) \<leftarrow>
              (if b = 61 then scan_name (drop (p + 1) (ps_buf s)) (p + 1) [] else Some (True, [], p));
            if \<not> fits then err ''unknown unicode property value''
            else do {
              b \<leftarrow> rd (ps_buf s) p;
              if b \<noteq> 125 then err (''expecting '' @ [CHR 0x27] @ ''}'' @ [CHR 0x27])
              else do {
                (r, cr, s) \<leftarrow> property_range rp s name val;
                (case cr of
                   None \<Rightarrow> Some (r, None, p0, s)
                 | Some cr \<Rightarrow>
                     if is_inv then do {
                       (r, cr, st) \<leftarrow> cr_invert rp cr (ps_opaque s);
                       if r \<noteq> 0 then do {
                         st \<leftarrow> cr_free rp cr st;
                         Some (-1, None, p0, s\<lparr>ps_opaque := st\<rparr>)
                       } else Some (0, Some cr, p + 1, s\<lparr>ps_opaque := st\<rparr>)
                     } else Some (0, Some cr, p + 1, s))
              }
            }
          }
        }
      })"

section \<open>Class atoms\<close>

type_synonym 'o class_atom = "int \<times> char_range option \<times> nat \<times> 'o re_parse_state"

definition atom_error :: "'o re_parse_state \<Rightarrow> nat \<Rightarrow> string \<Rightarrow> 'o class_atom option" where
  "atom_error s p msg = (let (r, s) = re_parse_error s msg in Some (r, None, p, s))"

text \<open>Label \<open>normal_char\<close>, with \<open>c\<close> the byte at \<open>p\<close>.\<close>

definition atom_normal_char :: "'o re_parse_state \<Rightarrow> nat \<Rightarrow> u8 \<Rightarrow> 'o class_atom option" where
  "atom_normal_char s p c =
     (if c \<ge> 128 then do {
        (v, p) \<leftarrow> unicode_from_utf8 (ps_buf s) p UTF8_CHAR_LEN_MAX p;
        if (word_of_int v :: u32) > 0xffff \<and> \<not> ps_is_utf16 s then atom_error s p ''malformed unicode char''
        else Some (v, None, p, s)
      }
      else Some (uint c, None, p + 1, s))"

definition atom_class_range ::
  "'o point_realloc \<Rightarrow> 'o re_parse_state \<Rightarrow> nat \<Rightarrow> nat \<Rightarrow> 'o class_atom option" where
  "atom_class_range rp s p c = do {
     (r, cr, st) \<leftarrow> cr_init_char_range rp c (ps_opaque s);
     let s = s\<lparr>ps_opaque := st\<rparr>;
     Some (if r \<noteq> 0 then (-1, None, p, s) else (CLASS_RANGE_BASE, Some cr, p, s))
   }"

definition syntax_chars :: "u8 list" where
  "syntax_chars = c_chars [CHR ''^'', CHR ''$'', CHR 0x5c, CHR ''.'', CHR ''*'', CHR ''+'', CHR ''?'',
     CHR ''('', CHR '')'', CHR ''['', CHR '']'', CHR ''{'', CHR ''}'', CHR ''|'', CHR ''/'']"

text \<open>The escapes left to \<open>lre_parse_escape\<close>; \<open>p\<close> is at the character after the backslash.\<close>

definition atom_escape :: "'o re_parse_state \<Rightarrow> nat \<Rightarrow> u8 \<Rightarrow> 'o class_atom option" where
  "atom_escape s p c = do {
     (ret, p) \<leftarrow> lre_parse_escape (ps_buf s) p (if ps_is_utf16 s then 2 else 0);
     if ret \<ge> 0 then Some (ret, None, p, s)
     else do {
       b \<leftarrow> rd (ps_buf s) p;
       if ret = -2 \<and> b \<noteq> 0 \<and> b \<in> set syntax_chars then atom_normal_char s p c
       else if ps_is_utf16 s then atom_error s p ''invalid escape sequence in regular expression''
       else atom_normal_char s p c
     }
   }"

definition get_class_atom ::
  "'o point_realloc \<Rightarrow> 'o re_parse_state \<Rightarrow> nat \<Rightarrow> bool \<Rightarrow> 'o class_atom option" where
  "get_class_atom rp s p inclass = do {
     c \<leftarrow> rd (ps_buf s) p;
     if c = 92 then
       (let p = p + 1 in
        if p \<ge> ps_buf_end s then atom_error s p ''unexpected end''
        else do {
          c \<leftarrow> rd (ps_buf s) p;
          if c = 100 then atom_class_range rp s (p + 1) CHAR_RANGE_d
          else if c = 68 then atom_class_range rp s (p + 1) CHAR_RANGE_D
          else if c = 115 then atom_class_range rp s (p + 1) CHAR_RANGE_s
          else if c = 83 then atom_class_range rp s (p + 1) CHAR_RANGE_S
          else if c = 119 then atom_class_range rp s (p + 1) CHAR_RANGE_w
          else if c = 87 then atom_class_range rp s (p + 1) CHAR_RANGE_W
          else if c = 99 then do {
            c \<leftarrow> rd (ps_buf s) (p + 1);
            if 97 \<le> c \<and> c \<le> 122 \<or> 65 \<le> c \<and> c \<le> 90 \<or>
               (is_digit c \<or> c = 95) \<and> inclass \<and> \<not> ps_is_utf16 s
            then Some (uint (c AND 0x1f), None, p + 2, s)
            else if ps_is_utf16 s then
              atom_error s (p + 1) ''invalid escape sequence in regular expression''
            else Some (92, None, p, s)
          }
          else if (c = 112 \<or> c = 80) \<and> ps_is_utf16 s then do {
            (r, cr, p, s) \<leftarrow> parse_unicode_property rp s (p + 1) (c = 80);
            if r \<noteq> 0 then Some (-1, None, p, s) else Some (CLASS_RANGE_BASE, cr, p, s)
          }
          else atom_escape s p c
        })
     else if c = 0 \<and> p \<ge> ps_buf_end s then atom_error s p ''unexpected end''
     else atom_normal_char s p c
   }"

section \<open>Classes\<close>

text \<open>What the loop over the atoms of a class ends with.\<close>

datatype 'o class_result =
    Class_done char_range nat "'o re_parse_state"
  | Class_fail char_range "'o re_parse_state"

definition class_memory_error :: "char_range \<Rightarrow> 'o re_parse_state \<Rightarrow> 'o class_result" where
  "class_memory_error cr s = Class_fail cr (snd (re_parse_out_of_memory s))"

definition class_invalid_range :: "char_range \<Rightarrow> 'o re_parse_state \<Rightarrow> 'o class_result" where
  "class_invalid_range cr s = Class_fail cr (snd (re_parse_error s ''invalid class range''))"

text \<open>Label \<open>class_atom\<close>: 0 and the new range, or -1.\<close>

definition class_add_atom ::
  "'o point_realloc \<Rightarrow> char_range \<Rightarrow> int \<Rightarrow> char_range option \<Rightarrow> 'o re_parse_state
     \<Rightarrow> (int \<times> char_range \<times> 'o re_parse_state) option" where
  "class_add_atom rp cr c1 cr1 s =
     (if c1 \<ge> CLASS_RANGE_BASE then do {
        cr1 \<leftarrow> cr1;
        b_pt \<leftarrow> rd_block (block (cr_points cr1)) 0 (cr_len cr1);
        (ret, cr, st) \<leftarrow> cr_union1 rp cr b_pt (ps_opaque s);
        st \<leftarrow> cr_free rp cr1 st;
        Some (ret, cr, s\<lparr>ps_opaque := st\<rparr>)
      } else do {
        (ret, cr, st) \<leftarrow> cr_union_interval rp cr (word_of_int c1) (word_of_int c1) (ps_opaque s);
        Some (ret, cr, s\<lparr>ps_opaque := st\<rparr>)
      })"

text \<open>One atom or range of a class; \<open>Inl\<close> with the new position to go on, \<open>Inr\<close> to leave.\<close>

definition class_item ::
  "'o point_realloc \<Rightarrow> 'o re_parse_state \<Rightarrow> char_range \<Rightarrow> nat
     \<Rightarrow> (char_range \<times> nat \<times> 'o re_parse_state + 'o class_result) option" where
  "class_item rp s cr p = do {
     (c1, cr1, p, s) \<leftarrow> get_class_atom rp s p True;
     if c1 < 0 then Some (Inr (Class_fail cr s))
     else do {
       let class_atom = (\<lambda>cr1 s. do {
         (ret, cr, s) \<leftarrow> class_add_atom rp cr c1 cr1 s;
         Some (if ret \<noteq> 0 then Inr (class_memory_error cr s) else Inl (cr, p, s))
       });
       b \<leftarrow> rd (ps_buf s) p;
       is_range \<leftarrow> (if b = 45 then map_option (\<lambda>b1. b1 \<noteq> 93) (rd (ps_buf s) (p + 1)) else Some False);
       if \<not> is_range then class_atom cr1 s
       else if c1 \<ge> CLASS_RANGE_BASE then
         (if ps_is_utf16 s then do {
            cr1 \<leftarrow> cr1;
            st \<leftarrow> cr_free rp cr1 (ps_opaque s);
            Some (Inr (class_invalid_range cr (s\<lparr>ps_opaque := st\<rparr>)))
          } else class_atom cr1 s)
       else do {
         (c2, cr1, p0, s) \<leftarrow> get_class_atom rp s (p + 1) True;
         if c2 < 0 then Some (Inr (Class_fail cr s))
         else if c2 \<ge> CLASS_RANGE_BASE then do {
           cr1 \<leftarrow> cr1;
           st \<leftarrow> cr_free rp cr1 (ps_opaque s);
           let s = s\<lparr>ps_opaque := st\<rparr>;
           if ps_is_utf16 s then Some (Inr (class_invalid_range cr s)) else class_atom None s
         }
         else if c2 < c1 then Some (Inr (class_invalid_range cr s))
         else do {
           (ret, cr, st) \<leftarrow> cr_union_interval rp cr (word_of_int c1) (word_of_int c2) (ps_opaque s);
           let s = s\<lparr>ps_opaque := st\<rparr>;
           Some (if ret \<noteq> 0 then Inr (class_memory_error cr s) else Inl (cr, p0, s))
         }
       }
     }
   }"

text \<open>The loop over the items; each takes a byte, so the length of the pattern is fuel enough.\<close>

fun class_loop ::
  "nat \<Rightarrow> 'o point_realloc \<Rightarrow> 'o re_parse_state \<Rightarrow> char_range \<Rightarrow> nat \<Rightarrow> 'o class_result option" where
  "class_loop 0 rp s cr p = None"
| "class_loop (Suc fuel) rp s cr p = do {
     b \<leftarrow> rd (ps_buf s) p;
     if b = 93 then Some (Class_done cr p s)
     else do {
       r \<leftarrow> class_item rp s cr p;
       (case r of
          Inl (cr, p, s) \<Rightarrow> class_loop fuel rp s cr p
        | Inr res \<Rightarrow> Some res)
     }
   }"

text \<open>After the items: case folding, inversion and emission. The result is 0 or -1.\<close>

definition class_finish ::
  "'o realloc_func \<Rightarrow> 'o point_realloc \<Rightarrow> 'o re_parse_state \<Rightarrow> char_range \<Rightarrow> bool
     \<Rightarrow> (int \<times> 'o re_parse_state) option" where
  "class_finish rb rp s cr invert = do {
     let fail = (\<lambda>cr s. do {
       st \<leftarrow> cr_free rp cr (ps_opaque s);
       Some (-1, s\<lparr>ps_opaque := st\<rparr>)
     });
     (ret, cr, st) \<leftarrow> (if ps_ignore_case s then cr_canonicalize rp cr (ps_opaque s)
                      else Some (0, cr, ps_opaque s));
     let s = s\<lparr>ps_opaque := st\<rparr>;
     if ret \<noteq> 0 then fail cr (snd (re_parse_out_of_memory s))
     else do {
       (ret, cr, st) \<leftarrow> (if invert then cr_invert rp cr (ps_opaque s) else Some (0, cr, ps_opaque s));
       let s = s\<lparr>ps_opaque := st\<rparr>;
       if ret \<noteq> 0 then fail cr (snd (re_parse_out_of_memory s))
       else do {
         (ret, s) \<leftarrow> re_emit_range rb s cr;
         if ret \<noteq> 0 then fail cr s
         else do {
           st \<leftarrow> cr_free rp cr (ps_opaque s);
           Some (0, s\<lparr>ps_opaque := st\<rparr>)
         }
       }
     }
   }"

definition re_parse_char_class ::
  "'o realloc_func \<Rightarrow> 'o point_realloc \<Rightarrow> 'o re_parse_state \<Rightarrow> nat \<Rightarrow> (int \<times> nat \<times> 'o re_parse_state) option"
where
  "re_parse_char_class rb rp s pp = do {
     let p = pp + 1;
     b \<leftarrow> rd (ps_buf s) p;
     let invert = (b = 94);
     let p = (if invert then p + 1 else p);
     r \<leftarrow> class_loop (length (ps_buf s) + 1) rp s cr_init p;
     (case r of
        Class_fail cr s \<Rightarrow> do {
          st \<leftarrow> cr_free rp cr (ps_opaque s);
          Some (-1, pp, s\<lparr>ps_opaque := st\<rparr>)
        }
      | Class_done cr p s \<Rightarrow> do {
          (ret, s) \<leftarrow> class_finish rb rp s cr invert;
          Some (ret, if ret = 0 then p + 1 else pp, s)
        })
   }"

end
