(* ===== verification/Re_Parse.thy ===== *)
theory Re_Parse
  imports Re_Class
begin

text \<open>
  The regular expression parser and compiler, libregexp.c lines 1073 to 1909: group names and the
  counting of captures, \<open>re_parse_term\<close> with its quantifiers, \<open>re_parse_alternative\<close>,
  \<open>re_parse_disjunction\<close>, \<open>compute_stack_size\<close> and \<open>lre_compile\<close>.

  A parse function returns C's code (0 or -1) with the new state, and \<open>None\<close> for undefined
  behaviour. \<open>lre_check_stack_overflow\<close> asks the host whether the C stack is used up; here the
  stack has room for a given number of nested \<open>re_parse_disjunction\<close> calls. The loops over the
  pattern are written with the length of the pattern as fuel.
\<close>

section \<open>Group names\<close>

text \<open>
  \<open>re_parse_group_name\<close>, \<open>p\<close> after the \<open><\<close>: the position after the name (\<open>None\<close> for -1) and the
  bytes written to the name's buffer.
\<close>

definition group_name_char :: "u8 list \<Rightarrow> nat \<Rightarrow> u8 \<Rightarrow> bool \<Rightarrow> (u32 \<times> nat) option option" where
  "group_name_char buf p c u16 =
     (if c = 92 then do {
        b \<leftarrow> rd buf (p + 1);
        if b \<noteq> 117 then Some None
        else do {
          (v, p) \<leftarrow> lre_parse_escape buf (p + 1) (if u16 then 2 else 0);
          Some (Some (word_of_int v, p))
        }
      }
      else if c \<ge> 128 then do {
        (v, p) \<leftarrow> unicode_from_utf8 buf p UTF8_CHAR_LEN_MAX p;
        Some (Some (word_of_int v, p))
      }
      else Some (Some (ucast c, p + 1)))"

fun group_name_loop :: "nat \<Rightarrow> u8 list \<Rightarrow> nat \<Rightarrow> bool \<Rightarrow> u8 list \<Rightarrow> (nat option \<times> u8 list) option" where
  "group_name_loop 0 buf p u16 q = None"
| "group_name_loop (Suc fuel) buf p u16 q = do {
     c \<leftarrow> rd buf p;
     if c = 62 then Some (if q = [] then None else Some (p + 1), q)
     else do {
       r \<leftarrow> group_name_char buf p c u16;
       (case r of
          None \<Rightarrow> Some (None, q)
        | Some (c, p) \<Rightarrow>
            if c > 0x10FFFF then Some (None, q)
            else do {
              ok \<leftarrow> (if q = [] then lre_js_is_ident_first c else lre_js_is_ident_next c);
              if \<not> ok then Some (None, q)
              else if int (length q) + UTF8_CHAR_LEN_MAX + 1 > int TMP_BUF_SIZE then Some (None, q)
              else group_name_loop fuel buf p u16
                     (q @ (if c < 128 then [ucast c] else unicode_to_utf8 c))
            })
     }
   }"

definition re_parse_group_name :: "u8 list \<Rightarrow> nat \<Rightarrow> bool \<Rightarrow> (nat option \<times> u8 list) option" where
  "re_parse_group_name buf pp u16 = group_name_loop (length buf + 1) buf pp u16 []"

text \<open>The name in \<open>u.tmp_buf\<close>.\<close>

definition put_tmp_buf :: "u8 list \<Rightarrow> 'o re_parse_state \<Rightarrow> 'o re_parse_state" where
  "put_tmp_buf q s = s\<lparr>ps_u := q @ drop (length q) (ps_u s)\<rparr>"

section \<open>Counting captures\<close>

text \<open>The end of a class that \<open>re_parse_captures\<close> skips.\<close>

fun skip_class :: "nat \<Rightarrow> u8 list \<Rightarrow> nat \<Rightarrow> nat \<Rightarrow> nat option" where
  "skip_class 0 buf buf_end p = None"
| "skip_class (Suc fuel) buf buf_end p =
     (if p < buf_end then do {
        b \<leftarrow> rd buf p;
        if b = 93 then Some p
        else skip_class fuel buf buf_end (if b = 92 then p + 2 else p + 1)
      } else Some p)"

text \<open>
  The loop of \<open>re_parse_captures\<close>: the capture index of \<open>capture_name\<close> (\<open>Inl\<close>) or the count
  (\<open>Inr\<close>), with the named-captures flag.
\<close>

fun captures_loop ::
  "nat \<Rightarrow> u8 list \<Rightarrow> nat \<Rightarrow> bool \<Rightarrow> u8 list option \<Rightarrow> nat \<Rightarrow> nat \<Rightarrow> int \<Rightarrow> ((nat + nat) \<times> int) option"
where
  "captures_loop 0 buf buf_end u16 cname p index named = None"
| "captures_loop (Suc fuel) buf buf_end u16 cname p index named =
     (if p < buf_end then do {
        b \<leftarrow> rd buf p;
        if b = 40 then do {
          b1 \<leftarrow> rd buf (p + 1);
          if b1 = 63 then do {
            b2 \<leftarrow> rd buf (p + 2);
            b3 \<leftarrow> (if b2 = 60 then rd buf (p + 3) else Some 0);
            if b2 = 60 \<and> b3 \<noteq> 61 \<and> b3 \<noteq> 33 then do {
              (found, p) \<leftarrow>
                (case cname of
                   None \<Rightarrow> Some (False, p)
                 | Some cname \<Rightarrow> do {
                     (r, name) \<leftarrow> re_parse_group_name buf (p + 3) u16;
                     Some (case r of None \<Rightarrow> (False, p + 3) | Some p \<Rightarrow> (name = cname, p))
                   });
              if found then Some (Inl index, 1)
              else if index + 1 \<ge> CAPTURE_COUNT_MAX then Some (Inr (index + 1), 1)
              else captures_loop fuel buf buf_end u16 cname (p + 1) (index + 1) 1
            }
            else captures_loop fuel buf buf_end u16 cname (p + 1) index named
          }
          else if index + 1 \<ge> CAPTURE_COUNT_MAX then Some (Inr (index + 1), named)
          else captures_loop fuel buf buf_end u16 cname (p + 1) (index + 1) named
        }
        else if b = 92 then captures_loop fuel buf buf_end u16 cname (p + 2) index named
        else if b = 91 then do {
          p \<leftarrow> skip_class (length buf + 1) buf buf_end (p + 1 + (if b = 93 then 1 else 0));
          captures_loop fuel buf buf_end u16 cname (p + 1) index named
        }
        else captures_loop fuel buf buf_end u16 cname (p + 1) index named
      } else Some (Inr index, named))"

definition re_parse_captures :: "'o re_parse_state \<Rightarrow> u8 list option \<Rightarrow> (int \<times> int) option" where
  "re_parse_captures s capture_name = do {
     (r, named) \<leftarrow> captures_loop (length (ps_buf s) + 1) (ps_buf s) (ps_buf_end s) (ps_is_utf16 s)
        capture_name 0 1 0;
     Some (case r of
             Inl i \<Rightarrow> (int i, named)
           | Inr n \<Rightarrow> (if capture_name = None then int n else -1, named))
   }"

definition re_count_captures :: "'o re_parse_state \<Rightarrow> (int \<times> 'o re_parse_state) option" where
  "re_count_captures s =
     (if ps_total_capture_count s < 0 then do {
        (n, named) \<leftarrow> re_parse_captures s None;
        Some (n, s\<lparr>ps_total_capture_count := n, ps_has_named_captures := named\<rparr>)
      } else Some (ps_total_capture_count s, s))"

definition re_has_named_captures :: "'o re_parse_state \<Rightarrow> (bool \<times> 'o re_parse_state) option" where
  "re_has_named_captures s = do {
     (n, s) \<leftarrow> (if ps_has_named_captures s < 0 then re_count_captures s else Some (0, s));
     Some (ps_has_named_captures s \<noteq> 0, s)
   }"

text \<open>The names of \<open>group_names\<close> one after the other, each with its zero.\<close>

fun find_name_at :: "nat \<Rightarrow> u8 list \<Rightarrow> nat \<Rightarrow> nat \<Rightarrow> int \<Rightarrow> u8 list \<Rightarrow> int option" where
  "find_name_at 0 buf buf_end p index name = None"
| "find_name_at (Suc fuel) buf buf_end p index name =
     (if p < buf_end then do {
        len \<leftarrow> strlen (drop p buf) 0;
        if take len (drop p buf) = name then Some index
        else find_name_at fuel buf buf_end (p + len + 1) (index + 1) name
      } else Some (-1))"

definition find_group_name :: "'o re_parse_state \<Rightarrow> u8 list \<Rightarrow> int option" where
  "find_group_name s name =
     (let d = ps_group_names s in
      find_name_at (db_size d + 1) (block (db_buf d)) (db_size d) 0 1 name)"

section \<open>Quantifiers\<close>

text \<open>
  The quantifier at \<open>p\<close>: none (the atom stands alone), an error, or the counts with the position
  after it.
\<close>

datatype 'o quant =
    No_quant nat
  | Quant_error "'o re_parse_state"
  | Quant int int nat "'o re_parse_state"

definition parse_quant :: "'o re_parse_state \<Rightarrow> nat \<Rightarrow> 'o quant option" where
  "parse_quant s p = do {
     let invalid = (\<lambda>s. Quant_error (snd (re_parse_error s ''invalid repetition count'')));
     let buf = ps_buf s;
     c \<leftarrow> rd buf p;
     if c = 42 then Some (Quant 0 (int DIGITS_MAX) (p + 1) s)
     else if c = 43 then Some (Quant 1 (int DIGITS_MAX) (p + 1) s)
     else if c = 63 then Some (Quant 0 1 (p + 1) s)
     else if c = 123 then do {
       b \<leftarrow> rd buf (p + 1);
       if \<not> is_digit b then Some (if ps_is_utf16 s then invalid s else No_quant p)
       else do {
         (qmin, q) \<leftarrow> parse_digits buf (p + 1) True;
         b \<leftarrow> rd buf q;
         r \<leftarrow> (if b = 44 then do {
                 b \<leftarrow> rd buf (q + 1);
                 if is_digit b then do {
                   (qmax, q) \<leftarrow> parse_digits buf (q + 1) True;
                   Some (if qmax < qmin then None else Some (qmax, q))
                 } else Some (Some (int DIGITS_MAX, q + 1))
               } else Some (Some (qmin, q)));
         (case r of
            None \<Rightarrow> Some (invalid s)
          | Some (qmax, q) \<Rightarrow> do {
              b \<leftarrow> rd buf q;
              if b \<noteq> 125 \<and> \<not> ps_is_utf16 s then Some (No_quant p)
              else do {
                (r, q, s) \<leftarrow> re_parse_expect s q CHR ''}'';
                Some (if r \<noteq> 0 then Quant_error s else Quant qmin qmax q s)
              }
            })
       }
     }
     else Some (No_quant p)
   }"

abbreviation code_error :: "'o re_parse_state \<Rightarrow> bool" where
  "code_error s \<equiv> db_error (ps_byte_code s)"

text \<open>The code from \<open>start\<close> on.\<close>

definition code_from :: "'o re_parse_state \<Rightarrow> nat \<Rightarrow> u8 list option" where
  "code_from s start = rd_block (block (db_buf (ps_byte_code s))) start (code_size s - start)"

definition code_insert ::
  "'o realloc_func \<Rightarrow> 'o re_parse_state \<Rightarrow> nat \<Rightarrow> nat \<Rightarrow> (int \<times> 'o re_parse_state) option" where
  "code_insert rb s pos len = with_code (\<lambda>d. dbuf_insert rb d pos len) s"

definition quant_oom :: "'o re_parse_state \<Rightarrow> (int \<times> 'o re_parse_state) option" where
  "quant_oom s = Some (re_parse_out_of_memory s)"

text \<open>The instruction \<open>REOP_simple_greedy_quant\<close> in front of the atom, its \<open>REOP_match\<close> emitted.\<close>

definition emit_simple_quant ::
  "'o realloc_func \<Rightarrow> 'o re_parse_state \<Rightarrow> nat \<Rightarrow> int \<Rightarrow> int \<Rightarrow> int \<Rightarrow> (int \<times> 'o re_parse_state) option"
where
  "emit_simple_quant rb s start quant_min quant_max len = do {
     s \<leftarrow> re_emit_op rb s REOP_match;
     (r, s) \<leftarrow> code_insert rb s start 17;
     if r \<noteq> 0 then quant_oom s
     else do {
       s \<leftarrow> code_set s start (op_byte REOP_simple_greedy_quant);
       s \<leftarrow> code_put_u32 s (start + 1) (word_of_nat (code_size s) - word_of_nat start - 17);
       s \<leftarrow> code_put_u32 s (start + 5) (word_of_int quant_min);
       s \<leftarrow> code_put_u32 s (start + 9) (word_of_int quant_max);
       s \<leftarrow> code_put_u32 s (start + 13) (word_of_int len);
       Some (0, s)
     }
   }"

definition split_op :: "bool \<Rightarrow> reop" where
  "split_op greedy = (if greedy then REOP_split_next_first else REOP_split_goto_first)"

text \<open>The cases with \<open>quant_min = 0\<close>; \<open>len\<close> is the length of the atom, at \<open>start\<close>.\<close>

definition emit_quant_zero ::
  "'o realloc_func \<Rightarrow> 'o re_parse_state \<Rightarrow> nat \<Rightarrow> nat \<Rightarrow> nat \<Rightarrow> int \<Rightarrow> bool \<Rightarrow> bool
     \<Rightarrow> (int \<times> 'o re_parse_state) option" where
  "emit_quant_zero rb s start len last_capture_count quant_max greedy zero_check = do {
     (r, start, s) \<leftarrow>
       (if last_capture_count \<noteq> ps_capture_count s then do {
          (r, s) \<leftarrow> code_insert rb s start 3;
          if r \<noteq> 0 then Some (r, start, s)
          else do {
            s \<leftarrow> code_set s start (op_byte REOP_save_reset);
            s \<leftarrow> code_set s (start + 1) (word_of_nat last_capture_count);
            s \<leftarrow> code_set s (start + 2) (word_of_nat (ps_capture_count s) - 1);
            Some (0, start + 3, s)
          }
        } else Some (0, start, s));
     if r \<noteq> 0 then quant_oom s
     else if quant_max = 0 then
       Some (0, s\<lparr>ps_byte_code := (ps_byte_code s)\<lparr>db_size := start\<rparr>\<rparr>)
     else if quant_max = 1 then do {
       (r, s) \<leftarrow> code_insert rb s start 5;
       if r \<noteq> 0 then quant_oom s
       else do {
         s \<leftarrow> code_set s start (op_byte (split_op greedy));
         s \<leftarrow> code_put_u32 s (start + 1) (word_of_nat len);
         Some (0, s)
       }
     }
     else if quant_max = int DIGITS_MAX then do {
       let z = (if zero_check then 1 else 0);
       (r, s) \<leftarrow> code_insert rb s start (5 + z);
       if r \<noteq> 0 then quant_oom s
       else do {
         s \<leftarrow> code_set s start (op_byte (split_op greedy));
         s \<leftarrow> code_put_u32 s (start + 1) (word_of_nat (len + 5 + z));
         if zero_check then do {
           s \<leftarrow> code_set s (start + 1 + 4) (op_byte REOP_push_char_pos);
           (pos, s) \<leftarrow> re_emit_goto rb s REOP_bne_char_pos (word_of_nat start);
           Some (0, s)
         } else do {
           (pos, s) \<leftarrow> re_emit_goto rb s REOP_goto (word_of_nat start);
           Some (0, s)
         }
       }
     }
     else do {
       (r, s) \<leftarrow> code_insert rb s start 10;
       if r \<noteq> 0 then quant_oom s
       else do {
         s \<leftarrow> code_set s start (op_byte REOP_push_i32);
         s \<leftarrow> code_put_u32 s (start + 1) (word_of_int quant_max);
         s \<leftarrow> code_set s (start + 5) (op_byte (split_op greedy));
         s \<leftarrow> code_put_u32 s (start + 6) (word_of_nat (len + 5));
         (pos, s) \<leftarrow> re_emit_goto rb s REOP_loop (word_of_nat (start + 5));
         s \<leftarrow> re_emit_op rb s REOP_drop;
         Some (0, s)
       }
     }
   }"

text \<open>The other cases.\<close>

definition emit_quant_more ::
  "'o realloc_func \<Rightarrow> 'o re_parse_state \<Rightarrow> nat \<Rightarrow> nat \<Rightarrow> int \<Rightarrow> int \<Rightarrow> bool \<Rightarrow> bool
     \<Rightarrow> (int \<times> 'o re_parse_state) option" where
  "emit_quant_more rb s start len quant_min quant_max greedy zero_check =
     (if quant_min = 1 \<and> quant_max = int DIGITS_MAX \<and> \<not> zero_check then do {
        (pos, s) \<leftarrow> re_emit_goto rb s (split_op (\<not> greedy)) (word_of_nat start);
        Some (0, s)
      }
      else do {
        (r, start, s) \<leftarrow>
          (if quant_min = 1 then Some (0, start, s)
           else do {
             (r, s) \<leftarrow> code_insert rb s start 5;
             if r \<noteq> 0 then Some (r, start, s)
             else do {
               s \<leftarrow> code_set s start (op_byte REOP_push_i32);
               s \<leftarrow> code_put_u32 s (start + 1) (word_of_int quant_min);
               (pos, s) \<leftarrow> re_emit_goto rb s REOP_loop (word_of_nat (start + 5));
               s \<leftarrow> re_emit_op rb s REOP_drop;
               Some (0, start + 5, s)
             }
           });
        if r \<noteq> 0 then quant_oom s
        else if quant_max = int DIGITS_MAX then do {
          let z = (if zero_check then 1 else 0);
          let pos = code_size s;
          (_, s) \<leftarrow> re_emit_op_u32 rb s (split_op greedy) (word_of_nat (len + 5 + z));
          s \<leftarrow> (if zero_check then re_emit_op rb s REOP_push_char_pos else Some s);
          (_, s) \<leftarrow> with_code (\<lambda>d. dbuf_put_self rb d start len) s;
          (_, s) \<leftarrow> re_emit_goto rb s (if zero_check then REOP_bne_char_pos else REOP_goto)
             (word_of_nat pos);
          Some (0, s)
        }
        else if quant_max > quant_min then do {
          (_, s) \<leftarrow> re_emit_op_u32 rb s REOP_push_i32 (word_of_int (quant_max - quant_min));
          let pos = code_size s;
          (_, s) \<leftarrow> re_emit_op_u32 rb s (split_op greedy) (word_of_nat (len + 5));
          (_, s) \<leftarrow> with_code (\<lambda>d. dbuf_put_self rb d start len) s;
          (_, s) \<leftarrow> re_emit_goto rb s REOP_loop (word_of_nat pos);
          s \<leftarrow> re_emit_op rb s REOP_drop;
          Some (0, s)
        }
        else Some (0, s)
      })"

text \<open>Label \<open>quantifier\<close>, for the atom from \<open>start\<close> to the end of the code.\<close>

definition emit_quant ::
  "'o realloc_func \<Rightarrow> 'o re_parse_state \<Rightarrow> nat \<Rightarrow> nat \<Rightarrow> int \<Rightarrow> int \<Rightarrow> bool
     \<Rightarrow> (int \<times> 'o re_parse_state) option" where
  "emit_quant rb s start last_capture_count quant_min quant_max greedy = do {
     simple \<leftarrow>
       (if greedy \<and> quant_max > 0 \<and> \<not> code_error s then do {
          atom \<leftarrow> code_from s start;
          re_is_simple_quantifier atom
        } else Some 0);
     if greedy \<and> code_error s then quant_oom s
     else if simple > 0 then emit_simple_quant rb s start quant_min quant_max simple
     else do {
       zero_check \<leftarrow>
         (if greedy then do {
            atom \<leftarrow> code_from s start;
            r \<leftarrow> re_check_advance atom;
            Some (r = 0)
          } else Some False);
       let len = code_size s - start;
       if quant_min = 0 then
         emit_quant_zero rb s start len last_capture_count quant_max greedy zero_check
       else emit_quant_more rb s start len quant_min quant_max greedy zero_check
     }
   }"

text \<open>The end of \<open>re_parse_term\<close>: the quantifier, if there is an atom, and the new \<open>buf_ptr\<close>.\<close>

definition re_parse_quantifier ::
  "'o realloc_func \<Rightarrow> 'o re_parse_state \<Rightarrow> nat \<Rightarrow> nat option \<Rightarrow> nat \<Rightarrow> (int \<times> 'o re_parse_state) option"
where
  "re_parse_quantifier rb s p last_atom_start last_capture_count =
     (case last_atom_start of
        None \<Rightarrow> Some (0, s\<lparr>ps_buf_ptr := p\<rparr>)
      | Some start \<Rightarrow> do {
          q \<leftarrow> parse_quant s p;
          (case q of
             No_quant p \<Rightarrow> Some (0, s\<lparr>ps_buf_ptr := p\<rparr>)
           | Quant_error s \<Rightarrow> Some (-1, s)
           | Quant quant_min quant_max p s \<Rightarrow> do {
               b \<leftarrow> rd (ps_buf s) p;
               let (greedy, p) = (if b = 63 then (False, p + 1) else (True, p));
               (r, s) \<leftarrow> emit_quant rb s start last_capture_count quant_min quant_max greedy;
               Some (if r \<noteq> 0 then (r, s) else (0, s\<lparr>ps_buf_ptr := p\<rparr>))
             })
        })"

section \<open>Terms\<close>

text \<open>What the first \<open>switch\<close> of \<open>re_parse_term\<close> leaves for the quantifier.\<close>

datatype 'o term_result =
    Term_error "'o re_parse_state"
  | Term nat "nat option" nat "'o re_parse_state"

definition term_error :: "'o re_parse_state \<Rightarrow> string \<Rightarrow> 'o term_result option" where
  "term_error s msg = Some (Term_error (snd (re_parse_error s msg)))"

text \<open>\<open>if (is_backward_dir) re_emit_op(s, REOP_prev)\<close>\<close>

definition emit_prev ::
  "'o realloc_func \<Rightarrow> 'o re_parse_state \<Rightarrow> bool \<Rightarrow> 'o re_parse_state option" where
  "emit_prev rb s is_backward_dir = (if is_backward_dir then re_emit_op rb s REOP_prev else Some s)"

text \<open>Label \<open>normal_char\<close>: emit the character or class range \<open>c\<close>.\<close>

definition term_normal_char ::
  "'o realloc_func \<Rightarrow> 'o point_realloc \<Rightarrow> 'o re_parse_state \<Rightarrow> nat \<Rightarrow> int \<Rightarrow> char_range option \<Rightarrow> bool
     \<Rightarrow> 'o term_result option" where
  "term_normal_char rb rp s p c cr is_backward_dir = do {
     let start = code_size s;
     let lcc = ps_capture_count s;
     s \<leftarrow> emit_prev rb s is_backward_dir;
     (ret, s) \<leftarrow>
       (if c \<ge> CLASS_RANGE_BASE then do {
          cr \<leftarrow> cr;
          (ret, s) \<leftarrow> re_emit_range rb s cr;
          st \<leftarrow> cr_free rp cr (ps_opaque s);
          Some (ret, s\<lparr>ps_opaque := st\<rparr>)
        } else do {
          c \<leftarrow> (if ps_ignore_case s then lre_canonicalize (word_of_int c) (ps_is_utf16 s)
               else Some (word_of_int c));
          if c \<le> 0xffff then do {
            s \<leftarrow> re_emit_op_u16 rb s REOP_char c;
            Some (0, s)
          } else do {
            (pos, s) \<leftarrow> re_emit_op_u32 rb s REOP_char32 c;
            Some (0, s)
          }
        });
     if ret \<noteq> 0 then Some (Term_error s)
     else do {
       s \<leftarrow> emit_prev rb s is_backward_dir;
       Some (Term p (Some start) lcc s)
     }
   }"

text \<open>Label \<open>parse_class_atom\<close>.\<close>

definition term_class_atom ::
  "'o realloc_func \<Rightarrow> 'o point_realloc \<Rightarrow> 'o re_parse_state \<Rightarrow> nat \<Rightarrow> bool \<Rightarrow> 'o term_result option" where
  "term_class_atom rb rp s p is_backward_dir = do {
     (c, cr, p, s) \<leftarrow> get_class_atom rp s p False;
     if c < 0 then Some (Term_error s)
     else term_normal_char rb rp s p c cr is_backward_dir
   }"

type_synonym 'o disj_parser = "'o re_parse_state \<Rightarrow> bool \<Rightarrow> (int \<times> 'o re_parse_state) option"

text \<open>Labels \<open>lookahead\<close> and \<open>parse_capture\<close>; \<open>p\<close> is at the start of the group's disjunction.\<close>

definition term_lookahead ::
  "'o disj_parser \<Rightarrow> 'o realloc_func \<Rightarrow> 'o re_parse_state \<Rightarrow> nat \<Rightarrow> bool \<Rightarrow> bool \<Rightarrow> 'o term_result option"
where
  "term_lookahead pdisj rb s p is_neg is_backward_lookahead = do {
     let start = (if \<not> ps_is_utf16 s \<and> \<not> is_backward_lookahead then Some (code_size s) else None);
     let lcc = (if \<not> ps_is_utf16 s \<and> \<not> is_backward_lookahead then ps_capture_count s else 0);
     (pos, s) \<leftarrow> re_emit_op_u32 rb s (if is_neg then REOP_negative_lookahead else REOP_lookahead) 0;
     (r, s) \<leftarrow> pdisj (s\<lparr>ps_buf_ptr := p\<rparr>) is_backward_lookahead;
     if r \<noteq> 0 then Some (Term_error s)
     else do {
       (r, p, s) \<leftarrow> re_parse_expect s (ps_buf_ptr s) CHR '')'';
       if r \<noteq> 0 then Some (Term_error s)
       else do {
         s \<leftarrow> re_emit_op rb s REOP_match;
         if code_error s then Some (Term_error s)
         else do {
           s \<leftarrow> code_put_u32 s pos (word_of_nat (code_size s) - word_of_nat (pos + 4));
           Some (Term p start lcc s)
         }
       }
     }
   }"

definition term_capture ::
  "'o disj_parser \<Rightarrow> 'o realloc_func \<Rightarrow> 'o re_parse_state \<Rightarrow> nat \<Rightarrow> bool \<Rightarrow> 'o term_result option" where
  "term_capture pdisj rb s p is_backward_dir =
     (if ps_capture_count s \<ge> CAPTURE_COUNT_MAX then term_error s ''too many captures''
      else do {
        let start = code_size s;
        let lcc = ps_capture_count s;
        let capture_index = word_of_nat (ps_capture_count s);
        let s = s\<lparr>ps_capture_count := ps_capture_count s + 1\<rparr>;
        s \<leftarrow> re_emit_op_u8 rb s (if is_backward_dir then REOP_save_end else REOP_save_start) capture_index;
        (r, s) \<leftarrow> pdisj (s\<lparr>ps_buf_ptr := p\<rparr>) is_backward_dir;
        if r \<noteq> 0 then Some (Term_error s)
        else do {
          let p = ps_buf_ptr s;
          s \<leftarrow> re_emit_op_u8 rb s (if is_backward_dir then REOP_save_start else REOP_save_end) capture_index;
          (r, p, s) \<leftarrow> re_parse_expect s p CHR '')'';
          if r \<noteq> 0 then Some (Term_error s)
          else Some (Term p (Some start) lcc s)
        }
      })"

text \<open>The terms that start with a parenthesis, at \<open>p\<close>.\<close>

definition term_group ::
  "'o disj_parser \<Rightarrow> 'o realloc_func \<Rightarrow> 'o re_parse_state \<Rightarrow> nat \<Rightarrow> bool \<Rightarrow> 'o term_result option" where
  "term_group pdisj rb s p is_backward_dir = do {
     let buf = ps_buf s;
     b1 \<leftarrow> rd buf (p + 1);
     if b1 = 63 then do {
       b2 \<leftarrow> rd buf (p + 2);
       if b2 = 58 then do {
         let start = code_size s;
         let lcc = ps_capture_count s;
         (r, s) \<leftarrow> pdisj (s\<lparr>ps_buf_ptr := p + 3\<rparr>) is_backward_dir;
         if r \<noteq> 0 then Some (Term_error s)
         else do {
           (r, p, s) \<leftarrow> re_parse_expect s (ps_buf_ptr s) CHR '')'';
           Some (if r \<noteq> 0 then Term_error s else Term p (Some start) lcc s)
         }
       }
       else if b2 = 61 \<or> b2 = 33 then term_lookahead pdisj rb s (p + 3) (b2 = 33) False
       else if b2 = 60 then do {
         b3 \<leftarrow> rd buf (p + 3);
         if b3 = 61 \<or> b3 = 33 then term_lookahead pdisj rb s (p + 4) (b3 = 33) True
         else do {
           (r, name) \<leftarrow> re_parse_group_name buf (p + 3) (ps_is_utf16 s);
           (case r of
              None \<Rightarrow> term_error (put_tmp_buf name s) ''invalid group name''
            | Some p \<Rightarrow> do {
                let s = put_tmp_buf (name @ [0]) s;
                i \<leftarrow> find_group_name s name;
                if i > 0 then term_error s ''duplicate group name''
                else do {
                  (_, s) \<leftarrow> with_names (\<lambda>d. dbuf_put rb d (name @ [0])) s;
                  term_capture pdisj rb (s\<lparr>ps_has_named_captures := 1\<rparr>) p is_backward_dir
                }
              })
         }
       }
       else term_error s ''invalid group''
     }
     else do {
       (_, s) \<leftarrow> with_names (\<lambda>d. dbuf_putc rb d 0) s;
       term_capture pdisj rb s (p + 1) is_backward_dir
     }
   }"

text \<open>Label \<open>emit_back_reference\<close>.\<close>

definition term_back_reference ::
  "'o realloc_func \<Rightarrow> 'o re_parse_state \<Rightarrow> nat \<Rightarrow> int \<Rightarrow> bool \<Rightarrow> 'o term_result option" where
  "term_back_reference rb s p c is_backward_dir = do {
     let start = code_size s;
     let lcc = ps_capture_count s;
     s \<leftarrow> re_emit_op_u8 rb s
       (if is_backward_dir then REOP_backward_back_reference else REOP_back_reference) (word_of_int c);
     Some (Term p (Some start) lcc s)
   }"

text \<open>\<open>\k<name>\<close> at \<open>p\<close>.\<close>

definition term_named_reference ::
  "'o realloc_func \<Rightarrow> 'o point_realloc \<Rightarrow> 'o re_parse_state \<Rightarrow> nat \<Rightarrow> bool \<Rightarrow> 'o term_result option" where
  "term_named_reference rb rp s p is_backward_dir = do {
     let buf = ps_buf s;
     let strict = (\<lambda>s msg. do {
       (named, s) \<leftarrow> (if ps_is_utf16 s then Some (True, s) else re_has_named_captures s);
       if named then term_error s msg else term_class_atom rb rp s p is_backward_dir
     });
     b \<leftarrow> rd buf (p + 2);
     if b \<noteq> 60 then strict s ''expecting group name''
     else do {
       (r, name) \<leftarrow> re_parse_group_name buf (p + 3) (ps_is_utf16 s);
       (case r of
          None \<Rightarrow> strict (put_tmp_buf name s) ''invalid group name''
        | Some p1 \<Rightarrow> do {
            let s = put_tmp_buf (name @ [0]) s;
            c \<leftarrow> find_group_name s name;
            c \<leftarrow> (if c < 0 then map_option fst (re_parse_captures s (Some name)) else Some c);
            if c < 0 then strict s ''group name not defined''
            else term_back_reference rb s p1 c is_backward_dir
          })
     }
   }"

text \<open>The octal escapes of Annex B.1.4 after \<open>\0\<close> (at most two more digits), and instead of a reference.\<close>

definition octal_digit :: "u8 \<Rightarrow> bool" where
  "octal_digit b \<longleftrightarrow> 48 \<le> b \<and> b \<le> 55"

definition octal_more :: "u8 list \<Rightarrow> nat \<Rightarrow> int \<Rightarrow> (int \<times> nat) option" where
  "octal_more buf p c = do {
     b \<leftarrow> rd buf p;
     Some (if octal_digit b then (c * 8 + uint b - 48, p + 1) else (c, p))
   }"

definition octal_zero :: "u8 list \<Rightarrow> nat \<Rightarrow> (int \<times> nat) option" where
  "octal_zero buf p = do {
     b \<leftarrow> rd buf p;
     if octal_digit b then octal_more buf (p + 1) (uint b - 48) else Some (0, p)
   }"

definition octal_reference :: "u8 list \<Rightarrow> nat \<Rightarrow> (int \<times> nat) option" where
  "octal_reference buf q = do {
     b \<leftarrow> rd buf q;
     if b \<le> 55 then do {
       let (c, p) = (if b \<le> 51 then (uint b - 48, q + 1) else (0, q));
       b \<leftarrow> rd buf p;
       if octal_digit b then octal_more buf (p + 1) (c * 8 + uint b - 48) else Some (c, p)
     }
     else Some (uint b, q + 1)
   }"

text \<open>The terms that start with a backslash, at \<open>p\<close>.\<close>

definition term_backslash ::
  "'o realloc_func \<Rightarrow> 'o point_realloc \<Rightarrow> 'o re_parse_state \<Rightarrow> nat \<Rightarrow> bool \<Rightarrow> 'o term_result option" where
  "term_backslash rb rp s p is_backward_dir = do {
     let buf = ps_buf s;
     b \<leftarrow> rd buf (p + 1);
     if b = 98 \<or> b = 66 then do {
       s \<leftarrow> re_emit_op rb s (if b = 98 then REOP_word_boundary else REOP_not_word_boundary);
       Some (Term (p + 2) None 0 s)
     }
     else if b = 107 then term_named_reference rb rp s p is_backward_dir
     else if b = 48 then
       (if ps_is_utf16 s then do {
          b \<leftarrow> rd buf (p + 2);
          if is_digit b then term_error s ''invalid decimal escape in regular expression''
          else term_normal_char rb rp s (p + 2) 0 None is_backward_dir
        } else do {
          (c, p) \<leftarrow> octal_zero buf (p + 2);
          term_normal_char rb rp s p c None is_backward_dir
        })
     else if 49 \<le> b \<and> b \<le> 57 then do {
       let q = p + 1;
       (c, p) \<leftarrow> parse_digits buf q False;
       (bad, s) \<leftarrow>
         (if c < 0 then Some (True, s)
          else if c \<ge> int (ps_capture_count s) then do {
            (n, s) \<leftarrow> re_count_captures s;
            Some (c \<ge> n, s)
          }
          else Some (False, s));
       if \<not> bad then term_back_reference rb s p c is_backward_dir
       else if \<not> ps_is_utf16 s then do {
         (c, p) \<leftarrow> octal_reference buf q;
         term_normal_char rb rp s p c None is_backward_dir
       }
       else term_error s ''back reference out of range in regular expression''
     }
     else term_class_atom rb rp s p is_backward_dir
   }"

text \<open>Annex B: is the \<open>{\<close> at \<open>p\<close> like a repetition count?\<close>

definition like_repetition :: "u8 list \<Rightarrow> nat \<Rightarrow> bool option" where
  "like_repetition buf p = do {
     (_, p1) \<leftarrow> parse_digits buf (p + 1) True;
     b \<leftarrow> rd buf p1;
     p1 \<leftarrow> (if b = 44 then do {
              b \<leftarrow> rd buf (p1 + 1);
              if is_digit b then map_option snd (parse_digits buf (p1 + 1) True) else Some (p1 + 1)
            } else Some p1);
     b \<leftarrow> rd buf p1;
     Some (b = 125)
   }"

definition term_atom ::
  "'o disj_parser \<Rightarrow> 'o realloc_func \<Rightarrow> 'o point_realloc \<Rightarrow> 'o re_parse_state \<Rightarrow> bool \<Rightarrow> 'o term_result option"
where
  "term_atom pdisj rb rp s is_backward_dir = do {
     let buf = ps_buf s;
     let p = ps_buf_ptr s;
     c \<leftarrow> rd buf p;
     if c = 94 then do {
       s \<leftarrow> re_emit_op rb s REOP_line_start;
       Some (Term (p + 1) None 0 s)
     }
     else if c = 36 then do {
       s \<leftarrow> re_emit_op rb s REOP_line_end;
       Some (Term (p + 1) None 0 s)
     }
     else if c = 46 then do {
       let start = code_size s;
       let lcc = ps_capture_count s;
       s \<leftarrow> emit_prev rb s is_backward_dir;
       s \<leftarrow> re_emit_op rb s (if ps_dotall s then REOP_any else REOP_dot);
       s \<leftarrow> emit_prev rb s is_backward_dir;
       Some (Term (p + 1) (Some start) lcc s)
     }
     else if c = 123 then
       (if ps_is_utf16 s then term_error s ''syntax error''
        else do {
          b \<leftarrow> rd buf (p + 1);
          rep \<leftarrow> (if is_digit b then like_repetition buf p else Some False);
          if rep then term_error s ''nothing to repeat''
          else term_class_atom rb rp s p is_backward_dir
        })
     else if c = 42 \<or> c = 43 \<or> c = 63 then term_error s ''nothing to repeat''
     else if c = 40 then term_group pdisj rb s p is_backward_dir
     else if c = 92 then term_backslash rb rp s p is_backward_dir
     else if c = 91 then do {
       let start = code_size s;
       let lcc = ps_capture_count s;
       s \<leftarrow> emit_prev rb s is_backward_dir;
       (r, p, s) \<leftarrow> re_parse_char_class rb rp s p;
       if r \<noteq> 0 then Some (Term_error s)
       else do {
         s \<leftarrow> emit_prev rb s is_backward_dir;
         Some (Term p (Some start) lcc s)
       }
     }
     else if (c = 93 \<or> c = 125) \<and> ps_is_utf16 s then term_error s ''syntax error''
     else term_class_atom rb rp s p is_backward_dir
   }"

definition re_parse_term ::
  "'o disj_parser \<Rightarrow> 'o realloc_func \<Rightarrow> 'o point_realloc \<Rightarrow> 'o disj_parser" where
  "re_parse_term pdisj rb rp s is_backward_dir = do {
     r \<leftarrow> term_atom pdisj rb rp s is_backward_dir;
     (case r of
        Term_error s \<Rightarrow> Some (-1, s)
      | Term p start lcc s \<Rightarrow> re_parse_quantifier rb s p start lcc)
   }"

section \<open>Alternatives and disjunctions\<close>

text \<open>The last term, from \<open>term_start\<close> on, goes before the others, which start at \<open>start\<close>.\<close>

definition reverse_term ::
  "'o realloc_func \<Rightarrow> 'o re_parse_state \<Rightarrow> nat \<Rightarrow> nat \<Rightarrow> (int \<times> 'o re_parse_state) option" where
  "reverse_term rb s start term_start = do {
     let e = code_size s;
     let term_size = szt_sub e term_start;
     (r, s) \<leftarrow> with_code (\<lambda>d. dbuf_realloc rb d (szt (e + term_size))) s;
     if r \<noteq> 0 then Some (-1, s)
     else do {
       let b = block (db_buf (ps_byte_code s));
       data \<leftarrow> rd_block b start (e - start);
       b \<leftarrow> wr_block b (start + term_size) data;
       data \<leftarrow> rd_block b e term_size;
       b \<leftarrow> wr_block b start data;
       Some (0, s\<lparr>ps_byte_code := (ps_byte_code s)\<lparr>db_buf := Some b\<rparr>\<rparr>)
     }
   }"

fun alternative_loop ::
  "nat \<Rightarrow> 'o disj_parser \<Rightarrow> 'o realloc_func \<Rightarrow> 'o point_realloc \<Rightarrow> nat \<Rightarrow> 'o disj_parser" where
  "alternative_loop 0 pdisj rb rp start s is_backward_dir = None"
| "alternative_loop (Suc fuel) pdisj rb rp start s is_backward_dir =
     (let p = ps_buf_ptr s in
      if p \<ge> ps_buf_end s then Some (0, s)
      else do {
        b \<leftarrow> rd (ps_buf s) p;
        if b = 124 \<or> b = 41 then Some (0, s)
        else do {
          let term_start = code_size s;
          (r, s) \<leftarrow> re_parse_term pdisj rb rp s is_backward_dir;
          if r \<noteq> 0 then Some (r, s)
          else if is_backward_dir then do {
            (r, s) \<leftarrow> reverse_term rb s start term_start;
            if r \<noteq> 0 then Some (-1, s)
            else alternative_loop fuel pdisj rb rp start s is_backward_dir
          }
          else alternative_loop fuel pdisj rb rp start s is_backward_dir
        }
      })"

definition re_parse_alternative ::
  "'o disj_parser \<Rightarrow> 'o realloc_func \<Rightarrow> 'o point_realloc \<Rightarrow> 'o disj_parser" where
  "re_parse_alternative pdisj rb rp s is_backward_dir =
     alternative_loop (length (ps_buf s) + 1) pdisj rb rp (code_size s) s is_backward_dir"

fun disjunction_loop ::
  "nat \<Rightarrow> 'o disj_parser \<Rightarrow> 'o realloc_func \<Rightarrow> 'o point_realloc \<Rightarrow> nat \<Rightarrow> 'o disj_parser" where
  "disjunction_loop 0 pdisj rb rp start s is_backward_dir = None"
| "disjunction_loop (Suc fuel) pdisj rb rp start s is_backward_dir = do {
     b \<leftarrow> rd (ps_buf s) (ps_buf_ptr s);
     if b \<noteq> 124 then Some (0, s)
     else do {
       let s = s\<lparr>ps_buf_ptr := ps_buf_ptr s + 1\<rparr>;
       let len = code_size s - start;
       (r, s) \<leftarrow> code_insert rb s start 5;
       if r \<noteq> 0 then Some (re_parse_out_of_memory s)
       else do {
         s \<leftarrow> code_set s start (op_byte REOP_split_next_first);
         s \<leftarrow> code_put_u32 s (start + 1) (word_of_nat (len + 5));
         (pos, s) \<leftarrow> re_emit_op_u32 rb s REOP_goto 0;
         (r, s) \<leftarrow> re_parse_alternative pdisj rb rp s is_backward_dir;
         if r \<noteq> 0 then Some (-1, s)
         else do {
           s \<leftarrow> code_put_u32 s pos (word_of_nat (code_size s) - word_of_nat (pos + 4));
           disjunction_loop fuel pdisj rb rp start s is_backward_dir
         }
       }
     }
   }"

primrec re_parse_disjunction ::
  "nat \<Rightarrow> 'o realloc_func \<Rightarrow> 'o point_realloc \<Rightarrow> 'o disj_parser" where
  "re_parse_disjunction 0 rb rp = (\<lambda>s is_backward_dir. Some (re_parse_error s ''stack overflow''))"
| "re_parse_disjunction (Suc depth) rb rp = (\<lambda>s is_backward_dir. do {
     let pdisj = re_parse_disjunction depth rb rp;
     let start = code_size s;
     (r, s) \<leftarrow> re_parse_alternative pdisj rb rp s is_backward_dir;
     if r \<noteq> 0 then Some (-1, s)
     else disjunction_loop (length (ps_buf s) + 1) pdisj rb rp start s is_backward_dir
   })"

section \<open>Stack size\<close>

function stack_size_loop :: "u8 list \<Rightarrow> nat \<Rightarrow> nat \<Rightarrow> nat \<Rightarrow> int option" where
  "stack_size_loop bc pos depth depth_max =
     (if pos < length bc then
        (case reop_of (unat (bc ! pos)) of
           None \<Rightarrow> None
         | Some opcode \<Rightarrow>
             if pos + reop_size opcode > length bc then None
             else (case instr_len bc pos opcode of
                None \<Rightarrow> None
              | Some n \<Rightarrow>
                  if opcode = REOP_push_i32 \<or> opcode = REOP_push_char_pos then
                    (if depth + 1 > depth_max then
                       (if depth + 1 > STACK_SIZE_MAX then Some (-1)
                        else stack_size_loop bc (pos + n) (depth + 1) (depth + 1))
                     else stack_size_loop bc (pos + n) (depth + 1) depth_max)
                  else if opcode = REOP_drop \<or> opcode = REOP_bne_char_pos then
                    (if depth > 0 then stack_size_loop bc (pos + n) (depth - 1) depth_max
                     else None)
                  else stack_size_loop bc (pos + n) depth depth_max))
      else Some (int depth_max))"
  by pat_completeness auto
termination
  by (relation "measure (\<lambda>(bc, pos, a, b). length bc - pos)") (auto dest: instr_len_pos)

declare stack_size_loop.simps [simp del]

definition compute_stack_size :: "u8 list \<Rightarrow> int option" where
  "compute_stack_size bc_buf = stack_size_loop (drop RE_HEADER_LEN bc_buf) 0 0 0"

section \<open>lre\_compile\<close>

definition re_parse_init :: "u8 list \<Rightarrow> nat \<Rightarrow> u32 \<Rightarrow> 'o \<Rightarrow> 'o re_parse_state" where
  "re_parse_init buf buf_len re_flags op =
     \<lparr>ps_byte_code = dbuf_init2 op, ps_buf = buf, ps_buf_ptr = 0, ps_buf_end = buf_len,
      ps_re_flags = re_flags, ps_is_utf16 = bit re_flags LRE_FLAG_UTF16,
      ps_ignore_case = bit re_flags LRE_FLAG_IGNORECASE, ps_dotall = bit re_flags LRE_FLAG_DOTALL,
      ps_capture_count = 1, ps_total_capture_count = -1, ps_has_named_captures = -1,
      ps_opaque = op, ps_group_names = dbuf_init2 op, ps_u = replicate TMP_BUF_SIZE 0\<rparr>"

text \<open>The header and the code in front of the pattern's.\<close>

definition compile_prefix :: "'o realloc_func \<Rightarrow> 'o re_parse_state \<Rightarrow> 'o re_parse_state option" where
  "compile_prefix rb s = do {
     s \<leftarrow> re_emit_u8 rb s (ps_re_flags s);
     s \<leftarrow> re_emit_u8 rb s 0;
     s \<leftarrow> re_emit_u8 rb s 0;
     s \<leftarrow> re_emit_u32 rb s 0;
     s \<leftarrow> (if \<not> bit (ps_re_flags s) LRE_FLAG_STICKY then do {
             (_, s) \<leftarrow> re_emit_op_u32 rb s REOP_split_goto_first (1 + 5);
             s \<leftarrow> re_emit_op rb s REOP_any;
             (_, s) \<leftarrow> re_emit_op_u32 rb s REOP_goto (- (5 + 1 + 5));
             Some s
           } else Some s);
     re_emit_op_u8 rb s REOP_save_start 0
   }"

text \<open>After the pattern: \<open>Inl\<close> the state with its error message, \<open>Inr\<close> the finished one.\<close>

definition compile_finish ::
  "'o realloc_func \<Rightarrow> 'o re_parse_state \<Rightarrow> ('o re_parse_state + 'o re_parse_state) option" where
  "compile_finish rb s = do {
     let error = (\<lambda>s msg. Some (Inl (snd (re_parse_error s msg))));
     s \<leftarrow> re_emit_op_u8 rb s REOP_save_end 0;
     s \<leftarrow> re_emit_op rb s REOP_match;
     b \<leftarrow> rd (ps_buf s) (ps_buf_ptr s);
     if b \<noteq> 0 then error s ''extraneous characters at the end''
     else if code_error s then Some (Inl (snd (re_parse_out_of_memory s)))
     else do {
       bc \<leftarrow> code_from s 0;
       depth \<leftarrow> compute_stack_size bc;
       if depth < 0 then error s ''too many imbricated quantifiers''
       else do {
         s \<leftarrow> code_set s RE_HEADER_CAPTURE_COUNT (word_of_nat (ps_capture_count s));
         s \<leftarrow> code_set s RE_HEADER_STACK_SIZE (word_of_int depth);
         s \<leftarrow> code_put_u32 s 3 (word_of_nat (code_size s) - word_of_nat RE_HEADER_LEN);
         s \<leftarrow> (if db_size (ps_group_names s) > ps_capture_count s - 1 then do {
                 names \<leftarrow> rd_block (block (db_buf (ps_group_names s))) 0 (db_size (ps_group_names s));
                 (_, s) \<leftarrow> with_code (\<lambda>d. dbuf_put rb d names) s;
                 flags \<leftarrow> rd (block (db_buf (ps_byte_code s))) RE_HEADER_FLAGS;
                 code_set s RE_HEADER_FLAGS (flags OR push_bit LRE_FLAG_NAMED_GROUPS 1)
               } else Some s);
         Some (Inr s)
       }
     }
   }"

definition free_names :: "'o realloc_func \<Rightarrow> 'o re_parse_state \<Rightarrow> 'o re_parse_state option" where
  "free_names rb s = do {
     d \<leftarrow> dbuf_free rb ((ps_group_names s)\<lparr>db_opaque := ps_opaque s\<rparr>);
     Some (s\<lparr>ps_group_names := d, ps_opaque := db_opaque d\<rparr>)
   }"

text \<open>
  The code (\<open>None\<close> for NULL), the message in the caller's \<open>error_msg\<close> and the allocator. \<open>depth\<close> is
  the room of the C stack.
\<close>

definition lre_compile ::
  "nat \<Rightarrow> 'o realloc_func \<Rightarrow> 'o point_realloc \<Rightarrow> u8 list \<Rightarrow> int \<Rightarrow> u8 list \<Rightarrow> nat \<Rightarrow> u32 \<Rightarrow> 'o
     \<Rightarrow> (u8 list option \<times> u8 list \<times> 'o) option" where
  "lre_compile depth rb rp error_msg error_msg_size buf buf_len re_flags op = do {
     s \<leftarrow> compile_prefix rb (re_parse_init buf buf_len re_flags op);
     (r, s) \<leftarrow> re_parse_disjunction depth rb rp s False;
     res \<leftarrow> (if r \<noteq> 0 then Some (Inl s) else compile_finish rb s);
     (case res of
        Inl s \<Rightarrow> do {
          d \<leftarrow> dbuf_free rb ((ps_byte_code s)\<lparr>db_opaque := ps_opaque s\<rparr>);
          s \<leftarrow> free_names rb (s\<lparr>ps_byte_code := d, ps_opaque := db_opaque d\<rparr>);
          error_msg \<leftarrow> pstrcpy error_msg 0 error_msg_size (ps_u s);
          Some (None, error_msg, ps_opaque s)
        }
      | Inr s \<Rightarrow> do {
          s \<leftarrow> free_names rb s;
          error_msg \<leftarrow> wr error_msg 0 0;
          Some (Some (dbuf_bytes (ps_byte_code s)), error_msg, ps_opaque s)
        })
   }"

end
