(* ===== verification/Re_Safety.thy ===== *)
theory Re_Safety
  imports Re_Exec
begin

text \<open>
  Memory safety of the executor. \<open>re_wf\<close> is a byte code check: every instruction the code can
  reach is decoded with its operands inside the block, jumps go to instructions, and the integer
  stack has one depth per instruction, at most \<open>stack_size_max\<close>. For code that passes it the
  executor never leaves the subject, the code, the captures, the integer stack or the
  backtracking stack, whatever the subject is and however many steps it runs.
\<close>

section \<open>Positions in the subject\<close>

definition pos_ok :: "'o re_exec_context \<Rightarrow> nat \<Rightarrow> bool" where
  "pos_ok s p \<longleftrightarrow> p \<le> cbuf_end s \<and> (cbuf_type s \<noteq> 0 \<longrightarrow> even p)"

definition subject_ok :: "'o re_exec_context \<Rightarrow> bool" where
  "subject_ok s \<longleftrightarrow>
     cbuf_end s = length (cbuf s) \<and> pos_ok s (cbuf_end s) \<and> length (cbuf s) \<le> PTRDIFF_MAX"

lemma pos_ok_0 [simp]: "pos_ok s 0"
  by (simp add: pos_ok_def)

lemma get_u16_some: "p + 2 \<le> length m \<Longrightarrow> \<exists>v. get_u16 m p = Some v"
  by (simp add: get_u16_def rd_block_def)

lemma pos_unit:
  assumes "subject_ok s" "pos_ok s p" "pos_ok s e" "p < e" "cbuf_type s \<noteq> 0"
  shows "p + 2 \<le> e" "\<exists>v. get_u16 (cbuf s) p = Some v" "pos_ok s (p + 2)"
proof -
  show le: "p + 2 \<le> e"
    using assms by (auto simp: pos_ok_def elim!: evenE)
  then show "\<exists>v. get_u16 (cbuf s) p = Some v"
    using assms by (intro get_u16_some) (simp add: subject_ok_def pos_ok_def)
  show "pos_ok s (p + 2)"
    using le assms by (simp add: pos_ok_def)
qed

lemma pos_before:
  assumes "subject_ok s" "pos_ok s p" "pos_ok s b" "b < p" "cbuf_type s \<noteq> 0"
  shows "b + 2 \<le> p" "\<exists>v. unit_before (cbuf s) p 2 = Some v" "pos_ok s (p - 2)"
proof -
  show le: "b + 2 \<le> p"
    using assms by (auto simp: pos_ok_def elim!: evenE)
  then show "pos_ok s (p - 2)"
    using assms by (auto simp: pos_ok_def)
  have "p \<le> length (cbuf s)"
    using assms by (simp add: subject_ok_def pos_ok_def)
  then have "p - 2 + 2 \<le> length (cbuf s)" using le by linarith
  then show "\<exists>v. unit_before (cbuf s) p 2 = Some v"
    using get_u16_some [of "p - 2" "cbuf s"] le by (simp add: unit_before_def)
qed

lemma GET_CHAR_ok:
  assumes s: "subject_ok s" and p: "pos_ok s p" "pos_ok s e" "p < e"
  shows "\<exists>c q. GET_CHAR (cbuf_type s) (cbuf s) p e = Some (c, q) \<and> pos_ok s q \<and> p < q \<and> q \<le> e"
proof (cases "cbuf_type s = 0")
  case True
  with assms show ?thesis by (simp add: GET_CHAR_def rd_def subject_ok_def pos_ok_def)
next
  case False
  note u = pos_unit [OF s p False]
  obtain v where v: "get_u16 (cbuf s) p = Some v" using u(2) by blast
  show ?thesis
  proof (cases "is_hi_surrogate v \<and> cbuf_type s = 2 \<and> p + 2 < e")
    case pair: True
    note u2 = pos_unit [OF s u(3) p(2) _ False]
    obtain w where "get_u16 (cbuf s) (p + 2) = Some w" using u2(2) pair by blast
    moreover have "p + 2 + 2 \<le> e" "pos_ok s (p + 2 + 2)" using u2 pair by auto
    ultimately show ?thesis
      using False v pair u(1,3) by (simp add: GET_CHAR_def Let_def)
  next
    case no: False
    then have "GET_CHAR (cbuf_type s) (cbuf s) p e = Some (v, p + 2)"
      using False v by (auto simp: GET_CHAR_def Let_def)
    with u(1,3) show ?thesis by simp
  qed
qed

lemma PEEK_CHAR_ok:
  assumes s: "subject_ok s" and p: "pos_ok s p" "p < cbuf_end s"
  shows "\<exists>c. PEEK_CHAR (cbuf_type s) (cbuf s) p (cbuf_end s) = Some c"
proof (cases "cbuf_type s = 0")
  case True
  with assms show ?thesis by (simp add: PEEK_CHAR_def rd_def subject_ok_def)
next
  case False
  have e: "pos_ok s (cbuf_end s)" using s unfolding subject_ok_def by blast
  note u = pos_unit [OF s p(1) e p(2) False]
  obtain v where v: "get_u16 (cbuf s) p = Some v" using u(2) by blast
  show ?thesis
  proof (cases "is_hi_surrogate v \<and> cbuf_type s = 2 \<and> p + 2 < cbuf_end s")
    case pair: True
    then obtain w where "get_u16 (cbuf s) (p + 2) = Some w"
      using pos_unit(2) [OF s u(3) e _ False] by blast
    then show ?thesis using False v by (simp add: PEEK_CHAR_def)
  next
    case no: False
    then show ?thesis using False v by (auto simp: PEEK_CHAR_def)
  qed
qed

lemma PEEK_PREV_CHAR_ok:
  assumes s: "subject_ok s" and p: "pos_ok s p" "0 < p"
  shows "\<exists>c. PEEK_PREV_CHAR (cbuf_type s) (cbuf s) p = Some c"
proof (cases "cbuf_type s = 0")
  case True
  with assms show ?thesis
    by (simp add: PEEK_PREV_CHAR_def rd_def subject_ok_def pos_ok_def)
next
  case False
  note u = pos_before [OF s p(1) pos_ok_0 p(2) False]
  obtain v where v: "unit_before (cbuf s) p 2 = Some v" using u(2) by blast
  show ?thesis
  proof (cases "is_lo_surrogate v \<and> cbuf_type s = 2 \<and> 4 \<le> p")
    case pair: True
    have "p - 4 + 2 \<le> length (cbuf s)"
      using p s pair by (auto simp: subject_ok_def pos_ok_def)
    then obtain w where "unit_before (cbuf s) p 4 = Some w"
      using pair get_u16_some by (force simp: unit_before_def)
    then show ?thesis using False v by (simp add: PEEK_PREV_CHAR_def)
  next
    case no: False
    then show ?thesis using False v by (auto simp: PEEK_PREV_CHAR_def)
  qed
qed

lemma GET_PREV_CHAR_ok:
  assumes s: "subject_ok s" and p: "pos_ok s p" "pos_ok s b" "b < p"
  shows "\<exists>c q. GET_PREV_CHAR (cbuf_type s) (cbuf s) p b = Some (c, q) \<and> pos_ok s q \<and> b \<le> q \<and> q < p"
proof (cases "cbuf_type s = 0")
  case True
  with assms show ?thesis
    by (auto simp: GET_PREV_CHAR_def rd_def subject_ok_def pos_ok_def)
next
  case False
  note u = pos_before [OF s p False]
  obtain v where v: "unit_before (cbuf s) p 2 = Some v" using u(2) by blast
  show ?thesis
  proof (cases "is_lo_surrogate v \<and> cbuf_type s = 2 \<and> p - 2 > b")
    case pair: True
    note u2 = pos_before [OF s u(3) p(2) _ False]
    obtain w where "unit_before (cbuf s) (p - 2) 2 = Some w" using u2(2) pair by blast
    moreover have "b + 2 \<le> p - 2" "pos_ok s (p - 2 - 2)" "b \<le> p - 4" using u2 pair by auto
    ultimately show ?thesis
      using False v pair u(1,3) by (simp add: GET_PREV_CHAR_def Let_def)
  next
    case no: False
    then have "GET_PREV_CHAR (cbuf_type s) (cbuf s) p b = Some (v, p - 2)"
      using False v by (auto simp: GET_PREV_CHAR_def Let_def)
    with u(1,3) show ?thesis by simp
  qed
qed

lemma PREV_CHAR_ok:
  assumes s: "subject_ok s" and p: "pos_ok s p" "0 < p"
  shows "\<exists>q. PREV_CHAR (cbuf_type s) (cbuf s) p 0 = Some q \<and> pos_ok s q \<and> q < p"
proof -
  obtain c q where "GET_PREV_CHAR (cbuf_type s) (cbuf s) p 0 = Some (c, q)" "pos_ok s q" "q < p"
    using GET_PREV_CHAR_ok [OF s p(1) pos_ok_0 p(2)] by blast
  moreover have "pos_ok s (p - 2)" "2 \<le> p" if "cbuf_type s \<noteq> 0"
    using pos_before [OF s p(1) pos_ok_0 p(2) that] by auto
  moreover have "pos_ok s (p - 1)" if "cbuf_type s = 0"
    using p that by (simp add: pos_ok_def)
  ultimately show ?thesis
    by (auto simp: GET_PREV_CHAR_def PREV_CHAR_def Let_def bind_Some_iff split: if_splits)
qed

section \<open>Stepping back over what was matched\<close>

text \<open>
  A simple quantifier gives back its repetitions by \<open>PREV_CHAR\<close>. \<open>back_steps\<close> is how many of
  these steps a position has before it. Reading a character forward adds one, except at a position
  inside a surrogate pair (\<open>mid_pair\<close>), where going back takes the whole pair.
\<close>

function back_steps :: "nat \<Rightarrow> u8 list \<Rightarrow> nat \<Rightarrow> nat" where
  "back_steps ty m p =
     (case PREV_CHAR ty m p 0 of
        None \<Rightarrow> 0
      | Some q \<Rightarrow> if q < p then Suc (back_steps ty m q) else 0)"
  by auto
termination
  by (relation "measure (\<lambda>(ty, m, p). p)") auto

declare back_steps.simps [simp del]

lemma PREV_CHAR_0 [simp]: "PREV_CHAR ty m 0 0 = None"
  by (simp add: PREV_CHAR_def)

lemma back_steps_0 [simp]: "back_steps ty m 0 = 0"
  by (simp add: back_steps.simps)

lemma back_steps_prev:
  "PREV_CHAR ty m p 0 = Some q \<Longrightarrow> q < p \<Longrightarrow> back_steps ty m p = Suc (back_steps ty m q)"
  by (subst back_steps.simps) simp

lemma prev_chars_ok:
  assumes "subject_ok s" "pos_ok s p" "n \<le> back_steps (cbuf_type s) (cbuf s) p"
  shows "\<exists>q. prev_chars (cbuf_type s) (cbuf s) n p = Some q \<and> pos_ok s q
     \<and> back_steps (cbuf_type s) (cbuf s) q = back_steps (cbuf_type s) (cbuf s) p - n"
  using assms(2,3)
proof (induction n arbitrary: p)
  case 0
  then show ?case by simp
next
  case (Suc n)
  have "0 < p"
  proof (rule ccontr)
    assume "\<not> 0 < p"
    with Suc.prems(2) show False by simp
  qed
  then obtain q where q: "PREV_CHAR (cbuf_type s) (cbuf s) p 0 = Some q" "pos_ok s q" "q < p"
    using PREV_CHAR_ok [OF assms(1) Suc.prems(1)] by blast
  with back_steps_prev [OF q(1,3)] Suc.IH [OF q(2)] Suc.prems(2) show ?case
    by simp
qed

definition mid_pair :: "'o re_exec_context \<Rightarrow> nat \<Rightarrow> bool" where
  "mid_pair s p \<longleftrightarrow> cbuf_type s = 2 \<and> 2 \<le> p \<and> p + 2 \<le> length (cbuf s) \<and>
     (\<exists>u v. get_u16 (cbuf s) (p - 2) = Some u \<and> is_hi_surrogate u \<and>
            get_u16 (cbuf s) p = Some v \<and> is_lo_surrogate v)"

definition chars_before :: "'o re_exec_context \<Rightarrow> nat \<Rightarrow> nat" where
  "chars_before s p = back_steps (cbuf_type s) (cbuf s) p - (if mid_pair s p then 1 else 0)"

lemma hi_not_lo: "is_hi_surrogate c \<Longrightarrow> \<not> is_lo_surrogate c"
  by (auto simp: is_hi_surrogate_def is_lo_surrogate_def)

lemma chars_before_le: "chars_before s p \<le> back_steps (cbuf_type s) (cbuf s) p"
  by (simp add: chars_before_def)

lemma PREV_CHAR_unit:
  assumes "ty \<noteq> 0" "2 \<le> p" "ty \<noteq> 2 \<or> (\<exists>u. get_u16 m (p - 2) = Some u \<and> \<not> is_lo_surrogate u)"
  shows "PREV_CHAR ty m p 0 = Some (p - 2)"
  using assms by (auto simp: PREV_CHAR_def unit_before_def)

lemma GET_CHAR_chars_before:
  assumes s: "subject_ok s" and p: "pos_ok s p" "p < cbuf_end s"
    and get: "GET_CHAR (cbuf_type s) (cbuf s) p (cbuf_end s) = Some (c, q)"
  shows "Suc (chars_before s p) \<le> chars_before s q"
proof -
  let ?B = "back_steps (cbuf_type s) (cbuf s)"
  have cend: "cbuf_end s = length (cbuf s)" using s by (simp add: subject_ok_def)
  consider "cbuf_type s = 0" | "cbuf_type s \<noteq> 0" "cbuf_type s \<noteq> 2" | "cbuf_type s = 2" by blast
  then show ?thesis
  proof cases
    case 1
    then have "q = p + 1" using get by (auto simp: GET_CHAR_def bind_Some_iff)
    then have "?B q = Suc (?B p)"
      using 1 by (intro back_steps_prev) (auto simp: PREV_CHAR_def)
    with 1 show ?thesis by (simp add: chars_before_def mid_pair_def)
  next
    case 2
    then have "q = p + 2" using get by (auto simp: GET_CHAR_def bind_Some_iff Let_def)
    then have "?B q = Suc (?B p)"
      using 2 by (intro back_steps_prev) (auto simp: PREV_CHAR_def)
    with 2 show ?thesis by (simp add: chars_before_def mid_pair_def)
  next
    case 3
    obtain u where u: "get_u16 (cbuf s) p = Some u"
      using get 3 by (auto simp: GET_CHAR_def bind_Some_iff)
    show ?thesis
    proof (cases "q = p + 4")
      case True
      then obtain v where v: "is_hi_surrogate u" "get_u16 (cbuf s) (p + 2) = Some v" "is_lo_surrogate v"
        using get 3 u by (auto simp: GET_CHAR_def bind_Some_iff Let_def split: if_splits)
      have "PREV_CHAR (cbuf_type s) (cbuf s) q 0 = Some p"
        using True u v 3 by (simp add: PREV_CHAR_def unit_before_def Let_def numeral_eq_Suc)
      then have "?B q = Suc (?B p)" using True by (intro back_steps_prev) auto
      moreover have "\<not> mid_pair s q"
        using True v hi_not_lo [of v] by (auto simp: mid_pair_def numeral_eq_Suc)
      ultimately show ?thesis using chars_before_le [of s p] by (simp add: chars_before_def)
    next
      case False
      then have q: "q = p + 2"
        and np: "is_hi_surrogate u \<Longrightarrow> p + 2 < cbuf_end s \<Longrightarrow>
                   \<exists>v. get_u16 (cbuf s) (p + 2) = Some v \<and> \<not> is_lo_surrogate v"
        using get 3 u by (auto simp: GET_CHAR_def bind_Some_iff Let_def split: if_splits)
      have nmid: "\<not> mid_pair s q"
        using q u np cend by (auto simp: mid_pair_def)
      show ?thesis
      proof (cases "mid_pair s p")
        case True
        then obtain w where w: "2 \<le> p" "get_u16 (cbuf s) (p - 2) = Some w" "is_hi_surrogate w"
          "is_lo_surrogate u"
          using u by (auto simp: mid_pair_def)
        have "PREV_CHAR (cbuf_type s) (cbuf s) p 0 = Some (p - 2)"
          using w hi_not_lo 3 by (intro PREV_CHAR_unit) auto
        then have "?B p = Suc (?B (p - 2))" using w by (intro back_steps_prev) auto
        moreover have "PREV_CHAR (cbuf_type s) (cbuf s) q 0 = Some (p - 2)"
          using q w u 3 by (simp add: PREV_CHAR_def unit_before_def Let_def)
        then have "?B q = Suc (?B (p - 2))" using q by (intro back_steps_prev) auto
        ultimately show ?thesis using True nmid by (simp add: chars_before_def)
      next
        case nomid: False
        have "PREV_CHAR (cbuf_type s) (cbuf s) q 0 = Some p"
        proof (cases "is_lo_surrogate u \<and> 0 < p")
          case True
          have ev: "2 \<le> p" using p True 3 by (auto simp: pos_ok_def elim!: evenE)
          have len: "p + 2 \<le> length (cbuf s)"
            using p 3 s cend by (auto simp: pos_ok_def subject_ok_def elim!: evenE)
          obtain w where w: "get_u16 (cbuf s) (p - 2) = Some w"
            using get_u16_some [of "p - 2" "cbuf s"] len by fastforce
          with nomid u True ev len 3 have "\<not> is_hi_surrogate w"
            by (auto simp: mid_pair_def)
          then show ?thesis using q u w 3 True ev by (simp add: PREV_CHAR_def unit_before_def Let_def)
        next
          case False
          then show ?thesis using q u 3 by (auto simp: PREV_CHAR_def unit_before_def Let_def)
        qed
        then have "?B q = Suc (?B p)" using q by (intro back_steps_prev) auto
        with nmid nomid show ?thesis by (simp add: chars_before_def)
      qed
    qed
  qed
qed

lemma back_steps_bound: "back_steps ty m p \<le> p"
proof (induction ty m p rule: back_steps.induct)
  case (1 ty m p)
  show ?case
    using 1 by (subst back_steps.simps) (force split: option.splits)
qed

section \<open>Well-formed byte code\<close>

text \<open>The instructions that read one character: the position after the operands.\<close>

definition re_char_next :: "u8 list \<Rightarrow> reop \<Rightarrow> nat \<Rightarrow> nat option" where
  "re_char_next bc opcode pc =
     (case opcode of
        REOP_char \<Rightarrow> if pc + 2 \<le> length bc then Some (pc + 2) else None
      | REOP_char32 \<Rightarrow> if pc + 4 \<le> length bc then Some (pc + 4) else None
      | REOP_dot \<Rightarrow> Some pc
      | REOP_any \<Rightarrow> Some pc
      | REOP_range \<Rightarrow> do {
          n \<leftarrow> get_u16 bc pc;
          if 0 < n \<and> pc + 2 + 4 * unat n \<le> length bc then Some (pc + 2 + 4 * unat n) else None
        }
      | REOP_range32 \<Rightarrow> do {
          n \<leftarrow> get_u16 bc pc;
          if 0 < n \<and> pc + 2 + 8 * unat n \<le> length bc then Some (pc + 2 + 8 * unat n) else None
        }
      | _ \<Rightarrow> None)"

definition re_assert_op :: "reop \<Rightarrow> bool" where
  "re_assert_op opcode \<longleftrightarrow>
     opcode \<in> {REOP_line_start, REOP_line_end, REOP_word_boundary, REOP_not_word_boundary}"

text \<open>The body of a simple quantifier, up to its \<open>REOP_match\<close>: the number of characters it reads.\<close>

fun re_simple :: "nat \<Rightarrow> u8 list \<Rightarrow> nat \<Rightarrow> nat option" where
  "re_simple 0 bc pc = None"
| "re_simple (Suc fuel) bc pc = do {
     b \<leftarrow> rd bc pc;
     opcode \<leftarrow> reop_of (unat b);
     if opcode = REOP_match then Some 0
     else if re_assert_op opcode then re_simple fuel bc (pc + 1)
     else do {
       q \<leftarrow> re_char_next bc opcode (pc + 1);
       map_option Suc (re_simple fuel bc q)
     }
   }"

type_synonym depths = "nat option list"

definition depth_at :: "depths \<Rightarrow> nat \<Rightarrow> nat option" where
  "depth_at ds p = (if p < length ds then ds ! p else None)"

definition jumps_to :: "depths \<Rightarrow> u8 list \<Rightarrow> nat \<Rightarrow> nat \<Rightarrow> bool" where
  "jumps_to ds bc pc d \<longleftrightarrow>
     (case get_u32 bc pc of
        None \<Rightarrow> False
      | Some v \<Rightarrow> (case re_jump (pc + 4) v of None \<Rightarrow> False | Some t \<Rightarrow> depth_at ds t = Some d))"

text \<open>An instruction at \<open>pc\<close> with \<open>d\<close> integers on the stack.\<close>

definition wf_instr :: "u8 list \<Rightarrow> nat \<Rightarrow> nat \<Rightarrow> depths \<Rightarrow> nat \<Rightarrow> nat \<Rightarrow> reop \<Rightarrow> bool" where
  "wf_instr bc cc sm ds pc d opcode \<longleftrightarrow>
     (let go = (\<lambda>k d. depth_at ds (pc + k) = Some d) in
      if re_assert_op opcode then go 1 d
      else
        case opcode of
          REOP_match \<Rightarrow> True
        | REOP_goto \<Rightarrow> jumps_to ds bc (pc + 1) d
        | REOP_split_goto_first \<Rightarrow> jumps_to ds bc (pc + 1) d \<and> go 5 d
        | REOP_split_next_first \<Rightarrow> jumps_to ds bc (pc + 1) d \<and> go 5 d
        | REOP_lookahead \<Rightarrow> jumps_to ds bc (pc + 1) d \<and> go 5 d
        | REOP_negative_lookahead \<Rightarrow> jumps_to ds bc (pc + 1) d \<and> go 5 d
        | REOP_save_start \<Rightarrow> pc + 1 < length bc \<and> unat (bc ! (pc + 1)) < cc \<and> go 2 d
        | REOP_save_end \<Rightarrow> pc + 1 < length bc \<and> unat (bc ! (pc + 1)) < cc \<and> go 2 d
        | REOP_save_reset \<Rightarrow> pc + 2 < length bc \<and> unat (bc ! (pc + 2)) < cc \<and> go 3 d
        | REOP_push_i32 \<Rightarrow> pc + 5 \<le> length bc \<and> d < sm \<and> go 5 (d + 1)
        | REOP_push_char_pos \<Rightarrow> d < sm \<and> go 1 (d + 1)
        | REOP_drop \<Rightarrow> 0 < d \<and> go 1 (d - 1)
        | REOP_loop \<Rightarrow> 0 < d \<and> jumps_to ds bc (pc + 1) d \<and> go 5 d
        | REOP_bne_char_pos \<Rightarrow> 0 < d \<and> jumps_to ds bc (pc + 1) (d - 1) \<and> go 5 (d - 1)
        | REOP_back_reference \<Rightarrow> pc + 1 < length bc \<and> go 2 d
        | REOP_backward_back_reference \<Rightarrow> pc + 1 < length bc \<and> go 2 d
        | REOP_prev \<Rightarrow> go 1 d
        | REOP_simple_greedy_quant \<Rightarrow>
            (case (get_u32 bc (pc + 1), get_u32 bc (pc + 13)) of
               (Some next_pos, Some k) \<Rightarrow>
                 0 < k \<and> re_simple (length bc) bc (pc + 17) = Some (unat k) \<and>
                 (case re_jump (pc + 17) next_pos of None \<Rightarrow> False | Some t \<Rightarrow> depth_at ds t = Some d)
             | _ \<Rightarrow> False)
        | _ \<Rightarrow> (case re_char_next bc opcode (pc + 1) of None \<Rightarrow> False | Some q \<Rightarrow> depth_at ds q = Some d))"

definition wf_at :: "u8 list \<Rightarrow> nat \<Rightarrow> nat \<Rightarrow> depths \<Rightarrow> nat \<Rightarrow> bool" where
  "wf_at bc cc sm ds pc \<longleftrightarrow>
     (case ds ! pc of
        None \<Rightarrow> True
      | Some d \<Rightarrow>
          d \<le> sm \<and> pc < length bc \<and>
          (case reop_of (unat (bc ! pc)) of
             None \<Rightarrow> False
           | Some opcode \<Rightarrow> wf_instr bc cc sm ds pc d opcode))"

definition re_wf :: "u8 list \<Rightarrow> nat \<Rightarrow> nat \<Rightarrow> depths \<Rightarrow> bool" where
  "re_wf bc cc sm ds \<longleftrightarrow> list_all (wf_at bc cc sm ds) [0..<length ds]"

lemma re_wf_at:
  assumes "re_wf bc cc sm ds" "depth_at ds pc = Some d"
  obtains opcode where "rd bc pc = Some (bc ! pc)" "reop_of (unat (bc ! pc)) = Some opcode"
    "wf_instr bc cc sm ds pc d opcode" "d \<le> sm"
proof -
  have "pc < length ds" "ds ! pc = Some d"
    using assms(2) by (auto simp: depth_at_def split: if_splits)
  moreover then have "wf_at bc cc sm ds pc"
    using assms(1) by (simp add: re_wf_def list_all_iff)
  ultimately show thesis
    using that by (auto simp: wf_at_def split: option.splits)
qed

section \<open>Ranges\<close>

lemma range_limit_some:
  "w = 2 \<or> w = 4 \<Longrightarrow> p + w \<le> length bc \<Longrightarrow> \<exists>v. range_limit w bc p = Some v"
  by (auto simp: range_limit_def get_u16_def get_u32_def rd_block_def)

lemma range_search_total:
  assumes w: "w = 2 \<or> w = 4" and n: "0 < n" "n < 2 ^ 16" "p + n * (2 * w) \<le> length bc"
    and lo: "range_limit w bc p = Some low0" "low0 \<le> c"
    and hi: "range_limit w bc (p + (n - 1) * (2 * w) + w) = Some highn" "c \<le> highn"
    and idx: "unat i \<le> unat j + 1" "unat j < n" "unat j + 2 - unat i \<le> fuel"
  shows "\<exists>b. range_search fuel w bc p c i j = Some b"
  using idx
proof (induction fuel arbitrary: i j)
  case 0
  then show ?case by simp
next
  case (Suc fuel)
  show ?case
  proof (cases "i \<le> j")
    case False
    then show ?thesis by (intro exI [of _ False]) simp
  next
    case True
    define k where "k = (i + j) div 2"
    have le: "unat i \<le> unat j" using True by (simp add: word_le_nat_alt)
    have sum: "unat (i + j) = unat i + unat j"
      using le Suc.prems(2) n(2) by (simp add: unat_word_ariths)
    then have k: "unat k = (unat i + unat j) div 2"
      by (simp add: k_def unat_div)
    then have kb: "unat i \<le> unat k" "unat k \<le> unat j" using le by auto
    have "unat k * (2 * w) + 2 * w \<le> n * (2 * w)"
      using kb(2) Suc.prems(2) by (metis add.commute less_le_trans mult_Suc mult_le_mono1 not_less_eq_eq Suc_leI order.strict_trans1)
    then have rng: "p + unat k * (2 * w) + w \<le> length bc" "p + unat k * (2 * w) + w + w \<le> length bc"
      using n(3) by auto
    obtain low high where lh: "range_limit w bc (p + unat k * (2 * w)) = Some low"
      "range_limit w bc (p + unat k * (2 * w) + w) = Some high"
      using range_limit_some [OF w rng(1)] range_limit_some [OF w rng(2)] by blast
    consider "c < low" | "\<not> c < low" "c > high" | "\<not> c < low" "\<not> c > high" by blast
    then show ?thesis
    proof cases
      case 1
      have "unat k \<noteq> 0"
      proof
        assume "unat k = 0"
        with lh(1) lo have "low = low0" by simp
        with 1 lo(2) show False by simp
      qed
      then have "unat (k - 1) = unat k - 1" by (simp add: unat_minus_one unat_eq_0)
      then have "\<exists>b. range_search fuel w bc p c i (k - 1) = Some b"
        using kb Suc.prems \<open>unat k \<noteq> 0\<close> k by (intro Suc.IH) auto
      then show ?thesis using True lh 1 by (simp add: k_def)
    next
      case 2
      have "unat k \<noteq> n - 1"
      proof
        assume "unat k = n - 1"
        with lh(2) hi have "high = highn" by simp
        with 2 hi(2) show False by simp
      qed
      then have "unat (k + 1) = unat k + 1"
        using kb Suc.prems(2) n(2) by (simp add: unat_word_ariths)
      then have "\<exists>b. range_search fuel w bc p c (k + 1) j = Some b"
        using kb Suc.prems by (intro Suc.IH) auto
      then show ?thesis using True lh 2 by (simp add: k_def)
    next
      case 3
      then show ?thesis using True lh by (intro exI [of _ True]) (simp add: k_def)
    qed
  qed
qed

lemma range_match_total:
  assumes w: "w = 2 \<or> w = 4" and n: "0 < n" "n < 2 ^ 16" "p + n * (2 * w) \<le> length bc"
  shows "\<exists>b. range_match w bc p n c = Some b"
proof -
  have last: "unat (word_of_nat n - 1 :: u32) = n - 1"
    using n by (simp add: unat_minus_one unat_of_nat unat_eq_0 word_unat_eq_iff)
  have "(n - 1) * (2 * w) + 2 * w = n * (2 * w)"
    using n(1) by (cases n) auto
  then have "p + w \<le> length bc" "p + (n - 1) * (2 * w) + w + w \<le> length bc"
    using n(3) w by auto
  then obtain low high where lh: "range_limit w bc p = Some low"
    "range_limit w bc (p + (n - 1) * (2 * w) + w) = Some high"
    using range_limit_some [OF w] by blast
  show ?thesis
  proof (cases "c < low \<or> w = 2 \<and> c \<ge> 0xffff \<and> high = 0xffff \<or> c > high")
    case True
    then have "range_match w bc p n c \<in> {Some False, Some True}"
      using lh by (auto simp: range_match_def Let_def last simp del: range_search.simps)
    then show ?thesis by blast
  next
    case False
    have "low \<le> c" "c \<le> high" using False by auto
    then have "\<exists>b. range_search (n + 1) w bc p c 0 (word_of_nat n - 1) = Some b"
      using last n(1) by (intro range_search_total [OF w n lh(1) _ lh(2)]) simp_all
    then obtain b where b: "range_search (n + 1) w bc p c 0 (word_of_nat n - 1) = Some b" ..
    have "range_match w bc p n c = Some b"
      unfolding range_match_def Let_def last lh using False b by (simp del: range_search.simps) blast
    then show ?thesis ..
  qed
qed

end
