(* ===== verification/Re_Invariant.thy ===== *)
theory Re_Invariant
  imports Re_Safety
begin

text \<open>
  The invariant of the executor and its preservation by every step: the saved states of the
  backtracking stack, the captures, the integer stack and the position in the subject stay
  valid, for byte code that passes \<open>re_wf\<close> and an allocator that keeps the contract
  \<open>reallocator\<close>.
\<close>

section \<open>The invariant\<close>

definition caps_ok :: "'o re_exec_context \<Rightarrow> nat option list \<Rightarrow> bool" where
  "caps_ok s caps \<longleftrightarrow>
     2 * capture_count s \<le> length caps \<and>
     (\<forall>i < 2 * capture_count s. case caps ! i of None \<Rightarrow> True | Some p \<Rightarrow> pos_ok s p)"

text \<open>
  A saved state resumes at an instruction whose depth is the one it saved; a greedy quantifier
  can go back over all the repetitions it still counts.
\<close>

definition saved_ok :: "u8 list \<Rightarrow> depths \<Rightarrow> 'o re_exec_context \<Rightarrow> re_exec_state \<Rightarrow> bool" where
  "saved_ok bc ds s rs \<longleftrightarrow>
     caps_ok s (rs_capture rs) \<and> rs_stack_len rs \<le> length (rs_stack rs) \<and> pos_ok s (rs_cptr rs) \<and>
     (if rs_type rs = RE_EXEC_STATE_GREEDY_QUANT then
        0 < rs_pc rs \<and> depth_at ds (rs_pc rs - 1) = Some (rs_stack_len rs) \<and>
        reop_of (unat (bc ! (rs_pc rs - 1))) = Some REOP_simple_greedy_quant \<and>
        0 < rs_count rs \<and>
        (\<exists>k. get_u32 bc (rs_pc rs + 12) = Some k \<and> 0 < k \<and>
             rs_count rs * unat k \<le> back_steps (cbuf_type s) (cbuf s) (rs_cptr rs))
      else depth_at ds (rs_pc rs) = Some (rs_stack_len rs))"

definition stack_ok :: "u8 list \<Rightarrow> depths \<Rightarrow> 'o re_exec_context \<Rightarrow> bool" where
  "stack_ok bc ds s \<longleftrightarrow>
     length (block (state_stack s)) = state_stack_size s \<and>
     state_stack_len s \<le> state_stack_size s \<and>
     state_stack_size s * state_size s \<le> PTRDIFF_MAX \<and>
     (\<forall>i < state_stack_len s. saved_ok bc ds s (block (state_stack s) ! i))"

definition context_ok :: "'o re_exec_context \<Rightarrow> bool" where
  "context_ok s \<longleftrightarrow>
     subject_ok s \<and> 32 \<le> state_size s \<and> state_size s \<le> 2 ^ 20 \<and> stack_size_max s \<le> 255"

definition thread_ok :: "'o re_exec_context \<Rightarrow> re_thread \<Rightarrow> bool" where
  "thread_ok s th \<longleftrightarrow>
     caps_ok s (th_capture th) \<and> pos_ok s (th_cptr th) \<and>
     stack_size_max s \<le> length (th_stack th)"

definition exec_inv :: "u8 list \<Rightarrow> depths \<Rightarrow> 'o re_exec_context \<Rightarrow> re_thread \<Rightarrow> bool" where
  "exec_inv bc ds s th \<longleftrightarrow>
     context_ok s \<and> re_wf bc (capture_count s) (stack_size_max s) ds \<and> stack_ok bc ds s \<and> thread_ok s th"

definition at_instr :: "depths \<Rightarrow> re_thread \<Rightarrow> bool" where
  "at_instr ds th \<longleftrightarrow> depth_at ds (th_pc th) = Some (th_stack_len th)"

text \<open>Only the allocator and the backtracking stack of the context ever change.\<close>

definition same_ctx :: "'o re_exec_context \<Rightarrow> 'o re_exec_context \<Rightarrow> bool" where
  "same_ctx s s' \<longleftrightarrow>
     s' = s\<lparr>opaque := opaque s', state_stack := state_stack s',
            state_stack_size := state_stack_size s', state_stack_len := state_stack_len s'\<rparr>"

lemma same_ctx_refl [simp]: "same_ctx s s"
  by (simp add: same_ctx_def)

lemma same_ctx_sym: "same_ctx s s' \<Longrightarrow> same_ctx s' s"
  by (cases s; cases s') (simp add: same_ctx_def)

lemma same_ctx_trans [trans]: "same_ctx s s' \<Longrightarrow> same_ctx s' s'' \<Longrightarrow> same_ctx s s''"
  by (cases s; cases s'; cases s'') (simp add: same_ctx_def)

lemma same_ctx_fields:
  assumes "same_ctx s s'"
  shows "cbuf s' = cbuf s" "cbuf_end s' = cbuf_end s" "cbuf_type s' = cbuf_type s"
    "capture_count s' = capture_count s" "stack_size_max s' = stack_size_max s"
    "state_size s' = state_size s" "cbuf_addr s' = cbuf_addr s"
  using assms by (cases s; cases s'; simp add: same_ctx_def)+

lemma same_ctx_upd [simp]:
  "same_ctx s (s\<lparr>opaque := a\<rparr>)" "same_ctx s (s\<lparr>state_stack := b\<rparr>)"
  "same_ctx s (s\<lparr>state_stack_size := c\<rparr>)" "same_ctx s (s\<lparr>state_stack_len := d\<rparr>)"
  "same_ctx s (s\<lparr>state_stack := b, state_stack_len := d\<rparr>)"
  "same_ctx s (s\<lparr>opaque := a, state_stack_size := c, state_stack := b\<rparr>)"
  by (simp_all add: same_ctx_def)

lemma same_ctx_ok:
  assumes "same_ctx s s'"
  shows "pos_ok s' p = pos_ok s p" "caps_ok s' caps = caps_ok s caps"
    "saved_ok bc ds s' rs = saved_ok bc ds s rs" "context_ok s' = context_ok s"
    "thread_ok s' th = thread_ok s th" "subject_ok s' = subject_ok s"
  by (simp_all add: pos_ok_def caps_ok_def saved_ok_def context_ok_def thread_ok_def subject_ok_def
      same_ctx_fields [OF assms] cong: option.case_cong)

lemma exec_inv_parts:
  assumes "exec_inv bc ds s th"
  shows "context_ok s" "subject_ok s" "stack_ok bc ds s" "thread_ok s th"
    "caps_ok s (th_capture th)" "pos_ok s (th_cptr th)" "stack_size_max s \<le> length (th_stack th)"
    "re_wf bc (capture_count s) (stack_size_max s) ds"
  using assms by (simp_all add: exec_inv_def context_ok_def thread_ok_def)

lemma exec_inv_thread:
  "exec_inv bc ds s th \<Longrightarrow> thread_ok s th' \<Longrightarrow> exec_inv bc ds s th'"
  by (simp add: exec_inv_def)

lemma exec_inv_ctx:
  "exec_inv bc ds s th \<Longrightarrow> same_ctx s s' \<Longrightarrow> stack_ok bc ds s' \<Longrightarrow> exec_inv bc ds s' th"
  by (simp add: exec_inv_def same_ctx_ok same_ctx_fields)

lemma thread_ok_upd [simp]:
  "thread_ok s (th\<lparr>th_pc := p\<rparr>) = thread_ok s th"
  "thread_ok s (th\<lparr>th_stack_len := n\<rparr>) = thread_ok s th"
  "thread_ok s th \<Longrightarrow> pos_ok s q \<Longrightarrow> thread_ok s (th\<lparr>th_cptr := q\<rparr>)"
  "thread_ok s th \<Longrightarrow> caps_ok s caps \<Longrightarrow> thread_ok s (th\<lparr>th_capture := caps\<rparr>)"
  "thread_ok s th \<Longrightarrow> length st = length (th_stack th) \<Longrightarrow> thread_ok s (th\<lparr>th_stack := st\<rparr>)"
  by (simp_all add: thread_ok_def)

lemma caps_ok_update:
  "caps_ok s caps \<Longrightarrow> (case v of None \<Rightarrow> True | Some p \<Rightarrow> pos_ok s p) \<Longrightarrow> caps_ok s (caps[i := v])"
  by (cases "i < length caps") (auto simp: caps_ok_def nth_list_update)

lemma caps_ok_nth:
  "caps_ok s caps \<Longrightarrow> i < 2 * capture_count s \<Longrightarrow>
     rd caps i = Some (caps ! i) \<and> (\<forall>p. caps ! i = Some p \<longrightarrow> pos_ok s p)"
  by (auto simp: caps_ok_def split: option.splits)

lemma caps_ok_take: "caps_ok s caps \<Longrightarrow> caps_ok s (take (2 * capture_count s) caps)"
  by (simp add: caps_ok_def)

lemma caps_ok_append:
  "caps_ok s caps \<Longrightarrow> length caps = 2 * capture_count s \<Longrightarrow> caps_ok s (caps @ rest)"
  by (simp add: caps_ok_def nth_append)

lemma reset_captures_ok:
  "caps_ok s caps \<Longrightarrow> v + n \<le> capture_count s \<Longrightarrow>
     \<exists>caps'. reset_captures v n caps = Some caps' \<and> caps_ok s caps'"
proof (induction n arbitrary: v caps)
  case 0
  then show ?case by simp
next
  case (Suc n)
  have "2 * v + 1 < length caps" using Suc.prems by (auto simp: caps_ok_def)
  moreover have "caps_ok s (caps[2 * v := None, 2 * v + 1 := None])"
    by (intro caps_ok_update Suc.prems) simp_all
  ultimately show ?case using Suc.IH [of "caps[2 * v := None, 2 * v + 1 := None]" "v + 1"] Suc.prems
    by simp
qed

section \<open>Instructions that read a character\<close>

lemma re_canon_total: "\<exists>d. re_canon s c = Some d"
  using lre_canonicalize_total by (simp add: re_canon_def)

definition char_step ::
  "'o re_exec_context \<Rightarrow> re_thread \<Rightarrow> nat \<Rightarrow> 'o re_outcome option \<Rightarrow> bool" where
  "char_step s th q r \<longleftrightarrow>
     (\<exists>p. pos_ok s p \<and>
        (r = Some (No_match s (th\<lparr>th_cptr := p\<rparr>)) \<or>
         r = Some (Next s (th\<lparr>th_pc := q, th_cptr := p\<rparr>)) \<and>
           chars_before s (th_cptr th) < chars_before s p))"

lemma char_stepI1: "pos_ok s (th_cptr th) \<Longrightarrow> char_step s th q (Some (No_match s th))"
  unfolding char_step_def by (rule exI [of _ "th_cptr th"]) simp

lemma test_char_step:
  assumes s: "subject_ok s" and p: "pos_ok s (th_cptr th)" and f: "\<And>c. \<exists>b. f c = Some b"
  shows "char_step s th q (test_char s th q f)"
proof (cases "th_cptr th \<ge> cbuf_end s")
  case True
  then show ?thesis using p by (simp add: test_char_def char_stepI1)
next
  case False
  have e: "pos_ok s (cbuf_end s)" using s unfolding subject_ok_def by blast
  obtain c p' where g: "GET_CHAR (cbuf_type s) (cbuf s) (th_cptr th) (cbuf_end s) = Some (c, p')"
    "pos_ok s p'"
    using GET_CHAR_ok [OF s p e] False by auto
  moreover obtain b where "f c = Some b" using f by blast
  moreover have "chars_before s (th_cptr th) < chars_before s p'"
    using GET_CHAR_chars_before [OF s p _ g(1)] False by simp
  ultimately show ?thesis using False
    by (auto simp: test_char_def char_step_def Let_def)
qed

lemma test_char_canon_step:
  assumes "subject_ok s" "pos_ok s (th_cptr th)"
    and "\<And>c. \<exists>b. f c = Some b"
  shows "char_step s th q (test_char s th q (\<lambda>c. do { c \<leftarrow> re_canon s c; f c }))"
proof (rule test_char_step [OF assms(1,2)])
  fix c
  show "\<exists>b. (do { c \<leftarrow> re_canon s c; f c }) = Some b"
    using re_canon_total [of s c] assms(3) by auto
qed

lemma get_u16_bound: "get_u16 m p = Some v \<Longrightarrow> unat v < 2 ^ 16"
  using le_nat_bound [of "take 2 (drop p m)"]
  by (auto simp: get_u16_def bind_Some_iff rd_block_Some_iff unat_of_nat)

lemma re_char_next_step:
  assumes s: "subject_ok s" and p: "pos_ok s (th_cptr th)"
    and next_pc: "re_char_next bc opcode pc = Some q"
  shows "char_step s th q (re_step ra bc opcode pc s th)"
proof -
  have e: "pos_ok s (cbuf_end s)" using s unfolding subject_ok_def by blast
  note p_le = p [unfolded pos_ok_def]
  have get: "\<exists>c p'. GET_CHAR (cbuf_type s) (cbuf s) (th_cptr th) (cbuf_end s) = Some (c, p') \<and>
      pos_ok s p' \<and> chars_before s (th_cptr th) < chars_before s p'"
    if "th_cptr th \<noteq> cbuf_end s"
    using GET_CHAR_ok [OF s p e] GET_CHAR_chars_before [OF s p] p_le that by fastforce
  have canon: "\<exists>b. map_option ((=) v) (re_canon s c) = Some b" for v c
    using re_canon_total [of s c] by auto
  show ?thesis
  proof (cases opcode)
    case REOP_char
    then obtain v where "get_u16 bc pc = Some v" "q = pc + 2"
      using next_pc get_u16_some by (auto simp: re_char_next_def split: if_splits)
    then show ?thesis using REOP_char test_char_step [OF s p canon]
      by (simp add: re_step_def)
  next
    case REOP_char32
    then obtain v where "get_u32 bc pc = Some v" "q = pc + 4"
      using next_pc by (auto simp: re_char_next_def get_u32_def rd_block_def split: if_splits)
    then show ?thesis using REOP_char32 test_char_step [OF s p canon]
      by (simp add: re_step_def)
  next
    case REOP_dot
    then show ?thesis using next_pc get char_stepI1 [OF p]
      by (cases "th_cptr th = cbuf_end s")
        (fastforce simp: re_char_next_def re_step_def char_step_def Let_def)+
  next
    case REOP_any
    then show ?thesis using next_pc get char_stepI1 [OF p]
      by (cases "th_cptr th = cbuf_end s")
        (fastforce simp: re_char_next_def re_step_def char_step_def Let_def)+
  next
    case REOP_range
    then obtain n where n: "get_u16 bc pc = Some n" "0 < n" "pc + 2 + 4 * unat n \<le> length bc"
      "q = pc + 2 + 4 * unat n"
      using next_pc by (auto simp: re_char_next_def bind_Some_iff split: if_splits)
    have "\<exists>b. range_match 2 bc (pc + 2) (unat n) c = Some b" for c
      using n get_u16_bound [OF n(1)]
      by (intro range_match_total) (auto simp: word_less_nat_alt)
    then show ?thesis using REOP_range n test_char_canon_step [OF s p]
      by (simp add: re_step_def)
  next
    case REOP_range32
    then obtain n where n: "get_u16 bc pc = Some n" "0 < n" "pc + 2 + 8 * unat n \<le> length bc"
      "q = pc + 2 + 8 * unat n"
      using next_pc by (auto simp: re_char_next_def bind_Some_iff split: if_splits)
    have "\<exists>b. range_match 4 bc (pc + 2) (unat n) c = Some b" for c
      using n get_u16_bound [OF n(1)]
      by (intro range_match_total) (auto simp: word_less_nat_alt)
    then show ?thesis using REOP_range32 n test_char_canon_step [OF s p]
      by (simp add: re_step_def)
  qed (use next_pc in \<open>simp_all add: re_char_next_def\<close>)
qed

lemma word_at_total:
  assumes "subject_ok s" "pos_ok s p"
  shows "\<exists>v1 v2. word_at s p = Some (v1, v2)"
  using PEEK_CHAR_ok [OF assms] PEEK_PREV_CHAR_ok [OF assms]
  by (cases "p = 0"; cases "p < cbuf_end s") (auto simp: word_at_def)

lemma re_assert_step:
  assumes s: "subject_ok s" and p: "pos_ok s (th_cptr th)" and a: "re_assert_op opcode"
  shows "re_step ra bc opcode pc s th \<in> {Some (No_match s th), Some (Next s (th\<lparr>th_pc := pc\<rparr>))}"
proof -
  have lt: "th_cptr th \<noteq> cbuf_end s \<Longrightarrow> th_cptr th < cbuf_end s"
    using p by (simp add: pos_ok_def)
  obtain v1 v2 where "word_at s (th_cptr th) = Some (v1, v2)"
    using word_at_total [OF s p] by blast
  then show ?thesis
    using a PEEK_CHAR_ok [OF s p lt] PEEK_PREV_CHAR_ok [OF s p]
    by (cases "th_cptr th = 0"; cases "th_cptr th = cbuf_end s"; cases v1; cases v2)
      (auto simp: re_assert_op_def re_step_def Let_def)
qed

end
