(* ===== verification/Re_Exec_Safe.thy ===== *)
theory Re_Exec_Safe
  imports Re_Invariant
begin

text \<open>
  Every step of the executor keeps the invariant of \<open>Re_Invariant\<close>, so that \<open>lre_exec\<close> has no
  undefined behaviour on well-formed byte code.
\<close>

section \<open>The body of a simple quantifier\<close>

text \<open>
  A body leaves the context, the captures and the integer stack alone, and each repetition
  moves at least \<open>k\<close> steps forward.
\<close>

definition simple_result ::
  "'o re_exec_context \<Rightarrow> re_thread \<Rightarrow> nat \<Rightarrow> (re_result \<times> 'o re_exec_context \<times> re_thread) option \<Rightarrow> bool"
where
  "simple_result s th m r \<longleftrightarrow>
     (\<exists>res th'. r = Some (res, s, th') \<and> th_capture th' = th_capture th \<and> th_stack th' = th_stack th \<and>
        (res = RE_TIMEOUT \<or> res = RE_NO_MATCH \<or>
         (\<exists>p. res = RE_CPTR p \<and> pos_ok s p \<and> m \<le> chars_before s p)))"

lemma simple_result_th:
  "simple_result s th m r \<Longrightarrow> th_capture th = th_capture th0 \<Longrightarrow> th_stack th = th_stack th0 \<Longrightarrow>
     m0 \<le> m \<Longrightarrow> simple_result s th0 m0 r"
  unfolding simple_result_def by fastforce

lemma simple_resultI:
  "r = Some (RE_NO_MATCH, s, th') \<Longrightarrow> th_capture th' = th_capture th \<Longrightarrow> th_stack th' = th_stack th \<Longrightarrow>
     simple_result s th m r"
  by (simp add: simple_result_def)

lemma re_simple_exec:
  assumes "subject_ok s" "pos_ok s (th_cptr th)" "re_simple n bc (th_pc th) = Some k"
  shows "simple_result s th (chars_before s (th_cptr th) + k) (lre_exec_backtrack fuel ra bc s th True)"
  using assms(2,3)
proof (induction fuel arbitrary: th n k)
  case 0
  show ?case by (simp add: simple_result_def)
next
  case (Suc fuel)
  from Suc.prems(2) obtain n' b opcode where n: "n = Suc n'" and b: "rd bc (th_pc th) = Some b"
    and op: "reop_of (unat b) = Some opcode"
    by (cases n) (auto simp: bind_Some_iff)
  note pos = Suc.prems(1)
  have nq: "opcode \<noteq> REOP_simple_greedy_quant"
    using Suc.prems(2) n b op by (auto simp: re_char_next_def re_assert_op_def)
  consider "opcode = REOP_match" "k = 0"
    | "opcode \<noteq> REOP_match" "re_assert_op opcode" "re_simple n' bc (th_pc th + 1) = Some k"
    | q k' where "opcode \<noteq> REOP_match" "re_char_next bc opcode (th_pc th + 1) = Some q"
      "re_simple n' bc q = Some k'" "k = Suc k'"
    using Suc.prems(2) n b op by (auto simp: bind_Some_iff split: if_splits)
  then show ?case
  proof cases
    case 1
    then show ?thesis using b op pos by (simp add: re_step_def simple_result_def)
  next
    case 2
    from re_assert_step [OF assms(1) pos 2(2), of ra bc "th_pc th + 1"]
    consider "re_step ra bc opcode (th_pc th + 1) s th = Some (No_match s th)"
      | "re_step ra bc opcode (th_pc th + 1) s th = Some (Next s (th\<lparr>th_pc := th_pc th + 1\<rparr>))"
      by auto
    then show ?thesis
    proof cases
      case nm: 1
      then show ?thesis using b op nq by (intro simple_resultI [of _ _ th]) simp_all
    next
      case go: 2
      have "simple_result s (th\<lparr>th_pc := th_pc th + 1\<rparr>) (chars_before s (th_cptr th) + k)
          (lre_exec_backtrack fuel ra bc s (th\<lparr>th_pc := th_pc th + 1\<rparr>) True)"
        using Suc.IH [of "th\<lparr>th_pc := th_pc th + 1\<rparr>" n' k] 2 pos by simp
      then show ?thesis using b op nq go by (auto intro: simple_result_th)
    qed
  next
    case 3
    from re_char_next_step [OF assms(1) pos 3(2), of ra]
    obtain p where p: "pos_ok s p"
      and r: "re_step ra bc opcode (th_pc th + 1) s th = Some (No_match s (th\<lparr>th_cptr := p\<rparr>)) \<or>
        re_step ra bc opcode (th_pc th + 1) s th = Some (Next s (th\<lparr>th_pc := q, th_cptr := p\<rparr>)) \<and>
          chars_before s (th_cptr th) < chars_before s p"
      unfolding char_step_def by auto
    from r show ?thesis
    proof
      assume "re_step ra bc opcode (th_pc th + 1) s th = Some (No_match s (th\<lparr>th_cptr := p\<rparr>))"
      then show ?thesis
        using b op nq by (intro simple_resultI [of _ _ "th\<lparr>th_cptr := p\<rparr>"]) simp_all
    next
      assume go: "re_step ra bc opcode (th_pc th + 1) s th = Some (Next s (th\<lparr>th_pc := q, th_cptr := p\<rparr>)) \<and>
          chars_before s (th_cptr th) < chars_before s p"
      let ?th = "th\<lparr>th_pc := q, th_cptr := p\<rparr>"
      have "simple_result s ?th (chars_before s p + k') (lre_exec_backtrack fuel ra bc s ?th True)"
        using Suc.IH [of ?th n' k'] 3 p by simp
      then show ?thesis using b op nq go 3(4) by (auto intro: simple_result_th)
    qed
  qed
qed

text \<open>The loop over the repetitions.\<close>

lemma re_greedy_exec:
  assumes s: "subject_ok s" and simple: "re_simple n bc pc1 = Some k"
  shows "pos_ok s (th_cptr th) \<Longrightarrow> q * k \<le> chars_before s (th_cptr th) \<Longrightarrow>
    \<exists>r q' th'. re_greedy fuel ra bc s th pc1 quant_max q = Some (r, q', s, th') \<and>
      th' = th\<lparr>th_cptr := th_cptr th'\<rparr> \<and> pos_ok s (th_cptr th') \<and>
      q' * k \<le> chars_before s (th_cptr th') \<and> (r = None \<or> r = Some RE_TIMEOUT)"
proof (induction fuel arbitrary: th q)
  case 0
  then show ?case by simp
next
  case (Suc fuel)
  let ?th = "th\<lparr>th_pc := pc1\<rparr>"
  have "simple_result s ?th (chars_before s (th_cptr th) + k) (lre_exec_backtrack fuel ra bc s ?th True)"
    using re_simple_exec [OF s, of ?th n bc k] Suc.prems(1) simple by simp
  then obtain res th1 where e: "lre_exec_backtrack fuel ra bc s ?th True = Some (res, s, th1)"
    "th_capture th1 = th_capture th" "th_stack th1 = th_stack th"
    and res: "res = RE_TIMEOUT \<or> res = RE_NO_MATCH \<or>
      (\<exists>p. res = RE_CPTR p \<and> pos_ok s p \<and> chars_before s (th_cptr th) + k \<le> chars_before s p)"
    by (auto simp: simple_result_def)
  have same: "th\<lparr>th_capture := th_capture th1, th_stack := th_stack th1\<rparr> = th"
    using e by simp
  from res show ?case
  proof (elim disjE exE conjE)
    fix p
    assume p: "res = RE_CPTR p" "pos_ok s p" "chars_before s (th_cptr th) + k \<le> chars_before s p"
    have q: "(q + 1) * k \<le> chars_before s p" using p(3) Suc.prems(2) by simp
    show ?thesis
    proof (cases "q + 1 \<ge> unat quant_max \<and> quant_max \<noteq> INT32_MAX")
      case True
      then show ?thesis using e p q same by simp
    next
      case False
      then have "re_greedy (Suc fuel) ra bc s th pc1 quant_max q
          = re_greedy fuel ra bc s (th\<lparr>th_cptr := p\<rparr>) pc1 quant_max (q + 1)"
        using e p same by (auto simp: Let_def)
      then show ?thesis using Suc.IH [of "th\<lparr>th_cptr := p\<rparr>" "q + 1"] p q by simp
    qed
  qed (use e same Suc.prems in simp_all)
qed

section \<open>Back references\<close>

lemma back_ref_ok:
  assumes s: "subject_ok s" and e: "pos_ok s e"
  shows "pos_ok s p1 \<Longrightarrow> pos_ok s p \<Longrightarrow> e - p1 \<le> fuel \<Longrightarrow>
    \<exists>r. back_ref fuel s p1 e p = Some r \<and> (\<forall>q. r = Some q \<longrightarrow> pos_ok s q)"
proof (induction fuel arbitrary: p1 p)
  case 0
  then show ?case by (simp add: back_ref.simps [of 0])
next
  case (Suc fuel)
  have ce: "pos_ok s (cbuf_end s)" using s unfolding subject_ok_def by blast
  show ?case
  proof (cases "p1 < e \<and> p < cbuf_end s")
    case False
    then show ?thesis using Suc.prems by (auto simp: back_ref.simps [of "Suc fuel"])
  next
    case True
    obtain c1 q1 where g1: "GET_CHAR (cbuf_type s) (cbuf s) p1 e = Some (c1, q1)" "pos_ok s q1" "p1 < q1"
      using GET_CHAR_ok [OF s Suc.prems(1) e] True by blast
    obtain c2 q where g2: "GET_CHAR (cbuf_type s) (cbuf s) p (cbuf_end s) = Some (c2, q)" "pos_ok s q"
      using GET_CHAR_ok [OF s Suc.prems(2) ce] True by blast
    obtain d1 d2 where "re_canon s c1 = Some d1" "re_canon s c2 = Some d2"
      using re_canon_total by blast
    then show ?thesis
      using Suc.IH [OF g1(2) g2(2)] Suc.prems(3) g1 g2 True
      by (simp add: back_ref.simps [of "Suc fuel"])
  qed
qed

lemma backward_back_ref_ok:
  assumes s: "subject_ok s" and b: "pos_ok s b"
  shows "pos_ok s p1 \<Longrightarrow> pos_ok s p \<Longrightarrow> p1 - b \<le> fuel \<Longrightarrow>
    \<exists>r. backward_back_ref fuel s p1 b p = Some r \<and> (\<forall>q. r = Some q \<longrightarrow> pos_ok s q)"
proof (induction fuel arbitrary: p1 p)
  case 0
  then show ?case by (simp add: backward_back_ref.simps [of 0])
next
  case (Suc fuel)
  show ?case
  proof (cases "b < p1 \<and> 0 < p")
    case False
    then show ?thesis using Suc.prems by (auto simp: backward_back_ref.simps [of "Suc fuel"])
  next
    case True
    obtain c1 q1 where g1: "GET_PREV_CHAR (cbuf_type s) (cbuf s) p1 b = Some (c1, q1)" "pos_ok s q1" "q1 < p1"
      using GET_PREV_CHAR_ok [OF s Suc.prems(1) b] True by blast
    obtain c2 q where g2: "GET_PREV_CHAR (cbuf_type s) (cbuf s) p 0 = Some (c2, q)" "pos_ok s q"
      using GET_PREV_CHAR_ok [OF s Suc.prems(2) pos_ok_0] True by blast
    obtain d1 d2 where "re_canon s c1 = Some d1" "re_canon s c2 = Some d2"
      using re_canon_total by blast
    then show ?thesis
      using Suc.IH [OF g1(2) g2(2)] Suc.prems(3) g1 g2 True
      by (simp add: backward_back_ref.simps [of "Suc fuel"])
  qed
qed

section \<open>The backtracking stack\<close>

lemma saved_ok_code:
  "saved_ok bc ds s rs \<Longrightarrow> rs_type rs = RE_EXEC_STATE_GREEDY_QUANT \<Longrightarrow>
     \<exists>k. get_u32 bc (rs_pc rs + 12) = Some k \<and> 0 < k \<and> 0 < rs_count rs \<and>
         rs_count rs * unat k \<le> back_steps (cbuf_type s) (cbuf s) (rs_cptr rs)"
  by (auto simp: saved_ok_def)

lemma stack_ok_write:
  assumes "stack_ok bc ds s" "n < state_stack_size s" "saved_ok bc ds s rs" "n \<le> state_stack_len s"
    and "m \<le> Suc n"
  shows "stack_ok bc ds (s\<lparr>state_stack := Some ((block (state_stack s))[n := rs]), state_stack_len := m\<rparr>)"
  using assms
  by (auto simp: stack_ok_def nth_list_update same_ctx_ok [OF same_ctx_upd(5) [where s = s]])

lemma stack_ok_pop:
  "stack_ok bc ds s \<Longrightarrow> n \<le> state_stack_len s \<Longrightarrow> stack_ok bc ds (s\<lparr>state_stack_len := n\<rparr>)"
  by (auto simp: stack_ok_def same_ctx_ok [OF same_ctx_upd(4) [where s = s]])

locale state_reallocator = reallocator ra esz for ra :: "'o state_realloc" and esz
begin

text \<open>The reallocation of \<open>push_state\<close>.\<close>

lemma grow_ok:
  assumes s: "context_ok s" "stack_ok bc ds s" "state_size s = esz" "state_stack_len s = state_stack_size s"
  defines "new_size \<equiv> (if szt (state_stack_size s * 3) div 2 < 8 then 8 else szt (state_stack_size s * 3) div 2)"
  shows "\<exists>p st. ra (opaque s) (state_stack s) (szt (new_size * state_size s)) = Some (p, st) \<and>
    (\<forall>b. p = Some b \<longrightarrow>
       stack_ok bc ds (s\<lparr>opaque := st, state_stack_size := new_size, state_stack := Some b\<rparr>) \<and>
       state_stack_len s < new_size)"
proof -
  let ?n = "state_stack_size s"
  have sz: "32 \<le> esz" "esz \<le> 2 ^ 20" "?n * esz \<le> PTRDIFF_MAX" "length (block (state_stack s)) = ?n"
    using s by (simp_all add: context_ok_def stack_ok_def)
  have "?n * 32 \<le> ?n * esz" using sz(1) by (rule mult_le_mono2)
  from order_trans [OF this sz(3)] have n: "?n \<le> 2 ^ 58" by (simp add: PTRDIFF_MAX_def)
  then have new_eq: "new_size = (if ?n * 3 div 2 < 8 then 8 else ?n * 3 div 2)"
    by (simp add: new_size_def)
  have pos: "0 < new_size" by (simp add: new_eq)
  have gt: "?n < new_size" unfolding new_eq by presburger
  have "new_size * esz < 2 ^ 64"
  proof (cases "?n * 3 div 2 < 8")
    case True
    then have "new_size * esz = 8 * esz" by (simp add: new_eq)
    also have "\<dots> \<le> 8 * 2 ^ 20" using sz(2) by (intro mult_left_mono) simp_all
    finally show ?thesis by simp
  next
    case False
    then have "new_size * 2 \<le> ?n * 3" by (simp add: new_eq)
    then have "new_size * 2 * esz \<le> ?n * 3 * esz" by (rule mult_le_mono1)
    moreover have "new_size * 2 * esz = 2 * (new_size * esz)" "?n * 3 * esz = 3 * (?n * esz)"
      by (simp_all only: ac_simps)
    moreover have "(2 :: nat) ^ 63 - 1 = 9223372036854775807" "(2 :: nat) ^ 64 = 18446744073709551616"
      by simp_all
    ultimately show ?thesis using sz(3) unfolding PTRDIFF_MAX_def by linarith
  qed
  then have szt: "szt (new_size * state_size s) = new_size * esz" using s(3) by simp
  obtain p st where r: "ra (opaque s) (state_stack s) (new_size * esz) = Some (p, st)"
    using ra_total by (metis surj_pair)
  have "stack_ok bc ds (s\<lparr>opaque := st, state_stack_size := new_size, state_stack := Some b\<rparr>)"
    if b: "p = Some b" for b
  proof -
    have len: "length b = new_size" using ra_length [OF pos] r b by blast
    have "take ?n b = take ?n (block (state_stack s))"
      using ra_prefix [OF pos] r b sz(4) gt by (metis min.absorb2 less_imp_le)
    then have nth: "b ! i = block (state_stack s) ! i" if "i < ?n" for i
      using that by (metis nth_take)
    have "new_size * esz \<le> PTRDIFF_MAX" using ra_bounded r b by blast
    then show ?thesis
      using s gt len nth by (simp add: stack_ok_def same_ctx_ok [OF same_ctx_upd(6)])
  qed
  then show ?thesis using r szt s(4) gt by auto
qed

lemma push_state_ok:
  assumes inv: "exec_inv bc ds s th" "state_size s = esz" and d: "th_stack_len th \<le> stack_size_max s"
    and new: "saved_ok bc ds s
      \<lparr>rs_type = ty, rs_stack_len = th_stack_len th, rs_count = count, rs_cptr = th_cptr th, rs_pc = pc,
       rs_capture = take (2 * capture_count s) (th_capture th),
       rs_stack = take (th_stack_len th) (th_stack th)\<rparr>"
  shows "\<exists>r s'. push_state ra s th pc ty count = Some (r, s') \<and> same_ctx s s' \<and> exec_inv bc ds s' th"
proof -
  note parts = exec_inv_parts [OF inv(1)]
  have caps: "rd_block (th_capture th) 0 (2 * capture_count s) = Some (take (2 * capture_count s) (th_capture th))"
    using parts(5) by (simp add: caps_ok_def rd_block_def)
  have ints: "rd_block (th_stack th) 0 (th_stack_len th) = Some (take (th_stack_len th) (th_stack th))"
    using parts(7) d by (simp add: rd_block_def)
  have byte: "th_stack_len th mod 256 = th_stack_len th"
    using parts(1) d by (simp add: context_ok_def)
  have store: "\<exists>r s2. (do {
       caps \<leftarrow> rd_block (th_capture th) 0 (2 * capture_count s1);
       ints \<leftarrow> rd_block (th_stack th) 0 (th_stack_len th);
       c_assert (th_stack_len th \<le> stack_size_max s1);
       b \<leftarrow> wr (block (state_stack s1)) (state_stack_len s1)
              \<lparr>rs_type = ty, rs_stack_len = th_stack_len th mod 256, rs_count = count,
               rs_cptr = th_cptr th, rs_pc = pc, rs_capture = caps, rs_stack = ints\<rparr>;
       Some (0 :: int, s1\<lparr>state_stack := Some b, state_stack_len := state_stack_len s1 + 1\<rparr>)
     }) = Some (r, s2) \<and> same_ctx s s2 \<and> exec_inv bc ds s2 th"
    if s1: "same_ctx s s1" "stack_ok bc ds s1" "state_stack_len s1 < state_stack_size s1" for s1
  proof -
    let ?rs = "\<lparr>rs_type = ty, rs_stack_len = th_stack_len th, rs_count = count, rs_cptr = th_cptr th,
       rs_pc = pc, rs_capture = take (2 * capture_count s) (th_capture th),
       rs_stack = take (th_stack_len th) (th_stack th)\<rparr>"
    let ?b = "(block (state_stack s1))[state_stack_len s1 := ?rs]"
    let ?s2 = "s1\<lparr>state_stack := Some ?b, state_stack_len := Suc (state_stack_len s1)\<rparr>"
    have len: "state_stack_len s1 < length (block (state_stack s1))"
      using s1 by (simp add: stack_ok_def)
    have "stack_ok bc ds ?s2"
      using stack_ok_write [OF s1(2,3), of ?rs "Suc (state_stack_len s1)"] new s1
      by (simp add: same_ctx_ok [OF s1(1)])
    moreover have "same_ctx s ?s2" using s1(1) same_ctx_upd(5) same_ctx_trans by blast
    ultimately show ?thesis
      using exec_inv_ctx [OF inv(1)] len caps ints byte d s1
      by (simp add: same_ctx_fields [OF s1(1)])
  qed
  show ?thesis
  proof (cases "state_stack_len s + 1 > state_stack_size s")
    case False
    then show ?thesis
      using store [of s] parts(3) by (simp add: push_state_def)
  next
    case True
    then have full: "state_stack_len s = state_stack_size s" using parts(3) by (simp add: stack_ok_def)
    define new_size where
      "new_size = (if szt (state_stack_size s * 3) div 2 < 8 then 8 else szt (state_stack_size s * 3) div 2)"
    obtain p st where r: "ra (opaque s) (state_stack s) (szt (new_size * state_size s)) = Some (p, st)"
      and grown: "\<And>b. p = Some b \<Longrightarrow>
        stack_ok bc ds (s\<lparr>opaque := st, state_stack_size := new_size, state_stack := Some b\<rparr>) \<and>
        state_stack_len s < new_size"
      using grow_ok [OF parts(1,3) inv(2) full] unfolding new_size_def by blast
    show ?thesis
    proof (cases p)
      case None
      have "stack_ok bc ds (s\<lparr>opaque := st\<rparr>)"
        using parts(3) by (simp add: stack_ok_def same_ctx_ok [OF same_ctx_upd(1)])
      then show ?thesis
        using None True r exec_inv_ctx [OF inv(1) same_ctx_upd(1)]
        by (simp add: push_state_def Let_def new_size_def)
    next
      case (Some b)
      then show ?thesis
        using True r grown [OF Some] store [of "s\<lparr>opaque := st, state_stack_size := new_size, state_stack := Some b\<rparr>"]
        by (simp add: push_state_def Let_def new_size_def)
    qed
  qed
qed

end

section \<open>Backtracking\<close>

lemma wf_depth: "exec_inv bc ds s th \<Longrightarrow> depth_at ds p = Some d \<Longrightarrow> d \<le> stack_size_max s"
  using re_wf_at exec_inv_parts(8) by metis

lemma restore_stack_eq:
  assumes "rs_stack_len rs \<le> length (rs_stack rs)" "rs_stack_len rs \<le> length (th_stack th)"
  shows "restore_stack rs th =
    Some (th\<lparr>th_stack := take (rs_stack_len rs) (rs_stack rs) @ drop (rs_stack_len rs) (th_stack th),
             th_stack_len := rs_stack_len rs\<rparr>)"
  using assms by (simp add: restore_stack_def rd_block_def wr_block_def)

lemma restore_capture_ok:
  assumes "caps_ok s (rs_capture rs)" "caps_ok s (th_capture th)"
  shows "\<exists>caps. restore_capture s rs th = Some (th\<lparr>th_capture := caps\<rparr>) \<and> caps_ok s caps"
proof -
  let ?n = "2 * capture_count s"
  have len: "?n \<le> length (rs_capture rs)" "?n \<le> length (th_capture th)"
    using assms by (simp_all add: caps_ok_def)
  have "restore_capture s rs th =
      Some (th\<lparr>th_capture := take ?n (rs_capture rs) @ drop ?n (th_capture th)\<rparr>)"
    using len by (simp add: restore_capture_def rd_block_def wr_block_def)
  moreover have "caps_ok s (take ?n (rs_capture rs) @ drop ?n (th_capture th))"
    using caps_ok_append [OF caps_ok_take [OF assms(1)]] len by simp
  ultimately show ?thesis by blast
qed

definition resumed ::
  "u8 list \<Rightarrow> depths \<Rightarrow> 'o re_exec_context
     \<Rightarrow> (re_result option \<times> 'o re_exec_context \<times> re_thread) option \<Rightarrow> bool" where
  "resumed bc ds s r \<longleftrightarrow>
     (\<exists>res s' th'. r = Some (res, s', th') \<and> same_ctx s s' \<and> exec_inv bc ds s' th' \<and>
        (res = None \<longrightarrow> at_instr ds th'))"

lemma resumed_same_ctx: "resumed bc ds s' r \<Longrightarrow> same_ctx s s' \<Longrightarrow> resumed bc ds s r"
  unfolding resumed_def using same_ctx_trans by blast

lemma resumedI:
  assumes "exec_inv bc ds s th" "same_ctx s s'" "stack_ok bc ds s'" "r = Some (None, s', th')"
    and "thread_ok s th'" "at_instr ds th'"
  shows "resumed bc ds s r"
proof -
  have "exec_inv bc ds s' th'"
    using exec_inv_thread [OF exec_inv_ctx [OF assms(1-3)]] assms(2,5) by (simp add: same_ctx_ok)
  with assms show ?thesis by (simp add: resumed_def)
qed

lemma greedy_again:
  assumes inv: "exec_inv bc ds s th" and top: "Suc n = state_stack_len s"
    and rs: "saved_ok bc ds s rs" "rs_type rs = RE_EXEC_STATE_GREEDY_QUANT"
    and nth: "block (state_stack s) ! n = rs"
    and st: "length st = length (th_stack th)" and caps: "caps_ok s caps"
  shows "resumed bc ds s (do {
     char_count \<leftarrow> get_u32 bc (rs_pc rs + 12);
     cptr \<leftarrow> prev_chars (cbuf_type s) (cbuf s) (unat char_count) (rs_cptr rs);
     next_pos \<leftarrow> get_u32 bc (rs_pc rs);
     pc \<leftarrow> re_jump (rs_pc rs + 16) next_pos;
     let rs = rs\<lparr>rs_cptr := cptr, rs_count := szt_sub (rs_count rs) 1\<rparr>;
     b \<leftarrow> wr (block (state_stack s)) n rs;
     Some (None,
           s\<lparr>state_stack := Some b, state_stack_len := (if rs_count rs = 0 then n else Suc n)\<rparr>,
           (th\<lparr>th_capture := caps, th_stack := st, th_stack_len := rs_stack_len rs\<rparr>)
             \<lparr>th_pc := pc, th_cptr := cptr\<rparr>)
   })"
proof -
  note parts = exec_inv_parts [OF inv]
  let ?B = "back_steps (cbuf_type s) (cbuf s)"
  from rs obtain k where k: "get_u32 bc (rs_pc rs + 12) = Some k" "0 < k" "0 < rs_count rs"
    "rs_count rs * unat k \<le> ?B (rs_cptr rs)" and p: "pos_ok s (rs_cptr rs)" and pc: "0 < rs_pc rs"
    and d: "depth_at ds (rs_pc rs - 1) = Some (rs_stack_len rs)"
    and op: "reop_of (unat (bc ! (rs_pc rs - 1))) = Some REOP_simple_greedy_quant"
    by (auto simp: saved_ok_def)
  have split: "rs_count rs * unat k = unat k + (rs_count rs - 1) * unat k"
    using k(3) by (cases "rs_count rs") auto
  have kpos: "0 < unat k" using k(2) by (simp add: word_less_nat_alt)
  obtain q where q: "prev_chars (cbuf_type s) (cbuf s) (unat k) (rs_cptr rs) = Some q" "pos_ok s q"
    "?B q = ?B (rs_cptr rs) - unat k"
    using prev_chars_ok [OF parts(2) p, of "unat k"] k(4) split by auto
  obtain t next_pos where j: "get_u32 bc (rs_pc rs) = Some next_pos"
    "re_jump (rs_pc rs + 16) next_pos = Some t" "depth_at ds t = Some (rs_stack_len rs)"
  proof -
    have wf: "wf_instr bc (capture_count s) (stack_size_max s) ds (rs_pc rs - 1) (rs_stack_len rs)
        REOP_simple_greedy_quant"
      by (rule re_wf_at [OF parts(8) d]) (use op in simp)
    have "rs_pc rs - 1 + 1 = rs_pc rs" "rs_pc rs - 1 + 17 = rs_pc rs + 16" using pc by simp_all
    then show thesis
      using wf that by (simp add: wf_instr_def Let_def re_assert_op_def add.commute split: option.splits)
  qed
  have "rs_count rs \<le> rs_count rs * unat k" using kpos by simp
  also have "\<dots> \<le> rs_cptr rs" using k(4) back_steps_bound le_trans by blast
  also have "\<dots> \<le> PTRDIFF_MAX" using p parts(2) by (simp add: pos_ok_def subject_ok_def)
  finally have "szt_sub (rs_count rs) 1 = rs_count rs - 1"
    using k(3) by (intro szt_sub_le) (auto simp: PTRDIFF_MAX_def)
  note sub = this
  let ?rs = "rs\<lparr>rs_cptr := q, rs_count := rs_count rs - 1\<rparr>"
  let ?m = "if rs_count rs - 1 = 0 then n else Suc n"
  let ?s = "s\<lparr>state_stack := Some ((block (state_stack s))[n := ?rs]), state_stack_len := ?m\<rparr>"
  have lt: "n < length (block (state_stack s))" "n < state_stack_size s"
    using parts(3) top by (auto simp: stack_ok_def)
  have "stack_ok bc ds ?s"
  proof (cases "rs_count rs = 1")
    case False
    then have "saved_ok bc ds s ?rs"
      using rs q k split by (auto simp: saved_ok_def)
    then show ?thesis using stack_ok_write [OF parts(3) lt(2)] top by simp
  next
    case True
    then show ?thesis using parts(3) top
      by (simp add: stack_ok_def same_ctx_ok [OF same_ctx_upd(5) [where s = s]])
  qed
  then show ?thesis
    using k j q lt sub parts(4) st caps
    by (intro resumedI [OF inv, where s' = ?s and th' = "th\<lparr>th_capture := caps, th_stack := st,
          th_stack_len := rs_stack_len rs, th_pc := t, th_cptr := q\<rparr>"])
      (simp_all add: at_instr_def Let_def)
qed

lemma re_recurse_ok:
  "exec_inv bc ds s th \<Longrightarrow> n = state_stack_len s \<Longrightarrow> resumed bc ds s (re_recurse bc n ret s th)"
proof (induction n arbitrary: s ret)
  case 0
  then show ?case by (simp add: resumed_def)
next
  case (Suc n)
  note inv = Suc.prems(1)
  note parts = exec_inv_parts [OF inv]
  define rs where "rs = block (state_stack s) ! n"
  have lt: "n < length (block (state_stack s))" and ok: "saved_ok bc ds s rs"
    using parts(3) Suc.prems(2) by (auto simp: stack_ok_def rs_def)
  have rd: "rd (block (state_stack s)) n = Some rs" using lt by (simp add: rs_def)
  let ?pop = "s\<lparr>state_stack_len := n\<rparr>"
  have pop: "stack_ok bc ds ?pop" using stack_ok_pop [OF parts(3)] Suc.prems(2) by simp
  have again: "resumed bc ds s (re_recurse bc n ret' ?pop th)" for ret'
  proof (rule resumed_same_ctx [OF _ same_ctx_upd(4)])
    show "resumed bc ds ?pop (re_recurse bc n ret' ?pop th)"
      using Suc.IH [of ?pop ret'] exec_inv_ctx [OF inv same_ctx_upd(4) pop] by simp
  qed
  have rs_depth: "\<exists>p. depth_at ds p = Some (rs_stack_len rs)"
    using ok by (auto simp: saved_ok_def split: if_splits)
  then have "rs_stack_len rs \<le> length (th_stack th)"
    using wf_depth [OF inv] parts(7) le_trans by blast
  then have len: "rs_stack_len rs \<le> length (rs_stack rs)" "rs_stack_len rs \<le> length (th_stack th)"
    using ok by (simp_all add: saved_ok_def)
  define st where "st = take (rs_stack_len rs) (rs_stack rs) @ drop (rs_stack_len rs) (th_stack th)"
  have st: "\<And>caps. restore_stack rs (th\<lparr>th_capture := caps\<rparr>) =
      Some (th\<lparr>th_capture := caps, th_stack := st, th_stack_len := rs_stack_len rs\<rparr>)"
    "restore_stack rs th = Some (th\<lparr>th_stack := st, th_stack_len := rs_stack_len rs\<rparr>)"
    "length st = length (th_stack th)"
    using len by (simp_all add: restore_stack_eq st_def)
  obtain caps where caps: "restore_capture s rs th = Some (th\<lparr>th_capture := caps\<rparr>)" "caps_ok s caps"
    using restore_capture_ok [OF _ parts(5)] ok unfolding saved_ok_def by blast
  have resume: "resumed bc ds s (do {
      th \<leftarrow> restore_capture s rs th;
      th \<leftarrow> restore_stack rs th;
      Some (None, ?pop, th\<lparr>th_pc := rs_pc rs, th_cptr := rs_cptr rs\<rparr>)
    })"
    if "rs_type rs \<noteq> RE_EXEC_STATE_GREEDY_QUANT"
    using that ok st caps parts(4)
    by (intro resumedI [OF inv, where s' = ?pop and th' = "th\<lparr>th_capture := caps, th_stack := st,
          th_stack_len := rs_stack_len rs, th_pc := rs_pc rs, th_cptr := rs_cptr rs\<rparr>"])
      (simp_all add: pop at_instr_def saved_ok_def)
  have resume': "resumed bc ds s (do {
      th \<leftarrow> restore_stack rs th;
      Some (None, ?pop, th\<lparr>th_pc := rs_pc rs, th_cptr := rs_cptr rs\<rparr>)
    })"
    if "rs_type rs \<noteq> RE_EXEC_STATE_GREEDY_QUANT"
    using that ok st parts(4)
    by (intro resumedI [OF inv, where s' = ?pop and th' = "th\<lparr>th_stack := st,
          th_stack_len := rs_stack_len rs, th_pc := rs_pc rs, th_cptr := rs_cptr rs\<rparr>"])
      (simp_all add: pop at_instr_def saved_ok_def)
  show ?case
  proof (cases "rs_type rs")
    case RE_EXEC_STATE_SPLIT
    then show ?thesis using rd again resume by (simp add: Let_def)
  next
    case RE_EXEC_STATE_LOOKAHEAD
    then show ?thesis using rd again resume' by (simp add: Let_def)
  next
    case RE_EXEC_STATE_NEGATIVE_LOOKAHEAD
    then show ?thesis using rd again resume by (simp add: Let_def)
  next
    case RE_EXEC_STATE_GREEDY_QUANT
    then show ?thesis
      using rd again greedy_again [OF inv Suc.prems(2) ok RE_EXEC_STATE_GREEDY_QUANT rs_def [symmetric] st(3) caps(2)]
        st caps
      by (simp add: Let_def)
  qed
qed

section \<open>One instruction\<close>

definition step_ok ::
  "u8 list \<Rightarrow> depths \<Rightarrow> 'o re_exec_context \<Rightarrow> 'o re_outcome option \<Rightarrow> bool" where
  "step_ok bc ds s r \<longleftrightarrow>
     (case r of
        None \<Rightarrow> False
      | Some (Next s' th') \<Rightarrow> same_ctx s s' \<and> exec_inv bc ds s' th' \<and> at_instr ds th'
      | Some (No_match s' th') \<Rightarrow> same_ctx s s' \<and> exec_inv bc ds s' th'
      | Some (Match s' th') \<Rightarrow> same_ctx s s' \<and> exec_inv bc ds s' th'
      | Some (Fail s' th') \<Rightarrow> same_ctx s s' \<and> exec_inv bc ds s' th')"

lemma step_okI:
  assumes "exec_inv bc ds s th" "thread_ok s th'"
  shows "step_ok bc ds s (Some (No_match s th'))" "step_ok bc ds s (Some (Match s th'))"
    "at_instr ds th' \<Longrightarrow> step_ok bc ds s (Some (Next s th'))"
  using exec_inv_thread [OF assms] by (simp_all add: step_ok_def)

lemma jumps_toD:
  "jumps_to ds bc pc d \<Longrightarrow>
     \<exists>v t. get_u32 bc pc = Some v \<and> re_jump (pc + 4) v = Some t \<and> depth_at ds t = Some d"
  by (auto simp: jumps_to_def split: option.splits)

lemma char_step_ok:
  assumes inv: "exec_inv bc ds s th" and c: "char_step s th q r" and q: "depth_at ds q = Some (th_stack_len th)"
  shows "step_ok bc ds s r"
proof -
  note th = exec_inv_parts(4) [OF inv]
  from c obtain p where p: "pos_ok s p"
    and r: "r = Some (No_match s (th\<lparr>th_cptr := p\<rparr>)) \<or> r = Some (Next s (th\<lparr>th_pc := q, th_cptr := p\<rparr>))"
    unfolding char_step_def by blast
  have ok: "thread_ok s (th\<lparr>th_cptr := p\<rparr>)" "thread_ok s (th\<lparr>th_pc := q, th_cptr := p\<rparr>)"
    using th p by simp_all
  have "at_instr ds (th\<lparr>th_pc := q, th_cptr := p\<rparr>)" using q by (simp add: at_instr_def)
  with r step_okI [OF inv ok(1)] step_okI [OF inv ok(2)] show ?thesis by blast
qed

lemma push_int_ok:
  assumes "thread_ok s th" "th_stack_len th < stack_size_max s"
  shows "\<exists>st. push_int th v = Some (th\<lparr>th_stack := st, th_stack_len := th_stack_len th + 1\<rparr>) \<and>
    length st = length (th_stack th)"
  using assms
  by (intro exI [of _ "(th_stack th)[th_stack_len th := v]"]) (simp add: push_int_def thread_ok_def)

lemma save_step_ok:
  assumes inv: "exec_inv bc ds s th" and v: "v < capture_count s" and i: "i \<le> 1"
    and at: "depth_at ds p = Some (th_stack_len th)"
  shows "step_ok bc ds s (do {
      capture \<leftarrow> wr (th_capture th) (2 * v + i) (Some (th_cptr th));
      Some (Next s (th\<lparr>th_capture := capture, th_pc := p\<rparr>))
    })"
proof -
  note parts = exec_inv_parts [OF inv]
  have "2 * v + i < length (th_capture th)" using parts(5) v i by (simp add: caps_ok_def)
  moreover have "caps_ok s ((th_capture th)[2 * v + i := Some (th_cptr th)])"
    using parts(5,6) by (intro caps_ok_update) simp_all
  ultimately show ?thesis
    using at parts(4) by (simp add: step_okI(3) [OF inv] at_instr_def)
qed

lemma back_reference_ok:
  assumes inv: "exec_inv bc ds s th" and v: "unat val < capture_count s"
    and at: "depth_at ds p = Some (th_stack_len th)"
    and f: "\<And>a b. pos_ok s a \<Longrightarrow> pos_ok s b \<Longrightarrow> \<exists>r. f a b = Some r \<and> (\<forall>q. r = Some q \<longrightarrow> pos_ok s q)"
  shows "step_ok bc ds s (do {
      a \<leftarrow> rd (th_capture th) (2 * unat val);
      b \<leftarrow> rd (th_capture th) (2 * unat val + 1);
      (case (a, b) of
         (Some cptr1_start, Some cptr1_end) \<Rightarrow> do {
           r \<leftarrow> f cptr1_start cptr1_end;
           (case r of
              None \<Rightarrow> Some (No_match s th)
            | Some cptr \<Rightarrow> Some (Next s (th\<lparr>th_cptr := cptr, th_pc := p\<rparr>)))
         }
       | _ \<Rightarrow> Some (Next s (th\<lparr>th_pc := p\<rparr>)))
    })"
proof -
  note parts = exec_inv_parts [OF inv]
  have i: "2 * unat val < 2 * capture_count s" "2 * unat val + 1 < 2 * capture_count s" using v by auto
  note a = caps_ok_nth [OF parts(5) i(1)] and b = caps_ok_nth [OF parts(5) i(2)]
  have skip: "step_ok bc ds s (Some (Next s (th\<lparr>th_pc := p\<rparr>)))"
    using at parts(4) by (intro step_okI(3) [OF inv]) (simp_all add: at_instr_def)
  show ?thesis
  proof (cases "th_capture th ! (2 * unat val)")
    case None
    then show ?thesis using a b skip by simp
  next
    case (Some x)
    note x = this
    show ?thesis
    proof (cases "th_capture th ! (2 * unat val + 1)")
      case None
      then show ?thesis using x a b skip by simp
    next
      case (Some y)
      obtain r where r: "f x y = Some r" "\<forall>q. r = Some q \<longrightarrow> pos_ok s q"
        using f [of x y] x Some a b by blast
      have "step_ok bc ds s (Some (No_match s th))" using step_okI(1) [OF inv parts(4)] .
      moreover have "step_ok bc ds s (Some (Next s (th\<lparr>th_cptr := q, th_pc := p\<rparr>)))" if "r = Some q" for q
        using at parts(4) r that by (intro step_okI(3) [OF inv]) (simp_all add: at_instr_def)
      ultimately show ?thesis using x Some a b r by (simp split: option.split)
    qed
  qed
qed

context state_reallocator
begin

lemma re_push_ok:
  assumes inv: "exec_inv bc ds s th" "state_size s = esz"
    and pc: "depth_at ds pc = Some (th_stack_len th)" "depth_at ds pc1 = Some (th_stack_len th)"
    and ty: "ty \<noteq> RE_EXEC_STATE_GREEDY_QUANT"
  shows "step_ok bc ds s (re_push ra s th pc pc1 ty)"
proof -
  note parts = exec_inv_parts [OF inv(1)]
  have d: "th_stack_len th \<le> stack_size_max s" using wf_depth [OF inv(1) pc(1)] .
  obtain r s' where r: "push_state ra s th pc1 ty 0 = Some (r, s')" "same_ctx s s'" "exec_inv bc ds s' th"
    using push_state_ok [OF inv d, of ty 0 pc1] parts ty pc(2) d caps_ok_take [OF parts(5)]
    by (auto simp: saved_ok_def)
  have "exec_inv bc ds s' (th\<lparr>th_pc := pc\<rparr>)"
    using r(3) exec_inv_parts(4) [OF r(3)] by (intro exec_inv_thread [OF r(3)]) simp
  then show ?thesis using r pc by (simp add: re_push_def step_ok_def at_instr_def)
qed

lemma re_step_ok:
  assumes inv: "exec_inv bc ds s th" "state_size s = esz" and at: "at_instr ds th"
    and wf: "wf_instr bc (capture_count s) (stack_size_max s) ds (th_pc th) (th_stack_len th) opcode"
    and nq: "opcode \<noteq> REOP_simple_greedy_quant"
  shows "step_ok bc ds s (re_step ra bc opcode (th_pc th + 1) s th)"
proof -
  note parts = exec_inv_parts [OF inv(1)]
  note okI = step_okI [OF inv(1)]
  have d: "th_stack_len th \<le> stack_size_max s" "th_stack_len th \<le> length (th_stack th)"
    using wf_depth [OF inv(1)] at parts(7) by (auto simp: at_instr_def intro: le_trans)
  let ?pc = "th_pc th + 1"
  have goto: "depth_at ds p = Some (th_stack_len th) \<Longrightarrow> step_ok bc ds s (Some (Next s (th\<lparr>th_pc := p\<rparr>)))" for p
    using parts(4) by (intro okI(3)) (simp_all add: at_instr_def)
  have jump: "\<exists>v t. get_u32 bc ?pc = Some v \<and> re_jump (?pc + 4) v = Some t \<and> depth_at ds t = Some k"
    if "jumps_to ds bc ?pc k" for k using jumps_toD [OF that] .
  consider (asserts) "re_assert_op opcode"
    | (chars) q where "re_char_next bc opcode ?pc = Some q" "depth_at ds q = Some (th_stack_len th)"
    | (rest) "\<not> re_assert_op opcode" "re_char_next bc opcode ?pc = None"
    using wf by (cases opcode) (auto simp: wf_instr_def Let_def re_assert_op_def re_char_next_def split: option.splits)
  then show ?thesis
  proof cases
    case asserts
    then have "depth_at ds ?pc = Some (th_stack_len th)" using wf by (simp add: wf_instr_def Let_def)
    then show ?thesis
      using re_assert_step [OF parts(2,6) asserts, of ra bc ?pc] okI(1) [OF parts(4)] goto by auto
  next
    case chars
    then show ?thesis using char_step_ok [OF inv(1) re_char_next_step [OF parts(2,6)]] by blast
  next
    case rest
    show ?thesis
    proof (cases opcode)
      case REOP_match
      then show ?thesis using okI(2) [OF parts(4)] by (simp add: re_step_def)
    next
      case REOP_goto
      then have "jumps_to ds bc ?pc (th_stack_len th)" using wf rest by (simp add: wf_instr_def Let_def)
      from jump [OF this] REOP_goto goto show ?thesis by (auto simp: re_step_def)
    next
      case REOP_split_goto_first
      then have w: "jumps_to ds bc ?pc (th_stack_len th)" "depth_at ds (?pc + 4) = Some (th_stack_len th)"
        using wf rest by (simp_all add: wf_instr_def Let_def add.commute)
      from jump [OF w(1)] REOP_split_goto_first w(2) re_push_ok [OF inv] show ?thesis by (auto simp: re_step_def)
    next
      case REOP_split_next_first
      then have w: "jumps_to ds bc ?pc (th_stack_len th)" "depth_at ds (?pc + 4) = Some (th_stack_len th)"
        using wf rest by (simp_all add: wf_instr_def Let_def add.commute)
      from jump [OF w(1)] REOP_split_next_first w(2) re_push_ok [OF inv] show ?thesis by (auto simp: re_step_def)
    next
      case REOP_lookahead
      then have w: "jumps_to ds bc ?pc (th_stack_len th)" "depth_at ds (?pc + 4) = Some (th_stack_len th)"
        using wf rest by (simp_all add: wf_instr_def Let_def add.commute)
      from jump [OF w(1)] REOP_lookahead w(2) re_push_ok [OF inv] show ?thesis by (auto simp: re_step_def)
    next
      case REOP_negative_lookahead
      then have w: "jumps_to ds bc ?pc (th_stack_len th)" "depth_at ds (?pc + 4) = Some (th_stack_len th)"
        using wf rest by (simp_all add: wf_instr_def Let_def add.commute)
      from jump [OF w(1)] REOP_negative_lookahead w(2) re_push_ok [OF inv] show ?thesis by (auto simp: re_step_def)
    next
      case REOP_save_start
      then show ?thesis using wf rest save_step_ok [OF inv(1), of "unat (bc ! ?pc)" 0 "?pc + 1"]
        by (simp add: wf_instr_def Let_def re_step_def add.commute)
    next
      case REOP_save_end
      then show ?thesis using wf rest save_step_ok [OF inv(1), of "unat (bc ! ?pc)" 1 "?pc + 1"]
        by (simp add: wf_instr_def Let_def re_step_def add.commute)
    next
      case REOP_save_reset
      then have w: "?pc + 1 < length bc" "unat (bc ! (?pc + 1)) < capture_count s"
        "depth_at ds (?pc + 2) = Some (th_stack_len th)"
        using wf rest by (simp_all add: wf_instr_def Let_def numeral_eq_Suc)
      show ?thesis
      proof (cases "unat (bc ! ?pc) \<le> unat (bc ! (?pc + 1))")
        case True
        then obtain caps where "reset_captures (unat (bc ! ?pc)) (unat (bc ! (?pc + 1)) + 1 - unat (bc ! ?pc))
          (th_capture th) = Some caps" "caps_ok s caps"
          using reset_captures_ok [OF parts(5), of "unat (bc ! ?pc)"
            "unat (bc ! (?pc + 1)) + 1 - unat (bc ! ?pc)"] w(2) by auto
        then show ?thesis using REOP_save_reset w parts(4)
          by (simp add: re_step_def okI(3) at_instr_def)
      next
        case False
        then show ?thesis using REOP_save_reset w goto by (simp add: re_step_def)
      qed
    next
      case REOP_push_i32
      then have w: "?pc + 4 \<le> length bc" "th_stack_len th < stack_size_max s"
        "depth_at ds (?pc + 4) = Some (th_stack_len th + 1)"
        using wf rest by (simp_all add: wf_instr_def Let_def add.commute)
      obtain v where "get_u32 bc ?pc = Some v"
        using w(1) by (auto simp: get_u32_def rd_block_def)
      then show ?thesis using REOP_push_i32 push_int_ok [OF parts(4) w(2), of "ucast v"] w parts(4)
        by (auto simp: re_step_def intro!: okI(3) simp: at_instr_def)
    next
      case REOP_push_char_pos
      then have w: "th_stack_len th < stack_size_max s" "depth_at ds ?pc = Some (th_stack_len th + 1)"
        using wf rest by (simp_all add: wf_instr_def Let_def add.commute)
      then show ?thesis
        using REOP_push_char_pos push_int_ok [OF parts(4) w(1), of "cbuf_addr s + word_of_nat (th_cptr th)"] parts(4)
        by (auto simp: re_step_def intro!: okI(3) simp: at_instr_def)
    next
      case REOP_drop
      then show ?thesis using wf rest parts(4)
        by (simp add: wf_instr_def Let_def re_step_def okI(3) at_instr_def)
    next
      case REOP_loop
      then have w: "0 < th_stack_len th" "jumps_to ds bc ?pc (th_stack_len th)"
        "depth_at ds (?pc + 4) = Some (th_stack_len th)"
        using wf rest by (simp_all add: wf_instr_def Let_def add.commute)
      obtain v t where j: "get_u32 bc ?pc = Some v" "re_jump (?pc + 4) v = Some t"
        "depth_at ds t = Some (th_stack_len th)"
        using jumps_toD [OF w(2)] by blast
      show ?thesis using REOP_loop w j d parts(4)
        by (auto simp: re_step_def rd_def wr_def Let_def intro!: okI(3) simp: at_instr_def)
    next
      case REOP_bne_char_pos
      then have w: "0 < th_stack_len th" "jumps_to ds bc ?pc (th_stack_len th - 1)"
        "depth_at ds (?pc + 4) = Some (th_stack_len th - 1)"
        using wf rest by (simp_all add: wf_instr_def Let_def add.commute)
      obtain v t where j: "get_u32 bc ?pc = Some v" "re_jump (?pc + 4) v = Some t"
        "depth_at ds t = Some (th_stack_len th - 1)"
        using jumps_toD [OF w(2)] by blast
      show ?thesis using REOP_bne_char_pos w j d parts(4)
        by (auto simp: re_step_def rd_def Let_def intro!: okI(3) simp: at_instr_def)
    next
      case REOP_back_reference
      then have w: "?pc < length bc" "depth_at ds (?pc + 1) = Some (th_stack_len th)"
        using wf rest by (simp_all add: wf_instr_def Let_def add.commute)
      show ?thesis
      proof (cases "unat (bc ! ?pc) < capture_count s")
        case True
        have f: "\<exists>r. back_ref (b - a) s a b (th_cptr th) = Some r \<and> (\<forall>q. r = Some q \<longrightarrow> pos_ok s q)"
          if "pos_ok s a" "pos_ok s b" for a b
          using back_ref_ok [OF parts(2) that(2,1) parts(6) le_refl] .
        have c: "re_step ra bc opcode ?pc s th = (do {
            val \<leftarrow> rd bc ?pc;
            if unat val \<ge> capture_count s then Some (No_match s th)
            else do {
              a \<leftarrow> rd (th_capture th) (2 * unat val);
              b \<leftarrow> rd (th_capture th) (2 * unat val + 1);
              (case (a, b) of
                 (Some cptr1_start, Some cptr1_end) \<Rightarrow> do {
                   r \<leftarrow> back_ref (cptr1_end - cptr1_start) s cptr1_start cptr1_end (th_cptr th);
                   (case r of
                      None \<Rightarrow> Some (No_match s th)
                    | Some cptr \<Rightarrow> Some (Next s (th\<lparr>th_cptr := cptr, th_pc := ?pc + 1\<rparr>)))
                 }
               | _ \<Rightarrow> Some (Next s (th\<lparr>th_pc := ?pc + 1\<rparr>)))
            }
          })"
          unfolding re_step_def Let_def REOP_back_reference reop.case by simp
        show ?thesis
          unfolding c rd_nth [OF w(1)] Option.bind.bind_lunit
          using back_reference_ok [OF inv(1) True w(2) f] True by simp
      next
        case False
        then show ?thesis using REOP_back_reference w okI(1) [OF parts(4)] by (simp add: re_step_def)
      qed
    next
      case REOP_backward_back_reference
      then have w: "?pc < length bc" "depth_at ds (?pc + 1) = Some (th_stack_len th)"
        using wf rest by (simp_all add: wf_instr_def Let_def add.commute)
      show ?thesis
      proof (cases "unat (bc ! ?pc) < capture_count s")
        case True
        have f: "\<exists>r. backward_back_ref (b - a) s b a (th_cptr th) = Some r \<and> (\<forall>q. r = Some q \<longrightarrow> pos_ok s q)"
          if "pos_ok s a" "pos_ok s b" for a b
          using backward_back_ref_ok [OF parts(2) that parts(6) le_refl] .
        have c: "re_step ra bc opcode ?pc s th = (do {
            val \<leftarrow> rd bc ?pc;
            if unat val \<ge> capture_count s then Some (No_match s th)
            else do {
              a \<leftarrow> rd (th_capture th) (2 * unat val);
              b \<leftarrow> rd (th_capture th) (2 * unat val + 1);
              (case (a, b) of
                 (Some cptr1_start, Some cptr1_end) \<Rightarrow> do {
                   r \<leftarrow> backward_back_ref (cptr1_end - cptr1_start) s cptr1_end cptr1_start (th_cptr th);
                   (case r of
                      None \<Rightarrow> Some (No_match s th)
                    | Some cptr \<Rightarrow> Some (Next s (th\<lparr>th_cptr := cptr, th_pc := ?pc + 1\<rparr>)))
                 }
               | _ \<Rightarrow> Some (Next s (th\<lparr>th_pc := ?pc + 1\<rparr>)))
            }
          })"
          unfolding re_step_def Let_def REOP_backward_back_reference reop.case by simp
        show ?thesis
          unfolding c rd_nth [OF w(1)] Option.bind.bind_lunit
          using back_reference_ok [OF inv(1) True w(2) f] True by simp
      next
        case False
        then show ?thesis using REOP_backward_back_reference w okI(1) [OF parts(4)] by (simp add: re_step_def)
      qed
    next
      case REOP_prev
      then have w: "depth_at ds ?pc = Some (th_stack_len th)"
        using wf rest by (simp add: wf_instr_def Let_def)
      show ?thesis
      proof (cases "th_cptr th = 0")
        case True
        then show ?thesis using REOP_prev okI(1) [OF parts(4)] by (simp add: re_step_def)
      next
        case False
        then show ?thesis using REOP_prev w parts(4) PREV_CHAR_ok [OF parts(2,6)]
          by (auto simp: re_step_def at_instr_def intro!: okI(3))
      qed
    next
      case REOP_invalid
      then show ?thesis using wf rest by (simp add: wf_instr_def Let_def)
    qed (use wf rest nq in \<open>simp_all add: wf_instr_def Let_def re_assert_op_def re_char_next_def split: option.splits\<close>)
  qed
qed

end

section \<open>The main loop\<close>

lemma reop_at:
  assumes "exec_inv bc ds s th" "at_instr ds th"
  obtains opcode where "rd bc (th_pc th) = Some (bc ! th_pc th)"
    "reop_of (unat (bc ! th_pc th)) = Some opcode"
    "wf_instr bc (capture_count s) (stack_size_max s) ds (th_pc th) (th_stack_len th) opcode"
  using re_wf_at [OF exec_inv_parts(8) [OF assms(1)]] assms(2) unfolding at_instr_def by metis

definition exec_result ::
  "u8 list \<Rightarrow> depths \<Rightarrow> 'o re_exec_context
     \<Rightarrow> (re_result \<times> 'o re_exec_context \<times> re_thread) option \<Rightarrow> bool" where
  "exec_result bc ds s r \<longleftrightarrow>
     (\<exists>res s' th'. r = Some (res, s', th') \<and> same_ctx s s' \<and> exec_inv bc ds s' th')"

lemma exec_resultI: "r = Some (res, s', th') \<Longrightarrow> same_ctx s s' \<Longrightarrow> exec_inv bc ds s' th' \<Longrightarrow> exec_result bc ds s r"
  by (auto simp: exec_result_def)

lemma exec_result_same_ctx: "exec_result bc ds s' r \<Longrightarrow> same_ctx s s' \<Longrightarrow> exec_result bc ds s r"
  unfolding exec_result_def using same_ctx_trans by blast

lemma wf_quant:
  assumes "wf_instr bc cc sm ds pc d REOP_simple_greedy_quant"
  shows "\<exists>next_pos k t. get_u32 bc (pc + 1) = Some next_pos \<and> get_u32 bc (pc + 13) = Some k \<and> 0 < k \<and>
    re_simple (length bc) bc (pc + 17) = Some (unat k) \<and> re_jump (pc + 17) next_pos = Some t \<and>
    depth_at ds t = Some d"
  using assms by (auto simp: wf_instr_def Let_def re_assert_op_def split: option.splits)

lemma get_u32_before: "get_u32 bc (p + k) = Some v \<Longrightarrow> j \<le> k \<Longrightarrow> \<exists>w. get_u32 bc (p + j) = Some w"
  by (auto simp: get_u32_def bind_Some_iff rd_block_def split: if_splits)

context state_reallocator
begin

theorem lre_exec_backtrack_safe:
  assumes "exec_inv bc ds s th" "at_instr ds th" "state_size s = esz"
  shows "exec_result bc ds s (lre_exec_backtrack fuel ra bc s th False)"
  using assms
proof (induction fuel arbitrary: s th)
  case 0
  then show ?case by (intro exec_resultI [where s' = s and th' = th]) simp_all
next
  case (Suc fuel)
  note inv = Suc.prems(1)
  note parts = exec_inv_parts [OF inv]
  obtain opcode where op: "rd bc (th_pc th) = Some (bc ! th_pc th)"
    "reop_of (unat (bc ! th_pc th)) = Some opcode"
    and wf: "wf_instr bc (capture_count s) (stack_size_max s) ds (th_pc th) (th_stack_len th) opcode"
    by (rule reop_at [OF inv Suc.prems(2)])
  have again: "exec_result bc ds s (lre_exec_backtrack fuel ra bc s' th' False)"
    if "same_ctx s s'" "exec_inv bc ds s' th'" "at_instr ds th'" for s' th'
    using Suc.IH [OF that(2,3)] that(1) Suc.prems(3) same_ctx_fields(6) [OF that(1)]
    by (intro exec_result_same_ctx [OF _ that(1)]) simp
  have finish: "exec_result bc ds s (do {
       (r, s, th) \<leftarrow> re_recurse bc (state_stack_len s') ret s' th';
       (case r of
          Some r \<Rightarrow> Some (r, s, th)
        | None \<Rightarrow> lre_exec_backtrack fuel ra bc s th False)
     })"
    if s': "same_ctx s s'" "exec_inv bc ds s' th'" for s' th' ret
  proof -
    from re_recurse_ok [OF s'(2) refl] obtain r s2 th2
      where r: "re_recurse bc (state_stack_len s') ret s' th' = Some (r, s2, th2)" "same_ctx s' s2"
        "exec_inv bc ds s2 th2" "r = None \<Longrightarrow> at_instr ds th2"
      unfolding resumed_def by blast
    have "same_ctx s s2" using s'(1) r(2) same_ctx_trans by blast
    with r again [of s2 th2] show ?thesis
      by (cases r) (auto intro: exec_resultI)
  qed
  show ?case
  proof (cases "opcode = REOP_simple_greedy_quant")
    case False
    have ok: "step_ok bc ds s (re_step ra bc opcode (th_pc th + 1) s th)"
      by (rule re_step_ok [OF inv Suc.prems(3,2) wf False])
    then obtain outc where outc: "re_step ra bc opcode (th_pc th + 1) s th = Some outc"
      by (auto simp: step_ok_def split: option.splits)
    show ?thesis
    proof (cases outc)
      case (Next s' th')
      then show ?thesis using ok op False outc again [of s' th'] by (simp add: step_ok_def)
    next
      case (No_match s' th')
      then show ?thesis using ok op False outc finish [of s' th' False] by (simp add: step_ok_def)
    next
      case (Match s' th')
      then show ?thesis using ok op False outc finish [of s' th' True] by (simp add: step_ok_def)
    next
      case (Fail s' th')
      then show ?thesis using ok op False outc by (auto simp: step_ok_def intro: exec_resultI)
    qed
  next
    case True
    let ?pc = "th_pc th + 1"
    have pcs: "?pc + 16 = th_pc th + 17" by simp
    obtain next_pos k t where q: "get_u32 bc ?pc = Some next_pos"
      "get_u32 bc (th_pc th + 13) = Some k" "0 < k"
      "re_simple (length bc) bc (th_pc th + 17) = Some (unat k)"
      "re_jump (th_pc th + 17) next_pos = Some t" "depth_at ds t = Some (th_stack_len th)"
      using wf_quant wf True by blast
    obtain qmin qmax where m: "get_u32 bc (th_pc th + 5) = Some qmin" "get_u32 bc (th_pc th + 9) = Some qmax"
      using get_u32_before [OF q(2), of 5] get_u32_before [OF q(2), of 9] by auto
    obtain r n th' where g: "re_greedy fuel ra bc s th (th_pc th + 17) qmax 0 = Some (r, n, s, th')"
      "th' = th\<lparr>th_cptr := th_cptr th'\<rparr>" "pos_ok s (th_cptr th')"
      "n * unat k \<le> chars_before s (th_cptr th')" "r = None \<or> r = Some RE_TIMEOUT"
      using re_greedy_exec [OF parts(2) q(4) parts(6), of 0 fuel ra qmax] by auto
    have th': "thread_ok s th'" "th_stack_len th' = th_stack_len th" "th_pc th' = th_pc th"
      by (subst g(2), use g(3) parts(4) in simp)+
    note inv' = exec_inv_thread [OF inv th'(1)]
    have unfold_step: "lre_exec_backtrack (Suc fuel) ra bc s th False =
      (case r of
         Some r \<Rightarrow> Some (r, s, th')
       | None \<Rightarrow>
           if n < unat qmin then do {
             (r, s, th) \<leftarrow> re_recurse bc (state_stack_len s) False s th';
             (case r of
                Some r \<Rightarrow> Some (r, s, th)
              | None \<Rightarrow> lre_exec_backtrack fuel ra bc s th False)
           } else do {
             (ret, s) \<leftarrow> (if n > unat qmin
               then push_state ra s th' ?pc RE_EXEC_STATE_GREEDY_QUANT (n - unat qmin)
               else Some (0, s));
             if ret < 0 then Some (RE_ERROR, s, th')
             else lre_exec_backtrack fuel ra bc s (th'\<lparr>th_pc := t\<rparr>) False
           })"
      using op True q(1,5) m g(1) by (simp add: add.commute cong: option.case_cong if_cong)
    show ?thesis
    proof (cases "r = None \<and> unat qmin \<le> n")
      case False
      then show ?thesis
        using g(5) finish [OF same_ctx_refl inv', of False] exec_resultI [OF refl same_ctx_refl inv']
        unfolding unfold_step by auto
    next
      case enough: True
      have go: "exec_result bc ds s (lre_exec_backtrack fuel ra bc s' (th'\<lparr>th_pc := t\<rparr>) False)"
        if "same_ctx s s'" "exec_inv bc ds s' th'" for s'
        using that q(6) th' exec_inv_thread [OF that(2)] exec_inv_parts(4) [OF that(2)]
        by (intro again) (simp_all add: at_instr_def)
      show ?thesis
      proof (cases "n = unat qmin")
        case True
        then show ?thesis using enough go [OF same_ctx_refl inv'] unfolding unfold_step by simp
      next
        case False
        have "(n - unat qmin) * unat k \<le> n * unat k" by (rule mult_le_mono1) simp
        also have "\<dots> \<le> back_steps (cbuf_type s) (cbuf s) (th_cptr th')"
          using g(4) chars_before_le le_trans by blast
        finally have cnt: "(n - unat qmin) * unat k \<le> back_steps (cbuf_type s) (cbuf s) (th_cptr th')" .
        have d: "th_stack_len th' \<le> stack_size_max s" using wf_depth [OF inv q(6)] th'(2) by simp
        have "\<exists>r s'. push_state ra s th' ?pc RE_EXEC_STATE_GREEDY_QUANT (n - unat qmin) = Some (r, s') \<and>
          same_ctx s s' \<and> exec_inv bc ds s' th'"
        proof (rule push_state_ok [OF inv' Suc.prems(3) d])
          show "saved_ok bc ds s
            \<lparr>rs_type = RE_EXEC_STATE_GREEDY_QUANT, rs_stack_len = th_stack_len th',
             rs_count = n - unat qmin, rs_cptr = th_cptr th', rs_pc = ?pc,
             rs_capture = take (2 * capture_count s) (th_capture th'),
             rs_stack = take (th_stack_len th') (th_stack th')\<rparr>"
            using q(2,3) cnt False enough op True th' Suc.prems(2) d
              caps_ok_take [OF exec_inv_parts(5) [OF inv']] exec_inv_parts(6,7) [OF inv']
            by (simp add: saved_ok_def at_instr_def add.commute)
        qed
        then obtain ret s' where push:
          "push_state ra s th' ?pc RE_EXEC_STATE_GREEDY_QUANT (n - unat qmin) = Some (ret, s')"
          "same_ctx s s'" "exec_inv bc ds s' th'" by blast
        then show ?thesis
          using enough False go [OF push(2,3)] exec_resultI [OF refl push(2,3)]
          unfolding unfold_step by simp
      qed
    qed
  qed
qed

end

section \<open>lre\_exec\<close>

text \<open>Compiled code that the executor may run: \<open>ds\<close> is a certificate of its stack depths.\<close>

definition re_code_ok :: "u8 list \<Rightarrow> depths \<Rightarrow> bool" where
  "re_code_ok bc ds \<longleftrightarrow>
     RE_HEADER_LEN \<le> length bc \<and>
     re_wf bc (unat (bc ! RE_HEADER_CAPTURE_COUNT)) (unat (bc ! RE_HEADER_STACK_SIZE)) ds \<and>
     depth_at ds RE_HEADER_LEN = Some 0"

definition re_state_bytes :: "u8 list \<Rightarrow> nat" where
  "re_state_bytes bc =
     32 + unat (bc ! RE_HEADER_CAPTURE_COUNT) * 8 * 2 + unat (bc ! RE_HEADER_STACK_SIZE) * 8"

definition captures_inside :: "nat \<Rightarrow> nat \<Rightarrow> nat option list \<Rightarrow> bool" where
  "captures_inside n len caps \<longleftrightarrow>
     2 * n \<le> length caps \<and> (\<forall>i < 2 * n. \<forall>p. caps ! i = Some p \<longrightarrow> p \<le> len)"

lemma u8_le: "unat (b :: u8) \<le> 255"
  using unsigned_less [of b, where ?'a = nat] by simp

context state_reallocator
begin

lemma lre_exec_ok:
  assumes code: "re_code_ok bc ds" and esz: "esz = re_state_bytes bc"
    and ty: "ctype \<le> 1" and subject: "length subject = push_bit ctype clen" "length subject \<le> PTRDIFF_MAX"
    and ci: "cindex \<le> clen"
    and bufs: "2 * unat (bc ! RE_HEADER_CAPTURE_COUNT) \<le> length capture"
      "unat (bc ! RE_HEADER_STACK_SIZE) \<le> length stack_buf"
  shows "\<exists>res caps st. lre_exec fuel ra capture stack_buf bc subject addr cindex clen ctype st0
           = Some (res, caps, st) \<and>
         captures_inside (unat (bc ! RE_HEADER_CAPTURE_COUNT)) (length subject) caps"
proof -
  let ?cc = "unat (bc ! RE_HEADER_CAPTURE_COUNT)" and ?sm = "unat (bc ! RE_HEADER_STACK_SIZE)"
  let ?fl = "bc ! RE_HEADER_FLAGS"
  let ?u16 = "bit ?fl LRE_FLAG_UTF16"
  let ?caps = "replicate (2 * ?cc) None @ drop (2 * ?cc) capture"
  define s where "s = \<lparr>cbuf = subject, cbuf_end = push_bit ctype clen, cbuf_addr = addr,
              cbuf_type = (if ctype = 1 \<and> ?u16 then 2 else ctype),
              capture_count = ?cc, stack_size_max = ?sm,
              multi_line = bit ?fl LRE_FLAG_MULTILINE,
              ignore_case = bit ?fl LRE_FLAG_IGNORECASE, is_utf16 = ?u16, opaque = st0,
              state_size = 32 + ?cc * 8 * 2 + ?sm * 8,
              state_stack = None, state_stack_size = 0, state_stack_len = 0\<rparr>"
  define th where "th = \<lparr>th_capture = ?caps, th_stack = stack_buf, th_stack_len = 0,
         th_pc = RE_HEADER_LEN, th_cptr = push_bit ctype cindex\<rparr>"
  have ev: "ctype \<noteq> 0 \<Longrightarrow> even (push_bit ctype n)" for n :: nat
    using ty by (simp add: push_bit_eq_mult)
  have le: "push_bit ctype cindex \<le> push_bit ctype clen"
    using ci by (simp add: push_bit_eq_mult)
  have wrap: "wr_block capture 0 (replicate (?cc * 2) None) = Some ?caps"
    using bufs by (simp add: wr_block_def mult.commute)
  have small: "?cc \<le> 255" "?sm \<le> 255"
    using u8_le [of "bc ! RE_HEADER_CAPTURE_COUNT"] u8_le [of "bc ! RE_HEADER_STACK_SIZE"] by simp_all
  have subj: "subject_ok s"
    using subject ev by (auto simp: subject_ok_def s_def pos_ok_def)
  have "context_ok s" using subj small by (simp add: context_ok_def s_def)
  moreover have "re_wf bc (capture_count s) (stack_size_max s) ds"
    using code by (simp add: re_code_ok_def s_def)
  moreover have "stack_ok bc ds s" by (simp add: stack_ok_def s_def)
  moreover have "caps_ok s ?caps" by (simp add: caps_ok_def s_def nth_append)
  moreover have "pos_ok s (push_bit ctype cindex)" using le ev by (auto simp: pos_ok_def s_def)
  ultimately have inv: "exec_inv bc ds s th"
    using bufs by (simp add: exec_inv_def thread_ok_def th_def s_def)
  have at: "at_instr ds th" using code by (simp add: at_instr_def th_def re_code_ok_def)
  have sz: "state_size s = esz" by (simp add: s_def esz re_state_bytes_def)
  from lre_exec_backtrack_safe [OF inv at sz] obtain res s' th' where
    r: "lre_exec_backtrack fuel ra bc s th False = Some (res, s', th')" "same_ctx s s'" "exec_inv bc ds s' th'"
    unfolding exec_result_def by blast
  obtain p st where free: "ra (opaque s') (state_stack s') 0 = Some (p, st)"
    using ra_total by (metis surj_pair)
  have hdr: "rd bc RE_HEADER_FLAGS = Some ?fl" "rd bc RE_HEADER_CAPTURE_COUNT = Some (bc ! RE_HEADER_CAPTURE_COUNT)"
    "rd bc RE_HEADER_STACK_SIZE = Some (bc ! RE_HEADER_STACK_SIZE)"
    using code by (auto simp: re_code_ok_def re_header_defs rd_def)
  have "lre_exec fuel ra capture stack_buf bc subject addr cindex clen ctype st0 = Some (res, th_capture th', st)"
    unfolding lre_exec_def hdr Let_def Option.bind.bind_lunit wrap
    using r(1) free unfolding s_def th_def by simp
  moreover have "captures_inside ?cc (length subject) (th_capture th')"
    using exec_inv_parts(5) [OF r(3)] subj same_ctx_fields [OF r(2)]
    by (auto simp: captures_inside_def caps_ok_def pos_ok_def subject_ok_def s_def split: option.splits)
  ultimately show ?thesis by blast
qed

end

interpretation js_states: state_reallocator "js_def_realloc env (Suc e)" "Suc e" for env e
  by unfold_locales

text \<open>
  C10: the regular expression executor is memory safe. For compiled code that passes the check
  \<open>re_code_ok\<close>, every subject of 8-bit or 16-bit units (surrogates of every kind), every start
  index and any number of steps, \<open>lre_exec\<close> on the runtime's allocator never reads or writes
  outside the subject, the code, the captures, the integer stack or the backtracking stack, never
  aborts, and the captures it leaves are positions inside the subject, whether it matched, failed,
  ran out of memory or is still running.
\<close>

theorem lre_exec_memory_safe:
  assumes "re_code_ok bc ds" and "ctype \<le> 1"
    and "length subject = push_bit ctype clen" and "length subject \<le> PTRDIFF_MAX" and "cindex \<le> clen"
    and "2 * unat (bc ! RE_HEADER_CAPTURE_COUNT) \<le> length capture"
    and "unat (bc ! RE_HEADER_STACK_SIZE) \<le> length stack_buf"
  shows "\<exists>res caps st. lre_exec fuel (js_def_realloc env (re_state_bytes bc)) capture stack_buf bc subject
             addr cindex clen ctype st0 = Some (res, caps, st)
           \<and> captures_inside (unat (bc ! RE_HEADER_CAPTURE_COUNT)) (length subject) caps"
proof -
  have "re_state_bytes bc = Suc (re_state_bytes bc - 1)" by (simp add: re_state_bytes_def)
  then show ?thesis
    using js_states.lre_exec_ok [of bc ds "re_state_bytes bc - 1"] assms by auto
qed

text \<open>The code of \<open>/a/\<close>, on a subject where it matches at position 1.\<close>

definition re_code_a :: "u8 list" where
  "re_code_a = [0, 1, 0, 19, 0, 0, 0,
     8, 6, 0, 0, 0, 4, 7, 0xf5, 0xff, 0xff, 0xff,
     11, 0, 1, 97, 0, 12, 0, 10]"

definition re_depths_a :: depths where
  "re_depths_a = [None, None, None, None, None, None, None,
     Some 0, None, None, None, None, Some 0, Some 0, None, None, None, None,
     Some 0, None, Some 0, None, None, Some 0, None, Some 0]"

lemma reop_of_a:
  "reop_of 8 = Some REOP_split_goto_first" "reop_of 4 = Some REOP_any" "reop_of 7 = Some REOP_goto"
  "reop_of 11 = Some REOP_save_start" "reop_of (Suc 0) = Some REOP_char" "reop_of 12 = Some REOP_save_end"
  "reop_of 10 = Some REOP_match"
  by (simp_all add: reop_of_Some)

lemma upt_26: "[0..<26] = [0, 1, 2, 3, 4, 5, 6, 7, 8, 9, 10, 11, 12, 13, 14, 15, 16, 17, 18, 19, 20,
    21, 22, 23, 24, 25 :: nat]"
  by (simp add: upt_rec eval_nat_numeral)

lemma re_code_a_ok: "re_code_ok re_code_a re_depths_a"
  by (simp add: re_code_ok_def re_wf_def re_depths_a_def upt_26 wf_at_def re_code_a_def reop_of_a
      wf_instr_def re_assert_op_def Let_def jumps_to_def get_u32_def rd_block_def re_jump_def
      depth_at_def re_char_next_def re_header_defs)

theorem lre_exec_memory_safe_witness:
  "\<exists>res caps st. lre_exec 20 (js_def_realloc \<lparr>lc_avail = (\<lambda>n. True), lc_usable = (\<lambda>n. n), lc_junk = (\<lambda>i. undefined)\<rparr>
        (re_state_bytes re_code_a)) [None, None] [] re_code_a [98, 97] 4096 0 2 0
        \<lparr>malloc_count = 0, malloc_size = 0, malloc_limit = 1000000\<rparr> = Some (res, caps, st)
     \<and> captures_inside 1 2 caps"
proof -
  have "re_code_a ! RE_HEADER_CAPTURE_COUNT = 1" "re_code_a ! RE_HEADER_STACK_SIZE = 0"
    by (simp_all add: re_code_a_def re_header_defs)
  moreover have max: "2 \<le> PTRDIFF_MAX" by (simp add: PTRDIFF_MAX_def)
  ultimately show ?thesis
    using lre_exec_memory_safe [OF re_code_a_ok, of 0 "[98, 97]" 2 0 "[None, None]" "[]" 20
        "\<lparr>lc_avail = (\<lambda>n. True), lc_usable = (\<lambda>n. n), lc_junk = (\<lambda>i. undefined)\<rparr>" 4096
        "\<lparr>malloc_count = 0, malloc_size = 0, malloc_limit = 1000000\<rparr>"]
    by (simp add: max numeral_2_eq_2 [symmetric])
qed

end
