(* ===== verification/Re_Fragment.thy ===== *)
theory Re_Fragment
  imports Re_Parse Re_Exec_Safe
begin

text \<open>
  Fragments of regular expression byte code: what the compiler appends for one term, alternative
  or disjunction. \<open>frag cc m f\<close> says that \<open>f\<close> is put together from the compiler's templates, uses
  captures below \<open>cc\<close> and needs \<open>m\<close> cells of the executor's integer stack. The templates' jumps are
  relative, so a fragment means the same at every place of the code.

  The lemmas: a fragment has a certificate (\<open>cert\<close>), the stack depth of each of its instructions,
  that makes it well-formed in the sense of the executor's safety theorem (\<open>re_code_ok\<close>);
  \<open>compute_stack_size\<close> finds exactly the stack it needs; and a fragment that
  \<open>re_is_simple_quantifier\<close> accepts may be the body of \<open>REOP_simple_greedy_quant\<close>.
\<close>

lemma bind_SomeE:
  assumes "Option.bind m f = Some r"
  obtains x where "m = Some x" "f x = Some r"
  using assms by (auto simp: bind_Some_iff)

section \<open>Reading inside a larger block\<close>

lemma rd_embed: "rd f p = Some b \<Longrightarrow> rd (pre @ f @ post) (length pre + p) = Some b"
  by (auto simp: rd_def nth_append split: if_splits)

lemma rd_block_embed: "rd_block f p n = Some d \<Longrightarrow> rd_block (pre @ f @ post) (length pre + p) n = Some d"
  by (auto simp: rd_block_def split: if_splits)

lemma get_u16_embed: "get_u16 f p = Some v \<Longrightarrow> get_u16 (pre @ f @ post) (length pre + p) = Some v"
  by (auto simp: get_u16_def dest: rd_block_embed)

lemma get_u32_embed: "get_u32 f p = Some v \<Longrightarrow> get_u32 (pre @ f @ post) (length pre + p) = Some v"
  by (auto simp: get_u32_def dest: rd_block_embed)

lemma re_jump_shift: "re_jump p v = Some t \<Longrightarrow> re_jump (n + p) v = Some (n + t)"
  by (auto simp: re_jump_def Let_def split: if_splits)

lemma re_char_next_embed:
  assumes "re_char_next f opcode p = Some q"
  shows "re_char_next (pre @ f @ post) opcode (length pre + p) = Some (length pre + q)"
proof -
  note g = get_u16_embed [of f p _ pre post]
  show ?thesis
    using assms by (cases opcode) (auto simp: re_char_next_def split: if_splits elim!: bind_SomeE dest!: g)
qed

lemma re_simple_embed:
  assumes "re_simple n f p = Some k" "n \<le> n'"
  shows "re_simple n' (pre @ f @ post) (length pre + p) = Some k"
  using assms
proof (induction n arbitrary: n' p k)
  case (Suc n)
  then obtain m where n': "n' = Suc m" "n \<le> m" by (cases n') auto
  obtain b opcode where b: "rd f p = Some b" "reop_of (unat b) = Some opcode"
    using Suc.prems(1) by (auto simp: bind_Some_iff)
  note rb = rd_embed [OF b(1), of pre post]
  consider "opcode = REOP_match" | "opcode \<noteq> REOP_match" "re_assert_op opcode"
    | "opcode \<noteq> REOP_match" "\<not> re_assert_op opcode" by blast
  then show ?case
  proof cases
    case 1
    with Suc.prems(1) b rb n' show ?thesis by simp
  next
    case 2
    then have "re_simple n f (p + 1) = Some k" using Suc.prems(1) b by simp
    from Suc.IH [OF this n'(2)] 2 b rb n' show ?thesis by (simp add: add.assoc)
  next
    case 3
    then obtain q k' where q: "re_char_next f opcode (p + 1) = Some q" "re_simple n f q = Some k'" "k = Suc k'"
      using Suc.prems(1) b by (auto simp: bind_Some_iff)
    from Suc.IH [OF q(2) n'(2)] 3 b rb n' re_char_next_embed [OF q(1), of pre post] q(3) show ?thesis
      by (simp add: add.assoc)
  qed
qed simp

lemma re_char_next_gt: "re_char_next bc opcode p = Some q \<Longrightarrow> p \<le> q"
  by (cases opcode) (auto simp: re_char_next_def split: if_splits elim!: bind_SomeE)

lemma re_simple_le:
  assumes "re_simple n bc p = Some k"
  shows "p + k < length bc"
  using assms
proof (induction n arbitrary: p k)
  case (Suc n)
  obtain b opcode where b: "rd bc p = Some b" "reop_of (unat b) = Some opcode"
    using Suc.prems by (auto simp: bind_Some_iff)
  then have "p < length bc" by (simp add: rd_Some_iff)
  with Suc.prems b Suc.IH show ?case
    by (auto split: if_splits elim!: bind_SomeE dest!: re_char_next_gt) fastforce+
qed simp

section \<open>Successors\<close>

text \<open>
  The positions and stack depths an instruction at \<open>p\<close>, run with \<open>d\<close> integers on the stack, may go on
  with; \<open>None\<close> if it is not a complete, valid instruction.
\<close>

definition jump_at :: "u8 list \<Rightarrow> nat \<Rightarrow> nat \<Rightarrow> (nat \<times> nat) option" where
  "jump_at bc pc d = do {
     v \<leftarrow> get_u32 bc pc;
     t \<leftarrow> re_jump (pc + 4) v;
     Some (t, d)
   }"

definition op_succs :: "u8 list \<Rightarrow> nat \<Rightarrow> nat \<Rightarrow> nat \<Rightarrow> reop \<Rightarrow> (nat \<times> nat) list option" where
  "op_succs bc cc p d opcode =
     (if re_assert_op opcode then Some [(p + 1, d)]
      else
        case opcode of
          REOP_match \<Rightarrow> Some []
        | REOP_goto \<Rightarrow> do { j \<leftarrow> jump_at bc (p + 1) d; Some [j] }
        | REOP_split_goto_first \<Rightarrow> do { j \<leftarrow> jump_at bc (p + 1) d; Some [j, (p + 5, d)] }
        | REOP_split_next_first \<Rightarrow> do { j \<leftarrow> jump_at bc (p + 1) d; Some [j, (p + 5, d)] }
        | REOP_lookahead \<Rightarrow> do { j \<leftarrow> jump_at bc (p + 1) d; Some [j, (p + 5, d)] }
        | REOP_negative_lookahead \<Rightarrow> do { j \<leftarrow> jump_at bc (p + 1) d; Some [j, (p + 5, d)] }
        | REOP_save_start \<Rightarrow> do { v \<leftarrow> rd bc (p + 1); if unat v < cc then Some [(p + 2, d)] else None }
        | REOP_save_end \<Rightarrow> do { v \<leftarrow> rd bc (p + 1); if unat v < cc then Some [(p + 2, d)] else None }
        | REOP_save_reset \<Rightarrow> do { v \<leftarrow> rd bc (p + 2); if unat v < cc then Some [(p + 3, d)] else None }
        | REOP_push_i32 \<Rightarrow> if p + 5 \<le> length bc then Some [(p + 5, d + 1)] else None
        | REOP_push_char_pos \<Rightarrow> Some [(p + 1, d + 1)]
        | REOP_drop \<Rightarrow> if 0 < d then Some [(p + 1, d - 1)] else None
        | REOP_loop \<Rightarrow> if 0 < d then do { j \<leftarrow> jump_at bc (p + 1) d; Some [j, (p + 5, d)] } else None
        | REOP_bne_char_pos \<Rightarrow>
            if 0 < d then do { j \<leftarrow> jump_at bc (p + 1) (d - 1); Some [j, (p + 5, d - 1)] } else None
        | REOP_back_reference \<Rightarrow> do { v \<leftarrow> rd bc (p + 1); Some [(p + 2, d)] }
        | REOP_backward_back_reference \<Rightarrow> do { v \<leftarrow> rd bc (p + 1); Some [(p + 2, d)] }
        | REOP_prev \<Rightarrow> Some [(p + 1, d)]
        | REOP_simple_greedy_quant \<Rightarrow> do {
            next_pos \<leftarrow> get_u32 bc (p + 1);
            k \<leftarrow> get_u32 bc (p + 13);
            t \<leftarrow> re_jump (p + 17) next_pos;
            if 0 < k \<and> re_simple (length bc) bc (p + 17) = Some (unat k) then Some [(t, d)] else None
          }
        | _ \<Rightarrow> do { q \<leftarrow> re_char_next bc opcode (p + 1); Some [(q, d)] })"

definition succs :: "u8 list \<Rightarrow> nat \<Rightarrow> nat \<Rightarrow> nat \<Rightarrow> (nat \<times> nat) list option" where
  "succs bc cc p d = do {
     b \<leftarrow> rd bc p;
     opcode \<leftarrow> reop_of (unat b);
     op_succs bc cc p d opcode
   }"

lemma jump_at_embed:
  "jump_at f p d = Some (t, e) \<Longrightarrow> jump_at (pre @ f @ post) (length pre + p) (k + d) = Some (length pre + t, k + e)"
  using get_u32_embed [of f p _ pre post] re_jump_shift [of "p + 4" _ t "length pre"]
  by (auto simp: jump_at_def bind_Some_iff add.assoc)

abbreviation shift_succ :: "nat \<Rightarrow> nat \<Rightarrow> nat \<times> nat \<Rightarrow> nat \<times> nat" where
  "shift_succ n k \<equiv> \<lambda>(t, e). (n + t, k + e)"

lemma op_succs_embed:
  assumes "op_succs f cc p d opcode = Some ss" "cc \<le> cc'"
  shows "op_succs (pre @ f @ post) cc' (length pre + p) (k + d) opcode = Some (map (shift_succ (length pre) k) ss)"
proof (cases "re_assert_op opcode")
  case True
  with assms show ?thesis by (auto simp: op_succs_def)
next
  case False
  have rs: "re_simple (length pre + (length f + length post)) (pre @ f @ post) (length pre + (p + 17)) = Some x"
    if "re_simple (length f) f (p + 17) = Some x" for x
    by (rule re_simple_embed [OF that]) simp
  note r = rd_embed [of f "Suc p" _ pre post] rd_embed [of f "p + 2" _ pre post] rd_embed [of f "Suc (Suc p)" _ pre post]
    get_u32_embed [of f "Suc p" _ pre post] get_u32_embed [of f "p + 13" _ pre post]
    jump_at_embed [of f "Suc p" _ _ _ pre post k]
    re_char_next_embed [of f _ "Suc p" _ pre post] re_jump_shift [of "p + 17" _ _ "length pre"]
    rs
  show ?thesis
  proof (cases "opcode \<in> {REOP_bne_char_pos, REOP_drop}")
    case True
    with False assms show ?thesis
      by (cases d) (auto simp: op_succs_def elim!: bind_SomeE dest!: r)
  next
    case other: False
    then show ?thesis
      using False assms
      by (cases opcode) (auto simp: op_succs_def add.assoc simp del: re_simple.simps
          split: if_splits elim!: bind_SomeE dest!: r)
  qed
qed

lemma succs_embed:
  assumes "succs f cc p d = Some ss" "cc \<le> cc'"
  shows "succs (pre @ f @ post) cc' (length pre + p) (k + d) = Some (map (shift_succ (length pre) k) ss)"
proof -
  obtain b opcode where "rd f p = Some b" "reop_of (unat b) = Some opcode" "op_succs f cc p d opcode = Some ss"
    using assms(1) by (auto simp: succs_def bind_Some_iff)
  with rd_embed [of f p b pre post] op_succs_embed [of f cc p d opcode ss cc' pre post k] assms(2)
  show ?thesis by (simp add: succs_def)
qed

section \<open>Certificates\<close>

text \<open>
  \<open>cert cc m f D x\<close>: with the depths \<open>D\<close>, every instruction of \<open>f\<close> goes on inside \<open>f\<close>, at its end,
  or \<open>x\<close> bytes behind its end with an empty stack, and no depth is above \<open>m\<close>.
\<close>

type_synonym depth_map = "nat \<Rightarrow> nat option"

definition ok_at :: "u8 list \<Rightarrow> nat \<Rightarrow> depth_map \<Rightarrow> nat \<Rightarrow> nat \<Rightarrow> bool" where
  "ok_at bc cc D x p \<longleftrightarrow>
     (\<forall>d. D p = Some d \<longrightarrow>
        (\<exists>ss. succs bc cc p d = Some ss \<and> (\<forall>(t, e) \<in> set ss. D t = Some e \<or> t = length bc + x \<and> e = 0)))"

definition cert :: "nat \<Rightarrow> nat \<Rightarrow> u8 list \<Rightarrow> depth_map \<Rightarrow> nat \<Rightarrow> bool" where
  "cert cc m f D x \<longleftrightarrow>
     D 0 = Some 0 \<and> D (length f) = Some 0 \<and> (\<forall>p d. D p = Some d \<longrightarrow> p \<le> length f \<and> d \<le> m) \<and>
     (\<forall>p < length f. ok_at f cc D x p)"

lemma cert_embed:
  assumes "cert cc m f Df x" "q < length f" "cc \<le> cc'" "Df q = Some d"
  shows "\<exists>ss. succs (pre @ f @ post) cc' (length pre + q) (k + d) = Some ss \<and>
     (\<forall>(t, e) \<in> set ss. (\<exists>q' e'. t = length pre + q' \<and> e = k + e' \<and> Df q' = Some e')
        \<or> t = length pre + length f + x \<and> e = k)"
proof -
  obtain ss where ss: "succs f cc q d = Some ss" "\<forall>(t, e) \<in> set ss. Df t = Some e \<or> t = length f + x \<and> e = 0"
    using assms unfolding cert_def ok_at_def by blast
  show ?thesis
    using succs_embed [OF ss(1) assms(3), of pre post k] ss(2) by fastforce
qed

definition place :: "nat \<Rightarrow> nat \<Rightarrow> depth_map \<Rightarrow> depth_map" where
  "place off k Df p = (if off \<le> p then map_option ((+) k) (Df (p - off)) else None)"

lemma place_Some:
  "place off k Df p = Some d \<longleftrightarrow> (\<exists>q e. p = off + q \<and> d = k + e \<and> Df q = Some e)"
  by (auto simp: place_def le_iff_add)

text \<open>A body inside a template with instructions at the positions \<open>ws\<close>.\<close>

lemma cert_wrap:
  assumes f: "cert cc m f Df 0" and bc: "bc = pre @ f @ post" and m: "k + m \<le> M"
    and ws: "\<forall>(p, d) \<in> set ws. (p < length pre \<or> length pre + length f \<le> p) \<and> p < length bc \<and> d \<le> M"
    and dist: "distinct (map fst ws)"
    and mid: "\<forall>d. (length pre + length f, d) \<in> set ws \<longrightarrow> d = k"
      "post \<noteq> [] \<longrightarrow> (length pre + length f, k) \<in> set ws" "post = [] \<longrightarrow> k = 0"
    and start: "if pre = [] then k = 0 else (0, 0) \<in> set ws"
    and step: "\<And>p d. (p, d) \<in> set ws \<Longrightarrow> \<exists>ss. succs bc cc p d = Some ss \<and>
       set ss \<subseteq> {(length pre, k), (length pre + length f, k), (length bc, 0), (length bc + x, 0)} \<union> set ws"
  shows "\<exists>D. cert cc M bc D x"
proof -
  define D where "D = [length bc \<mapsto> 0] ++ map_of ws ++ place (length pre) k Df"
  have f0: "Df 0 = Some 0" "Df (length f) = Some 0" "\<And>q d. Df q = Some d \<Longrightarrow> q \<le> length f \<and> d \<le> m"
    using f by (auto simp: cert_def)
  have pl: "place (length pre) k Df (length pre) = Some k"
    "place (length pre) k Df (length pre + length f) = Some k"
    using f0 by (auto simp: place_def)
  have out: "place (length pre) k Df p = None" if "p < length pre \<or> length pre + length f < p" for p
    using that f0(3) [of "p - length pre"] by (cases "Df (p - length pre)") (auto simp: place_def)
  have D_mid: "D (length pre) = Some k" "D (length pre + length f) = Some k"
    using pl by (simp_all add: D_def)
  have D_ws: "D p = Some d" if "(p, d) \<in> set ws" for p d
  proof (cases "p = length pre + length f")
    case True
    with mid(1) that D_mid show ?thesis by blast
  next
    case False
    with ws that have "p < length pre \<or> length pre + length f < p" by fastforce
    from out [OF this] that dist show ?thesis by (simp add: D_def map_add_def)
  qed
  have D_end: "D (length bc) = Some 0"
  proof (cases "post = []")
    case True
    with D_mid(2) mid(3) bc show ?thesis by simp
  next
    case False
    then have "length pre + length f < length bc" using bc by (cases post) auto
    moreover have "map_of ws (length bc) = None"
      using ws by (force simp: map_of_eq_None_iff)
    ultimately show ?thesis using out [of "length bc"] by (simp add: D_def map_add_def)
  qed
  have D_cases: "(\<exists>q e. p = length pre + q \<and> d = k + e \<and> Df q = Some e) \<or> (p, d) \<in> set ws \<or> p = length bc \<and> d = 0"
    if "D p = Some d" for p d
    using that by (auto simp: D_def map_add_Some_iff place_Some dest: map_of_SomeD split: if_splits)
  have "ok_at bc cc D x p" if p: "p < length bc" for p
    unfolding ok_at_def
  proof (intro allI impI)
    fix d assume d: "D p = Some d"
    have tgt: "D t = Some e" if "t = length pre + q' \<and> e = k + e' \<and> Df q' = Some e'" for t e q' e'
      using that by (auto simp: D_def place_def)
    consider q e where "p = length pre + q" "d = k + e" "Df q = Some e" "q < length f"
      | "(p, d) \<in> set ws" | "p = length pre + length f" "d = k"
      using D_cases [OF d] p d D_mid(2) f0(3) by (metis le_neq_implies_less less_irrefl option.inject)
    then show "\<exists>ss. succs bc cc p d = Some ss \<and> (\<forall>(t, e) \<in> set ss. D t = Some e \<or> t = length bc + x \<and> e = 0)"
    proof cases
      case 1
      from cert_embed [OF f 1(4) le_refl 1(3), of pre post k] obtain ss where
        "succs bc cc p d = Some ss"
        "\<forall>(t, e) \<in> set ss. (\<exists>q' e'. t = length pre + q' \<and> e = k + e' \<and> Df q' = Some e')
            \<or> t = length pre + length f + 0 \<and> e = k"
        unfolding bc 1(1,2) by blast
      with tgt D_mid show ?thesis by (fastforce split: prod.splits)
    next
      case 2
      from step [OF this] D_mid D_end D_ws show ?thesis by (fastforce split: prod.splits)
    next
      case 3
      with p bc have "post \<noteq> []" by auto
      with mid(2) 3 have "(p, d) \<in> set ws" by simp
      from step [OF this] D_mid D_end D_ws show ?thesis by (fastforce split: prod.splits)
    qed
  qed
  moreover have "D 0 = Some 0"
    using start D_mid(1) D_ws by (cases "pre = []") auto
  moreover have "p \<le> length bc \<and> d \<le> M" if "D p = Some d" for p d
    using D_cases [OF that] f0(3) ws m bc by fastforce
  ultimately show ?thesis using D_end by (auto simp: cert_def)
qed

lemma cert_app:
  assumes f: "cert cc m f Df x" and g: "cert cc n g Dg 0" and x: "x = 0 \<or> x = length g"
  shows "\<exists>D. cert cc (max m n) (f @ g) D 0"
proof -
  define D where "D = place (length f) 0 Dg ++ Df"
  have f0: "Df 0 = Some 0" "Df (length f) = Some 0" "\<And>q d. Df q = Some d \<Longrightarrow> q \<le> length f \<and> d \<le> m"
    and g0: "Dg 0 = Some 0" "Dg (length g) = Some 0" "\<And>q d. Dg q = Some d \<Longrightarrow> q \<le> length g \<and> d \<le> n"
    using f g by (auto simp: cert_def)
  have Df: "Df q = Some d \<Longrightarrow> D q = Some d" for q d by (simp add: D_def)
  have Dg: "D (length f + q) = Some d" if "Dg q = Some d" for q d
  proof (cases "q = 0")
    case False
    then have "Df (length f + q) = None" using f0(3) by (metis add_leD1 le_add_same_cancel1 not_le_imp_less not_Some_eq leD less_add_same_cancel1 neq0_conv)
    with that show ?thesis by (simp add: D_def map_add_def place_def)
  qed (use that f0 g0 in \<open>auto simp: D_def\<close>)
  have D_cases: "Df p = Some d \<or> (\<exists>q. p = length f + q \<and> Dg q = Some d)" if "D p = Some d" for p d
    using that by (auto simp: D_def map_add_Some_iff place_Some)
  have "ok_at (f @ g) cc D 0 p" if p: "p < length (f @ g)" for p
    unfolding ok_at_def
  proof (intro allI impI)
    fix d assume d: "D p = Some d"
    consider "p < length f" "Df p = Some d" | q where "p = length f + q" "q < length g" "Dg q = Some d"
      using D_cases [OF d] p f0 g0 d
      by (metis Df add.right_neutral add_less_cancel_left length_append le_neq_implies_less nat_neq_iff not_add_less1 option.inject)
    then show "\<exists>ss. succs (f @ g) cc p d = Some ss \<and> (\<forall>(t, e) \<in> set ss. D t = Some e \<or> t = length (f @ g) + 0 \<and> e = 0)"
    proof cases
      case 1
      from cert_embed [OF f 1(1) le_refl 1(2), of "[]" g 0] Df Dg [OF g0(2)] f0(2) x show ?thesis
        by (fastforce split: prod.splits)
    next
      case 2
      from cert_embed [OF g 2(2) le_refl 2(3), of f "[]" 0] Dg g0(2) 2(1) show ?thesis
        by (fastforce split: prod.splits)
    qed
  qed
  moreover have "p \<le> length (f @ g) \<and> d \<le> max m n" if "D p = Some d" for p d
    using D_cases [OF that] f0(3) g0(3) by fastforce
  ultimately show ?thesis
    using Df [OF f0(1)] Dg [OF g0(2)] by (auto simp: cert_def)
qed

section \<open>Instructions\<close>

text \<open>An instruction with a relative jump, or another 32-bit operand.\<close>

definition jmp :: "reop \<Rightarrow> int \<Rightarrow> u8 list" where
  "jmp opcode i = op_byte opcode # bytes_u32 (word_of_int i)"

lemma jmp_length [simp]: "length (jmp opcode i) = 5"
  by (simp add: jmp_def)

lemma op_byte_code [simp]: "reop_of (unat (op_byte opcode)) = Some opcode"
proof -
  have "reop_code opcode < 256"
    using reop_code_less [of opcode] by (simp add: REOP_COUNT_def)
  then show ?thesis by (simp add: op_byte_def)
qed

lemma sint_offset: "- (2 ^ 31) \<le> i \<Longrightarrow> i < 2 ^ 31 \<Longrightarrow> sint (word_of_int i :: u32) = i"
  by (simp add: signed_of_int signed_take_bit_int_eq_self)

lemma re_jump_offset:
  "- (2 ^ 31) \<le> i \<Longrightarrow> i < 2 ^ 31 \<Longrightarrow> int t = int p + i \<Longrightarrow> re_jump p (word_of_int i) = Some t"
  by (simp add: re_jump_def sint_offset)

lemma jump_at_jmp:
  assumes "p = Suc (length xs)" "- (2 ^ 31) \<le> i" "i < 2 ^ 31" "int t = int p + 4 + i"
  shows "jump_at (xs @ jmp opcode i @ ys) p d = Some (t, d)"
proof -
  have "get_u32 ((xs @ [op_byte opcode]) @ bytes_u32 (word_of_int i) @ ys) p = Some (word_of_int i)"
    using assms(1) by (intro get_u32_bytes) simp
  then have "get_u32 (xs @ jmp opcode i @ ys) p = Some (word_of_int i)" by (simp add: jmp_def)
  moreover have "re_jump (p + 4) (word_of_int i) = Some t"
    using assms(2-4) by (intro re_jump_offset) auto
  ultimately show ?thesis by (simp add: jump_at_def)
qed

lemma succs_op: "succs (xs @ op_byte opcode # ys) cc (length xs) d = op_succs (xs @ op_byte opcode # ys) cc (length xs) d opcode"
  by (simp add: succs_def rd_def)

lemma succs_jmp:
  "succs (xs @ jmp opcode i @ ys) cc (length xs) d = op_succs (xs @ jmp opcode i @ ys) cc (length xs) d opcode"
  using succs_op [of xs opcode "bytes_u32 (word_of_int i) @ ys"] by (simp add: jmp_def)

definition split_ops :: "reop set" where
  "split_ops = {REOP_split_goto_first, REOP_split_next_first}"

definition branch_ops :: "reop set" where
  "branch_ops = {REOP_split_goto_first, REOP_split_next_first, REOP_lookahead, REOP_negative_lookahead}"

lemma split_branch: "opcode \<in> split_ops \<Longrightarrow> opcode \<in> branch_ops"
  by (auto simp: split_ops_def branch_ops_def)

text \<open>The successors of the instructions of the templates.\<close>

lemma succs_branch:
  assumes "bc = xs @ jmp opcode i @ ys" "p = length xs" "opcode \<in> branch_ops"
    and "- (2 ^ 31) \<le> i" "i < 2 ^ 31" "int t = int p + 5 + i"
  shows "succs bc cc p d = Some [(t, d), (p + 5, d)]"
proof -
  have "jump_at bc (Suc p) d = Some (t, d)"
    unfolding assms(1) by (rule jump_at_jmp) (use assms in auto)
  then show ?thesis
    using assms(3) succs_jmp [of xs opcode i ys cc d] unfolding assms(1) assms(2)
    by (auto simp: op_succs_def branch_ops_def re_assert_op_def)
qed

lemma succs_goto:
  assumes "bc = xs @ jmp REOP_goto i @ ys" "p = length xs"
    and "- (2 ^ 31) \<le> i" "i < 2 ^ 31" "int t = int p + 5 + i"
  shows "succs bc cc p d = Some [(t, d)]"
proof -
  have "jump_at bc (Suc p) d = Some (t, d)"
    unfolding assms(1) by (rule jump_at_jmp) (use assms in auto)
  then show ?thesis
    using succs_jmp [of xs REOP_goto i ys cc d] unfolding assms(1) assms(2)
    by (simp add: op_succs_def re_assert_op_def)
qed

lemma succs_loop:
  assumes "bc = xs @ jmp REOP_loop i @ ys" "p = length xs" "0 < d"
    and "- (2 ^ 31) \<le> i" "i < 2 ^ 31" "int t = int p + 5 + i"
  shows "succs bc cc p d = Some [(t, d), (p + 5, d)]"
proof -
  have "jump_at bc (Suc p) d = Some (t, d)"
    unfolding assms(1) by (rule jump_at_jmp) (use assms in auto)
  then show ?thesis
    using assms(3) succs_jmp [of xs REOP_loop i ys cc d] unfolding assms(1) assms(2)
    by (simp add: op_succs_def re_assert_op_def)
qed

lemma succs_bne:
  assumes "bc = xs @ jmp REOP_bne_char_pos i @ ys" "p = length xs"
    and "- (2 ^ 31) \<le> i" "i < 2 ^ 31" "int t = int p + 5 + i"
  shows "succs bc cc p (Suc d) = Some [(t, d), (p + 5, d)]"
proof -
  have "jump_at bc (Suc p) d = Some (t, d)"
    unfolding assms(1) by (rule jump_at_jmp) (use assms in auto)
  then show ?thesis
    using succs_jmp [of xs REOP_bne_char_pos i ys cc "Suc d"] unfolding assms(1) assms(2)
    by (simp add: op_succs_def re_assert_op_def)
qed

lemma succs_push_i32:
  assumes "bc = xs @ jmp REOP_push_i32 i @ ys" "p = length xs"
  shows "succs bc cc p d = Some [(p + 5, Suc d)]"
  using succs_jmp [of xs REOP_push_i32 i ys cc d] assms by (simp add: op_succs_def re_assert_op_def)

lemma succs_push_char_pos:
  assumes "bc = xs @ op_byte REOP_push_char_pos # ys" "p = length xs"
  shows "succs bc cc p d = Some [(p + 1, Suc d)]"
  using succs_op [of xs REOP_push_char_pos ys cc d] assms by (simp add: op_succs_def re_assert_op_def)

lemma succs_drop:
  assumes "bc = xs @ op_byte REOP_drop # ys" "p = length xs"
  shows "succs bc cc p (Suc d) = Some [(p + 1, d)]"
  using succs_op [of xs REOP_drop ys cc "Suc d"] assms by (simp add: op_succs_def re_assert_op_def)

lemma succs_match:
  assumes "bc = xs @ op_byte REOP_match # ys" "p = length xs"
  shows "succs bc cc p d = Some []"
  using succs_op [of xs REOP_match ys cc d] assms by (simp add: op_succs_def re_assert_op_def)

section \<open>The compiler's templates\<close>

definition plain_ops :: "reop set" where
  "plain_ops = {REOP_dot, REOP_any, REOP_line_start, REOP_line_end, REOP_word_boundary,
     REOP_not_word_boundary, REOP_prev}"

inductive frag :: "nat \<Rightarrow> nat \<Rightarrow> u8 list \<Rightarrow> bool" for cc :: nat where
  nil: "frag cc 0 []"
| app: "frag cc m f \<Longrightarrow> frag cc n g \<Longrightarrow> frag cc (max m n) (f @ g)"
| plain: "opcode \<in> plain_ops \<Longrightarrow> frag cc 0 [op_byte opcode]"
| char: "length a = 2 \<Longrightarrow> frag cc 0 (op_byte REOP_char # a)"
| char32: "length a = 4 \<Longrightarrow> frag cc 0 (op_byte REOP_char32 # a)"
| range: "0 < n \<Longrightarrow> n < 65536 \<Longrightarrow> length a = 4 * n \<Longrightarrow>
    frag cc 0 (op_byte REOP_range # bytes_u16 (word_of_nat n) @ a)"
| range32: "0 < n \<Longrightarrow> n < 65536 \<Longrightarrow> length a = 8 * n \<Longrightarrow>
    frag cc 0 (op_byte REOP_range32 # bytes_u16 (word_of_nat n) @ a)"
| save: "opcode \<in> {REOP_save_start, REOP_save_end} \<Longrightarrow> unat v < cc \<Longrightarrow> frag cc 0 [op_byte opcode, v]"
| reset: "unat v < cc \<Longrightarrow> frag cc 0 [op_byte REOP_save_reset, u, v]"
| back_ref: "opcode \<in> {REOP_back_reference, REOP_backward_back_reference} \<Longrightarrow> frag cc 0 [op_byte opcode, v]"
| alt: "frag cc m f \<Longrightarrow> frag cc n g \<Longrightarrow> frag cc (max m n)
    ((jmp REOP_split_next_first (int (length f) + 5) @ f @ jmp REOP_goto (int (length g))) @ g)"
| look: "frag cc m f \<Longrightarrow> opcode \<in> {REOP_lookahead, REOP_negative_lookahead} \<Longrightarrow>
    frag cc m (jmp opcode (int (length f) + 1) @ f @ [op_byte REOP_match])"
| opt: "frag cc m f \<Longrightarrow> opcode \<in> split_ops \<Longrightarrow> frag cc m (jmp opcode (int (length f)) @ f)"
| star: "frag cc m f \<Longrightarrow> opcode \<in> split_ops \<Longrightarrow>
    frag cc m (jmp opcode (int (length f) + 5) @ f @ jmp REOP_goto (- int (length f) - 10))"
| star_check: "frag cc m f \<Longrightarrow> opcode \<in> split_ops \<Longrightarrow>
    frag cc (Suc m) ((jmp opcode (int (length f) + 6) @ [op_byte REOP_push_char_pos]) @ f @
      jmp REOP_bne_char_pos (- int (length f) - 11))"
| at_most: "frag cc m f \<Longrightarrow> opcode \<in> split_ops \<Longrightarrow>
    frag cc (Suc m) ((jmp REOP_push_i32 n @ jmp opcode (int (length f) + 5)) @ f @
      jmp REOP_loop (- int (length f) - 10) @ [op_byte REOP_drop])"
| plus: "frag cc m f \<Longrightarrow> opcode \<in> split_ops \<Longrightarrow> frag cc m (f @ jmp opcode (- int (length f) - 5))"
| times: "frag cc m f \<Longrightarrow>
    frag cc (Suc m) (jmp REOP_push_i32 n @ f @ jmp REOP_loop (- int (length f) - 5) @ [op_byte REOP_drop])"
| simple: "frag cc m f \<Longrightarrow> simple_quantifier_loop f 0 0 = Some (int k) \<Longrightarrow> 0 < k \<Longrightarrow>
    frag cc m ((op_byte REOP_simple_greedy_quant # bytes_u32 (word_of_nat (length f + 1)) @ bytes_u32 qmin @
      bytes_u32 qmax @ bytes_u32 (word_of_nat k)) @ f @ [op_byte REOP_match])"

lemma frag_mono: "frag cc m f \<Longrightarrow> cc \<le> cc' \<Longrightarrow> frag cc' m f"
  by (induction rule: frag.induct) (blast intro: frag.intros less_le_trans)+

section \<open>Fragments are sequences of instructions\<close>

text \<open>One complete instruction, with the ranges that belong to it.\<close>

definition instr :: "reop \<Rightarrow> u8 list \<Rightarrow> bool" where
  "instr opcode i \<longleftrightarrow>
     (\<exists>args. i = op_byte opcode # args \<and>
        (if opcode = REOP_range then
           \<exists>n a. 0 < n \<and> n < 65536 \<and> args = bytes_u16 (word_of_nat n) @ a \<and> length a = 4 * n
         else if opcode = REOP_range32 then
           \<exists>n a. 0 < n \<and> n < 65536 \<and> args = bytes_u16 (word_of_nat n) @ a \<and> length a = 8 * n
         else length args + 1 = reop_size opcode))"

inductive linear :: "u8 list \<Rightarrow> bool" where
  nil: "linear []"
| step: "instr opcode i \<Longrightarrow> linear g \<Longrightarrow> linear (i @ g)"

lemma linear_app: "linear f \<Longrightarrow> linear g \<Longrightarrow> linear (f @ g)"
  by (induction rule: linear.induct) (auto intro: linear.intros)

lemma linear_instr: "instr opcode i \<Longrightarrow> linear i"
  using linear.step [OF _ linear.nil] by simp

lemma instr_simple: "opcode \<noteq> REOP_range \<Longrightarrow> opcode \<noteq> REOP_range32 \<Longrightarrow> Suc (length a) = reop_size opcode
    \<Longrightarrow> instr opcode (op_byte opcode # a)"
  by (simp add: instr_def)

lemma instr_ranges:
  "0 < n \<Longrightarrow> n < 65536 \<Longrightarrow> length a = 4 * n \<Longrightarrow> instr REOP_range (op_byte REOP_range # bytes_u16 (word_of_nat n) @ a)"
  "0 < n \<Longrightarrow> n < 65536 \<Longrightarrow> length a = 8 * n \<Longrightarrow> instr REOP_range32 (op_byte REOP_range32 # bytes_u16 (word_of_nat n) @ a)"
  by (auto simp: instr_def)

lemma instr_jmp: "reop_size opcode = 5 \<Longrightarrow> instr opcode (jmp opcode i)"
  by (cases opcode) (auto simp: jmp_def intro: instr_simple)

lemma branch_size [simp]:
  "opcode \<in> branch_ops \<Longrightarrow> reop_size opcode = 5" "opcode \<in> split_ops \<Longrightarrow> reop_size opcode = 5"
  by (auto simp: branch_ops_def split_ops_def)

lemma plain_instr: "opcode \<in> plain_ops \<Longrightarrow> instr opcode [op_byte opcode]"
  by (auto simp: plain_ops_def intro: instr_simple)

lemma quant_instr:
  "instr REOP_simple_greedy_quant
     (op_byte REOP_simple_greedy_quant # bytes_u32 a @ bytes_u32 b @ bytes_u32 c @ bytes_u32 d)"
  by (rule instr_simple) simp_all

lemma linear_jmp: "reop_size opcode = 5 \<Longrightarrow> linear (jmp opcode i)"
  by (rule linear_instr [OF instr_jmp])

lemma linear_op: "opcode \<noteq> REOP_range \<Longrightarrow> opcode \<noteq> REOP_range32 \<Longrightarrow> Suc (length a) = reop_size opcode
    \<Longrightarrow> linear (op_byte opcode # a)"
  by (rule linear_instr [OF instr_simple])

lemma frag_linear: "frag cc m f \<Longrightarrow> linear f"
proof (induction rule: frag.induct)
  case (plain opcode)
  then show ?case by (rule linear_instr [OF plain_instr])
next
  case (look m f opcode)
  then have "reop_size opcode = 5" by auto
  with look show ?case by (intro linear_app linear_jmp linear_op) simp_all
next
  case (simple m f k qmin qmax)
  then show ?case by (intro linear_app linear_op linear_instr [OF quant_instr]) simp_all
next
  case (range n a)
  then show ?case by (rule linear_instr [OF instr_ranges(1)])
next
  case (range32 n a)
  then show ?case by (rule linear_instr [OF instr_ranges(2)])
next
  case (star_check m f opcode)
  then show ?case by (intro linear_app linear_jmp linear_op) simp_all
next
  case (at_most m f opcode n)
  then show ?case by (intro linear_app linear_jmp linear_op) simp_all
next
  case (times m f n)
  then show ?case by (intro linear_app linear_jmp linear_op) simp_all
next
  case (alt m f n g)
  then show ?case by (intro linear_app linear_jmp) simp_all
next
  case (opt m f opcode)
  then show ?case by (intro linear_app linear_jmp) simp_all
next
  case (star m f opcode)
  then show ?case by (intro linear_app linear_jmp) simp_all
next
  case (plus m f opcode)
  then show ?case by (intro linear_app linear_jmp) simp_all
qed (auto intro: linear.nil linear_app linear_op)

lemma instr_nonempty: "instr opcode i \<Longrightarrow> \<exists>args. i = op_byte opcode # args"
  by (auto simp: instr_def)

lemma get_u16_count:
  "p = length xs \<Longrightarrow> n < 65536 \<Longrightarrow> get_u16 (xs @ bytes_u16 (word_of_nat n) @ ys) p = Some (word_of_nat n)"
  using get_u16_bytes [of p xs "word_of_nat n" ys]
  by (simp add: eq_word_of_nat [of "ucast (word_of_nat n :: u16) :: u32" n] unat_ucast_mod unat_of_nat)

lemma instr_len_instr:
  assumes "instr opcode i"
  shows "instr_len (pre @ i @ post) (length pre) opcode = Some (length i)"
proof -
  have count: "get_u16 (pre @ op_byte opcode # bytes_u16 (word_of_nat n) @ a @ post) (Suc (length pre)) = Some (word_of_nat n)"
    if "n < 65536" for n a
    using get_u16_count [of "Suc (length pre)" "pre @ [op_byte opcode]" n "a @ post"] that by simp
  have un: "unat (word_of_nat n :: u32) = n" if "n < 65536" for n
    using that by (simp add: unat_of_nat)
  show ?thesis
    using assms count un by (auto simp: instr_def instr_len_def split: if_splits)
qed

section \<open>The stack a fragment needs\<close>

text \<open>What the linear analysis of \<open>compute_stack_size\<close> does with a piece that needs \<open>m\<close> cells.\<close>

definition scan :: "nat \<Rightarrow> u8 list \<Rightarrow> bool" where
  "scan m f \<longleftrightarrow>
     (\<forall>pre post d mx. d \<le> mx \<longrightarrow> mx \<le> STACK_SIZE_MAX \<longrightarrow>
        stack_size_loop (pre @ f @ post) (length pre) d mx =
          (if d + m > STACK_SIZE_MAX then Some (-1)
           else stack_size_loop (pre @ f @ post) (length pre + length f) d (max mx (d + m))))"

lemma stack_step:
  assumes "instr opcode i" "bc = pre @ i @ post" "p = length pre"
  shows "stack_size_loop bc p d mx =
    (if opcode = REOP_push_i32 \<or> opcode = REOP_push_char_pos then
       (if d + 1 > mx then
          (if d + 1 > STACK_SIZE_MAX then Some (-1)
           else stack_size_loop bc (p + length i) (d + 1) (d + 1))
        else stack_size_loop bc (p + length i) (d + 1) mx)
     else if opcode = REOP_drop \<or> opcode = REOP_bne_char_pos then
       (if d > 0 then stack_size_loop bc (p + length i) (d - 1) mx else None)
     else stack_size_loop bc (p + length i) d mx)"
proof -
  obtain args where i: "i = op_byte opcode # args" using instr_nonempty [OF assms(1)] by blast
  have "reop_size opcode \<le> length i"
    using assms(1) by (auto simp: instr_def split: if_splits)
  moreover have "p < length bc" "reop_of (unat (bc ! p)) = Some opcode"
    using assms(2,3) i by (auto simp: nth_append)
  moreover have "instr_len bc p opcode = Some (length i)"
    using instr_len_instr [OF assms(1)] assms(2,3) by simp
  ultimately show ?thesis
    using assms(2,3) by (subst stack_size_loop.simps) simp
qed

lemma scan_nil: "scan 0 []"
  by (simp add: scan_def max_def)

lemma scan_app:
  assumes "scan m f" "scan n g"
  shows "scan (max m n) (f @ g)"
  unfolding scan_def
proof (intro allI impI)
  fix pre post :: "u8 list" and d mx :: nat
  assume d: "d \<le> mx" "mx \<le> STACK_SIZE_MAX"
  have f: "stack_size_loop (pre @ f @ (g @ post)) (length pre) d mx =
     (if d + m > STACK_SIZE_MAX then Some (-1)
      else stack_size_loop (pre @ f @ (g @ post)) (length pre + length f) d (max mx (d + m)))"
    using assms(1) d unfolding scan_def by blast
  have g: "stack_size_loop ((pre @ f) @ g @ post) (length (pre @ f)) d (max mx (d + m)) =
     (if d + n > STACK_SIZE_MAX then Some (-1)
      else stack_size_loop ((pre @ f) @ g @ post) (length (pre @ f) + length g) d (max (max mx (d + m)) (d + n)))"
    if "d + m \<le> STACK_SIZE_MAX"
  proof -
    have "d \<le> max mx (d + m)" "max mx (d + m) \<le> STACK_SIZE_MAX" using d that by auto
    with assms(2) show ?thesis unfolding scan_def by blast
  qed
  have "max (max mx (d + m)) (d + n) = max mx (d + max m n)" by (simp add: max_def)
  with f g show "stack_size_loop (pre @ (f @ g) @ post) (length pre) d mx =
     (if d + max m n > STACK_SIZE_MAX then Some (-1)
      else stack_size_loop (pre @ (f @ g) @ post) (length pre + length (f @ g)) d (max mx (d + max m n)))"
    by (auto simp: add.assoc not_less max_def split: if_splits)
qed

definition depth_ops :: "reop set" where
  "depth_ops = {REOP_push_i32, REOP_push_char_pos, REOP_drop, REOP_bne_char_pos}"

lemma scan_instr: "instr opcode i \<Longrightarrow> opcode \<notin> depth_ops \<Longrightarrow> scan 0 i"
  unfolding scan_def depth_ops_def
  by (auto simp: stack_step [OF _ refl refl] max_def)

lemma scan_push_pop:
  assumes push: "instr p i" "p \<in> {REOP_push_i32, REOP_push_char_pos}"
    and pop: "instr q j" "q \<in> {REOP_drop, REOP_bne_char_pos}" and f: "scan m f"
  shows "scan (Suc m) (i @ f @ j)"
  unfolding scan_def
proof (intro allI impI)
  fix pre post :: "u8 list" and d mx :: nat
  assume d: "d \<le> mx" "mx \<le> STACK_SIZE_MAX"
  let ?bc = "pre @ (i @ f @ j) @ post" and ?p1 = "length pre + length i"
  have s1: "stack_size_loop ?bc (length pre) d mx =
      (if d + 1 > STACK_SIZE_MAX then Some (-1) else stack_size_loop ?bc ?p1 (d + 1) (max mx (d + 1)))"
    using stack_step [OF push(1), of ?bc pre "f @ j @ post" "length pre" d mx] push(2) d by (auto simp: max_def)
  have s2: "stack_size_loop ?bc ?p1 (d + 1) (max mx (d + 1)) =
      (if d + 1 + m > STACK_SIZE_MAX then Some (-1)
       else stack_size_loop ?bc (?p1 + length f) (d + 1) (max (max mx (d + 1)) (d + 1 + m)))"
    if "d + 1 \<le> STACK_SIZE_MAX"
  proof -
    have "d + 1 \<le> max mx (d + 1)" "max mx (d + 1) \<le> STACK_SIZE_MAX" using d that by auto
    with f have "stack_size_loop ((pre @ i) @ f @ (j @ post)) (length (pre @ i)) (d + 1) (max mx (d + 1)) =
      (if d + 1 + m > STACK_SIZE_MAX then Some (-1)
       else stack_size_loop ((pre @ i) @ f @ (j @ post)) (length (pre @ i) + length f) (d + 1)
              (max (max mx (d + 1)) (d + 1 + m)))"
      unfolding scan_def by blast
    then show ?thesis by simp
  qed
  have s3: "stack_size_loop ?bc (?p1 + length f) (d + 1) mx' = stack_size_loop ?bc (?p1 + length f + length j) d mx'" for mx'
    using stack_step [OF pop(1), of ?bc "pre @ i @ f" post "?p1 + length f" "d + 1" mx'] pop(2) by auto
  have "max (max mx (d + 1)) (d + 1 + m) = max mx (d + Suc m)" by (simp add: max_def)
  with s1 s2 s3 show "stack_size_loop ?bc (length pre) d mx =
     (if d + Suc m > STACK_SIZE_MAX then Some (-1)
      else stack_size_loop ?bc (length pre + length (i @ f @ j)) d (max mx (d + Suc m)))"
    by (auto simp: add.assoc)
qed

lemma scan_around: "scan 0 i \<Longrightarrow> scan m f \<Longrightarrow> scan m (i @ f)" "scan m f \<Longrightarrow> scan 0 j \<Longrightarrow> scan m (f @ j)"
  using scan_app [of 0 i m f] scan_app [of m f 0 j] by (simp_all add: max_def)

lemma scan_jmp: "opcode \<in> branch_ops \<or> opcode = REOP_goto \<or> opcode = REOP_loop \<Longrightarrow> scan 0 (jmp opcode i)"
  by (rule scan_instr [OF instr_jmp]) (auto simp: branch_ops_def depth_ops_def)

lemma scan_op: "Suc (length a) = reop_size opcode \<Longrightarrow> opcode \<notin> depth_ops \<Longrightarrow> opcode \<noteq> REOP_range \<Longrightarrow> opcode \<noteq> REOP_range32
    \<Longrightarrow> scan 0 (op_byte opcode # a)"
  by (rule scan_instr [OF instr_simple])

lemma frag_scan: "frag cc m f \<Longrightarrow> scan m f"
proof (induction rule: frag.induct)
  case nil
  show ?case by (rule scan_nil)
next
  case (app m f n g)
  then show ?case by (intro scan_app)
next
  case (opt m f opcode)
  then show ?case by (intro scan_around(1) scan_jmp) (auto simp: split_branch)
next
  case (star m f opcode)
  then show ?case by (intro scan_around(1) scan_around(2) scan_jmp) (auto simp: split_branch)
next
  case (plus m f opcode)
  then show ?case by (intro scan_around(2) scan_jmp) (auto simp: split_branch)
next
  case (plain opcode)
  then show ?case by (intro scan_instr [OF plain_instr]) (auto simp: plain_ops_def depth_ops_def)
next
  case (range n a)
  then show ?case by (intro scan_instr [OF instr_ranges(1)]) (auto simp: depth_ops_def)
next
  case (range32 n a)
  then show ?case by (intro scan_instr [OF instr_ranges(2)]) (auto simp: depth_ops_def)
next
  case (alt m f n g)
  then show ?case
    by (intro scan_app scan_around scan_jmp) (auto simp: branch_ops_def)
next
  case (look m f opcode)
  then show ?case
    by (intro scan_around scan_jmp scan_op) (auto simp: branch_ops_def depth_ops_def)
next
  case (star_check m f opcode)
  then have "scan (Suc m) ([op_byte REOP_push_char_pos] @ f @ jmp REOP_bne_char_pos (- int (length f) - 11))"
    by (intro scan_push_pop [OF instr_simple _ instr_jmp]) auto
  then have "scan (Suc m) (jmp opcode (int (length f) + 6) @
      [op_byte REOP_push_char_pos] @ f @ jmp REOP_bne_char_pos (- int (length f) - 11))"
    by (rule scan_around(1) [rotated]) (use star_check in \<open>auto intro: scan_jmp simp: split_branch\<close>)
  then show ?case by simp
next
  case (at_most m f opcode n)
  then have "scan m (jmp opcode (int (length f) + 5) @ f @ jmp REOP_loop (- int (length f) - 10))"
    by (intro scan_around scan_jmp) (auto simp: split_branch)
  then have "scan (Suc m) (jmp REOP_push_i32 n @
      (jmp opcode (int (length f) + 5) @ f @ jmp REOP_loop (- int (length f) - 10)) @ [op_byte REOP_drop])"
    by (intro scan_push_pop [OF instr_jmp _ instr_simple]) auto
  then show ?case by simp
next
  case (times m f n)
  then have "scan m (f @ jmp REOP_loop (- int (length f) - 5))"
    by (intro scan_around scan_jmp) auto
  then have "scan (Suc m) (jmp REOP_push_i32 n @ (f @ jmp REOP_loop (- int (length f) - 5)) @ [op_byte REOP_drop])"
    by (intro scan_push_pop [OF instr_jmp _ instr_simple]) auto
  then show ?case by simp
next
  case (simple m f k qmin qmax)
  then show ?case
    by (intro scan_around scan_instr [OF quant_instr] scan_op) (auto simp: depth_ops_def)
qed (auto intro!: scan_app scan_around scan_jmp scan_op simp: depth_ops_def split_branch)

section \<open>Simple bodies\<close>

text \<open>
  What \<open>re_is_simple_quantifier\<close> accepts is what \<open>re_simple\<close> asks of a body: only assertions and
  instructions that read one character, counted.
\<close>

lemma instr_char_next:
  assumes "instr opcode i" "opcode \<in> {REOP_range, REOP_range32, REOP_char, REOP_char32, REOP_dot, REOP_any}"
  shows "re_char_next (pre @ i @ post) opcode (Suc (length pre)) = Some (length pre + length i)"
proof -
  have count: "get_u16 (pre @ op_byte opcode # bytes_u16 (word_of_nat n) @ a @ post) (Suc (length pre)) = Some (word_of_nat n)"
    if "n < 65536" for n a
    using get_u16_count [of "Suc (length pre)" "pre @ [op_byte opcode]" n "a @ post"] that by simp
  have un: "unat (word_of_nat n :: u32) = n" if "n < 65536" for n
    using that by (simp add: unat_of_nat)
  then have pos: "0 < (word_of_nat n :: u32)" if "0 < n" "n < 65536" for n
    using that by (simp add: word_less_nat_alt)
  show ?thesis
    using assms count un pos by (auto simp: instr_def re_char_next_def)
qed

lemma simple_quantifier_step:
  assumes "instr opcode i" "bc = pre @ i @ post" "p = length pre"
  shows "simple_quantifier_loop bc p count =
    (if opcode \<in> {REOP_range, REOP_range32, REOP_char, REOP_char32, REOP_dot, REOP_any} then
       simple_quantifier_loop bc (p + length i) (count + 1)
     else if re_assert_op opcode then simple_quantifier_loop bc (p + length i) count
     else Some (-1))"
proof -
  obtain args where i: "i = op_byte opcode # args" using instr_nonempty [OF assms(1)] by blast
  then have "p < length bc" "reop_of (unat (bc ! p)) = Some opcode"
    using assms(2,3) by (auto simp: nth_append)
  moreover have "instr_len bc p opcode = Some (length i)"
    using instr_len_instr [OF assms(1)] assms(2,3) by simp
  ultimately show ?thesis
    by (subst simple_quantifier_loop.simps) (simp add: re_assert_op_def)
qed

lemma simple_body:
  assumes "linear g" "simple_quantifier_loop (pre @ g) (length pre) c = Some r" "r \<noteq> -1"
  shows "\<exists>k. r = c + int k \<and>
     (\<forall>post fuel. length g < fuel \<longrightarrow> re_simple fuel (pre @ g @ op_byte REOP_match # post) (length pre) = Some k)"
  using assms
proof (induction arbitrary: pre c r rule: linear.induct)
  case nil
  then have "r = c" by (simp add: simple_quantifier_loop.simps)
  moreover have "re_simple fuel (pre @ op_byte REOP_match # post) (length pre) = Some 0" if "0 < fuel" for fuel post
    using that by (cases fuel) (simp_all add: rd_def)
  ultimately show ?case by auto
next
  case (step opcode i g)
  obtain args where i: "i = op_byte opcode # args" using instr_nonempty [OF step.hyps(1)] by blast
  define ch where "ch \<longleftrightarrow> opcode \<in> {REOP_range, REOP_range32, REOP_char, REOP_char32, REOP_dot, REOP_any}"
  have loop: "simple_quantifier_loop (pre @ i @ g) (length pre) c =
    (if ch then simple_quantifier_loop (pre @ i @ g) (length pre + length i) (c + 1)
     else if re_assert_op opcode then simple_quantifier_loop (pre @ i @ g) (length pre + length i) c
     else Some (-1))"
    unfolding ch_def by (rule simple_quantifier_step [OF step.hyps(1) refl refl])
  have nm: "opcode \<noteq> REOP_match" using loop step.prems by (auto simp: re_assert_op_def ch_def)
  have ok: "ch \<or> re_assert_op opcode" using loop step.prems by (auto split: if_splits)
  have excl: "\<not> (ch \<and> re_assert_op opcode)" by (auto simp: re_assert_op_def ch_def)
  have "simple_quantifier_loop ((pre @ i) @ g) (length (pre @ i)) (if ch then c + 1 else c) = Some r"
    using loop step.prems(1) ok excl by (auto split: if_splits)
  from step.IH [OF this step.prems(2)] obtain k where k: "r = (if ch then c + 1 else c) + int k"
    "\<And>post fuel. length g < fuel \<Longrightarrow>
       re_simple fuel ((pre @ i) @ g @ op_byte REOP_match # post) (length (pre @ i)) = Some k"
    by blast
  have "re_simple fuel (pre @ (i @ g) @ op_byte REOP_match # post) (length pre) = Some (if ch then Suc k else k)"
    if "length (i @ g) < fuel" for post fuel
  proof -
    obtain fuel' where f: "fuel = Suc fuel'" "length g < fuel'"
      using \<open>length (i @ g) < fuel\<close> i by (cases fuel) auto
    have "rd (pre @ (i @ g) @ op_byte REOP_match # post) (length pre) = Some (op_byte opcode)"
      by (simp add: i rd_def)
    moreover have "length i = 1" if "re_assert_op opcode"
      using step.hyps(1) that by (auto simp: instr_def re_assert_op_def)
    moreover have "re_char_next (pre @ (i @ g) @ op_byte REOP_match # post) opcode (length pre + 1) = Some (length pre + length i)"
      if ch
      using instr_char_next [OF step.hyps(1), of pre "g @ op_byte REOP_match # post"] that by (simp add: ch_def)
    ultimately show ?thesis
      using k(2) [OF f(2), of post] nm ok excl f(1) by (cases ch) simp_all
  qed
  with k(1) show ?case by (intro exI [of _ "if ch then Suc k else k"]) auto
qed

section \<open>Every fragment has a certificate\<close>

lemma cert_single:
  assumes "f \<noteq> []" "succs f cc 0 0 = Some [(length f, 0)]"
  shows "\<exists>D. cert cc m f D 0"
proof -
  have "cert cc m f [0 \<mapsto> 0, length f \<mapsto> 0] 0"
    using assms by (auto simp: cert_def ok_at_def split: if_splits)
  then show ?thesis by (intro exI) assumption
qed

lemma cert_nil: "\<exists>D. cert cc m [] D 0"
  by (rule exI [of _ "[0 \<mapsto> 0]"]) (auto simp: cert_def split: if_splits)

lemma cert_plain: "opcode \<in> plain_ops \<Longrightarrow> \<exists>D. cert cc m [op_byte opcode] D 0"
  using succs_op [of "[]" opcode "[]" cc 0]
  by (intro cert_single) (auto simp: plain_ops_def op_succs_def re_assert_op_def re_char_next_def)

lemma cert_char:
  assumes "instr opcode i" "opcode \<in> {REOP_range, REOP_range32, REOP_char, REOP_char32}"
  shows "\<exists>D. cert cc m i D 0"
proof -
  obtain args where i: "i = op_byte opcode # args" using instr_nonempty [OF assms(1)] by blast
  have "re_char_next i opcode 1 = Some (length i)"
    using instr_char_next [OF assms(1), of "[]" "[]"] assms(2) by auto
  then have "succs i cc 0 0 = Some [(length i, 0)]"
    using assms(2) i succs_op [of "[]" opcode args cc 0] by (auto simp: op_succs_def re_assert_op_def)
  with i show ?thesis by (intro cert_single) auto
qed

lemma frag_cert: "frag cc m f \<Longrightarrow> length f < 2 ^ 31 \<Longrightarrow> \<exists>D. cert cc m f D 0"
proof (induction rule: frag.induct)
  case nil
  show ?case by (rule cert_nil)
next
  case (app m f n g)
  then show ?case using cert_app by auto
next
  case (plain opcode)
  then show ?case by (intro cert_plain)
next
  case (char a)
  then show ?case by (intro cert_char [OF instr_simple]) auto
next
  case (char32 a)
  then show ?case by (intro cert_char [OF instr_simple]) auto
next
  case (range n a)
  then show ?case by (intro cert_char [OF instr_ranges(1)]) auto
next
  case (range32 n a)
  then show ?case by (intro cert_char [OF instr_ranges(2)]) auto
next
  case (save opcode v)
  then show ?case
    using succs_op [of "[]" opcode "[v]" cc 0]
    by (intro cert_single) (auto simp: op_succs_def re_assert_op_def rd_def)
next
  case (reset v u)
  then show ?case
    using succs_op [of "[]" REOP_save_reset "[u, v]" cc 0]
    by (intro cert_single) (auto simp: op_succs_def re_assert_op_def rd_def)
next
  case (back_ref opcode v)
  then show ?case
    using succs_op [of "[]" opcode "[v]" cc 0]
    by (intro cert_single) (auto simp: op_succs_def re_assert_op_def rd_def)
next
  case (alt m f n g)
  then obtain Df Dg where D: "cert cc m f Df 0" "cert cc n g Dg 0" by auto
  let ?x = "jmp REOP_split_next_first (int (length f) + 5) @ f @ jmp REOP_goto (int (length g))"
  have "succs ?x cc 0 0 = Some [(length f + 10, 0), (0 + 5, 0)]"
    by (rule succs_branch [of _ "[]" REOP_split_next_first "int (length f) + 5"]) (use alt.prems in \<open>auto simp: branch_ops_def add.commute\<close>)
  moreover have "succs ?x cc (5 + length f) 0 = Some [(length ?x + length g, 0)]"
    by (rule succs_goto [of _ "jmp REOP_split_next_first (int (length f) + 5) @ f"]) (use alt.prems in auto)
  ultimately have "\<exists>D. cert cc m ?x D (length g)"
    by (intro cert_wrap [OF D(1), of _ "jmp REOP_split_next_first (int (length f) + 5)" _ 0 _
        "[(0, 0), (5 + length f, 0)]"]) (auto simp: jmp_def)
  then show ?case using cert_app [OF _ D(2)] by blast
next
  case (look m f opcode)
  then obtain D where D: "cert cc m f D 0" by auto
  let ?x = "jmp opcode (int (length f) + 1) @ f @ [op_byte REOP_match]"
  have "succs ?x cc 0 0 = Some [(length f + 6, 0), (0 + 5, 0)]"
    by (rule succs_branch [of _ "[]" opcode "int (length f) + 1"]) (use look in \<open>auto simp: branch_ops_def add.commute\<close>)
  moreover have "succs ?x cc (5 + length f) 0 = Some []"
    by (rule succs_match [of _ "jmp opcode (int (length f) + 1) @ f" "[]"]) auto
  ultimately show ?case
    by (intro cert_wrap [OF D, of _ "jmp opcode (int (length f) + 1)" _ 0 _
        "[(0, 0), (5 + length f, 0)]"]) (auto simp: jmp_def)
next
  case (opt m f opcode)
  then obtain D where D: "cert cc m f D 0" by auto
  let ?x = "jmp opcode (int (length f)) @ f"
  have "succs ?x cc 0 0 = Some [(length f + 5, 0), (0 + 5, 0)]"
    by (rule succs_branch [of _ "[]" opcode "int (length f)"]) (use opt in \<open>auto simp: split_branch\<close>)
  then show ?case
    by (intro cert_wrap [OF D, of _ "jmp opcode (int (length f))" "[]" 0 _ "[(0, 0)]"]) (auto simp: jmp_def)
next
  case (star m f opcode)
  then obtain D where D: "cert cc m f D 0" by auto
  let ?h = "jmp opcode (int (length f) + 5)"
  let ?x = "?h @ f @ jmp REOP_goto (- int (length f) - 10)"
  have "succs ?x cc 0 0 = Some [(length f + 10, 0), (0 + 5, 0)]"
    by (rule succs_branch [of _ "[]" opcode "int (length f) + 5"]) (use star in \<open>auto simp: split_branch\<close>)
  moreover have "succs ?x cc (5 + length f) 0 = Some [(0, 0)]"
    by (rule succs_goto [of _ "?h @ f" _ "[]"]) (use star.prems in auto)
  ultimately show ?case
    by (intro cert_wrap [OF D, of _ ?h _ 0 _ "[(0, 0), (5 + length f, 0)]"]) (auto simp: jmp_def)
next
  case (star_check m f opcode)
  then obtain D where D: "cert cc m f D 0" by auto
  let ?s = "jmp opcode (int (length f) + 6)" and ?b = "jmp REOP_bne_char_pos (- int (length f) - 11)"
  let ?h = "?s @ [op_byte REOP_push_char_pos]"
  let ?x = "?h @ f @ ?b"
  have "succs ?x cc 0 0 = Some [(length f + 11, 0), (0 + 5, 0)]"
    by (rule succs_branch [of _ "[]" opcode "int (length f) + 6"]) (use star_check in \<open>auto simp: split_branch\<close>)
  moreover have "succs ?x cc 5 0 = Some [(5 + 1, Suc 0)]"
    by (rule succs_push_char_pos [of _ ?s]) auto
  moreover have "succs ?x cc (6 + length f) (Suc 0) = Some [(0, 0), (6 + length f + 5, 0)]"
    by (rule succs_bne [of _ "?h @ f" _ "[]"]) (use star_check.prems in auto)
  ultimately show ?case
    by (intro cert_wrap [OF D, of _ ?h ?b 1 _ "[(0, 0), (5, 0), (6 + length f, 1)]"]) (auto simp: jmp_def)
next
  case (at_most m f opcode n)
  then obtain D where D: "cert cc m f D 0" by auto
  let ?p = "jmp REOP_push_i32 n" and ?s = "jmp opcode (int (length f) + 5)"
    and ?l = "jmp REOP_loop (- int (length f) - 10)" and ?d = "[op_byte REOP_drop]"
  let ?x = "(?p @ ?s) @ f @ ?l @ ?d"
  have "succs ?x cc 0 0 = Some [(0 + 5, Suc 0)]"
    by (rule succs_push_i32 [of _ "[]"]) auto
  moreover have "succs ?x cc 5 (Suc 0) = Some [(15 + length f, Suc 0), (5 + 5, Suc 0)]"
    by (rule succs_branch [of _ ?p opcode "int (length f) + 5"]) (use at_most in \<open>auto simp: split_branch\<close>)
  moreover have "succs ?x cc (10 + length f) (Suc 0) = Some [(5, Suc 0), (10 + length f + 5, Suc 0)]"
    by (rule succs_loop [of _ "?p @ ?s @ f"]) (use at_most.prems in auto)
  moreover have "succs ?x cc (15 + length f) (Suc 0) = Some [(15 + length f + 1, 0)]"
    by (rule succs_drop [of _ "?p @ ?s @ f @ ?l" "[]"]) auto
  ultimately show ?case
    by (intro cert_wrap [OF D, of _ "?p @ ?s" "?l @ ?d" 1 _
        "[(0, 0), (5, 1), (10 + length f, 1), (15 + length f, 1)]"]) (auto simp: jmp_def)
next
  case (plus m f opcode)
  then obtain D where D: "cert cc m f D 0" by auto
  let ?s = "jmp opcode (- int (length f) - 5)"
  have "succs (f @ ?s) cc (length f) 0 = Some [(0, 0), (length f + 5, 0)]"
    by (rule succs_branch [of _ f opcode "- int (length f) - 5" "[]"]) (use plus in \<open>auto simp: split_branch\<close>)
  then show ?case
    by (intro cert_wrap [OF D, of _ "[]" ?s 0 _ "[(length f, 0)]"]) (auto simp: jmp_def)
next
  case (times m f n)
  then obtain D where D: "cert cc m f D 0" by auto
  let ?p = "jmp REOP_push_i32 n" and ?l = "jmp REOP_loop (- int (length f) - 5)" and ?d = "[op_byte REOP_drop]"
  let ?x = "?p @ f @ ?l @ ?d"
  have "succs ?x cc 0 0 = Some [(0 + 5, Suc 0)]"
    by (rule succs_push_i32 [of _ "[]"]) auto
  moreover have "succs ?x cc (5 + length f) (Suc 0) = Some [(5, Suc 0), (5 + length f + 5, Suc 0)]"
    by (rule succs_loop [of _ "?p @ f"]) (use times.prems in auto)
  moreover have "succs ?x cc (10 + length f) (Suc 0) = Some [(10 + length f + 1, 0)]"
    by (rule succs_drop [of _ "?p @ f @ ?l" "[]"]) auto
  ultimately show ?case
    by (intro cert_wrap [OF D, of _ ?p "?l @ ?d" 1 _
        "[(0, 0), (5 + length f, 1), (10 + length f, 1)]"]) (auto simp: jmp_def)
next
  case (simple m f k qmin qmax)
  let ?h = "op_byte REOP_simple_greedy_quant # bytes_u32 (word_of_nat (length f + 1)) @ bytes_u32 qmin @
      bytes_u32 qmax @ bytes_u32 (word_of_nat k)"
  let ?x = "?h @ f @ [op_byte REOP_match]"
  obtain k' where k': "int k = 0 + int k'"
    "\<And>post fuel. length f < fuel \<Longrightarrow> re_simple fuel ([] @ f @ op_byte REOP_match # post) (length ([] :: u8 list)) = Some k'"
    using simple_body [OF frag_linear [OF simple.hyps(1)], of "[]" 0 "int k"] simple.hyps(2) by auto
  have "k < 2 ^ 32"
  proof -
    have "k \<le> length f" using re_simple_le [OF k'(2) [OF lessI], of "[]"] k'(1) by simp
    with simple.prems show ?thesis by simp
  qed
  then have un: "unat (word_of_nat k :: u32) = k" by (simp add: unat_of_nat)
  have body: "re_simple (length ?x) ?x 17 = Some k"
    using re_simple_embed [OF k'(2) [OF lessI, of "[]"], of "length ?x" ?h "[]"] k'(1) by simp
  have np: "get_u32 ?x 1 = Some (word_of_nat (length f + 1))"
    using get_u32_bytes [of 1 "[op_byte REOP_simple_greedy_quant]" "word_of_nat (length f + 1)"
        "bytes_u32 qmin @ bytes_u32 qmax @ bytes_u32 (word_of_nat k) @ f @ [op_byte REOP_match]"] by simp
  have kk: "get_u32 ?x 13 = Some (word_of_nat k)"
    using get_u32_bytes [of 13 "op_byte REOP_simple_greedy_quant # bytes_u32 (word_of_nat (length f + 1)) @
        bytes_u32 qmin @ bytes_u32 qmax" "word_of_nat k" "f @ [op_byte REOP_match]"] by simp
  have "re_jump 17 (word_of_int (int (length f) + 1)) = Some (length f + 18)"
    by (rule re_jump_offset) (use simple.prems in auto)
  then have j: "re_jump 17 (word_of_nat (length f + 1)) = Some (length ?x)"
    by (simp add: add.commute)
  have "0 < (word_of_nat k :: u32)" using un simple.hyps(3) by (simp add: word_less_nat_alt)
  then have "op_succs ?x cc 0 0 REOP_simple_greedy_quant = Some [(length ?x, 0)]"
    using np kk j body un by (simp add: op_succs_def re_assert_op_def del: re_simple.simps)
  then have "succs ?x cc 0 0 = Some [(length ?x, 0)]"
    using succs_op [of "[]" REOP_simple_greedy_quant _ cc 0] by simp
  then show ?case by (intro cert_single) simp_all
qed

section \<open>Whole programs\<close>

lemma op_succs_wf:
  assumes "op_succs bc cc p d opcode = Some ss" "opcode \<noteq> REOP_invalid"
    and "\<forall>(t, e) \<in> set ss. e \<le> sm \<and> depth_at ds t = Some e"
  shows "wf_instr bc cc sm ds p d opcode"
proof (cases "re_assert_op opcode")
  case True
  with assms show ?thesis by (auto simp: op_succs_def wf_instr_def)
next
  case False
  with assms show ?thesis
    by (cases opcode)
      (auto simp: op_succs_def wf_instr_def Let_def jumps_to_def jump_at_def rd_Some_iff
        simp del: re_simple.simps split: if_splits elim!: bind_SomeE)
qed

lemma succs_wf:
  assumes "succs bc cc p d = Some ss" "ds ! p = Some d" "d \<le> sm"
    and "\<forall>(t, e) \<in> set ss. e \<le> sm \<and> depth_at ds t = Some e"
  shows "wf_at bc cc sm ds p"
proof -
  obtain b opcode where b: "rd bc p = Some b" "reop_of (unat b) = Some opcode" "op_succs bc cc p d opcode = Some ss"
    using assms(1) by (auto simp: succs_def bind_Some_iff)
  moreover have "opcode \<noteq> REOP_invalid"
    using b(3) by (auto simp: op_succs_def re_assert_op_def re_char_next_def)
  ultimately show ?thesis
    using op_succs_wf [OF b(3) _ assms(4)] assms(2,3) by (auto simp: wf_at_def rd_Some_iff)
qed

text \<open>A header, a fragment and \<open>REOP_match\<close>, with anything behind: code the executor may run.\<close>

lemma frag_code_ok:
  assumes g: "frag cc m g" "length g < 2 ^ 31"
    and bc: "bc = hdr @ g @ op_byte REOP_match # names" "length hdr = RE_HEADER_LEN"
    and hd: "unat (hdr ! RE_HEADER_CAPTURE_COUNT) = cc" "m \<le> unat (hdr ! RE_HEADER_STACK_SIZE)"
  shows "\<exists>ds. re_code_ok bc ds"
proof -
  obtain D where D: "cert cc m g D 0" using frag_cert [OF g] by blast
  then have D0: "D 0 = Some 0" "D (length g) = Some 0" "\<And>p d. D p = Some d \<Longrightarrow> p \<le> length g \<and> d \<le> m"
    by (auto simp: cert_def)
  define ds where "ds = replicate RE_HEADER_LEN None @ map D [0..<Suc (length g)]"
  let ?sm = "unat (hdr ! RE_HEADER_STACK_SIZE)"
  have hd7: "length hdr = 7" using bc(2) by (simp add: re_header_defs)
  have at: "depth_at ds (length hdr + q) = Some e" if "D q = Some e" for q e
    using that D0(3) [OF that] bc(2) by (auto simp: depth_at_def ds_def nth_append simp del: upt_Suc)
  have "wf_at bc cc ?sm ds p" if p: "p < length ds" for p
  proof (cases "ds ! p")
    case None
    then show ?thesis by (simp add: wf_at_def)
  next
    case (Some d)
    then have "length hdr \<le> p" using p bc(2) by (cases "p < RE_HEADER_LEN") (auto simp: ds_def nth_append)
    then obtain q where q: "p = length hdr + q" by (auto simp: le_iff_add)
    then have "q \<le> length g" using p bc(2) by (simp add: ds_def)
    then have Dq: "D q = Some d" using Some q bc(2) by (simp add: ds_def nth_append del: upt_Suc)
    then have d: "d \<le> ?sm" using D0(3) hd(2) by fastforce
    show ?thesis
    proof (cases "q = length g")
      case True
      have "succs bc cc p d = Some []"
        by (rule succs_match [of _ "hdr @ g" names]) (use bc q True in auto)
      then show ?thesis by (rule succs_wf) (use Some d in auto)
    next
      case False
      then have "q < length g" using \<open>q \<le> length g\<close> by simp
      from cert_embed [OF D this le_refl Dq, of hdr "op_byte REOP_match # names" 0] obtain ss where ss:
        "succs bc cc p d = Some ss"
        "\<forall>(t, e) \<in> set ss. (\<exists>q' e'. t = length hdr + q' \<and> e = 0 + e' \<and> D q' = Some e')
            \<or> t = length hdr + length g + 0 \<and> e = 0"
        unfolding bc(1) q by auto
      have "\<forall>(t, e) \<in> set ss. e \<le> ?sm \<and> depth_at ds t = Some e"
        using ss(2) at D0 hd(2) by (fastforce split: prod.splits)
      then show ?thesis by (rule succs_wf [OF ss(1) Some d])
    qed
  qed
  then have "re_wf bc cc ?sm ds" by (simp add: re_wf_def list_all_iff)
  moreover have "bc ! RE_HEADER_CAPTURE_COUNT = hdr ! RE_HEADER_CAPTURE_COUNT"
    "bc ! RE_HEADER_STACK_SIZE = hdr ! RE_HEADER_STACK_SIZE"
    using hd7 by (simp_all add: bc(1) re_header_defs nth_append)
  moreover have "depth_at ds RE_HEADER_LEN = Some 0" using at [OF D0(1)] bc(2) by simp
  moreover have "RE_HEADER_LEN \<le> length bc" using bc by simp
  ultimately show ?thesis using hd(1) by (auto simp: re_code_ok_def)
qed

lemma frag_stack_size:
  assumes "frag cc m g" "length hdr = RE_HEADER_LEN"
  shows "compute_stack_size (hdr @ g @ [op_byte REOP_match]) = Some (if m \<le> STACK_SIZE_MAX then int m else -1)"
proof -
  have "scan (max m 0) (g @ [op_byte REOP_match])"
    by (intro scan_app frag_scan [OF assms(1)] scan_op) (auto simp: depth_ops_def)
  then have "stack_size_loop ([] @ (g @ [op_byte REOP_match]) @ []) (length ([] :: u8 list)) 0 0 =
     (if 0 + max m 0 > STACK_SIZE_MAX then Some (-1)
      else stack_size_loop ([] @ (g @ [op_byte REOP_match]) @ []) (length ([] :: u8 list) + length (g @ [op_byte REOP_match])) 0
        (max 0 (0 + max m 0)))"
    unfolding scan_def by blast
  then show ?thesis
    using assms(2) by (simp add: compute_stack_size_def stack_size_loop.simps [of _ "Suc _"])
qed

end
