(* ===== verification/Re_Compile_Safe.thy ===== *)
theory Re_Compile_Safe
  imports Re_Fragment
begin

text \<open>
  The compiler emits well-formed code. Every parse function that succeeds appends a fragment
  (\<open>Re_Fragment\<close>) to the byte code, whatever the pattern and whatever the allocator answers, as
  long as the buffer's error flag stays clear at the end; \<open>lre_compile\<close> checks that flag, so its
  result passes the check \<open>re_code_ok\<close> under which the executor is memory safe.

  \<open>parsed s s'\<close> is the contract of the parse functions, \<open>appends s s' f\<close> that of the emission
  functions and \<open>keeps s s'\<close> that of the functions that do not touch the code.
\<close>

section \<open>Errors stick\<close>

lemma dbuf_realloc_sticky:
  "dbuf_realloc ra s n = Some (r, s') \<Longrightarrow> db_error s \<Longrightarrow> db_error s'"
  by (auto simp: dbuf_realloc_def Let_def split: if_splits option.splits elim!: bind_SomeE)

lemma dbuf_grow_sticky: "dbuf_grow ra s n = Some (r, s') \<Longrightarrow> db_error s \<Longrightarrow> db_error s'"
  by (auto simp: dbuf_grow_def dest: dbuf_realloc_sticky split: if_splits)

lemma dbuf_memcpy_error: "dbuf_memcpy s off d = Some s' \<Longrightarrow> db_error s' = db_error s"
  by (auto simp: dbuf_memcpy_def split: option.splits if_splits)

lemma dbuf_put_sticky: "dbuf_put ra s d = Some (r, s') \<Longrightarrow> db_error s \<Longrightarrow> db_error s'"
  by (auto simp: dbuf_put_def dest!: dbuf_grow_sticky dbuf_memcpy_error split: if_splits elim!: bind_SomeE)

lemma dbuf_put_self_sticky: "dbuf_put_self ra s off n = Some (r, s') \<Longrightarrow> db_error s \<Longrightarrow> db_error s'"
  by (auto simp: dbuf_put_self_def dest!: dbuf_grow_sticky dbuf_memcpy_error split: if_splits elim!: bind_SomeE)

lemma dbuf_insert_sticky: "dbuf_insert ra s pos n = Some (r, s') \<Longrightarrow> db_error s \<Longrightarrow> db_error s'"
  by (auto simp: dbuf_insert_def dest!: dbuf_realloc_sticky dbuf_memcpy_error split: if_splits elim!: bind_SomeE)

section \<open>Contracts\<close>

abbreviation code :: "'o re_parse_state \<Rightarrow> u8 list" where
  "code s \<equiv> dbuf_bytes (ps_byte_code s)"

abbreviation code_ok :: "'o re_parse_state \<Rightarrow> bool" where
  "code_ok s \<equiv> dbuf_ok (ps_byte_code s)"

lemma code_length: "code_ok s \<Longrightarrow> length (code s) = code_size s"
  by (rule dbuf_bytes_length)

definition keeps :: "'o re_parse_state \<Rightarrow> 'o re_parse_state \<Rightarrow> bool" where
  "keeps s s' \<longleftrightarrow> ps_byte_code s' = ps_byte_code s \<and> ps_capture_count s' = ps_capture_count s"

text \<open>From \<open>s\<close> to \<open>s'\<close> the code changes from \<open>c\<close> to \<open>c'\<close>, or the error flag is set.\<close>

definition rewrites_to :: "'o re_parse_state \<Rightarrow> 'o re_parse_state \<Rightarrow> u8 list \<Rightarrow> bool" where
  "rewrites_to s s' c' \<longleftrightarrow>
     ps_capture_count s' = ps_capture_count s \<and>
     (code_error s \<longrightarrow> code_error s') \<and> (code_ok s \<and> \<not> code_error s' \<longrightarrow> code_ok s' \<and> code s' = c')"

definition appends :: "'o re_parse_state \<Rightarrow> 'o re_parse_state \<Rightarrow> u8 list \<Rightarrow> bool" where
  "appends s s' f \<longleftrightarrow> rewrites_to s s' (code s @ f)"

definition captures_ok :: "'o re_parse_state \<Rightarrow> bool" where
  "captures_ok s \<longleftrightarrow> 0 < ps_capture_count s \<and> ps_capture_count s \<le> CAPTURE_COUNT_MAX"

definition parsed :: "'o re_parse_state \<Rightarrow> 'o re_parse_state \<Rightarrow> bool" where
  "parsed s s' \<longleftrightarrow>
     ps_capture_count s \<le> ps_capture_count s' \<and>
     (captures_ok s \<longrightarrow> captures_ok s') \<and>
     (code_error s \<longrightarrow> code_error s') \<and>
     (code_ok s \<and> captures_ok s \<and> \<not> code_error s' \<longrightarrow>
        code_ok s' \<and> (\<exists>m f. code s' = code s @ f \<and> frag (ps_capture_count s') m f))"

lemma keeps_refl [simp]: "keeps s s"
  by (simp add: keeps_def)

lemma keeps_trans: "keeps s s1 \<Longrightarrow> keeps s1 s2 \<Longrightarrow> keeps s s2"
  by (simp add: keeps_def)

lemma keeps_update [simp]:
  "keeps s (s\<lparr>ps_opaque := st\<rparr>)" "keeps s (s\<lparr>ps_u := u\<rparr>)" "keeps s (s\<lparr>ps_buf_ptr := p\<rparr>)"
  "keeps s (s\<lparr>ps_has_named_captures := h\<rparr>)" "keeps s (s\<lparr>ps_total_capture_count := n, ps_has_named_captures := h\<rparr>)"
  "keeps s (s\<lparr>ps_group_names := d, ps_opaque := st\<rparr>)"
  by (simp_all add: keeps_def)

lemma keeps_error: "keeps s (snd (re_parse_error s msg))" "keeps s (snd (re_parse_out_of_memory s))"
  by (simp_all add: re_parse_out_of_memory_def re_parse_error_def Let_def)

lemma re_parse_error_code [simp]: "fst (re_parse_error s msg) = -1" "fst (re_parse_out_of_memory s) = -1"
  by (simp_all add: re_parse_out_of_memory_def re_parse_error_def Let_def)

lemma keeps_rewrites: "keeps s s1 \<Longrightarrow> rewrites_to s1 s2 c \<Longrightarrow> rewrites_to s s2 c"
  by (simp add: keeps_def rewrites_to_def)

lemma rewrites_keeps: "rewrites_to s s1 c \<Longrightarrow> keeps s1 s2 \<Longrightarrow> rewrites_to s s2 c"
  by (simp add: keeps_def rewrites_to_def)

lemma keeps_appends: "keeps s s1 \<Longrightarrow> appends s1 s2 f \<Longrightarrow> appends s s2 f"
  by (simp add: keeps_def rewrites_to_def appends_def)

lemma appends_keeps: "appends s s1 f \<Longrightarrow> keeps s1 s2 \<Longrightarrow> appends s s2 f"
  by (simp add: keeps_def rewrites_to_def appends_def)

lemma appends_nil: "keeps s s' \<Longrightarrow> appends s s' []"
  by (simp add: keeps_def rewrites_to_def appends_def)

lemma appends_trans: "appends s s1 f \<Longrightarrow> appends s1 s2 g \<Longrightarrow> appends s s2 (f @ g)"
  by (auto simp: appends_def rewrites_to_def)

lemma appends_parsed: "appends s s' f \<Longrightarrow> frag (ps_capture_count s) m f \<Longrightarrow> parsed s s'"
  by (auto simp: appends_def rewrites_to_def parsed_def captures_ok_def)

lemma keeps_parsed: "keeps s s' \<Longrightarrow> parsed s s'"
  by (rule appends_parsed [OF appends_nil frag.nil])

lemma parsed_trans:
  assumes "parsed s s1" "parsed s1 s2"
  shows "parsed s s2"
proof -
  have "code_ok s2 \<and> (\<exists>m f. code s2 = code s @ f \<and> frag (ps_capture_count s2) m f)"
    if ok: "code_ok s" "captures_ok s" "\<not> code_error s2"
  proof -
    have e: "\<not> code_error s1" "captures_ok s1"
      using assms ok by (auto simp: parsed_def)
    then obtain m f where f: "code_ok s1" "code s1 = code s @ f" "frag (ps_capture_count s1) m f"
      using assms(1) ok by (auto simp: parsed_def)
    then obtain n g where g: "code_ok s2" "code s2 = code s1 @ g" "frag (ps_capture_count s2) n g"
      using assms(2) e ok by (auto simp: parsed_def)
    have "frag (ps_capture_count s2) (max m n) (f @ g)"
      using assms(2) by (intro frag.app frag_mono [OF f(3)] g(3)) (simp add: parsed_def)
    with f g show ?thesis by auto
  qed
  with assms show ?thesis by (auto simp: parsed_def)
qed

section \<open>Emission\<close>

context byte_reallocator
begin

lemma with_code_append:
  assumes "with_code (\<lambda>d. dbuf_put ra d bs) s = Some (r, s')" "length bs \<le> PTRDIFF_MAX"
  shows "appends s s' bs"
proof -
  let ?d = "(ps_byte_code s)\<lparr>db_opaque := ps_opaque s\<rparr>"
  obtain d where d: "dbuf_put ra ?d bs = Some (r, d)"
    and s': "s' = s\<lparr>ps_byte_code := d, ps_opaque := db_opaque d\<rparr>"
    using assms(1) by (auto simp: with_code_def elim!: bind_SomeE)
  have "dbuf_ok d \<and> dbuf_bytes d = dbuf_bytes ?d @ bs" if "dbuf_ok ?d" "\<not> db_error d"
    using dbuf_put_spec [OF that(1) assms(2)] d that(2) by (auto simp: dbuf_outcome_def)
  with d dbuf_put_sticky [OF d] show ?thesis
    by (auto simp: s' appends_def rewrites_to_def dbuf_ok_def dbuf_bytes_def)
qed

lemma re_emit_op_appends: "re_emit_op ra s opcode = Some s' \<Longrightarrow> appends s s' [op_byte opcode]"
  by (auto simp: re_emit_op_def dbuf_putc_def PTRDIFF_MAX_def intro!: with_code_append)

lemma re_emit_u8_appends: "re_emit_u8 ra s v = Some s' \<Longrightarrow> appends s s' [ucast v]"
  by (auto simp: re_emit_u8_def dbuf_putc_def PTRDIFF_MAX_def intro!: with_code_append)

lemma re_emit_u16_appends: "re_emit_u16 ra s v = Some s' \<Longrightarrow> appends s s' (bytes_u16 (ucast v))"
  by (auto simp: re_emit_u16_def dbuf_put_u16_def PTRDIFF_MAX_def intro!: with_code_append)

lemma re_emit_u32_appends: "re_emit_u32 ra s v = Some s' \<Longrightarrow> appends s s' (bytes_u32 v)"
  by (auto simp: re_emit_u32_def dbuf_put_u32_def PTRDIFF_MAX_def intro!: with_code_append)

lemma re_emit_op_u8_appends:
  "re_emit_op_u8 ra s opcode v = Some s' \<Longrightarrow> appends s s' [op_byte opcode, ucast v]"
  using appends_trans [OF re_emit_op_appends re_emit_u8_appends]
  by (fastforce simp: re_emit_op_u8_def elim!: bind_SomeE)

lemma re_emit_op_u16_appends:
  "re_emit_op_u16 ra s opcode v = Some s' \<Longrightarrow> appends s s' (op_byte opcode # bytes_u16 (ucast v))"
  using appends_trans [OF re_emit_op_appends re_emit_u16_appends]
  by (fastforce simp: re_emit_op_u16_def elim!: bind_SomeE)

lemma re_emit_op_u32_appends:
  assumes "re_emit_op_u32 ra s opcode v = Some (pos, s')"
  shows "appends s s' (op_byte opcode # bytes_u32 v)"
    "code_ok s \<Longrightarrow> \<not> code_error s' \<Longrightarrow> pos = code_size s + 1"
proof -
  obtain s1 where s1: "re_emit_op ra s opcode = Some s1" "re_emit_u32 ra s1 v = Some s'" "pos = code_size s1"
    using assms by (auto simp: re_emit_op_u32_def Let_def elim!: bind_SomeE)
  note a = re_emit_op_appends [OF s1(1)] and b = re_emit_u32_appends [OF s1(2)]
  show "appends s s' (op_byte opcode # bytes_u32 v)" using appends_trans [OF a b] by simp
  show "pos = code_size s + 1" if "code_ok s" "\<not> code_error s'"
  proof -
    have "code_ok s1" "code s1 = code s @ [op_byte opcode]"
      using a b that by (auto simp: appends_def rewrites_to_def)
    then show ?thesis using code_length [of s] code_length [of s1] that s1(3) by simp
  qed
qed

lemma re_emit_goto_appends:
  assumes "re_emit_goto ra s opcode v = Some (pos, s')"
  shows "\<exists>w. appends s s' (op_byte opcode # bytes_u32 w) \<and>
           (code_ok s \<longrightarrow> \<not> code_error s' \<longrightarrow> w = v - word_of_nat (code_size s + 5))"
proof -
  obtain s1 where s1: "re_emit_op ra s opcode = Some s1"
    "re_emit_u32 ra s1 (v - word_of_nat (code_size s1 + 4)) = Some s'"
    using assms by (auto simp: re_emit_goto_def Let_def elim!: bind_SomeE)
  note a = re_emit_op_appends [OF s1(1)] and b = re_emit_u32_appends [OF s1(2)]
  have "code_size s1 = code_size s + 1" if "code_ok s" "\<not> code_error s'"
  proof -
    have "code_ok s1" "code s1 = code s @ [op_byte opcode]"
      using a b that by (auto simp: appends_def rewrites_to_def)
    then show ?thesis using code_length [of s] code_length [of s1] that by simp
  qed
  with appends_trans [OF a b] show ?thesis
    by (intro exI [of _ "v - word_of_nat (code_size s1 + 4)"]) (auto simp: algebra_simps)
qed

end

lemma code_set_rewrites: "code_set s pos v = Some s' \<Longrightarrow> rewrites_to s s' ((code s)[pos := v])"
  by (auto simp: code_set_def wr_def rewrites_to_def dbuf_ok_def dbuf_bytes_def take_update_swap
      split: if_splits elim!: bind_SomeE)

lemma code_put_u32_rewrites:
  assumes "code_put_u32 s pos v = Some s'"
  shows "rewrites_to s s' (if pos + 4 \<le> length (code s)
           then take pos (code s) @ bytes_u32 v @ drop (pos + 4) (code s) else code s')"
proof -
  let ?b = "block (db_buf (ps_byte_code s))" and ?n = "code_size s"
  have p: "pos + 4 \<le> length ?b"
    and s': "s' = s\<lparr>ps_byte_code := (ps_byte_code s)\<lparr>db_buf := Some (take pos ?b @ bytes_u32 v @ drop (pos + 4) ?b)\<rparr>\<rparr>"
    using assms by (auto simp: code_put_u32_def put_u32_def wr_block_def split: if_splits elim!: bind_SomeE)
  have "take ?n (take pos ?b @ bytes_u32 v @ drop (pos + 4) ?b)
      = take pos (code s) @ bytes_u32 v @ drop (pos + 4) (code s)"
    if "code_ok s" "pos + 4 \<le> length (code s)"
    using that take_overwrite [of ?n ?b pos "bytes_u32 v"] code_length [OF that(1)] p
    by (simp add: dbuf_ok_def dbuf_bytes_def max_def)
  with p show ?thesis
    by (auto simp: s' rewrites_to_def dbuf_ok_def dbuf_bytes_def)
qed

text \<open>The same without saying what the code becomes.\<close>

definition evolves :: "'o re_parse_state \<Rightarrow> 'o re_parse_state \<Rightarrow> bool" where
  "evolves s s' \<longleftrightarrow> rewrites_to s s' (code s')"

lemma evolvesD:
  assumes "evolves s s'"
  shows "ps_capture_count s' = ps_capture_count s" "code_error s \<Longrightarrow> code_error s'"
    "code_ok s \<Longrightarrow> \<not> code_error s' \<Longrightarrow> code_ok s'" "\<not> code_error s' \<Longrightarrow> \<not> code_error s"
  using assms by (auto simp: evolves_def rewrites_to_def)

lemma evolves_trans: "evolves s s1 \<Longrightarrow> evolves s1 s2 \<Longrightarrow> evolves s s2"
  by (auto simp: evolves_def rewrites_to_def)

lemma rewrites_evolves: "rewrites_to s s' c \<Longrightarrow> evolves s s'"
  by (auto simp: evolves_def rewrites_to_def)

lemma appends_evolves: "appends s s' f \<Longrightarrow> evolves s s'"
  by (auto simp: evolves_def rewrites_to_def appends_def)

lemma appends_code: "appends s s' f \<Longrightarrow> code_ok s \<Longrightarrow> \<not> code_error s' \<Longrightarrow> code s' = code s @ f"
  by (auto simp: rewrites_to_def appends_def)

lemma rewrites_code: "rewrites_to s s' c \<Longrightarrow> code_ok s \<Longrightarrow> \<not> code_error s' \<Longrightarrow> code s' = c"
  by (auto simp: rewrites_to_def)

text \<open>An opcode and its operand stored over five bytes of the code.\<close>

lemma code_set_at:
  assumes "code_set s p v = Some s'"
  shows "evolves s s'"
    "code_ok s \<Longrightarrow> \<not> code_error s' \<Longrightarrow> code s = pre @ x # r \<Longrightarrow> length pre = p \<Longrightarrow> code s' = pre @ v # r"
  using code_set_rewrites [OF assms] by (auto intro: rewrites_evolves dest: rewrites_code)

lemma code_put_u32_at:
  assumes "code_put_u32 s p v = Some s'"
  shows "evolves s s'"
    "code_ok s \<Longrightarrow> \<not> code_error s' \<Longrightarrow> code s = pre @ g @ r \<Longrightarrow> length pre = p \<Longrightarrow> length g = 4
       \<Longrightarrow> code s' = pre @ bytes_u32 v @ r"
  using code_put_u32_rewrites [OF assms] by (auto intro: rewrites_evolves dest: rewrites_code)

lemma write_op_u32:
  assumes "code_set s p (op_byte opcode) = Some s1" "code_put_u32 s1 (p + 1) w = Some s2"
  shows "evolves s s2"
    "code_ok s \<Longrightarrow> \<not> code_error s2 \<Longrightarrow> code s = pre @ g @ r \<Longrightarrow> length pre = p \<Longrightarrow> length g = 5
       \<Longrightarrow> code s2 = pre @ (op_byte opcode # bytes_u32 w) @ r"
proof -
  note a = code_set_at [OF assms(1)] and b = code_put_u32_at [OF assms(2)]
  show "evolves s s2" using a(1) b(1) by (rule evolves_trans)
  assume h: "code_ok s" "\<not> code_error s2" "code s = pre @ g @ r" "length pre = p" "length g = 5"
  obtain x g' where g: "g = x # g'" "length g' = 4" using h(5) by (cases g) auto
  have e: "\<not> code_error s1" "code_ok s1" using evolvesD [OF a(1)] evolvesD [OF b(1)] h by auto
  have "code s1 = pre @ op_byte opcode # g' @ r"
    using a(2) [OF h(1) e(1)] h g by simp
  then show "code s2 = pre @ (op_byte opcode # bytes_u32 w) @ r"
    using b(2) [OF e(2) h(2), of "pre @ [op_byte opcode]" g' r] h g by simp
qed

lemma code_from_at: "code_from s start = Some f \<Longrightarrow> code_ok s \<Longrightarrow> code s = pre @ g \<Longrightarrow> length pre = start \<Longrightarrow> f = g"
proof -
  assume h: "code_from s start = Some f" "code_ok s" "code s = pre @ g" "length pre = start"
  then have "f = take (code_size s - start) (drop start (block (db_buf (ps_byte_code s))))"
    by (auto simp: code_from_def rd_block_def split: if_splits)
  also have "\<dots> = drop start (code s)" by (simp add: dbuf_bytes_def drop_take)
  finally show "f = g" using h by simp
qed

text \<open>Operands as relative jumps.\<close>

lemma jmp_forward: "op_byte opcode # bytes_u32 (word_of_nat n) = jmp opcode (int n)"
  by (simp add: jmp_def)

lemma jmp_backward: "op_byte opcode # bytes_u32 (word_of_nat a - word_of_nat (a + n)) = jmp opcode (- int n)"
  by (simp add: jmp_def)

lemma jmp_any: "\<exists>n. op_byte opcode # bytes_u32 w = jmp opcode n"
  by (intro exI [of _ "uint w"]) (simp add: jmp_def)

section \<open>Quantifiers\<close>

text \<open>The fragment from \<open>start\<close> to the end of the code is replaced by another one.\<close>

definition sticky :: "'o re_parse_state \<Rightarrow> 'o re_parse_state \<Rightarrow> bool" where
  "sticky s s' \<longleftrightarrow> ps_capture_count s' = ps_capture_count s \<and> (code_error s \<longrightarrow> code_error s')"

lemma sticky_trans: "sticky s s1 \<Longrightarrow> sticky s1 s2 \<Longrightarrow> sticky s s2"
  by (auto simp: sticky_def)

lemma evolves_sticky: "evolves s s' \<Longrightarrow> sticky s s'"
  by (auto simp: sticky_def evolves_def rewrites_to_def)

lemma stickyD: "sticky s s' \<Longrightarrow> \<not> code_error s' \<Longrightarrow> \<not> code_error s"
  by (auto simp: sticky_def)

definition replaces :: "'o re_parse_state \<Rightarrow> 'o re_parse_state \<Rightarrow> nat \<Rightarrow> bool" where
  "replaces s s' start \<longleftrightarrow> sticky s s' \<and>
     (\<forall>pre f m. code_ok s \<longrightarrow> captures_ok s \<longrightarrow> \<not> code_error s' \<longrightarrow> code s = pre @ f \<longrightarrow> length pre = start \<longrightarrow>
        frag (ps_capture_count s) m f \<longrightarrow>
        code_ok s' \<and> (\<exists>n g. code s' = pre @ g \<and> frag (ps_capture_count s) n g))"

lemma replacesI:
  assumes "sticky s s'"
    and "\<And>pre f m. code_ok s \<Longrightarrow> captures_ok s \<Longrightarrow> \<not> code_error s' \<Longrightarrow> code s = pre @ f \<Longrightarrow> length pre = start \<Longrightarrow>
        frag (ps_capture_count s) m f \<Longrightarrow>
        code_ok s' \<and> (\<exists>n g. code s' = pre @ g \<and> frag (ps_capture_count s) n g)"
  shows "replaces s s' start"
  using assms by (simp add: replaces_def)

context byte_reallocator
begin

lemma code_insert_at:
  assumes "code_insert ra s pos len = Some (0, s')" "len \<le> PTRDIFF_MAX"
  shows "evolves s s'"
    "code_ok s \<Longrightarrow> \<not> code_error s' \<Longrightarrow> code s = pre @ r \<Longrightarrow> length pre = pos
       \<Longrightarrow> \<exists>g. length g = len \<and> code s' = pre @ g @ r"
proof -
  let ?d = "(ps_byte_code s)\<lparr>db_opaque := ps_opaque s\<rparr>"
  obtain d where d: "dbuf_insert ra ?d pos len = Some (0, d)"
    and s': "s' = s\<lparr>ps_byte_code := d, ps_opaque := db_opaque d\<rparr>"
    using assms(1) by (auto simp: code_insert_def with_code_def elim!: bind_SomeE)
  have spec: "dbuf_ok d" "\<exists>g. length g = len \<and> dbuf_bytes d = take pos (code s) @ g @ drop pos (code s)"
    if ok: "code_ok s"
  proof -
    have okd: "dbuf_ok ?d" using ok by (simp add: dbuf_ok_def)
    have "pos \<le> db_size ?d"
      using d dbuf_realloc_spec [OF okd, of "szt (db_size ?d + len)"]
      by (auto simp: dbuf_insert_def split: if_splits elim!: bind_SomeE)
    from dbuf_insert_spec [OF okd this assms(2)] d
    show "dbuf_ok d" "\<exists>g. length g = len \<and> dbuf_bytes d = take pos (code s) @ g @ drop pos (code s)"
      by (auto simp: dbuf_outcome_def dbuf_bytes_def)
  qed
  show "evolves s s'"
    using spec(1) dbuf_insert_sticky [OF d] by (auto simp: s' evolves_def rewrites_to_def)
  assume "code_ok s" "\<not> code_error s'" "code s = pre @ r" "length pre = pos"
  then show "\<exists>g. length g = len \<and> code s' = pre @ g @ r"
    using spec(2) by (auto simp: s')
qed

lemma dbuf_put_self_at:
  assumes "with_code (\<lambda>d. dbuf_put_self ra d start len) s = Some (r, s')"
  shows "sticky s s'"
    "code_ok s \<Longrightarrow> \<not> code_error s' \<Longrightarrow> code s = pre @ f @ q \<Longrightarrow> length pre = start \<Longrightarrow> length f = len
       \<Longrightarrow> code_ok s' \<and> code s' = code s @ f"
proof -
  let ?d = "(ps_byte_code s)\<lparr>db_opaque := ps_opaque s\<rparr>"
  obtain d where d: "dbuf_put_self ra ?d start len = Some (r, d)"
    and s': "s' = s\<lparr>ps_byte_code := d, ps_opaque := db_opaque d\<rparr>"
    using assms(1) by (auto simp: with_code_def elim!: bind_SomeE)
  show "sticky s s'" using dbuf_put_self_sticky [OF d] by (auto simp: s' sticky_def)
  assume h: "code_ok s" "\<not> code_error s'" "code s = pre @ f @ q" "length pre = start" "length f = len"
  have okd: "dbuf_ok ?d" using h(1) by (simp add: dbuf_ok_def)
  have "start + len \<le> db_size ?d" using code_length [OF h(1)] h(3-5) by simp
  from dbuf_put_self_spec [OF okd this] d h
  show "code_ok s' \<and> code s' = code s @ f"
    by (auto simp: s' dbuf_outcome_def dbuf_bytes_def)
qed

lemma emit_simple_quant_replaces:
  assumes "emit_simple_quant ra s start quant_min quant_max len = Some (0, s')"
    and simple: "\<And>pre f m. code_ok s \<Longrightarrow> code s = pre @ f \<Longrightarrow> length pre = start \<Longrightarrow>
      simple_quantifier_loop f 0 0 = Some len \<and> 0 < len"
  shows "replaces s s' start"
proof -
  obtain s1 s2 s3 s4 s5 s6 where e: "re_emit_op ra s REOP_match = Some s1" "code_insert ra s1 start 17 = Some (0, s2)"
    "code_set s2 start (op_byte REOP_simple_greedy_quant) = Some s3"
    "code_put_u32 s3 (start + 1) (word_of_nat (code_size s3) - word_of_nat start - 17) = Some s4"
    "code_put_u32 s4 (start + 5) (word_of_int quant_min) = Some s5"
    "code_put_u32 s5 (start + 9) (word_of_int quant_max) = Some s6"
    "code_put_u32 s6 (start + 13) (word_of_int len) = Some s'"
    using assms(1) by (auto simp: emit_simple_quant_def quant_oom_def split: if_splits elim!: bind_SomeE)
      (metis fst_conv re_parse_error_code(2) zero_neq_neg_one)+
  have le: "17 \<le> PTRDIFF_MAX" by (simp add: PTRDIFF_MAX_def)
  note a1 = re_emit_op_appends [OF e(1)] and a2 = code_insert_at [OF e(2) le] and a3 = code_set_at [OF e(3)]
    and a4 = write_op_u32 [OF e(3,4)]
    and a5 = code_put_u32_at [OF e(5)] and a6 = code_put_u32_at [OF e(6)] and a7 = code_put_u32_at [OF e(7)]
  note ev = appends_evolves [OF a1] a2(1) a4(1) a5(1) a6(1) a7(1)
  have "evolves s s'" using ev by (meson evolves_trans)
  then have st: "sticky s s'" by (rule evolves_sticky)
  have "code_ok s' \<and> (\<exists>n g. code s' = pre @ g \<and> frag (ps_capture_count s) n g)"
    if h: "code_ok s" "captures_ok s" "\<not> code_error s'" "code s = pre @ f" "length pre = start"
      "frag (ps_capture_count s) m f" for pre f m
  proof -
    have n6: "\<not> code_error s6" using evolvesD(4) [OF ev(6)] h(3) by blast
    have n5: "\<not> code_error s5" using evolvesD(4) [OF ev(5) n6] .
    have n4: "\<not> code_error s4" using evolvesD(4) [OF ev(4) n5] .
    have n2: "\<not> code_error s2" using evolvesD(4) [OF ev(3) n4] .
    have n1: "\<not> code_error s1" using evolvesD(4) [OF ev(2) n2] .
    have n3: "\<not> code_error s3"
      using evolvesD(4) [OF code_put_u32_at(1) [OF e(4)] n4] .
    have o1: "code_ok s1" using evolvesD(3) [OF ev(1) h(1) n1] .
    have o2: "code_ok s2" using evolvesD(3) [OF ev(2) o1 n2] .
    have o3: "code_ok s3" using evolvesD(3) [OF a3(1) o2 n3] .
    have o4: "code_ok s4" using evolvesD(3) [OF ev(3) o2 n4] .
    have o5: "code_ok s5" using evolvesD(3) [OF ev(4) o4 n5] .
    have o6: "code_ok s6" using evolvesD(3) [OF ev(5) o5 n6] .
    have c1: "code s1 = pre @ (f @ [op_byte REOP_match])" using appends_code [OF a1 h(1) n1] h(4) by simp
    obtain g where g: "length g = 17" "code s2 = pre @ g @ f @ [op_byte REOP_match]"
      using a2(2) [OF o1 n2 c1 h(5)] by auto
    define g1 g2 g3 g4 where gs: "g1 = take 5 g" "g2 = take 4 (drop 5 g)" "g3 = take 4 (drop 9 g)" "g4 = drop 13 g"
    have gl: "length g1 = 5" "length g2 = 4" "length g3 = 4" "length g4 = 4" using g(1) by (simp_all add: gs)
    have "g = g1 @ g2 @ g3 @ g4"
      using append_take_drop_id [of 5 g] append_take_drop_id [of 4 "drop 5 g"] append_take_drop_id [of 4 "drop 9 g"]
      by (simp add: gs)
    then have c2: "code s2 = pre @ g1 @ (g2 @ g3 @ g4 @ f @ [op_byte REOP_match])" using g(2) by simp
    have "code_size s3 = start + 17 + length f + 1"
    proof -
      obtain x g1' where "g1 = x # g1'" using gl(1) by (cases g1) auto
      then have "length (code s3) = length (code s2)" using a3(2) [OF o2 n3, of pre x] c2 h(5) by simp
      then show ?thesis using code_length [OF o3] g h(5) by simp
    qed
    then have w: "word_of_nat (code_size s3) - word_of_nat start - 17 = (word_of_nat (length f + 1) :: u32)" by simp
    have c4: "code s4 = pre @ (op_byte REOP_simple_greedy_quant # bytes_u32 (word_of_nat (length f + 1))) @
        (g2 @ g3 @ g4 @ f @ [op_byte REOP_match])"
      using a4(2) [OF o2 n4 c2 h(5) gl(1)] unfolding w .
    let ?p = "pre @ op_byte REOP_simple_greedy_quant # bytes_u32 (word_of_nat (length f + 1))"
    have c5: "code s5 = ?p @ bytes_u32 (word_of_int quant_min) @ (g3 @ g4 @ f @ [op_byte REOP_match])"
      using a5(2) [OF o4 n5, of ?p g2] c4 h(5) gl by simp
    have c6: "code s6 = (?p @ bytes_u32 (word_of_int quant_min)) @ bytes_u32 (word_of_int quant_max) @
        (g4 @ f @ [op_byte REOP_match])"
      using a6(2) [OF o5 n6, of "?p @ bytes_u32 (word_of_int quant_min)" g3] c5 h(5) gl by simp
    have c7: "code s' = (?p @ bytes_u32 (word_of_int quant_min) @ bytes_u32 (word_of_int quant_max)) @
        bytes_u32 (word_of_int len) @ (f @ [op_byte REOP_match])"
      using a7(2) [OF o6 h(3), of "?p @ bytes_u32 (word_of_int quant_min) @ bytes_u32 (word_of_int quant_max)" g4]
        c6 h(5) gl by simp
    obtain k where k: "len = int k" "0 < k" "simple_quantifier_loop f 0 0 = Some (int k)"
      using simple [OF h(1,4,5)] zero_less_imp_eq_int by blast
    have "frag (ps_capture_count s) m ((op_byte REOP_simple_greedy_quant # bytes_u32 (word_of_nat (length f + 1)) @
        bytes_u32 (word_of_int quant_min) @ bytes_u32 (word_of_int quant_max) @ bytes_u32 (word_of_nat k)) @
        f @ [op_byte REOP_match])"
      by (rule frag.simple [OF h(6) k(3,2)])
    moreover have "code_ok s'" using evolvesD(3) [OF ev(6) o6 h(3)] .
    ultimately show ?thesis using c7 k(1) by (auto simp del: of_nat_add)
  qed
  with st show ?thesis by (rule replacesI)
qed

end

text \<open>The code changes from \<open>c\<close> to \<open>c'\<close>, or the error flag is set.\<close>

definition turns :: "'o re_parse_state \<Rightarrow> 'o re_parse_state \<Rightarrow> u8 list \<Rightarrow> u8 list \<Rightarrow> bool" where
  "turns s s' c c' \<longleftrightarrow> sticky s s' \<and>
     (code_ok s \<longrightarrow> \<not> code_error s' \<longrightarrow> code s = c \<longrightarrow> code_ok s' \<and> code s' = c')"

lemma turns_trans: "turns s s1 a b \<Longrightarrow> turns s1 s2 b c \<Longrightarrow> turns s s2 a c"
  by (auto simp: turns_def sticky_def)

lemma evolves_turns:
  assumes "evolves s s'" "code_ok s \<Longrightarrow> \<not> code_error s' \<Longrightarrow> code s = c \<Longrightarrow> code s' = c'"
  shows "turns s s' c c'"
  using assms by (auto simp: turns_def evolves_sticky dest: evolvesD)

lemma appends_turns: "appends s s' f \<Longrightarrow> turns s s' c (c @ f)"
  by (rule evolves_turns [OF appends_evolves]) (auto dest: appends_code)

lemma replaces_turns:
  assumes "\<And>c. turns s s' c (h c)"
    and "\<And>pre f m. captures_ok s \<Longrightarrow> length pre = start \<Longrightarrow> frag (ps_capture_count s) m f \<Longrightarrow>
       \<exists>n g. turns s s' (pre @ f) (pre @ g) \<and> frag (ps_capture_count s) n g"
  shows "replaces s s' start"
proof (rule replacesI)
  show "sticky s s'" using assms(1) by (auto simp: turns_def)
next
  fix pre f m
  assume "code_ok s" "captures_ok s" "\<not> code_error s'" "code s = pre @ f" "length pre = start"
    "frag (ps_capture_count s) m f"
  with assms(2) show "code_ok s' \<and> (\<exists>n g. code s' = pre @ g \<and> frag (ps_capture_count s) n g)"
    by (fastforce simp: turns_def)
qed

lemma set_turns:
  assumes "code_set s p v = Some s'" "length pre = p"
  shows "turns s s' (pre @ x # r) (pre @ v # r)"
  by (rule evolves_turns [OF code_set_at(1) [OF assms(1)]]) (rule code_set_at(2) [OF assms(1) _ _ _ assms(2)])

lemma write_turns:
  assumes "code_set s p (op_byte opcode) = Some s1" "code_put_u32 s1 (p + 1) w = Some s2" "length pre = p" "length g = 5"
  shows "turns s s2 (pre @ g @ r) (pre @ (op_byte opcode # bytes_u32 w) @ r)"
  by (rule evolves_turns [OF write_op_u32(1) [OF assms(1,2)]]) (rule write_op_u32(2) [OF assms(1,2) _ _ _ assms(3,4)])

lemma put_turns:
  assumes "code_put_u32 s p w = Some s'" "length pre = p" "length g = 4"
  shows "turns s s' (pre @ g @ r) (pre @ bytes_u32 w @ r)"
  by (rule evolves_turns [OF code_put_u32_at(1) [OF assms(1)]]) (rule code_put_u32_at(2) [OF assms(1) _ _ _ assms(2,3)])

context byte_reallocator
begin

lemma emit_op_turns: "re_emit_op ra s opcode = Some s' \<Longrightarrow> turns s s' c (c @ [op_byte opcode])"
  by (rule appends_turns [OF re_emit_op_appends])

lemma emit_op_u32_turns: "re_emit_op_u32 ra s opcode v = Some (pos, s') \<Longrightarrow> turns s s' c (c @ op_byte opcode # bytes_u32 v)"
  by (rule appends_turns [OF re_emit_op_u32_appends(1)])

lemma emit_goto_turns:
  assumes "re_emit_goto ra s opcode (word_of_nat t) = Some (pos, s')" "length c + 5 = t + n"
  shows "turns s s' c (c @ jmp opcode (- int n))"
proof -
  obtain w where w: "appends s s' (op_byte opcode # bytes_u32 w)"
    "code_ok s \<Longrightarrow> \<not> code_error s' \<Longrightarrow> w = word_of_nat t - word_of_nat (code_size s + 5)"
    using re_emit_goto_appends [OF assms(1)] by blast
  show ?thesis
  proof (rule evolves_turns [OF appends_evolves [OF w(1)]])
    assume h: "code_ok s" "\<not> code_error s'" "code s = c"
    then have "code_size s + 5 = t + n" using code_length [OF h(1)] assms(2) by simp
    then show "code s' = c @ jmp opcode (- int n)"
      using appends_code [OF w(1) h(1,2)] w(2) [OF h(1,2)] h(3) jmp_backward [of opcode t n] by simp
  qed
qed

lemma put_self_turns:
  assumes "with_code (\<lambda>d. dbuf_put_self ra d start len) s = Some (r, s')" "length pre = start" "length f = len"
  shows "turns s s' (pre @ f @ q) ((pre @ f @ q) @ f)"
proof -
  have "code_ok s' \<and> code s' = (pre @ f @ q) @ f"
    if "code_ok s" "\<not> code_error s'" "code s = pre @ f @ q"
    using dbuf_put_self_at(2) [OF assms(1) that assms(2,3)] that(3) by simp
  then show ?thesis using dbuf_put_self_at(1) [OF assms(1)] unfolding turns_def by blast
qed

text \<open>A gap that is filled.\<close>

lemma insert_turns:
  assumes "code_insert ra s p n = Some (0, s1)" "n \<le> 17" "length pre = p"
    and "\<And>g. length g = n \<Longrightarrow> turns s1 s2 (pre @ g @ r) c'"
  shows "turns s s2 (pre @ r) c'"
proof -
  have le: "n \<le> PTRDIFF_MAX" using assms(2) by (simp add: PTRDIFF_MAX_def)
  note i = code_insert_at [OF assms(1) le]
  have "sticky s1 s2" using assms(4) [of "replicate n 0"] by (simp add: turns_def)
  with i(1) have st: "sticky s s2" by (blast intro: sticky_trans evolves_sticky)
  have "code_ok s2 \<and> code s2 = c'" if h: "code_ok s" "\<not> code_error s2" "code s = pre @ r"
  proof -
    have n1: "\<not> code_error s1" using \<open>sticky s1 s2\<close> h(2) by (rule stickyD)
    obtain g where "length g = n" "code s1 = pre @ g @ r" using i(2) [OF h(1) n1 h(3) assms(3)] by blast
    with assms(4) evolvesD(3) [OF i(1) h(1) n1] h(2) show ?thesis by (auto simp: turns_def)
  qed
  with st show ?thesis by (simp add: turns_def)
qed

lemma insert5_turns:
  assumes "code_insert ra s p 5 = Some (0, s1)" "code_set s1 p (op_byte opcode) = Some s2"
    "code_put_u32 s2 (p + 1) w = Some s3" "length pre = p"
  shows "turns s s3 (pre @ r) (pre @ (op_byte opcode # bytes_u32 w) @ r)"
  using insert_turns [OF assms(1) _ assms(4) write_turns [OF assms(2-4)]] by simp

lemma insert6_turns:
  assumes "code_insert ra s p 6 = Some (0, s1)" "code_set s1 p (op_byte opcode) = Some s2"
    "code_put_u32 s2 (p + 1) w = Some s3" "code_set s3 (p + 5) v = Some s4" "length pre = p"
  shows "turns s s4 (pre @ r) (pre @ ((op_byte opcode # bytes_u32 w) @ [v]) @ r)"
proof (rule insert_turns [OF assms(1) _ assms(5)])
  fix g :: "u8 list" assume g: "length g = 6"
  define g1 x where "g1 = take 5 g" "x = g ! 5"
  have e: "g = g1 @ [x]" using g take_Suc_conv_app_nth [of 5 g] by (simp add: g1_x_def)
  have "turns s1 s3 (pre @ g1 @ x # r) (pre @ (op_byte opcode # bytes_u32 w) @ x # r)"
    by (rule write_turns [OF assms(2,3,5)]) (use g in \<open>simp add: g1_x_def\<close>)
  moreover have "turns s3 s4 ((pre @ op_byte opcode # bytes_u32 w) @ x # r) ((pre @ op_byte opcode # bytes_u32 w) @ v # r)"
    by (rule set_turns [OF assms(4)]) (use assms(5) in simp)
  ultimately show "turns s1 s4 (pre @ g @ r) (pre @ ((op_byte opcode # bytes_u32 w) @ [v]) @ r)"
    unfolding e using turns_trans by fastforce
qed simp

lemma insert10_turns:
  assumes "code_insert ra s p 10 = Some (0, s1)" "code_set s1 p (op_byte o1) = Some s2"
    "code_put_u32 s2 (p + 1) w1 = Some s3" "code_set s3 (p + 5) (op_byte o2) = Some s4"
    "code_put_u32 s4 (p + 6) w2 = Some s5" "length pre = p"
  shows "turns s s5 (pre @ r) (pre @ ((op_byte o1 # bytes_u32 w1) @ (op_byte o2 # bytes_u32 w2)) @ r)"
proof (rule insert_turns [OF assms(1) _ assms(6)])
  fix g :: "u8 list" assume g: "length g = 10"
  define g1 g2 where "g1 = take 5 g" "g2 = drop 5 g"
  have e: "g = g1 @ g2" by (simp add: g1_g2_def)
  have w: "code_put_u32 s4 (p + 5 + 1) w2 = Some s5" using assms(5) by (simp add: add.commute)
  have "turns s1 s3 (pre @ g1 @ g2 @ r) (pre @ (op_byte o1 # bytes_u32 w1) @ g2 @ r)"
    by (rule write_turns [OF assms(2,3,6)]) (use g in \<open>simp add: g1_g2_def\<close>)
  moreover have "turns s3 s5 ((pre @ op_byte o1 # bytes_u32 w1) @ g2 @ r)
      ((pre @ op_byte o1 # bytes_u32 w1) @ (op_byte o2 # bytes_u32 w2) @ r)"
    by (rule write_turns [OF assms(4) w]) (use assms(6) g in \<open>simp_all add: g1_g2_def\<close>)
  ultimately show "turns s1 s5 (pre @ g @ r) (pre @ ((op_byte o1 # bytes_u32 w1) @ (op_byte o2 # bytes_u32 w2)) @ r)"
    unfolding e using turns_trans by fastforce
qed simp

lemma insert3_turns:
  assumes "code_insert ra s p 3 = Some (0, s1)" "code_set s1 p a = Some s2"
    "code_set s2 (p + 1) b = Some s3" "code_set s3 (p + 2) c = Some s4" "length pre = p"
  shows "turns s s4 (pre @ r) (pre @ [a, b, c] @ r)"
proof (rule insert_turns [OF assms(1) _ assms(5)])
  fix g :: "u8 list" assume "length g = 3"
  then obtain x y z where g: "g = [x, y, z]" by (auto simp: numeral_3_eq_3 length_Suc_conv)
  have t1: "turns s1 s2 (pre @ x # y # z # r) (pre @ a # y # z # r)"
    by (rule set_turns [OF assms(2,5)])
  have t2: "turns s2 s3 (pre @ a # y # z # r) (pre @ a # b # z # r)"
    using set_turns [OF assms(3), of "pre @ [a]" y "z # r"] assms(5) by simp
  have t3: "turns s3 s4 (pre @ a # b # z # r) (pre @ a # b # c # r)"
    using set_turns [OF assms(4), of "pre @ [a, b]" z r] assms(5) by simp
  from turns_trans [OF turns_trans [OF t1 t2] t3]
  show "turns s1 s4 (pre @ g @ r) (pre @ [a, b, c] @ r)" by (simp add: g)
qed simp

end

text \<open>The code of a quantifier around an atom \<open>f\<close>.\<close>

definition reset_code :: "nat \<Rightarrow> nat \<Rightarrow> u8 list" where
  "reset_code lcc cc =
     (if lcc \<noteq> cc then [op_byte REOP_save_reset, word_of_nat lcc, word_of_nat cc - 1] else [])"

definition star_code :: "bool \<Rightarrow> bool \<Rightarrow> u8 list \<Rightarrow> u8 list" where
  "star_code greedy zero_check f =
     (if zero_check then
        (jmp (split_op greedy) (int (length f) + 6) @ [op_byte REOP_push_char_pos]) @ f @
          jmp REOP_bne_char_pos (- int (length f) - 11)
      else jmp (split_op greedy) (int (length f) + 5) @ f @ jmp REOP_goto (- int (length f) - 10))"

definition at_most_code :: "int \<Rightarrow> bool \<Rightarrow> u8 list \<Rightarrow> u8 list" where
  "at_most_code n greedy f =
     (jmp REOP_push_i32 n @ jmp (split_op greedy) (int (length f) + 5)) @ f @
       jmp REOP_loop (- int (length f) - 10) @ [op_byte REOP_drop]"

definition quant_zero_code :: "int \<Rightarrow> bool \<Rightarrow> bool \<Rightarrow> u8 list \<Rightarrow> u8 list" where
  "quant_zero_code quant_max greedy zero_check f =
     (if quant_max = 0 then []
      else if quant_max = 1 then jmp (split_op greedy) (int (length f)) @ f
      else if quant_max = int DIGITS_MAX then star_code greedy zero_check f
      else at_most_code quant_max greedy f)"

definition times_code :: "int \<Rightarrow> u8 list \<Rightarrow> u8 list" where
  "times_code n f =
     (if n = 1 then f
      else jmp REOP_push_i32 n @ f @ jmp REOP_loop (- int (length f) - 5) @ [op_byte REOP_drop])"

definition quant_more_code :: "int \<Rightarrow> int \<Rightarrow> bool \<Rightarrow> bool \<Rightarrow> u8 list \<Rightarrow> u8 list" where
  "quant_more_code quant_min quant_max greedy zero_check f =
     (if quant_min = 1 \<and> quant_max = int DIGITS_MAX \<and> \<not> zero_check
      then f @ jmp (split_op (\<not> greedy)) (- int (length f) - 5)
      else times_code quant_min f @
        (if quant_max = int DIGITS_MAX then star_code greedy zero_check f
         else if quant_max > quant_min then at_most_code (quant_max - quant_min) greedy f
         else []))"

lemma split_op_split [simp]: "split_op greedy \<in> split_ops"
  by (simp add: split_op_def split_ops_def)

lemma reset_code_frag:
  assumes "0 < cc" "cc \<le> CAPTURE_COUNT_MAX"
  shows "frag cc 0 (reset_code lcc cc)"
proof -
  have "(word_of_nat cc - 1 :: u8) = word_of_nat (cc - 1)" using assms(1) by (simp add: of_nat_diff)
  then have "unat (word_of_nat cc - 1 :: u8) = (cc - 1) mod 256" by simp
  then have "unat (word_of_nat cc - 1 :: u8) < cc" using assms by (simp add: CAPTURE_COUNT_MAX_def)
  then show ?thesis by (auto simp: reset_code_def intro: frag.intros)
qed

lemma star_code_frag:
  assumes "frag cc m f"
  shows "\<exists>n. frag cc n (star_code greedy zero_check f)"
proof (cases zero_check)
  case True
  show ?thesis unfolding star_code_def if_P [OF True] by (rule exI) (rule frag.star_check [OF assms split_op_split])
next
  case False
  show ?thesis unfolding star_code_def if_not_P [OF False] by (rule exI) (rule frag.star [OF assms split_op_split])
qed

lemma at_most_code_frag: "frag cc m f \<Longrightarrow> \<exists>k. frag cc k (at_most_code n greedy f)"
  unfolding at_most_code_def by (blast intro: frag.at_most split_op_split)

lemma times_code_frag: "frag cc m f \<Longrightarrow> \<exists>k. frag cc k (times_code n f)"
  unfolding times_code_def by (auto intro: frag.times)

lemma quant_zero_code_frag:
  assumes "frag cc m f"
  shows "\<exists>n. frag cc n (quant_zero_code quant_max greedy zero_check f)"
proof -
  have "\<exists>n. frag cc n ([] :: u8 list)" by (rule exI) (rule frag.nil)
  moreover have "\<exists>n. frag cc n (jmp (split_op greedy) (int (length f)) @ f)"
    by (rule exI) (rule frag.opt [OF assms split_op_split])
  ultimately show ?thesis
    unfolding quant_zero_code_def using star_code_frag [OF assms] at_most_code_frag [OF assms] by presburger
qed

lemma quant_more_code_frag:
  assumes "frag cc m f"
  shows "\<exists>n. frag cc n (quant_more_code quant_min quant_max greedy zero_check f)"
proof -
  have "\<exists>n. frag cc n (f @ jmp (split_op (\<not> greedy)) (- int (length f) - 5))"
    by (rule exI) (rule frag.plus [OF assms split_op_split])
  moreover have "\<exists>n. frag cc n (times_code quant_min f @ g)" if "\<exists>n. frag cc n g" for g
    using times_code_frag [OF assms] that by (blast intro: frag.app)
  moreover have "\<exists>n. frag cc n ([] :: u8 list)" by (rule exI) (rule frag.nil)
  ultimately show ?thesis
    unfolding quant_more_code_def using star_code_frag [OF assms] at_most_code_frag [OF assms] by presburger
qed

lemma split_op_jmp: "op_byte (split_op greedy) # bytes_u32 (word_of_nat n) = jmp (split_op greedy) (int n)"
  by (rule jmp_forward)

lemma jmp_int: "op_byte opcode # bytes_u32 (word_of_int i) = jmp opcode i"
  by (simp add: jmp_def)

context byte_reallocator
begin

lemmas quant_errors = quant_oom_def re_parse_out_of_memory_def re_parse_error_def Let_def

text \<open>\<open>emit_quant_zero\<close> without the reset of the captures.\<close>

lemma quant_zero_turns:
  assumes "emit_quant_zero ra s start len lcc quant_max greedy zero_check = Some (0, s')"
    and "lcc = ps_capture_count s" and "length pre = start" "length f = len"
  shows "turns s s' (pre @ f) (pre @ quant_zero_code quant_max greedy zero_check f)"
proof -
  consider "quant_max = 0" | "quant_max = 1" | "quant_max = int DIGITS_MAX" zero_check
    | "quant_max = int DIGITS_MAX" "\<not> zero_check"
    | "quant_max \<noteq> 0" "quant_max \<noteq> 1" "quant_max \<noteq> int DIGITS_MAX" by blast
  then show ?thesis
  proof cases
    case 1
    then have s': "s' = s\<lparr>ps_byte_code := (ps_byte_code s)\<lparr>db_size := start\<rparr>\<rparr>"
      using assms(1,2) by (simp add: emit_quant_zero_def)
    have "code_ok s' \<and> code s' = pre" if "code_ok s" "code s = pre @ f"
    proof -
      have "start \<le> code_size s" using code_length [OF that(1)] that(2) assms(3) by simp
      moreover have "take start (take (code_size s) (block (db_buf (ps_byte_code s)))) = pre"
        using that(2) assms(3) by (simp add: dbuf_bytes_def)
      ultimately have "take start (block (db_buf (ps_byte_code s))) = pre" by (simp add: min_def)
      with that(1) \<open>start \<le> code_size s\<close> show ?thesis by (simp add: s' dbuf_ok_def dbuf_bytes_def)
    qed
    then show ?thesis using 1 by (simp add: turns_def sticky_def s' quant_zero_code_def)
  next
    case 2
    obtain s1 s2 where e: "code_insert ra s start 5 = Some (0, s1)"
      "code_set s1 start (op_byte (split_op greedy)) = Some s2"
      "code_put_u32 s2 (start + 1) (word_of_nat len) = Some s'"
      using assms(1,2) 2 by (auto simp: emit_quant_zero_def quant_errors split: if_splits elim!: bind_SomeE)
    show ?thesis
      using insert5_turns [OF e assms(3), of f] 2 assms(4) by (simp only: jmp_forward quant_zero_code_def) simp
  next
    case 3
    obtain s1 s2 s3 s4 pos where e: "code_insert ra s start 6 = Some (0, s1)"
      "code_set s1 start (op_byte (split_op greedy)) = Some s2"
      "code_put_u32 s2 (start + 1) (word_of_nat (len + 6)) = Some s3"
      "code_set s3 (start + 5) (op_byte REOP_push_char_pos) = Some s4"
      "re_emit_goto ra s4 REOP_bne_char_pos (word_of_nat start) = Some (pos, s')"
      using assms(1,2) 3 by (auto simp: emit_quant_zero_def DIGITS_MAX_def quant_errors add.commute
          split: if_splits elim!: bind_SomeE)
    have "turns s s4 (pre @ f) (pre @ (jmp (split_op greedy) (int (len + 6)) @ [op_byte REOP_push_char_pos]) @ f)"
      using insert6_turns [OF e(1-4) assms(3)] by (simp only: jmp_forward)
    from turns_trans [OF this emit_goto_turns [OF e(5), of _ "len + 11"]] show ?thesis
      using 3 assms(3,4) by (simp add: quant_zero_code_def DIGITS_MAX_def star_code_def algebra_simps)
  next
    case 4
    obtain s1 s2 s3 pos where e: "code_insert ra s start 5 = Some (0, s1)"
      "code_set s1 start (op_byte (split_op greedy)) = Some s2"
      "code_put_u32 s2 (start + 1) (word_of_nat (len + 5)) = Some s3"
      "re_emit_goto ra s3 REOP_goto (word_of_nat start) = Some (pos, s')"
      using assms(1,2) 4 by (auto simp: emit_quant_zero_def DIGITS_MAX_def quant_errors add.commute
          split: if_splits elim!: bind_SomeE)
    have "turns s s3 (pre @ f) (pre @ jmp (split_op greedy) (int (len + 5)) @ f)"
      using insert5_turns [OF e(1-3) assms(3)] by (simp only: jmp_forward)
    from turns_trans [OF this emit_goto_turns [OF e(4), of _ "len + 10"]] show ?thesis
      using 4 assms(3,4) by (simp add: quant_zero_code_def DIGITS_MAX_def star_code_def algebra_simps)
  next
    case 5
    obtain s1 s2 s3 s4 s5 s6 pos where e: "code_insert ra s start 10 = Some (0, s1)"
      "code_set s1 start (op_byte REOP_push_i32) = Some s2"
      "code_put_u32 s2 (start + 1) (word_of_int quant_max) = Some s3"
      "code_set s3 (start + 5) (op_byte (split_op greedy)) = Some s4"
      "code_put_u32 s4 (start + 6) (word_of_nat (len + 5)) = Some s5"
      "re_emit_goto ra s5 REOP_loop (word_of_nat (start + 5)) = Some (pos, s6)"
      "re_emit_op ra s6 REOP_drop = Some s'"
      using assms(1,2) 5 by (auto simp: emit_quant_zero_def quant_errors add.commute
          split: if_splits elim!: bind_SomeE)
    have t1: "turns s s5 (pre @ f) (pre @ (jmp REOP_push_i32 quant_max @ jmp (split_op greedy) (int (len + 5))) @ f)"
      using insert10_turns [OF e(1-5) assms(3)] by (simp only: jmp_forward jmp_int)
    have t2: "turns s5 s6 (pre @ (jmp REOP_push_i32 quant_max @ jmp (split_op greedy) (int (len + 5))) @ f)
        ((pre @ (jmp REOP_push_i32 quant_max @ jmp (split_op greedy) (int (len + 5))) @ f) @ jmp REOP_loop (- int (len + 10)))"
      by (rule emit_goto_turns [OF e(6)]) (use assms(3,4) in simp)
    from turns_trans [OF turns_trans [OF t1 t2] emit_op_turns [OF e(7)]] show ?thesis
      using 5 assms(4) by (simp add: quant_zero_code_def at_most_code_def algebra_simps)
  qed
qed

lemma emit_quant_zero_turns:
  assumes "emit_quant_zero ra s start len lcc quant_max greedy zero_check = Some (0, s')"
    and "length pre = start" "length f = len"
  shows "turns s s' (pre @ f)
     (pre @ reset_code lcc (ps_capture_count s) @ quant_zero_code quant_max greedy zero_check f)"
proof (cases "lcc = ps_capture_count s")
  case True
  then show ?thesis using quant_zero_turns [OF assms(1) True assms(2,3)] by (simp add: reset_code_def)
next
  case False
  obtain s1 s2 s3 s4 where e: "code_insert ra s start 3 = Some (0, s1)"
    "code_set s1 start (op_byte REOP_save_reset) = Some s2"
    "code_set s2 (start + 1) (word_of_nat lcc) = Some s3"
    "code_set s3 (start + 2) (word_of_nat (ps_capture_count s3) - 1) = Some s4"
    and q: "emit_quant_zero ra s4 (start + 3) len (ps_capture_count s4) quant_max greedy zero_check = Some (0, s')"
    using assms(1) False by (auto simp: emit_quant_zero_def quant_errors split: if_splits elim!: bind_SomeE)
  have cc: "ps_capture_count s3 = ps_capture_count s"
    using evolvesD(1) [OF code_set_at(1) [OF e(2)]] evolvesD(1) [OF code_set_at(1) [OF e(3)]]
      code_insert_at(1) [OF e(1)] evolvesD(1) by (simp add: PTRDIFF_MAX_def)
  have "turns s s4 (pre @ f) (pre @ reset_code lcc (ps_capture_count s) @ f)"
    using insert3_turns [OF e assms(2), of f] False cc by (simp add: reset_code_def)
  moreover have "turns s4 s' ((pre @ reset_code lcc (ps_capture_count s)) @ f)
      ((pre @ reset_code lcc (ps_capture_count s)) @ quant_zero_code quant_max greedy zero_check f)"
    by (rule quant_zero_turns [OF q refl]) (use assms(2,3) False in \<open>auto simp: reset_code_def\<close>)
  ultimately show ?thesis using turns_trans by fastforce
qed

text \<open>The first part of \<open>emit_quant_more\<close>: the atom repeated \<open>quant_min\<close> times, or once.\<close>

lemma times_turns:
  assumes "code_insert ra s start 5 = Some (0, s1)" "code_set s1 start (op_byte REOP_push_i32) = Some s2"
    "code_put_u32 s2 (start + 1) (word_of_int n) = Some s3"
    "re_emit_goto ra s3 REOP_loop (word_of_nat (start + 5)) = Some (pos, s4)" "re_emit_op ra s4 REOP_drop = Some s5"
    "n \<noteq> 1" "length pre = start" "length f = len"
  shows "turns s s5 (pre @ f) (pre @ times_code n f)"
proof -
  have t1: "turns s s3 (pre @ f) (pre @ jmp REOP_push_i32 n @ f)"
    using insert5_turns [OF assms(1-3,7)] by (simp only: jmp_int)
  have t2: "turns s3 s4 (pre @ jmp REOP_push_i32 n @ f) ((pre @ jmp REOP_push_i32 n @ f) @ jmp REOP_loop (- int (len + 5)))"
    by (rule emit_goto_turns [OF assms(4)]) (use assms(7,8) in simp)
  from turns_trans [OF turns_trans [OF t1 t2] emit_op_turns [OF assms(5)]] show ?thesis
    using assms(6,8) by (simp add: times_code_def algebra_simps)
qed

text \<open>The second part, with a copy of the atom that starts at \<open>start\<close>.\<close>

lemma copy_star_turns:
  assumes "re_emit_op_u32 ra s (split_op greedy) (word_of_nat (len + 5 + (if zero_check then 1 else 0))) = Some (pos0, s1)"
    "(if zero_check then re_emit_op ra s1 REOP_push_char_pos else Some s1) = Some s2"
    "with_code (\<lambda>d. dbuf_put_self ra d start len) s2 = Some (r, s3)"
    "re_emit_goto ra s3 (if zero_check then REOP_bne_char_pos else REOP_goto) (word_of_nat (length (pre @ f @ q)))
       = Some (pos1, s4)"
    "length pre = start" "length f = len"
  shows "turns s s4 (pre @ f @ q) ((pre @ f @ q) @ star_code greedy zero_check f)"
proof -
  let ?c = "pre @ f @ q" and ?n = "len + 5 + (if zero_check then 1 else 0)"
  let ?pc = "if zero_check then [op_byte REOP_push_char_pos] else []"
  have t1: "turns s s1 ?c (?c @ jmp (split_op greedy) (int ?n))"
    using emit_op_u32_turns [OF assms(1)] by (simp only: jmp_forward)
  have t2: "turns s1 s2 c (c @ ?pc)" for c
    using assms(2) emit_op_turns by (auto simp: turns_def sticky_def split: if_splits)
  have t3: "turns s2 s3 (pre @ f @ (q @ jmp (split_op greedy) (int ?n) @ ?pc))
      ((pre @ f @ (q @ jmp (split_op greedy) (int ?n) @ ?pc)) @ f)"
    by (rule put_self_turns [OF assms(3,5,6)])
  let ?d = "(pre @ f @ (q @ jmp (split_op greedy) (int ?n) @ ?pc)) @ f"
  have t4: "turns s3 s4 ?d (?d @ jmp (if zero_check then REOP_bne_char_pos else REOP_goto)
      (- int (len + 10 + (if zero_check then 1 else 0))))"
    by (rule emit_goto_turns [OF assms(4)]) (use assms(5,6) in auto)
  have "turns s s2 ?c (pre @ f @ (q @ jmp (split_op greedy) (int ?n) @ ?pc))"
    using turns_trans [OF t1 t2] by simp
  from turns_trans [OF turns_trans [OF this t3] t4] show ?thesis
    using assms(6) by (cases zero_check) (simp_all add: star_code_def algebra_simps)
qed

lemma copy_at_most_turns:
  assumes "re_emit_op_u32 ra s REOP_push_i32 (word_of_int n) = Some (p0, s1)"
    "re_emit_op_u32 ra s1 (split_op greedy) (word_of_nat (len + 5)) = Some (p1, s2)"
    "with_code (\<lambda>d. dbuf_put_self ra d start len) s2 = Some (r, s3)"
    "re_emit_goto ra s3 REOP_loop (word_of_nat (length (pre @ f @ q) + 5)) = Some (p2, s4)"
    "re_emit_op ra s4 REOP_drop = Some s5"
    "length pre = start" "length f = len"
  shows "turns s s5 (pre @ f @ q) ((pre @ f @ q) @ at_most_code n greedy f)"
proof -
  let ?c = "pre @ f @ q"
  have t1: "turns s s1 ?c (?c @ jmp REOP_push_i32 n)"
    using emit_op_u32_turns [OF assms(1)] by (simp only: jmp_int)
  have t2: "turns s1 s2 (?c @ jmp REOP_push_i32 n) ((?c @ jmp REOP_push_i32 n) @ jmp (split_op greedy) (int (len + 5)))"
    using emit_op_u32_turns [OF assms(2)] by (simp only: jmp_forward)
  let ?q = "q @ jmp REOP_push_i32 n @ jmp (split_op greedy) (int (len + 5))"
  have t3: "turns s2 s3 (pre @ f @ ?q) ((pre @ f @ ?q) @ f)"
    by (rule put_self_turns [OF assms(3,6,7)])
  have t4: "turns s3 s4 ((pre @ f @ ?q) @ f) (((pre @ f @ ?q) @ f) @ jmp REOP_loop (- int (len + 10)))"
    by (rule emit_goto_turns [OF assms(4)]) (use assms(6,7) in auto)
  have "turns s s2 ?c (pre @ f @ ?q)" using turns_trans [OF t1 t2] by simp
  from turns_trans [OF turns_trans [OF turns_trans [OF this t3] t4] emit_op_turns [OF assms(5)]] show ?thesis
    using assms(7) by (simp add: at_most_code_def algebra_simps)
qed

end

text \<open>The whole of \<open>emit_quant\<close>.\<close>

lemma turns_if:
  "sticky s s' \<Longrightarrow> (code_ok s \<Longrightarrow> \<not> code_error s' \<Longrightarrow> code s = c \<Longrightarrow> turns s s' c c') \<Longrightarrow> turns s s' c c'"
  by (auto simp: turns_def)

lemma turns_sticky: "turns s s' c c' \<Longrightarrow> sticky s s'"
  by (simp add: turns_def)

lemma appends_sticky: "appends s s' f \<Longrightarrow> sticky s s'"
  by (rule evolves_sticky [OF appends_evolves])

context byte_reallocator
begin

lemma emit_op_sticky: "re_emit_op ra s opcode = Some s' \<Longrightarrow> sticky s s'"
  by (rule appends_sticky [OF re_emit_op_appends])

lemma emit_op_u32_sticky: "re_emit_op_u32 ra s opcode v = Some (pos, s') \<Longrightarrow> sticky s s'"
  by (rule appends_sticky [OF re_emit_op_u32_appends(1)])

lemma emit_goto_sticky: "re_emit_goto ra s opcode v = Some (pos, s') \<Longrightarrow> sticky s s'"
  using re_emit_goto_appends appends_sticky by blast

lemma emit_copy_star_turns:
  assumes e: "re_emit_op_u32 ra s (split_op greedy) (word_of_nat (len + 5 + (if zero_check then 1 else 0))) = Some (pos0, s1)"
    "(if zero_check then re_emit_op ra s1 REOP_push_char_pos else Some s1) = Some s2"
    "with_code (\<lambda>d. dbuf_put_self ra d start len) s2 = Some (r, s3)"
    "re_emit_goto ra s3 (if zero_check then REOP_bne_char_pos else REOP_goto) (word_of_nat (code_size s)) = Some (pos1, s4)"
    and pf: "length pre = start" "length f = len"
  shows "turns s s4 (pre @ f @ q) ((pre @ f @ q) @ star_code greedy zero_check f)"
proof (rule turns_if)
  have "sticky s1 s2"
  proof (cases zero_check)
    case True
    with e(2) show ?thesis by (simp add: emit_op_sticky)
  next
    case False
    with e(2) show ?thesis by (simp add: sticky_def)
  qed
  then show "sticky s s4"
    by (intro sticky_trans [OF emit_op_u32_sticky [OF e(1)]] sticky_trans [OF _ emit_goto_sticky [OF e(4)]]
        sticky_trans [OF _ dbuf_put_self_at(1) [OF e(3)]])
next
  assume h: "code_ok s" "code s = pre @ f @ q"
  then have "code_size s = length (pre @ f @ q)" using code_length [OF h(1)] by simp
  with e(4) show "turns s s4 (pre @ f @ q) ((pre @ f @ q) @ star_code greedy zero_check f)"
    by (intro copy_star_turns [OF e(1-3) _ pf]) simp
qed

lemma emit_copy_at_most_turns:
  assumes e: "re_emit_op_u32 ra s REOP_push_i32 (word_of_int n) = Some (p0, s1)"
    "re_emit_op_u32 ra s1 (split_op greedy) (word_of_nat (len + 5)) = Some (p1, s2)"
    "with_code (\<lambda>d. dbuf_put_self ra d start len) s2 = Some (r, s3)"
    "re_emit_goto ra s3 REOP_loop (word_of_nat (code_size s1)) = Some (p2, s4)"
    "re_emit_op ra s4 REOP_drop = Some s5"
    and pf: "length pre = start" "length f = len"
  shows "turns s s5 (pre @ f @ q) ((pre @ f @ q) @ at_most_code n greedy f)"
proof (rule turns_if)
  have st: "sticky s1 s5"
    by (intro sticky_trans [OF emit_op_u32_sticky [OF e(2)]] sticky_trans [OF _ emit_op_sticky [OF e(5)]]
        sticky_trans [OF _ emit_goto_sticky [OF e(4)]] dbuf_put_self_at(1) [OF e(3)])
  with emit_op_u32_sticky [OF e(1)] show "sticky s s5" by (rule sticky_trans)
  assume h: "code_ok s" "\<not> code_error s5" "code s = pre @ f @ q"
  have "\<not> code_error s1" using st h(2) by (rule stickyD)
  with emit_op_u32_turns [OF e(1), of "pre @ f @ q"] h
  have "code_ok s1" "length (code s1) = length (pre @ f @ q) + 5" by (auto simp: turns_def)
  then have "code_size s1 = length (pre @ f @ q) + 5" using code_length by metis
  with e(4) show "turns s s5 (pre @ f @ q) ((pre @ f @ q) @ at_most_code n greedy f)"
    by (intro copy_at_most_turns [OF e(1-3) _ e(5) pf]) simp
qed

lemma emit_quant_more_turns:
  assumes q: "emit_quant_more ra s start len quant_min quant_max greedy zero_check = Some (0, s')"
    and pf: "length pre = start" "length f = len"
  shows "turns s s' (pre @ f) (pre @ quant_more_code quant_min quant_max greedy zero_check f)"
proof (cases "quant_min = 1 \<and> quant_max = int DIGITS_MAX \<and> \<not> zero_check")
  case True
  then obtain pos where e: "re_emit_goto ra s (split_op (\<not> greedy)) (word_of_nat start) = Some (pos, s')"
    using q by (auto simp: emit_quant_more_def elim!: bind_SomeE)
  show ?thesis
    using emit_goto_turns [OF e, of "pre @ f" "len + 5"] True pf by (simp add: quant_more_code_def algebra_simps)
next
  case other: False
  let ?tail = "if quant_max = int DIGITS_MAX then star_code greedy zero_check f
     else if quant_max > quant_min then at_most_code (quant_max - quant_min) greedy f else []"
  have code: "quant_more_code quant_min quant_max greedy zero_check f = times_code quant_min f @ ?tail"
    using other unfolding quant_more_code_def by presburger
  obtain start1 s1 where s1: "(if quant_min = 1 then Some (0, start, s)
           else do {
             (r, s) \<leftarrow> code_insert ra s start 5;
             if r \<noteq> 0 then Some (r, start, s)
             else do {
               s \<leftarrow> code_set s start (op_byte REOP_push_i32);
               s \<leftarrow> code_put_u32 s (start + 1) (word_of_int quant_min);
               (pos, s) \<leftarrow> re_emit_goto ra s REOP_loop (word_of_nat (start + 5));
               s \<leftarrow> re_emit_op ra s REOP_drop;
               Some (0, start + 5, s)
             }
           }) = Some (0, start1, s1)"
    and tail: "(if quant_max = int DIGITS_MAX then do {
          let z = (if zero_check then 1 else 0);
          let pos = code_size s1;
          (_, s) \<leftarrow> re_emit_op_u32 ra s1 (split_op greedy) (word_of_nat (len + 5 + z));
          s \<leftarrow> (if zero_check then re_emit_op ra s REOP_push_char_pos else Some s);
          (_, s) \<leftarrow> with_code (\<lambda>d. dbuf_put_self ra d start1 len) s;
          (_, s) \<leftarrow> re_emit_goto ra s (if zero_check then REOP_bne_char_pos else REOP_goto)
             (word_of_nat pos);
          Some (0, s)
        }
        else if quant_max > quant_min then do {
          (_, s) \<leftarrow> re_emit_op_u32 ra s1 REOP_push_i32 (word_of_int (quant_max - quant_min));
          let pos = code_size s;
          (_, s) \<leftarrow> re_emit_op_u32 ra s (split_op greedy) (word_of_nat (len + 5));
          (_, s) \<leftarrow> with_code (\<lambda>d. dbuf_put_self ra d start1 len) s;
          (_, s) \<leftarrow> re_emit_goto ra s REOP_loop (word_of_nat pos);
          s \<leftarrow> re_emit_op ra s REOP_drop;
          Some (0, s)
        }
        else Some (0 :: int, s1)) = Some (0, s')"
    using q other unfolding emit_quant_more_def if_not_P [OF other]
    by (elim bind_SomeE) (auto simp: quant_errors split: if_splits prod.splits)
  obtain pre1 q1 where p1: "length pre1 = start1" "pre @ times_code quant_min f = pre1 @ f @ q1"
    and t1: "turns s s1 (pre @ f) (pre1 @ f @ q1)"
  proof (cases "quant_min = 1")
    case True
    then have "s1 = s" "start1 = start" using s1 by auto
    with that [of pre "[]"] pf True show ?thesis by (simp add: times_code_def turns_def sticky_def)
  next
    case False
    then obtain t1 t2 t3 t4 pos where e: "code_insert ra s start 5 = Some (0, t1)"
      "code_set t1 start (op_byte REOP_push_i32) = Some t2" "code_put_u32 t2 (start + 1) (word_of_int quant_min) = Some t3"
      "re_emit_goto ra t3 REOP_loop (word_of_nat (start + 5)) = Some (pos, t4)" "re_emit_op ra t4 REOP_drop = Some s1"
      "start1 = start + 5"
      using s1 by (auto split: if_splits elim!: bind_SomeE)
    show ?thesis
    proof (rule that)
      show "length (pre @ jmp REOP_push_i32 quant_min) = start1" using e(6) pf by simp
      show eq: "pre @ times_code quant_min f = (pre @ jmp REOP_push_i32 quant_min) @ f @
          (jmp REOP_loop (- int (length f) - 5) @ [op_byte REOP_drop])" using False by (simp add: times_code_def)
      show "turns s s1 (pre @ f) ((pre @ jmp REOP_push_i32 quant_min) @ f @
          (jmp REOP_loop (- int (length f) - 5) @ [op_byte REOP_drop]))"
        using times_turns [OF e(1-5) False pf] unfolding eq .
    qed
  qed
  have t2: "turns s1 s' (pre1 @ f @ q1) ((pre1 @ f @ q1) @ ?tail)"
  proof -
    consider "quant_max = int DIGITS_MAX" | "quant_max \<noteq> int DIGITS_MAX" "quant_max > quant_min"
      | "quant_max \<noteq> int DIGITS_MAX" "\<not> quant_max > quant_min" by blast
    then show ?thesis
    proof cases
      case 1
      with tail obtain p0 u1 u2 r u3 p2 where e:
        "re_emit_op_u32 ra s1 (split_op greedy) (word_of_nat (len + 5 + (if zero_check then 1 else 0))) = Some (p0, u1)"
        "(if zero_check then re_emit_op ra u1 REOP_push_char_pos else Some u1) = Some u2"
        "with_code (\<lambda>d. dbuf_put_self ra d start1 len) u2 = Some (r, u3)"
        "re_emit_goto ra u3 (if zero_check then REOP_bne_char_pos else REOP_goto) (word_of_nat (code_size s1)) = Some (p2, s')"
        by (simp add: Let_def del: of_nat_add split: prod.splits) (elim bind_SomeE; auto simp del: of_nat_add elim!: bind_SomeE)
      show ?thesis using emit_copy_star_turns [OF e p1(1) pf(2), of q1] 1 by simp
    next
      case 2
      with tail obtain p0 u1 p1 u2 r u3 p2 u4 where e:
        "re_emit_op_u32 ra s1 REOP_push_i32 (word_of_int (quant_max - quant_min)) = Some (p0, u1)"
        "re_emit_op_u32 ra u1 (split_op greedy) (word_of_nat (len + 5)) = Some (p1, u2)"
        "with_code (\<lambda>d. dbuf_put_self ra d start1 len) u2 = Some (r, u3)"
        "re_emit_goto ra u3 REOP_loop (word_of_nat (code_size u1)) = Some (p2, u4)"
        "re_emit_op ra u4 REOP_drop = Some s'"
        by (simp add: Let_def) (elim bind_SomeE; auto elim!: bind_SomeE)
      show ?thesis using emit_copy_at_most_turns [OF e p1(1) pf(2), of q1] 2 by simp
    next
      case 3
      with tail show ?thesis by (simp add: turns_def sticky_def)
    qed
  qed
  have "turns s s' (pre @ f) ((pre @ times_code quant_min f) @ ?tail)"
    using turns_trans [OF t1 t2] unfolding p1(2) .
  then show ?thesis unfolding code by simp
qed

lemma emit_quant_turns_replaces:
  assumes t: "\<And>pre f. length pre = start \<Longrightarrow> length f = code_size s - start \<Longrightarrow> turns s s' (pre @ f) (pre @ h f)"
    and fr: "\<And>f m. captures_ok s \<Longrightarrow> frag (ps_capture_count s) m f \<Longrightarrow> \<exists>n. frag (ps_capture_count s) n (h f)"
  shows "replaces s s' start"
proof (rule replacesI)
  show "sticky s s'"
    by (rule turns_sticky [OF t [of "replicate start 0" "replicate (code_size s - start) 0"]]) simp_all
next
  fix pre f m
  assume a: "code_ok s" "captures_ok s" "\<not> code_error s'" "code s = pre @ f" "length pre = start"
    "frag (ps_capture_count s) m f"
  have "length f = code_size s - start" using code_length [OF a(1)] a(4,5) by simp
  from t [OF a(5) this] a(1,3,4) have "code_ok s'" "code s' = pre @ h f" by (auto simp: turns_def)
  with fr [OF a(2,6)] show "code_ok s' \<and> (\<exists>n g. code s' = pre @ g \<and> frag (ps_capture_count s) n g)" by blast
qed

lemma emit_quant_replaces:
  assumes "emit_quant ra s start lcc quant_min quant_max greedy = Some (0, s')"
  shows "replaces s s' start"
proof -
  obtain simple where simple: "(if greedy \<and> quant_max > 0 \<and> \<not> code_error s then do {
          atom \<leftarrow> code_from s start;
          re_is_simple_quantifier atom
        } else Some 0) = Some simple"
    and rest: "\<not> (greedy \<and> code_error s)" "if simple > 0 then emit_simple_quant ra s start quant_min quant_max simple = Some (0, s')
      else \<exists>zero_check. (if quant_min = 0
          then emit_quant_zero ra s start (code_size s - start) lcc quant_max greedy zero_check
          else emit_quant_more ra s start (code_size s - start) quant_min quant_max greedy zero_check) = Some (0, s')"
    using assms by (auto simp: emit_quant_def Let_def quant_oom_def prod_eq_iff split: if_splits elim!: bind_SomeE) blast+
  show ?thesis
  proof (cases "simple > 0")
    case True
    then have "emit_simple_quant ra s start quant_min quant_max simple = Some (0, s')" using rest(2) by simp
    moreover obtain atom where "code_from s start = Some atom" "simple_quantifier_loop atom 0 0 = Some simple"
      using simple True by (auto simp: re_is_simple_quantifier_def split: if_splits elim!: bind_SomeE)
    ultimately show ?thesis
      using True code_from_at by (intro emit_simple_quant_replaces) blast+
  next
    case False
    then obtain zc where zc: "(if quant_min = 0
          then emit_quant_zero ra s start (code_size s - start) lcc quant_max greedy zc
          else emit_quant_more ra s start (code_size s - start) quant_min quant_max greedy zc) = Some (0, s')"
      using rest(2) by auto
    show ?thesis
    proof (cases "quant_min = 0")
      case True
      with zc have e: "emit_quant_zero ra s start (code_size s - start) lcc quant_max greedy zc = Some (0, s')" by simp
      show ?thesis
      proof (rule emit_quant_turns_replaces [OF emit_quant_zero_turns [OF e]])
        fix f m assume "captures_ok s" "frag (ps_capture_count s) m f"
        then obtain n where "frag (ps_capture_count s) n (quant_zero_code quant_max greedy zc f)"
          using quant_zero_code_frag by blast
        moreover have "frag (ps_capture_count s) 0 (reset_code lcc (ps_capture_count s))"
          using \<open>captures_ok s\<close> by (intro reset_code_frag) (auto simp: captures_ok_def)
        ultimately show "\<exists>n. frag (ps_capture_count s) n (reset_code lcc (ps_capture_count s) @ quant_zero_code quant_max greedy zc f)"
          by (blast intro: frag.app)
      qed
    next
      case False
      with zc have e: "emit_quant_more ra s start (code_size s - start) quant_min quant_max greedy zc = Some (0, s')" by simp
      show ?thesis
        by (rule emit_quant_turns_replaces [OF emit_quant_more_turns [OF e]]) (simp_all add: quant_more_code_frag)
    qed
  qed
qed

end

end
