(* ===== verification/Re_Parse_Safe.thy ===== *)
theory Re_Parse_Safe
  imports Re_Compile_Safe
begin

text \<open>
  The parse functions keep the contract \<open>parsed\<close> of \<open>Re_Compile_Safe\<close>: a successful call appends a
  fragment to the byte code. By induction on the nesting depth it holds for
  \<open>re_parse_disjunction\<close>, and with the header that \<open>lre_compile\<close> completes, for the whole program: what
  \<open>lre_compile\<close> returns may be run by \<open>lre_exec\<close>.
\<close>

section \<open>Functions that do not touch the code\<close>

lemmas parse_errors = re_parse_error_def re_parse_out_of_memory_def Let_def

lemma re_parse_error_keeps: "re_parse_error s msg = (r, s') \<Longrightarrow> keeps s s'"
  using keeps_error(1) [of s msg] by simp

lemma keeps_opaque [simp]: "keeps s (s'\<lparr>ps_opaque := st\<rparr>) \<longleftrightarrow> keeps s s'" "keeps (s\<lparr>ps_opaque := st\<rparr>) s' \<longleftrightarrow> keeps s s'"
  "keeps s (s'\<lparr>ps_group_names := d\<rparr>) \<longleftrightarrow> keeps s s'"
  by (simp_all add: keeps_def)

lemma re_parse_expect_keeps: "re_parse_expect s p c = Some (r, q, s') \<Longrightarrow> keeps s s'"
  by (auto simp: re_parse_expect_def parse_errors split: if_splits elim!: bind_SomeE)

lemma parse_quant_keeps: "parse_quant s p = Some (Quant qmin qmax q s') \<Longrightarrow> keeps s s'"
  by (auto simp: parse_quant_def Let_def split: if_splits prod.splits option.splits
      elim!: bind_SomeE dest!: re_parse_expect_keeps)

lemma re_count_captures_keeps: "re_count_captures s = Some (n, s') \<Longrightarrow> keeps s s'"
  by (auto simp: re_count_captures_def split: if_splits elim!: bind_SomeE)

lemma re_has_named_captures_keeps: "re_has_named_captures s = Some (b, s') \<Longrightarrow> keeps s s'"
  by (auto simp: re_has_named_captures_def split: if_splits elim!: bind_SomeE dest: re_count_captures_keeps)

lemma put_tmp_buf_keeps [simp]: "keeps s (put_tmp_buf q s)"
  by (simp add: put_tmp_buf_def)

lemma with_names_keeps: "with_names f s = Some (r, s') \<Longrightarrow> keeps s s'"
  by (auto simp: with_names_def elim!: bind_SomeE)

lemma property_range_keeps: "property_range rp s name val = Some (r, cr, s') \<Longrightarrow> keeps s s'"
proof -
  assume e: "property_range rp s name val = Some (r, cr, s')"
  define A where "A \<longleftrightarrow> name = ''Script'' \<or> name = ''sc'' \<or> name = ''Script_Extensions'' \<or> name = ''scx''"
  define B where "B \<longleftrightarrow> name = ''General_Category'' \<or> name = ''gc''"
  show ?thesis
    using e unfolding property_range_def Let_def A_def [symmetric] B_def [symmetric]
    by (auto split: if_split_asm prod.splits elim!: bind_SomeE dest!: re_parse_error_keeps)
qed

lemma parse_unicode_property_keeps: "parse_unicode_property rp s p is_inv = Some (r, cr, q, s') \<Longrightarrow> keeps s s'"
  unfolding parse_unicode_property_def Let_def
  by (auto split: if_split_asm prod.splits option.splits elim!: bind_SomeE
      dest!: re_parse_error_keeps property_range_keeps)

lemma atom_keeps:
  "atom_error s p msg = Some (c, cr, q, s') \<Longrightarrow> keeps s s'"
  "atom_normal_char s p b = Some (c, cr, q, s') \<Longrightarrow> keeps s s'"
  "atom_class_range rp s p n = Some (c, cr, q, s') \<Longrightarrow> keeps s s'"
  "atom_escape s p b = Some (c, cr, q, s') \<Longrightarrow> keeps s s'"
  unfolding atom_error_def atom_normal_char_def atom_class_range_def atom_escape_def Let_def
  by (auto split: if_split_asm prod.splits elim!: bind_SomeE dest!: re_parse_error_keeps)

lemma get_class_atom_keeps: "get_class_atom rp s p inclass = Some (c, cr, q, s') \<Longrightarrow> keeps s s'"
  unfolding get_class_atom_def Let_def
  by (auto split: if_split_asm prod.splits elim!: bind_SomeE dest!: atom_keeps parse_unicode_property_keeps)

lemma class_add_atom_keeps: "class_add_atom rp cr c cr1 s = Some (r, cr', s') \<Longrightarrow> keeps s s'"
  by (auto simp: class_add_atom_def split: if_splits prod.splits elim!: bind_SomeE)

fun class_state :: "'o class_result \<Rightarrow> 'o re_parse_state" where
  "class_state (Class_done cr p s) = s"
| "class_state (Class_fail cr s) = s"

lemma class_errors_keeps [simp]:
  "keeps s (class_state (class_memory_error cr t)) \<longleftrightarrow> keeps s t"
  "keeps s (class_state (class_invalid_range cr t)) \<longleftrightarrow> keeps s t"
  by (simp_all add: class_memory_error_def class_invalid_range_def keeps_def parse_errors)

definition class_item_state ::
  "char_range \<times> nat \<times> 'o re_parse_state + 'o class_result \<Rightarrow> 'o re_parse_state" where
  "class_item_state r = (case r of Inl (cr, p, s) \<Rightarrow> s | Inr res \<Rightarrow> class_state res)"

lemma class_item_keeps:
  assumes "class_item rp s cr p = Some r"
  shows "keeps s (class_item_state r)"
  using assms
  by (auto simp: class_item_def class_item_state_def Let_def split: if_split_asm prod.splits
      elim!: bind_SomeE dest!: get_class_atom_keeps class_add_atom_keeps)
    (blast intro: keeps_trans)+

lemma class_loop_keeps: "class_loop fuel rp s cr p = Some r \<Longrightarrow> keeps s (class_state r)"
proof (induction fuel arbitrary: s cr p)
  case (Suc fuel)
  then show ?case
    by (auto split: if_split_asm sum.splits elim!: bind_SomeE
        dest!: class_item_keeps Suc.IH simp: class_item_state_def)
      (blast intro: keeps_trans)+
qed simp

section \<open>Character ranges and classes\<close>

lemma parsed_opaque [simp]:
  "parsed s (s'\<lparr>ps_opaque := st\<rparr>) \<longleftrightarrow> parsed s s'" "parsed (s\<lparr>ps_opaque := st\<rparr>) s' \<longleftrightarrow> parsed s s'"
  "parsed (s\<lparr>ps_buf_ptr := p\<rparr>) s' \<longleftrightarrow> parsed s s'"
  by (simp_all add: parsed_def captures_ok_def)

context byte_reallocator
begin

lemma re_emit_pairs16_appends:
  "re_emit_pairs16 ra s pts = Some s' \<Longrightarrow> even (length pts) \<and> (\<exists>a. length a = 2 * length pts \<and> appends s s' a)"
proof (induction pts arbitrary: s rule: induct_list012)
  case 1
  then show ?case by (auto intro: appends_nil)
next
  case (3 x y pts)
  then obtain s1 s2 w where e: "re_emit_u16 ra s x = Some s1" "re_emit_u16 ra s1 w = Some s2"
    "re_emit_pairs16 ra s2 pts = Some s'"
    by (auto simp: Let_def elim!: bind_SomeE)
  obtain a where a: "even (length pts)" "length a = 2 * length pts" "appends s2 s' a"
    using 3(1) [OF e(3)] by blast
  from appends_trans [OF appends_trans [OF re_emit_u16_appends [OF e(1)] re_emit_u16_appends [OF e(2)]] a(3)]
  have "appends s s' ((bytes_u16 (ucast x) @ bytes_u16 (ucast w)) @ a)" .
  then show ?case using a(1,2) by (intro conjI exI [of _ "(bytes_u16 (ucast x) @ bytes_u16 (ucast w)) @ a"]) simp_all
qed simp

lemma re_emit_pairs32_appends:
  "re_emit_pairs32 ra s pts = Some s' \<Longrightarrow> even (length pts) \<and> (\<exists>a. length a = 4 * length pts \<and> appends s s' a)"
proof (induction pts arbitrary: s rule: induct_list012)
  case 1
  then show ?case by (auto intro: appends_nil)
next
  case (3 x y pts)
  then obtain s1 s2 where e: "re_emit_u32 ra s x = Some s1" "re_emit_u32 ra s1 (y - 1) = Some s2"
    "re_emit_pairs32 ra s2 pts = Some s'"
    by (auto elim!: bind_SomeE)
  obtain a where a: "even (length pts)" "length a = 4 * length pts" "appends s2 s' a"
    using 3(1) [OF e(3)] by blast
  from appends_trans [OF appends_trans [OF re_emit_u32_appends [OF e(1)] re_emit_u32_appends [OF e(2)]] a(3)]
  have "appends s s' ((bytes_u32 x @ bytes_u32 (y - 1)) @ a)" .
  then show ?case using a(1,2) by (intro conjI exI [of _ "(bytes_u32 x @ bytes_u32 (y - 1)) @ a"]) simp_all
qed simp

lemma emitted_parsed:
  "re_emit_op ra s opcode = Some s' \<Longrightarrow> opcode \<in> plain_ops \<Longrightarrow> parsed s s'"
  "re_emit_op_u16 ra s REOP_char c = Some s' \<Longrightarrow> parsed s s'"
  "re_emit_op_u32 ra s REOP_char32 c = Some (pos, s') \<Longrightarrow> parsed s s'"
  by (blast intro: appends_parsed re_emit_op_appends frag.plain,
      rule appends_parsed [OF re_emit_op_u16_appends frag.char], assumption, simp,
      rule appends_parsed [OF re_emit_op_u32_appends(1) frag.char32], assumption, simp)

lemma emit_prev_parsed: "emit_prev ra s b = Some s' \<Longrightarrow> parsed s s'"
  by (auto simp: emit_prev_def plain_ops_def intro: emitted_parsed keeps_parsed split: if_splits)

lemma re_emit_range_parsed:
  assumes "re_emit_range ra s cr = Some (0, s')"
  shows "parsed s s'"
proof -
  let ?n = "cr_len cr div 2"
  consider pos where "re_emit_op_u32 ra s REOP_char32 (-1) = Some (pos, s')"
    | pts s1 where "0 < ?n" "?n < 65536" "length pts = cr_len cr"
        "re_emit_op_u16 ra s REOP_range (word_of_nat ?n) = Some s1" "re_emit_pairs16 ra s1 pts = Some s'"
    | pts s1 where "0 < ?n" "?n < 65536" "length pts = cr_len cr"
        "re_emit_op_u16 ra s REOP_range32 (word_of_nat ?n) = Some s1" "re_emit_pairs32 ra s1 pts = Some s'"
    using assms
    by (auto simp: re_emit_range_def Let_def prod_eq_iff not_le split: if_split_asm elim!: bind_SomeE)
      (metis (no_types) rd_block_length less_trans[of _ 65535 65536] zero_less_numeral numeral_less_iff)+
  then show ?thesis
  proof cases
    case 1
    then show ?thesis by (rule emitted_parsed)
  next
    case 2
    obtain a where a: "even (length pts)" "length a = 2 * length pts" "appends s1 s' a"
      using re_emit_pairs16_appends [OF 2(5)] by blast
    have "appends s s' (op_byte REOP_range # bytes_u16 (word_of_nat ?n) @ a)"
      using appends_trans [OF re_emit_op_u16_appends [OF 2(4)] a(3)] 2(2) by (simp add: unsigned_of_nat take_bit_nat_eq_self)
    moreover have "length a = 4 * ?n" using a(1,2) 2(3) by auto
    ultimately show ?thesis by (rule appends_parsed [OF _ frag.range [OF 2(1,2)]])
  next
    case 3
    obtain a where a: "even (length pts)" "length a = 4 * length pts" "appends s1 s' a"
      using re_emit_pairs32_appends [OF 3(5)] by blast
    have "appends s s' (op_byte REOP_range32 # bytes_u16 (word_of_nat ?n) @ a)"
      using appends_trans [OF re_emit_op_u16_appends [OF 3(4)] a(3)] 3(2) by (simp add: unsigned_of_nat take_bit_nat_eq_self)
    moreover have "length a = 8 * ?n" using a(1,2) 3(3) by auto
    ultimately show ?thesis by (rule appends_parsed [OF _ frag.range32 [OF 3(1,2)]])
  qed
qed

lemma class_finish_parsed: "class_finish ra rp s cr is_inv = Some (0, s') \<Longrightarrow> parsed s s'"
  unfolding class_finish_def Let_def
  by (auto split: if_split_asm prod.splits elim!: bind_SomeE dest!: re_emit_range_parsed)

lemma re_parse_char_class_parsed: "re_parse_char_class ra rp s p = Some (0, q, s') \<Longrightarrow> parsed s s'"
  unfolding re_parse_char_class_def Let_def
  by (auto split: if_split_asm prod.splits class_result.splits elim!: bind_SomeE
      simp del: class_loop.simps dest!: class_loop_keeps class_finish_parsed keeps_parsed intro: parsed_trans)

section \<open>Quantified terms\<close>

lemma parsed_replaces:
  assumes "parsed s s1" "replaces s1 s2 (code_size s)"
  shows "parsed s s2"
proof -
  have st: "sticky s1 s2" using assms(2) by (simp add: replaces_def)
  have "code_ok s2 \<and> (\<exists>m f. code s2 = code s @ f \<and> frag (ps_capture_count s2) m f)"
    if h: "code_ok s" "captures_ok s" "\<not> code_error s2"
  proof -
    have "\<not> code_error s1" using st h(3) by (rule stickyD)
    with assms(1) h obtain m f where f: "code_ok s1" "captures_ok s1" "code s1 = code s @ f" "frag (ps_capture_count s1) m f"
      by (auto simp: parsed_def)
    with assms(2) h(3) code_length [OF h(1)] st show ?thesis
      unfolding replaces_def sticky_def by metis
  qed
  with assms(1) st show ?thesis by (auto simp: parsed_def sticky_def captures_ok_def)
qed

lemma re_parse_quantifier_parsed:
  assumes "re_parse_quantifier ra s1 p start lcc = Some (0, s2)" "parsed s s1"
    and "\<And>st. start = Some st \<Longrightarrow> st = code_size s"
  shows "parsed s s2"
proof (cases start)
  case None
  with assms(1,2) show ?thesis
    by (auto simp: re_parse_quantifier_def intro: parsed_trans [OF _ keeps_parsed])
next
  case (Some st)
  obtain q where q: "parse_quant s1 p = Some q"
    and r: "(case q of
             No_quant p \<Rightarrow> Some (0, s1\<lparr>ps_buf_ptr := p\<rparr>)
           | Quant_error s \<Rightarrow> Some (-1, s)
           | Quant quant_min quant_max p s \<Rightarrow> do {
               b \<leftarrow> rd (ps_buf s) p;
               let (greedy, p) = (if b = 63 then (False, p + 1) else (True, p));
               (r, s) \<leftarrow> emit_quant ra s st lcc quant_min quant_max greedy;
               Some (if r \<noteq> 0 then (r, s) else (0, s\<lparr>ps_buf_ptr := p\<rparr>))
             }) = Some (0, s2)"
    using bind_SomeE [OF assms(1) [unfolded re_parse_quantifier_def Some option.case]] by blast
  show ?thesis
  proof (cases q)
    case (No_quant p')
    with r assms(2) show ?thesis by (auto intro: parsed_trans [OF _ keeps_parsed])
  next
    case (Quant_error t)
    with r show ?thesis by simp
  next
    case (Quant qmin qmax p' t)
    with r obtain greedy u p2 where e: "emit_quant ra t st lcc qmin qmax greedy = Some (0, u)" "s2 = u\<lparr>ps_buf_ptr := p2\<rparr>"
      by (auto split: if_split_asm prod.splits elim!: bind_SomeE)
    have "parsed s t" using q Quant assms(2) parse_quant_keeps keeps_parsed parsed_trans by metis
    from parsed_replaces [OF this] emit_quant_replaces [OF e(1)] assms(3) [OF Some]
    have "parsed s u" by simp
    then show ?thesis unfolding e(2) by (rule parsed_trans) (simp add: keeps_parsed)
  qed
qed

section \<open>Terms\<close>

text \<open>An atom that can take a quantifier starts where the term starts.\<close>

definition term_ok :: "'o re_parse_state \<Rightarrow> 'o term_result \<Rightarrow> bool" where
  "term_ok s r \<longleftrightarrow>
     (case r of Term_error s' \<Rightarrow> True
      | Term p start lcc s' \<Rightarrow> parsed s s' \<and> (\<forall>st. start = Some st \<longrightarrow> st = code_size s))"

lemma term_ok_simps [simp]:
  "term_ok s (Term_error s')"
  "term_ok s (Term p start lcc s') \<longleftrightarrow> parsed s s' \<and> (\<forall>st. start = Some st \<longrightarrow> st = code_size s)"
  by (simp_all add: term_ok_def)

lemma term_ok_tmp_buf [simp]: "term_ok (put_tmp_buf q s) r \<longleftrightarrow> term_ok s r" "keeps (put_tmp_buf q s) t \<longleftrightarrow> keeps s t"
  "term_ok (s\<lparr>ps_has_named_captures := h\<rparr>) r \<longleftrightarrow> term_ok s r"
  by (auto simp: term_ok_def parsed_def captures_ok_def put_tmp_buf_def keeps_def split: term_result.splits)

lemma term_error_ok: "term_error s msg = Some r \<Longrightarrow> term_ok t r"
  by (auto simp: term_error_def)

lemma keeps_term_ok: "keeps s s1 \<Longrightarrow> term_ok s1 r \<Longrightarrow> term_ok s r"
  using keeps_parsed [of s s1] parsed_trans [of s s1] by (cases r) (auto simp: keeps_def)

lemma term_normal_char_ok:
  assumes "term_normal_char ra rp s p c cr b = Some r"
  shows "term_ok s r"
  using assms unfolding term_normal_char_def Let_def
  by (auto split: if_split_asm prod.splits elim!: bind_SomeE
      dest!: emit_prev_parsed emitted_parsed(2,3) re_emit_range_parsed)
    (blast intro: parsed_trans)+

lemma term_class_atom_ok: "term_class_atom ra rp s p b = Some r \<Longrightarrow> term_ok s r"
  by (auto simp: term_class_atom_def split: if_split_asm elim!: bind_SomeE
      dest!: get_class_atom_keeps term_normal_char_ok intro: keeps_term_ok)

lemma term_back_reference_ok: "term_back_reference ra s p c b = Some r \<Longrightarrow> term_ok s r"
proof -
  assume e: "term_back_reference ra s p c b = Some r"
  let ?op = "if b then REOP_backward_back_reference else REOP_back_reference"
  obtain s' where s': "re_emit_op_u8 ra s ?op (word_of_int c) = Some s'"
    "r = Term p (Some (code_size s)) (ps_capture_count s) s'"
    using e by (auto simp: term_back_reference_def elim!: bind_SomeE)
  have "parsed s s'"
    by (rule appends_parsed [OF re_emit_op_u8_appends [OF s'(1)] frag.back_ref]) simp
  with s'(2) show ?thesis by simp
qed

lemma term_named_reference_ok: "term_named_reference ra rp s p b = Some r \<Longrightarrow> term_ok s r"
  unfolding term_named_reference_def Let_def
  by (auto split: if_split_asm option.splits prod.splits elim!: bind_SomeE
      dest!: re_has_named_captures_keeps term_class_atom_ok term_back_reference_ok)
    (blast intro: term_error_ok keeps_term_ok)+

end

text \<open>A jump whose target is filled in once the code it jumps over is there.\<close>

lemma patch_jump:
  assumes "code_put_u32 s pos (word_of_nat (code_size s) - word_of_nat (pos + 4)) = Some s'"
  shows "evolves s s'"
    "code_ok s \<Longrightarrow> \<not> code_error s' \<Longrightarrow> code s = pre @ (op_byte opcode # bytes_u32 v) @ r \<Longrightarrow> pos = length pre + 1
       \<Longrightarrow> code s' = pre @ jmp opcode (int (length r)) @ r"
proof -
  show "evolves s s'" by (rule code_put_u32_at(1) [OF assms])
  assume h: "code_ok s" "\<not> code_error s'" "code s = pre @ (op_byte opcode # bytes_u32 v) @ r" "pos = length pre + 1"
  have "code_size s = pos + 4 + length r" using code_length [OF h(1)] h(3,4) by simp
  then have w: "word_of_nat (code_size s) - word_of_nat (pos + 4) = (word_of_nat (length r) :: u32)" by simp
  have "code s' = (pre @ [op_byte opcode]) @ bytes_u32 (word_of_nat (length r)) @ r"
    by (rule code_put_u32_at(2) [OF assms [unfolded w] h(1,2), of _ "bytes_u32 v"]) (use h(3,4) in simp_all)
  then show "code s' = pre @ jmp opcode (int (length r)) @ r" by (simp add: jmp_def)
qed

definition disj_ok :: "'o disj_parser \<Rightarrow> bool" where
  "disj_ok pdisj \<longleftrightarrow> (\<forall>s b s'. pdisj s b = Some (0, s') \<longrightarrow> parsed s s')"

lemma disj_okD: "disj_ok pdisj \<Longrightarrow> pdisj (s\<lparr>ps_buf_ptr := p\<rparr>) b = Some (0, s') \<Longrightarrow> parsed s s'"
  unfolding disj_ok_def using parsed_opaque(3) by blast

lemma parsedD:
  assumes "parsed s s'"
  shows "ps_capture_count s \<le> ps_capture_count s'" "captures_ok s \<Longrightarrow> captures_ok s'"
    "code_error s \<Longrightarrow> code_error s'"
    "code_ok s \<Longrightarrow> captures_ok s \<Longrightarrow> \<not> code_error s' \<Longrightarrow> code_ok s'"
    "code_ok s \<Longrightarrow> captures_ok s \<Longrightarrow> \<not> code_error s' \<Longrightarrow> \<exists>m f. code s' = code s @ f \<and> frag (ps_capture_count s') m f"
  using assms by (auto simp: parsed_def)

lemma parsedI:
  assumes "ps_capture_count s \<le> ps_capture_count s'" "captures_ok s \<Longrightarrow> captures_ok s'"
    "code_error s \<Longrightarrow> code_error s'"
    "code_ok s \<Longrightarrow> captures_ok s \<Longrightarrow> \<not> code_error s' \<Longrightarrow>
       code_ok s' \<and> (\<exists>m f. code s' = code s @ f \<and> frag (ps_capture_count s') m f)"
  shows "parsed s s'"
  using assms by (simp add: parsed_def)

text \<open>The parts \<open>parsed\<close> has in common with \<open>sticky\<close>.\<close>

definition grows :: "'o re_parse_state \<Rightarrow> 'o re_parse_state \<Rightarrow> bool" where
  "grows s s' \<longleftrightarrow> ps_capture_count s \<le> ps_capture_count s' \<and> (captures_ok s \<longrightarrow> captures_ok s') \<and>
     (code_error s \<longrightarrow> code_error s')"

lemma growsD: "grows s s' \<Longrightarrow> \<not> code_error s' \<Longrightarrow> \<not> code_error s" "grows s s' \<Longrightarrow> captures_ok s \<Longrightarrow> captures_ok s'"
  "grows s s' \<Longrightarrow> ps_capture_count s \<le> ps_capture_count s'"
  by (auto simp: grows_def)

lemma grows_trans: "grows s s1 \<Longrightarrow> grows s1 s2 \<Longrightarrow> grows s s2"
  by (auto simp: grows_def)

lemma grows_rules: "parsed s s' \<Longrightarrow> grows s s'" "sticky s s' \<Longrightarrow> grows s s'"
  by (auto simp: grows_def parsed_def sticky_def captures_ok_def)

lemma grows_evolves: "evolves s s' \<Longrightarrow> grows s s'"
  by (rule grows_rules(2) [OF evolves_sticky])

lemma grows_parsedI:
  "grows s s' \<Longrightarrow> (code_ok s \<Longrightarrow> captures_ok s \<Longrightarrow> \<not> code_error s' \<Longrightarrow>
       code_ok s' \<and> (\<exists>m f. code s' = code s @ f \<and> frag (ps_capture_count s') m f)) \<Longrightarrow> parsed s s'"
  by (simp add: grows_def parsed_def)

context byte_reallocator
begin

lemma term_lookahead_ok:
  assumes t: "term_lookahead pdisj ra s p is_neg b = Some r" and d: "disj_ok pdisj"
  shows "term_ok s r"
proof (cases r)
  case (Term q start lcc s5)
  let ?op = "if is_neg then REOP_negative_lookahead else REOP_lookahead"
  obtain pos s1 s2 p2 s3 s4 where e: "re_emit_op_u32 ra s ?op 0 = Some (pos, s1)"
    "pdisj (s1\<lparr>ps_buf_ptr := p\<rparr>) b = Some (0, s2)"
    "re_parse_expect s2 (ps_buf_ptr s2) CHR '')'' = Some (0, p2, s3)"
    "re_emit_op ra s3 REOP_match = Some s4"
    "code_put_u32 s4 pos (word_of_nat (code_size s4) - word_of_nat (pos + 4)) = Some s5"
    and start: "\<And>st. start = Some st \<Longrightarrow> st = code_size s"
    using t Term unfolding term_lookahead_def Let_def
    by (auto simp del: of_nat_add split: if_split_asm prod.splits elim!: bind_SomeE)
  note a1 = re_emit_op_u32_appends [OF e(1)]
  have a2: "parsed s1 s3"
    by (rule parsed_trans [OF disj_okD [OF d e(2)] keeps_parsed [OF re_parse_expect_keeps [OF e(3)]]])
  note a4 = re_emit_op_appends [OF e(4)] and a5 = patch_jump [OF e(5)]
  note g = grows_rules(2) [OF appends_sticky [OF a1(1)]] grows_rules(1) [OF a2]
    grows_rules(2) [OF appends_sticky [OF a4]] grows_evolves [OF a5(1)]
  have "parsed s s5"
  proof (rule grows_parsedI)
    show "grows s s5" using g by (blast intro: grows_trans)
    assume h: "code_ok s" "captures_ok s" "\<not> code_error s5"
    have n: "\<not> code_error s4" using growsD(1) [OF g(4) h(3)] .
    have n3: "\<not> code_error s3" using growsD(1) [OF g(3) n] .
    have n1: "\<not> code_error s1" using growsD(1) [OF g(2) n3] .
    have o1: "code_ok s1" using evolvesD(3) [OF appends_evolves [OF a1(1)] h(1) n1] .
    have c1: "captures_ok s1" using growsD(2) [OF g(1) h(2)] .
    obtain m f where f: "code s3 = code s1 @ f" "frag (ps_capture_count s3) m f"
      using parsedD(5) [OF a2 o1 c1 n3] by blast
    have o3: "code_ok s3" using parsedD(4) [OF a2 o1 c1 n3] .
    have o4: "code_ok s4" using evolvesD(3) [OF appends_evolves [OF a4] o3 n] .
    have "code s4 = code s @ (op_byte ?op # bytes_u32 0) @ f @ [op_byte REOP_match]"
      using appends_code [OF a1(1) h(1) n1] appends_code [OF a4 o3 n] f(1) by simp
    from a5(2) [OF o4 h(3) this] a1(2) [OF h(1) n1] code_length [OF h(1)]
    have "code s5 = code s @ jmp ?op (int (length f) + 1) @ f @ [op_byte REOP_match]" by (simp add: add.commute)
    moreover have "ps_capture_count s5 = ps_capture_count s3"
      using evolvesD(1) [OF a5(1)] evolvesD(1) [OF appends_evolves [OF a4]] by simp
    moreover have "frag (ps_capture_count s3) m (jmp ?op (int (length f) + 1) @ f @ [op_byte REOP_match])"
      by (rule frag.look [OF f(2)]) simp
    ultimately show "code_ok s5 \<and> (\<exists>m f. code s5 = code s @ f \<and> frag (ps_capture_count s5) m f)"
      using evolvesD(3) [OF a5(1) o4 h(3)] by auto
  qed
  with Term start show ?thesis by simp
qed simp

lemma term_capture_ok:
  assumes t: "term_capture pdisj ra s p b = Some r" and d: "disj_ok pdisj"
  shows "term_ok s r"
proof (cases r)
  case (Term q start lcc s4)
  let ?n = "word_of_nat (ps_capture_count s) :: u32"
  let ?s0 = "s\<lparr>ps_capture_count := ps_capture_count s + 1\<rparr>"
  obtain s1 s2 s3 p3 where lt: "ps_capture_count s < CAPTURE_COUNT_MAX" and st: "start = Some (code_size s)"
    and e: "re_emit_op_u8 ra ?s0 (if b then REOP_save_end else REOP_save_start) ?n = Some s1"
    "pdisj (s1\<lparr>ps_buf_ptr := p\<rparr>) b = Some (0, s2)"
    "re_emit_op_u8 ra s2 (if b then REOP_save_start else REOP_save_end) ?n = Some s3"
    "re_parse_expect s3 (ps_buf_ptr s2) CHR '')'' = Some (0, p3, s4)"
    using t Term unfolding term_capture_def Let_def
    by (auto simp: term_error_def not_le split: if_split_asm prod.splits elim!: bind_SomeE)
  have u: "unat (ucast ?n :: u8) = ps_capture_count s"
    using lt by (simp add: unsigned_of_nat take_bit_nat_eq_self CAPTURE_COUNT_MAX_def)
  have p0: "parsed s ?s0"
    using lt by (auto simp: parsed_def captures_ok_def intro: exI [of _ 0] frag.nil)
  have p1: "parsed ?s0 s1"
    by (rule appends_parsed [OF re_emit_op_u8_appends [OF e(1)] frag.save]) (use u in auto)
  have p2: "parsed s1 s2"
    by (rule disj_okD [OF d e(2)])
  have "ps_capture_count s < ps_capture_count s2"
    using parsedD(1) [OF p1] parsedD(1) [OF p2] by simp
  then have p3: "parsed s2 s3"
    by (intro appends_parsed [OF re_emit_op_u8_appends [OF e(3)] frag.save]) (use u in auto)
  have "parsed s s4"
    using p0 p1 p2 p3 keeps_parsed [OF re_parse_expect_keeps [OF e(4)]] by (blast intro: parsed_trans)
  with Term st show ?thesis by simp
qed simp

lemma term_group_ok:
  assumes t: "term_group pdisj ra s p b = Some r" and d: "disj_ok pdisj"
  shows "term_ok s r"
  using t unfolding term_group_def Let_def
  by (auto split: if_split_asm prod.splits option.splits elim!: bind_SomeE
      dest!: with_names_keeps disj_okD [OF d] re_parse_expect_keeps term_lookahead_ok [OF _ d] term_capture_ok [OF _ d])
    (assumption | erule term_error_ok | erule (1) keeps_term_ok | erule parsed_trans, erule keeps_parsed)+

lemma term_backslash_ok: "term_backslash ra rp s p b = Some r \<Longrightarrow> term_ok s r"
  unfolding term_backslash_def Let_def
  by (auto simp: plain_ops_def split: if_split_asm prod.splits elim!: bind_SomeE
      dest!: emitted_parsed(1) re_count_captures_keeps term_named_reference_ok term_normal_char_ok
        term_class_atom_ok term_back_reference_ok)
    (blast intro: term_error_ok keeps_term_ok)+

lemma term_atom_ok:
  assumes t: "term_atom pdisj ra rp s b = Some r" and d: "disj_ok pdisj"
  shows "term_ok s r"
  using t unfolding term_atom_def Let_def
  by (auto simp: plain_ops_def split: if_split_asm prod.splits elim!: bind_SomeE
      dest!: emitted_parsed(1) emit_prev_parsed re_parse_char_class_parsed term_backslash_ok
        term_class_atom_ok term_group_ok [OF _ d])
    (blast intro: term_error_ok parsed_trans)+

lemma re_parse_term_parsed:
  assumes "re_parse_term pdisj ra rp s b = Some (0, s')" "disj_ok pdisj"
  shows "parsed s s'"
proof -
  obtain r where r: "term_atom pdisj ra rp s b = Some r"
    "(case r of Term_error s \<Rightarrow> Some (-1, s)
      | Term p start lcc s \<Rightarrow> re_parse_quantifier ra s p start lcc) = Some (0, s')"
    using assms(1) by (auto simp: re_parse_term_def elim!: bind_SomeE)
  from term_atom_ok [OF r(1) assms(2)] r(2) show ?thesis
    by (cases r) (auto intro: re_parse_quantifier_parsed)
qed

section \<open>Alternatives and disjunctions\<close>

text \<open>In a lookbehind the terms are put in reverse order; \<open>start\<close> is the end of the code of \<open>s0\<close>.\<close>

lemma reverse_bytes:
  assumes "wr_block (c @ f @ g @ r) (length c + length g) (f @ g) = Some b1"
    "rd_block b1 (length c + length f + length g) (length g) = Some d" "wr_block b1 (length c) d = Some b2"
  shows "\<exists>r'. b2 = c @ g @ f @ r' \<and> length b2 = length (c @ f @ g @ r)"
proof -
  have l: "length c + length g + length (f @ g) \<le> length (c @ f @ g @ r)"
    and b1: "b1 = take (length c + length g) (c @ f @ g @ r) @ (f @ g) @
        drop (length c + length g + length (f @ g)) (c @ f @ g @ r)"
    using assms(1) by (simp_all add: wr_block_def split: if_splits)
  define x where "x = take (length g) (f @ g @ r)"
  define y where "y = drop (length c + length g + length (f @ g)) (c @ f @ g @ r)"
  have lx: "length x = length g" by (simp add: x_def)
  have b1': "b1 = c @ x @ f @ g @ y" unfolding b1 y_def by (simp add: x_def)
  have d: "d = g" using assms(2) lx unfolding b1' by (auto simp: rd_block_def split: if_splits)
  have "b2 = c @ g @ f @ g @ y"
    using assms(3) lx unfolding b1' d by (auto simp: wr_block_def split: if_splits)
  then show ?thesis using l lx unfolding y_def by (auto simp: y_def)
qed

lemma reverse_term_parsed:
  assumes "reverse_term ra s1 (code_size s0) (code_size s) = Some (0, s2)" "parsed s0 s" "parsed s s1"
  shows "parsed s0 s2"
proof -
  let ?e = "code_size s1" and ?n = "szt_sub (code_size s1) (code_size s)"
  obtain t d1 b1 d2 b2 where w: "with_code (\<lambda>d. dbuf_realloc ra d (szt (?e + ?n))) s1 = Some (0, t)"
    and m: "rd_block (block (db_buf (ps_byte_code t))) (code_size s0) (?e - code_size s0) = Some d1"
    "wr_block (block (db_buf (ps_byte_code t))) (code_size s0 + ?n) d1 = Some b1"
    "rd_block b1 ?e ?n = Some d2" "wr_block b1 (code_size s0) d2 = Some b2"
    and s2: "s2 = t\<lparr>ps_byte_code := (ps_byte_code t)\<lparr>db_buf := Some b2\<rparr>\<rparr>"
    using assms(1) by (auto simp: reverse_term_def Let_def split: if_split_asm elim!: bind_SomeE)
  obtain d where d: "dbuf_realloc ra ((ps_byte_code s1)\<lparr>db_opaque := ps_opaque s1\<rparr>) (szt (?e + ?n)) = Some (0, d)"
    and t: "t = s1\<lparr>ps_byte_code := d, ps_opaque := db_opaque d\<rparr>"
    using w by (auto simp: with_code_def elim!: bind_SomeE)
  have st: "sticky s1 s2" using dbuf_realloc_sticky [OF d] by (auto simp: sticky_def s2 t)
  show ?thesis
  proof (rule grows_parsedI)
    show "grows s0 s2" using assms(2,3) st by (blast intro: grows_trans grows_rules)
    assume h: "code_ok s0" "captures_ok s0" "\<not> code_error s2"
    have n1: "\<not> code_error s1" using st h(3) by (rule stickyD)
    have n: "\<not> code_error s" using growsD(1) [OF grows_rules(1) [OF assms(3)] n1] .
    obtain m1 f where f: "code s = code s0 @ f" "frag (ps_capture_count s) m1 f" "code_ok s" "captures_ok s"
      using assms(2) h n by (auto simp: parsed_def)
    obtain m2 g where g: "code s1 = code s @ g" "frag (ps_capture_count s1) m2 g" "code_ok s1"
      using assms(3) f n1 by (auto simp: parsed_def)
    let ?d1 = "(ps_byte_code s1)\<lparr>db_opaque := ps_opaque s1\<rparr>"
    have "dbuf_ok ?d1" using g(3) by (simp add: dbuf_ok_def)
    from dbuf_realloc_spec [OF this, of "szt (?e + ?n)"] d
    have dd: "dbuf_ok d" "db_size d = ?e" "dbuf_bytes d = code s1"
      by (auto simp: dbuf_bytes_def)
    define r where "r = drop ?e (block (db_buf d))"
    have lens: "code_size s0 = length (code s0)" "code_size s = length (code s0 @ f)" "?e = length (code s0 @ f @ g)"
      using code_length [OF h(1)] code_length [OF f(3)] code_length [OF g(3)] f(1) g(1) by simp_all
    have blk: "block (db_buf d) = code s0 @ f @ g @ r"
      using append_take_drop_id [of ?e "block (db_buf d)"] dd(2,3) f(1) g(1) unfolding dbuf_bytes_def r_def
      by (metis append.assoc)
    have "code_size s \<le> ?e" "?e \<le> PTRDIFF_MAX" using lens dd(1,2) by (auto simp: dbuf_ok_def)
    then have "?n = ?e - code_size s" by (intro szt_sub_le) (simp_all add: PTRDIFF_MAX_def)
    then have sub: "?n = length g" using lens by simp
    have d1: "d1 = f @ g" using m(1) lens blk by (auto simp: t rd_block_def split: if_splits)
    obtain r' where b2: "b2 = code s0 @ g @ f @ r'" "length b2 = length (block (db_buf d))"
      using reverse_bytes [of "code s0" f g r b1 d2 b2] m(2-4) lens blk sub d1 by (auto simp: t add.assoc)
    have "code s2 = take ?e b2" using dd(2) by (simp add: s2 t dbuf_bytes_def)
    then have "code s2 = code s0 @ g @ f" unfolding b2(1) lens(3) by simp
    moreover have "code_ok s2" using dd(1) b2(2) by (simp add: s2 t dbuf_ok_def)
    moreover have "frag (ps_capture_count s1) (max m2 m1) (g @ f)"
      using parsedD(1) [OF assms(3)] by (intro frag.app g(2) frag_mono [OF f(2)])
    ultimately show "code_ok s2 \<and> (\<exists>m f. code s2 = code s0 @ f \<and> frag (ps_capture_count s2) m f)"
      by (auto simp: s2 t)
  qed
qed

lemma alternative_loop_parsed:
  assumes d: "disj_ok pdisj"
  shows "alternative_loop fuel pdisj ra rp (code_size s0) s b = Some (0, s') \<Longrightarrow> parsed s0 s \<Longrightarrow> parsed s0 s'"
proof (induction fuel arbitrary: s)
  case (Suc fuel)
  consider "s' = s" | s1 where "re_parse_term pdisj ra rp s b = Some (0, s1)"
      "alternative_loop fuel pdisj ra rp (code_size s0) s1 b = Some (0, s')"
    | s1 s2 where "re_parse_term pdisj ra rp s b = Some (0, s1)" "reverse_term ra s1 (code_size s0) (code_size s) = Some (0, s2)"
      "alternative_loop fuel pdisj ra rp (code_size s0) s2 b = Some (0, s')"
    using Suc.prems(1) by (auto simp: Let_def split: if_split_asm elim!: bind_SomeE)
  then show ?case
  proof cases
    case 1
    with Suc.prems(2) show ?thesis by simp
  next
    case 2
    show ?thesis
      by (rule Suc.IH [OF 2(2) parsed_trans [OF Suc.prems(2) re_parse_term_parsed [OF 2(1) d]]])
  next
    case 3
    show ?thesis
      by (rule Suc.IH [OF 3(3) reverse_term_parsed [OF 3(2) Suc.prems(2) re_parse_term_parsed [OF 3(1) d]]])
  qed
qed simp

lemma re_parse_alternative_parsed:
  "re_parse_alternative pdisj ra rp s b = Some (0, s') \<Longrightarrow> disj_ok pdisj \<Longrightarrow> parsed s s'"
  unfolding re_parse_alternative_def
  by (rule alternative_loop_parsed [OF _ _ keeps_parsed [OF keeps_refl]])

lemma disjunction_step_parsed:
  assumes e: "code_insert ra s (code_size s0) 5 = Some (0, s1)" "code_set s1 (code_size s0) (op_byte REOP_split_next_first) = Some s2"
    "code_put_u32 s2 (code_size s0 + 1) (word_of_nat (code_size s - code_size s0 + 5)) = Some s3"
    "re_emit_op_u32 ra s3 REOP_goto 0 = Some (pos, s4)"
    "parsed s4 s5"
    "code_put_u32 s5 pos (word_of_nat (code_size s5) - word_of_nat (pos + 4)) = Some s6"
    and p: "parsed s0 s"
  shows "parsed s0 s6"
proof -
  note a4 = re_emit_op_u32_appends [OF e(4)] and a6 = patch_jump [OF e(6)]
  have t3: "turns s s3 (pre @ f) (pre @ jmp REOP_split_next_first (int (code_size s - code_size s0 + 5)) @ f)"
    if "length pre = code_size s0" for pre f
    using insert5_turns [OF e(1-3) that, of f] by (simp only: jmp_forward)
  have st3: "sticky s s3" by (rule turns_sticky [OF t3 [of "replicate (code_size s0) 0"]]) simp
  note g = grows_rules(1) [OF p] grows_rules(2) [OF st3] grows_rules(2) [OF appends_sticky [OF a4(1)]]
    grows_rules(1) [OF e(5)] grows_evolves [OF a6(1)]
  show ?thesis
  proof (rule grows_parsedI)
    show "grows s0 s6" using g by (blast intro: grows_trans)
    assume h: "code_ok s0" "captures_ok s0" "\<not> code_error s6"
    have n5: "\<not> code_error s5" using growsD(1) [OF g(5) h(3)] .
    have n4: "\<not> code_error s4" using growsD(1) [OF g(4) n5] .
    have n3: "\<not> code_error s3" using growsD(1) [OF g(3) n4] .
    have n: "\<not> code_error s" using growsD(1) [OF g(2) n3] .
    obtain m f where f: "code s = code s0 @ f" "frag (ps_capture_count s) m f" "code_ok s" "captures_ok s"
      using p h n by (auto simp: parsed_def)
    have lens: "code_size s0 = length (code s0)" "code_size s = length (code s0 @ f)"
      using code_length [OF h(1)] code_length [OF f(3)] f(1) by simp_all
    have c3: "code_ok s3" "code s3 = code s0 @ jmp REOP_split_next_first (int (length f) + 5) @ f"
      using t3 [OF lens(1) [symmetric], of f] f n3 lens by (auto simp: turns_def)
    have c4: "code s4 = code s3 @ op_byte REOP_goto # bytes_u32 0" "code_ok s4"
      using appends_code [OF a4(1) c3(1) n4] evolvesD(3) [OF appends_evolves [OF a4(1)] c3(1) n4] by auto
    have "captures_ok s4" using growsD(2) [OF g(3) growsD(2) [OF g(2) f(4)]] .
    then obtain k q where q: "code s5 = code s4 @ q" "frag (ps_capture_count s5) k q" "code_ok s5"
      using e(5) c4(2) n5 by (auto simp: parsed_def)
    let ?pre = "code s0 @ jmp REOP_split_next_first (int (length f) + 5) @ f"
    have "pos = length ?pre + 1" using a4(2) [OF c3(1) n4] code_length [OF c3(1)] c3(2) by simp
    moreover have "code s5 = ?pre @ (op_byte REOP_goto # bytes_u32 0) @ q" using q(1) c4(1) c3(2) by simp
    ultimately have "code s6 = ?pre @ jmp REOP_goto (int (length q)) @ q" using a6(2) [OF q(3) h(3)] by blast
    moreover have "code_ok s6" using evolvesD(3) [OF a6(1) q(3) h(3)] .
    moreover have "ps_capture_count s6 = ps_capture_count s5" using evolvesD(1) [OF a6(1)] .
    moreover have "ps_capture_count s \<le> ps_capture_count s5"
      using growsD(3) [OF grows_trans [OF g(2) grows_trans [OF g(3,4)]]] .
    from frag.alt [OF frag_mono [OF f(2) this] q(2)]
    have "frag (ps_capture_count s5) (max m k) (jmp REOP_split_next_first (int (length f) + 5) @ f @
        jmp REOP_goto (int (length q)) @ q)" by simp
    ultimately show "code_ok s6 \<and> (\<exists>m f. code s6 = code s0 @ f \<and> frag (ps_capture_count s6) m f)" by auto
  qed
qed

lemma disjunction_loop_parsed:
  assumes d: "disj_ok pdisj"
  shows "disjunction_loop fuel pdisj ra rp (code_size s0) s b = Some (0, s') \<Longrightarrow> parsed s0 s \<Longrightarrow> parsed s0 s'"
proof (induction fuel arbitrary: s)
  case (Suc fuel)
  let ?t = "s\<lparr>ps_buf_ptr := ps_buf_ptr s + 1\<rparr>"
  have pt: "parsed s0 ?t" by (rule parsed_trans [OF Suc.prems(2) keeps_parsed [OF keeps_update(3)]])
  consider "s' = s" | s1 s2 s3 pos s4 s5 s6 where "code_insert ra ?t (code_size s0) 5 = Some (0, s1)"
    "code_set s1 (code_size s0) (op_byte REOP_split_next_first) = Some s2"
    "code_put_u32 s2 (code_size s0 + 1) (word_of_nat (code_size ?t - code_size s0 + 5)) = Some s3"
    "re_emit_op_u32 ra s3 REOP_goto 0 = Some (pos, s4)" "re_parse_alternative pdisj ra rp s4 b = Some (0, s5)"
    "code_put_u32 s5 pos (word_of_nat (code_size s5) - word_of_nat (pos + 4)) = Some s6"
    "disjunction_loop fuel pdisj ra rp (code_size s0) s6 b = Some (0, s')"
    using Suc.prems(1) by (auto simp: Let_def prod_eq_iff simp del: of_nat_add split: if_split_asm elim!: bind_SomeE)
  then show ?case
  proof cases
    case 1
    with Suc.prems(2) show ?thesis by simp
  next
    case 2
    show ?thesis
      by (rule Suc.IH [OF 2(7) disjunction_step_parsed [OF 2(1-4) re_parse_alternative_parsed [OF 2(5) d] 2(6) pt]])
  qed
qed simp

lemma re_parse_disjunction_ok: "disj_ok (re_parse_disjunction depth ra rp)"
proof (induction depth)
  case 0
  show ?case by (simp add: disj_ok_def parse_errors)
next
  case (Suc depth)
  show ?case unfolding disj_ok_def
  proof (intro allI impI)
    fix s b s' assume "re_parse_disjunction (Suc depth) ra rp s b = Some (0, s')"
    then obtain s1 where e: "re_parse_alternative (re_parse_disjunction depth ra rp) ra rp s b = Some (0, s1)"
      "disjunction_loop (length (ps_buf s1) + 1) (re_parse_disjunction depth ra rp) ra rp (code_size s) s1 b = Some (0, s')"
      by (auto simp: Let_def simp del: disjunction_loop.simps split: if_split_asm elim!: bind_SomeE)
    show "parsed s s'"
      by (rule disjunction_loop_parsed [OF Suc e(2) re_parse_alternative_parsed [OF e(1) Suc]])
  qed
qed

end

end
