(* ===== verification/Re_Compile.thy ===== *)
theory Re_Compile
  imports Re_Parse_Safe
begin

text \<open>
  The whole compiler: \<open>lre_compile\<close> puts the header and the search loop in front of the pattern's
  code and completes the header at the end. Its result passes \<open>re_code_ok\<close>, so that the executor is
  memory safe on it.
\<close>

section \<open>The header\<close>

lemma code_set_bytes:
  "code_set s pos v = Some s' \<Longrightarrow> code_ok s \<Longrightarrow>
     code_ok s' \<and> code s' = (code s)[pos := v] \<and> ps_capture_count s' = ps_capture_count s"
  by (auto simp: code_set_def wr_def dbuf_ok_def dbuf_bytes_def take_update_swap split: if_splits elim!: bind_SomeE)

context byte_reallocator
begin

text \<open>Appending bytes of any number, whether it fails or not.\<close>

lemma dbuf_put_any:
  assumes "dbuf_put ra d bs = Some (r, d')" "dbuf_ok d"
  shows "dbuf_ok d' \<and> (dbuf_bytes d' = dbuf_bytes d \<or> dbuf_bytes d' = dbuf_bytes d @ bs)"
proof (cases "length bs \<le> PTRDIFF_MAX")
  case True
  with dbuf_put_spec [OF assms(2) True] assms(1) show ?thesis by (auto simp: dbuf_outcome_def)
next
  case False
  obtain r1 d1 where g: "dbuf_grow ra d (length bs) = Some (r1, d1)"
    using assms(1) by (auto simp: dbuf_put_def elim!: bind_SomeE)
  have d1: "dbuf_ok d1" "dbuf_bytes d1 = dbuf_bytes d"
    using g dbuf_realloc_spec [OF assms(2), of "szt (db_size d + length bs)"] assms(2)
    by (auto simp: dbuf_grow_def split: if_splits)
  have "dbuf_memcpy d1 (db_size d1) bs = None"
    using False d1(1) by (cases "db_buf d1") (auto simp: dbuf_memcpy_def wr_block_def dbuf_ok_def)
  with assms(1) g d1 show ?thesis by (auto simp: dbuf_put_def split: if_splits)
qed

lemma with_code_put_any:
  assumes "with_code (\<lambda>d. dbuf_put ra d bs) s = Some (r, s')" "code_ok s"
  shows "code_ok s' \<and> ps_capture_count s' = ps_capture_count s \<and> (code s' = code s \<or> code s' = code s @ bs)"
proof -
  obtain d where d: "dbuf_put ra ((ps_byte_code s)\<lparr>db_opaque := ps_opaque s\<rparr>) bs = Some (r, d)"
    "s' = s\<lparr>ps_byte_code := d, ps_opaque := db_opaque d\<rparr>"
    using assms(1) by (auto simp: with_code_def elim!: bind_SomeE)
  from dbuf_put_any [OF d(1)] assms(2) d(2) show ?thesis by (auto simp: dbuf_ok_def dbuf_bytes_def)
qed

lemma compile_prefix_appends:
  assumes "compile_prefix ra s = Some s'" "0 < cc"
  shows "\<exists>hdr g. appends s s' (hdr @ g) \<and> length hdr = RE_HEADER_LEN \<and> frag cc 0 g"
proof -
  obtain s1 s2 s3 s4 s5 where e: "re_emit_u8 ra s (ps_re_flags s) = Some s1" "re_emit_u8 ra s1 0 = Some s2"
    "re_emit_u8 ra s2 0 = Some s3" "re_emit_u32 ra s3 0 = Some s4"
    "(if \<not> bit (ps_re_flags s4) LRE_FLAG_STICKY then do {
             (_, s) \<leftarrow> re_emit_op_u32 ra s4 REOP_split_goto_first (1 + 5);
             s \<leftarrow> re_emit_op ra s REOP_any;
             (_, s) \<leftarrow> re_emit_op_u32 ra s REOP_goto (- (5 + 1 + 5));
             Some s
           } else Some s4) = Some s5"
    "re_emit_op_u8 ra s5 REOP_save_start 0 = Some s'"
    using assms(1) unfolding compile_prefix_def by (elim bind_SomeE) blast
  let ?h = "[ucast (ps_re_flags s), ucast (0 :: u32), ucast (0 :: u32)] @ bytes_u32 0"
  have h: "appends s s4 ?h"
    using appends_trans [OF appends_trans [OF appends_trans [OF re_emit_u8_appends [OF e(1)]
      re_emit_u8_appends [OF e(2)]] re_emit_u8_appends [OF e(3)]] re_emit_u32_appends [OF e(4)]] by simp
  have "\<exists>g. appends s4 s5 g \<and> frag cc 0 g"
  proof (cases "bit (ps_re_flags s4) LRE_FLAG_STICKY")
    case True
    with e(5) have "appends s4 s5 []" by (simp add: appends_nil)
    then show ?thesis using frag.nil by blast
  next
    case False
    then obtain p1 t1 t2 p2 where u: "re_emit_op_u32 ra s4 REOP_split_goto_first (1 + 5) = Some (p1, t1)"
      "re_emit_op ra t1 REOP_any = Some t2" "re_emit_op_u32 ra t2 REOP_goto (- (5 + 1 + 5)) = Some (p2, s5)"
      using e(5) by (auto elim!: bind_SomeE)
    have "appends s4 s5 ((op_byte REOP_split_goto_first # bytes_u32 (1 + 5)) @ [op_byte REOP_any] @
        (op_byte REOP_goto # bytes_u32 (- (5 + 1 + 5))))"
      using appends_trans [OF re_emit_op_u32_appends(1) [OF u(1)] appends_trans [OF re_emit_op_appends [OF u(2)]
        re_emit_op_u32_appends(1) [OF u(3)]]] .
    moreover have "frag cc 0 (jmp REOP_split_goto_first (int (length [op_byte REOP_any]) + 5) @ [op_byte REOP_any] @
        jmp REOP_goto (- int (length [op_byte REOP_any]) - 10))"
      by (rule frag.star [OF frag.plain]) (auto simp: plain_ops_def split_ops_def)
    ultimately show ?thesis by (intro exI conjI) (assumption, simp add: jmp_def)
  qed
  then obtain g where g: "appends s4 s5 g" "frag cc 0 g" by blast
  have "appends s s' (?h @ (g @ [op_byte REOP_save_start, ucast (0 :: u32)]))"
    using appends_trans [OF h appends_trans [OF g(1) re_emit_op_u8_appends [OF e(6)]]] .
  moreover have "frag cc 0 (g @ [op_byte REOP_save_start, ucast (0 :: u32)])"
    using frag.app [OF g(2) frag.save [of REOP_save_start "ucast (0 :: u32)"]] assms(2) by simp
  moreover have "length ?h = RE_HEADER_LEN" by (simp add: re_header_defs)
  ultimately show ?thesis by blast
qed

lemma compile_finish_no_error:
  assumes "compile_finish ra s = Some (Inr s')"
  shows "\<not> code_error s"
proof -
  obtain s1 s2 where e: "re_emit_op_u8 ra s REOP_save_end 0 = Some s1" "re_emit_op ra s1 REOP_match = Some s2"
    "\<not> code_error s2"
    using assms unfolding compile_finish_def Let_def
    by (elim bind_SomeE) (auto split: if_split_asm)
  have "\<not> code_error s1" using evolvesD(4) [OF appends_evolves [OF re_emit_op_appends [OF e(2)]] e(3)] .
  then show ?thesis using evolvesD(4) [OF appends_evolves [OF re_emit_op_u8_appends [OF e(1)]]] by blast
qed

lemma compile_finish_code:
  assumes f: "compile_finish ra s = Some (Inr s')" and ok: "code_ok s" "captures_ok s"
    and code: "code s = hdr @ g" "length hdr = RE_HEADER_LEN" "frag (ps_capture_count s) m g"
  shows "\<exists>hdr' names. dbuf_bytes (ps_byte_code s') = hdr' @ (g @ [op_byte REOP_save_end, 0]) @ op_byte REOP_match # names
    \<and> length hdr' = RE_HEADER_LEN \<and> unat (hdr' ! RE_HEADER_CAPTURE_COUNT) = ps_capture_count s
    \<and> m \<le> unat (hdr' ! RE_HEADER_STACK_SIZE)"
proof -
  let ?g = "g @ [op_byte REOP_save_end, 0]"
  obtain s1 s2 bc depth s3 s4 s5 where e: "re_emit_op_u8 ra s REOP_save_end 0 = Some s1" "re_emit_op ra s1 REOP_match = Some s2"
    "\<not> code_error s2" "code_from s2 0 = Some bc" "compute_stack_size bc = Some depth" "\<not> depth < 0"
    "code_set s2 RE_HEADER_CAPTURE_COUNT (word_of_nat (ps_capture_count s2)) = Some s3"
    "code_set s3 RE_HEADER_STACK_SIZE (word_of_int depth) = Some s4"
    "code_put_u32 s4 3 (word_of_nat (code_size s4) - word_of_nat RE_HEADER_LEN) = Some s5"
    "(if db_size (ps_group_names s5) > ps_capture_count s5 - 1 then do {
                 names \<leftarrow> rd_block (block (db_buf (ps_group_names s5))) 0 (db_size (ps_group_names s5));
                 (_, s) \<leftarrow> with_code (\<lambda>d. dbuf_put ra d names) s5;
                 flags \<leftarrow> rd (block (db_buf (ps_byte_code s))) RE_HEADER_FLAGS;
                 code_set s RE_HEADER_FLAGS (flags OR push_bit LRE_FLAG_NAMED_GROUPS 1)
               } else Some s5) = Some s'"
    using f unfolding compile_finish_def Let_def
    by (elim bind_SomeE) (auto split: if_split_asm elim!: bind_SomeE)
  note a1 = re_emit_op_u8_appends [OF e(1)] and a2 = re_emit_op_appends [OF e(2)]
  have n1: "\<not> code_error s1" using evolvesD(4) [OF appends_evolves [OF a2] e(3)] .
  have c1: "code s1 = hdr @ ?g" "code_ok s1"
    using appends_code [OF a1 ok(1) n1] evolvesD(3) [OF appends_evolves [OF a1] ok(1) n1] code(1) by auto
  have c2: "code s2 = hdr @ ?g @ [op_byte REOP_match]" "code_ok s2"
    using appends_code [OF a2 c1(2) e(3)] evolvesD(3) [OF appends_evolves [OF a2] c1(2) e(3)] c1(1) by auto
  have cc: "ps_capture_count s2 = ps_capture_count s"
    using evolvesD(1) [OF appends_evolves [OF a1]] evolvesD(1) [OF appends_evolves [OF a2]] by simp
  have bc: "bc = hdr @ ?g @ [op_byte REOP_match]"
    using code_from_at [OF e(4) c2(2), of "[]"] c2(1) by simp
  have "frag (ps_capture_count s) (max m 0) ?g"
    using ok(2) by (intro frag.app code(3) frag.save) (auto simp: captures_ok_def)
  from frag_stack_size [OF this code(2)] have dp: "depth = int m" "m \<le> STACK_SIZE_MAX"
    using e(5,6) unfolding bc by (auto split: if_splits)
  obtain h0 h1 h2 h3 h4 h5 h6 where hdr: "hdr = [h0, h1, h2, h3, h4, h5, h6]"
    using code(2) by (auto simp: re_header_defs length_Suc_conv numeral_eq_Suc)
  note r3 = code_set_bytes [OF e(7) c2(2)]
  note r4 = code_set_bytes [OF e(8) conjunct1 [OF r3]]
  let ?t = "?g @ [op_byte REOP_match]"
  have c4: "code s4 = [h0, word_of_nat (ps_capture_count s), word_of_int depth] @ [h3, h4, h5, h6] @ ?t" "code_ok s4"
    using r3 r4 c2(1) cc by (auto simp: hdr re_header_defs)
  have n4: "\<not> code_error s5"
    using e(3,7-9) by (auto simp: code_set_def code_put_u32_def elim!: bind_SomeE)
  let ?w = "word_of_nat (code_size s4) - word_of_nat RE_HEADER_LEN :: u32"
  let ?h = "[h0, word_of_nat (ps_capture_count s), word_of_int depth] @ bytes_u32 ?w"
  have c5: "code s5 = ?h @ ?t"
    using code_put_u32_at(2) [OF e(9) c4(2) n4, of "[h0, word_of_nat (ps_capture_count s), word_of_int depth]" "[h3, h4, h5, h6]"]
      c4(1) by simp
  have o5: "code_ok s5" using evolvesD(3) [OF code_put_u32_at(1) [OF e(9)] c4(2) n4] .
  have "\<exists>x names. code s' = (x # tl ?h) @ ?t @ names"
  proof (cases "db_size (ps_group_names s5) > ps_capture_count s5 - 1")
    case True
    then obtain names r s6 flags where u: "with_code (\<lambda>d. dbuf_put ra d names) s5 = Some (r, s6)"
      "code_set s6 RE_HEADER_FLAGS (flags OR push_bit LRE_FLAG_NAMED_GROUPS 1) = Some s'"
      using e(10) by (auto elim!: bind_SomeE)
    note p = with_code_put_any [OF u(1) o5]
    have "\<exists>names'. code s6 = ?h @ ?t @ names'" using p c5 by auto
    then show ?thesis using code_set_bytes [OF u(2)] p by (auto simp: re_header_defs)
  next
    case False
    with e(10) c5 show ?thesis by auto
  qed
  then obtain x names where c': "code s' = (x # tl ?h) @ ?t @ names" by blast
  have "unat (word_of_nat (ps_capture_count s) :: u8) = ps_capture_count s"
    using ok(2) by (simp add: captures_ok_def CAPTURE_COUNT_MAX_def unat_of_nat)
  moreover have "unat (word_of_int (int m) :: u8) = m"
    using dp(2) by (simp add: STACK_SIZE_MAX_def unat_of_nat)
  ultimately show ?thesis
    using c' dp(1) by (intro exI [of _ "x # tl ?h"] exI [of _ names]) (simp add: re_header_defs)
qed

lemma lre_compile_wf:
  assumes c: "lre_compile depth ra rp error_msg error_msg_size buf buf_len re_flags op = Some (Some bc, msg, st)"
    and len: "length bc < 2 ^ 31"
  shows "\<exists>ds. re_code_ok bc ds"
proof -
  let ?s0 = "re_parse_init buf buf_len re_flags op"
  obtain s1 s2 s3 where e: "compile_prefix ra ?s0 = Some s1" "re_parse_disjunction depth ra rp s1 False = Some (0, s2)"
    "compile_finish ra s2 = Some (Inr s3)" and bc: "bc = dbuf_bytes (ps_byte_code s3)"
  proof -
    obtain s1 r s2 res where u: "compile_prefix ra ?s0 = Some s1" "re_parse_disjunction depth ra rp s1 False = Some (r, s2)"
      "(if r \<noteq> 0 then Some (Inl s2) else compile_finish ra s2) = Some res"
      "(case res of
        Inl s \<Rightarrow> do {
          d \<leftarrow> dbuf_free ra ((ps_byte_code s)\<lparr>db_opaque := ps_opaque s\<rparr>);
          s \<leftarrow> free_names ra (s\<lparr>ps_byte_code := d, ps_opaque := db_opaque d\<rparr>);
          error_msg \<leftarrow> pstrcpy error_msg 0 error_msg_size (ps_u s);
          Some (None, error_msg, ps_opaque s)
        }
      | Inr s \<Rightarrow> do {
          s \<leftarrow> free_names ra s;
          error_msg \<leftarrow> wr error_msg 0 0;
          Some (Some (dbuf_bytes (ps_byte_code s)), error_msg, ps_opaque s)
        }) = Some (Some bc, msg, st)"
      using c unfolding lre_compile_def by (elim bind_SomeE) (auto elim!: bind_SomeE)
    obtain s3 s4 where "res = Inr s3" "free_names ra s3 = Some s4" "bc = dbuf_bytes (ps_byte_code s4)"
      using u(4) by (auto split: sum.splits elim!: bind_SomeE)
    moreover from this have "bc = dbuf_bytes (ps_byte_code s3)"
      by (auto simp: free_names_def elim!: bind_SomeE)
    ultimately show ?thesis using u that by (auto split: if_split_asm)
  qed
  have s0: "code_ok ?s0" "code ?s0 = []" "captures_ok ?s0"
    by (simp_all add: re_parse_init_def captures_ok_def CAPTURE_COUNT_MAX_def)
  obtain hdr g where p: "appends ?s0 s1 (hdr @ g)" "length hdr = RE_HEADER_LEN" "frag 1 0 g"
    using compile_prefix_appends [OF e(1), of 1] by auto
  have d: "parsed s1 s2" using re_parse_disjunction_ok [of depth rp] e(2) by (simp add: disj_ok_def)
  have n2: "\<not> code_error s2" by (rule compile_finish_no_error [OF e(3)])
  have n1: "\<not> code_error s1" using growsD(1) [OF grows_rules(1) [OF d] n2] .
  have s1: "code_ok s1" "code s1 = hdr @ g" "captures_ok s1" "ps_capture_count s1 = 1"
    using appends_code [OF p(1) s0(1) n1] evolvesD(3) [OF appends_evolves [OF p(1)] s0(1) n1] s0
      evolvesD(1) [OF appends_evolves [OF p(1)]] by (auto simp: captures_ok_def re_parse_init_def)
  obtain m f where f: "code s2 = code s1 @ f" "frag (ps_capture_count s2) m f" "code_ok s2" "captures_ok s2"
    using d s1(1,3) n2 by (auto simp: parsed_def)
  have gf: "frag (ps_capture_count s2) (max 0 m) (g @ f)"
    using parsedD(1) [OF d] s1(4) by (intro frag.app frag_mono [OF p(3)] f(2)) simp
  have "code s2 = hdr @ (g @ f)" using f(1) s1(2) by simp
  from compile_finish_code [OF e(3) f(3,4) this p(2) gf] obtain hdr' names where
    h: "bc = hdr' @ ((g @ f) @ [op_byte REOP_save_end, 0]) @ op_byte REOP_match # names"
    "length hdr' = RE_HEADER_LEN" "unat (hdr' ! RE_HEADER_CAPTURE_COUNT) = ps_capture_count s2"
    "max 0 m \<le> unat (hdr' ! RE_HEADER_STACK_SIZE)"
    unfolding bc by blast
  have "frag (ps_capture_count s2) (max (max 0 m) 0) ((g @ f) @ [op_byte REOP_save_end, 0])"
    using f(4) by (intro frag.app gf frag.save) (auto simp: captures_ok_def)
  then show ?thesis
    by (rule frag_code_ok [OF _ _ h(1,2,3)]) (use len h in auto)
qed

end

section \<open>Compiling and executing\<close>

text \<open>
  C1: the compiler emits well-formed byte code. Whatever the pattern (valid or not, of any bytes), the
  flags, the room on the C stack and the answers of the C library's allocator, if \<open>lre_compile\<close> returns
  code shorter than 2 GiB then every instruction in it is complete and valid, every jump goes to an
  instruction, every capture that an instruction saves or resets is below the capture count of the header, and the
  integer stack has one depth at each instruction, never below zero nor above the stack size of the header. The
  operand of a back reference is not covered, since \<open>re_parse_captures\<close> may count wrong (\<open>Re_Corner_Cases\<close>); the
  executor compares it with the capture count itself.
\<close>

theorem lre_compile_code_ok:
  assumes "lre_compile depth (js_def_realloc env 1) (js_def_realloc env' 4) error_msg error_msg_size
             buf buf_len re_flags st0 = Some (Some bc, msg, st1)"
    and "length bc < 2 ^ 31"
  shows "\<exists>ds. re_code_ok bc ds"
  by (rule js_bytes.lre_compile_wf [OF assms [unfolded One_nat_def]])

text \<open>
  C3: compiling and executing is memory safe from end to end: what \<open>lre_compile\<close> returns may be run by
  \<open>lre_exec\<close> on any subject of 8-bit or 16-bit units from any start index, with capture and stack buffers
  of the sizes the header asks for. The executor never reads or writes outside its blocks, never aborts,
  and the captures it leaves are positions inside the subject.
\<close>

theorem lre_compile_exec_safe:
  assumes "lre_compile depth (js_def_realloc env 1) (js_def_realloc env' 4) error_msg error_msg_size
             buf buf_len re_flags st0 = Some (Some bc, msg, st1)"
    and "length bc < 2 ^ 31" and "ctype \<le> 1"
    and "length subject = push_bit ctype clen" and "length subject \<le> PTRDIFF_MAX" and "cindex \<le> clen"
    and "2 * unat (bc ! RE_HEADER_CAPTURE_COUNT) \<le> length capture"
    and "unat (bc ! RE_HEADER_STACK_SIZE) \<le> length stack_buf"
  shows "\<exists>res caps st. lre_exec fuel (js_def_realloc env'' (re_state_bytes bc)) capture stack_buf bc subject
             addr cindex clen ctype st1 = Some (res, caps, st)
           \<and> captures_inside (unat (bc ! RE_HEADER_CAPTURE_COUNT)) (length subject) caps"
proof -
  obtain ds where "re_code_ok bc ds"
    using js_bytes.lre_compile_wf [OF assms(1,2) [unfolded One_nat_def]] by blast
  moreover have "re_state_bytes bc = Suc (re_state_bytes bc - 1)" by (simp add: re_state_bytes_def)
  ultimately show ?thesis
    using js_states.lre_exec_ok [of bc ds "re_state_bytes bc - 1"] assms(3-) by auto
qed

text \<open>
  The compilation of \<open>/a/\<close>, step by step; the congruence rules keep \<open>simp\<close> to the branch that is taken.
\<close>

definition env_ok :: "u8 libc_env" where
  "env_ok = \<lparr>lc_avail = (\<lambda>n. True), lc_usable = (\<lambda>n. n), lc_junk = (\<lambda>i. 0)\<rparr>"

lemma bind_weak_cong: "m = m' \<Longrightarrow> Option.bind m f = Option.bind m' f"
  by simp

lemmas eval_cong = bind_weak_cong option.case_cong_weak prod.case_cong_weak let_weak_cong sum.case_cong_weak

lemmas dbuf_eval = with_code_def dbuf_putc_def dbuf_put_u16_def dbuf_put_u32_def dbuf_put_def dbuf_grow_def
  dbuf_realloc_def dbuf_memcpy_def wr_block_def rd_block_def js_def_realloc_def js_def_malloc_def
  libc_malloc_def libc_realloc_def js_def_malloc_usable_size_def PTRDIFF_MAX_def MALLOC_OVERHEAD_def
  bytes_u16_def bytes_u32_def szt_sub_def szt_def upt_rec c_assert_def

lemmas emit_eval = re_emit_op_def re_emit_u8_def re_emit_u16_def re_emit_u32_def re_emit_op_u32_def
  re_emit_op_u8_def re_emit_op_u16_def re_emit_goto_def op_byte_def code_set_def wr_def code_put_u32_def
  put_u32_def code_from_def

lemmas parse_eval = re_parse_alternative_def rd_def re_parse_term_def term_atom_def term_class_atom_def
  get_class_atom_def atom_normal_char_def term_normal_char_def emit_prev_def CLASS_RANGE_BASE_def
  re_parse_quantifier_def parse_quant_def

lemmas compile_eval = lre_compile_def compile_prefix_def re_parse_init_def dbuf_init2_def compile_finish_def
  compute_stack_size_def stack_size_loop.simps reop_of_a re_header_defs instr_len_def free_names_def
  dbuf_free_def dbuf_bytes_def

lemma le_bytes_eval:
  "le_bytes 4 x = [word_of_nat (x mod 256), word_of_nat (x div 256 mod 256),
    word_of_nat (x div 256 div 256 mod 256), word_of_nat (x div 256 div 256 div 256 mod 256)]"
  "le_bytes 2 x = [word_of_nat (x mod 256), word_of_nat (x div 256 mod 256)]"
proof -
  have n: "(4 :: nat) = Suc (Suc (Suc (Suc 0)))" "(2 :: nat) = Suc (Suc 0)" by simp_all
  show "le_bytes 4 x = [word_of_nat (x mod 256), word_of_nat (x div 256 mod 256),
      word_of_nat (x div 256 div 256 mod 256), word_of_nat (x div 256 div 256 div 256 mod 256)]"
    "le_bytes 2 x = [word_of_nat (x mod 256), word_of_nat (x div 256 mod 256)]"
    unfolding n le_bytes.simps by simp_all
qed

lemma lre_compile_a:
  "lre_compile (Suc 0) (js_def_realloc env_ok 1) (js_def_realloc env' 4) [9] 1 [97, 0] 1 0
     \<lparr>malloc_count = 0, malloc_size = 0, malloc_limit = 1000000\<rparr>
   = Some (Some re_code_a, [0], \<lparr>malloc_count = 1, malloc_size = 41, malloc_limit = 1000000\<rparr>)"
  by (simp add: env_ok_def compile_eval dbuf_eval emit_eval parse_eval le_bytes_eval Let_def re_code_a_def
      cong: eval_cong)

theorem lre_compile_code_ok_witness: "\<exists>ds. re_code_ok re_code_a ds"
  by (rule lre_compile_code_ok [OF lre_compile_a]) (simp add: re_code_a_def)

theorem lre_compile_exec_safe_witness:
  "\<exists>res caps st. lre_exec 20 (js_def_realloc \<lparr>lc_avail = (\<lambda>n. True), lc_usable = (\<lambda>n. n), lc_junk = (\<lambda>i. undefined)\<rparr>
        (re_state_bytes re_code_a)) [None, None] [] re_code_a [98, 97]
        4096 0 2 0 \<lparr>malloc_count = 1, malloc_size = 41, malloc_limit = 1000000\<rparr> = Some (res, caps, st)
     \<and> captures_inside 1 2 caps"
proof -
  have hd: "re_code_a ! RE_HEADER_CAPTURE_COUNT = 1" "re_code_a ! RE_HEADER_STACK_SIZE = 0" "length re_code_a < 2 ^ 31"
    by (simp_all add: re_code_a_def re_header_defs)
  have max: "2 \<le> PTRDIFF_MAX" by (simp add: PTRDIFF_MAX_def)
  show ?thesis
    using lre_compile_exec_safe [OF lre_compile_a hd(3), of 0 "[98, 97]" 2 0 "[None, None]" "[]" 20
        "\<lparr>lc_avail = (\<lambda>n. True), lc_usable = (\<lambda>n. n), lc_junk = (\<lambda>i. undefined)\<rparr>" 4096]
    by (simp add: hd max numeral_2_eq_2 [symmetric])
qed

end
