(* ===== verification/Re_Corner_Cases.thy ===== *)
theory Re_Corner_Cases
  imports Re_Compile
begin

text \<open>
  Inputs on which the regular expression engine and the Unicode tables do not do what they mean to:
  each lemma follows the code on a concrete pattern, or for every state of the allocator, to the
  wrong outcome. They are examples, not properties of the whole engine. The compiler is evaluated with \<open>simp\<close>, branch by branch.
\<close>

lemma reop_codes:
  "reop_of (0) = Some REOP_invalid" "reop_of (Suc 0) = Some REOP_char"
  "reop_of (2) = Some REOP_char32" "reop_of (3) = Some REOP_dot"
  "reop_of (4) = Some REOP_any" "reop_of (5) = Some REOP_line_start"
  "reop_of (6) = Some REOP_line_end" "reop_of (7) = Some REOP_goto"
  "reop_of (8) = Some REOP_split_goto_first" "reop_of (9) = Some REOP_split_next_first"
  "reop_of (10) = Some REOP_match" "reop_of (11) = Some REOP_save_start"
  "reop_of (12) = Some REOP_save_end" "reop_of (13) = Some REOP_save_reset"
  "reop_of (14) = Some REOP_loop" "reop_of (15) = Some REOP_push_i32"
  "reop_of (16) = Some REOP_drop" "reop_of (17) = Some REOP_word_boundary"
  "reop_of (18) = Some REOP_not_word_boundary" "reop_of (19) = Some REOP_back_reference"
  "reop_of (20) = Some REOP_backward_back_reference" "reop_of (21) = Some REOP_range"
  "reop_of (22) = Some REOP_range32" "reop_of (23) = Some REOP_lookahead"
  "reop_of (24) = Some REOP_negative_lookahead" "reop_of (25) = Some REOP_push_char_pos"
  "reop_of (26) = Some REOP_bne_char_pos" "reop_of (27) = Some REOP_prev"
  "reop_of (28) = Some REOP_simple_greedy_quant"
  by (simp_all add: reop_of_Some)

lemmas flag_eval = LRE_FLAG_STICKY_def LRE_FLAG_IGNORECASE_def LRE_FLAG_UTF16_def LRE_FLAG_DOTALL_def
  LRE_FLAG_MULTILINE_def

lemmas class_eval = re_parse_char_class_def class_loop.simps class_item_def class_add_atom_def class_finish_def
  cr_union_interval_def cr_union1_def cr_op_def cr_init_def cr_free_def cr_canonicalize_def re_emit_range_def
  cr_op_loop.simps cr_op_next_def cr_add_point_def cr_realloc_def cr_store_def cr_compress_def
  cr_compress_loop.simps cr_compress_run.simps UINT32_MAX_def

lemmas group_eval = term_group_def with_names_def term_capture_def re_parse_expect_def emit_quant_def
  re_is_simple_quantifier_def simple_quantifier_loop.simps emit_simple_quant_def emit_quant_zero_def
  term_backslash_def term_back_reference_def re_check_advance_def check_advance_loop.simps mark_capture_def
  parse_digits_def is_digit_def split_op_def code_insert_def dbuf_insert_def CAPTURE_COUNT_MAX_def
  STACK_SIZE_MAX_def DIGITS_MAX_def

lemmas exec_eval = lre_exec_def re_step_def get_u16_def get_u32_def get_u8_def test_char_def re_canon_def
  GET_CHAR_def range_match_def range_limit_def lre_canonicalize_def rd_def wr_def rd_block_def wr_block_def
  re_header_defs c_assert_def

definition env_points :: "u32 libc_env" where
  "env_points = \<lparr>lc_avail = (\<lambda>n. True), lc_usable = (\<lambda>n. n), lc_junk = (\<lambda>i. 0)\<rparr>"

definition heap0 :: js_malloc_state where
  "heap0 = \<lparr>malloc_count = 0, malloc_size = 0, malloc_limit = 1000000\<rparr>"

section \<open>Out of memory\<close>

lemma unicode_script_fail_None: "unicode_script_fail ra is_ext cr1 cr2 st = None"
proof -
  have "unicode_script_fail ra is_ext cr1 cr2 st \<noteq> Some r" for r
    using unicode_script_fail.raw_induct [of "\<lambda>_ _ _ _ _ _. False" ra is_ext cr1 cr2 st r]
    by (metis bind_Some_iff)
  then show ?thesis by (metis option.exhaust)
qed

lemma common_index: "find_name_from unicode_script_name_table ''Common'' 0 = 24"
  by (simp add: unicode_script_name_table_def row_has.simps cong: eval_cong)

text \<open>
  When the C library has no memory, \<open>unicode_script\<close> does not return: its first call of \<open>cr_add_interval\<close> fails, and
  the code at its label \<open>fail\<close> frees its ranges and jumps to \<open>fail\<close> again, which \<open>unicode_script_fail\<close> renders as
  a recursion without end. Shown for the script \<open>Common\<close>, with and without
  extensions, from every state of the runtime's allocator.
\<close>

lemma unicode_script_oom_hangs:
  "unicode_script (js_def_realloc \<lparr>lc_avail = (\<lambda>n. False), lc_usable = u, lc_junk = j\<rparr> 4)
     cr_init ''Common'' is_ext st = None"
  by (simp add: unicode_script_def unicode_find_name_def common_index UNICODE_SCRIPT_Unknown_def cr_init_def
    UNICODE_SCRIPT_Common_def UNICODE_SCRIPT_Inherited_def unicode_script_table_def unicode_script_table_1_def
    unicode_script_loop.simps [of _ _ "_ # _"] script_run_def script_len_def Let_def unicode_script_fail_None
    cr_add_interval_def cr_add_point_def cr_realloc_def js_def_realloc_def js_def_malloc_def libc_malloc_def
    c_assert_def cong: eval_cong)

text \<open>
  An allocation that fails at the wrong moment makes the compiler write outside the byte code: after
  \<open>re_emit_op_u32\<close> has failed to append the jump of an alternative, \<open>re_parse_disjunction\<close> still stores the
  jump's offset at the position it would have, outside the 32 bytes that are allocated: \<open>code_set\<close> is \<open>None\<close>. Shown for the pattern \<open>ab|c\<close> when the C library refuses
  every block of 33 bytes or more.
\<close>

lemma lre_compile_oom_overflow:
  "lre_compile (Suc 0) (js_def_realloc \<lparr>lc_avail = (\<lambda>n. n < 33), lc_usable = (\<lambda>n. n), lc_junk = (\<lambda>i. 0)\<rparr> 1)
     (js_def_realloc env' 4) [9] 1 [97, 98, 124, 99, 0] 4 (push_bit LRE_FLAG_STICKY 1) heap0 = None"
  by (simp add: compile_eval dbuf_eval emit_eval parse_eval le_bytes_eval Let_def code_insert_def dbuf_insert_def
    flag_eval split_op_def heap0_def cong: eval_cong)

section \<open>Named groups\<close>

text \<open>
  A forward reference to a named group may get the wrong number. In \<open>\k<c>(?<a>(y)(?<c>z))\<close> the group
  \<open>c\<close> is the third of three, but \<open>re_parse_captures\<close> finds it as the second: after it has read the name \<open>a\<close> it stands
  behind the \<open>>\<close>, and the step of its loop skips the parenthesis of the next group. In
  \<open>\k<c>(?<a>\()(?<c>z)\<close> it skips the backslash instead, takes the escaped parenthesis for a group and finds \<open>c\<close> as the third
  group of two: the operand of the back reference is not below the capture count.
\<close>

lemma re_parse_captures_miscounts:
  "let s = re_parse_init (c_chars ''(?<a>(y)(?<c>z))'' @ [0]) 16 0 st in
   re_parse_captures s None = Some (4, 1) \<and> re_parse_captures s (Some (c_chars ''c'')) = Some (2, 1)"
  by (simp add: re_parse_captures_def re_parse_init_def rd_def c_chars_def re_parse_group_name_def group_name_char_def
    lre_js_is_ident_first_def lre_js_is_ident_next_def lre_id_start_table_ascii_def lre_id_continue_table_ascii_def
    CAPTURE_COUNT_MAX_def TMP_BUF_SIZE_def UTF8_CHAR_LEN_MAX_def cong: eval_cong)

lemma re_parse_captures_out_of_range:
  "let s = re_parse_init (c_chars [CHR ''('', CHR ''?'', CHR ''<'', CHR ''a'', CHR ''>'', CHR 0x5c, CHR ''('', CHR '')'',
       CHR ''('', CHR ''?'', CHR ''<'', CHR ''c'', CHR ''>'', CHR ''z'', CHR '')''] @ [0]) 15 0 st in
   re_parse_captures s (Some (c_chars ''c'')) = Some (3, 1)"
  by (simp add: re_parse_captures_def re_parse_init_def rd_def c_chars_def re_parse_group_name_def group_name_char_def
    lre_js_is_ident_first_def lre_js_is_ident_next_def lre_id_start_table_ascii_def lre_id_continue_table_ascii_def
    CAPTURE_COUNT_MAX_def TMP_BUF_SIZE_def UTF8_CHAR_LEN_MAX_def cong: eval_cong)

section \<open>Case-insensitive classes\<close>

text \<open>The code of \<open>/[A]/iuy\<close>.\<close>

definition re_code_class_A :: "u8 list" where
  "re_code_class_A = [50, 1, 0, 12, 0, 0, 0, 11, 0, 21, 1, 0, 65, 0, 65, 0, 12, 0, 10]"

lemma lre_compile_class_A:
  "\<exists>st. lre_compile (Suc 0) (js_def_realloc env_ok 1) (js_def_realloc env_points 4) [9] 1 [91, 65, 93, 0] 3 50 heap0
     = Some (Some re_code_class_A, [0], st)"
  by (simp add: env_ok_def env_points_def heap0_def compile_eval dbuf_eval emit_eval parse_eval class_eval
    le_bytes_eval Let_def flag_eval reop_codes re_code_class_A_def get_u16_def cong: eval_cong)

lemma lre_exec_class_A:
  "\<exists>caps. lre_exec (Suc (Suc (Suc (Suc fuel)))) (js_def_realloc env n) [None, None] [] re_code_class_A [65] addr 0 1 0 st
     = Some (RE_NO_MATCH, caps, st)"
  by (simp add: exec_eval re_code_class_A_def reop_codes Let_def flag_eval js_def_realloc_def cong: eval_cong)

text \<open>
  With the flags \<open>i\<close> and \<open>u\<close> the class \<open>[A]\<close> does not match the letter A. The executor folds the subject's
  letters to lower case (\<open>lre_canonicalize\<close> with \<open>is_utf16\<close>), while \<open>cr_canonicalize\<close> only adds upper case
  letters to a class, so that the range 65 to 65 is emitted and A is looked up as a.
\<close>

lemma class_A_iu_misses_A:
  "\<exists>bc msg st. lre_compile (Suc 0) (js_def_realloc env_ok 1) (js_def_realloc env_points 4) [9] 1 (c_chars ''[A]'' @ [0]) 3
        (push_bit LRE_FLAG_IGNORECASE 1 OR push_bit LRE_FLAG_UTF16 1 OR push_bit LRE_FLAG_STICKY 1) heap0
      = Some (Some bc, msg, st)
    \<and> (\<exists>caps. lre_exec (4 + fuel) (js_def_realloc env n) [None, None] [] bc (c_chars ''A'') addr 0 1 0 st
        = Some (RE_NO_MATCH, caps, st))"
proof -
  have args: "c_chars ''[A]'' @ [0] = [91, 65, 93, 0]" "c_chars ''A'' = [65]"
    "push_bit LRE_FLAG_IGNORECASE 1 OR push_bit LRE_FLAG_UTF16 1 OR push_bit LRE_FLAG_STICKY 1 = (50 :: u32)"
    "4 + fuel = Suc (Suc (Suc (Suc fuel)))"
    by (simp_all add: c_chars_def flag_eval)
  obtain st where "lre_compile (Suc 0) (js_def_realloc env_ok 1) (js_def_realloc env_points 4) [9] 1 [91, 65, 93, 0] 3 50 heap0
     = Some (Some re_code_class_A, [0], st)"
    using lre_compile_class_A by blast
  then show ?thesis unfolding args using lre_exec_class_A by blast
qed

section \<open>Empty iterations\<close>

text \<open>The code of \<open>/(?:(a?)\1)*/y\<close>.\<close>

definition re_code_loop :: "u8 list" where
  "re_code_loop =
     [32, 2, 0, 45, 0, 0, 0, 11, 0, 13, 1, 1, 9, 32, 0, 0, 0, 11, 1, 28, 4, 0, 0, 0, 0, 0, 0, 0, 1, 0, 0, 0, 1, 0, 0, 0,
      1, 97, 0, 10, 12, 1, 19, 1, 7, 219, 255, 255, 255, 12, 0, 10]"

lemma three_in_update: "3 \<in> set ((replicate 255 (0 :: u8))[Suc 0 := 3])"
  by (rule set_update_memI) simp

lemma lre_compile_loop:
  "\<exists>st. lre_compile (Suc (Suc (Suc 0))) (js_def_realloc env_ok 1) (js_def_realloc env_points 4) [9] 1
     [40, 63, 58, 40, 97, 63, 41, 92, 49, 41, 42, 0] 11 32 heap0 = Some (Some re_code_loop, [0], st)"
  by (simp add: env_ok_def env_points_def heap0_def compile_eval dbuf_eval emit_eval parse_eval group_eval
    le_bytes_eval Let_def flag_eval reop_codes three_in_update re_code_loop_def cong: eval_cong)

text \<open>Where the executor is while it goes round the loop at the start of the empty subject.\<close>

definition in_empty_loop :: "'o re_exec_context \<Rightarrow> re_thread \<Rightarrow> bool" where
  "in_empty_loop s th \<longleftrightarrow> cbuf_end s = 0 \<and> capture_count s = 2 \<and> th_cptr th = 0 \<and> length (th_capture th) = 4 \<and>
     (th_pc th \<in> {12, 17, 44} \<or> th_pc th \<in> {19, 40} \<and> th_capture th ! 2 = Some 0 \<or>
      th_pc th = 42 \<and> th_capture th ! 2 = Some 0 \<and> th_capture th ! 3 = Some 0)"

definition gives_up :: "(re_result \<times> 'a) option \<Rightarrow> bool" where
  "gives_up r \<longleftrightarrow> map_option fst r \<in> {None, Some RE_TIMEOUT, Some RE_ERROR}"

lemma gives_up_simps [simp]:
  "gives_up None" "gives_up (Some (RE_TIMEOUT, x))" "gives_up (Some (RE_ERROR, x))"
  by (simp_all add: gives_up_def)

lemma gives_up_bind:
  "gives_up r \<Longrightarrow> gives_up (Option.bind r (\<lambda>x. Option.bind (f x) (\<lambda>y. Some (fst x, g x y))))"
  by (cases r) (auto simp: gives_up_def bind_eq_None_conv split: option.splits elim!: bind_SomeE)

lemma push_state_ctx:
  "push_state ra s th pc ty k = Some (ret, s') \<Longrightarrow> cbuf_end s' = cbuf_end s \<and> capture_count s' = capture_count s"
  by (auto simp: push_state_def Let_def split: if_splits option.splits elim!: bind_SomeE)

lemma greedy_a_at_end:
  assumes "cbuf_end s = 0" "th_cptr th = 0"
  shows "re_greedy fuel ra re_code_loop s th 36 1 0 \<in>
    {Some (Some RE_TIMEOUT, 0, s, th), Some (None, 0, s, th)}"
proof (cases fuel)
  case (Suc f)
  then show ?thesis
    using assms by (cases f) (auto simp: re_code_loop_def reop_codes re_step_def test_char_def rd_def get_u16_def rd_block_def Let_def)
qed simp

lemma loop_fetch:
  "rd re_code_loop 7 = Some 11" "rd re_code_loop 8 = Some 0" "rd re_code_loop 9 = Some 13" "rd re_code_loop 10 = Some 1"
  "rd re_code_loop 11 = Some 1"
  "rd re_code_loop 12 = Some 9" "get_u32 re_code_loop 13 = Some 32" "rd re_code_loop 17 = Some 11"
  "rd re_code_loop 18 = Some 1" "rd re_code_loop 19 = Some 28" "get_u32 re_code_loop 20 = Some 4"
  "get_u32 re_code_loop 24 = Some 0" "get_u32 re_code_loop 28 = Some 1" "rd re_code_loop 40 = Some 12"
  "rd re_code_loop 41 = Some 1" "rd re_code_loop 42 = Some 19" "rd re_code_loop 43 = Some 1"
  "rd re_code_loop 44 = Some 7" "get_u32 re_code_loop 45 = Some (-37)"
  by (simp_all add: re_code_loop_def rd_def get_u32_def rd_block_def)

lemma empty_loop_spins: "in_empty_loop s th \<Longrightarrow> gives_up (lre_exec_backtrack fuel ra re_code_loop s th False)"
proof (induction fuel arbitrary: s th)
  case (Suc fuel)
  note IH = Suc.IH [unfolded in_empty_loop_def]
  note ev = loop_fetch reop_codes re_step_def wr_def re_jump_def Let_def c_assert_def
  have s: "cbuf_end s = 0" "capture_count s = 2" "th_cptr th = 0" "length (th_capture th) = 4"
    using Suc.prems by (auto simp: in_empty_loop_def)
  consider "th_pc th = 12" | "th_pc th = 17" | "th_pc th = 19" "th_capture th ! 2 = Some 0"
    | "th_pc th = 40" "th_capture th ! 2 = Some 0" | "th_pc th = 42" "th_capture th ! 2 = Some 0" "th_capture th ! 3 = Some 0"
    | "th_pc th = 44"
    using Suc.prems by (auto simp: in_empty_loop_def)
  then show ?case
  proof cases
    case 1
    show ?thesis
    proof (cases "push_state ra s th 49 RE_EXEC_STATE_SPLIT 0")
      case None
      with 1 show ?thesis by (simp add: ev re_push_def)
    next
      case (Some p)
      obtain ret s' where p: "p = (ret, s')" by (cases p)
      with push_state_ctx [OF Some [unfolded p]] s have "gives_up (lre_exec_backtrack fuel ra re_code_loop s' (th\<lparr>th_pc := 17\<rparr>) False)"
        by (intro IH) simp
      with 1 Some p show ?thesis by (cases "ret < 0") (simp_all add: ev re_push_def)
    qed
  next
    case 2
    then show ?thesis using s by (simp add: ev IH rd_def [of "th_capture th"])
  next
    case 3
    then show ?thesis using s greedy_a_at_end [of s th fuel ra] by (auto simp: ev IH)
  next
    case 4
    then show ?thesis using s by (simp add: ev IH rd_def [of "th_capture th"])
  next
    case 5
    then show ?thesis using s by (simp add: ev IH rd_def [of "th_capture th"])
  next
    case 6
    then show ?thesis using s by (simp add: ev IH rd_def [of "th_capture th"])
  qed
qed simp

lemma loop_header:
  "rd re_code_loop RE_HEADER_FLAGS = Some 32" "rd re_code_loop RE_HEADER_CAPTURE_COUNT = Some 2"
  "rd re_code_loop RE_HEADER_STACK_SIZE = Some 0"
  by (simp_all add: re_code_loop_def rd_def re_header_defs)

lemma replicate_4: "replicate 4 x = [x, x, x, x]"
  by (simp add: numeral_eq_Suc)

lemma lre_exec_loop: "gives_up (lre_exec fuel ra (replicate 4 None) [] re_code_loop [] addr 0 0 0 st)"
proof -
  have "gives_up (lre_exec_backtrack fuel ra re_code_loop s
      \<lparr>th_capture = replicate 4 None, th_stack = [], th_stack_len = 0, th_pc = 7, th_cptr = 0\<rparr> False)"
    if s: "cbuf_end s = 0" "capture_count s = 2" for s
  proof (cases fuel)
    case (Suc f)
    note ev = loop_fetch reop_codes re_step_def wr_def Let_def c_assert_def
    show ?thesis
    proof (cases f)
      case 0
      with Suc s show ?thesis by (simp add: ev)
    next
      case (Suc g)
      with \<open>fuel = Suc f\<close> s show ?thesis
        using empty_loop_spins [of s "\<lparr>th_capture = [Some 0, None, None, None], th_stack = [], th_stack_len = 0, th_pc = 12, th_cptr = 0\<rparr>" g ra]
        by (simp add: ev in_empty_loop_def replicate_4)
    qed
  qed simp
  then show ?thesis
    unfolding lre_exec_def loop_header Option.bind.bind_lunit Let_def
    by (simp add: wr_block_def flag_eval gives_up_bind RE_HEADER_LEN_def case_prod_unfold)
qed

text \<open>
  \<open>/(?:(a?)\1)*/y\<close>, which matches the empty subject, never does so here: the executor goes round the
  star without end, pushing one state each time, until the memory is used up. With a back reference to a
  capture of the atom \<open>re_check_advance\<close> answers -1, and the check against empty iterations, which the
  compiler emits when the answer is 0, is left out. Shown for every number of steps and every allocator.
\<close>

lemma empty_iterations_never_match:
  "\<exists>bc msg st. lre_compile 3 (js_def_realloc env_ok 1) (js_def_realloc env_points 4) [9] 1
       (c_chars [CHR ''('', CHR ''?'', CHR '':'', CHR ''('', CHR ''a'', CHR ''?'', CHR '')'', CHR 0x5c, CHR ''1'',
          CHR '')'', CHR ''*''] @ [0]) 11 (push_bit LRE_FLAG_STICKY 1) heap0 = Some (Some bc, msg, st)
     \<and> map_option fst (lre_exec fuel ra (replicate 4 None) [] bc [] addr 0 0 0 st')
         \<in> {None, Some RE_TIMEOUT, Some RE_ERROR}"
proof -
  have args: "c_chars [CHR ''('', CHR ''?'', CHR '':'', CHR ''('', CHR ''a'', CHR ''?'', CHR '')'', CHR 0x5c, CHR ''1'',
        CHR '')'', CHR ''*''] @ [0] = [40, 63, 58, 40, 97, 63, 41, 92, 49, 41, 42, 0]"
    "push_bit LRE_FLAG_STICKY 1 = (32 :: u32)" "3 = Suc (Suc (Suc 0))"
    by (simp_all add: c_chars_def flag_eval)
  obtain st where "lre_compile (Suc (Suc (Suc 0))) (js_def_realloc env_ok 1) (js_def_realloc env_points 4) [9] 1
      [40, 63, 58, 40, 97, 63, 41, 92, 49, 41, 42, 0] 11 32 heap0 = Some (Some re_code_loop, [0], st)"
    using lre_compile_loop by blast
  then show ?thesis unfolding args
    by (intro exI conjI) (assumption, rule lre_exec_loop [unfolded gives_up_def])
qed

end
