(* ===== verification/List_Head.thy ===== *)
theory List_Head
  imports QJS_Prelude
begin

text \<open>
  The doubly linked lists of list.h. A \<open>struct list_head\<close> is a node with two links; the memory of all nodes is
  a function from nodes to their links, \<open>None\<close> is \<open>NULL\<close>, and reading through \<open>NULL\<close> is undefined (\<open>None\<close> of
  the operation). \<open>dlist\<close> relates a ring of nodes to the list of its elements; \<open>lists\<close> a family of disjoint
  rings, one for each head. The locale \<open>intrusive_lists\<close> states what a user of several lists relies on, and
  \<open>lh\<close> interprets it on the operations of list.h.
\<close>

section \<open>The operations\<close>

record 'n list_head =
  l_prev :: "'n option"
  l_next :: "'n option"

type_synonym 'n links = "'n \<Rightarrow> 'n list_head"

definition set_next :: "'n \<Rightarrow> 'n option \<Rightarrow> 'n links \<Rightarrow> 'n links" where
  "set_next n v L = L(n := (L n)\<lparr>l_next := v\<rparr>)"

definition set_prev :: "'n \<Rightarrow> 'n option \<Rightarrow> 'n links \<Rightarrow> 'n links" where
  "set_prev n v L = L(n := (L n)\<lparr>l_prev := v\<rparr>)"

definition init_list_head :: "'n \<Rightarrow> 'n links \<Rightarrow> 'n links" where
  "init_list_head head L = set_next head (Some head) (set_prev head (Some head) L)"

definition list_add_between :: "'n \<Rightarrow> 'n \<Rightarrow> 'n \<Rightarrow> 'n links \<Rightarrow> 'n links" where
  "list_add_between el prev next L =
     (let L = set_next prev (Some el) L;
          L = set_prev el (Some prev) L;
          L = set_next el (Some next) L
      in set_prev next (Some el) L)"

definition list_add :: "'n \<Rightarrow> 'n \<Rightarrow> 'n links \<Rightarrow> 'n links option" where
  "list_add el head L = do {
     next \<leftarrow> l_next (L head);
     Some (list_add_between el head next L)
   }"

definition list_add_tail :: "'n \<Rightarrow> 'n \<Rightarrow> 'n links \<Rightarrow> 'n links option" where
  "list_add_tail el head L = do {
     prev \<leftarrow> l_prev (L head);
     Some (list_add_between el prev head L)
   }"

definition list_del :: "'n \<Rightarrow> 'n links \<Rightarrow> 'n links option" where
  "list_del el L = do {
     prev \<leftarrow> l_prev (L el);
     next \<leftarrow> l_next (L el);
     let L = set_next prev (Some next) L;
     let L = set_prev next (Some prev) L;
     let L = set_prev el None L;
     Some (set_next el None L)
   }"

definition list_empty :: "'n \<Rightarrow> 'n links \<Rightarrow> bool" where
  "list_empty el L \<longleftrightarrow> l_next (L el) = Some el"

section \<open>Rings and their elements\<close>

fun dseg :: "'n links \<Rightarrow> 'n \<Rightarrow> 'n list \<Rightarrow> 'n \<Rightarrow> bool" where
  "dseg L a [] b \<longleftrightarrow> l_next (L a) = Some b \<and> l_prev (L b) = Some a"
| "dseg L a (x # xs) b \<longleftrightarrow> l_next (L a) = Some x \<and> l_prev (L x) = Some a \<and> dseg L x xs b"

definition dlist :: "'n links \<Rightarrow> 'n \<Rightarrow> 'n list \<Rightarrow> bool" where
  "dlist L h xs \<longleftrightarrow> distinct (h # xs) \<and> dseg L h xs h"

lemma dseg_append [simp]:
  "dseg L a (xs @ y # ys) b \<longleftrightarrow> dseg L a xs y \<and> dseg L y ys b"
  by (induction xs arbitrary: a) auto

lemma dseg_first: "dseg L a xs b \<Longrightarrow> l_next (L a) = Some (hd (xs @ [b]))"
  by (cases xs) auto

lemma dseg_last: "dseg L a xs b \<Longrightarrow> l_prev (L b) = Some (last (a # xs))"
  by (induction xs arbitrary: a) auto

text \<open>A segment from a to b reads the next links of a and its inner nodes, and the previous links of these and b.\<close>

lemma dseg_cong:
  assumes "\<And>n. n \<in> insert a (set xs) \<Longrightarrow> l_next (L' n) = l_next (L n)"
    and "\<And>n. n \<in> insert b (set xs) \<Longrightarrow> l_prev (L' n) = l_prev (L n)"
  shows "dseg L' a xs b = dseg L a xs b"
  using assms by (induction xs arbitrary: a) auto

lemma links_simps [simp]:
  "l_next (set_next n v L m) = (if m = n then v else l_next (L m))"
  "l_prev (set_next n v L m) = l_prev (L m)"
  "l_prev (set_prev n v L m) = (if m = n then v else l_prev (L m))"
  "l_next (set_prev n v L m) = l_next (L m)"
  by (auto simp: set_next_def set_prev_def)

lemma dseg_set_next [simp]: "n \<noteq> a \<Longrightarrow> n \<notin> set xs \<Longrightarrow> dseg (set_next n v L) a xs b = dseg L a xs b"
  by (rule dseg_cong) auto

lemma dseg_set_prev [simp]: "n \<noteq> b \<Longrightarrow> n \<notin> set xs \<Longrightarrow> dseg (set_prev n v L) a xs b = dseg L a xs b"
  by (rule dseg_cong) auto

lemma dlist_init: "dlist (init_list_head h L) h []"
  by (simp add: dlist_def init_list_head_def)

lemma dlist_empty: "dlist L h xs \<Longrightarrow> list_empty h L \<longleftrightarrow> xs = []"
  by (cases xs) (auto simp: dlist_def list_empty_def)

lemma dlist_next: "dlist L h (xs @ y # ys) \<Longrightarrow> l_next (L y) = Some (hd (ys @ [h]))"
  by (auto simp: dlist_def dest: dseg_first)

lemma dlist_next_head: "dlist L h xs \<Longrightarrow> l_next (L h) = Some (hd (xs @ [h]))"
  by (auto simp: dlist_def dest: dseg_first)

text \<open>Inserting between two neighbours, and taking an element out.\<close>

lemma dlist_add_between:
  assumes "dlist L h (xs @ ys)" "el \<notin> set (h # xs @ ys)"
  shows "dlist (list_add_between el (last (h # xs)) (hd (ys @ [h])) L) h (xs @ el # ys)"
  using assms
  by (cases xs rule: rev_cases; cases ys) (auto simp: dlist_def list_add_between_def Let_def)

lemma dlist_add:
  assumes "dlist L h xs" "el \<notin> set (h # xs)"
  shows "\<exists>L'. list_add el h L = Some L' \<and> dlist L' h (el # xs)"
  using assms dlist_add_between [of L h "[]" xs el] by (simp add: list_add_def dlist_next_head)

lemma dlist_prev_head: "dlist L h xs \<Longrightarrow> l_prev (L h) = Some (last (h # xs))"
  by (auto simp: dlist_def dest: dseg_last)

lemma dlist_add_tail:
  assumes "dlist L h xs" "el \<notin> set (h # xs)"
  shows "\<exists>L'. list_add_tail el h L = Some L' \<and> dlist L' h (xs @ [el])"
  using assms dlist_add_between [of L h xs "[]" el] by (simp add: list_add_tail_def dlist_prev_head)

lemma dlist_del:
  assumes "dlist L h (xs @ y # ys)"
  shows "\<exists>L'. list_del y L = Some L' \<and> dlist L' h (xs @ ys)"
  using assms
  by (cases xs rule: rev_cases; cases ys) (auto simp: dlist_def list_del_def Let_def)

section \<open>Frames\<close>

text \<open>An operation writes only the nodes of its ring and the element: other rings keep their links.\<close>

lemma list_add_between_frame: "m \<notin> {el, p, n} \<Longrightarrow> list_add_between el p n L m = L m"
  by (auto simp: list_add_between_def set_next_def set_prev_def Let_def)

lemma dlist_links_in:
  "dlist L h xs \<Longrightarrow> m \<in> set (h # xs) \<Longrightarrow> the (l_next (L m)) \<in> set (h # xs) \<and> the (l_prev (L m)) \<in> set (h # xs)"
proof -
  assume L: "dlist L h xs" and m: "m \<in> set (h # xs)"
  have "hd (ys @ [h]) \<in> set (h # ys)" "last (h # ys) \<in> set (h # ys)" for ys
    by (cases ys) auto
  note ends = this
  show ?thesis
  proof (cases "m = h")
    case True
    with L ends [of xs] show ?thesis by (simp add: dlist_next_head dlist_prev_head del: last.simps)
  next
    case False
    with m obtain ys zs where xs: "xs = ys @ m # zs" by (auto simp: in_set_conv_decomp)
    with L have "l_prev (L m) = Some (last (h # ys))" by (auto simp: dlist_def dest: dseg_last)
    with L xs ends [of ys] ends [of zs] show ?thesis by (auto simp: dlist_next simp del: last.simps)
  qed
qed

lemma list_add_frame:
  assumes "dlist L h xs" "list_add el h L = Some L'" "m \<notin> set (el # h # xs)"
  shows "L' m = L m"
  using assms dlist_links_in [OF assms(1), of h]
  by (auto simp: list_add_def dlist_next_head intro!: list_add_between_frame)

lemma list_add_tail_frame:
  assumes "dlist L h xs" "list_add_tail el h L = Some L'" "m \<notin> set (el # h # xs)"
  shows "L' m = L m"
  using assms dlist_links_in [OF assms(1), of h]
  by (auto simp: list_add_tail_def dlist_prev_head intro!: list_add_between_frame simp del: last.simps)

lemma list_del_frame:
  assumes "dlist L h xs" "list_del y L = Some L'" "y \<in> set xs" "m \<notin> set (h # xs)"
  shows "L' m = L m"
  using assms dlist_links_in [OF assms(1), of y]
  by (auto simp: list_del_def set_next_def set_prev_def Let_def bind_eq_Some_conv)

lemma dlist_cong: "(\<And>n. n \<in> set (h # xs) \<Longrightarrow> L' n = L n) \<Longrightarrow> dlist L' h xs = dlist L h xs"
  using dseg_cong [of h xs L' L h] by (simp add: dlist_def)

section \<open>A family of rings\<close>

text \<open>The rings of all heads in H, F giving the elements of each; no node is in two of them.\<close>

definition lists :: "'n set \<Rightarrow> 'n links \<Rightarrow> ('n \<Rightarrow> 'n list) \<Rightarrow> bool" where
  "lists H L F \<longleftrightarrow> (\<forall>h\<in>H. dlist L h (F h)) \<and>
     (\<forall>h\<in>H. \<forall>h'\<in>H. h \<noteq> h' \<longrightarrow> set (h # F h) \<inter> set (h' # F h') = {})"

text \<open>
  What a user of several lists relies on: the elements are apart from the heads and from the elements of other
  lists, and the operations act on the lists of elements.
\<close>

locale intrusive_lists =
  fixes heads :: "'n set"
    and rep :: "'m \<Rightarrow> ('n \<Rightarrow> 'n list) \<Rightarrow> bool"
    and init :: "'n \<Rightarrow> 'm \<Rightarrow> 'm"
    and add :: "'n \<Rightarrow> 'n \<Rightarrow> 'm \<Rightarrow> 'm option"
    and add_tail :: "'n \<Rightarrow> 'n \<Rightarrow> 'm \<Rightarrow> 'm option"
    and del :: "'n \<Rightarrow> 'm \<Rightarrow> 'm option"
    and next_node :: "'m \<Rightarrow> 'n \<Rightarrow> 'n option"
  assumes rep_distinct: "rep m F \<Longrightarrow> h \<in> heads \<Longrightarrow> distinct (F h)"
    and rep_heads: "rep m F \<Longrightarrow> h \<in> heads \<Longrightarrow> set (F h) \<inter> heads = {}"
    and rep_disjoint: "rep m F \<Longrightarrow> h \<in> heads \<Longrightarrow> h' \<in> heads \<Longrightarrow> h \<noteq> h' \<Longrightarrow> set (F h) \<inter> set (F h') = {}"
    and init_rep: "rep m F \<Longrightarrow> h \<in> heads \<Longrightarrow> rep (init h m) (F(h := []))"
    and add_rep: "rep m F \<Longrightarrow> h \<in> heads \<Longrightarrow> x \<notin> heads \<Longrightarrow> \<forall>h'\<in>heads. x \<notin> set (F h') \<Longrightarrow>
        \<exists>m'. add x h m = Some m' \<and> rep m' (F(h := x # F h))"
    and add_tail_rep: "rep m F \<Longrightarrow> h \<in> heads \<Longrightarrow> x \<notin> heads \<Longrightarrow> \<forall>h'\<in>heads. x \<notin> set (F h') \<Longrightarrow>
        \<exists>m'. add_tail x h m = Some m' \<and> rep m' (F(h := F h @ [x]))"
    and del_rep: "rep m F \<Longrightarrow> h \<in> heads \<Longrightarrow> F h = xs @ y # ys \<Longrightarrow>
        \<exists>m'. del y m = Some m' \<and> rep m' (F(h := xs @ ys))"
    and next_elem: "rep m F \<Longrightarrow> h \<in> heads \<Longrightarrow> F h = xs @ y # ys \<Longrightarrow> next_node m y = Some (hd (ys @ [h]))"
    and next_head: "rep m F \<Longrightarrow> h \<in> heads \<Longrightarrow> next_node m h = Some (hd (F h @ [h]))"
begin

lemma del_fresh:
  assumes "rep m F" "h \<in> heads" "F h = xs @ y # ys"
  shows "y \<notin> heads" "\<forall>k\<in>heads. y \<notin> set ((F(h := xs @ ys)) k)"
proof -
  show "y \<notin> heads" using rep_heads [OF assms(1,2)] assms(3) by auto
  show "\<forall>k\<in>heads. y \<notin> set ((F(h := xs @ ys)) k)"
  proof
    fix k assume "k \<in> heads"
    with rep_distinct [OF assms(1,2)] rep_disjoint [OF assms(1,2), of k] assms(3)
    show "y \<notin> set ((F(h := xs @ ys)) k)" by (cases "k = h") auto
  qed
qed

text \<open>\<open>list_del\<close> followed by \<open>list_add_tail\<close>: an element moves to the end of another list.\<close>

lemma move_tail:
  assumes F: "rep m F" "h \<in> heads" "F h = xs @ y # ys" and h': "h' \<in> heads" "h' \<noteq> h"
  shows "\<exists>m'. Option.bind (del y m) (add_tail y h') = Some m' \<and> rep m' (F(h := xs @ ys, h' := F h' @ [y]))"
proof -
  obtain m1 where m1: "del y m = Some m1" "rep m1 (F(h := xs @ ys))"
    using del_rep [OF F] by blast
  then show ?thesis
    using add_tail_rep [OF m1(2) h'(1) del_fresh [OF F]] h'(2) by (simp del: fun_upd_apply) (simp add: fun_upd_def)
qed

lemma move_head:
  assumes F: "rep m F" "h \<in> heads" "F h = xs @ y # ys" and h': "h' \<in> heads" "h' \<noteq> h"
  shows "\<exists>m'. Option.bind (del y m) (add y h') = Some m' \<and> rep m' (F(h := xs @ ys, h' := y # F h'))"
proof -
  obtain m1 where m1: "del y m = Some m1" "rep m1 (F(h := xs @ ys))"
    using del_rep [OF F] by blast
  then show ?thesis
    using add_rep [OF m1(2) h'(1) del_fresh [OF F]] h'(2) by (simp del: fun_upd_apply) (simp add: fun_upd_def)
qed

end

lemma lists_update:
  assumes L: "lists H L F" and h: "h \<in> H" and L': "dlist L' h zs"
    and frame: "\<And>m. m \<notin> set (h # F h) \<union> A \<Longrightarrow> L' m = L m"
    and zs: "set zs \<subseteq> set (F h) \<union> A" and A: "\<And>h'. h' \<in> H \<Longrightarrow> h' \<noteq> h \<Longrightarrow> A \<inter> set (h' # F h') = {}"
  shows "lists H L' (F(h := zs))"
proof -
  have "dlist L' k (F k)" if k: "k \<in> H" "k \<noteq> h" for k
  proof -
    have "set (k # F k) \<inter> set (h # F h) = {}" "A \<inter> set (k # F k) = {}" using L h k A by (auto simp: lists_def)
    then have "L' n = L n" if "n \<in> set (k # F k)" for n using that by (intro frame) blast
    then show ?thesis using L k dlist_cong [of k "F k" L' L] by (auto simp: lists_def)
  qed
  moreover have "set (h # zs) \<inter> set (k # F k) = {}" if k: "k \<in> H" "k \<noteq> h" for k
  proof -
    have "set (k # F k) \<inter> set (h # F h) = {}" "A \<inter> set (k # F k) = {}" using L h k A by (auto simp: lists_def)
    with zs show ?thesis by auto
  qed
  ultimately show ?thesis using L L' unfolding lists_def by (auto simp: Int_commute)
qed

interpretation lh: intrusive_lists H "lists H" init_list_head list_add list_add_tail list_del "\<lambda>L n. l_next (L n)" for H
proof
  fix L :: "'a links" and F h x xs y ys
  assume L: "lists H L F" and h: "h \<in> H"
  then have ring: "dlist L h (F h)" and apart: "\<And>k. k \<in> H \<Longrightarrow> k \<noteq> h \<Longrightarrow> set (h # F h) \<inter> set (k # F k) = {}"
    by (auto simp: lists_def)
  show "distinct (F h)" using ring by (simp add: dlist_def)
  show "set (F h) \<inter> H = {}" using ring apart by (fastforce simp: dlist_def)
  show "l_next (L h) = Some (hd (F h @ [h]))" using ring by (rule dlist_next_head)
  show "lists H (init_list_head h L) (F(h := []))"
    by (rule lists_update [OF L h dlist_init, where A = "{}"]) (auto simp: init_list_head_def set_next_def set_prev_def)
  show "\<exists>m'. list_add x h L = Some m' \<and> lists H m' (F(h := x # F h))" if "x \<notin> H" "\<forall>k\<in>H. x \<notin> set (F k)"
  proof -
    have "x \<notin> set (h # F h)" using that h by auto
    then obtain m' where "list_add x h L = Some m'" "dlist m' h (x # F h)" using dlist_add [OF ring] by blast
    then show ?thesis
      using that list_add_frame [OF ring] by (intro exI conjI lists_update [OF L h, where A = "{x}"]) auto
  qed
  show "\<exists>m'. list_add_tail x h L = Some m' \<and> lists H m' (F(h := F h @ [x]))" if "x \<notin> H" "\<forall>k\<in>H. x \<notin> set (F k)"
  proof -
    have "x \<notin> set (h # F h)" using that h by auto
    then obtain m' where "list_add_tail x h L = Some m'" "dlist m' h (F h @ [x])" using dlist_add_tail [OF ring] by blast
    then show ?thesis
      using that list_add_tail_frame [OF ring] by (intro exI conjI lists_update [OF L h, where A = "{x}"]) auto
  qed
  show "\<exists>m'. list_del y L = Some m' \<and> lists H m' (F(h := xs @ ys))" if "F h = xs @ y # ys"
  proof -
    obtain m' where "list_del y L = Some m'" "dlist m' h (xs @ ys)" using dlist_del [of L h xs y ys] ring \<open>F h = xs @ y # ys\<close> by auto
    then show ?thesis
      using that list_del_frame [OF ring] by (intro exI conjI lists_update [OF L h, where A = "{}"]) auto
  qed
  show "l_next (L y) = Some (hd (ys @ [h]))" if "F h = xs @ y # ys" using ring that by (auto dest: dlist_next)
  show "set (F h) \<inter> set (F k) = {}" if "k \<in> H" "h \<noteq> k" for k using apart [of k] that by auto
qed

section \<open>Sequences of operations\<close>

datatype 'n list_op = List_add 'n 'n | List_add_tail 'n 'n | List_del 'n

fun run_list_op :: "'n list_op \<Rightarrow> 'n links \<Rightarrow> 'n links option" where
  "run_list_op (List_add el head) L = list_add el head L"
| "run_list_op (List_add_tail el head) L = list_add_tail el head L"
| "run_list_op (List_del el) L = list_del el L"

text \<open>What the operations mean for the lists of the heads hs, and when a program may call them.\<close>

fun spec_list_op :: "'n list \<Rightarrow> 'n list_op \<Rightarrow> ('n \<Rightarrow> 'n list) \<Rightarrow> ('n \<Rightarrow> 'n list) option" where
  "spec_list_op hs (List_add el head) F =
     (if head \<in> set hs \<and> el \<notin> set hs \<and> (\<forall>h\<in>set hs. el \<notin> set (F h)) then Some (F(head := el # F head)) else None)"
| "spec_list_op hs (List_add_tail el head) F =
     (if head \<in> set hs \<and> el \<notin> set hs \<and> (\<forall>h\<in>set hs. el \<notin> set (F h)) then Some (F(head := F head @ [el])) else None)"
| "spec_list_op hs (List_del el) F =
     (case find (\<lambda>h. el \<in> set (F h)) hs of None \<Rightarrow> None | Some h \<Rightarrow> Some (F(h := remove1 el (F h))))"

fun run_list_ops :: "'n list_op list \<Rightarrow> 'n links \<Rightarrow> 'n links option" where
  "run_list_ops [] L = Some L"
| "run_list_ops (q # qs) L = Option.bind (run_list_op q L) (run_list_ops qs)"

fun spec_list_ops :: "'n list \<Rightarrow> 'n list_op list \<Rightarrow> ('n \<Rightarrow> 'n list) \<Rightarrow> ('n \<Rightarrow> 'n list) option" where
  "spec_list_ops hs [] F = Some F"
| "spec_list_ops hs (q # qs) F = Option.bind (spec_list_op hs q F) (spec_list_ops hs qs)"

lemma run_list_op_refines:
  assumes "lists (set hs) L F" "spec_list_op hs q F = Some F'"
  shows "\<exists>L'. run_list_op q L = Some L' \<and> lists (set hs) L' F'"
proof (cases q)
  case (List_add el head)
  with assms show ?thesis using lh.add_rep [OF assms(1)] by (auto split: if_splits)
next
  case (List_add_tail el head)
  with assms show ?thesis using lh.add_tail_rep [OF assms(1)] by (auto split: if_splits)
next
  case (List_del el)
  with assms(2) obtain h where found: "find (\<lambda>h. el \<in> set (F h)) hs = Some h" and F': "F' = F(h := remove1 el (F h))"
    by (auto split: option.splits)
  from found have h: "h \<in> set hs" "el \<in> set (F h)" by (auto simp: find_Some_iff)
  then obtain xs ys where "F h = xs @ el # ys" "el \<notin> set xs" by (meson split_list_first)
  with lh.del_rep [OF assms(1) h(1)] List_del F' show ?thesis by (simp add: remove1_append)
qed

text \<open>
  C24: the pointer operations of list.h implement list operations. A program may add an element that is in no list
  and delete one that is; then any sequence of operations on any number of lists follows no \<open>NULL\<close> link, and the
  links it leaves are those of the lists that result from \<open>Cons\<close>, appending and \<open>remove1\<close>.
\<close>

theorem list_ops_refine:
  assumes "lists (set hs) L F" "spec_list_ops hs qs F = Some F'"
  shows "\<exists>L'. run_list_ops qs L = Some L' \<and> lists (set hs) L' F'"
  using assms
proof (induction qs arbitrary: L F)
  case (Cons q qs)
  obtain F1 where F1: "spec_list_op hs q F = Some F1" "spec_list_ops hs qs F1 = Some F'"
    using Cons.prems(2) by (auto simp: bind_eq_Some_conv)
  with run_list_op_refines [OF Cons.prems(1) F1(1)] Cons.IH [OF _ F1(2)] show ?case by auto
qed simp

lemma lists_init2:
  assumes "h \<noteq> k"
  shows "lists {h, k} (init_list_head h (init_list_head k L)) (\<lambda>_. [])"
  using assms by (auto simp: lists_def dlist_def init_list_head_def)

theorem list_ops_refine_witness:
  "\<exists>L. run_list_ops [List_add 5 0, List_add 6 0, List_del 5, List_add_tail 5 1] (init_list_head 0 (init_list_head (1::nat)
      (\<lambda>_. \<lparr>l_prev = None, l_next = None\<rparr>))) = Some L
    \<and> lists (set [0, 1]) L ((\<lambda>_. [])(0 := [6], 1 := [5]))"
proof (rule list_ops_refine)
  show "lists (set [0, 1]) (init_list_head 0 (init_list_head (1::nat) (\<lambda>_. \<lparr>l_prev = None, l_next = None\<rparr>))) (\<lambda>_. [])"
    using lists_init2 [of "0::nat" 1] by simp
  show "spec_list_ops [0, 1] [List_add 5 0, List_add 6 0, List_del 5, List_add_tail 5 1] (\<lambda>_. [])
      = Some ((\<lambda>_. [])(0 := [6], 1 := [5 :: nat]))"
    by (auto simp: fun_upd_def)
qed

end
