(* ===== verification/Gc_Heap.thy ===== *)
theory Gc_Heap
  imports List_Head
begin

text \<open>
  The objects of the garbage collector, quickjs.c: what a \<open>JSObject\<close>, a shape, a closure variable, a function, the
  data of an async function and a context refer to, and the mark functions that enumerate these references.

  A mark function calls \<open>mark_func\<close> on a sequence of headers and writes nothing itself; it is modelled by this
  sequence, \<open>None\<close> for undefined behaviour (a dangling pointer, the wrong member of a union, a failed assertion).
  Headers are addresses; the contents of the objects are the map \<open>gc_heap\<close>. Classes added at run time have their
  mark function in the class table of the runtime; the payload type \<open>'p\<close> is their opaque data.
\<close>

section \<open>Values\<close>

record js_value =
  v_tag :: u32
  v_ptr :: nat

definition JS_TAG_FIRST :: u32 where "JS_TAG_FIRST = - 11"
definition JS_TAG_FUNCTION_BYTECODE :: u32 where "JS_TAG_FUNCTION_BYTECODE = - 2"
definition JS_TAG_OBJECT :: u32 where "JS_TAG_OBJECT = - 1"
definition JS_TAG_UNDEFINED :: u32 where "JS_TAG_UNDEFINED = 3"

definition JS_VALUE_HAS_REF_COUNT :: "js_value \<Rightarrow> bool" where
  "JS_VALUE_HAS_REF_COUNT v \<longleftrightarrow> v_tag v \<ge> JS_TAG_FIRST"

definition JS_MKPTR :: "u32 \<Rightarrow> nat \<Rightarrow> js_value" where
  "JS_MKPTR tag p = \<lparr>v_tag = tag, v_ptr = p\<rparr>"

definition JS_MarkValue :: "js_value \<Rightarrow> nat list" where
  "JS_MarkValue val =
     (if JS_VALUE_HAS_REF_COUNT val then
        (if v_tag val = JS_TAG_OBJECT \<or> v_tag val = JS_TAG_FUNCTION_BYTECODE then [v_ptr val] else [])
      else [])"

section \<open>Objects\<close>

datatype js_property =
    Prop_value js_value
  | Prop_getset "nat option" "nat option"
  | Prop_var_ref nat
  | Prop_init nat

definition JS_ATOM_NULL :: u32 where "JS_ATOM_NULL = 0"
definition JS_PROP_TMASK :: u8 where "JS_PROP_TMASK = 0x30"
definition JS_PROP_GETSET :: u8 where "JS_PROP_GETSET = 0x10"
definition JS_PROP_VARREF :: u8 where "JS_PROP_VARREF = 0x20"
definition JS_PROP_AUTOINIT :: u8 where "JS_PROP_AUTOINIT = 0x30"

record js_shape =
  sh_proto :: "nat option"
  sh_prop :: "(u32 \<times> u8) list"

record js_var_ref =
  is_detached :: bool
  vr_pvalue :: js_value

record js_function_bytecode =
  b_cpool :: "js_value list"
  b_closure_var_count :: nat
  b_realm :: "nat option"

text \<open>The frame of a suspended function: \<open>cur_sp\<close> is \<open>None\<close> for a running one, otherwise the values below it.\<close>

record js_async_function_state =
  this_val :: js_value
  cur_func :: js_value
  cur_sp :: "js_value list option"

record js_async_function_data =
  resolving_funcs :: "js_value list"
  is_active :: bool
  func_state :: js_async_function_state

datatype js_export_entry =
    Export_local "nat option"
  | Export_indirect

record js_module_def =
  export_entries :: "js_export_entry list"
  module_ns :: js_value
  func_obj :: js_value
  eval_exception :: js_value
  meta_obj :: js_value

record js_context =
  loaded_modules :: "js_module_def list"
  global_obj :: js_value
  global_var_obj :: js_value
  throw_type_error :: js_value
  eval_obj :: js_value
  array_proto_values :: js_value
  native_error_proto :: "js_value list"
  class_proto :: "js_value list"
  iterator_proto :: js_value
  async_iterator_proto :: js_value
  promise_ctor :: js_value
  array_ctor :: js_value
  regexp_ctor :: js_value
  function_ctor :: js_value
  function_proto :: js_value
  array_shape :: "nat option"

record js_map_state =
  is_weak :: bool
  map_records :: "(js_value \<times> js_value) list"

text \<open>The union \<open>u\<close> of a \<open>JSObject\<close>, as its class uses it.\<close>

datatype 'p js_class_data =
    U_none
  | U_array "js_value list"
  | U_object_data js_value
  | U_cfunc "nat option"
  | U_func "nat option" "nat option list option" "nat option"
  | U_bound_function js_value js_value "js_value list"
  | U_for_in_iterator js_value
  | U_c_function_data_record "js_value list option"
  | U_map_state "js_map_state option"
  | U_map_iterator_data "js_value option"
  | U_generator_data "(bool \<times> js_async_function_state) option"
  | U_typed_array "nat option"
  | U_operator_set "(nat option list \<times> nat option list list \<times> nat option list list) option"
  | U_array_iterator_data "js_value option"
  | U_regexp_string_iterator_data "(js_value \<times> js_value) option"
  | U_proxy_data "(js_value \<times> js_value) option"
  | U_promise_data "((js_value \<times> js_value \<times> js_value) list \<times> (js_value \<times> js_value \<times> js_value) list \<times> js_value) option"
  | U_promise_function_data "js_value option"
  | U_async_function_data "nat option"
  | U_async_from_sync_iterator_data "(js_value \<times> js_value) option"
  | U_async_generator_data "((js_value \<times> js_value \<times> js_value \<times> js_value) list \<times> bool \<times> js_async_function_state) option"
  | U_opaque 'p

record 'p js_object =
  o_shape :: nat
  o_prop :: "js_property list"
  class_id :: nat
  o_u :: "'p js_class_data"

definition JS_CLASS_OBJECT :: nat where "JS_CLASS_OBJECT = 1"

datatype 'p gc_object =
    Js_object "'p js_object"
  | Function_bytecode js_function_bytecode
  | Shape js_shape
  | Var_ref js_var_ref
  | Async_function js_async_function_data
  | Js_context js_context

type_synonym 'p gc_heap = "nat \<Rightarrow> 'p gc_object option"

text \<open>The pointers of the C code have a type; a cast to another one is undefined.\<close>

definition get_shape :: "'p gc_heap \<Rightarrow> nat \<Rightarrow> js_shape option" where
  "get_shape h p = (case h p of Some (Shape sh) \<Rightarrow> Some sh | _ \<Rightarrow> None)"

definition get_var_ref :: "'p gc_heap \<Rightarrow> nat \<Rightarrow> js_var_ref option" where
  "get_var_ref h p = (case h p of Some (Var_ref r) \<Rightarrow> Some r | _ \<Rightarrow> None)"

definition get_bytecode :: "'p gc_heap \<Rightarrow> nat \<Rightarrow> js_function_bytecode option" where
  "get_bytecode h p = (case h p of Some (Function_bytecode b) \<Rightarrow> Some b | _ \<Rightarrow> None)"

definition opt_list :: "'a option \<Rightarrow> 'a list" where
  "opt_list x = (case x of None \<Rightarrow> [] | Some a \<Rightarrow> [a])"

section \<open>The mark functions of the classes\<close>

type_synonym 'p gc_mark = "'p gc_heap \<Rightarrow> 'p js_class_data \<Rightarrow> nat list option"

definition mark_values :: "js_value list \<Rightarrow> nat list" where
  "mark_values vs = concat (map JS_MarkValue vs)"

definition js_array_mark :: "'p gc_mark" where
  "js_array_mark h u = (case u of
     U_array vs \<Rightarrow> Some (mark_values vs)
   | _ \<Rightarrow> None)"

definition js_object_data_mark :: "'p gc_mark" where
  "js_object_data_mark h u = (case u of
     U_object_data v \<Rightarrow> Some (JS_MarkValue v)
   | _ \<Rightarrow> None)"

definition js_c_function_mark :: "'p gc_mark" where
  "js_c_function_mark h u = (case u of
     U_cfunc realm \<Rightarrow> Some (opt_list realm)
   | _ \<Rightarrow> None)"

definition mark_object :: "nat option \<Rightarrow> nat list" where
  "mark_object p = (case p of None \<Rightarrow> [] | Some p \<Rightarrow> JS_MarkValue (JS_MKPTR JS_TAG_OBJECT p))"

fun mark_detached :: "'p gc_heap \<Rightarrow> nat option list \<Rightarrow> nat list option" where
  "mark_detached h [] = Some []"
| "mark_detached h (None # rs) = mark_detached h rs"
| "mark_detached h (Some p # rs) = do {
     r \<leftarrow> get_var_ref h p;
     ps \<leftarrow> mark_detached h rs;
     Some (if is_detached r then p # ps else ps)
   }"

definition js_bytecode_function_mark :: "'p gc_mark" where
  "js_bytecode_function_mark h u = (case u of
     U_func b var_refs home_object \<Rightarrow> do {
     ps \<leftarrow> (case b of
        None \<Rightarrow> Some []
      | Some p \<Rightarrow> do {
          f \<leftarrow> get_bytecode h p;
          rs \<leftarrow> (case var_refs of
             None \<Rightarrow> Some []
           | Some rs \<Rightarrow> do {
               c_assert (b_closure_var_count f \<le> length rs);
               mark_detached h (take (b_closure_var_count f) rs)
             });
          Some (rs @ JS_MarkValue (JS_MKPTR JS_TAG_FUNCTION_BYTECODE p))
        });
     Some (mark_object home_object @ ps)
   }
   | _ \<Rightarrow> None)"

definition js_bound_function_mark :: "'p gc_mark" where
  "js_bound_function_mark h u = (case u of
     U_bound_function f t argv \<Rightarrow>      Some (JS_MarkValue f @ JS_MarkValue t @ mark_values argv)
   | _ \<Rightarrow> None)"

definition js_for_in_iterator_mark :: "'p gc_mark" where
  "js_for_in_iterator_mark h u = (case u of
     U_for_in_iterator v \<Rightarrow> Some (JS_MarkValue v)
   | _ \<Rightarrow> None)"

definition js_c_function_data_mark :: "'p gc_mark" where
  "js_c_function_data_mark h u = (case u of
     U_c_function_data_record s \<Rightarrow>      Some (case s of None \<Rightarrow> [] | Some vs \<Rightarrow> mark_values vs)
   | _ \<Rightarrow> None)"

definition js_map_mark :: "'p gc_mark" where
  "js_map_mark h u = (case u of
     U_map_state s \<Rightarrow>      Some (case s of
        None \<Rightarrow> []
      | Some s \<Rightarrow> concat (map (\<lambda>(k, v). (if is_weak s then [] else JS_MarkValue k) @ JS_MarkValue v) (map_records s)))
   | _ \<Rightarrow> None)"

definition js_map_iterator_mark :: "'p gc_mark" where
  "js_map_iterator_mark h u = (case u of
     U_map_iterator_data it \<Rightarrow> Some (case it of None \<Rightarrow> [] | Some v \<Rightarrow> JS_MarkValue v)
   | _ \<Rightarrow> None)"

definition async_func_mark :: "js_async_function_state \<Rightarrow> nat list" where
  "async_func_mark s = JS_MarkValue (cur_func s) @ JS_MarkValue (this_val s) @
     (case cur_sp s of None \<Rightarrow> [] | Some vs \<Rightarrow> mark_values vs)"

text \<open>The first component says that the state is \<open>JS_GENERATOR_STATE_COMPLETED\<close>.\<close>

definition js_generator_mark :: "'p gc_mark" where
  "js_generator_mark h u = (case u of
     U_generator_data s \<Rightarrow>      Some (case s of None \<Rightarrow> [] | Some (completed, f) \<Rightarrow> if completed then [] else async_func_mark f)
   | _ \<Rightarrow> None)"

definition js_async_function_resolve_mark :: "'p gc_mark" where
  "js_async_function_resolve_mark h u = (case u of
     U_async_function_data s \<Rightarrow> Some (opt_list s)
   | _ \<Rightarrow> None)"

definition js_typed_array_mark :: "'p gc_mark" where
  "js_typed_array_mark h u = (case u of
     U_typed_array buffer \<Rightarrow> Some (mark_object buffer)
   | _ \<Rightarrow> None)"

definition js_operator_set_mark :: "'p gc_mark" where
  "js_operator_set_mark h u = (case u of
     U_operator_set opset \<Rightarrow> Some (case opset of
         None \<Rightarrow> []
       | Some (self_ops, left, right) \<Rightarrow>
           concat (map mark_object self_ops) @ concat (map (\<lambda>ops. concat (map mark_object ops)) left) @
           concat (map (\<lambda>ops. concat (map mark_object ops)) right))
   | _ \<Rightarrow> None)"

definition js_array_iterator_mark :: "'p gc_mark" where
  "js_array_iterator_mark h u = (case u of
     U_array_iterator_data it \<Rightarrow> Some (case it of None \<Rightarrow> [] | Some v \<Rightarrow> JS_MarkValue v)
   | _ \<Rightarrow> None)"

definition js_regexp_string_iterator_mark :: "'p gc_mark" where
  "js_regexp_string_iterator_mark h u = (case u of
     U_regexp_string_iterator_data it \<Rightarrow> Some (case it of None \<Rightarrow> [] | Some (r, s) \<Rightarrow> JS_MarkValue r @ JS_MarkValue s)
   | _ \<Rightarrow> None)"

definition js_proxy_mark :: "'p gc_mark" where
  "js_proxy_mark h u = (case u of
     U_proxy_data s \<Rightarrow> Some (case s of None \<Rightarrow> [] | Some (target, handler) \<Rightarrow> JS_MarkValue target @ JS_MarkValue handler)
   | _ \<Rightarrow> None)"

definition mark_reaction :: "js_value \<times> js_value \<times> js_value \<Rightarrow> nat list" where
  "mark_reaction = (\<lambda>(f0, f1, handler). JS_MarkValue f0 @ JS_MarkValue f1 @ JS_MarkValue handler)"

definition js_promise_mark :: "'p gc_mark" where
  "js_promise_mark h u = (case u of
     U_promise_data s \<Rightarrow> Some (case s of
         None \<Rightarrow> []
       | Some (fulfill, reject, result) \<Rightarrow>
           concat (map mark_reaction fulfill) @ concat (map mark_reaction reject) @ JS_MarkValue result)
   | _ \<Rightarrow> None)"

definition js_promise_resolve_function_mark :: "'p gc_mark" where
  "js_promise_resolve_function_mark h u = (case u of
     U_promise_function_data s \<Rightarrow> Some (case s of None \<Rightarrow> [] | Some promise \<Rightarrow> JS_MarkValue promise)
   | _ \<Rightarrow> None)"

definition js_async_from_sync_iterator_mark :: "'p gc_mark" where
  "js_async_from_sync_iterator_mark h u = (case u of
     U_async_from_sync_iterator_data s \<Rightarrow> Some (case s of None \<Rightarrow> [] | Some (it, next) \<Rightarrow> JS_MarkValue it @ JS_MarkValue next)
   | _ \<Rightarrow> None)"

text \<open>The queue of requests, and whether the state is COMPLETED or AWAITING\_RETURN.\<close>

definition js_async_generator_mark :: "'p gc_mark" where
  "js_async_generator_mark h u = (case u of
     U_async_generator_data s \<Rightarrow> Some (case s of
         None \<Rightarrow> []
       | Some (queue, done, f) \<Rightarrow>
           concat (map (\<lambda>(result, promise, f0, f1).
             JS_MarkValue result @ JS_MarkValue promise @ JS_MarkValue f0 @ JS_MarkValue f1) queue) @
           (if done then [] else async_func_mark f))
   | _ \<Rightarrow> None)"

section \<open>Marking the children of an object\<close>

text \<open>A class table entry: \<open>None\<close> outside the table, \<open>Some None\<close> for a class with no mark function.\<close>

type_synonym 'p class_array = "nat \<Rightarrow> 'p gc_mark option option"

text \<open>The mark functions in the class tables, from \<open>JS_CLASS_OBJECT\<close> on, with CONFIG\_BIGNUM.\<close>

definition js_std_class_def :: "'p gc_mark option list" where
  "js_std_class_def = [
     None, Some js_array_mark, None, Some js_object_data_mark, Some js_object_data_mark,
     Some js_object_data_mark, Some js_object_data_mark, Some js_array_mark, None,
     Some js_object_data_mark, None, Some js_c_function_mark, Some js_bytecode_function_mark,
     Some js_bound_function_mark, Some js_c_function_data_mark, Some js_bytecode_function_mark,
     Some js_for_in_iterator_mark, None, None, None, Some js_typed_array_mark, Some js_typed_array_mark,
     Some js_typed_array_mark, Some js_typed_array_mark, Some js_typed_array_mark,
     Some js_typed_array_mark, Some js_typed_array_mark, Some js_typed_array_mark,
     Some js_typed_array_mark, Some js_typed_array_mark, Some js_typed_array_mark,
     Some js_typed_array_mark, Some js_object_data_mark, Some js_object_data_mark, None,
     Some js_object_data_mark, Some js_operator_set_mark, Some js_map_mark, Some js_map_mark,
     Some js_map_mark, Some js_map_mark, Some js_map_iterator_mark, Some js_map_iterator_mark,
     Some js_array_iterator_mark, Some js_array_iterator_mark, Some js_regexp_string_iterator_mark,
     Some js_generator_mark]"

definition js_proxy_class_def :: "'p gc_mark option list" where
  "js_proxy_class_def = [Some js_proxy_mark]"

definition js_async_class_def :: "'p gc_mark option list" where
  "js_async_class_def = [
     Some js_promise_mark, Some js_promise_resolve_function_mark, Some js_promise_resolve_function_mark,
     Some js_bytecode_function_mark, Some js_async_function_resolve_mark,
     Some js_async_function_resolve_mark, Some js_async_from_sync_iterator_mark,
     Some js_bytecode_function_mark, Some js_async_generator_mark]"

definition js_class_array :: "'p class_array" where
  "js_class_array n =
     (let tab = js_std_class_def @ js_proxy_class_def @ js_async_class_def
      in if n < JS_CLASS_OBJECT \<or> n - JS_CLASS_OBJECT \<ge> length tab then None else Some (tab ! (n - JS_CLASS_OBJECT)))"

definition JS_CLASS_BYTECODE_FUNCTION :: nat where "JS_CLASS_BYTECODE_FUNCTION = 13"
definition JS_CLASS_GENERATOR :: nat where "JS_CLASS_GENERATOR = 47"

definition mark_property :: "'p gc_heap \<Rightarrow> u32 \<times> u8 \<Rightarrow> js_property \<Rightarrow> nat list option" where
  "mark_property h = (\<lambda>(atom, flags) pr.
     if atom = JS_ATOM_NULL then Some []
     else if flags AND JS_PROP_TMASK \<noteq> 0 then
       (if flags AND JS_PROP_TMASK = JS_PROP_GETSET then
          (case pr of Prop_getset getter setter \<Rightarrow> Some (opt_list getter @ opt_list setter) | _ \<Rightarrow> None)
        else if flags AND JS_PROP_TMASK = JS_PROP_VARREF then
          (case pr of Prop_var_ref p \<Rightarrow> do {
             r \<leftarrow> get_var_ref h p;
             Some (if is_detached r then [p] else [])
           } | _ \<Rightarrow> None)
        else if flags AND JS_PROP_TMASK = JS_PROP_AUTOINIT then
          (case pr of Prop_init realm \<Rightarrow> Some [realm] | _ \<Rightarrow> None)
        else Some [])
     else (case pr of Prop_value v \<Rightarrow> Some (JS_MarkValue v) | _ \<Rightarrow> None))"

fun mark_properties :: "'p gc_heap \<Rightarrow> (u32 \<times> u8) list \<Rightarrow> js_property list \<Rightarrow> nat list option" where
  "mark_properties h [] prop = Some []"
| "mark_properties h (prs # sh) [] = None"
| "mark_properties h (prs # sh) (pr # prop) = do {
     ps \<leftarrow> mark_property h prs pr;
     qs \<leftarrow> mark_properties h sh prop;
     Some (ps @ qs)
   }"

fun js_mark_export_entry :: "js_export_entry \<Rightarrow> nat list" where
  "js_mark_export_entry (Export_local r) = opt_list r"
| "js_mark_export_entry Export_indirect = []"

definition js_mark_module_def :: "js_module_def \<Rightarrow> nat list" where
  "js_mark_module_def m =
     concat (map js_mark_export_entry (export_entries m)) @
     JS_MarkValue (module_ns m) @ JS_MarkValue (func_obj m) @
     JS_MarkValue (eval_exception m) @ JS_MarkValue (meta_obj m)"

definition JS_MarkContext :: "js_context \<Rightarrow> nat list" where
  "JS_MarkContext ctx =
     concat (map js_mark_module_def (loaded_modules ctx)) @
     JS_MarkValue (global_obj ctx) @ JS_MarkValue (global_var_obj ctx) @
     JS_MarkValue (throw_type_error ctx) @ JS_MarkValue (eval_obj ctx) @
     JS_MarkValue (array_proto_values ctx) @
     mark_values (native_error_proto ctx) @ mark_values (class_proto ctx) @
     JS_MarkValue (iterator_proto ctx) @ JS_MarkValue (async_iterator_proto ctx) @
     JS_MarkValue (promise_ctor ctx) @ JS_MarkValue (array_ctor ctx) @
     JS_MarkValue (regexp_ctor ctx) @ JS_MarkValue (function_ctor ctx) @
     JS_MarkValue (function_proto ctx) @ opt_list (array_shape ctx)"

definition mark_js_object :: "'p class_array \<Rightarrow> 'p gc_heap \<Rightarrow> 'p js_object \<Rightarrow> nat list option" where
  "mark_js_object ca h p = do {
     sh \<leftarrow> get_shape h (o_shape p);
     ps \<leftarrow> mark_properties h (sh_prop sh) (o_prop p);
     qs \<leftarrow> (if class_id p \<noteq> JS_CLASS_OBJECT then do {
             gc_mark \<leftarrow> ca (class_id p);
             (case gc_mark of None \<Rightarrow> Some [] | Some f \<Rightarrow> f h (o_u p))
           } else Some []);
     Some (o_shape p # ps @ qs)
   }"

text \<open>The headers on which \<open>mark_children(rt, gp, mark_func)\<close> calls \<open>mark_func\<close>, in order.\<close>

definition mark_children :: "'p class_array \<Rightarrow> 'p gc_heap \<Rightarrow> nat \<Rightarrow> nat list option" where
  "mark_children ca h gp = do {
     ob \<leftarrow> h gp;
     (case ob of
        Js_object p \<Rightarrow> mark_js_object ca h p
      | Function_bytecode b \<Rightarrow> Some (mark_values (b_cpool b) @ opt_list (b_realm b))
      | Var_ref r \<Rightarrow> do {
          c_assert (is_detached r);
          Some (JS_MarkValue (vr_pvalue r))
        }
      | Async_function s \<Rightarrow>
          (case resolving_funcs s of
             [f0, f1] \<Rightarrow> Some ((if is_active s then async_func_mark (func_state s) else []) @ JS_MarkValue f0 @ JS_MarkValue f1)
           | _ \<Rightarrow> None)
      | Shape sh \<Rightarrow> Some (opt_list (sh_proto sh))
      | Js_context ctx \<Rightarrow> Some (JS_MarkContext ctx))
   }"

end
