(* ===== verification/Gc_Cycles.thy ===== *)
theory Gc_Cycles
  imports Gc_Heap
begin

text \<open>
  The trial deletion of the cycle collector, quickjs.c 5798 to 5860: \<open>gc_decref\<close> and \<open>gc_scan\<close> on the lists of the
  runtime. The collector works on the headers (reference count, mark, link) and reads the objects through
  \<open>mark_children\<close>. The loops follow the links, also those that change under them; a loop that does not end is
  \<open>None\<close>, like a failed assertion, an access to a freed object or a reference count above INT_MAX.
\<close>

section \<open>State and operations\<close>

datatype gc_node =
    Gc_obj_list
  | Tmp_obj_list
  | Gc_zero_ref_count_list
  | Gc_obj nat

definition gc_heads :: "gc_node set" where
  "gc_heads = {Gc_obj_list, Tmp_obj_list, Gc_zero_ref_count_list}"

record 'p js_runtime =
  rt_class_array :: "'p class_array"
  rt_heap :: "'p gc_heap"
  rt_ref_count :: "nat \<Rightarrow> int"
  rt_mark :: "nat \<Rightarrow> u8"
  rt_links :: "gc_node links"

fun list_entry :: "gc_node \<Rightarrow> nat option" where
  "list_entry (Gc_obj p) = Some p"
| "list_entry _ = None"

definition set_ref_count :: "nat \<Rightarrow> int \<Rightarrow> 'p js_runtime \<Rightarrow> 'p js_runtime" where
  "set_ref_count p n rt = rt\<lparr>rt_ref_count := (rt_ref_count rt)(p := n)\<rparr>"

definition set_mark :: "nat \<Rightarrow> u8 \<Rightarrow> 'p js_runtime \<Rightarrow> 'p js_runtime" where
  "set_mark p m rt = rt\<lparr>rt_mark := (rt_mark rt)(p := m)\<rparr>"

definition with_links :: "(gc_node links \<Rightarrow> gc_node links option) \<Rightarrow> 'p js_runtime \<Rightarrow> 'p js_runtime option" where
  "with_links f rt = do {
     L \<leftarrow> f (rt_links rt);
     Some (rt\<lparr>rt_links := L\<rparr>)
   }"

text \<open>A header may be read as long as the object is allocated.\<close>

definition header_access :: "'p js_runtime \<Rightarrow> nat \<Rightarrow> unit option" where
  "header_access rt p = c_assert (rt_heap rt p \<noteq> None)"

definition move_to_tail :: "nat \<Rightarrow> gc_node \<Rightarrow> 'p js_runtime \<Rightarrow> 'p js_runtime option" where
  "move_to_tail p head = with_links (\<lambda>L. Option.bind (list_del (Gc_obj p) L) (list_add_tail (Gc_obj p) head))"

definition INT_MAX :: int where "INT_MAX = 2 ^ 31 - 1"

definition gc_decref_child :: "nat \<Rightarrow> 'p js_runtime \<Rightarrow> 'p js_runtime option" where
  "gc_decref_child p rt = do {
     header_access rt p;
     c_assert (rt_ref_count rt p > 0);
     let rt = set_ref_count p (rt_ref_count rt p - 1) rt;
     if rt_ref_count rt p = 0 \<and> rt_mark rt p = 1 then move_to_tail p Tmp_obj_list rt else Some rt
   }"

definition gc_scan_incref_child2 :: "nat \<Rightarrow> 'p js_runtime \<Rightarrow> 'p js_runtime option" where
  "gc_scan_incref_child2 p rt = do {
     header_access rt p;
     c_assert (rt_ref_count rt p < INT_MAX);
     Some (set_ref_count p (rt_ref_count rt p + 1) rt)
   }"

definition gc_scan_incref_child :: "nat \<Rightarrow> 'p js_runtime \<Rightarrow> 'p js_runtime option" where
  "gc_scan_incref_child p rt = do {
     rt \<leftarrow> gc_scan_incref_child2 p rt;
     if rt_ref_count rt p = 1 then do {
       rt \<leftarrow> move_to_tail p Gc_obj_list rt;
       Some (set_mark p 0 rt)
     } else Some rt
   }"

fun mark_each :: "(nat \<Rightarrow> 'p js_runtime \<Rightarrow> 'p js_runtime option) \<Rightarrow> nat list \<Rightarrow> 'p js_runtime \<Rightarrow> 'p js_runtime option" where
  "mark_each mark_func [] rt = Some rt"
| "mark_each mark_func (p # ps) rt = do {
     rt \<leftarrow> mark_func p rt;
     mark_each mark_func ps rt
   }"

definition mark_children_with ::
  "(nat \<Rightarrow> 'p js_runtime \<Rightarrow> 'p js_runtime option) \<Rightarrow> nat \<Rightarrow> 'p js_runtime \<Rightarrow> 'p js_runtime option" where
  "mark_children_with mark_func p rt = do {
     ps \<leftarrow> mark_children (rt_class_array rt) (rt_heap rt) p;
     mark_each mark_func ps rt
   }"

text \<open>The body of the loop of \<open>gc_decref\<close>, and the loop with the saved next element \<open>el1\<close>.\<close>

definition gc_decref_object :: "nat \<Rightarrow> 'p js_runtime \<Rightarrow> 'p js_runtime option" where
  "gc_decref_object p rt = do {
     header_access rt p;
     c_assert (rt_mark rt p = 0);
     rt \<leftarrow> mark_children_with gc_decref_child p rt;
     let rt = set_mark p 1 rt;
     if rt_ref_count rt p = 0 then move_to_tail p Tmp_obj_list rt else Some rt
   }"

partial_function (option) gc_decref_loop :: "gc_node \<Rightarrow> gc_node \<Rightarrow> 'p js_runtime \<Rightarrow> 'p js_runtime option" where
  "gc_decref_loop el el1 rt =
     (if el = Gc_obj_list then Some rt
      else do {
        p \<leftarrow> list_entry el;
        rt \<leftarrow> gc_decref_object p rt;
        el2 \<leftarrow> l_next (rt_links rt el1);
        gc_decref_loop el1 el2 rt
      })"

definition gc_decref :: "'p js_runtime \<Rightarrow> 'p js_runtime option" where
  "gc_decref rt = do {
     let rt = rt\<lparr>rt_links := init_list_head Tmp_obj_list (rt_links rt)\<rparr>;
     el \<leftarrow> l_next (rt_links rt Gc_obj_list);
     el1 \<leftarrow> l_next (rt_links rt el);
     gc_decref_loop el el1 rt
   }"

text \<open>The two loops of \<open>gc_scan\<close>.\<close>

definition gc_scan_object :: "nat \<Rightarrow> 'p js_runtime \<Rightarrow> 'p js_runtime option" where
  "gc_scan_object p rt = do {
     header_access rt p;
     c_assert (rt_ref_count rt p > 0);
     mark_children_with gc_scan_incref_child p (set_mark p 0 rt)
   }"

partial_function (option) list_for_each ::
  "gc_node \<Rightarrow> (nat \<Rightarrow> 'p js_runtime \<Rightarrow> 'p js_runtime option) \<Rightarrow> gc_node \<Rightarrow> 'p js_runtime \<Rightarrow> 'p js_runtime option" where
  "list_for_each head f el rt =
     (if el = head then Some rt
      else do {
        p \<leftarrow> list_entry el;
        rt \<leftarrow> f p rt;
        el \<leftarrow> l_next (rt_links rt el);
        list_for_each head f el rt
      })"

definition gc_scan :: "'p js_runtime \<Rightarrow> 'p js_runtime option" where
  "gc_scan rt = do {
     el \<leftarrow> l_next (rt_links rt Gc_obj_list);
     rt \<leftarrow> list_for_each Gc_obj_list gc_scan_object el rt;
     el \<leftarrow> l_next (rt_links rt Tmp_obj_list);
     list_for_each Tmp_obj_list (mark_children_with gc_scan_incref_child2) el rt
   }"

section \<open>The lists of the runtime\<close>

fun gc_lists :: "nat list \<Rightarrow> nat list \<Rightarrow> nat list \<Rightarrow> gc_node \<Rightarrow> gc_node list" where
  "gc_lists gs ts zs Gc_obj_list = map Gc_obj gs"
| "gc_lists gs ts zs Tmp_obj_list = map Gc_obj ts"
| "gc_lists gs ts zs Gc_zero_ref_count_list = map Gc_obj zs"
| "gc_lists gs ts zs (Gc_obj p) = []"

definition in_lists :: "'p js_runtime \<Rightarrow> nat list \<Rightarrow> nat list \<Rightarrow> nat list \<Rightarrow> bool" where
  "in_lists rt gs ts zs \<longleftrightarrow> lists gc_heads (rt_links rt) (gc_lists gs ts zs)"

lemma gc_lists_upd:
  "(gc_lists gs ts zs)(Gc_obj_list := map Gc_obj xs) = gc_lists xs ts zs"
  "(gc_lists gs ts zs)(Tmp_obj_list := map Gc_obj xs) = gc_lists gs xs zs"
  "(gc_lists gs ts zs)(Gc_zero_ref_count_list := map Gc_obj xs) = gc_lists gs ts xs"
  by (rule ext, case_tac x, simp_all)+

lemma gc_heads_simps [simp]:
  "Gc_obj_list \<in> gc_heads" "Tmp_obj_list \<in> gc_heads" "Gc_zero_ref_count_list \<in> gc_heads" "Gc_obj p \<notin> gc_heads"
  by (auto simp: gc_heads_def)

lemma runtime_simps [simp]:
  "rt_class_array (set_ref_count p n rt) = rt_class_array rt" "rt_class_array (set_mark p m rt) = rt_class_array rt"
  "rt_heap (set_ref_count p n rt) = rt_heap rt" "rt_heap (set_mark p m rt) = rt_heap rt"
  "rt_links (set_ref_count p n rt) = rt_links rt" "rt_links (set_mark p m rt) = rt_links rt"
  "rt_mark (set_ref_count p n rt) = rt_mark rt" "rt_ref_count (set_mark p m rt) = rt_ref_count rt"
  "rt_ref_count (set_ref_count p n rt) = (rt_ref_count rt)(p := n)"
  "rt_mark (set_mark p m rt) = (rt_mark rt)(p := m)"
  by (simp_all add: set_ref_count_def set_mark_def)

lemma in_lists_cong: "rt_links rt' = rt_links rt \<Longrightarrow> in_lists rt' gs ts zs = in_lists rt gs ts zs"
  by (simp add: in_lists_def)

lemma in_lists_facts:
  assumes "in_lists rt gs ts zs"
  shows "distinct gs" "distinct ts" "distinct zs" "set gs \<inter> set ts = {}" "set gs \<inter> set zs = {}" "set ts \<inter> set zs = {}"
  using lh.rep_distinct [OF assms [unfolded in_lists_def], of Gc_obj_list] lh.rep_distinct [OF assms [unfolded in_lists_def], of Tmp_obj_list]
    lh.rep_distinct [OF assms [unfolded in_lists_def], of Gc_zero_ref_count_list]
    lh.rep_disjoint [OF assms [unfolded in_lists_def], of Gc_obj_list Tmp_obj_list]
    lh.rep_disjoint [OF assms [unfolded in_lists_def], of Gc_obj_list Gc_zero_ref_count_list]
    lh.rep_disjoint [OF assms [unfolded in_lists_def], of Tmp_obj_list Gc_zero_ref_count_list]
  by (auto simp: distinct_map)

lemma move_to_tail_links:
  assumes "in_lists rt gs ts zs" "h \<in> gc_heads" "gc_lists gs ts zs h = map Gc_obj (xs @ p # ys)" "h' \<in> gc_heads" "h' \<noteq> h"
  shows "\<exists>L. move_to_tail p h' rt = Some (rt\<lparr>rt_links := L\<rparr>)
    \<and> lists gc_heads L ((gc_lists gs ts zs)(h := map Gc_obj (xs @ ys), h' := gc_lists gs ts zs h' @ [Gc_obj p]))"
proof -
  obtain L where L: "Option.bind (list_del (Gc_obj p) (rt_links rt)) (list_add_tail (Gc_obj p) h') = Some L"
    "lists gc_heads L ((gc_lists gs ts zs)(h := map Gc_obj (xs @ ys), h' := gc_lists gs ts zs h' @ [Gc_obj p]))"
    using lh.move_tail [of gc_heads "rt_links rt" "gc_lists gs ts zs" h "map Gc_obj xs" "Gc_obj p" "map Gc_obj ys" h'] assms
    by (auto simp: in_lists_def)
  then show ?thesis unfolding move_to_tail_def with_links_def L(1) Option.bind.bind_lunit by blast
qed

lemma move_gc_to_tmp:
  assumes "in_lists rt (xs @ p # ys) ts zs"
  shows "\<exists>L. move_to_tail p Tmp_obj_list rt = Some (rt\<lparr>rt_links := L\<rparr>) \<and> in_lists (rt\<lparr>rt_links := L\<rparr>) (xs @ ys) (ts @ [p]) zs"
proof -
  have "(gc_lists (xs @ p # ys) ts zs)(Gc_obj_list := map Gc_obj (xs @ ys), Tmp_obj_list := map Gc_obj ts @ [Gc_obj p])
      = gc_lists (xs @ ys) (ts @ [p]) zs"
    by (rule ext, case_tac x) simp_all
  with move_to_tail_links [OF assms, of Gc_obj_list xs p ys Tmp_obj_list] show ?thesis by (auto simp: in_lists_def)
qed

lemma move_tmp_to_gc:
  assumes "in_lists rt gs (xs @ p # ys) zs"
  shows "\<exists>L. move_to_tail p Gc_obj_list rt = Some (rt\<lparr>rt_links := L\<rparr>) \<and> in_lists (rt\<lparr>rt_links := L\<rparr>) (gs @ [p]) (xs @ ys) zs"
proof -
  have "(gc_lists gs (xs @ p # ys) zs)(Tmp_obj_list := map Gc_obj (xs @ ys), Gc_obj_list := map Gc_obj gs @ [Gc_obj p])
      = gc_lists (gs @ [p]) (xs @ ys) zs"
    by (rule ext, case_tac x) simp_all
  with move_to_tail_links [OF assms, of Tmp_obj_list xs p ys Gc_obj_list] show ?thesis by (auto simp: in_lists_def)
qed

lemma next_in_gc:
  assumes "in_lists rt (xs @ p # ys) ts zs"
  shows "l_next (rt_links rt (Gc_obj p)) = Some (hd (map Gc_obj ys @ [Gc_obj_list]))"
  using lh.next_elem [of gc_heads "rt_links rt" "gc_lists (xs @ p # ys) ts zs" Gc_obj_list "map Gc_obj xs" "Gc_obj p" "map Gc_obj ys"]
    assms by (simp add: in_lists_def)

lemma next_in_tmp:
  assumes "in_lists rt gs (xs @ p # ys) zs"
  shows "l_next (rt_links rt (Gc_obj p)) = Some (hd (map Gc_obj ys @ [Tmp_obj_list]))"
  using lh.next_elem [of gc_heads "rt_links rt" "gc_lists gs (xs @ p # ys) zs" Tmp_obj_list "map Gc_obj xs" "Gc_obj p" "map Gc_obj ys"]
    assms by (simp add: in_lists_def)

lemma next_of_heads:
  assumes "in_lists rt gs ts zs"
  shows "l_next (rt_links rt Gc_obj_list) = Some (hd (map Gc_obj gs @ [Gc_obj_list]))"
    and "l_next (rt_links rt Tmp_obj_list) = Some (hd (map Gc_obj ts @ [Tmp_obj_list]))"
    and "l_next (rt_links rt Gc_zero_ref_count_list) = Some (hd (map Gc_obj zs @ [Gc_zero_ref_count_list]))"
  using lh.next_head [OF assms [unfolded in_lists_def]] by force+

section \<open>Reference counts\<close>

text \<open>The references from the objects of S to x: mark functions call \<open>mark_func\<close> once for each.\<close>

definition refs_to :: "(nat \<Rightarrow> nat list) \<Rightarrow> nat set \<Rightarrow> nat \<Rightarrow> nat" where
  "refs_to C S x = (\<Sum>p\<in>S. count_list (C p) x)"

lemma refs_to_insert: "finite S \<Longrightarrow> p \<notin> S \<Longrightarrow> refs_to C (insert p S) x = refs_to C S x + count_list (C p) x"
  by (simp add: refs_to_def)

lemma refs_to_mono: "finite T \<Longrightarrow> S \<subseteq> T \<Longrightarrow> refs_to C S x \<le> refs_to C T x"
  by (simp add: refs_to_def sum_mono2)

lemma refs_to_empty [simp]: "refs_to C {} x = 0"
  by (simp add: refs_to_def)

lemma refs_to_pos: "finite S \<Longrightarrow> p \<in> S \<Longrightarrow> x \<in> set (C p) \<Longrightarrow> 0 < refs_to C S x"
  using count_list_0_iff [of "C p" x] by (auto simp: refs_to_def intro!: sum_pos2 [of S p])

text \<open>
  The objects of the collector: G their addresses, C their children. What the collector may write: counts,
  marks and links.
\<close>

definition gc_objects :: "'p js_runtime \<Rightarrow> nat set \<Rightarrow> (nat \<Rightarrow> nat list) \<Rightarrow> bool" where
  "gc_objects rt G C \<longleftrightarrow> finite G \<and>
     (\<forall>p\<in>G. mark_children (rt_class_array rt) (rt_heap rt) p = Some (C p) \<and> set (C p) \<subseteq> G)"

lemma gc_objects_alloc: "gc_objects rt G C \<Longrightarrow> p \<in> G \<Longrightarrow> rt_heap rt p \<noteq> None"
  by (auto simp: gc_objects_def mark_children_def bind_eq_Some_conv)

definition same_objects :: "'p js_runtime \<Rightarrow> 'p js_runtime \<Rightarrow> bool" where
  "same_objects rt rt' \<longleftrightarrow> rt_heap rt' = rt_heap rt \<and> rt_class_array rt' = rt_class_array rt"

lemma same_objects_refl [simp]: "same_objects rt rt"
  by (simp add: same_objects_def)

lemma same_objects_trans: "same_objects a b \<Longrightarrow> same_objects b c \<Longrightarrow> same_objects a c"
  by (simp add: same_objects_def)

lemma gc_objects_same: "gc_objects rt G C \<Longrightarrow> same_objects rt rt' \<Longrightarrow> gc_objects rt' G C"
  by (simp add: gc_objects_def same_objects_def)

section \<open>gc\_decref\<close>

text \<open>
  During the loop: the list is \<open>kept @ rest\<close>, the objects before the cursor marked. Marked objects
  are in \<open>tmp_obj_list\<close> exactly if their count is 0. \<open>rc\<close> gives the current counts.
\<close>

definition decref_inv ::
  "'p js_runtime \<Rightarrow> nat set \<Rightarrow> nat list \<Rightarrow> nat list \<Rightarrow> nat list \<Rightarrow> nat list \<Rightarrow> (nat \<Rightarrow> int) \<Rightarrow> bool" where
  "decref_inv rt G kept rest ts zs rc \<longleftrightarrow>
     in_lists rt (kept @ rest) ts zs \<and> set kept \<union> set rest \<union> set ts = G \<and>
     (\<forall>x\<in>G. rt_ref_count rt x = rc x \<and> 0 \<le> rc x) \<and>
     (\<forall>x\<in>set kept. rt_mark rt x = 1 \<and> rc x > 0) \<and> (\<forall>x\<in>set ts. rt_mark rt x = 1 \<and> rc x = 0) \<and>
     (\<forall>x\<in>set rest. rt_mark rt x = 0)"

lemma gc_decref_child_inv:
  assumes inv: "decref_inv rt G kept rest ts zs rc" and G: "gc_objects rt G C" and x: "x \<in> G" "rc x > 0"
  shows "\<exists>rt' kept' ts'. gc_decref_child x rt = Some rt' \<and> same_objects rt rt' \<and>
    decref_inv rt' G kept' rest ts' zs (rc(x := rc x - 1))"
proof -
  let ?rt = "set_ref_count x (rt_ref_count rt x - 1) rt"
  have hdr: "header_access rt x = Some ()" using gc_objects_alloc [OF G x(1)] by (simp add: header_access_def c_assert_def)
  have lists: "in_lists ?rt (kept @ rest) ts zs" using inv by (simp add: decref_inv_def in_lists_def)
  have rcx: "rt_ref_count rt x = rc x" using inv x by (simp add: decref_inv_def)
  have run: "gc_decref_child x rt
      = (if rc x = 1 \<and> rt_mark rt x = 1 then move_to_tail x Tmp_obj_list ?rt else Some ?rt)"
    using hdr x rcx by (simp add: gc_decref_child_def c_assert_def Let_def)
  show ?thesis
  proof (cases "rc x = 1 \<and> x \<in> set kept")
    case True
    then obtain a b where kept: "kept = a @ x # b" by (auto simp: in_set_conv_decomp)
    obtain L where L: "move_to_tail x Tmp_obj_list ?rt = Some (?rt\<lparr>rt_links := L\<rparr>)"
      "in_lists (?rt\<lparr>rt_links := L\<rparr>) (a @ b @ rest) (ts @ [x]) zs"
      using move_gc_to_tmp [of ?rt a x "b @ rest" ts zs] lists kept by auto
    have "decref_inv (?rt\<lparr>rt_links := L\<rparr>) G (a @ b) rest (ts @ [x]) zs (rc(x := rc x - 1))"
      using inv L(2) kept True in_lists_facts [OF lists] by (auto simp: decref_inv_def rcx)
    moreover have "rt_mark rt x = 1" using inv kept by (simp add: decref_inv_def)
    ultimately show ?thesis using run L(1) True by (intro exI conjI) (auto simp: same_objects_def)
  next
    case False
    with inv x have "\<not> (rc x = 1 \<and> rt_mark rt x = 1)" by (auto simp: decref_inv_def)
    moreover have "decref_inv ?rt G kept rest ts zs (rc(x := rc x - 1))"
      using inv lists False x by (auto simp: decref_inv_def rcx)
    ultimately show ?thesis using run by (auto simp: same_objects_def)
  qed
qed

lemma gc_decref_children_inv:
  assumes "decref_inv rt G kept rest ts zs (\<lambda>x. r x + int (count_list cs x))" "gc_objects rt G C" "set cs \<subseteq> G"
    and "\<And>x. 0 \<le> r x"
  shows "\<exists>rt' kept' ts'. mark_each gc_decref_child cs rt = Some rt' \<and> same_objects rt rt' \<and> decref_inv rt' G kept' rest ts' zs r"
  using assms
proof (induction cs arbitrary: rt kept ts)
  case Nil
  then show ?case by auto
next
  case (Cons c cs)
  have c: "c \<in> G" "0 < r c + int (count_list (c # cs) c)" using Cons.prems(3) Cons.prems(4) [of c] by auto
  have upd: "(\<lambda>x. r x + int (count_list (c # cs) x))(c := r c + int (count_list (c # cs) c) - 1)
    = (\<lambda>x. r x + int (count_list cs x))" by auto
  obtain rt1 kept1 ts1 where 1: "gc_decref_child c rt = Some rt1" "same_objects rt rt1"
    "decref_inv rt1 G kept1 rest ts1 zs (\<lambda>x. r x + int (count_list cs x))"
    using gc_decref_child_inv [OF Cons.prems(1,2) c] unfolding upd by blast
  from Cons.IH [OF 1(3) gc_objects_same [OF Cons.prems(2) 1(2)]] Cons.prems(3,4)
  obtain rt' kept' ts' where "mark_each gc_decref_child cs rt1 = Some rt'" "same_objects rt1 rt'"
    "decref_inv rt' G kept' rest ts' zs r" by auto
  with 1 show ?case using same_objects_trans by auto
qed

lemma gc_decref_object_inv:
  assumes inv: "decref_inv rt G kept (p # rest) ts zs (\<lambda>x. r x + int (count_list (C p) x))" and G: "gc_objects rt G C"
    and r: "\<And>x. 0 \<le> r x"
  shows "\<exists>rt' kept' ts'. gc_decref_object p rt = Some rt' \<and> same_objects rt rt' \<and> decref_inv rt' G kept' rest ts' zs r"
proof -
  have p: "p \<in> G" "rt_mark rt p = 0" using inv by (auto simp: decref_inv_def)
  with G have C: "mark_children (rt_class_array rt) (rt_heap rt) p = Some (C p)" "set (C p) \<subseteq> G"
    by (auto simp: gc_objects_def)
  have hdr: "header_access rt p = Some ()" using gc_objects_alloc [OF G p(1)] by (simp add: header_access_def c_assert_def)
  obtain rt1 kept1 ts1 where 1: "mark_each gc_decref_child (C p) rt = Some rt1" "same_objects rt rt1"
    "decref_inv rt1 G kept1 (p # rest) ts1 zs r"
    using gc_decref_children_inv [OF inv G C(2) r] by blast
  let ?rt = "set_mark p 1 rt1"
  have run: "gc_decref_object p rt = (if r p = 0 then move_to_tail p Tmp_obj_list ?rt else Some ?rt)"
    using 1 p hdr C by (simp add: gc_decref_object_def mark_children_with_def c_assert_def decref_inv_def Let_def)
  have lists: "in_lists ?rt (kept1 @ p # rest) ts1 zs" using 1(3) by (simp add: decref_inv_def in_lists_def)
  note apart = in_lists_facts [OF lists]
  show ?thesis
  proof (cases "r p = 0")
    case True
    obtain L where L: "move_to_tail p Tmp_obj_list ?rt = Some (?rt\<lparr>rt_links := L\<rparr>)"
      "in_lists (?rt\<lparr>rt_links := L\<rparr>) (kept1 @ rest) (ts1 @ [p]) zs"
      using move_gc_to_tmp [OF lists] by auto
    have "decref_inv (?rt\<lparr>rt_links := L\<rparr>) G kept1 rest (ts1 @ [p]) zs r"
      using 1(3) L(2) True apart by (auto simp: decref_inv_def)
    then show ?thesis using run L(1) True 1(2) by (auto simp: same_objects_def)
  next
    case False
    have "decref_inv ?rt G (kept1 @ [p]) rest ts1 zs r"
      using 1(3) lists False apart r [of p] by (auto simp: decref_inv_def)
    then show ?thesis using run False 1(2) by (auto simp: same_objects_def)
  qed
qed

text \<open>The cursor: the node of the first pending object, or the head.\<close>

definition cursor :: "gc_node \<Rightarrow> nat list \<Rightarrow> gc_node" where
  "cursor head ps = hd (map Gc_obj ps @ [head])"

lemma cursor_simps [simp]: "cursor head [] = head" "cursor head (p # ps) = Gc_obj p"
  by (simp_all add: cursor_def)

lemmas next_simps = next_in_gc next_in_tmp next_of_heads

lemma next_of_cursor: "in_lists rt (xs @ ys) ts zs \<Longrightarrow> \<exists>n. l_next (rt_links rt (cursor Gc_obj_list ys)) = Some n \<and> (ys \<noteq> [] \<longrightarrow> n = cursor Gc_obj_list (tl ys))"
  by (cases ys) (auto simp: next_simps cursor_def)

lemma gc_decref_loop_inv:
  assumes "decref_inv rt G kept rest ts zs (\<lambda>x. int (E x + refs_to C (set rest) x))" "gc_objects rt G C"
    and "rest \<noteq> [] \<longrightarrow> el1 = cursor Gc_obj_list (tl rest)"
  shows "\<exists>rt' kept' ts'. gc_decref_loop (cursor Gc_obj_list rest) el1 rt = Some rt' \<and> same_objects rt rt' \<and>
    decref_inv rt' G kept' [] ts' zs (\<lambda>x. int (E x))"
  using assms
proof (induction rest arbitrary: rt kept ts el1)
  case Nil
  then show ?case by (subst gc_decref_loop.simps) auto
next
  case (Cons p rest)
  have "in_lists rt (kept @ p # rest) ts zs" using Cons.prems(1) by (simp add: decref_inv_def)
  then have "distinct (kept @ p # rest)" by (rule in_lists_facts)
  then have "refs_to C (set (p # rest)) x = refs_to C (set rest) x + count_list (C p) x" for x
    by (simp add: refs_to_insert)
  then have "decref_inv rt G kept (p # rest) ts zs (\<lambda>x. int (E x + refs_to C (set rest) x) + int (count_list (C p) x))"
    using Cons.prems(1) by (simp add: add.assoc)
  from gc_decref_object_inv [OF this Cons.prems(2)] obtain rt1 kept1 ts1 where
    1: "gc_decref_object p rt = Some rt1" "same_objects rt rt1"
       "decref_inv rt1 G kept1 rest ts1 zs (\<lambda>x. int (E x + refs_to C (set rest) x))" by auto
  obtain el2 where el2: "l_next (rt_links rt1 el1) = Some el2" "rest \<noteq> [] \<longrightarrow> el2 = cursor Gc_obj_list (tl rest)"
    using next_of_cursor [of rt1 kept1 rest ts1 zs] 1(3) Cons.prems(3) by (auto simp: decref_inv_def)
  obtain rt' kept' ts' where "gc_decref_loop (cursor Gc_obj_list rest) el2 rt1 = Some rt'" "same_objects rt1 rt'"
    "decref_inv rt' G kept' [] ts' zs (\<lambda>x. int (E x))"
    using Cons.IH [OF 1(3) gc_objects_same [OF Cons.prems(2) 1(2)] el2(2)] by blast
  then show ?case using 1 el2(1) Cons.prems(3) same_objects_trans
    by (subst gc_decref_loop.simps) auto
qed

section \<open>gc\_scan\<close>

text \<open>Raising the counts: \<open>rc\<close> are the current ones, N bounds what they may become.\<close>

definition scan_inv ::
  "'p js_runtime \<Rightarrow> nat set \<Rightarrow> nat list \<Rightarrow> nat list \<Rightarrow> nat list \<Rightarrow> (nat \<Rightarrow> nat) \<Rightarrow> bool" where
  "scan_inv rt G gs ts zs rc \<longleftrightarrow>
     in_lists rt gs ts zs \<and> set gs \<union> set ts = G \<and> (\<forall>x\<in>G. rt_ref_count rt x = int (rc x)) \<and>
     (\<forall>x\<in>set gs. rc x > 0) \<and> (\<forall>x\<in>set ts. rc x = 0)"

lemma incref_child2:
  assumes "rt_heap rt x \<noteq> None" "rt_ref_count rt x = int n" "int n < INT_MAX"
  shows "gc_scan_incref_child2 x rt = Some (set_ref_count x (int (Suc n)) rt)"
  using assms by (simp add: gc_scan_incref_child2_def header_access_def c_assert_def add.commute)

text \<open>
  One call of \<open>gc_scan_incref_child\<close>: the object is in \<open>gc_obj_list\<close> afterwards, at its end and unmarked if
  it was not in it before.
\<close>

lemma gc_scan_incref_child_inv:
  assumes inv: "scan_inv rt G gs ts zs rc" and G: "gc_objects rt G C" and x: "x \<in> G" "int (rc x) < INT_MAX"
  shows "\<exists>rt' new ts'. gc_scan_incref_child x rt = Some rt' \<and> same_objects rt rt' \<and>
    scan_inv rt' G (gs @ new) ts' zs (rc(x := Suc (rc x))) \<and> length new + length ts' = length ts \<and>
    set new \<subseteq> {x} \<and> (\<forall>y. rt_mark rt' y = (if y \<in> set new then 0 else rt_mark rt y))"
proof -
  let ?rt = "set_ref_count x (int (Suc (rc x))) rt"
  have rcx: "rt_ref_count rt x = int (rc x)" using inv x by (simp add: scan_inv_def)
  have lists: "in_lists ?rt gs ts zs" using inv by (simp add: scan_inv_def in_lists_def)
  have run: "gc_scan_incref_child x rt = (if rc x = 0 then
      Option.bind (move_to_tail x Gc_obj_list ?rt) (\<lambda>rt. Some (set_mark x 0 rt)) else Some ?rt)"
    using incref_child2 [OF gc_objects_alloc [OF G x(1)] rcx x(2)] by (simp add: gc_scan_incref_child_def)
  show ?thesis
  proof (cases "rc x = 0")
    case True
    with inv x have "x \<in> set ts" by (auto simp: scan_inv_def)
    then obtain a b where ts: "ts = a @ x # b" by (auto simp: in_set_conv_decomp)
    obtain L where L: "move_to_tail x Gc_obj_list ?rt = Some (?rt\<lparr>rt_links := L\<rparr>)"
      "in_lists (?rt\<lparr>rt_links := L\<rparr>) (gs @ [x]) (a @ b) zs"
      using move_tmp_to_gc [of ?rt gs a x b zs] lists ts by auto
    let ?rt' = "set_mark x 0 (?rt\<lparr>rt_links := L\<rparr>)"
    have "in_lists ?rt' (gs @ [x]) (a @ b) zs" using L(2) by (simp add: in_lists_def)
    then have "scan_inv ?rt' G (gs @ [x]) (a @ b) zs (rc(x := Suc (rc x)))"
      using inv ts in_lists_facts [OF lists] by (auto simp: scan_inv_def)
    with run L(1) True ts show ?thesis
      by (intro exI [of _ ?rt'] exI [of _ "[x]"] exI [of _ "a @ b"]) (auto simp: same_objects_def)
  next
    case False
    have "scan_inv ?rt G gs ts zs (rc(x := Suc (rc x)))"
      using inv lists False x by (auto simp: scan_inv_def)
    with run False show ?thesis
      by (intro exI [of _ ?rt] exI [of _ "[]"] exI [of _ ts]) (auto simp: same_objects_def)
  qed
qed

lemma gc_scan_children_inv:
  assumes "scan_inv rt G gs ts zs rc" "gc_objects rt G C" "set cs \<subseteq> G"
    and "\<And>x. x \<in> G \<Longrightarrow> int (rc x + count_list cs x) \<le> INT_MAX"
  shows "\<exists>rt' new ts'. mark_each gc_scan_incref_child cs rt = Some rt' \<and> same_objects rt rt' \<and>
    scan_inv rt' G (gs @ new) ts' zs (\<lambda>x. rc x + count_list cs x) \<and> length new + length ts' = length ts \<and>
    set new \<subseteq> set cs \<and> (\<forall>y. rt_mark rt' y = (if y \<in> set new then 0 else rt_mark rt y))"
  using assms
proof (induction cs arbitrary: rt gs ts rc)
  case Nil
  then show ?case by (intro exI [of _ rt] exI [of _ "[]"] exI [of _ ts]) auto
next
  case (Cons c cs)
  have "c \<in> G" "int (rc c) < INT_MAX" using Cons.prems(3) Cons.prems(4) [of c] by auto
  from gc_scan_incref_child_inv [OF Cons.prems(1,2) this] obtain rt1 new1 ts1 where
    1: "gc_scan_incref_child c rt = Some rt1" "same_objects rt rt1" "scan_inv rt1 G (gs @ new1) ts1 zs (rc(c := Suc (rc c)))"
       "length new1 + length ts1 = length ts" "set new1 \<subseteq> {c}" "\<forall>y. rt_mark rt1 y = (if y \<in> set new1 then 0 else rt_mark rt y)"
    by blast
  have "int ((rc(c := Suc (rc c))) x + count_list cs x) \<le> INT_MAX" if "x \<in> G" for x
    using Cons.prems(4) [OF that] by auto
  from Cons.IH [OF 1(3) gc_objects_same [OF Cons.prems(2) 1(2)] _ this] Cons.prems(3) obtain rt' new2 ts' where
    2: "mark_each gc_scan_incref_child cs rt1 = Some rt'" "same_objects rt1 rt'"
       "scan_inv rt' G ((gs @ new1) @ new2) ts' zs (\<lambda>x. (rc(c := Suc (rc c))) x + count_list cs x)"
       "length new2 + length ts' = length ts1" "set new2 \<subseteq> set cs"
       "\<forall>y. rt_mark rt' y = (if y \<in> set new2 then 0 else rt_mark rt1 y)" by auto
  have "(\<lambda>x. (rc(c := Suc (rc c))) x + count_list cs x) = (\<lambda>x. rc x + count_list (c # cs) x)" by auto
  with 2(3) have "scan_inv rt' G (gs @ new1 @ new2) ts' zs (\<lambda>x. rc x + count_list (c # cs) x)" by simp
  with 1 2 show ?case using same_objects_trans
    by (intro exI [of _ rt'] exI [of _ "new1 @ new2"] exI [of _ ts']) auto
qed

lemma gc_scan_object_inv:
  assumes inv: "scan_inv rt G gs ts zs rc" and G: "gc_objects rt G C" and p: "p \<in> set gs"
    and bound: "\<And>x. x \<in> G \<Longrightarrow> int (rc x + count_list (C p) x) \<le> INT_MAX"
  shows "\<exists>rt' new ts'. gc_scan_object p rt = Some rt' \<and> same_objects rt rt' \<and>
    scan_inv rt' G (gs @ new) ts' zs (\<lambda>x. rc x + count_list (C p) x) \<and> length new + length ts' = length ts \<and>
    set new \<subseteq> set (C p) \<and> (\<forall>y. rt_mark rt' y = (if y \<in> insert p (set new) then 0 else rt_mark rt y))"
proof -
  have pG: "p \<in> G" and rcp: "rt_ref_count rt p > 0" using inv p by (auto simp: scan_inv_def)
  then have C: "mark_children (rt_class_array rt) (rt_heap rt) p = Some (C p)" "set (C p) \<subseteq> G"
    using G by (auto simp: gc_objects_def)
  have hdr: "header_access rt p = Some ()" using gc_objects_alloc [OF G pG] by (simp add: header_access_def c_assert_def)
  have "scan_inv (set_mark p 0 rt) G gs ts zs rc" "gc_objects (set_mark p 0 rt) G C"
    using inv G by (simp_all add: scan_inv_def in_lists_def gc_objects_def)
  from gc_scan_children_inv [OF this C(2) bound] obtain rt' new ts' where
    1: "mark_each gc_scan_incref_child (C p) (set_mark p 0 rt) = Some rt'" "same_objects (set_mark p 0 rt) rt'"
       "scan_inv rt' G (gs @ new) ts' zs (\<lambda>x. rc x + count_list (C p) x)" "length new + length ts' = length ts"
       "set new \<subseteq> set (C p)" "\<forall>y. rt_mark rt' y = (if y \<in> set new then 0 else rt_mark (set_mark p 0 rt) y)" by blast
  have "gc_scan_object p rt = Some rt'"
    using 1(1) hdr rcp C by (simp add: gc_scan_object_def mark_children_with_def c_assert_def)
  with 1 show ?thesis
    by (intro exI [of _ rt'] exI [of _ new] exI [of _ ts']) (auto simp: same_objects_def)
qed

text \<open>
  The first loop. The objects before the cursor are \<open>seen\<close>; their children are in the list. It ends because each
  object enters the list once.
\<close>

lemma gc_scan_loop_inv:
  assumes "scan_inv rt G (seen @ todo) ts zs (\<lambda>x. E x + refs_to C (set seen) x)" "gc_objects rt G C"
    and "\<And>x. x \<in> G \<Longrightarrow> int (E x + refs_to C G x) \<le> INT_MAX"
    and "\<forall>x\<in>set seen. rt_mark rt x = 0" "set (seen @ todo) \<subseteq> R" "\<forall>p\<in>R. set (C p) \<subseteq> R"
    and "\<forall>x\<in>set ts. rt_mark rt x = 1"
  shows "\<exists>rt' gs' ts'. list_for_each Gc_obj_list gc_scan_object (cursor Gc_obj_list todo) rt = Some rt' \<and>
    same_objects rt rt' \<and> scan_inv rt' G gs' ts' zs (\<lambda>x. E x + refs_to C (set gs') x) \<and> set gs' \<subseteq> R \<and>
    (\<forall>x\<in>set gs'. rt_mark rt' x = 0) \<and> (\<forall>x\<in>set ts'. rt_mark rt' x = 1)"
  using assms
proof (induction "length todo + length ts" arbitrary: rt seen todo ts)
  case 0
  then have "todo = []" "ts = []" by simp_all
  with 0 show ?case
    by (subst list_for_each.simps) (simp, intro exI conjI, assumption, assumption, assumption, simp)
next
  case (Suc n)
  show ?case
  proof (cases todo)
    case Nil
    with Suc.prems show ?thesis by (subst list_for_each.simps) auto
  next
    case (Cons p rest)
    let ?rc = "\<lambda>x. E x + refs_to C (set seen) x"
    have lists: "in_lists rt (seen @ p # rest) ts zs" and G: "set (seen @ p # rest) \<union> set ts = G"
      using Suc.prems(1) Cons by (auto simp: scan_inv_def)
    note apart = in_lists_facts [OF lists]
    have fin: "finite G" using Suc.prems(2) by (simp add: gc_objects_def)
    have add: "?rc x + count_list (C p) x = E x + refs_to C (set (seen @ [p])) x" for x
      using apart(1) by (simp add: refs_to_insert)
    have "int (?rc x + count_list (C p) x) \<le> INT_MAX" if "x \<in> G" for x
      using Suc.prems(3) [OF that] refs_to_mono [OF fin, of "set (seen @ [p])" C x] G unfolding add by fastforce
    from gc_scan_object_inv [OF Suc.prems(1,2) _ this] Cons obtain rt1 new ts1 where
      1: "gc_scan_object p rt = Some rt1" "same_objects rt rt1"
         "scan_inv rt1 G ((seen @ p # rest) @ new) ts1 zs (\<lambda>x. ?rc x + count_list (C p) x)"
         "length new + length ts1 = length ts" "set new \<subseteq> set (C p)"
         "\<forall>y. rt_mark rt1 y = (if y \<in> insert p (set new) then 0 else rt_mark rt y)" by auto
    have lists1: "in_lists rt1 (seen @ p # rest @ new) ts1 zs" using 1(3) by (simp add: scan_inv_def)
    have inv1: "scan_inv rt1 G ((seen @ [p]) @ rest @ new) ts1 zs (\<lambda>x. E x + refs_to C (set (seen @ [p])) x)"
      using 1(3) unfolding add by simp
    have nxt: "l_next (rt_links rt1 (Gc_obj p)) = Some (cursor Gc_obj_list (rest @ new))"
      using next_in_gc [OF lists1] by (simp add: cursor_def)
    have "p \<in> R" using Suc.prems(5) Cons by simp
    have R: "set ((seen @ [p]) @ rest @ new) \<subseteq> R" using Suc.prems(5,6) \<open>p \<in> R\<close> 1(5) Cons by auto
    have "set ts1 \<subseteq> set ts"
    proof -
      have "set ts1 \<inter> set (seen @ p # rest) = {}" using in_lists_facts(4) [OF lists1] by auto
      moreover have "set ts1 \<subseteq> G" using inv1 by (auto simp: scan_inv_def)
      ultimately show ?thesis using G by auto
    qed
    with in_lists_facts(4) [OF lists1] 1(6) Suc.prems(7) have ts1: "\<forall>x\<in>set ts1. rt_mark rt1 x = 1" by auto
    have seen1: "\<forall>x\<in>set (seen @ [p]). rt_mark rt1 x = 0" using 1(6) Suc.prems(4) by auto
    have len: "n = length (rest @ new) + length ts1" using Suc.hyps(2) Cons 1(4) by simp
    obtain rt' gs' ts' where
      2: "list_for_each Gc_obj_list gc_scan_object (cursor Gc_obj_list (rest @ new)) rt1 = Some rt'" "same_objects rt1 rt'"
         "scan_inv rt' G gs' ts' zs (\<lambda>x. E x + refs_to C (set gs') x)" "set gs' \<subseteq> R"
         "\<forall>x\<in>set gs'. rt_mark rt' x = 0" "\<forall>x\<in>set ts'. rt_mark rt' x = 1"
      using Suc.hyps(1) [OF len inv1 gc_objects_same [OF Suc.prems(2) 1(2)] Suc.prems(3) seen1 R Suc.prems(6) ts1] by blast
    have "list_for_each Gc_obj_list gc_scan_object (cursor Gc_obj_list todo) rt = Some rt'"
      using Cons 1(1) nxt 2(1) by (subst list_for_each.simps) simp
    with 2 show ?thesis using same_objects_trans [OF 1(2)] by blast
  qed
qed

text \<open>The second loop: the counts of what the objects to be deleted refer to.\<close>

lemma gc_scan_children2_inv:
  assumes "in_lists rt gs ts zs" "gc_objects rt G C" "set cs \<subseteq> G" "\<forall>x\<in>G. rt_ref_count rt x = int (rc x)"
    and "\<And>x. x \<in> G \<Longrightarrow> int (rc x + count_list cs x) \<le> INT_MAX"
  shows "\<exists>rt'. mark_each gc_scan_incref_child2 cs rt = Some rt' \<and> same_objects rt rt' \<and> in_lists rt' gs ts zs \<and>
    (\<forall>x\<in>G. rt_ref_count rt' x = int (rc x + count_list cs x)) \<and> rt_mark rt' = rt_mark rt"
  using assms
proof (induction cs arbitrary: rt rc)
  case (Cons c cs)
  have c: "c \<in> G" "int (rc c) < INT_MAX" using Cons.prems(3) Cons.prems(5) [of c] by auto
  let ?rt = "set_ref_count c (int (Suc (rc c))) rt"
  have 1: "gc_scan_incref_child2 c rt = Some ?rt"
    using c Cons.prems(4) by (intro incref_child2 gc_objects_alloc [OF Cons.prems(2)]) auto
  have prem: "in_lists ?rt gs ts zs" "gc_objects ?rt G C" "\<forall>x\<in>G. rt_ref_count ?rt x = int ((rc(c := Suc (rc c))) x)"
    using Cons.prems by (simp_all add: in_lists_def gc_objects_def)
  have "int ((rc(c := Suc (rc c))) x + count_list cs x) \<le> INT_MAX" if "x \<in> G" for x
    using Cons.prems(5) [OF that] by auto
  from Cons.IH [OF prem(1,2) _ prem(3) this] Cons.prems(3) obtain rt' where
    "mark_each gc_scan_incref_child2 cs ?rt = Some rt'" "same_objects ?rt rt'" "in_lists rt' gs ts zs"
    "\<forall>x\<in>G. rt_ref_count rt' x = int ((rc(c := Suc (rc c))) x + count_list cs x)" "rt_mark rt' = rt_mark ?rt" by auto
  with 1 show ?case by (intro exI [of _ rt']) (auto simp: same_objects_def)
qed auto

lemma gc_scan_loop2_inv:
  assumes "in_lists rt gs (seen @ todo) zs" "gc_objects rt G C" "set (seen @ todo) \<subseteq> G"
    and "\<forall>x\<in>G. rt_ref_count rt x = int (r x + refs_to C (set seen) x)"
    and "\<And>x. x \<in> G \<Longrightarrow> int (r x + refs_to C (set (seen @ todo)) x) \<le> INT_MAX"
  shows "\<exists>rt'. list_for_each Tmp_obj_list (mark_children_with gc_scan_incref_child2) (cursor Tmp_obj_list todo) rt = Some rt' \<and>
    same_objects rt rt' \<and> in_lists rt' gs (seen @ todo) zs \<and> rt_mark rt' = rt_mark rt \<and>
    (\<forall>x\<in>G. rt_ref_count rt' x = int (r x + refs_to C (set (seen @ todo)) x))"
  using assms
proof (induction todo arbitrary: rt seen)
  case Nil
  then show ?case by (subst list_for_each.simps) auto
next
  case (Cons p todo)
  have p: "p \<in> G" using Cons.prems(3) by simp
  with Cons.prems(2) have C: "mark_children (rt_class_array rt) (rt_heap rt) p = Some (C p)" "set (C p) \<subseteq> G"
    by (auto simp: gc_objects_def)
  have add: "r x + refs_to C (set seen) x + count_list (C p) x = r x + refs_to C (set (seen @ [p])) x" for x
    using in_lists_facts(2) [OF Cons.prems(1)] by (simp add: refs_to_insert)
  have "int (r x + refs_to C (set seen) x + count_list (C p) x) \<le> INT_MAX" if "x \<in> G" for x
    using Cons.prems(5) [OF that] refs_to_mono [of "set (seen @ p # todo)" "set (seen @ [p])" C x] unfolding add by fastforce
  from gc_scan_children2_inv [OF Cons.prems(1,2) C(2) Cons.prems(4) this] obtain rt1 where
    1: "mark_each gc_scan_incref_child2 (C p) rt = Some rt1" "same_objects rt rt1" "in_lists rt1 gs (seen @ p # todo) zs"
       "\<forall>x\<in>G. rt_ref_count rt1 x = int (r x + refs_to C (set (seen @ [p])) x)" "rt_mark rt1 = rt_mark rt"
    unfolding add by blast
  have "in_lists rt1 gs ((seen @ [p]) @ todo) zs" "set ((seen @ [p]) @ todo) \<subseteq> G"
    and "\<And>x. x \<in> G \<Longrightarrow> int (r x + refs_to C (set ((seen @ [p]) @ todo)) x) \<le> INT_MAX"
    using 1(3) Cons.prems(3,5) by simp_all
  from Cons.IH [OF this(1) gc_objects_same [OF Cons.prems(2) 1(2)] this(2) 1(4) this(3)] obtain rt' where
    2: "list_for_each Tmp_obj_list (mark_children_with gc_scan_incref_child2) (cursor Tmp_obj_list todo) rt1 = Some rt'"
       "same_objects rt1 rt'" "in_lists rt' gs (seen @ p # todo) zs" "rt_mark rt' = rt_mark rt1"
       "\<forall>x\<in>G. rt_ref_count rt' x = int (r x + refs_to C (set (seen @ p # todo)) x)" by auto
  have "list_for_each Tmp_obj_list (mark_children_with gc_scan_incref_child2) (cursor Tmp_obj_list (p # todo)) rt = Some rt'"
    using 1(1) 2(1) C next_in_tmp [OF 1(3)]
    by (subst list_for_each.simps) (simp add: mark_children_with_def cursor_def)
  with 2 1(5) same_objects_trans [OF 1(2)] show ?case by auto
qed

section \<open>What is left in the lists\<close>

text \<open>Reachable from an object with an external reference.\<close>

inductive gc_reachable :: "nat set \<Rightarrow> (nat \<Rightarrow> nat list) \<Rightarrow> (nat \<Rightarrow> nat) \<Rightarrow> nat \<Rightarrow> bool" for G C ext where
  root: "p \<in> G \<Longrightarrow> ext p > 0 \<Longrightarrow> gc_reachable G C ext p"
| child: "gc_reachable G C ext p \<Longrightarrow> q \<in> set (C p) \<Longrightarrow> gc_reachable G C ext q"

text \<open>
  A consistent heap: the objects in \<open>gc_obj_list\<close> refer to each other only, are unmarked, and each count is the
  number of references from outside plus the references that the mark functions report.
\<close>

definition gc_wf ::
  "'p js_runtime \<Rightarrow> nat list \<Rightarrow> nat list \<Rightarrow> nat list \<Rightarrow> (nat \<Rightarrow> nat list) \<Rightarrow> (nat \<Rightarrow> nat) \<Rightarrow> bool" where
  "gc_wf rt gs ts zs C ext \<longleftrightarrow> in_lists rt gs ts zs \<and> gc_objects rt (set gs) C \<and>
     (\<forall>p\<in>set gs. rt_mark rt p = 0 \<and> rt_ref_count rt p = int (ext p + refs_to C (set gs) p) \<and> rt_ref_count rt p \<le> INT_MAX)"

lemma gc_decref_inv:
  assumes "gc_wf rt gs ts zs C ext"
  shows "\<exists>rt' gs' ts'. gc_decref rt = Some rt' \<and> same_objects rt rt' \<and>
    decref_inv rt' (set gs) gs' [] ts' zs (\<lambda>x. int (ext x))"
proof -
  let ?rt = "rt\<lparr>rt_links := init_list_head Tmp_obj_list (rt_links rt)\<rparr>"
  have "in_lists ?rt gs [] zs"
    using lh.init_rep [of gc_heads "rt_links rt" "gc_lists gs ts zs" Tmp_obj_list] assms gc_lists_upd(2) [of gs ts zs "[]"]
    by (simp add: gc_wf_def in_lists_def)
  moreover from this next_of_heads(1) [OF this] next_of_cursor [of ?rt "[]" gs "[]" zs] obtain el1 where
    "l_next (rt_links ?rt Gc_obj_list) = Some (cursor Gc_obj_list gs)"
    "l_next (rt_links ?rt (cursor Gc_obj_list gs)) = Some el1" "gs \<noteq> [] \<longrightarrow> el1 = cursor Gc_obj_list (tl gs)"
    by (auto simp: cursor_def)
  moreover from calculation(1) have "decref_inv ?rt (set gs) [] gs [] zs (\<lambda>x. int (ext x + refs_to C (set gs) x))"
    using assms by (simp add: decref_inv_def gc_wf_def)
  moreover have "gc_objects ?rt (set gs) C" using assms by (simp add: gc_wf_def gc_objects_def)
  ultimately show ?thesis
    using gc_decref_loop_inv [of ?rt "set gs" "[]" gs "[]" zs ext C el1]
    by (auto simp: gc_decref_def Let_def same_objects_def)
qed

lemma gc_scan_result:
  assumes "scan_inv rt G gs ts zs (\<lambda>x. ext x + refs_to C (set gs) x)" "gc_objects rt G C"
    and "set gs \<subseteq> {p. gc_reachable G C ext p}"
  shows "set gs = {p. gc_reachable G C ext p}" "set ts = G - {p. gc_reachable G C ext p}"
proof -
  have parts: "set gs \<union> set ts = G" "set gs \<inter> set ts = {}" and ts: "\<And>x. x \<in> set ts \<Longrightarrow> ext x + refs_to C (set gs) x = 0"
    using assms(1) in_lists_facts(4) by (auto simp: scan_inv_def)
  have "p \<in> set gs" if "gc_reachable G C ext p" for p
    using that
  proof induction
    case (root p)
    then show ?case using parts ts [of p] by auto
  next
    case (child p q)
    have "set (C p) \<subseteq> G" using assms(2) parts child.IH by (auto simp: gc_objects_def)
    moreover have "0 < refs_to C (set gs) q" using child by (intro refs_to_pos) auto
    ultimately show ?case using parts ts [of q] child.hyps(2) by auto
  qed
  with assms(3) show "set gs = {p. gc_reachable G C ext p}" by auto
  with parts show "set ts = G - {p. gc_reachable G C ext p}" by auto
qed

lemma gc_decref_scan:
  assumes wf: "gc_wf rt gs ts zs C ext"
  shows "\<exists>rt' gs' ts'. Option.bind (gc_decref rt) gc_scan = Some rt' \<and> in_lists rt' gs' ts' zs \<and> same_objects rt rt' \<and>
    set gs' = {p. gc_reachable (set gs) C ext p} \<and> set ts' = set gs - {p. gc_reachable (set gs) C ext p} \<and>
    (\<forall>p\<in>set gs. rt_ref_count rt' p = rt_ref_count rt p) \<and> (\<forall>p\<in>set gs'. rt_mark rt' p = 0) \<and> (\<forall>p\<in>set ts'. rt_mark rt' p = 1)"
proof -
  let ?G = "set gs" and ?R = "{p. gc_reachable (set gs) C ext p}"
  have G: "gc_objects rt ?G C" and bound: "\<And>x. x \<in> ?G \<Longrightarrow> int (ext x + refs_to C ?G x) \<le> INT_MAX"
    using wf by (auto simp: gc_wf_def)
  obtain rt1 gs1 ts1 where 1: "gc_decref rt = Some rt1" "same_objects rt rt1"
    "decref_inv rt1 ?G gs1 [] ts1 zs (\<lambda>x. int (ext x))" using gc_decref_inv [OF wf] by blast
  have inv1: "scan_inv rt1 ?G ([] @ gs1) ts1 zs (\<lambda>x. ext x + refs_to C (set []) x)"
    using 1(3) by (auto simp: decref_inv_def scan_inv_def)
  have R: "set ([] @ gs1) \<subseteq> ?R" using 1(3) by (auto simp: decref_inv_def intro!: gc_reachable.root)
  have closed: "\<forall>p\<in>?R. set (C p) \<subseteq> ?R" and none: "\<forall>x\<in>set []. rt_mark rt1 x = 0"
    by (auto intro: gc_reachable.child)
  have marks: "\<forall>x\<in>set ts1. rt_mark rt1 x = 1" using 1(3) by (simp add: decref_inv_def)
  note G1 = gc_objects_same [OF G 1(2)]
  obtain rt2 gs2 ts2 where
    2: "list_for_each Gc_obj_list gc_scan_object (cursor Gc_obj_list gs1) rt1 = Some rt2" "same_objects rt1 rt2"
       "scan_inv rt2 ?G gs2 ts2 zs (\<lambda>x. ext x + refs_to C (set gs2) x)" "set gs2 \<subseteq> ?R"
       "\<forall>x\<in>set gs2. rt_mark rt2 x = 0" "\<forall>x\<in>set ts2. rt_mark rt2 x = 1"
    using gc_scan_loop_inv [OF inv1 G1 bound none R closed marks] by blast
  note G2 = gc_objects_same [OF G1 2(2)]
  note parts = gc_scan_result [OF 2(3) G2 2(4)]
  have lists2: "in_lists rt2 gs2 ([] @ ts2) zs" and fin: "finite (set gs2)" using 2(3) by (simp_all add: scan_inv_def)
  have cover: "set ([] @ ts2) \<subseteq> ?G" using parts by auto
  have split: "refs_to C (set gs2) x + refs_to C (set ts2) x = refs_to C ?G x" for x
  proof -
    have "?G = set gs2 \<union> set ts2" "set gs2 \<inter> set ts2 = {}" using 2(3) in_lists_facts(4) [OF lists2] by (auto simp: scan_inv_def)
    then show ?thesis by (simp add: refs_to_def sum.union_disjoint)
  qed
  have counts: "\<forall>x\<in>?G. rt_ref_count rt2 x = int (ext x + refs_to C (set gs2) x + refs_to C (set []) x)"
    using 2(3) by (simp add: scan_inv_def)
  have bound2: "int (ext x + refs_to C (set gs2) x + refs_to C (set ([] @ ts2)) x) \<le> INT_MAX" if "x \<in> ?G" for x
    using bound [OF that] split [of x] by simp
  obtain rt3 where
    3: "list_for_each Tmp_obj_list (mark_children_with gc_scan_incref_child2) (cursor Tmp_obj_list ts2) rt2 = Some rt3"
       "same_objects rt2 rt3" "in_lists rt3 gs2 ts2 zs" "rt_mark rt3 = rt_mark rt2"
       "\<forall>x\<in>?G. rt_ref_count rt3 x = int (ext x + refs_to C (set gs2) x + refs_to C (set ts2) x)"
    using gc_scan_loop2_inv [OF lists2 G2 cover counts bound2] by auto
  have "gc_scan rt1 = Some rt3"
    using 1(3) 2(1) 3(1) next_of_heads(1) [of rt1 gs1 ts1 zs] next_of_heads(2) [of rt2 gs2 ts2 zs] lists2
    by (simp add: gc_scan_def decref_inv_def cursor_def)
  moreover have "\<forall>p\<in>?G. rt_ref_count rt3 p = rt_ref_count rt p"
    using 3(5) wf split by (simp add: gc_wf_def add.assoc)
  ultimately show ?thesis
    using 1(1) 3 2(5,6) parts same_objects_trans [OF same_objects_trans [OF 1(2) 2(2)] 3(2)]
    by (intro exI [of _ rt3] exI [of _ gs2] exI [of _ ts2]) auto
qed

text \<open>
  C2: \<open>gc_decref\<close> and \<open>gc_scan\<close> on a consistent heap. They return (no assertion fails, the loops end although
  the lists change under them, no freed header is touched, no count overflows), restore every count, and leave
  in \<open>gc_obj_list\<close> exactly the objects reachable from one with an external reference, unmarked, and in
  \<open>tmp_obj_list\<close> exactly the others.
\<close>

theorem gc_finds_garbage:
  assumes "gc_wf rt gs ts zs C ext"
  shows "\<exists>rt' gs' ts'. Option.bind (gc_decref rt) gc_scan = Some rt' \<and> in_lists rt' gs' ts' zs \<and>
    set gs' = {p. gc_reachable (set gs) C ext p} \<and> set ts' = set gs - {p. gc_reachable (set gs) C ext p} \<and>
    (\<forall>p\<in>set gs. rt_ref_count rt' p = rt_ref_count rt p) \<and> (\<forall>p\<in>set gs'. rt_mark rt' p = 0) \<and> rt_heap rt' = rt_heap rt"
  using gc_decref_scan [OF assms] unfolding same_objects_def by blast

section \<open>A closure over a variable of a suspended generator\<close>

text \<open>Links for given objects in \<open>gc_obj_list\<close>.\<close>

definition link_objects :: "nat list \<Rightarrow> gc_node links" where
  "link_objects gs =
     fold (\<lambda>p L. the (list_add_tail (Gc_obj p) Gc_obj_list L)) gs
       (init_list_head Gc_obj_list (init_list_head Tmp_obj_list (init_list_head Gc_zero_ref_count_list
          (\<lambda>_. \<lparr>l_prev = None, l_next = None\<rparr>))))"

lemma link_objects_lists: "distinct gs \<Longrightarrow> lists gc_heads (link_objects gs) (gc_lists gs [] [])"
proof (induction gs rule: rev_induct)
  case Nil
  then show ?case
    by (simp add: link_objects_def lists_def gc_heads_def dlist_def init_list_head_def)
next
  case (snoc p gs)
  have fresh: "\<forall>h\<in>gc_heads. Gc_obj p \<notin> set (gc_lists gs [] [] h)" using snoc.prems by (auto simp: gc_heads_def)
  obtain L where L: "list_add_tail (Gc_obj p) Gc_obj_list (link_objects gs) = Some L"
    "lists gc_heads L ((gc_lists gs [] [])(Gc_obj_list := gc_lists gs [] [] Gc_obj_list @ [Gc_obj p]))"
    using lh.add_tail_rep [OF _ gc_heads_simps(1) gc_heads_simps(4) fresh] snoc by auto
  have "(gc_lists gs [] [])(Gc_obj_list := gc_lists gs [] [] Gc_obj_list @ [Gc_obj p]) = gc_lists (gs @ [p]) [] []"
    by (rule ext, case_tac x) simp_all
  with L show ?case by (simp add: link_objects_def)
qed

text \<open>
  The generator object 4 refers to itself by a property; its suspended frame has the generator function 7 with the byte
  code 8, and the object 6 in a variable. The closure 1, which is referenced from outside, captured this variable by the
  reference 3.
\<close>

definition undefined_value :: js_value where
  "undefined_value = \<lparr>v_tag = JS_TAG_UNDEFINED, v_ptr = 0\<rparr>"

definition JS_CLASS_GENERATOR_FUNCTION :: nat where "JS_CLASS_GENERATOR_FUNCTION = 16"

definition generator_heap :: "unit gc_heap" where
  "generator_heap = [
     0 \<mapsto> Shape \<lparr>sh_proto = None, sh_prop = []\<rparr>,
     1 \<mapsto> Js_object \<lparr>o_shape = 0, o_prop = [], class_id = JS_CLASS_BYTECODE_FUNCTION, o_u = U_func (Some 2) (Some [Some 3]) None\<rparr>,
     2 \<mapsto> Function_bytecode \<lparr>b_cpool = [], b_closure_var_count = 1, b_realm = None\<rparr>,
     3 \<mapsto> Var_ref \<lparr>is_detached = False, vr_pvalue = JS_MKPTR JS_TAG_OBJECT 6\<rparr>,
     4 \<mapsto> Js_object \<lparr>o_shape = 5, o_prop = [Prop_value (JS_MKPTR JS_TAG_OBJECT 4)], class_id = JS_CLASS_GENERATOR,
           o_u = U_generator_data (Some (False, \<lparr>this_val = undefined_value, cur_func = JS_MKPTR JS_TAG_OBJECT 7,
             cur_sp = Some [JS_MKPTR JS_TAG_OBJECT 6]\<rparr>))\<rparr>,
     5 \<mapsto> Shape \<lparr>sh_proto = None, sh_prop = [(1, 7)]\<rparr>,
     6 \<mapsto> Js_object \<lparr>o_shape = 0, o_prop = [], class_id = JS_CLASS_OBJECT, o_u = U_none\<rparr>,
     7 \<mapsto> Js_object \<lparr>o_shape = 0, o_prop = [], class_id = JS_CLASS_GENERATOR_FUNCTION, o_u = U_func (Some 8) None None\<rparr>,
     8 \<mapsto> Function_bytecode \<lparr>b_cpool = [], b_closure_var_count = 0, b_realm = None\<rparr>]"

definition generator_runtime :: "unit js_runtime" where
  "generator_runtime = \<lparr>rt_class_array = js_class_array, rt_heap = generator_heap,
     rt_ref_count = (\<lambda>_. 1)(0 := 3), rt_mark = (\<lambda>_. 0), rt_links = link_objects [0, 1, 2, 4, 5, 6, 7, 8]\<rparr>"

definition generator_refs :: "nat \<Rightarrow> nat list" where
  "generator_refs = (\<lambda>_. [])(1 := [0, 2], 4 := [5, 4, 7, 6], 6 := [0], 7 := [0, 8])"

lemma generator_marks:
  "mark_children js_class_array generator_heap 0 = Some []"
  "mark_children js_class_array generator_heap 1 = Some [0, 2]"
  "mark_children js_class_array generator_heap 2 = Some []"
  "mark_children js_class_array generator_heap 4 = Some [5, 4, 7, 6]"
  "mark_children js_class_array generator_heap 5 = Some []"
  "mark_children js_class_array generator_heap 6 = Some [0]"
  "mark_children js_class_array generator_heap 7 = Some [0, 8]"
  "mark_children js_class_array generator_heap 8 = Some []"
  by (simp_all add: mark_children_def generator_heap_def mark_js_object_def get_shape_def mark_property_def
      js_class_array_def js_std_class_def_def JS_CLASS_OBJECT_def JS_CLASS_BYTECODE_FUNCTION_def JS_CLASS_GENERATOR_def JS_CLASS_GENERATOR_FUNCTION_def
      js_bytecode_function_mark_def js_generator_mark_def async_func_mark_def get_bytecode_def get_var_ref_def
      mark_object_def mark_values_def opt_list_def JS_MarkValue_def JS_VALUE_HAS_REF_COUNT_def JS_MKPTR_def
      JS_TAG_FIRST_def JS_TAG_OBJECT_def JS_TAG_FUNCTION_BYTECODE_def JS_TAG_UNDEFINED_def undefined_value_def
      JS_ATOM_NULL_def JS_PROP_TMASK_def c_assert_def)

lemma generator_wf: "gc_wf generator_runtime [0, 1, 2, 4, 5, 6, 7, 8] [] [] generator_refs ((\<lambda>_. 0)(1 := 1))"
  by (simp add: gc_wf_def generator_runtime_def in_lists_def link_objects_lists gc_objects_def generator_marks
      generator_refs_def refs_to_def INT_MAX_def del: One_nat_def)

lemma generator_reachable:
  "{p. gc_reachable (set [0, 1, 2, 4, 5, 6, 7, 8]) generator_refs ((\<lambda>_. 0)(1 := 1)) p} = {0, 1, 2}" (is "{p. ?R p} = _")
proof -
  have "p \<in> {0, 1, 2}" if "?R p" for p
    using that by induction (auto simp: generator_refs_def split: if_splits)
  moreover have "?R 1" by (rule gc_reachable.root) simp_all
  ultimately show ?thesis
    using gc_reachable.child [of _ generator_refs _ 1] by (auto simp: generator_refs_def)
qed

theorem gc_finds_garbage_witness:
  "\<exists>rt' gs' ts'. Option.bind (gc_decref generator_runtime) gc_scan = Some rt' \<and> in_lists rt' gs' ts' [] \<and>
    set gs' = {0, 1, 2} \<and> set ts' = {4, 5, 6, 7, 8}"
  using gc_finds_garbage [OF generator_wf] unfolding generator_reachable by fastforce

text \<open>
  The collector takes the object in the captured variable for garbage while the closure that refers to it is
  kept. \<open>mark_children\<close> reports variables only when they are detached from their frame, which those of a
  suspended generator are not.
\<close>

lemma gc_collects_captured_variable:
  "\<exists>rt' gs' ts'. Option.bind (gc_decref generator_runtime) gc_scan = Some rt' \<and> in_lists rt' gs' ts' [] \<and>
    1 \<in> set gs' \<and> 6 \<in> set ts' \<and>
    (\<exists>p. rt_heap rt' 1 = Some (Js_object p) \<and> o_u p = U_func (Some 2) (Some [Some 3]) None) \<and>
    get_var_ref (rt_heap rt') 3 = Some \<lparr>is_detached = False, vr_pvalue = JS_MKPTR JS_TAG_OBJECT 6\<rparr>"
proof -
  have "rt_heap generator_runtime 1 = Some (Js_object \<lparr>o_shape = 0, o_prop = [], class_id = JS_CLASS_BYTECODE_FUNCTION,
      o_u = U_func (Some 2) (Some [Some 3]) None\<rparr>)"
    and "get_var_ref (rt_heap generator_runtime) 3 = Some \<lparr>is_detached = False, vr_pvalue = JS_MKPTR JS_TAG_OBJECT 6\<rparr>"
    by (simp_all add: generator_runtime_def generator_heap_def get_var_ref_def)
  then show ?thesis
    using gc_decref_scan [OF generator_wf] unfolding generator_reachable same_objects_def by fastforce
qed

end
