(* ===== verification/Rq_Sort.thy ===== *)
theory Rq_Sort
  imports QJS_Prelude "HOL-Library.Multiset"
begin

text \<open>
  The sort of cutils.c, 490 to 650: \<open>rqsort\<close> with its median of three, the partition into four parts, the stack of
  50 segments, the insertion sort of small segments and the change to \<open>heapsortx\<close> at depth 50.

  Pointers into the array are counted in elements, and the redundant pairs of a pointer and an index in \<open>rqsort\<close>
  are one number. The comparison is any function, with a state of its own behind \<open>opaque\<close>; an access outside the
  array and a push on the full stack are \<open>None\<close>. \<open>Exchange\<close> has the byte level of the swaps.
\<close>

section \<open>The algorithm\<close>

type_synonym ('a, 's) cmp_f = "'a \<Rightarrow> 'a \<Rightarrow> 's \<Rightarrow> int \<times> 's"

definition cmp_at :: "('a, 's) cmp_f \<Rightarrow> 'a list \<Rightarrow> nat \<Rightarrow> nat \<Rightarrow> 's \<Rightarrow> (int \<times> 's) option" where
  "cmp_at cmp A i j s = do {
     a \<leftarrow> rd A i;
     b \<leftarrow> rd A j;
     Some (cmp a b s)
   }"

definition swap_at :: "'a list \<Rightarrow> nat \<Rightarrow> nat \<Rightarrow> 'a list option" where
  "swap_at A i j = do {
     t \<leftarrow> rd A i;
     b \<leftarrow> rd A j;
     A \<leftarrow> wr A i b;
     wr A j t
   }"

fun swap_block :: "'a list \<Rightarrow> nat \<Rightarrow> nat \<Rightarrow> nat \<Rightarrow> 'a list option" where
  "swap_block A a b 0 = Some A"
| "swap_block A a b (Suc n) = do {
     A \<leftarrow> swap_at A a b;
     swap_block A (Suc a) (Suc b) n
   }"

text \<open>The body of the loops of \<open>heapsortx\<close> on n elements from \<open>b\<close> on: the larger child c of r, then the exchange.\<close>

definition larger_child ::
  "('a, 's) cmp_f \<Rightarrow> nat \<Rightarrow> nat \<Rightarrow> nat \<Rightarrow> 'a list \<Rightarrow> 's \<Rightarrow> (nat \<times> 's) option" where
  "larger_child cmp b n c A s =
     (if c < n - 1 then do {
        (v, s) \<leftarrow> cmp_at cmp A (b + c) (b + c + 1) s;
        Some (if v \<le> 0 then c + 1 else c, s)
      } else Some (c, s))"

lemma larger_child_range:
  "larger_child cmp b n c A s = Some (c', s') \<Longrightarrow> c < n \<Longrightarrow> c \<le> c' \<and> c' \<le> c + 1 \<and> c' < n"
  by (auto simp: larger_child_def bind_Some_iff split: if_splits)

function sift_down ::
  "('a, 's) cmp_f \<Rightarrow> nat \<Rightarrow> nat \<Rightarrow> nat \<Rightarrow> 'a list \<Rightarrow> 's \<Rightarrow> ('a list \<times> 's) option" where
  "sift_down cmp b n r A s =
     (let c = r * 2 + 1 in
      if \<not> c < n then Some (A, s)
      else case larger_child cmp b n c A s of
        None \<Rightarrow> None
      | Some (c, s) \<Rightarrow> do {
          (v, s) \<leftarrow> cmp_at cmp A (b + r) (b + c) s;
          if v > 0 then Some (A, s)
          else do {
            A \<leftarrow> swap_at A (b + r) (b + c);
            sift_down cmp b n c A s
          }
        })"
  by auto
termination
  by (relation "measure (\<lambda>(cmp, b, n, r, A, s). n - r)") (auto dest!: larger_child_range)

declare sift_down.simps [simp del]

fun heap_build :: "('a, 's) cmp_f \<Rightarrow> nat \<Rightarrow> nat \<Rightarrow> nat \<Rightarrow> 'a list \<Rightarrow> 's \<Rightarrow> ('a list \<times> 's) option" where
  "heap_build cmp b n 0 A s = Some (A, s)"
| "heap_build cmp b n (Suc i) A s = do {
     (A, s) \<leftarrow> sift_down cmp b n i A s;
     heap_build cmp b n i A s
   }"

fun heap_extract :: "('a, 's) cmp_f \<Rightarrow> nat \<Rightarrow> nat \<Rightarrow> 'a list \<Rightarrow> 's \<Rightarrow> ('a list \<times> 's) option" where
  "heap_extract cmp b 0 A s = Some (A, s)"
| "heap_extract cmp b (Suc i) A s = do {
     A \<leftarrow> swap_at A b (b + Suc i);
     (A, s) \<leftarrow> sift_down cmp b (Suc i) 0 A s;
     heap_extract cmp b i A s
   }"

definition heapsortx :: "('a, 's) cmp_f \<Rightarrow> nat \<Rightarrow> nat \<Rightarrow> 'a list \<Rightarrow> 's \<Rightarrow> ('a list \<times> 's) option" where
  "heapsortx cmp b nmemb A s =
     (if nmemb > 1 then do {
        (A, s) \<leftarrow> heap_build cmp b nmemb (nmemb div 2) A s;
        heap_extract cmp b (nmemb - 1) A s
      } else Some (A, s))"

definition med3 ::
  "('a, 's) cmp_f \<Rightarrow> 'a list \<Rightarrow> nat \<Rightarrow> nat \<Rightarrow> nat \<Rightarrow> 's \<Rightarrow> (nat \<times> 's) option" where
  "med3 cmp A a b c s = do {
     (v, s) \<leftarrow> cmp_at cmp A a b s;
     (w, s) \<leftarrow> cmp_at cmp A b c s;
     if v < 0 then
       (if w < 0 then Some (b, s)
        else do { (x, s) \<leftarrow> cmp_at cmp A a c s; Some (if x < 0 then c else a, s) })
     else
       (if w > 0 then Some (b, s)
        else do { (x, s) \<leftarrow> cmp_at cmp A a c s; Some (if x < 0 then a else c, s) })
   }"

text \<open>The two inner loops of the partition of the segment at \<open>p\<close>; indices are relative to p.\<close>

function part_up ::
  "('a, 's) cmp_f \<Rightarrow> nat \<Rightarrow> nat \<Rightarrow> nat \<Rightarrow> nat \<Rightarrow> 'a list \<Rightarrow> 's \<Rightarrow> (nat \<times> nat \<times> 'a list \<times> 's) option" where
  "part_up cmp p j i lt A s =
     (if i < j then do {
        (c, s) \<leftarrow> cmp_at cmp A p (p + i) s;
        if c \<ge> 0 then
          (if c = 0 then do {
             A \<leftarrow> swap_at A (p + lt) (p + i);
             part_up cmp p j (i + 1) (lt + 1) A s
           } else part_up cmp p j (i + 1) lt A s)
        else Some (i, lt, A, s)
      } else Some (i, lt, A, s))"
  by auto
termination
  by (relation "measure (\<lambda>(cmp, p, j, i, lt, A, s). j - i)") auto

declare part_up.simps [simp del]

fun part_down ::
  "('a, 's) cmp_f \<Rightarrow> nat \<Rightarrow> nat \<Rightarrow> nat \<Rightarrow> nat \<Rightarrow> 'a list \<Rightarrow> 's \<Rightarrow> (nat \<times> nat \<times> 'a list \<times> 's) option" where
  "part_down cmp p i 0 gt A s = None"
| "part_down cmp p i (Suc j) gt A s =
     (if i < j then do {
        (c, s) \<leftarrow> cmp_at cmp A p (p + j) s;
        if c \<le> 0 then
          (if c = 0 then do {
             let gt = gt - 1;
             A \<leftarrow> swap_at A (p + gt) (p + j);
             part_down cmp p i j gt A s
           } else part_down cmp p i j gt A s)
        else Some (j, gt, A, s)
      } else Some (j, gt, A, s))"

partial_function (option) part_loop ::
  "('a, 's) cmp_f \<Rightarrow> nat \<Rightarrow> nat \<Rightarrow> nat \<Rightarrow> nat \<Rightarrow> nat \<Rightarrow> 'a list \<Rightarrow> 's \<Rightarrow> (nat \<times> nat \<times> nat \<times> 'a list \<times> 's) option" where
  "part_loop cmp p i lt j gt A s = do {
     (i, lt, A, s) \<leftarrow> part_up cmp p j i lt A s;
     (j, gt, A, s) \<leftarrow> part_down cmp p i j gt A s;
     if i \<ge> j then Some (i, lt, gt, A, s)
     else do {
       A \<leftarrow> swap_at A (p + i) (p + j);
       part_loop cmp p (i + 1) lt j gt A s
     }
   }"

text \<open>One round of the \<open>while\<close> on a segment of more than 6 elements: the sizes of the parts below and up to the end of the middle.\<close>

definition rq_partition ::
  "('a, 's) cmp_f \<Rightarrow> nat \<Rightarrow> nat \<Rightarrow> 'a list \<Rightarrow> 's \<Rightarrow> (nat \<times> nat \<times> 'a list \<times> 's) option" where
  "rq_partition cmp ptr nmemb A s = do {
     let m4 = nmemb div 4;
     (m, s) \<leftarrow> med3 cmp A (ptr + m4) (ptr + 2 * m4) (ptr + 3 * m4) s;
     A \<leftarrow> swap_at A ptr m;
     (i, lt, gt, A, s) \<leftarrow> part_loop cmp ptr 1 1 nmemb nmemb A s;
     let span = min lt (i - lt);
     A \<leftarrow> swap_block A ptr (ptr + i - span) span;
     let span = min (nmemb - gt) (gt - i);
     A \<leftarrow> swap_block A (ptr + i) (ptr + nmemb - span) span;
     Some (i - lt, nmemb - (gt - i), A, s)
   }"

definition RQ_STACK :: nat where "RQ_STACK = 50"

type_synonym rq_stack = "(nat \<times> nat \<times> nat) list"

partial_function (option) rqsort_segment ::
  "('a, 's) cmp_f \<Rightarrow> nat \<Rightarrow> nat \<Rightarrow> nat \<Rightarrow> rq_stack \<Rightarrow> 'a list \<Rightarrow> 's \<Rightarrow> (nat \<times> nat \<times> rq_stack \<times> 'a list \<times> 's) option" where
  "rqsort_segment cmp ptr nmemb depth stack A s =
     (if nmemb > 6 then
        let depth = depth + 1 in
        if depth > 50 then do {
          (A, s) \<leftarrow> heapsortx cmp ptr nmemb A s;
          Some (ptr, 0, stack, A, s)
        }
        else do {
          (lt, gt, A, s) \<leftarrow> rq_partition cmp ptr nmemb A s;
          c_assert (length stack < RQ_STACK);
          if lt > nmemb - gt then
            rqsort_segment cmp (ptr + gt) (nmemb - gt) depth ((ptr, lt, depth) # stack) A s
          else
            rqsort_segment cmp ptr lt depth ((ptr + gt, nmemb - gt, depth) # stack) A s
        }
      else Some (ptr, nmemb, stack, A, s))"

fun insert_down :: "('a, 's) cmp_f \<Rightarrow> nat \<Rightarrow> nat \<Rightarrow> 'a list \<Rightarrow> 's \<Rightarrow> ('a list \<times> 's) option" where
  "insert_down cmp ptr 0 A s = Some (A, s)"
| "insert_down cmp ptr (Suc j) A s = do {
     (c, s) \<leftarrow> cmp_at cmp A (ptr + j) (ptr + Suc j) s;
     if c > 0 then do {
       A \<leftarrow> swap_at A (ptr + Suc j) (ptr + j);
       insert_down cmp ptr j A s
     } else Some (A, s)
   }"

function insertion_sort :: "('a, 's) cmp_f \<Rightarrow> nat \<Rightarrow> nat \<Rightarrow> nat \<Rightarrow> 'a list \<Rightarrow> 's \<Rightarrow> ('a list \<times> 's) option" where
  "insertion_sort cmp ptr nmemb i A s =
     (if i < nmemb then do {
        (A, s) \<leftarrow> insert_down cmp ptr i A s;
        insertion_sort cmp ptr nmemb (i + 1) A s
      } else Some (A, s))"
  by auto
termination
  by (relation "measure (\<lambda>(cmp, ptr, nmemb, i, A, s). nmemb - i)") auto

declare insertion_sort.simps [simp del]

partial_function (option) rqsort_loop ::
  "('a, 's) cmp_f \<Rightarrow> rq_stack \<Rightarrow> 'a list \<Rightarrow> 's \<Rightarrow> ('a list \<times> 's) option" where
  "rqsort_loop cmp stack A s =
     (case stack of
        [] \<Rightarrow> Some (A, s)
      | (ptr, nmemb, depth) # stack \<Rightarrow> do {
          (ptr, nmemb, stack, A, s) \<leftarrow> rqsort_segment cmp ptr nmemb depth stack A s;
          (A, s) \<leftarrow> insertion_sort cmp ptr nmemb 1 A s;
          rqsort_loop cmp stack A s
        })"

definition rqsort :: "('a, 's) cmp_f \<Rightarrow> nat \<Rightarrow> nat \<Rightarrow> 'a list \<Rightarrow> 's \<Rightarrow> ('a list \<times> 's) option" where
  "rqsort cmp base nmemb A s =
     (if nmemb < 2 then Some (A, s) else rqsort_loop cmp [(base, nmemb, 0)] A s)"

end
