(* ===== verification/Rq_Sort_Correct.thy ===== *)
theory Rq_Sort_Correct
  imports Rq_Sort
begin

text \<open>
  What \<open>rqsort\<close> computes. The locale \<open>comparator\<close> is its interface: a comparison whose results agree with a
  reflexive and transitive relation, in every state that an invariant allows. With the full relation it covers every comparison,
  which gives memory safety, termination and the permutation; with an order it gives sortedness.
\<close>

section \<open>Changes inside a segment\<close>

definition seg_perm :: "nat \<Rightarrow> nat \<Rightarrow> 'a list \<Rightarrow> 'a list \<Rightarrow> bool" where
  "seg_perm b n A A' \<longleftrightarrow> mset A' = mset A \<and>
     (\<forall>k. k < b \<or> b + n \<le> k \<longrightarrow> A' ! k = A ! k) \<and>
     (\<forall>k. b \<le> k \<and> k < b + n \<longrightarrow> (\<exists>m. b \<le> m \<and> m < b + n \<and> A' ! k = A ! m))"

lemma seg_perm_refl [simp]: "seg_perm b n A A"
  by (auto simp: seg_perm_def)

lemma seg_perm_trans: "seg_perm b n A B \<Longrightarrow> seg_perm b n B C \<Longrightarrow> seg_perm b n A C"
  unfolding seg_perm_def by metis

lemma seg_perm_length: "seg_perm b n A A' \<Longrightarrow> length A' = length A"
  unfolding seg_perm_def by (metis size_mset)

lemma seg_perm_mono:
  assumes A: "seg_perm b n A A'" and "c \<le> b" "b + n \<le> c + m"
  shows "seg_perm c m A A'"
  unfolding seg_perm_def
proof (intro conjI allI impI)
  show "mset A' = mset A" using A by (simp add: seg_perm_def)
  fix k
  show "A' ! k = A ! k" if "k < c \<or> c + m \<le> k" using A that assms(2,3) by (auto simp: seg_perm_def)
  show "\<exists>i. c \<le> i \<and> i < c + m \<and> A' ! k = A ! i" if k: "c \<le> k \<and> k < c + m"
  proof (cases "b \<le> k \<and> k < b + n")
    case True
    with A obtain i where "b \<le> i" "i < b + n" "A' ! k = A ! i" unfolding seg_perm_def by blast
    with assms(2,3) show ?thesis by (intro exI [of _ i]) auto
  next
    case False
    with A have "A' ! k = A ! k" by (auto simp: seg_perm_def)
    with k show ?thesis by auto
  qed
qed

lemma seg_perm_outside: "seg_perm b n A A' \<Longrightarrow> k < b \<or> b + n \<le> k \<Longrightarrow> A' ! k = A ! k"
  by (auto simp: seg_perm_def)

definition swapped :: "'a list \<Rightarrow> nat \<Rightarrow> nat \<Rightarrow> 'a list" where
  "swapped A i j = A[i := A ! j, j := A ! i]"

lemma swap_at_Some [simp]: "i < length A \<Longrightarrow> j < length A \<Longrightarrow> swap_at A i j = Some (swapped A i j)"
  by (simp add: swap_at_def swapped_def)

lemma length_swapped [simp]: "length (swapped A i j) = length A"
  by (simp add: swapped_def)

lemma nth_swapped:
  "i < length A \<Longrightarrow> j < length A \<Longrightarrow> swapped A i j ! k = (if k = j then A ! i else if k = i then A ! j else A ! k)"
  by (simp add: swapped_def nth_list_update)

lemma seg_perm_swapped:
  assumes "b \<le> i" "i < b + n" "b \<le> j" "j < b + n" "b + n \<le> length A"
  shows "seg_perm b n A (swapped A i j)"
proof -
  have "mset (swapped A i j) = mset A"
    using assms mset_swap [of j A i] by (simp add: swapped_def)
  then show ?thesis using assms by (auto simp: seg_perm_def nth_swapped)
qed

lemma swap_block_Some:
  assumes "a + n \<le> b" "b + n \<le> length A"
  shows "\<exists>A'. swap_block A a b n = Some A' \<and> length A' = length A \<and> mset A' = mset A \<and>
    (\<forall>k. A' ! k = (if a \<le> k \<and> k < a + n then A ! (k + (b - a)) else if b \<le> k \<and> k < b + n then A ! (k - (b - a)) else A ! k))"
  using assms
proof (induction n arbitrary: a b A)
  case (Suc n)
  let ?B = "swapped A a b"
  obtain A' where A': "swap_block ?B (Suc a) (Suc b) n = Some A'" "length A' = length A" "mset A' = mset ?B"
    "\<forall>k. A' ! k = (if Suc a \<le> k \<and> k < Suc a + n then ?B ! (k + (b - a))
        else if Suc b \<le> k \<and> k < Suc b + n then ?B ! (k - (b - a)) else ?B ! k)"
    using Suc.IH [of "Suc a" "Suc b" ?B] Suc.prems by auto
  have "mset ?B = mset A" using seg_perm_swapped [of 0 a "length A" b A] Suc.prems by (simp add: seg_perm_def)
  moreover have "A' ! k = (if a \<le> k \<and> k < a + Suc n then A ! (k + (b - a))
      else if b \<le> k \<and> k < b + Suc n then A ! (k - (b - a)) else A ! k)" for k
    using A'(4) Suc.prems by (auto simp: nth_swapped)
  ultimately show ?case using A' Suc.prems by auto
qed auto

lemma swap_block_perm:
  assumes "a + n \<le> b" "b + n \<le> c + m" "c \<le> a" "c + m \<le> length A"
  shows "\<exists>A'. swap_block A a b n = Some A' \<and> seg_perm c m A A' \<and>
    (\<forall>k. A' ! k = (if a \<le> k \<and> k < a + n then A ! (k + (b - a)) else if b \<le> k \<and> k < b + n then A ! (k - (b - a)) else A ! k))"
proof -
  obtain A' where A': "swap_block A a b n = Some A'" "mset A' = mset A"
    "\<forall>k. A' ! k = (if a \<le> k \<and> k < a + n then A ! (k + (b - a)) else if b \<le> k \<and> k < b + n then A ! (k - (b - a)) else A ! k)"
    using swap_block_Some [of a n b A] assms by auto
  have "\<exists>i. c \<le> i \<and> i < c + m \<and> A' ! k = A ! i" if "c \<le> k" "k < c + m" for k
    using A'(3) that assms
    by (cases "a \<le> k \<and> k < a + n"; cases "b \<le> k \<and> k < b + n")
       (auto intro: exI [of _ "k + (b - a)"] exI [of _ "k - (b - a)"])
  then show ?thesis using A' assms by (auto simp: seg_perm_def)
qed

section \<open>The interface\<close>

locale comparator =
  fixes cmp :: "('a, 's) cmp_f"
    and le :: "'a \<Rightarrow> 'a \<Rightarrow> bool"
    and inv :: "'s \<Rightarrow> bool"
  assumes le_refl: "le x x"
    and le_trans: "le x y \<Longrightarrow> le y z \<Longrightarrow> le x z"
    and cmp_le: "inv s \<Longrightarrow> fst (cmp x y s) \<le> 0 \<Longrightarrow> le x y"
    and cmp_ge: "inv s \<Longrightarrow> fst (cmp x y s) \<ge> 0 \<Longrightarrow> le y x"
    and cmp_inv: "inv s \<Longrightarrow> inv (snd (cmp x y s))"
begin

lemma cmp_at_cases:
  assumes "i < length A" "j < length A" "inv s"
  shows "\<exists>v s'. cmp_at cmp A i j s = Some (v, s') \<and> (v \<le> 0 \<longrightarrow> le (A ! i) (A ! j)) \<and> (v \<ge> 0 \<longrightarrow> le (A ! j) (A ! i)) \<and> inv s'"
proof -
  obtain v s' where v: "cmp (A ! i) (A ! j) s = (v, s')" by fastforce
  with assms cmp_le [of s "A ! i" "A ! j"] cmp_ge [of s "A ! i" "A ! j"] cmp_inv [of s "A ! i" "A ! j"] show ?thesis
    by (intro exI [of _ v] exI [of _ s']) (simp add: cmp_at_def)
qed

subsection \<open>The heap sort\<close>

definition heap_at :: "nat \<Rightarrow> 'a list \<Rightarrow> nat \<Rightarrow> bool" where
  "heap_at b A k \<longleftrightarrow> le (A ! (b + k)) (A ! (b + (k - 1) div 2))"

definition heap :: "nat \<Rightarrow> nat \<Rightarrow> nat \<Rightarrow> 'a list \<Rightarrow> bool" where
  "heap b lo n A \<longleftrightarrow> (\<forall>k. 0 < k \<and> k < n \<and> lo \<le> (k - 1) div 2 \<longrightarrow> heap_at b A k)"

text \<open>A heap but for the children of r, which are below the parent of r.\<close>

definition heap_but :: "nat \<Rightarrow> nat \<Rightarrow> nat \<Rightarrow> nat \<Rightarrow> 'a list \<Rightarrow> bool" where
  "heap_but b lo n r A \<longleftrightarrow> lo \<le> r \<and>
     (\<forall>k. 0 < k \<and> k < n \<and> lo \<le> (k - 1) div 2 \<and> (k - 1) div 2 \<noteq> r \<longrightarrow> heap_at b A k) \<and>
     (\<forall>k. 0 < k \<and> k < n \<and> (k - 1) div 2 = r \<and> 0 < r \<and> lo \<le> (r - 1) div 2 \<longrightarrow> le (A ! (b + k)) (A ! (b + (r - 1) div 2)))"

lemma larger_child_spec:
  assumes "b + n \<le> length A" "c = r * 2 + 1" "c < n" "inv s"
  obtains c' s' where "larger_child cmp b n c A s = Some (c', s')" "c' < n" "(c' - 1) div 2 = r" "0 < c'"
    "\<And>k. 0 < k \<Longrightarrow> k < n \<Longrightarrow> (k - 1) div 2 = r \<Longrightarrow> le (A ! (b + k)) (A ! (b + c'))" "inv s'"
proof (cases "c < n - 1")
  case True
  have children: "k = c \<or> k = c + 1" if "0 < k" "(k - 1) div 2 = r" for k using that assms(2) by linarith
  have "b + c < length A" "b + c + 1 < length A" using assms True by linarith+
  from cmp_at_cases [OF this assms(4)] obtain v s' where v: "cmp_at cmp A (b + c) (b + c + 1) s = Some (v, s')"
    "v \<le> 0 \<longrightarrow> le (A ! (b + c)) (A ! (b + c + 1))" "v \<ge> 0 \<longrightarrow> le (A ! (b + c + 1)) (A ! (b + c))" "inv s'"
    by blast
  show ?thesis
  proof (rule that)
    show "larger_child cmp b n c A s = Some (if v \<le> 0 then c + 1 else c, s')"
      using v(1) True by (simp add: larger_child_def)
    show "le (A ! (b + k)) (A ! (b + (if v \<le> 0 then c + 1 else c)))" if "0 < k" "k < n" "(k - 1) div 2 = r" for k
      using children [OF that(1,3)] v(2,3) le_refl by (auto simp: add.assoc)
  qed (use True assms v(4) in auto)
next
  case False
  have c: "k = c" if "0 < k" "k < n" "(k - 1) div 2 = r" for k using that assms(2,3) False by linarith
  show ?thesis
  proof (rule that [of c s])
    show "le (A ! (b + k)) (A ! (b + c))" if "0 < k" "k < n" "(k - 1) div 2 = r" for k
      using c [OF that] le_refl by simp
  qed (use False assms in \<open>auto simp: larger_child_def\<close>)
qed

lemma sift_down_spec:
  assumes "b + n \<le> length A" "heap_but b lo n r A" "inv s"
  shows "\<exists>A' s'. sift_down cmp b n r A s = Some (A', s') \<and> seg_perm b n A A' \<and> heap b lo n A' \<and> inv s'"
  using assms
proof (induction "n - r" arbitrary: r A s rule: less_induct)
  case less
  let ?c = "r * 2 + 1"
  show ?case
  proof (cases "?c < n")
    case False
    then have "\<not> (0 < k \<and> k < n \<and> (k - 1) div 2 = r)" for k by linarith
    with less.prems have "heap b lo n A" by (auto simp: heap_def heap_but_def)
    with False less.prems(3) show ?thesis by (subst sift_down.simps) auto
  next
    case True
    obtain c s1 where c: "larger_child cmp b n ?c A s = Some (c, s1)" "c < n" "(c - 1) div 2 = r" "0 < c"
      and max: "\<And>k. 0 < k \<Longrightarrow> k < n \<Longrightarrow> (k - 1) div 2 = r \<Longrightarrow> le (A ! (b + k)) (A ! (b + c))"
      and s1: "inv s1"
      using larger_child_spec [OF less.prems(1) refl True less.prems(3)] by blast
    have rc: "r < c" "r < n" using c by linarith+
    obtain v s2 where v: "cmp_at cmp A (b + r) (b + c) s1 = Some (v, s2)"
      "v \<le> 0 \<longrightarrow> le (A ! (b + r)) (A ! (b + c))" "v \<ge> 0 \<longrightarrow> le (A ! (b + c)) (A ! (b + r))" "inv s2"
      using cmp_at_cases [of "b + r" A "b + c" s1] less.prems(1) c rc s1 by auto
    show ?thesis
    proof (cases "v > 0")
      case v0: True
      with v(3) have "le (A ! (b + c)) (A ! (b + r))" by simp
      then have "heap_at b A k" if "0 < k" "k < n" "(k - 1) div 2 = r" for k
        using max [OF that] le_trans that(3) by (auto simp: heap_at_def)
      with less.prems(2) have "heap b lo n A" by (auto simp: heap_def heap_but_def)
      with True c v(1,4) v0 show ?thesis by (subst sift_down.simps) (auto simp: Let_def)
    next
      case v0: False
      let ?B = "swapped A (b + r) (b + c)"
      note nth = nth_swapped [of "b + r" A "b + c"]
      have in_len: "b + r < length A" "b + c < length A" using less.prems(1) c rc by auto
      have le: "le (A ! (b + r)) (A ! (b + c))" using v(2) v0 by simp
      have "heap_but b lo n c ?B"
        unfolding heap_but_def
      proof (intro conjI allI impI)
        show "lo \<le> c" using less.prems(2) rc by (simp add: heap_but_def)
      next
        fix k assume k: "0 < k \<and> k < n \<and> lo \<le> (k - 1) div 2 \<and> (k - 1) div 2 \<noteq> c"
        then have kp: "(k - 1) div 2 \<noteq> k" by linarith
        consider "k = c" | "(k - 1) div 2 = r" "k \<noteq> c" | "k = r" | "(k - 1) div 2 \<noteq> r" "k \<noteq> c" "k \<noteq> r" by blast
        then show "heap_at b ?B k"
        proof cases
          case 1
          with le c(3) rc in_len show ?thesis by (simp add: heap_at_def nth)
        next
          case 2
          with max [of k] k rc in_len kp show ?thesis by (auto simp: heap_at_def nth)
        next
          case 3
          with k less.prems(2) c have "le (A ! (b + c)) (A ! (b + (r - 1) div 2))" by (auto simp: heap_but_def)
          with 3 k kp rc in_len show ?thesis by (auto simp: heap_at_def nth)
        next
          case 4
          with k less.prems(2) have "heap_at b A k" by (simp add: heap_but_def)
          with 4 k in_len show ?thesis by (auto simp: heap_at_def nth)
        qed
      next
        fix k assume k: "0 < k \<and> k < n \<and> (k - 1) div 2 = c \<and> 0 < c \<and> lo \<le> (c - 1) div 2"
        then have "k \<noteq> c" "k \<noteq> r" using rc by linarith+
        moreover from k less.prems(2) rc have "heap_at b A k" by (auto simp: heap_but_def)
        ultimately show "le (?B ! (b + k)) (?B ! (b + (c - 1) div 2))"
          using k c(3) rc in_len by (simp add: heap_at_def nth)
      qed
      moreover have "n - c < n - r" using rc c(2) by simp
      ultimately obtain A' s' where A': "sift_down cmp b n c ?B s2 = Some (A', s')" "seg_perm b n ?B A'" "heap b lo n A'" "inv s'"
        using less.hyps [of c ?B s2] less.prems(1) v(4) by auto
      have "seg_perm b n A ?B" using less.prems(1) c rc by (intro seg_perm_swapped) auto
      then have "seg_perm b n A A'" using A'(2) by (rule seg_perm_trans)
      with True c v(1) v0 A' in_len show ?thesis by (subst sift_down.simps) (auto simp: Let_def)
    qed
  qed
qed

lemma heap_build_spec:
  assumes "b + n \<le> length A" "heap b i n A" "inv s"
  shows "\<exists>A' s'. heap_build cmp b n i A s = Some (A', s') \<and> seg_perm b n A A' \<and> heap b 0 n A' \<and> inv s'"
  using assms
proof (induction i arbitrary: A s)
  case (Suc i)
  have "heap_but b i n i A" using Suc.prems(2) by (auto simp: heap_def heap_but_def) 
  then obtain A1 s1 where 1: "sift_down cmp b n i A s = Some (A1, s1)" "seg_perm b n A A1" "heap b i n A1" "inv s1"
    using sift_down_spec [OF Suc.prems(1) _ Suc.prems(3)] by blast
  with Suc.IH [of A1 s1] Suc.prems(1) seg_perm_length [OF 1(2)] seg_perm_trans [OF 1(2)] show ?case by fastforce
qed auto

lemma heap_max: "heap b 0 n A \<Longrightarrow> k < n \<Longrightarrow> le (A ! (b + k)) (A ! b)"
proof (induction k rule: less_induct)
  case (less k)
  show ?case
  proof (cases "k = 0")
    case False
    then have "(k - 1) div 2 < k" by linarith
    with less False have "le (A ! (b + (k - 1) div 2)) (A ! b)" "heap_at b A k" by (auto simp: heap_def)
    then show ?thesis using le_trans by (auto simp: heap_at_def)
  qed (simp add: le_refl)
qed

subsection \<open>Sorted up to pending segments\<close>

text \<open>The pairs of indices between lo and hi are in order, except those that P leaves for later.\<close>

definition mod_sorted :: "nat \<Rightarrow> nat \<Rightarrow> (nat \<Rightarrow> nat \<Rightarrow> bool) \<Rightarrow> 'a list \<Rightarrow> bool" where
  "mod_sorted lo hi P A \<longleftrightarrow> (\<forall>i j. lo \<le> i \<and> i < j \<and> j < hi \<longrightarrow> P i j \<or> le (A ! i) (A ! j))"

definition in_seg :: "nat \<Rightarrow> nat \<Rightarrow> nat \<Rightarrow> nat \<Rightarrow> bool" where
  "in_seg b n i j \<longleftrightarrow> b \<le> i \<and> j < b + n"

text \<open>A permutation of one pending segment does not disturb the pairs outside it.\<close>

lemma mod_sorted_perm:
  assumes A: "mod_sorted lo hi (\<lambda>i j. in_seg b n i j \<or> P i j) A" and perm: "seg_perm b n A A'"
    and apart: "\<And>i j. P i j \<Longrightarrow> i < j \<Longrightarrow> b + n \<le> i \<or> j < b" and range: "lo \<le> b" "b + n \<le> hi"
  shows "mod_sorted lo hi (\<lambda>i j. in_seg b n i j \<or> P i j) A'"
  unfolding mod_sorted_def
proof (intro allI impI)
  fix i j assume ij: "lo \<le> i \<and> i < j \<and> j < hi"
  show "(in_seg b n i j \<or> P i j) \<or> le (A' ! i) (A' ! j)"
  proof (cases "in_seg b n i j \<or> P i j")
    case False
    have src: "\<exists>m. A' ! k = A ! m \<and> (if b \<le> k \<and> k < b + n then b \<le> m \<and> m < b + n else m = k)" for k
      using perm unfolding seg_perm_def by (cases "b \<le> k \<and> k < b + n") auto
    obtain i' j' where i': "A' ! i = A ! i'" "if b \<le> i \<and> i < b + n then b \<le> i' \<and> i' < b + n else i' = i"
      and j': "A' ! j = A ! j'" "if b \<le> j \<and> j < b + n then b \<le> j' \<and> j' < b + n else j' = j"
      using src [of i] src [of j] by blast
    have "lo \<le> i' \<and> i' < j' \<and> j' < hi \<and> \<not> in_seg b n i' j' \<and> \<not> P i' j'"
      using False ij i'(2) j'(2) range apart [of i' j'] by (auto simp: in_seg_def split: if_splits)
    then show ?thesis using A i'(1) j'(1) by (auto simp: mod_sorted_def)
  qed auto
qed

lemma mod_sorted_perm_only:
  assumes "mod_sorted lo hi (in_seg b n) A" "seg_perm b n A A'" "lo \<le> b" "b + n \<le> hi"
  shows "mod_sorted lo hi (in_seg b n) A'"
  using mod_sorted_perm [of lo hi b n "\<lambda>_ _. False" A A'] assms by simp

lemma mod_sorted_mono:
  assumes "mod_sorted lo hi P A" "\<And>i j. P i j \<Longrightarrow> lo \<le> i \<Longrightarrow> i < j \<Longrightarrow> j < hi \<Longrightarrow> Q i j \<or> le (A ! i) (A ! j)"
  shows "mod_sorted lo hi Q A"
  using assms unfolding mod_sorted_def by blast

lemma heap_extract_spec:
  assumes "b + n \<le> length A" "Suc i \<le> n" "heap b 0 (Suc i) A"
    and "mod_sorted b (b + n) (in_seg b (Suc i)) A" "inv s"
  shows "\<exists>A' s'. heap_extract cmp b i A s = Some (A', s') \<and> seg_perm b n A A' \<and> mod_sorted b (b + n) (\<lambda>i j. False) A' \<and> inv s'"
  using assms
proof (induction i arbitrary: A s)
  case 0
  then have "mod_sorted b (b + n) (\<lambda>i j. False) A"
    by (intro mod_sorted_mono [OF 0(4)]) (auto simp: in_seg_def)
  with 0(5) show ?case by auto
next
  case (Suc i)
  let ?B = "swapped A b (b + Suc i)"
  have len: "b < length A" "b + Suc i < length A" using Suc.prems(1,2) by auto
  note nth = nth_swapped [OF len, simplified]
  have "seg_perm b (Suc (Suc i)) A ?B" using Suc.prems(1,2) by (intro seg_perm_swapped) auto
  from mod_sorted_perm_only [OF Suc.prems(4) this] Suc.prems(2)
  have "mod_sorted b (b + n) (in_seg b (Suc (Suc i))) ?B" by simp
  then have sortedB: "mod_sorted b (b + n) (in_seg b (Suc i)) ?B"
  proof (rule mod_sorted_mono)
    fix k j assume seg: "in_seg b (Suc (Suc i)) k j" and kj: "b \<le> k" "k < j" "j < b + n"
    show "in_seg b (Suc i) k j \<or> le (?B ! k) (?B ! j)"
    proof (cases "j = b + Suc i")
      case True
      define m where "m = (if k = b then b + Suc i else k)"
      have "?B ! k = A ! m" "?B ! j = A ! b" "m - b < Suc (Suc i)" "b \<le> m"
        using True kj len by (auto simp: nth m_def)
      then show ?thesis using heap_max [OF Suc.prems(3), of "m - b"] by simp
    qed (use seg in \<open>auto simp: in_seg_def\<close>)
  qed
  have "heap_but b 0 (Suc i) 0 ?B"
    unfolding heap_but_def
  proof (intro conjI allI impI)
    fix k assume k: "0 < k \<and> k < Suc i \<and> 0 \<le> (k - 1) div 2 \<and> (k - 1) div 2 \<noteq> 0"
    then have "heap_at b A k" "(k - 1) div 2 < Suc i" using Suc.prems(3) by (auto simp: heap_def)
    with k len show "heap_at b ?B k" by (auto simp: heap_at_def nth)
  qed auto
  then obtain C s1 where C: "sift_down cmp b (Suc i) 0 ?B s = Some (C, s1)" "seg_perm b (Suc i) ?B C" "heap b 0 (Suc i) C" "inv s1"
    using sift_down_spec [of b "Suc i" ?B 0 0 s] Suc.prems(1,2,5) by auto
  have "mod_sorted b (b + n) (in_seg b (Suc i)) C"
    using mod_sorted_perm_only [OF sortedB C(2)] Suc.prems(2) by simp
  then obtain A' s' where A': "heap_extract cmp b i C s1 = Some (A', s')" "seg_perm b n C A'" "mod_sorted b (b + n) (\<lambda>i j. False) A'" "inv s'"
    using Suc.IH [of C s1] Suc.prems(1,2) C(3,4) seg_perm_length [OF C(2)] by auto
  have "seg_perm b n A ?B" "seg_perm b n ?B C"
    using Suc.prems(1,2) seg_perm_mono [OF C(2), of b n] by (auto intro!: seg_perm_swapped)
  then have "seg_perm b n A A'" using A'(2) seg_perm_trans by blast
  with A' C(1) len show ?case by auto
qed

lemma heapsortx_spec:
  assumes "b + n \<le> length A" "inv s"
  shows "\<exists>A' s'. heapsortx cmp b n A s = Some (A', s') \<and> seg_perm b n A A' \<and> mod_sorted b (b + n) (\<lambda>i j. False) A' \<and> inv s'"
proof (cases "n > 1")
  case True
  have "heap b (n div 2) n A" unfolding heap_def by (intro allI impI) linarith
  from heap_build_spec [OF assms(1) this assms(2)] obtain B s1 where
    B: "heap_build cmp b n (n div 2) A s = Some (B, s1)" "seg_perm b n A B" "heap b 0 n B" "inv s1" by blast
  have "mod_sorted b (b + n) (in_seg b (Suc (n - 1))) B" using True by (auto simp: mod_sorted_def in_seg_def)
  then obtain A' s' where "heap_extract cmp b (n - 1) B s1 = Some (A', s')" "seg_perm b n B A'" "mod_sorted b (b + n) (\<lambda>i j. False) A'" "inv s'"
    using heap_extract_spec [of b n B "n - 1" s1] True assms B(3,4) seg_perm_length [OF B(2)] by auto
  with B True show ?thesis using seg_perm_trans [OF B(2)] by (auto simp: heapsortx_def)
next
  case False
  then have "mod_sorted b (b + n) (\<lambda>i j. False) A" by (auto simp: mod_sorted_def)
  with False assms(2) show ?thesis by (auto simp: heapsortx_def)
qed

subsection \<open>The insertion sort\<close>

text \<open>The element at j goes down into the sorted elements before it.\<close>

lemma insert_down_spec:
  assumes "b + m < length A" "j \<le> m" "\<forall>x y. x < y \<and> y \<le> m \<and> y \<noteq> j \<and> x \<noteq> j \<longrightarrow> le (A ! (b + x)) (A ! (b + y))"
    and "\<forall>y. j < y \<and> y \<le> m \<longrightarrow> le (A ! (b + j)) (A ! (b + y))" "inv s"
  shows "\<exists>A' s'. insert_down cmp b j A s = Some (A', s') \<and> seg_perm b (Suc m) A A' \<and>
    (\<forall>x y. x < y \<and> y \<le> m \<longrightarrow> le (A' ! (b + x)) (A' ! (b + y))) \<and> inv s'"
  using assms
proof (induction j arbitrary: A s)
  case 0
  then have "le (A ! (b + x)) (A ! (b + y))" if "x < y" "y \<le> m" for x y
    using that by (cases "x = 0") auto
  with 0 show ?case by auto
next
  case (Suc j)
  have len: "b + j < length A" "b + Suc j < length A" using Suc.prems(1,2) by auto
  from cmp_at_cases [OF len Suc.prems(5)] obtain v s1 where v: "cmp_at cmp A (b + j) (b + Suc j) s = Some (v, s1)"
    "v \<le> 0 \<longrightarrow> le (A ! (b + j)) (A ! (b + Suc j))" "v \<ge> 0 \<longrightarrow> le (A ! (b + Suc j)) (A ! (b + j))" "inv s1" by blast
  show ?case
  proof (cases "v > 0")
    case True
    let ?B = "swapped A (b + Suc j) (b + j)"
    note nth = nth_swapped [OF len(2,1), simplified]
    have 1: "\<forall>x y. x < y \<and> y \<le> m \<and> y \<noteq> j \<and> x \<noteq> j \<longrightarrow> le (?B ! (b + x)) (?B ! (b + y))"
    proof (intro allI impI)
      fix x y assume xy: "x < y \<and> y \<le> m \<and> y \<noteq> j \<and> x \<noteq> j"
      have "le (A ! (b + (if x = Suc j then j else x))) (A ! (b + (if y = Suc j then j else y)))"
        using Suc.prems(2,3) xy by auto
      with xy show "le (?B ! (b + x)) (?B ! (b + y))" by (auto simp: nth split: if_splits)
    qed
    have 2: "\<forall>y. j < y \<and> y \<le> m \<longrightarrow> le (?B ! (b + j)) (?B ! (b + y))"
      using Suc.prems(4) v(3) True by (auto simp: nth)
    obtain A' s' where A': "insert_down cmp b j ?B s1 = Some (A', s')" "seg_perm b (Suc m) ?B A'"
      "\<forall>x y. x < y \<and> y \<le> m \<longrightarrow> le (A' ! (b + x)) (A' ! (b + y))" "inv s'"
      using Suc.IH [of ?B s1] Suc.prems(1,2) 1 2 v(4) by auto
    have "seg_perm b (Suc m) A ?B" using Suc.prems(1,2) by (intro seg_perm_swapped) auto
    then have "seg_perm b (Suc m) A A'" using A'(2) by (rule seg_perm_trans)
    with A' v(1) True len show ?thesis by auto
  next
    case False
    with v(2) have jle: "le (A ! (b + j)) (A ! (b + Suc j))" by simp
    have "le (A ! (b + x)) (A ! (b + y))" if "x < y" "y \<le> m" for x y
    proof (cases "y = Suc j")
      case True
      show ?thesis
      proof (cases "x = j")
        case False
        with that True Suc.prems(2,3) have "le (A ! (b + x)) (A ! (b + j))" by auto
        with jle True show ?thesis using le_trans by blast
      qed (use jle True in simp)
    next
      case ny: False
      then show ?thesis using that Suc.prems(3,4) by (cases "x = Suc j") auto
    qed
    with v(1,4) False show ?thesis by auto
  qed
qed

lemma insertion_sort_spec:
  assumes "b + n \<le> length A" "\<forall>x y. x < y \<and> y < i \<longrightarrow> le (A ! (b + x)) (A ! (b + y))" "0 < i" "inv s"
  shows "\<exists>A' s'. insertion_sort cmp b n i A s = Some (A', s') \<and> seg_perm b n A A' \<and> mod_sorted b (b + n) (\<lambda>i j. False) A' \<and> inv s'"
  using assms
proof (induction "n - i" arbitrary: i A s)
  case 0
  have "le (A ! x) (A ! y)" if "b \<le> x" "x < y" "y < b + n" for x y
    using 0(3) [rule_format, of "x - b" "y - b"] that 0(1) by fastforce
  then have "mod_sorted b (b + n) (\<lambda>i j. False) A" by (auto simp: mod_sorted_def)
  with 0 show ?case by (subst insertion_sort.simps) auto
next
  case (Suc k)
  have i: "i < n" using Suc.hyps(2) by simp
  have "\<forall>x y. x < y \<and> y \<le> i \<and> y \<noteq> i \<and> x \<noteq> i \<longrightarrow> le (A ! (b + x)) (A ! (b + y))"
    and "\<forall>y. i < y \<and> y \<le> i \<longrightarrow> le (A ! (b + i)) (A ! (b + y))" and "b + i < length A"
    using Suc.prems(1,2) i by auto
  then obtain B s1 where B: "insert_down cmp b i A s = Some (B, s1)" "seg_perm b (Suc i) A B"
    "\<forall>x y. x < y \<and> y \<le> i \<longrightarrow> le (B ! (b + x)) (B ! (b + y))" "inv s1"
    using insert_down_spec [of b i A i s] Suc.prems(4) by blast
  moreover have i_next: "k = n - Suc i" using Suc.hyps(2) by simp
  ultimately obtain A' s' where A': "insertion_sort cmp b n (i + 1) B s1 = Some (A', s')" "seg_perm b n B A'"
    "mod_sorted b (b + n) (\<lambda>i j. False) A'" "inv s'"
    using Suc.hyps(1) [of "i + 1" B s1] i_next Suc.prems(1) seg_perm_length [OF B(2)] by (auto simp: less_Suc_eq_le)
  have "seg_perm b n A A'" using seg_perm_mono [OF B(2), of b n] i A'(2) seg_perm_trans by fastforce
  with A' B(1) i show ?case by (subst insertion_sort.simps) auto
qed

subsection \<open>The partition\<close>

text \<open>
  The four parts while the partition of the n elements at p by the pivot x runs: equal to x up to lt, below it up to
  i, above it from j on, equal to it from gt on.
\<close>

definition parts :: "nat \<Rightarrow> nat \<Rightarrow> 'a \<Rightarrow> nat \<Rightarrow> nat \<Rightarrow> nat \<Rightarrow> nat \<Rightarrow> 'a list \<Rightarrow> bool" where
  "parts p n x i lt j gt A \<longleftrightarrow> p + n \<le> length A \<and> 1 \<le> lt \<and> lt \<le> i \<and> i \<le> j \<and> j \<le> gt \<and> gt \<le> n \<and> A ! p = x \<and>
     (\<forall>k<lt. le x (A ! (p + k)) \<and> le (A ! (p + k)) x) \<and> (\<forall>k. lt \<le> k \<and> k < i \<longrightarrow> le (A ! (p + k)) x) \<and>
     (\<forall>k. j \<le> k \<and> k < gt \<longrightarrow> le x (A ! (p + k))) \<and>
     (\<forall>k. gt \<le> k \<and> k < n \<longrightarrow> le x (A ! (p + k)) \<and> le (A ! (p + k)) x)"

lemma part_up_spec:
  assumes "parts p n x i lt j gt A" "inv s"
  shows "\<exists>i' lt' A' s'. part_up cmp p j i lt A s = Some (i', lt', A', s') \<and> seg_perm p n A A' \<and> i \<le> i' \<and>
    parts p n x i' lt' j gt A' \<and> (i' < j \<longrightarrow> le x (A' ! (p + i'))) \<and> inv s'"
  using assms
proof (induction "j - i" arbitrary: i lt A s)
  case 0
  then show ?case by (subst part_up.simps) (auto simp: parts_def)
next
  case (Suc m)
  have i: "i < j" using Suc.hyps(2) by simp
  have len: "p < length A" "p + i < length A" "p + lt < length A" and piv: "A ! p = x"
    using Suc.prems i by (auto simp: parts_def)
  from cmp_at_cases [OF len(1,2) Suc.prems(2)] obtain v s1 where v: "cmp_at cmp A p (p + i) s = Some (v, s1)"
    "v \<le> 0 \<longrightarrow> le x (A ! (p + i))" "v \<ge> 0 \<longrightarrow> le (A ! (p + i)) x" "inv s1" unfolding piv by blast
  consider "v < 0" | "v = 0" | "v > 0" by linarith
  then show ?case
  proof cases
    case 1
    with v Suc.prems i show ?thesis by (subst part_up.simps) (auto simp: parts_def)
  next
    case 2
    let ?B = "swapped A (p + lt) (p + i)"
    have "parts p n x (i + 1) (lt + 1) j gt ?B"
      using Suc.prems i 2 v(2,3) len by (auto simp: parts_def nth_swapped less_Suc_eq)
    moreover have "m = j - (i + 1)" using Suc.hyps(2) by simp
    ultimately obtain i' lt' A' s' where r: "part_up cmp p j (i + 1) (lt + 1) ?B s1 = Some (i', lt', A', s')"
      "seg_perm p n ?B A'" "i + 1 \<le> i'" "parts p n x i' lt' j gt A'" "i' < j \<longrightarrow> le x (A' ! (p + i'))" "inv s'"
      using Suc.hyps(1) [of "i + 1" "lt + 1" ?B s1] v(4) by blast
    have "seg_perm p n A ?B" using Suc.prems i by (intro seg_perm_swapped) (auto simp: parts_def)
    then have "seg_perm p n A A'" using r(2) by (rule seg_perm_trans)
    with r v(1) 2 i len show ?thesis by (subst part_up.simps) auto
  next
    case 3
    have "parts p n x (i + 1) lt j gt A" using Suc.prems i 3 v(3) by (auto simp: parts_def less_Suc_eq)
    moreover have "m = j - (i + 1)" using Suc.hyps(2) by simp
    ultimately obtain i' lt' A' s' where r: "part_up cmp p j (i + 1) lt A s1 = Some (i', lt', A', s')"
      "seg_perm p n A A'" "i + 1 \<le> i'" "parts p n x i' lt' j gt A'" "i' < j \<longrightarrow> le x (A' ! (p + i'))" "inv s'"
      using Suc.hyps(1) [of "i + 1" lt A s1] v(4) by blast
    with v(1) 3 i show ?thesis by (subst part_up.simps) auto
  qed
qed

lemma part_down_spec:
  assumes "parts p n x i lt j gt A" "i < j \<longrightarrow> le x (A ! (p + i))" "inv s"
  shows "\<exists>j' gt' A' s'. part_down cmp p i j gt A s = Some (j', gt', A', s') \<and> seg_perm p n A A' \<and> j' < j \<and>
    (if i < j' then parts p n x i lt (j' + 1) gt' A' \<and> le (A' ! (p + j')) x \<and> le x (A' ! (p + i))
     else parts p n x i lt i gt' A') \<and> inv s'"
  using assms
proof (induction j arbitrary: gt A s)
  case 0
  then show ?case by (auto simp: parts_def)
next
  case (Suc j)
  show ?case
  proof (cases "i < j")
    case False
    then have "k = i \<and> i < Suc j \<or> Suc j \<le> k" if "i \<le> k" for k using that by linarith
    with Suc.prems have "parts p n x i lt i gt A" by (auto simp: parts_def)
    with False Suc.prems(3) show ?thesis by auto
  next
    case True
    have len: "p < length A" "p + j < length A" "p + (gt - 1) < length A" and piv: "A ! p = x" and gt: "j \<le> gt - 1" "0 < gt"
      using Suc.prems True by (auto simp: parts_def)
    from cmp_at_cases [OF len(1,2) Suc.prems(3)] obtain v s1 where v: "cmp_at cmp A p (p + j) s = Some (v, s1)"
      "v \<le> 0 \<longrightarrow> le x (A ! (p + j))" "v \<ge> 0 \<longrightarrow> le (A ! (p + j)) x" "inv s1" unfolding piv by blast
    consider "v > 0" | "v = 0" | "v < 0" by linarith
    then show ?thesis
    proof cases
      case 1
      with v Suc.prems True show ?thesis by auto
    next
      case 2
      obtain g where g: "gt = Suc g" using gt(2) by (cases gt) auto
      let ?B = "swapped A (p + g) (p + j)"
      have "parts p n x i lt j g ?B"
        unfolding parts_def
      proof (intro conjI allI impI)
        show "?B ! p = x" using Suc.prems True gt len g by (auto simp: parts_def nth_swapped)
      next
        fix k assume k: "j \<le> k \<and> k < g"
        show "le x (?B ! (p + k))"
          using Suc.prems(1) k gt len g by (auto simp: parts_def nth_swapped)
      next
        fix k assume k: "g \<le> k \<and> k < n"
        then have "k = g \<or> gt \<le> k" using g by linarith
        then show "le x (?B ! (p + k))" "le (?B ! (p + k)) x"
          using Suc.prems(1) True k gt len g v(2,3) 2 by (auto simp: parts_def nth_swapped)
      qed (use Suc.prems True gt len g in \<open>auto simp: parts_def nth_swapped\<close>)
      moreover have "i < j \<longrightarrow> le x (?B ! (p + i))" using Suc.prems True gt len g by (auto simp: nth_swapped)
      ultimately obtain j' gt' A' s' where r: "part_down cmp p i j g ?B s1 = Some (j', gt', A', s')" "seg_perm p n ?B A'"
        "j' < j" "if i < j' then parts p n x i lt (j' + 1) gt' A' \<and> le (A' ! (p + j')) x \<and> le x (A' ! (p + i))
          else parts p n x i lt i gt' A'" "inv s'"
        using Suc.IH [of "g" ?B s1] v(4) by blast
      have "seg_perm p n A ?B" using Suc.prems gt True g by (intro seg_perm_swapped) (auto simp: parts_def)
      then have "seg_perm p n A A'" using r(2) by (rule seg_perm_trans)
      with r v(1) 2 True len g show ?thesis by (auto simp: Let_def)
    next
      case 3
      have "parts p n x i lt j gt A"
        unfolding parts_def
      proof (intro conjI allI impI)
        fix k assume k: "j \<le> k \<and> k < gt"
        then have "k = j \<or> Suc j \<le> k" by linarith
        then show "le x (A ! (p + k))" using Suc.prems(1) k v(2) 3 by (auto simp: parts_def)
      qed (use Suc.prems True in \<open>auto simp: parts_def\<close>)
      then obtain j' gt' A' s' where "part_down cmp p i j gt A s1 = Some (j', gt', A', s')" "seg_perm p n A A'"
        "j' < j" "if i < j' then parts p n x i lt (j' + 1) gt' A' \<and> le (A' ! (p + j')) x \<and> le x (A' ! (p + i))
          else parts p n x i lt i gt' A'" "inv s'"
        using Suc.IH [of gt A s1] Suc.prems True v(4) by auto
      with v(1) 3 True show ?thesis by auto
    qed
  qed
qed

lemma part_loop_spec:
  assumes "parts p n x i lt j gt A" "inv s"
  shows "\<exists>i' lt' gt' A' s'. part_loop cmp p i lt j gt A s = Some (i', lt', gt', A', s') \<and> seg_perm p n A A' \<and>
    parts p n x i' lt' i' gt' A' \<and> inv s'"
  using assms
proof (induction "j - i" arbitrary: i lt j gt A s rule: less_induct)
  case less
  obtain i1 lt1 B s1 where 1: "part_up cmp p j i lt A s = Some (i1, lt1, B, s1)" "seg_perm p n A B" "i \<le> i1"
    "parts p n x i1 lt1 j gt B" "i1 < j \<longrightarrow> le x (B ! (p + i1))" "inv s1" using part_up_spec [OF less.prems] by blast
  obtain j1 gt1 C s2 where 2: "part_down cmp p i1 j gt B s1 = Some (j1, gt1, C, s2)" "seg_perm p n B C" "j1 < j"
    "if i1 < j1 then parts p n x i1 lt1 (j1 + 1) gt1 C \<and> le (C ! (p + j1)) x \<and> le x (C ! (p + i1))
     else parts p n x i1 lt1 i1 gt1 C" "inv s2" using part_down_spec [OF 1(4,5,6)] by blast
  note AC = seg_perm_trans [OF 1(2) 2(2)]
  show ?case
  proof (cases "i1 < j1")
    case False
    with 1(1) 2 AC show ?thesis by (subst part_loop.simps) auto
  next
    case True
    let ?D = "swapped C (p + i1) (p + j1)"
    have C: "parts p n x i1 lt1 (j1 + 1) gt1 C" "le (C ! (p + j1)) x" "le x (C ! (p + i1))" using 2(4) True by auto
    have len: "p + i1 < length C" "p + j1 < length C" using C(1) True by (auto simp: parts_def)
    have "parts p n x (i1 + 1) lt1 j1 gt1 ?D"
      unfolding parts_def
    proof (intro conjI allI impI)
      fix k assume k: "j1 \<le> k \<and> k < gt1"
      then have "k = j1 \<or> j1 + 1 \<le> k" by linarith
      then show "le x (?D ! (p + k))" using C k len True by (auto simp: parts_def nth_swapped)
    qed (use C True len in \<open>auto simp: parts_def nth_swapped less_Suc_eq\<close>)
    moreover have "j1 - (i1 + 1) < j - i" using 1(3) 2(3) True by linarith
    ultimately obtain i' lt' gt' A' s' where 3: "part_loop cmp p (i1 + 1) lt1 j1 gt1 ?D s2 = Some (i', lt', gt', A', s')"
      "seg_perm p n ?D A'" "parts p n x i' lt' i' gt' A'" "inv s'"
      using less.hyps [of j1 "i1 + 1" lt1 gt1 ?D s2] 2(5) by blast
    have "seg_perm p n C ?D" using C(1) True by (intro seg_perm_swapped) (auto simp: parts_def)
    then have "seg_perm p n A A'" using AC 3(2) seg_perm_trans by blast
    with 1(1) 2(1) 3 True len show ?thesis by (subst part_loop.simps) auto
  qed
qed

lemma med3_spec:
  assumes "a < length A" "b < length A" "c < length A" "inv s"
  shows "\<exists>m s'. med3 cmp A a b c s = Some (m, s') \<and> m \<in> {a, b, c} \<and> inv s'"
proof -
  obtain v s1 where 1: "cmp_at cmp A a b s = Some (v, s1)" "inv s1" using cmp_at_cases [OF assms(1,2,4)] by blast
  obtain w s2 where 2: "cmp_at cmp A b c s1 = Some (w, s2)" "inv s2" using cmp_at_cases [OF assms(2,3) 1(2)] by blast
  obtain y s3 where 3: "cmp_at cmp A a c s2 = Some (y, s3)" "inv s3" using cmp_at_cases [OF assms(1,3) 2(2)] by blast
  from 1 2 3 show ?thesis by (simp add: med3_def)
qed

text \<open>After the moves: the elements below the pivot, those equal to it, those above it.\<close>

lemma rq_partition_spec:
  assumes n: "6 < n" "p + n \<le> length A" and s: "inv s"
  shows "\<exists>lt gt A' s' x. rq_partition cmp p n A s = Some (lt, gt, A', s') \<and> seg_perm p n A A' \<and> lt < gt \<and> gt \<le> n \<and>
    (\<forall>k<gt. le (A' ! (p + k)) x) \<and> (\<forall>k. lt \<le> k \<and> k < n \<longrightarrow> le x (A' ! (p + k))) \<and> inv s'"
proof -
  have m4: "n div 4 < n" "2 * (n div 4) < n" "3 * (n div 4) < n" using n by linarith+
  obtain m s1 where m: "med3 cmp A (p + n div 4) (p + 2 * (n div 4)) (p + 3 * (n div 4)) s = Some (m, s1)"
    "m \<in> {p + n div 4, p + 2 * (n div 4), p + 3 * (n div 4)}" and s1: "inv s1"
    using med3_spec [of "p + n div 4" A "p + 2 * (n div 4)" "p + 3 * (n div 4)" s] m4 n s by auto
  then have mr: "p \<le> m" "m < p + n" "p < length A" "m < length A" using m4 n by auto
  let ?B = "swapped A p m"
  have AB: "seg_perm p n A ?B" using mr n by (intro seg_perm_swapped) auto
  have "parts p n (?B ! p) 1 1 n n ?B" using n by (auto simp: parts_def le_refl)
  then obtain i lt gt C s2 where C: "part_loop cmp p 1 1 n n ?B s1 = Some (i, lt, gt, C, s2)" "seg_perm p n ?B C"
    "parts p n (?B ! p) i lt i gt C" and s2: "inv s2" using part_loop_spec s1 by blast
  define x where "x = ?B ! p"
  note Cp = C(3) [folded x_def]
  have b: "1 \<le> lt" "lt \<le> i" "i \<le> gt" "gt \<le> n" "p + n \<le> length C" using Cp by (simp_all add: parts_def)
  define d where "d = min lt (i - lt)"
  have dd: "p + d \<le> p + i - d" "p + i - d + d \<le> p + n" "d \<le> i" using b unfolding d_def by linarith+
  obtain D where D: "swap_block C p (p + i - d) d = Some D" "seg_perm p n C D"
    "\<forall>k. D ! k = (if p \<le> k \<and> k < p + d then C ! (k + (p + i - d - p))
        else if p + i - d \<le> k \<and> k < p + i - d + d then C ! (k - (p + i - d - p)) else C ! k)"
    using swap_block_perm [of p d "p + i - d" p n C, OF dd(1,2)] b by auto
  define e where "e = min (n - gt) (gt - i)"
  have ee: "p + i + e \<le> p + n - e" "p + n - e + e \<le> p + n" "e \<le> n" using b unfolding e_def by linarith+
  have "p + n \<le> length D" using b seg_perm_length [OF D(2)] by simp
  then obtain E where E: "swap_block D (p + i) (p + n - e) e = Some E" "seg_perm p n D E"
    "\<forall>k. E ! k = (if p + i \<le> k \<and> k < p + i + e then D ! (k + (p + n - e - (p + i)))
        else if p + n - e \<le> k \<and> k < p + n - e + e then D ! (k - (p + n - e - (p + i))) else D ! k)"
    using swap_block_perm [of "p + i" e "p + n - e" p n D, OF ee(1,2)] b by auto
  have d: "d \<le> lt" "d \<le> i - lt" and e: "e \<le> n - gt" "e \<le> gt - i" by (simp_all add: d_def e_def)
  have low: "E ! (p + k) = C ! (p + (if k < d then k + (i - d) else if i - d \<le> k then k - (i - d) else k))" if "k < i" for k
    using E(3) [rule_format, of "p + k"] D(3) [rule_format, of "p + k"] that b d e by (auto simp: add.assoc)
  have high: "E ! (p + k) = C ! (p + (if k < i + e then k + (n - e - i) else if n - e \<le> k then k - (n - e - i) else k))"
    if "i \<le> k" "k < n" for k
  proof -
    have DC: "D ! (p + m) = C ! (p + m)" if "i \<le> m" for m using D(3) [rule_format, of "p + m"] that b d by auto
    have up: "p + k + (p + n - e - (p + i)) = p + (k + (n - e - i))" using ee by linarith
    have down: "p + k - (p + n - e - (p + i)) = p + (k - (n - e - i))" if "n - e \<le> k" using that ee by linarith
    consider "k < i + e" | "\<not> k < i + e" "n - e \<le> k" | "\<not> k < i + e" "\<not> n - e \<le> k" by blast
    then show ?thesis
    proof cases
      case 1
      with that have "E ! (p + k) = D ! (p + k + (p + n - e - (p + i)))" using E(3) [rule_format, of "p + k"] by simp
      with DC [of "k + (n - e - i)"] 1 that show ?thesis unfolding up by simp
    next
      case 2
      with that ee have "E ! (p + k) = D ! (p + k - (p + n - e - (p + i)))" using E(3) [rule_format, of "p + k"] by auto
      moreover have "i \<le> k - (n - e - i)" using 2 that ee by linarith
      ultimately show ?thesis using DC [of "k - (n - e - i)"] 2 unfolding down [OF 2(2)] by simp
    next
      case 3
      with that ee show ?thesis using E(3) [rule_format, of "p + k"] DC [of k] by auto
    qed
  qed
  have low': "\<exists>m<i. E ! (p + k) = C ! (p + m) \<and> (i - lt \<le> k \<longrightarrow> m < lt)" if "k < i" for k
  proof -
    let ?m = "if k < d then k + (i - d) else if i - d \<le> k then k - (i - d) else k"
    have "?m < i \<and> (i - lt \<le> k \<longrightarrow> ?m < lt)" using that b unfolding d_def by (auto simp: min_def split: if_splits)
    with low [OF that] show ?thesis by blast
  qed
  have high': "\<exists>m. i \<le> m \<and> m < n \<and> E ! (p + k) = C ! (p + m) \<and> (k < n - (gt - i) \<longrightarrow> gt \<le> m)" if "i \<le> k" "k < n" for k
  proof -
    let ?m = "if k < i + e then k + (n - e - i) else if n - e \<le> k then k - (n - e - i) else k"
    have "i \<le> ?m \<and> ?m < n \<and> (k < n - (gt - i) \<longrightarrow> gt \<le> ?m)" using that b unfolding e_def by (auto simp: min_def split: if_splits)
    with high [OF that] show ?thesis by blast
  qed
  have below: "le (C ! (p + k)) x" if "k < i" for k using Cp that by (cases "k < lt") (auto simp: parts_def)
  have above: "le x (C ! (p + k))" if "i \<le> k" "k < n" for k using Cp that by (cases "k < gt") (auto simp: parts_def)
  have equal: "le (C ! (p + k)) x" "le x (C ! (p + k))" if "k < lt \<or> gt \<le> k \<and> k < n" for k
    using Cp that by (auto simp: parts_def)
  have "le (E ! (p + k)) x" if "k < n - (gt - i)" for k
    using low' [of k] high' [of k] below equal(1) that by (cases "k < i") fastforce+
  moreover have "le x (E ! (p + k))" if "i - lt \<le> k" "k < n" for k
    using low' [of k] high' [of k] above equal(2) that by (cases "k < i") fastforce+
  moreover have "seg_perm p n A E" using AB C(2) D(2) E(2) seg_perm_trans by blast
  moreover have "rq_partition cmp p n A s = Some (i - lt, n - (gt - i), E, s2)"
    using m(1) mr C(1) D(1) E(1) by (simp add: rq_partition_def Let_def d_def [symmetric] e_def [symmetric])
  moreover have "i - lt < n - (gt - i)" "n - (gt - i) \<le> n" using b n by linarith+
  ultimately show ?thesis using s2 by blast
qed

subsection \<open>The stack of segments\<close>

definition apart :: "nat \<Rightarrow> nat \<Rightarrow> nat \<times> nat \<times> nat \<Rightarrow> bool" where
  "apart b n = (\<lambda>(b', n', d). b + n \<le> b' \<or> b' + n' \<le> b)"

definition pending :: "rq_stack \<Rightarrow> nat \<Rightarrow> nat \<Rightarrow> bool" where
  "pending stack i j \<longleftrightarrow> (\<exists>(b, n, d)\<in>set stack. in_seg b n i j)"

text \<open>
  The segments on the stack are inside the array and apart from each other, and a segment of depth d has at most d
  segments under it.
\<close>

fun stack_ok :: "nat \<Rightarrow> nat \<Rightarrow> rq_stack \<Rightarrow> bool" where
  "stack_ok lo hi [] \<longleftrightarrow> True"
| "stack_ok lo hi ((b, n, d) # stack) \<longleftrightarrow> lo \<le> b \<and> b + n \<le> hi \<and> length stack \<le> d \<and>
     (\<forall>seg\<in>set stack. apart b n seg) \<and> stack_ok lo hi stack"

fun stack_size :: "rq_stack \<Rightarrow> nat" where
  "stack_size [] = 0"
| "stack_size ((b, n, d) # stack) = n + 1 + stack_size stack"

lemma pending_Cons [simp]: "pending ((b, n, d) # stack) i j \<longleftrightarrow> in_seg b n i j \<or> pending stack i j"
  by (auto simp: pending_def)

lemma pending_fun: "pending ((b, n, d) # stack) = (\<lambda>i j. in_seg b n i j \<or> pending stack i j)"
  by (intro ext) simp

lemma pending_apart:
  "pending stack i j \<Longrightarrow> i < j \<Longrightarrow> \<forall>seg\<in>set stack. apart b n seg \<Longrightarrow> b + n \<le> i \<or> j < b"
  by (fastforce simp: pending_def apart_def in_seg_def)

lemma apart_mono: "apart b n seg \<Longrightarrow> b \<le> c \<Longrightarrow> c + m \<le> b + n \<Longrightarrow> apart c m seg"
  by (auto simp: apart_def)

lemma mod_sorted_segment:
  assumes "mod_sorted lo hi (\<lambda>i j. in_seg b n i j \<or> pending stack i j) A" "seg_perm b n A B"
    and "mod_sorted b (b + n) P B" "\<forall>seg\<in>set stack. apart b n seg" "lo \<le> b" "b + n \<le> hi"
  shows "mod_sorted lo hi (\<lambda>i j. (in_seg b n i j \<and> P i j) \<or> pending stack i j) B"
proof (rule mod_sorted_mono)
  show "mod_sorted lo hi (\<lambda>i j. in_seg b n i j \<or> pending stack i j) B"
    using assms pending_apart by (intro mod_sorted_perm [OF assms(1,2)]) blast+
next
  fix i j assume "in_seg b n i j \<or> pending stack i j" "lo \<le> i" "i < j" "j < hi"
  then show "((in_seg b n i j \<and> P i j) \<or> pending stack i j) \<or> le (B ! i) (B ! j)"
    using assms(3) by (auto simp: in_seg_def mod_sorted_def)
qed

text \<open>The outer two parts of a partition are what is left to sort.\<close>

lemma rq_partition_sorted:
  assumes "\<forall>k<gt. le (B ! (p + k)) x" "\<forall>k. lt \<le> k \<and> k < n \<longrightarrow> le x (B ! (p + k))" "lt < gt" "gt \<le> n"
  shows "mod_sorted p (p + n) (\<lambda>i j. in_seg p lt i j \<or> in_seg (p + gt) (n - gt) i j) B"
  unfolding mod_sorted_def
proof (intro allI impI)
  fix i j assume ij: "p \<le> i \<and> i < j \<and> j < p + n"
  show "(in_seg p lt i j \<or> in_seg (p + gt) (n - gt) i j) \<or> le (B ! i) (B ! j)"
  proof (cases "i - p < gt \<and> lt \<le> j - p")
    case True
    then have "le (B ! i) x" "le x (B ! j)"
      using assms(1) [rule_format, of "i - p"] assms(2) [rule_format, of "j - p"] ij by auto
    then show ?thesis using le_trans by blast
  qed (use ij assms(3,4) in \<open>auto simp: in_seg_def\<close>)
qed

lemma rqsort_segment_spec:
  assumes "stack_ok lo hi ((b, n, d) # stack)" "hi \<le> length A"
    and "mod_sorted lo hi (\<lambda>i j. in_seg b n i j \<or> pending stack i j) A" "inv s"
  shows "\<exists>b' n' stack' A' s'. rqsort_segment cmp b n d stack A s = Some (b', n', stack', A', s') \<and>
    seg_perm lo (hi - lo) A A' \<and> lo \<le> b' \<and> b' + n' \<le> hi \<and> (\<forall>seg\<in>set stack'. apart b' n' seg) \<and> stack_ok lo hi stack' \<and>
    mod_sorted lo hi (\<lambda>i j. in_seg b' n' i j \<or> pending stack' i j) A' \<and> n' + stack_size stack' \<le> n + stack_size stack \<and> inv s'"
  using assms
proof (induction n arbitrary: b d stack A s rule: less_induct)
  case (less n)
  have st: "lo \<le> b" "b + n \<le> hi" "length stack \<le> d" "\<forall>seg\<in>set stack. apart b n seg" "stack_ok lo hi stack"
    using less.prems(1) by auto
  then have len: "b + n \<le> length A" using less.prems(2) by simp
  have whole: "seg_perm lo (hi - lo) A B" if "seg_perm b n A B" for B
    by (rule seg_perm_mono [OF that]) (use st(1,2) in simp_all)
  consider "n \<le> 6" | "n > 6" "d \<ge> 50" | "n > 6" "d < 50" by linarith
  then show ?case
  proof cases
    case 1
    with less.prems st show ?thesis by (subst rqsort_segment.simps) auto
  next
    case 2
    obtain B s1 where B: "heapsortx cmp b n A s = Some (B, s1)" "seg_perm b n A B" "mod_sorted b (b + n) (\<lambda>i j. False) B" "inv s1"
      using heapsortx_spec [OF len less.prems(4)] by blast
    have "mod_sorted lo hi (\<lambda>i j. in_seg b 0 i j \<or> pending stack i j) B"
      using mod_sorted_segment [OF less.prems(3) B(2,3) st(4,1,2)] by (rule mod_sorted_mono) auto
    moreover have "\<forall>seg\<in>set stack. apart b 0 seg" using st(4) apart_mono by fastforce
    ultimately show ?thesis using B(1,4) 2 st whole [OF B(2)] by (subst rqsort_segment.simps) auto
  next
    case 3
    obtain lt gt B s1 x where B: "rq_partition cmp b n A s = Some (lt, gt, B, s1)" "seg_perm b n A B" "lt < gt" "gt \<le> n"
      "\<forall>k<gt. le (B ! (b + k)) x" "\<forall>k. lt \<le> k \<and> k < n \<longrightarrow> le x (B ! (b + k))" "inv s1"
      using rq_partition_spec [OF 3(1) len less.prems(4)] by blast
    have sorted: "mod_sorted lo hi (\<lambda>i j. in_seg b lt i j \<or> in_seg (b + gt) (n - gt) i j \<or> pending stack i j) B"
      using mod_sorted_segment [OF less.prems(3) B(2) rq_partition_sorted [OF B(5,6,3,4)] st(4,1,2)] by (rule mod_sorted_mono) auto
    have sub: "\<forall>seg\<in>set stack. apart b lt seg" "\<forall>seg\<in>set stack. apart (b + gt) (n - gt) seg"
      using st(4) apart_mono [of b n _ b lt] apart_mono [of b n _ "b + gt" "n - gt"] B(3,4) by auto
    have hi: "hi \<le> length B" using less.prems(2) seg_perm_length [OF B(2)] by simp
    define first where "first \<longleftrightarrow> lt > n - gt"
    define b1 n1 where "b1 = (if first then b + gt else b)" and "n1 = (if first then n - gt else lt)"
    define seg where "seg = (if first then (b, lt, d + 1) else (b + gt, n - gt, d + 1))"
    have n1: "n1 < n" using B(3,4) by (auto simp: n1_def)
    have ok: "stack_ok lo hi ((b1, n1, d + 1) # seg # stack)"
      using st sub B(3,4) by (auto simp: b1_def n1_def seg_def apart_def)
    have sorted1: "mod_sorted lo hi (\<lambda>i j. in_seg b1 n1 i j \<or> pending (seg # stack) i j) B"
      using sorted by (rule mod_sorted_mono) (auto simp: b1_def n1_def seg_def)
    obtain b' n' stack' A' s' where r: "rqsort_segment cmp b1 n1 (d + 1) (seg # stack) B s1 = Some (b', n', stack', A', s')"
      "seg_perm lo (hi - lo) B A'" "lo \<le> b'" "b' + n' \<le> hi" "\<forall>seg\<in>set stack'. apart b' n' seg" "stack_ok lo hi stack'"
      "mod_sorted lo hi (\<lambda>i j. in_seg b' n' i j \<or> pending stack' i j) A'"
      "n' + stack_size stack' \<le> n1 + stack_size (seg # stack)" "inv s'"
      using less.IH [OF n1 ok hi sorted1 B(7)] by blast
    have "rqsort_segment cmp b n d stack A s = rqsort_segment cmp b1 n1 (d + 1) (seg # stack) B s1"
      using 3 B(1) st(3) by (subst rqsort_segment.simps) (auto simp: b1_def n1_def seg_def first_def RQ_STACK_def c_assert_def)
    moreover have "n1 + stack_size (seg # stack) \<le> n + stack_size stack"
      using B(3,4) by (auto simp: n1_def seg_def)
    ultimately show ?thesis using r seg_perm_trans [OF whole [OF B(2)]] by (auto intro: le_trans)
  qed
qed

lemma rqsort_loop_spec:
  assumes "stack_ok lo hi stack" "hi \<le> length A" "mod_sorted lo hi (pending stack) A" "inv s"
  shows "\<exists>A' s'. rqsort_loop cmp stack A s = Some (A', s') \<and> seg_perm lo (hi - lo) A A' \<and> mod_sorted lo hi (\<lambda>i j. False) A' \<and> inv s'"
  using assms
proof (induction "stack_size stack" arbitrary: stack A s rule: less_induct)
  case less
  show ?case
  proof (cases stack)
    case Nil
    with less.prems(3) have "mod_sorted lo hi (\<lambda>i j. False) A" by (simp add: mod_sorted_def pending_def)
    with Nil less.prems(4) show ?thesis by (subst rqsort_loop.simps) auto
  next
    case (Cons top rest)
    obtain b n d where top: "top = (b, n, d)" by (cases top)
    have "mod_sorted lo hi (\<lambda>i j. in_seg b n i j \<or> pending rest i j) A" using less.prems(3) Cons top by (simp add: pending_fun)
    then obtain b' n' stack' B s1 where B: "rqsort_segment cmp b n d rest A s = Some (b', n', stack', B, s1)"
      "seg_perm lo (hi - lo) A B" "lo \<le> b'" "b' + n' \<le> hi" "\<forall>seg\<in>set stack'. apart b' n' seg" "stack_ok lo hi stack'"
      "mod_sorted lo hi (\<lambda>i j. in_seg b' n' i j \<or> pending stack' i j) B" "n' + stack_size stack' \<le> n + stack_size rest" "inv s1"
      using rqsort_segment_spec [of lo hi b n d rest A s] less.prems Cons top by blast
    have hiB: "hi \<le> length B" using less.prems(2) seg_perm_length [OF B(2)] by simp
    have len: "b' + n' \<le> length B" using B(4) hiB by simp
    obtain C s2 where C: "insertion_sort cmp b' n' 1 B s1 = Some (C, s2)" "seg_perm b' n' B C" "mod_sorted b' (b' + n') (\<lambda>i j. False) C" "inv s2"
      using insertion_sort_spec [OF len, of 1 s1] B(9) by auto
    have "mod_sorted lo hi (pending stack') C"
      using mod_sorted_segment [OF B(7) C(2,3) B(5,3,4)] by (rule mod_sorted_mono) auto
    moreover have "hi \<le> length C" using hiB seg_perm_length [OF C(2)] by simp
    moreover have "stack_size stack' < stack_size stack" using B(8) Cons top by simp
    ultimately obtain A' s' where A': "rqsort_loop cmp stack' C s2 = Some (A', s')" "seg_perm lo (hi - lo) C A'"
      "mod_sorted lo hi (\<lambda>i j. False) A'" "inv s'" using less.hyps [of stack' C s2] B(6) C(4) by blast
    have "seg_perm lo (hi - lo) B C" using B(3,4) by (intro seg_perm_mono [OF C(2)]) auto
    with B(2) A'(2) have "seg_perm lo (hi - lo) A A'" using seg_perm_trans by blast
    with B(1) C(1) A' Cons top show ?thesis by (subst rqsort_loop.simps) auto
  qed
qed

lemma rqsort_spec:
  assumes "base + nmemb \<le> length A" "inv s"
  shows "\<exists>A' s'. rqsort cmp base nmemb A s = Some (A', s') \<and> seg_perm base nmemb A A' \<and>
    (\<forall>i j. base \<le> i \<and> i < j \<and> j < base + nmemb \<longrightarrow> le (A' ! i) (A' ! j)) \<and> inv s'"
proof (cases "nmemb < 2")
  case False
  have "stack_ok base (base + nmemb) [(base, nmemb, 0)]" by simp
  moreover have "mod_sorted base (base + nmemb) (pending [(base, nmemb, 0)]) A"
    by (auto simp: mod_sorted_def in_seg_def)
  ultimately show ?thesis
    using rqsort_loop_spec [of base "base + nmemb" "[(base, nmemb, 0)]" A s] assms False
    by (auto simp: rqsort_def mod_sorted_def)
qed (use assms in \<open>auto simp: rqsort_def\<close>)

end

end
