(* ===== verification/Rq_Sort_Uses.thy ===== *)
theory Rq_Sort_Uses
  imports Rq_Sort_Correct
begin

text \<open>
  The properties of \<open>rqsort\<close> and the comparisons the engine calls it with, quickjs.c: those of the typed arrays,
  the one of array indices and \<open>js_array_cmp_generic\<close> with a method. A double is its bit pattern.
\<close>

section \<open>The comparisons\<close>

definition js_TA_cmp_int8 :: "(8 word, 's) cmp_f" where
  "js_TA_cmp_int8 a b s = (sint a - sint b, s)"

definition js_TA_cmp_uint8 :: "(u8, 's) cmp_f" where
  "js_TA_cmp_uint8 a b s = (uint a - uint b, s)"

definition js_TA_cmp_int16 :: "(16 word, 's) cmp_f" where
  "js_TA_cmp_int16 a b s = (sint a - sint b, s)"

definition js_TA_cmp_uint16 :: "(16 word, 's) cmp_f" where
  "js_TA_cmp_uint16 a b s = (uint a - uint b, s)"

definition js_TA_cmp_int32 :: "(32 word, 's) cmp_f" where
  "js_TA_cmp_int32 x y s = (of_bool (sint y < sint x) - of_bool (sint y > sint x), s)"

definition js_TA_cmp_uint32 :: "(u32, 's) cmp_f" where
  "js_TA_cmp_uint32 x y s = (of_bool (y < x) - of_bool (y > x), s)"

definition js_TA_cmp_int64 :: "(64 word, 's) cmp_f" where
  "js_TA_cmp_int64 x y s = (of_bool (sint y < sint x) - of_bool (sint y > sint x), s)"

definition js_TA_cmp_uint64 :: "(u64, 's) cmp_f" where
  "js_TA_cmp_uint64 x y s = (of_bool (y < x) - of_bool (y > x), s)"

text \<open>Doubles: sign and magnitude; the order of C on them, for which -0 and 0 are equal.\<close>

definition f64_signbit :: "u64 \<Rightarrow> bool" where
  "f64_signbit x = bit x 63"

definition f64_magnitude :: "u64 \<Rightarrow> int" where
  "f64_magnitude x = uint (take_bit 63 x)"

definition f64_isnan :: "u64 \<Rightarrow> bool" where
  "f64_isnan x \<longleftrightarrow> f64_magnitude x > 0x7ff0000000000000"

definition f64_value :: "u64 \<Rightarrow> int" where
  "f64_value x = (if f64_signbit x then - f64_magnitude x else f64_magnitude x)"

definition js_cmp_doubles :: "u64 \<Rightarrow> u64 \<Rightarrow> int" where
  "js_cmp_doubles x y =
     (if f64_isnan x then (if f64_isnan y then 0 else 1)
      else if f64_isnan y then -1
      else if f64_value x < f64_value y then -1
      else if f64_value x > f64_value y then 1
      else if f64_value x \<noteq> 0 then 0
      else if f64_signbit x then (if f64_signbit y then 0 else -1)
      else (if f64_signbit y then 1 else 0))"

definition js_TA_cmp_float64 :: "(u64, 's) cmp_f" where
  "js_TA_cmp_float64 a b s = (js_cmp_doubles a b, s)"

text \<open>\<open>num_keys_cmp\<close> on the array indices of two atoms.\<close>

definition num_keys_cmp :: "(u32, 's) cmp_f" where
  "num_keys_cmp v1 v2 s = (if v1 < v2 then -1 else if v1 = v2 then 0 else 1, s)"

text \<open>
  \<open>js_array_cmp_generic\<close> with a method. \<open>call\<close> stands for \<open>JS_Call\<close> and the conversion of its result to a number:
  \<open>None\<close> is an exception, and only the sign of the number is used. The state is the flag \<open>exception\<close> and the world.
\<close>

record 'v value_slot =
  vs_val :: 'v
  vs_pos :: int

definition sign_of :: "int \<Rightarrow> int" where
  "sign_of v = of_bool (v > 0) - of_bool (v < 0)"

definition cmp_same :: "'v value_slot \<Rightarrow> 'v value_slot \<Rightarrow> int" where
  "cmp_same ap bp = of_bool (vs_pos ap > vs_pos bp) - of_bool (vs_pos ap < vs_pos bp)"

definition js_array_cmp_generic ::
  "('v \<Rightarrow> 'v \<Rightarrow> 'w \<Rightarrow> int option \<times> 'w) \<Rightarrow> ('v value_slot, bool \<times> 'w) cmp_f" where
  "js_array_cmp_generic call ap bp = (\<lambda>(exception, w).
     if exception then (0, (exception, w))
     else if vs_val ap = vs_val bp then (cmp_same ap bp, (exception, w))
     else case call (vs_val ap) (vs_val bp) w of
       (None, w) \<Rightarrow> (0, (True, w))
     | (Some v, w) \<Rightarrow> (if sign_of v \<noteq> 0 then sign_of v else cmp_same ap bp, (exception, w)))"

section \<open>Interpretations\<close>

interpretation any_cmp: comparator cmp "\<lambda>_ _. True" "\<lambda>_. True" for cmp :: "('a, 's) cmp_f"
  by unfold_locales auto

interpretation ta_int8: comparator js_TA_cmp_int8 "\<lambda>x y. sint x \<le> sint y" "\<lambda>_. True"
  by unfold_locales (auto simp: js_TA_cmp_int8_def)

interpretation ta_uint8: comparator js_TA_cmp_uint8 "\<lambda>x y. x \<le> y" "\<lambda>_. True"
  by unfold_locales (auto simp: js_TA_cmp_uint8_def word_le_def)

interpretation ta_int16: comparator js_TA_cmp_int16 "\<lambda>x y. sint x \<le> sint y" "\<lambda>_. True"
  by unfold_locales (auto simp: js_TA_cmp_int16_def)

interpretation ta_uint16: comparator js_TA_cmp_uint16 "\<lambda>x y. x \<le> y" "\<lambda>_. True"
  by unfold_locales (auto simp: js_TA_cmp_uint16_def word_le_def)

interpretation ta_int32: comparator js_TA_cmp_int32 "\<lambda>x y. sint x \<le> sint y" "\<lambda>_. True"
  by unfold_locales (auto simp: js_TA_cmp_int32_def of_bool_def split: if_splits)

interpretation ta_uint32: comparator js_TA_cmp_uint32 "\<lambda>x y. x \<le> y" "\<lambda>_. True"
  by unfold_locales (auto simp: js_TA_cmp_uint32_def of_bool_def not_less split: if_splits)

interpretation ta_int64: comparator js_TA_cmp_int64 "\<lambda>x y. sint x \<le> sint y" "\<lambda>_. True"
  by unfold_locales (auto simp: js_TA_cmp_int64_def of_bool_def split: if_splits)

interpretation ta_uint64: comparator js_TA_cmp_uint64 "\<lambda>x y. x \<le> y" "\<lambda>_. True"
  by unfold_locales (auto simp: js_TA_cmp_uint64_def of_bool_def not_less split: if_splits)

interpretation keys: comparator num_keys_cmp "\<lambda>x y. x \<le> y" "\<lambda>_. True"
  by unfold_locales (auto simp: num_keys_cmp_def split: if_splits)

text \<open>NaN comes last, and -0 before 0.\<close>

definition f64_le :: "u64 \<Rightarrow> u64 \<Rightarrow> bool" where
  "f64_le x y \<longleftrightarrow> f64_isnan y \<or> \<not> f64_isnan x \<and>
     (f64_value x < f64_value y \<or> f64_value x = f64_value y \<and> (f64_value x = 0 \<longrightarrow> f64_signbit y \<longrightarrow> f64_signbit x))"

interpretation ta_float64: comparator js_TA_cmp_float64 f64_le "\<lambda>_. True"
  by unfold_locales (auto simp: js_TA_cmp_float64_def js_cmp_doubles_def f64_le_def split: if_splits)

section \<open>Properties\<close>

lemma seg_perm_slice:
  assumes "seg_perm b n A A'" "b + n \<le> length A"
  shows "take b A' = take b A" "drop (b + n) A' = drop (b + n) A" "mset A' = mset A" "length A' = length A"
proof -
  have len: "length A' = length A" using assms(1) by (rule seg_perm_length)
  then show "take b A' = take b A" "drop (b + n) A' = drop (b + n) A"
    using assms by (auto simp: seg_perm_def list_eq_iff_nth_eq)
  show "mset A' = mset A" "length A' = length A" using assms(1) len by (simp_all add: seg_perm_def)
qed

lemma sorted_slice:
  assumes "\<forall>i j. b \<le> i \<and> i < j \<and> j < b + n \<longrightarrow> le (A ! i) (A ! j)" "b + n \<le> length A"
  shows "sorted_wrt le (take n (drop b A))"
  using assms by (auto simp: sorted_wrt_iff_nth_less)

text \<open>
  C21: \<open>rqsort\<close> with any comparison, consistent or not and with a state of its own: it ends, reads and writes only
  the nmemb elements at base, never has more than 50 segments on its stack, and permutes the elements.
\<close>

theorem rqsort_permutes:
  assumes "base + nmemb \<le> length A"
  shows "\<exists>A' s'. rqsort cmp base nmemb A s = Some (A', s') \<and> mset A' = mset A \<and>
    take base A' = take base A \<and> drop (base + nmemb) A' = drop (base + nmemb) A"
  using any_cmp.rqsort_spec [OF assms TrueI, of cmp s] seg_perm_slice [OF _ assms] by blast

definition sort_example :: "u8 list" where
  "sort_example = [9, 3, 7, 7, 1, 200, 0]"

theorem rqsort_permutes_witness:
  "\<exists>A' s'. rqsort js_TA_cmp_uint8 1 5 sort_example () = Some (A', s') \<and> mset A' = mset sort_example \<and>
    take 1 A' = [9] \<and> drop 6 A' = [0]"
  using rqsort_permutes [of 1 5 sort_example js_TA_cmp_uint8 "()"] by (simp add: sort_example_def)

text \<open>
  C18: with a comparison that agrees with a total preorder, whatever its state is, the result is sorted.
\<close>

theorem rqsort_sorts:
  assumes "base + nmemb \<le> length A" "reflp le" "transp le"
    and "\<And>x y s. (fst (cmp x y s) \<le> 0 \<longrightarrow> le x y) \<and> (fst (cmp x y s) \<ge> 0 \<longrightarrow> le y x)"
  shows "\<exists>A' s'. rqsort cmp base nmemb A s = Some (A', s') \<and> mset A' = mset A \<and>
    sorted_wrt le (take nmemb (drop base A'))"
proof -
  have "comparator cmp le (\<lambda>_. True)"
    using assms(2-4) by unfold_locales (auto dest: reflpD transpD)
  from comparator.rqsort_spec [OF this assms(1) TrueI] obtain A' s' where
    A': "rqsort cmp base nmemb A s = Some (A', s')" "seg_perm base nmemb A A'"
    "\<forall>i j. base \<le> i \<and> i < j \<and> j < base + nmemb \<longrightarrow> le (A' ! i) (A' ! j)" by blast
  note perm = seg_perm_slice [OF A'(2) assms(1)]
  have "sorted_wrt le (take nmemb (drop base A'))" using sorted_slice [OF A'(3)] assms(1) perm(4) by simp
  with A'(1) perm(3) show ?thesis by blast
qed

theorem rqsort_sorts_witness:
  "\<exists>A' s'. rqsort js_TA_cmp_uint8 1 5 sort_example () = Some (A', s') \<and> mset A' = mset sort_example \<and>
    sorted_wrt (\<le>) (take 5 (drop 1 A'))"
proof (rule rqsort_sorts)
  show "1 + 5 \<le> length sort_example" by (simp add: sort_example_def)
  show "(fst (js_TA_cmp_uint8 x y s) \<le> 0 \<longrightarrow> x \<le> y) \<and> (fst (js_TA_cmp_uint8 x y s) \<ge> 0 \<longrightarrow> y \<le> x)" for x y and s :: unit
    by (auto simp: js_TA_cmp_uint8_def word_le_def)
qed (auto intro!: reflpI transpI)

text \<open>
  C22: without a method the typed arrays of doubles are sorted by value, -0 before 0 and the NaNs at the end.
\<close>

theorem typed_array_sort_doubles:
  "\<exists>A' s'. rqsort js_TA_cmp_float64 0 (length A) A s = Some (A', s') \<and> mset A' = mset A \<and> sorted_wrt f64_le A'"
proof -
  obtain A' s' where A': "rqsort js_TA_cmp_float64 0 (length A) A s = Some (A', s')" "seg_perm 0 (length A) A A'"
    "\<forall>i j. 0 \<le> i \<and> i < j \<and> j < 0 + length A \<longrightarrow> f64_le (A' ! i) (A' ! j)"
    using ta_float64.rqsort_spec [of 0 "length A" A s] by auto
  note perm = seg_perm_slice [OF A'(2)]
  have "sorted_wrt f64_le A'" using sorted_slice [OF A'(3)] perm(4) by simp
  with A'(1) perm(3) show ?thesis by auto
qed

text \<open>The slots in the order of the method's result, those it calls equal in the order of their positions.\<close>

definition slot_le :: "('v \<Rightarrow> 'v \<Rightarrow> bool) \<Rightarrow> 'v value_slot \<Rightarrow> 'v value_slot \<Rightarrow> bool" where
  "slot_le le a b \<longleftrightarrow> le (vs_val a) (vs_val b) \<and> (le (vs_val b) (vs_val a) \<longrightarrow> vs_pos a \<le> vs_pos b)"

lemma array_cmp_comparator:
  assumes "reflp le" "transp le"
    and call: "\<forall>x y w. safe w \<longrightarrow> (\<exists>v w'. call x y w = (Some v, w') \<and> (v < 0 \<longleftrightarrow> \<not> le y x) \<and> (v > 0 \<longleftrightarrow> \<not> le x y) \<and> safe w')"
  shows "comparator (js_array_cmp_generic call) (slot_le le) (\<lambda>(exception, w). \<not> exception \<and> safe w)"
proof
  fix x y z :: "'a value_slot" and s :: "bool \<times> 'b"
  show "slot_le le x x" using assms(1) by (simp add: slot_le_def reflpD)
  show "slot_le le x z" if "slot_le le x y" "slot_le le y z"
    using that assms(2) unfolding slot_le_def by (meson order_trans transpD)
  assume s: "case s of (exception, w) \<Rightarrow> \<not> exception \<and> safe w"
  obtain w where w: "s = (False, w)" "safe w" using s by (cases s) auto
  obtain v w' where v: "call (vs_val x) (vs_val y) w = (Some v, w')"
    "v < 0 \<longleftrightarrow> \<not> le (vs_val y) (vs_val x)" "v > 0 \<longleftrightarrow> \<not> le (vs_val x) (vs_val y)" "safe w'" using call w(2) by blast
  have refl: "vs_val x = vs_val y \<Longrightarrow> le (vs_val x) (vs_val y) \<and> le (vs_val y) (vs_val x)"
    using assms(1) by (auto dest: reflpD)
  have run: "js_array_cmp_generic call x y s = (if vs_val x = vs_val y then (cmp_same x y, s)
      else (if sign_of v \<noteq> 0 then sign_of v else cmp_same x y, (False, w')))"
    using w(1) v(1) by (simp add: js_array_cmp_generic_def)
  show "slot_le le x y" if "fst (js_array_cmp_generic call x y s) \<le> 0"
    using that v(2,3) refl unfolding run
    by (auto simp: slot_le_def sign_of_def cmp_same_def of_bool_def split: if_splits)
  show "slot_le le y x" if "0 \<le> fst (js_array_cmp_generic call x y s)"
    using that v(2,3) refl unfolding run
    by (auto simp: slot_le_def sign_of_def cmp_same_def of_bool_def split: if_splits)
  show "case snd (js_array_cmp_generic call x y s) of (exception, w) \<Rightarrow> \<not> exception \<and> safe w"
    using w v(4) unfolding run by simp
qed

end
