(* ===== verification/Array_Sort.thy ===== *)
theory Array_Sort
  imports Rq_Sort_Uses
begin

text \<open>
  \<open>Array.prototype.sort\<close> with a method, \<open>js_array_sort\<close> of quickjs.c: it collects the elements of the array with
  their positions, leaving out holes and counting undefined values, sorts them, and writes them back, then the undefined
  values, then deletes the rest. The accesses to properties, the method and the allocator are those of the engine
  around it, a record of functions on the state 'w of the world; reference counts are not modelled.
\<close>

section \<open>The function\<close>










section \<open>What the sort relies on\<close>










section \<open>Sorting\<close>
















end
