(* ===== verification/Exchange.thy ===== *)
theory Exchange
  imports Rq_Sort_Correct
begin

text \<open>
  The swaps of \<open>rqsort\<close> at the level of bytes, cutils.c 358 to 492: \<open>exchange_func\<close> chooses by the alignment of
  the array and of the element size in which units two elements are exchanged. Memory is a list of bytes whose
  first address is a multiple of 16; an access to a misaligned unit is \<open>None\<close>.
\<close>

unbundle bit_operations_syntax

section \<open>The exchange functions\<close>

text \<open>\<open>t = *ap; *ap = *bp; *bp = t\<close> on units of k bytes.\<close>

definition exchange_unit :: "nat \<Rightarrow> 'a list \<Rightarrow> nat \<Rightarrow> nat \<Rightarrow> 'a list option" where
  "exchange_unit k mem ap bp = do {
     c_assert (k dvd ap \<and> k dvd bp);
     t \<leftarrow> rd_block mem ap k;
     u \<leftarrow> rd_block mem bp k;
     mem \<leftarrow> wr_block mem ap u;
     wr_block mem bp t
   }"

fun exchange_loop :: "(nat list \<Rightarrow> nat \<Rightarrow> nat \<Rightarrow> nat list option) \<Rightarrow> nat \<Rightarrow> nat \<Rightarrow> nat list \<Rightarrow> nat \<Rightarrow> nat \<Rightarrow> nat list option" where
  "exchange_loop f k 0 mem ap bp = Some mem"
| "exchange_loop f k (Suc n) mem ap bp = do {
     mem \<leftarrow> f mem ap bp;
     exchange_loop f k n mem (ap + k) (bp + k)
   }"

text \<open>Two words of 8 bytes each.\<close>

definition exchange_int128 :: "'a list \<Rightarrow> nat \<Rightarrow> nat \<Rightarrow> 'a list option" where
  "exchange_int128 mem ap bp = do {
     c_assert (8 dvd ap \<and> 8 dvd bp);
     t \<leftarrow> rd_block mem ap 8;
     u \<leftarrow> rd_block mem (ap + 8) 8;
     b0 \<leftarrow> rd_block mem bp 8;
     mem \<leftarrow> wr_block mem ap b0;
     b1 \<leftarrow> rd_block mem (bp + 8) 8;
     mem \<leftarrow> wr_block mem (ap + 8) b1;
     mem \<leftarrow> wr_block mem bp t;
     wr_block mem (bp + 8) u
   }"

datatype exchange_f =
    Exchange_bytes | Exchange_one_byte | Exchange_int16s | Exchange_one_int16 | Exchange_int32s | Exchange_one_int32
  | Exchange_int64s | Exchange_one_int64 | Exchange_int128s | Exchange_one_int128

fun exchange :: "exchange_f \<Rightarrow> nat list \<Rightarrow> nat \<Rightarrow> nat \<Rightarrow> nat \<Rightarrow> nat list option" where
  "exchange Exchange_bytes mem a b sz = exchange_loop (exchange_unit 1) 1 sz mem a b"
| "exchange Exchange_one_byte mem a b sz = exchange_unit 1 mem a b"
| "exchange Exchange_int16s mem a b sz = exchange_loop (exchange_unit 2) 2 (sz div 2) mem a b"
| "exchange Exchange_one_int16 mem a b sz = exchange_unit 2 mem a b"
| "exchange Exchange_int32s mem a b sz = exchange_loop (exchange_unit 4) 4 (sz div 4) mem a b"
| "exchange Exchange_one_int32 mem a b sz = exchange_unit 4 mem a b"
| "exchange Exchange_int64s mem a b sz = exchange_loop (exchange_unit 8) 8 (sz div 8) mem a b"
| "exchange Exchange_one_int64 mem a b sz = exchange_unit 8 mem a b"
| "exchange Exchange_int128s mem a b sz = exchange_loop exchange_int128 16 (sz div 16) mem a b"
| "exchange Exchange_one_int128 mem a b sz = exchange_int128 mem a b"

definition exchange_func :: "nat \<Rightarrow> nat \<Rightarrow> exchange_f" where
  "exchange_func base sz =
     (let c = (base OR sz) AND 15 in
      if c = 0 then (if sz = 16 then Exchange_one_int128 else Exchange_int128s)
      else if c = 8 then (if sz = 8 then Exchange_one_int64 else Exchange_int64s)
      else if c = 4 \<or> c = 12 then (if sz = 4 then Exchange_one_int32 else Exchange_int32s)
      else if c = 2 \<or> c = 6 \<or> c = 10 \<or> c = 14 then (if sz = 2 then Exchange_one_int16 else Exchange_int16s)
      else (if sz = 1 then Exchange_one_byte else Exchange_bytes))"

section \<open>What they compute\<close>

text \<open>Two blocks of n cells change places.\<close>

definition swap_index :: "nat \<Rightarrow> nat \<Rightarrow> nat \<Rightarrow> nat \<Rightarrow> nat" where
  "swap_index a b n x =
     (if a \<le> x \<and> x < a + n then b + (x - a) else if b \<le> x \<and> x < b + n then a + (x - b) else x)"

definition blocks_swapped :: "'a list \<Rightarrow> nat \<Rightarrow> nat \<Rightarrow> nat \<Rightarrow> 'a list \<Rightarrow> bool" where
  "blocks_swapped mem a b n mem' \<longleftrightarrow> length mem' = length mem \<and> (\<forall>x<length mem. mem' ! x = mem ! swap_index a b n x)"

definition disjoint_blocks :: "nat \<Rightarrow> nat \<Rightarrow> nat \<Rightarrow> nat \<Rightarrow> bool" where
  "disjoint_blocks len a b n \<longleftrightarrow> (a = b \<or> a + n \<le> b \<or> b + n \<le> a) \<and> a + n \<le> len \<and> b + n \<le> len"

lemma wr_block_nth:
  "wr_block mem off d = Some mem' \<Longrightarrow> x < length mem \<Longrightarrow>
     mem' ! x = (if off \<le> x \<and> x < off + length d then d ! (x - off) else mem ! x)"
  by (auto simp: wr_block_def nth_append min_def split: if_splits)

lemma rd_block_nth: "rd_block mem off n = Some d \<Longrightarrow> k < n \<Longrightarrow> d ! k = mem ! (off + k)"
  by (auto simp: rd_block_def split: if_splits)

lemma exchange_unit_spec:
  assumes "disjoint_blocks (length mem) a b k" "k dvd a" "k dvd b"
  shows "\<exists>mem'. exchange_unit k mem a b = Some mem' \<and> blocks_swapped mem a b k mem'"
proof -
  have "a + k \<le> length mem" "b + k \<le> length mem" using assms(1) by (simp_all add: disjoint_blocks_def)
  then obtain t u where t: "rd_block mem a k = Some t" "length t = k" and u: "rd_block mem b k = Some u" "length u = k"
    by (simp add: rd_block_def)
  obtain m1 where m1: "wr_block mem a u = Some m1" using assms(1) u by (auto simp: disjoint_blocks_def wr_block_def)
  note len = wr_block_length [OF m1]
  obtain m2 where m2: "wr_block m1 b t = Some m2" using assms(1) t len by (auto simp: disjoint_blocks_def wr_block_def)
  have "m2 ! x = mem ! swap_index a b k x" if "x < length mem" for x
    using wr_block_nth [OF m2, of x] wr_block_nth [OF m1, of x] rd_block_nth [OF t(1), of "x - b"] rd_block_nth [OF u(1), of "x - a"]
      that len t(2) u(2) assms(1) by (auto simp: disjoint_blocks_def swap_index_def)
  then have "blocks_swapped mem a b k m2" using wr_block_length [OF m2] len by (simp add: blocks_swapped_def)
  with assms t u m1 m2 show ?thesis by (simp add: exchange_unit_def)
qed

lemma swap_index_range: "disjoint_blocks len a b n \<Longrightarrow> x < len \<Longrightarrow> swap_index a b n x < len"
  by (auto simp: disjoint_blocks_def swap_index_def)

lemma swap_index_first: "d < n \<Longrightarrow> swap_index a b n (a + d) = b + d"
  by (simp add: swap_index_def)

lemma swap_index_second: "d < n \<Longrightarrow> a + n \<le> b \<or> b + n \<le> a \<Longrightarrow> swap_index a b n (b + d) = a + d"
  by (auto simp: swap_index_def)

lemma swap_index_other: "x < a \<or> a + n \<le> x \<Longrightarrow> x < b \<or> b + n \<le> x \<Longrightarrow> swap_index a b n x = x"
  by (auto simp: swap_index_def)

lemma swap_index_same [simp]: "swap_index a a n x = x"
  by (simp add: swap_index_def)

lemma swap_index_append:
  assumes "disjoint_blocks len a b (n + m)"
  shows "swap_index a b n (swap_index (a + n) (b + n) m x) = swap_index a b (n + m) x"
proof (cases "a = b")
  case False
  then have apart: "a + (n + m) \<le> b \<or> b + (n + m) \<le> a" using assms by (simp add: disjoint_blocks_def)
  consider d where "x = a + d" "d < n" | d where "x = a + (n + d)" "d < m" | d where "x = b + d" "d < n"
    | d where "x = b + (n + d)" "d < m" | "x < a \<or> a + (n + m) \<le> x" "x < b \<or> b + (n + m) \<le> x"
    by (metis add.assoc le_add_diff_inverse linorder_not_le nat_add_left_cancel_less)
  then show ?thesis
  proof cases
    case 1
    have "swap_index (a + n) (b + n) m x = x" using 1 apart by (intro swap_index_other) linarith+
    with 1 show ?thesis by (simp add: swap_index_first)
  next
    case 2
    have "swap_index (a + n) (b + n) m x = b + (n + d)" using 2 swap_index_first [of d m "a + n" "b + n"] by (simp add: add.assoc)
    moreover have "swap_index a b n (b + (n + d)) = b + (n + d)" using 2 apart by (intro swap_index_other) linarith+
    ultimately show ?thesis using 2 swap_index_first [of "n + d" "n + m" a b] by simp
  next
    case 3
    have "swap_index (a + n) (b + n) m x = x" using 3 apart by (intro swap_index_other) linarith+
    moreover have "swap_index a b n x = a + d" "swap_index a b (n + m) x = a + d"
      using 3 apart by (auto intro!: swap_index_second)
    ultimately show ?thesis by simp
  next
    case 4
    have "swap_index (a + n) (b + n) m x = a + (n + d)"
      using 4 apart swap_index_second [of d m "a + n" "b + n"] by (simp add: add.assoc) linarith
    moreover have "swap_index a b n (a + (n + d)) = a + (n + d)" using 4 apart by (intro swap_index_other) linarith+
    moreover have "swap_index a b (n + m) x = a + (n + d)" using 4 apart by (auto intro!: swap_index_second)
    ultimately show ?thesis by simp
  next
    case 5
    have "swap_index (a + n) (b + n) m x = x" using 5 by (intro swap_index_other) linarith+
    moreover have "swap_index a b n x = x" "swap_index a b (n + m) x = x" using 5 by (auto intro!: swap_index_other)
    ultimately show ?thesis by simp
  qed
qed simp

lemma blocks_swapped_append:
  assumes "blocks_swapped mem a b n mem1" "blocks_swapped mem1 (a + n) (b + n) m mem2"
    and "disjoint_blocks (length mem) a b (n + m)"
  shows "blocks_swapped mem a b (n + m) mem2"
proof -
  have "disjoint_blocks (length mem) (a + n) (b + n) m" using assms(3) by (auto simp: disjoint_blocks_def)
  then show ?thesis
    using assms swap_index_range [of "length mem" "a + n" "b + n" m] swap_index_append [OF assms(3)]
    by (simp add: blocks_swapped_def)
qed

lemma exchange_int128_spec:
  assumes "disjoint_blocks (length mem) a b 16" "8 dvd a" "8 dvd b"
  shows "\<exists>mem'. exchange_int128 mem a b = Some mem' \<and> blocks_swapped mem a b 16 mem'"
proof -
  have len: "a + 16 \<le> length mem" "b + 16 \<le> length mem" "a = b \<or> a + 16 \<le> b \<or> b + 16 \<le> a" using assms(1) by (auto simp: disjoint_blocks_def)
  obtain t u b0 where t: "rd_block mem a 8 = Some t" "length t = 8" and u: "rd_block mem (a + 8) 8 = Some u" "length u = 8"
    and b0: "rd_block mem b 8 = Some b0" "length b0 = 8"
    using len(1,2) by (simp add: rd_block_def)
  obtain m1 where m1: "wr_block mem a b0 = Some m1" using len b0 by (auto simp: wr_block_def)
  note l1 = wr_block_length [OF m1]
  obtain b1 where b1: "rd_block m1 (b + 8) 8 = Some b1" "length b1 = 8" using len l1 by (auto simp: rd_block_def)
  obtain m2 where m2: "wr_block m1 (a + 8) b1 = Some m2" using len l1 b1 by (auto simp: wr_block_def)
  note l2 = wr_block_length [OF m2]
  obtain m3 where m3: "wr_block m2 b t = Some m3" using len l1 l2 t by (auto simp: wr_block_def)
  note l3 = wr_block_length [OF m3]
  obtain m4 where m4: "wr_block m3 (b + 8) u = Some m4" using len l1 l2 l3 u by (auto simp: wr_block_def)
  note l4 = wr_block_length [OF m4]
  have "m4 ! x = mem ! swap_index a b 16 x" if x: "x < length mem" for x
  proof -
    have b1v: "b1 ! k = mem ! (b + 8 + k)" if "k < 8" for k
      using rd_block_nth [OF b1(1) that] wr_block_nth [OF m1, of "b + 8 + k"] len b0(2) that by auto
    note w = wr_block_nth [OF m4] wr_block_nth [OF m3] wr_block_nth [OF m2] wr_block_nth [OF m1]
    consider "a \<le> x" "x < a + 8" | "a + 8 \<le> x" "x < a + 16" | "b \<le> x" "x < b + 8" | "b + 8 \<le> x" "x < b + 16"
      | "x < a \<or> a + 16 \<le> x" "x < b \<or> b + 16 \<le> x" by linarith
    then show ?thesis
    proof cases
      case 1
      with len x rd_block_nth [OF b0(1), of "x - a"] rd_block_nth [OF t(1), of "x - b"] show ?thesis
        by (auto simp: w l1 l2 l3 t u b0 b1 swap_index_def)
    next
      case 2
      with len x b1v [of "x - (a + 8)"] rd_block_nth [OF u(1), of "x - (b + 8)"] show ?thesis
        by (auto simp: w l1 l2 l3 t u b0 b1 swap_index_def)
    next
      case 3
      with len x rd_block_nth [OF t(1), of "x - b"] show ?thesis
        by (auto simp: w l1 l2 l3 t u b0 b1 swap_index_def)
    next
      case 4
      with len x rd_block_nth [OF u(1), of "x - (b + 8)"] show ?thesis
        by (auto simp: w l1 l2 l3 t u b0 b1 swap_index_def)
    next
      case 5
      with len x show ?thesis by (auto simp: w l1 l2 l3 t u b0 b1 swap_index_def)
    qed
  qed
  then have "blocks_swapped mem a b 16 m4" using l1 l2 l3 l4 by (simp add: blocks_swapped_def)
  with assms t u b0 m1 b1 m2 m3 m4 show ?thesis by (simp add: exchange_int128_def)
qed

lemma exchange_loop_spec:
  assumes f: "\<And>mem a b. disjoint_blocks (length mem) a b k \<Longrightarrow> al dvd a \<Longrightarrow> al dvd b \<Longrightarrow>
      \<exists>mem'. f mem a b = Some mem' \<and> blocks_swapped mem a b k mem'"
    and al: "al dvd k" "al dvd a" "al dvd b" and "disjoint_blocks (length mem) a b (n * k)"
  shows "\<exists>mem'. exchange_loop f k n mem a b = Some mem' \<and> blocks_swapped mem a b (n * k) mem'"
  using al(2,3) assms(5)
proof (induction n arbitrary: mem a b)
  case 0
  then show ?case by (simp add: blocks_swapped_def swap_index_def)
next
  case (Suc n)
  have "disjoint_blocks (length mem) a b k" using Suc.prems(3) by (auto simp: disjoint_blocks_def)
  from f [OF this Suc.prems(1,2)] obtain m1 where m1: "f mem a b = Some m1" "blocks_swapped mem a b k m1" by blast
  have "disjoint_blocks (length m1) (a + k) (b + k) (n * k)"
    using Suc.prems(3) m1(2) by (auto simp: disjoint_blocks_def blocks_swapped_def)
  moreover have "al dvd a + k" "al dvd b + k" using al(1) Suc.prems(1,2) by simp_all
  ultimately obtain m2 where m2: "exchange_loop f k n m1 (a + k) (b + k) = Some m2" "blocks_swapped m1 (a + k) (b + k) (n * k) m2"
    using Suc.IH by blast
  have "blocks_swapped mem a b (k + n * k) m2" using blocks_swapped_append [OF m1(2) m2(2)] Suc.prems(3) by simp
  with m1 m2 show ?case by simp
qed

section \<open>The choice of the unit\<close>

lemma or_eq_0: "x OR y = 0 \<Longrightarrow> x = 0 \<and> y = 0" for x y :: nat
  by (auto simp: bit_eq_iff bit_or_iff)

lemma or_dvd: "2 ^ m dvd (x OR y) \<Longrightarrow> 2 ^ m dvd x \<and> 2 ^ m dvd y" for x y :: nat
  using or_eq_0 [of "take_bit m x" "take_bit m y"] by (simp add: take_bit_eq_0_iff [symmetric])

lemma low_bits: "x AND 15 = x mod 16" for x :: nat
  using take_bit_eq_mask [of 4 x] take_bit_eq_mod [of 4 x] by (simp add: mask_eq_exp_minus_1)

text \<open>The unit of an exchange function, and the size it is for when it exchanges one unit only.\<close>

fun exchange_size :: "exchange_f \<Rightarrow> nat" where
  "exchange_size Exchange_bytes = 1" | "exchange_size Exchange_one_byte = 1"
| "exchange_size Exchange_int16s = 2" | "exchange_size Exchange_one_int16 = 2"
| "exchange_size Exchange_int32s = 4" | "exchange_size Exchange_one_int32 = 4"
| "exchange_size Exchange_int64s = 8" | "exchange_size Exchange_one_int64 = 8"
| "exchange_size Exchange_int128s = 16" | "exchange_size Exchange_one_int128 = 16"

definition exchange_one :: "exchange_f \<Rightarrow> bool" where
  "exchange_one f \<longleftrightarrow> f \<in> {Exchange_one_byte, Exchange_one_int16, Exchange_one_int32, Exchange_one_int64, Exchange_one_int128}"

lemma exchange_func_unit:
  "exchange_size (exchange_func base sz) dvd base" "exchange_size (exchange_func base sz) dvd sz"
  "exchange_one (exchange_func base sz) \<Longrightarrow> exchange_size (exchange_func base sz) = sz"
proof -
  define c where "c = (base OR sz) mod 16"
  have c: "c < 16" by (simp add: c_def)
  have d: "2 ^ m dvd (base OR sz)" if "2 ^ m dvd c" "m \<le> 4" for m
  proof -
    have "2 ^ m dvd (16 :: nat)" using that(2) le_imp_power_dvd [of m 4 2] by simp
    with that(1) show ?thesis unfolding c_def by (simp add: dvd_mod_iff)
  qed
  have dd: "2 ^ m dvd base \<and> 2 ^ m dvd sz" if "2 ^ m dvd c" "m \<le> 4" for m using or_dvd [OF d [OF that]] .
  have f: "exchange_func base sz = (if c = 0 then (if sz = 16 then Exchange_one_int128 else Exchange_int128s)
      else if c = 8 then (if sz = 8 then Exchange_one_int64 else Exchange_int64s)
      else if c = 4 \<or> c = 12 then (if sz = 4 then Exchange_one_int32 else Exchange_int32s)
      else if c = 2 \<or> c = 6 \<or> c = 10 \<or> c = 14 then (if sz = 2 then Exchange_one_int16 else Exchange_int16s)
      else (if sz = 1 then Exchange_one_byte else Exchange_bytes))"
    by (simp add: exchange_func_def low_bits c_def Let_def)
  show "exchange_size (exchange_func base sz) dvd base" "exchange_size (exchange_func base sz) dvd sz"
    using dd [of 4] dd [of 3] dd [of 2] dd [of 1] unfolding f by (cases "c = 0"; auto split: if_splits)+
  show "exchange_one (exchange_func base sz) \<Longrightarrow> exchange_size (exchange_func base sz) = sz"
    unfolding f by (auto simp: exchange_one_def split: if_splits)
qed

lemma exchange_spec:
  assumes "disjoint_blocks (length mem) a b n" "exchange_size f dvd a" "exchange_size f dvd b" "exchange_size f dvd n"
    and "exchange_one f \<Longrightarrow> n = exchange_size f"
  shows "\<exists>mem'. exchange f mem a b n = Some mem' \<and> blocks_swapped mem a b n mem'"
proof -
  have units: "\<exists>mem'. exchange_loop (exchange_unit k) k (n div k) mem a b = Some mem' \<and> blocks_swapped mem a b n mem'"
    if "k dvd a" "k dvd b" "k dvd n" for k
  proof -
    have "disjoint_blocks (length mem) a b (n div k * k)" using that(3) assms(1) by simp
    from exchange_loop_spec [where f = "exchange_unit k", OF exchange_unit_spec dvd_refl that(1,2) this] that(3) show ?thesis by simp
  qed
  have words: "\<exists>mem'. exchange_loop exchange_int128 16 (n div 16) mem a b = Some mem' \<and> blocks_swapped mem a b n mem'"
    if "16 dvd a" "16 dvd b" "16 dvd n"
  proof -
    have "disjoint_blocks (length mem) a b (n div 16 * 16)" using that(3) assms(1) by simp
    moreover have "8 dvd a" "8 dvd b" using dvd_trans [of 8 16 a] dvd_trans [of 8 16 b] that(1,2) by simp_all
    ultimately show ?thesis
      using exchange_loop_spec [where f = exchange_int128 and k = 16 and al = 8, OF exchange_int128_spec, of a b mem "n div 16"] that(3)
      by simp
  qed
  show ?thesis
    using assms units words exchange_unit_spec [of mem a b n] exchange_int128_spec [of mem a b] dvd_trans [of 8 16 a] dvd_trans [of 8 16 b]
      units [of 1] by (cases f) (auto simp: exchange_one_def)
qed

section \<open>The array of elements\<close>

definition elems :: "nat \<Rightarrow> nat \<Rightarrow> nat \<Rightarrow> 'a list \<Rightarrow> 'a list list" where
  "elems base sz nmemb mem = map (\<lambda>k. take sz (drop (base + k * sz) mem)) [0..<nmemb]"

lemma elems_nth: "k < nmemb \<Longrightarrow> elems base sz nmemb mem ! k = take sz (drop (base + k * sz) mem)"
  by (simp add: elems_def)


lemma elems_length [simp]: "length (elems base sz nmemb mem) = nmemb"
  by (simp add: elems_def)

lemma scaled_index:
  assumes "d < sz" "y < k"
  shows "y * sz + d < k * (sz :: nat)"
proof -
  have "y * sz + d < Suc y * sz" using assms(1) by simp
  also have "\<dots> \<le> k * sz" using assms(2) by (intro mult_le_mono1) simp
  finally show ?thesis .
qed

lemma scaled_before:
  assumes "x < (i :: nat)" "d < sz"
  shows "base + x * sz + d < base + i * sz"
  using scaled_index [OF assms(2,1)] by simp

lemma swap_index_scaled:
  assumes "d < sz" "i + k \<le> j \<or> j + k \<le> i \<or> i = j"
  shows "swap_index (base + i * sz) (base + j * sz) (k * sz) (base + x * sz + d) = base + swap_index i j k x * sz + d"
proof (cases "i = j")
  case False
  then have apart: "i + k \<le> j \<or> j + k \<le> i" using assms(2) by blast
  have apart': "base + i * sz + k * sz \<le> base + j * sz \<or> base + j * sz + k * sz \<le> base + i * sz"
    using apart mult_le_mono1 [of "i + k" j sz] mult_le_mono1 [of "j + k" i sz] by (auto simp: algebra_simps)
  consider y where "x = i + y" "y < k" | y where "x = j + y" "y < k" | "x < i \<or> i + k \<le> x" "x < j \<or> j + k \<le> x"
    by (metis le_add_diff_inverse linorder_not_le nat_add_left_cancel_less)
  then show ?thesis
  proof cases
    case 1
    then show ?thesis
      using swap_index_first [OF scaled_index [OF assms(1) 1(2)], of "base + i * sz" "base + j * sz"]
        swap_index_first [of y k i j] by (simp add: algebra_simps)
  next
    case 2
    then show ?thesis
      using swap_index_second [OF scaled_index [OF assms(1) 2(2)] apart']
        swap_index_second [OF 2(2) apart] by (simp add: algebra_simps)
  next
    case 3
    have out: "base + x * sz + d < base + y * sz \<or> base + y * sz + k * sz \<le> base + x * sz + d" if "x < y \<or> y + k \<le> x" for y
      using that scaled_before [OF _ assms(1), of x y base] mult_le_mono1 [of "y + k" x sz] by (auto simp: algebra_simps)
    show ?thesis using swap_index_other [OF out [OF 3(1)] out [OF 3(2)]] swap_index_other [OF 3] by simp
  qed
qed simp

lemma elems_blocks_swapped:
  assumes "blocks_swapped mem (base + i * sz) (base + j * sz) (k * sz) mem'" "disjoint_blocks nmemb i j k"
    and "base + nmemb * sz \<le> length mem"
  shows "blocks_swapped (elems base sz nmemb mem) i j k (elems base sz nmemb mem')"
proof -
  have len: "length mem' = length mem" using assms(1) by (simp add: blocks_swapped_def)
  have "elems base sz nmemb mem' ! x = elems base sz nmemb mem ! swap_index i j k x" if x: "x < nmemb" for x
  proof -
    define y where "y = swap_index i j k x"
    have y: "y < nmemb" using swap_index_range [OF assms(2) x] by (simp add: y_def)
    have room: "base + z * sz + sz \<le> length mem" if "z < nmemb" for z
      using that assms(3) mult_le_mono1 [of "Suc z" nmemb sz] by (simp add: algebra_simps)
    have "take sz (drop (base + x * sz) mem') = take sz (drop (base + y * sz) mem)"
    proof (rule nth_equalityI)
      show "length (take sz (drop (base + x * sz) mem')) = length (take sz (drop (base + y * sz) mem))"
        using room [OF x] room [OF y] len by simp
      fix d
      assume "d < length (take sz (drop (base + x * sz) mem'))"
      then have d: "d < sz" by simp
      have "mem' ! (base + x * sz + d) = mem ! swap_index (base + i * sz) (base + j * sz) (k * sz) (base + x * sz + d)"
        using assms(1) room [OF x] d by (simp add: blocks_swapped_def)
      also have "\<dots> = mem ! (base + y * sz + d)"
        using swap_index_scaled [OF d, of i k j base x] assms(2) unfolding y_def disjoint_blocks_def by fastforce
      finally show "take sz (drop (base + x * sz) mem') ! d = take sz (drop (base + y * sz) mem) ! d"
        using d room [OF x] room [OF y] len by (simp add: nth_take)
    qed
    with x y show ?thesis by (simp add: elems_nth y_def)
  qed
  then show ?thesis by (simp add: blocks_swapped_def)
qed

lemma swap_at_blocks:
  assumes "disjoint_blocks (length A) a b 1"
  shows "\<exists>A'. swap_at A a b = Some A' \<and> blocks_swapped A a b 1 A'"
  using assms
  by (auto simp: swap_at_def rd_def wr_def disjoint_blocks_def blocks_swapped_def swap_index_def nth_list_update)

lemma swap_block_blocks:
  assumes "disjoint_blocks (length A) a b n"
  shows "\<exists>A'. swap_block A a b n = Some A' \<and> blocks_swapped A a b n A'"
  using assms
proof (induction n arbitrary: A a b)
  case (Suc n)
  have "disjoint_blocks (length A) a b 1" using Suc.prems by (auto simp: disjoint_blocks_def)
  then obtain A1 where A1: "swap_at A a b = Some A1" "blocks_swapped A a b 1 A1" using swap_at_blocks by blast
  have "disjoint_blocks (length A1) (Suc a) (Suc b) n" using Suc.prems A1(2) by (auto simp: disjoint_blocks_def blocks_swapped_def)
  then obtain A2 where A2: "swap_block A1 (Suc a) (Suc b) n = Some A2" "blocks_swapped A1 (Suc a) (Suc b) n A2" using Suc.IH by blast
  have "blocks_swapped A a b (1 + n) A2" using blocks_swapped_append [OF A1(2), of n A2] A2(2) Suc.prems by simp
  with A1 A2 show ?case by simp
next
  case 0
  have "swap_index a b 0 x = x" for x by (simp add: swap_index_def)
  then show ?case by (simp add: blocks_swapped_def)
qed

lemma blocks_swapped_unique: "blocks_swapped A a b n B \<Longrightarrow> blocks_swapped A a b n C \<Longrightarrow> B = C"
  by (auto simp: blocks_swapped_def intro: nth_equalityI)

lemma disjoint_scaled:
  assumes "disjoint_blocks nmemb i j k" "base + nmemb * sz \<le> len"
  shows "disjoint_blocks len (base + i * sz) (base + j * sz) (k * sz)"
proof -
  have m: "x * sz + k * sz \<le> y * sz" if "x + k \<le> y" for x y
    using that mult_le_mono1 [of "x + k" y sz] by (simp add: algebra_simps)
  have "i = j \<or> i * sz + k * sz \<le> j * sz \<or> j * sz + k * sz \<le> i * sz"
    using assms(1) m [of i j] m [of j i] by (auto simp: disjoint_blocks_def)
  moreover have "i * sz + k * sz \<le> nmemb * sz" "j * sz + k * sz \<le> nmemb * sz"
    using assms(1) by (auto simp: disjoint_blocks_def intro!: m)
  ultimately show ?thesis using assms(2) by (auto simp: disjoint_blocks_def)
qed

text \<open>An exchange function whose unit divides the base and the element size.\<close>

lemma exchange_elems:
  assumes "disjoint_blocks nmemb i j k" "base + nmemb * sz \<le> length mem"
    and unit: "exchange_size f dvd base" "exchange_size f dvd sz" "exchange_one f \<Longrightarrow> k * sz = exchange_size f"
  shows "\<exists>mem'. exchange f mem (base + i * sz) (base + j * sz) (k * sz) = Some mem' \<and>
      blocks_swapped mem (base + i * sz) (base + j * sz) (k * sz) mem' \<and>
      blocks_swapped (elems base sz nmemb mem) i j k (elems base sz nmemb mem')"
proof -
  have "\<exists>mem'. exchange f mem (base + i * sz) (base + j * sz) (k * sz) = Some mem' \<and>
      blocks_swapped mem (base + i * sz) (base + j * sz) (k * sz) mem'"
    using disjoint_scaled [OF assms(1,2)] unit by (intro exchange_spec) simp_all
  then show ?thesis using elems_blocks_swapped assms(1,2) by blast
qed

lemma exchange_func_block:
  "exchange_size (exchange_func base (sz OR 128)) dvd base" "exchange_size (exchange_func base (sz OR 128)) dvd sz"
  "exchange_one (exchange_func base (sz OR 128)) \<Longrightarrow> False"
proof -
  define f where "f = exchange_func base (sz OR 128)"
  have unit: "exchange_size f dvd base" "exchange_size f dvd (sz OR 128)" "exchange_one f \<Longrightarrow> exchange_size f = (sz OR 128)"
    using exchange_func_unit [of base "sz OR 128"] by (simp_all add: f_def)
  have "exchange_size f \<in> {2 ^ 0, 2 ^ 1, 2 ^ 2, 2 ^ 3, 2 ^ 4}" by (cases f) simp_all
  then have pow: "\<exists>m. exchange_size f = 2 ^ m" by blast
  show "exchange_size (exchange_func base (sz OR 128)) dvd base" using unit(1) by (simp add: f_def)
  show "exchange_size (exchange_func base (sz OR 128)) dvd sz" using unit(2) pow or_dvd unfolding f_def [symmetric] by metis
  have "bit (sz OR 128) 7" by (simp add: bit_or_iff) (simp add: bit_iff_odd)
  moreover have "\<not> bit (exchange_size f) 7" by (cases f) (simp_all add: bit_iff_odd)
  ultimately show False if "exchange_one (exchange_func base (sz OR 128))" using unit(3) that by (simp add: f_def)
qed

section \<open>The exchanges of the sort\<close>

lemma blocks_swapped_outside:
  assumes "blocks_swapped mem (base + i * sz) (base + j * sz) (k * sz) mem'" "disjoint_blocks n i j k"
    and "x < length mem" "x < base \<or> base + n * sz \<le> x"
  shows "mem' ! x = mem ! x"
proof -
  have "z * sz + k * sz \<le> n * sz" if "z + k \<le> n" for z
    using that mult_le_mono1 [of "z + k" n sz] by (simp add: algebra_simps)
  then have "i * sz + k * sz \<le> n * sz" "j * sz + k * sz \<le> n * sz" using assms(2) by (auto simp: disjoint_blocks_def)
  then have "swap_index (base + i * sz) (base + j * sz) (k * sz) x = x" using assms(4) by (intro swap_index_other) auto
  with assms(1,3) show ?thesis by (simp add: blocks_swapped_def)
qed

lemma exchange_one_element:
  assumes "base + n * sz \<le> length mem" "i < n" "j < n"
  shows "\<exists>mem'. exchange (exchange_func base sz) mem (base + i * sz) (base + j * sz) sz = Some mem' \<and>
      swap_at (elems base sz n mem) i j = Some (elems base sz n mem') \<and>
      (\<forall>x<length mem. x < base \<or> base + n * sz \<le> x \<longrightarrow> mem' ! x = mem ! x)"
proof -
  have apart: "disjoint_blocks n i j 1" using assms(2,3) by (auto simp: disjoint_blocks_def)
  obtain mem' where mem': "exchange (exchange_func base sz) mem (base + i * sz) (base + j * sz) (1 * sz) = Some mem'"
    "blocks_swapped mem (base + i * sz) (base + j * sz) (1 * sz) mem'"
    "blocks_swapped (elems base sz n mem) i j 1 (elems base sz n mem')"
    using exchange_elems [OF apart assms(1), of "exchange_func base sz"] exchange_func_unit [of base sz] by auto
  obtain A where A: "swap_at (elems base sz n mem) i j = Some A" "blocks_swapped (elems base sz n mem) i j 1 A"
    using swap_at_blocks [of "elems base sz n mem" i j] apart by auto
  have "A = elems base sz n mem'" using blocks_swapped_unique [OF A(2) mem'(3)] .
  with mem' A blocks_swapped_outside [OF mem'(2) apart] show ?thesis by simp
qed

lemma exchange_elements:
  assumes "base + n * sz \<le> length mem" "p + k \<le> q" "q + k \<le> n"
  shows "\<exists>mem'. exchange (exchange_func base (sz OR 128)) mem (base + p * sz) (base + q * sz) (k * sz) = Some mem' \<and>
      swap_block (elems base sz n mem) p q k = Some (elems base sz n mem') \<and>
      (\<forall>x<length mem. x < base \<or> base + n * sz \<le> x \<longrightarrow> mem' ! x = mem ! x)"
proof -
  have apart: "disjoint_blocks n p q k" using assms(2,3) by (auto simp: disjoint_blocks_def)
  obtain mem' where mem': "exchange (exchange_func base (sz OR 128)) mem (base + p * sz) (base + q * sz) (k * sz) = Some mem'"
    "blocks_swapped mem (base + p * sz) (base + q * sz) (k * sz) mem'"
    "blocks_swapped (elems base sz n mem) p q k (elems base sz n mem')"
    using exchange_elems [OF apart assms(1) exchange_func_block(1,2)] exchange_func_block(3) [of base sz] by blast
  obtain A where A: "swap_block (elems base sz n mem) p q k = Some A" "blocks_swapped (elems base sz n mem) p q k A"
    using swap_block_blocks [of "elems base sz n mem" p q k] apart by auto
  have "A = elems base sz n mem'" using blocks_swapped_unique [OF A(2) mem'(3)] .
  with mem' A blocks_swapped_outside [OF mem'(2) apart] show ?thesis by simp
qed

text \<open>
  C19: The exchanges of the sort implement the exchange of elements. Let n elements of sz bytes lie in memory from
  \<open>base\<close> on. Whatever the alignment of \<open>base\<close> and sz, the function \<open>exchange_func(base, size)\<close> chooses makes no
  misaligned access and exchanges exactly elements i and j, and \<open>exchange_func(base, size | 128)\<close>, which
  \<open>rqsort\<close> calls with a span of bytes, exchanges the k elements from p on with those from q on; no other byte of
  memory changes.
\<close>

theorem exchange_implements_swap:
  assumes "base + n * sz \<le> length mem" "i < n" "j < n" "p + k \<le> q" "q + k \<le> n"
  shows "(\<exists>mem'. exchange (exchange_func base sz) mem (base + i * sz) (base + j * sz) sz = Some mem' \<and>
            swap_at (elems base sz n mem) i j = Some (elems base sz n mem') \<and>
            (\<forall>x<length mem. x < base \<or> base + n * sz \<le> x \<longrightarrow> mem' ! x = mem ! x)) \<and>
         (\<exists>mem'. exchange (exchange_func base (sz OR 128)) mem (base + p * sz) (base + q * sz) (k * sz) = Some mem' \<and>
            swap_block (elems base sz n mem) p q k = Some (elems base sz n mem') \<and>
            (\<forall>x<length mem. x < base \<or> base + n * sz \<le> x \<longrightarrow> mem' ! x = mem ! x))"
  using exchange_one_element [OF assms(1-3)] exchange_elements [OF assms(1,4,5)] by blast

text \<open>Five elements of 6 bytes from address 4 on, which are exchanged in units of 2 bytes.\<close>

theorem exchange_implements_swap_witness:
  "(let mem = [0..<40] in
     (\<exists>mem'. exchange (exchange_func 4 6) mem 10 28 6 = Some mem' \<and> swap_at (elems 4 6 5 mem) 1 4 = Some (elems 4 6 5 mem')) \<and>
     (\<exists>mem'. exchange (exchange_func 4 (6 OR 128)) mem 4 16 12 = Some mem' \<and>
        swap_block (elems 4 6 5 mem) 0 2 2 = Some (elems 4 6 5 mem')))"
  using exchange_implements_swap [of 4 5 6 "[0..<40]" 1 4 0 2 2] by (simp add: Let_def del: upt_conv_Cons) blast

end
