(* ===== verification/Pc2line.thy ===== *)
theory Pc2line
  imports Dyn_Buf
begin

text \<open>
  The line number table of a function, quickjs.c: \<open>add_pc2line_info\<close> collects the pairs of byte code position and
  line, \<open>compute_pc2line_info\<close> encodes them into bytes with the variable length numbers of
  \<open>dbuf_put_leb128\<close> and \<open>dbuf_put_sleb128\<close>, and \<open>find_line_num\<close> decodes them for a position. A C \<open>int\<close> is a
  32-bit word; a signed addition that overflows is \<open>None\<close>.
\<close>

unbundle bit_operations_syntax

type_synonym i32 = "32 word"

section \<open>Variable length numbers\<close>

lemma drop_7_less: "drop_bit 7 v \<noteq> 0 \<Longrightarrow> unat (drop_bit 7 v) < unat v" for v :: u32
proof -
  assume "drop_bit 7 v \<noteq> 0"
  then have "v \<noteq> 0" by auto
  then have "0 < unat v" by (simp add: unat_gt_0)
  then show ?thesis by (simp add: unat_shr)
qed

function dbuf_put_leb128 :: "'o realloc_func \<Rightarrow> 'o dynbuf \<Rightarrow> u32 \<Rightarrow> 'o dynbuf option" where
  "dbuf_put_leb128 ra s v =
     (let a = v AND 0x7f; v = drop_bit 7 v in
      if v \<noteq> 0 then do {
        (r, s) \<leftarrow> dbuf_putc ra s (ucast (a OR 0x80));
        dbuf_put_leb128 ra s v
      } else do {
        (r, s) \<leftarrow> dbuf_putc ra s (ucast a);
        Some s
      })"
  by pat_completeness auto

termination
  by (relation "measure (\<lambda>(ra, s, v). unat v)") (auto simp: drop_7_less)

declare dbuf_put_leb128.simps [simp del]

definition dbuf_put_sleb128 :: "'o realloc_func \<Rightarrow> 'o dynbuf \<Rightarrow> i32 \<Rightarrow> 'o dynbuf option" where
  "dbuf_put_sleb128 ra s v = dbuf_put_leb128 ra s ((2 * v) XOR - drop_bit 31 v)"

text \<open>Round i of \<open>get_leb128\<close>; the bytes are those between \<open>ptr\<close> and \<open>buf_end\<close>.\<close>

function get_leb128_loop :: "nat \<Rightarrow> u32 \<Rightarrow> u8 list \<Rightarrow> int \<times> u32" where
  "get_leb128_loop i v ptr =
     (if i < 5 then
        case ptr of
          [] \<Rightarrow> (-1, 0)
        | c # ptr \<Rightarrow>
            (let a = ucast c; v = v OR push_bit (i * 7) (a AND 0x7f) in
             if a AND 0x80 = 0 then (int (i + 1), v) else get_leb128_loop (i + 1) v ptr)
      else (-1, 0))"
  by pat_completeness auto
termination
  by (relation "measure (\<lambda>(i, v, ptr). 5 - i)") auto

declare get_leb128_loop.simps [simp del]

definition get_leb128 :: "u8 list \<Rightarrow> int \<times> u32" where
  "get_leb128 buf = get_leb128_loop 0 0 buf"

definition get_sleb128 :: "u8 list \<Rightarrow> int \<times> i32" where
  "get_sleb128 buf =
     (let (ret, val) = get_leb128 buf in
      if ret < 0 then (-1, 0) else (ret, drop_bit 1 val XOR - (val AND 1)))"

section \<open>The table\<close>

definition PC2LINE_BASE :: int where "PC2LINE_BASE = -1"
definition PC2LINE_RANGE :: int where "PC2LINE_RANGE = 5"
definition PC2LINE_OP_FIRST :: int where "PC2LINE_OP_FIRST = 1"
definition PC2LINE_DIFF_PC_MAX :: int where "PC2LINE_DIFF_PC_MAX = (255 - PC2LINE_OP_FIRST) div PC2LINE_RANGE"

text \<open>The fields of \<open>JSFunctionDef\<close> for line numbers.\<close>

record line_number_def =
  ln_strip :: bool
  line_number_slots :: "(u32 \<times> i32) list option"
  line_number_size :: nat
  line_number_count :: nat
  line_number_last :: i32
  line_number_last_pc :: u32
  fd_line_num :: i32

definition add_pc2line_info :: "line_number_def \<Rightarrow> u32 \<Rightarrow> i32 \<Rightarrow> line_number_def option" where
  "add_pc2line_info s pc line_num =
     (case line_number_slots s of
        None \<Rightarrow> Some s
      | Some slots \<Rightarrow>
          if line_number_count s < line_number_size s \<and> pc \<ge> line_number_last_pc s \<and> line_num \<noteq> line_number_last s
          then do {
            slots \<leftarrow> wr slots (line_number_count s) (pc, line_num);
            Some (s\<lparr>line_number_slots := Some slots, line_number_count := line_number_count s + 1,
                    line_number_last_pc := pc, line_number_last := line_num\<rparr>)
          } else Some s)"

definition signed_sub :: "i32 \<Rightarrow> i32 \<Rightarrow> i32 option" where
  "signed_sub a b = (if - (2 ^ 31) \<le> sint a - sint b \<and> sint a - sint b < 2 ^ 31 then Some (a - b) else None)"

definition signed_add :: "i32 \<Rightarrow> i32 \<Rightarrow> i32 option" where
  "signed_add a b = (if - (2 ^ 31) \<le> sint a + sint b \<and> sint a + sint b < 2 ^ 31 then Some (a + b) else None)"

text \<open>One round of the loop of \<open>compute_pc2line_info\<close>.\<close>

definition put_pc2line ::
  "'o realloc_func \<Rightarrow> u32 \<times> i32 \<Rightarrow> u32 \<times> i32 \<times> 'o dynbuf \<Rightarrow> (u32 \<times> i32 \<times> 'o dynbuf) option" where
  "put_pc2line ra = (\<lambda>(pc, line_num) (last_pc, last_line_num, s).
     if sint line_num < 0 then Some (last_pc, last_line_num, s)
     else do {
       let diff_pc = pc - last_pc;
       diff_line \<leftarrow> signed_sub line_num last_line_num;
       if diff_line = 0 \<or> sint diff_pc < 0 then Some (last_pc, last_line_num, s)
       else do {
         s \<leftarrow> (if sint diff_line \<ge> PC2LINE_BASE \<and> sint diff_line < PC2LINE_BASE + PC2LINE_RANGE \<and>
                sint diff_pc \<le> PC2LINE_DIFF_PC_MAX
             then do {
               (r, s) \<leftarrow> dbuf_putc ra s
                 (word_of_int ((sint diff_line - PC2LINE_BASE) + sint diff_pc * PC2LINE_RANGE + PC2LINE_OP_FIRST));
               Some s
             } else do {
               (r, s) \<leftarrow> dbuf_putc ra s 0;
               s \<leftarrow> dbuf_put_leb128 ra s diff_pc;
               dbuf_put_sleb128 ra s diff_line
             });
         Some (pc, line_num, s)
       }
     })"

fun put_pc2lines ::
  "'o realloc_func \<Rightarrow> (u32 \<times> i32) list \<Rightarrow> u32 \<times> i32 \<times> 'o dynbuf \<Rightarrow> (u32 \<times> i32 \<times> 'o dynbuf) option" where
  "put_pc2lines ra [] st = Some st"
| "put_pc2lines ra (slot # slots) st = do {
     st \<leftarrow> put_pc2line ra slot st;
     put_pc2lines ra slots st
   }"

text \<open>The buffer \<open>pc2line\<close>, if the table is computed at all; \<open>st\<close> is the state of the allocator.\<close>

definition compute_pc2line_info :: "'o realloc_func \<Rightarrow> 'o \<Rightarrow> line_number_def \<Rightarrow> 'o dynbuf option option" where
  "compute_pc2line_info ra st s =
     (case line_number_slots s of
        Some slots \<Rightarrow>
          if ln_strip s then Some None
          else do {
            slots \<leftarrow> rd_block slots 0 (line_number_count s);
            (last_pc, last_line_num, buf) \<leftarrow> put_pc2lines ra slots (0, fd_line_num s, dbuf_init2 st);
            Some (Some buf)
          }
      | None \<Rightarrow> Some None)"

text \<open>The debug information of a function: \<open>b->debug.line_num\<close> and the bytes of the table, if it has any.\<close>

function find_line_loop :: "i32 \<Rightarrow> u32 \<Rightarrow> u8 list \<Rightarrow> u32 \<Rightarrow> i32 \<Rightarrow> i32 option" where
  "find_line_loop first pc_value p pc line_num =
     (case p of
        [] \<Rightarrow> Some line_num
      | op # p \<Rightarrow>
          if op = 0 then
            (let (ret, val) = get_leb128 p in
             if ret < 0 then Some first
             else
               let pc = pc + val; p = drop (nat ret) p;
                   (ret, v) = get_sleb128 p in
               if ret < 0 then Some first
               else do {
                 let p = drop (nat ret) p;
                 new_line_num \<leftarrow> signed_add line_num v;
                 if pc_value < pc then Some line_num else find_line_loop first pc_value p pc new_line_num
               })
          else
            (let op = ucast op - word_of_int PC2LINE_OP_FIRST;
                 pc = pc + op div word_of_int PC2LINE_RANGE;
                 new_line_num = line_num + op mod word_of_int PC2LINE_RANGE + word_of_int PC2LINE_BASE in
             if pc_value < pc then Some line_num else find_line_loop first pc_value p pc new_line_num))"
  by pat_completeness auto
termination
  by (relation "measure (\<lambda>(first, pc_value, p, pc, line_num). length p)") auto

declare find_line_loop.simps [simp del]

record function_debug =
  has_debug :: bool
  dbg_line_num :: i32
  pc2line_buf :: "u8 list option"
  pc2line_len :: nat

definition find_line_num :: "function_debug \<Rightarrow> u32 \<Rightarrow> i32 option" where
  "find_line_num b pc_value =
     (if \<not> has_debug b then Some (-1)
      else case pc2line_buf b of
        None \<Rightarrow> Some (-1)
      | Some buf \<Rightarrow> do {
          p \<leftarrow> rd_block buf 0 (pc2line_len b);
          find_line_loop (dbg_line_num b) pc_value p 0 (dbg_line_num b)
        })"

section \<open>From the parser to the function\<close>

text \<open>The start of the line numbers in \<open>resolve_labels\<close>: \<open>js_mallocz\<close> of the slots may fail.\<close>

definition init_line_numbers :: "bool \<Rightarrow> line_number_def \<Rightarrow> int \<times> line_number_def" where
  "init_line_numbers mem s =
     (if line_number_size s \<noteq> 0 \<and> \<not> ln_strip s then
        if mem then (0, s\<lparr>line_number_slots := Some (replicate (line_number_size s) (0, 0)),
                           line_number_last := fd_line_num s, line_number_last_pc := 0\<rparr>)
        else (-1, s)
      else (0, s))"

text \<open>The debug information \<open>js_create_function\<close> gives to the function that is not stripped.\<close>

definition create_debug :: "'o realloc_func \<Rightarrow> line_number_def \<Rightarrow> 'o dynbuf \<Rightarrow> function_debug option" where
  "create_debug ra fd buf = do {
     (b, st) \<leftarrow> ra (db_opaque buf) (db_buf buf) (db_size buf);
     Some \<lparr>has_debug = True, dbg_line_num = fd_line_num fd,
           pc2line_buf = (case b of None \<Rightarrow> db_buf buf | Some b \<Rightarrow> Some b), pc2line_len = db_size buf\<rparr>
   }"

section \<open>Numbers\<close>

text \<open>Appending to a buffer whose error flag sticks.\<close>

definition puts :: "'o dynbuf \<Rightarrow> u8 list \<Rightarrow> 'o dynbuf \<Rightarrow> bool" where
  "puts s d s' \<longleftrightarrow> dbuf_ok s' \<and> (\<not> db_error s' \<longrightarrow> \<not> db_error s \<and> dbuf_bytes s' = dbuf_bytes s @ d)"

lemma puts_trans: "puts s d s1 \<Longrightarrow> puts s1 e s2 \<Longrightarrow> puts s (d @ e) s2"
  by (auto simp: puts_def)

lemma puts_ok: "puts s d s' \<Longrightarrow> dbuf_ok s'"
  by (simp add: puts_def)

function leb_bytes :: "u32 \<Rightarrow> u8 list" where
  "leb_bytes v = (if drop_bit 7 v \<noteq> 0 then ucast ((v AND 0x7f) OR 0x80) # leb_bytes (drop_bit 7 v) else [ucast (v AND 0x7f)])"
  by pat_completeness auto
termination
  by (relation "measure unat") (auto simp: drop_7_less)

declare leb_bytes.simps [simp del]

definition zigzag :: "i32 \<Rightarrow> u32" where
  "zigzag v = (2 * v) XOR - drop_bit 31 v"

context byte_reallocator
begin

lemma dbuf_putc_puts:
  assumes "dbuf_ok s"
  shows "\<exists>r s'. dbuf_putc ra s c = Some (r, s') \<and> puts s [c] s'"
  using dbuf_put_spec [OF assms, of "[c]"] by (auto simp: dbuf_outcome_def dbuf_putc_def puts_def PTRDIFF_MAX_def)

lemma dbuf_put_leb128_puts:
  assumes "dbuf_ok s"
  shows "\<exists>s'. dbuf_put_leb128 ra s v = Some s' \<and> puts s (leb_bytes v) s'"
  using assms
proof (induction v arbitrary: s rule: leb_bytes.induct)
  case (1 v)
  show ?case
  proof (cases "drop_bit 7 v = 0")
    case True
    obtain r s1 where s1: "dbuf_putc ra s (ucast (v AND 0x7f)) = Some (r, s1)" "puts s [ucast (v AND 0x7f)] s1"
      using dbuf_putc_puts [OF "1.prems"] by blast
    with True show ?thesis by (subst dbuf_put_leb128.simps, subst leb_bytes.simps) (simp add: Let_def)
  next
    case False
    obtain r s1 where s1: "dbuf_putc ra s (ucast ((v AND 0x7f) OR 0x80)) = Some (r, s1)"
      "puts s [ucast ((v AND 0x7f) OR 0x80)] s1"
      using dbuf_putc_puts [OF "1.prems"] by blast
    obtain s2 where s2: "dbuf_put_leb128 ra s1 (drop_bit 7 v) = Some s2" "puts s1 (leb_bytes (drop_bit 7 v)) s2"
      using "1.IH" [OF False puts_ok [OF s1(2)]] by blast
    show ?thesis
      using False s1(1) s2(1) puts_trans [OF s1(2) s2(2)]
      by (subst dbuf_put_leb128.simps, subst leb_bytes.simps) (simp add: Let_def)
  qed
qed

lemma dbuf_put_sleb128_puts:
  "dbuf_ok s \<Longrightarrow> \<exists>s'. dbuf_put_sleb128 ra s v = Some s' \<and> puts s (leb_bytes (zigzag v)) s'"
  using dbuf_put_leb128_puts by (simp add: dbuf_put_sleb128_def zigzag_def)

end

lemma leb_step:
  "take_bit (i * 7) V OR push_bit (i * 7) (drop_bit (i * 7) V AND 0x7f) = take_bit ((i + 1) * 7) V" for V :: u32
proof -
  have mask: "(0x7f :: u32) = mask 7" by (simp add: mask_eq_exp_minus_1)
  show ?thesis
    unfolding mask
    by (rule bit_eqI) (auto simp: bit_take_bit_iff bit_or_iff bit_push_bit_iff bit_and_iff bit_drop_bit_eq bit_mask_iff)
qed

lemma low_byte_word: "ucast (ucast (v AND 0x7f) :: u8) = v AND (0x7f :: u32)" for v :: u32
proof -
  have mask: "(0x7f :: u32) = mask 7" by (simp add: mask_eq_exp_minus_1)
  show ?thesis unfolding mask by (rule bit_eqI) (auto simp: bit_ucast_iff bit_and_iff bit_mask_iff)
qed

lemma ucast_byte: "ucast (ucast x :: u8) = take_bit 8 x" for x :: u32
  by (rule bit_eqI) (auto simp: bit_ucast_iff bit_take_bit_iff)

lemma leb_high_byte: "ucast (ucast ((v AND 0x7f) OR 0x80) :: u8) = (v AND 0x7f) OR (0x80 :: u32)" for v :: u32
proof -
  have "take_bit 8 (v AND 0x7f) = v AND 0x7f"
    using low_byte_word [of v] by (simp add: ucast_byte del: take_bit_and)
  then show ?thesis by (simp add: ucast_byte del: take_bit_and)
qed

lemma leb_flags:
  "(v AND 0x7f) AND 0x80 = (0 :: u32)" "((v AND 0x7f) OR 0x80) AND 0x80 \<noteq> (0 :: u32)"
  "((v AND 0x7f) OR 0x80) AND 0x7f = v AND (0x7f :: u32)" "(v AND 0x7f) AND 0x7f = v AND (0x7f :: u32)"
proof -
  have n: "(0x7f AND 0x80 :: u32) = 0" "(0x80 AND 0x7f :: u32) = 0" "(0x80 AND 0x80 :: u32) = 0x80" "(0x7f AND 0x7f :: u32) = 0x7f"
    by simp_all
  show "(v AND 0x7f) AND 0x80 = (0 :: u32)" by (simp add: and.assoc)
  show "((v AND 0x7f) OR 0x80) AND 0x80 \<noteq> (0 :: u32)" by (simp add: bit.conj_disj_distrib2 and.assoc)
  show "((v AND 0x7f) OR 0x80) AND 0x7f = v AND (0x7f :: u32)" by (simp add: bit.conj_disj_distrib2 and.assoc)
  show "(v AND 0x7f) AND 0x7f = v AND (0x7f :: u32)" by (simp add: and.assoc)
qed

lemma get_leb128_loop_bytes:
  assumes "i < 5"
  shows "get_leb128_loop i (take_bit (i * 7) V) (leb_bytes (drop_bit (i * 7) V) @ rest) =
    (int (i + length (leb_bytes (drop_bit (i * 7) V))), V)"
  using assms
proof (induction "5 - i" arbitrary: i)
  case (Suc n)
  define W where "W = drop_bit (i * 7) V"
  have W7: "drop_bit 7 W = drop_bit ((i + 1) * 7) V" by (simp add: W_def algebra_simps)
  note step = leb_step [of i V, folded W_def]
  show ?case
  proof (cases "drop_bit 7 W = 0")
    case True
    have "take_bit ((i + 1) * 7) V = V" using True unfolding W7 by (simp only: take_bit_eq_self_iff_drop_bit_eq_0)
    with True step Suc.prems show ?thesis
      unfolding W_def [symmetric]
      by (subst get_leb128_loop.simps, subst (1 2) leb_bytes.simps) (simp add: Let_def low_byte_word leb_flags)
  next
    case False
    have "i + 1 < 5"
    proof (rule ccontr)
      assume "\<not> i + 1 < 5"
      then have "32 \<le> (i + 1) * 7" by simp
      then have "drop_bit ((i + 1) * 7) V = 0" by (intro bit_eqI) (auto simp: bit_drop_bit_eq dest!: bit_imp_le_length)
      with False W7 show False by simp
    qed
    moreover have "n = 5 - (i + 1)" using Suc.hyps(2) by simp
    ultimately have IH: "get_leb128_loop (i + 1) (take_bit ((i + 1) * 7) V) (leb_bytes (drop_bit 7 W) @ rest) =
        (int (i + 1 + length (leb_bytes (drop_bit 7 W))), V)"
      using Suc.hyps(1) [of "i + 1"] W7 by simp
    from False step Suc.prems IH show ?thesis
      unfolding W_def [symmetric]
      by (subst get_leb128_loop.simps, subst (1 2) leb_bytes.simps) (simp add: Let_def leb_high_byte leb_flags del: push_bit_and push_bit_or)
  qed
qed simp

lemma get_leb128_bytes: "get_leb128 (leb_bytes v @ rest) = (int (length (leb_bytes v)), v)"
  using get_leb128_loop_bytes [of 0 v rest] by (simp add: get_leb128_def)

lemma drop_bit_31: "drop_bit 31 v = of_bool (bit v 31)" for v :: u32
proof (rule bit_eqI)
  fix n
  show "bit (drop_bit 31 v) n = bit (of_bool (bit v 31) :: u32) n"
    by (cases n) (auto simp: bit_drop_bit_eq bit_1_iff dest!: bit_imp_le_length)
qed

lemma unzigzag: "drop_bit 1 (zigzag v) XOR - (zigzag v AND 1) = v"
proof -
  have odd: "zigzag v AND 1 = of_bool (bit v 31)"
    by (rule bit_eqI) (auto simp: zigzag_def drop_bit_31 bit_double_iff bit_simps)
  show ?thesis
    unfolding odd
  proof (rule bit_word_eqI)
    fix n
    assume "n < LENGTH(32)"
    then have "n < 31 \<or> n = 31" by simp arith
    then show "bit (drop_bit 1 (zigzag v) XOR - of_bool (bit v 31)) n = bit v n"
      by (rule disjE) (auto simp: zigzag_def drop_bit_31 bit_double_iff bit_simps)
  qed
qed

lemma get_sleb128_bytes: "get_sleb128 (leb_bytes (zigzag v) @ rest) = (int (length (leb_bytes (zigzag v))), v)"
  using unzigzag [of v] by (simp add: get_sleb128_def get_leb128_bytes)

section \<open>Entries\<close>

definition short_entry :: "u32 \<Rightarrow> i32 \<Rightarrow> bool" where
  "short_entry diff_pc diff_line \<longleftrightarrow>
     sint diff_line \<ge> PC2LINE_BASE \<and> sint diff_line < PC2LINE_BASE + PC2LINE_RANGE \<and> sint diff_pc \<le> PC2LINE_DIFF_PC_MAX"

definition short_code :: "u32 \<Rightarrow> i32 \<Rightarrow> int" where
  "short_code diff_pc diff_line = (sint diff_line - PC2LINE_BASE) + sint diff_pc * PC2LINE_RANGE + PC2LINE_OP_FIRST"

definition entry_bytes :: "u32 \<Rightarrow> i32 \<Rightarrow> u8 list" where
  "entry_bytes diff_pc diff_line =
     (if short_entry diff_pc diff_line then [word_of_int (short_code diff_pc diff_line)]
      else 0 # leb_bytes diff_pc @ leb_bytes (zigzag diff_line))"

lemmas pc2line_consts = PC2LINE_BASE_def PC2LINE_RANGE_def PC2LINE_OP_FIRST_def PC2LINE_DIFF_PC_MAX_def

lemma uint_of_int: "0 \<le> k \<Longrightarrow> k < 2 ^ 32 \<Longrightarrow> uint (word_of_int k :: u32) = k"
  by (simp add: uint_word_of_int)

lemma digit_div_mod: "0 \<le> a \<Longrightarrow> a < 5 \<Longrightarrow> (a + b * 5) div 5 = b \<and> (a + b * 5) mod 5 = a" for a b :: int
  by simp

lemma short_decode:
  assumes "short_entry dp dl" "0 \<le> sint dp"
  defines "op \<equiv> ucast (word_of_int (short_code dp dl) :: u8) - word_of_int PC2LINE_OP_FIRST :: u32"
  shows "(word_of_int (short_code dp dl) :: u8) \<noteq> 0" "op div word_of_int PC2LINE_RANGE = dp"
    "op mod word_of_int PC2LINE_RANGE + word_of_int PC2LINE_BASE = dl"
proof -
  define k where "k = short_code dp dl"
  have k: "k = sint dl + 1 + sint dp * 5 + 1" "0 \<le> sint dl + 1" "sint dl + 1 < 5" "sint dp \<le> 50"
    using assms(1) by (simp_all add: k_def short_code_def short_entry_def pc2line_consts)
  have b: "1 \<le> k" "k \<le> 255" using k assms(2) by linarith+
  have uk: "uint (word_of_int k :: u8) = k" using b by (simp add: uint_word_of_int)
  then show "(word_of_int (short_code dp dl) :: u8) \<noteq> 0" using b(1) unfolding k_def [symmetric] by auto
  have op: "op = word_of_int (k - 1)"
    by (rule word_uint_eqI) (use b uk in \<open>simp add: op_def k_def [symmetric] pc2line_consts uint_sub_lem uint_word_of_int uint_up_ucast is_up word_less_def uint_sub_if'\<close>)
  have uop: "uint op = k - 1" using b unfolding op by (intro uint_of_int) auto
  have dv: "(k - 1) div 5 = sint dp" "(k - 1) mod 5 = sint dl + 1"
    using digit_div_mod [OF k(2,3), of "sint dp"] k(1) by (simp_all add: algebra_simps)
  have "uint dp = sint dp" using uint_of_int [of "sint dp"] assms(2) k(4) by simp
  then show "op div word_of_int PC2LINE_RANGE = dp"
    by (intro word_uint_eqI) (use uop dv in \<open>simp add: uint_div pc2line_consts uint_word_of_int\<close>)
  have "uint (op mod word_of_int PC2LINE_RANGE) = sint dl + 1"
    using uop dv by (simp add: uint_mod pc2line_consts)
  then have "op mod word_of_int PC2LINE_RANGE = word_of_int (sint dl + 1)" by (metis word_of_int_uint)
  then show "op mod word_of_int PC2LINE_RANGE + word_of_int PC2LINE_BASE = dl"
    by (simp add: pc2line_consts)
qed

text \<open>Decoding an entry is adding the differences.\<close>

lemma find_line_entry:
  assumes "0 \<le> sint dp" "signed_add l dl = Some l'"
  shows "find_line_loop first v (entry_bytes dp dl @ rest) pc l =
    (if v < pc + dp then Some l else find_line_loop first v rest (pc + dp) l')"
proof (cases "short_entry dp dl")
  case True
  note dec = short_decode [OF True assms(1)]
  have l': "l' = l + dl" using assms(2) by (simp add: signed_add_def split: if_splits)
  have "l + (x + y) = l + x + y" for x y by (simp add: add.assoc)
  then show ?thesis
    using dec True unfolding l' entry_bytes_def
    by (subst find_line_loop.simps) (simp add: Let_def add.assoc)
next
  case False
  have "get_leb128 (leb_bytes dp @ leb_bytes (zigzag dl) @ rest) = (int (length (leb_bytes dp)), dp)"
    by (rule get_leb128_bytes)
  with False assms(2) show ?thesis
    unfolding entry_bytes_def by (subst find_line_loop.simps) (simp add: Let_def get_sleb128_bytes)
qed

lemma signed_add_sub: "signed_sub a b = Some d \<Longrightarrow> signed_add b d = Some a"
proof -
  assume "signed_sub a b = Some d"
  then have b: "- (2 ^ 31) \<le> sint a - sint b" "sint a - sint b < 2 ^ 31" "d = a - b"
    by (auto simp: signed_sub_def split: if_splits)
  have "sint d = sint a - sint b"
    unfolding b(3) using b(1,2) signed_take_bit_int_eq_self [of 31 "sint a - sint b"] by (simp add: sint_word_ariths)
  moreover have "- (2 ^ 31) \<le> sint a" "sint a < 2 ^ 31" using sint_ge [of a] sint_lt [of a] by simp_all
  ultimately show "signed_add b d = Some a" unfolding signed_add_def b(3) by simp
qed

section \<open>Tables\<close>

text \<open>The line of position v: the last one recorded at or before v; negative line numbers do not count.\<close>

fun line_at :: "(u32 \<times> i32) list \<Rightarrow> u32 \<Rightarrow> i32 \<Rightarrow> i32" where
  "line_at [] v l = l"
| "line_at ((pc, line_num) # calls) v l = line_at calls v (if 0 \<le> sint line_num \<and> pc \<le> v then line_num else l)"

lemma line_at_later: "\<forall>(pc, n)\<in>set calls. v < pc \<Longrightarrow> line_at calls v l = l"
  by (induction calls v l rule: line_at.induct) auto

definition ascending :: "u32 \<Rightarrow> (u32 \<times> i32) list \<Rightarrow> bool" where
  "ascending last_pc calls \<longleftrightarrow> sorted_wrt (\<le>) (last_pc # map fst calls) \<and> (\<forall>(pc, n)\<in>set calls. pc < 2 ^ 31)"

lemma ascending_Cons:
  "ascending last_pc ((pc, n) # calls) \<Longrightarrow> last_pc \<le> pc \<and> pc < 2 ^ 31 \<and> ascending pc calls \<and> ascending last_pc calls"
  by (auto simp: ascending_def)

lemma ascending_later: "ascending pc calls \<Longrightarrow> v < pc \<Longrightarrow> line_at calls v l = l"
  by (rule line_at_later) (force simp: ascending_def)

lemma put_pc2line_entry:
  assumes "0 \<le> sint n" "signed_sub n l = Some d" "d \<noteq> 0" "0 \<le> sint (pc - last_pc)"
  shows "put_pc2line ra (pc, n) (last_pc, l, s) =
    (if short_entry (pc - last_pc) d
     then map_option (\<lambda>(r, s). (pc, n, s)) (dbuf_putc ra s (word_of_int (short_code (pc - last_pc) d)))
     else do {
       (r, s) \<leftarrow> dbuf_putc ra s 0;
       s \<leftarrow> dbuf_put_leb128 ra s (pc - last_pc);
       s \<leftarrow> dbuf_put_sleb128 ra s d;
       Some (pc, n, s)
     })"
proof -
  have "dbuf_putc ra s c \<bind> (\<lambda>(r, s). Some s) \<bind> (\<lambda>s. Some (pc, n, s)) =
      map_option (\<lambda>(r, s). (pc, n, s)) (dbuf_putc ra s c)" for c
    by (cases "dbuf_putc ra s c") auto
  then show ?thesis
    using assms unfolding put_pc2line_def short_entry_def short_code_def by (simp add: Let_def split_def)
qed

lemma diff_nonneg: "a \<le> b \<Longrightarrow> b < 2 ^ 31 \<Longrightarrow> 0 \<le> sint (b - a)" for a b :: u32
proof -
  assume "a \<le> b" "b < 2 ^ 31"
  then have "uint (b - a) < 2 ^ 31" by (simp add: uint_minus_simple_alt [THEN iffD1] word_less_def)
      (metis diff_ge_0_iff_ge order.strict_trans1 uint_0_iff word_le_def add_increasing2 diff_add_cancel le_add_same_cancel1 uint_ge_0)
  then have "signed_take_bit 31 (uint (b - a)) = uint (b - a)" by (intro signed_take_bit_int_eq_self) (auto intro: order_trans [OF _ uint_ge_0])
  moreover have "sint (b - a) = signed_take_bit 31 (uint (b - a))" by (simp add: sint_uint)
  ultimately show ?thesis by (metis uint_ge_0)
qed

context byte_reallocator
begin

lemma put_entry:
  assumes "dbuf_ok s" "0 \<le> sint n" "0 \<le> sint l" "n \<noteq> l" "0 \<le> sint (pc - last_pc)"
  shows "\<exists>s'. put_pc2line ra (pc, n) (last_pc, l, s) = Some (pc, n, s') \<and> puts s (entry_bytes (pc - last_pc) (n - l)) s'"
proof -
  have sub: "signed_sub n l = Some (n - l)" using assms(2,3) sint_lt [of n] sint_lt [of l] by (simp add: signed_sub_def)
  have "n - l \<noteq> 0" using assms(4) by simp
  note step = put_pc2line_entry [OF assms(2) sub this assms(5)]
  show ?thesis
  proof (cases "short_entry (pc - last_pc) (n - l)")
    case True
    obtain r s' where s': "dbuf_putc ra s (word_of_int (short_code (pc - last_pc) (n - l))) = Some (r, s')"
      "puts s [word_of_int (short_code (pc - last_pc) (n - l))] s'"
      using dbuf_putc_puts [OF assms(1)] by blast
    with True show ?thesis unfolding step by (simp add: entry_bytes_def)
  next
    case False
    obtain r s1 where s1: "dbuf_putc ra s 0 = Some (r, s1)" "puts s [0] s1" using dbuf_putc_puts [OF assms(1)] by blast
    obtain s2 where s2: "dbuf_put_leb128 ra s1 (pc - last_pc) = Some s2" "puts s1 (leb_bytes (pc - last_pc)) s2"
      using dbuf_put_leb128_puts [OF puts_ok [OF s1(2)]] by blast
    obtain s3 where s3: "dbuf_put_sleb128 ra s2 (n - l) = Some s3" "puts s2 (leb_bytes (zigzag (n - l))) s3"
      using dbuf_put_sleb128_puts [OF puts_ok [OF s2(2)]] by blast
    have "puts s (0 # leb_bytes (pc - last_pc) @ leb_bytes (zigzag (n - l))) s3"
      using puts_trans [OF s1(2) puts_trans [OF s2(2) s3(2)]] by simp
    with False s1(1) s2(1) s3(1) show ?thesis unfolding step by (simp add: entry_bytes_def)
  qed
qed

lemma put_pc2lines_find:
  assumes "dbuf_ok s" "ascending last_pc slots" "0 \<le> sint l"
  shows "\<exists>lp ll s' bs. put_pc2lines ra slots (last_pc, l, s) = Some (lp, ll, s') \<and> puts s bs s' \<and>
    (\<forall>v. find_line_loop first v bs last_pc l = Some (line_at slots v l)) \<and>
    (bs = [] \<longleftrightarrow> (\<forall>(pc, n)\<in>set slots. sint n < 0 \<or> n = l)) \<and> (bs = [] \<longrightarrow> s' = s)"
  using assms
proof (induction slots arbitrary: last_pc l s)
  case Nil
  then show ?case by (auto simp: puts_def intro!: exI [of _ "[]"]) (simp_all add: find_line_loop.simps)
next
  case (Cons slot slots)
  obtain pc n where slot: "slot = (pc, n)" by (cases slot)
  note asc = ascending_Cons [OF Cons.prems(2) [unfolded slot]]
  show ?case
  proof (cases "sint n < 0 \<or> n = l")
    case True
    have "put_pc2line ra slot (last_pc, l, s) = Some (last_pc, l, s)"
      using True Cons.prems(3) by (auto simp: slot put_pc2line_def signed_sub_def Let_def)
    moreover have "line_at (slot # slots) v l = line_at slots v l" for v using True by (auto simp: slot)
    ultimately show ?thesis using Cons.IH [of s last_pc l] Cons.prems asc True by (simp add: slot)
  next
    case False
    have dp: "0 \<le> sint (pc - last_pc)" using asc diff_nonneg by blast
    obtain s1 where s1: "put_pc2line ra slot (last_pc, l, s) = Some (pc, n, s1)" "puts s (entry_bytes (pc - last_pc) (n - l)) s1"
      using put_entry [OF Cons.prems(1) _ Cons.prems(3) _ dp, of n] False by (auto simp: slot)
    obtain lp ll s2 bs where s2: "put_pc2lines ra slots (pc, n, s1) = Some (lp, ll, s2)" "puts s1 bs s2"
      "\<forall>v. find_line_loop first v bs pc n = Some (line_at slots v n)"
      using Cons.IH [OF puts_ok [OF s1(2)], of pc n] asc False by auto
    have "signed_sub n l = Some (n - l)"
      using False Cons.prems(3) sint_lt [of n] sint_lt [of l] by (simp add: signed_sub_def)
    then have add: "signed_add l (n - l) = Some n" by (rule signed_add_sub)
    have "find_line_loop first v (entry_bytes (pc - last_pc) (n - l) @ bs) last_pc l = Some (line_at (slot # slots) v l)" for v
      using find_line_entry [OF dp add, of first v bs last_pc] s2(3) False asc ascending_later [of pc slots v l]
      by (auto simp: slot not_le not_less)
    moreover have "entry_bytes (pc - last_pc) (n - l) \<noteq> []" by (simp add: entry_bytes_def)
    ultimately show ?thesis
      using s1(1) s2(1) puts_trans [OF s1(2) s2(2)] False
      by (intro exI [of _ lp] exI [of _ ll] exI [of _ s2] exI [of _ "entry_bytes (pc - last_pc) (n - l) @ bs"]) (simp add: slot)
  qed
qed

end

section \<open>What the table records\<close>

text \<open>The pairs \<open>resolve_labels\<close> records one after the other.\<close>

fun add_pc2line_infos :: "line_number_def \<Rightarrow> (u32 \<times> i32) list \<Rightarrow> line_number_def option" where
  "add_pc2line_infos s [] = Some s"
| "add_pc2line_infos s ((pc, line_num) # calls) = do {
     s \<leftarrow> add_pc2line_info s pc line_num;
     add_pc2line_infos s calls
   }"

fun recorded :: "i32 \<Rightarrow> (u32 \<times> i32) list \<Rightarrow> (u32 \<times> i32) list" where
  "recorded prev [] = []"
| "recorded prev ((pc, n) # calls) = (if n \<noteq> prev then (pc, n) # recorded n calls else recorded prev calls)"

lemma recorded_subset: "set (recorded prev calls) \<subseteq> set calls"
  by (induction prev calls rule: recorded.induct) auto

lemma recorded_length: "length (recorded prev calls) \<le> length calls"
  by (induction prev calls rule: recorded.induct) auto

lemma ascending_recorded: "ascending last_pc calls \<Longrightarrow> ascending last_pc (recorded prev calls)"
proof (induction prev calls arbitrary: last_pc rule: recorded.induct)
  case (2 prev pc n calls)
  note asc = ascending_Cons [OF "2.prems"]
  show ?case
  proof (cases "n = prev")
    case True
    then show ?thesis using "2.IH"(2) asc by simp
  next
    case False
    then have "ascending pc (recorded n calls)" using "2.IH"(1) asc by blast
    with False asc show ?thesis by (force simp: ascending_def)
  qed
qed simp

lemma line_at_recorded:
  assumes "ascending last_pc calls" "0 \<le> sint prev \<longrightarrow> l = prev \<or> (\<forall>(pc, n)\<in>set calls. v < pc)"
  shows "line_at (recorded prev calls) v l = line_at calls v l"
  using assms
proof (induction prev calls arbitrary: last_pc l rule: recorded.induct)
  case (2 prev pc n calls)
  note asc = ascending_Cons [OF "2.prems"(1)]
  show ?case
  proof (cases "n = prev")
    case True
    then have "(if 0 \<le> sint n \<and> pc \<le> v then n else l) = l" using "2.prems"(2) by auto
    moreover have "line_at (recorded prev calls) v l = line_at calls v l"
      using "2.IH"(2) [of last_pc l] True asc "2.prems"(2) by auto
    ultimately show ?thesis using True by (auto split: if_splits)
  next
    case False
    define l' where "l' = (if 0 \<le> sint n \<and> pc \<le> v then n else l)"
    have "v < pc \<Longrightarrow> \<forall>(q, n)\<in>set calls. v < q" using asc by (force simp: ascending_def)
    then have "0 \<le> sint n \<longrightarrow> l' = n \<or> (\<forall>(q, n)\<in>set calls. v < q)" by (auto simp: l'_def not_le)
    then have "line_at (recorded n calls) v l' = line_at calls v l'"
      using "2.IH"(1) [of pc l'] False asc by blast
    with False show ?thesis by (simp add: l'_def)
  qed
qed simp

lemma add_pc2line_infos_recorded:
  assumes "line_number_slots s = Some slots" "line_number_count s + length calls \<le> line_number_size s"
    and "line_number_size s = length slots" "ascending (line_number_last_pc s) calls"
  shows "\<exists>s' slots'. add_pc2line_infos s calls = Some s' \<and> line_number_slots s' = Some slots' \<and> length slots' = length slots \<and>
    line_number_count s' = line_number_count s + length (recorded (line_number_last s) calls) \<and>
    take (line_number_count s') slots' = take (line_number_count s) slots @ recorded (line_number_last s) calls \<and>
    fd_line_num s' = fd_line_num s \<and> ln_strip s' = ln_strip s"
  using assms
proof (induction calls arbitrary: s slots)
  case (Cons call calls)
  obtain pc n where call: "call = (pc, n)" by (cases call)
  note asc = ascending_Cons [OF Cons.prems(4) [unfolded call]]
  show ?case
  proof (cases "n = line_number_last s")
    case True
    then have "add_pc2line_info s pc n = Some s" using Cons.prems(1) by (simp add: add_pc2line_info_def)
    with True Cons.IH [of s slots] Cons.prems asc show ?thesis by (auto simp: call)
  next
    case False
    define s1 where "s1 = s\<lparr>line_number_slots := Some (slots[line_number_count s := (pc, n)]),
        line_number_count := line_number_count s + 1, line_number_last_pc := pc, line_number_last := n\<rparr>"
    have "add_pc2line_info s pc n = Some s1"
      using False Cons.prems asc by (simp add: add_pc2line_info_def s1_def wr_def)
    moreover have "take (Suc (line_number_count s)) (slots[line_number_count s := (pc, n)]) =
        take (line_number_count s) slots @ [(pc, n)]"
      using Cons.prems(2,3) by (simp add: take_Suc_conv_app_nth)
    ultimately show ?thesis
      using False Cons.IH [of s1 "slots[line_number_count s := (pc, n)]"] Cons.prems asc by (simp add: call s1_def)
  qed
qed auto

lemma recorded_lines: "insert prev (snd ` set (recorded prev calls)) = insert prev (snd ` set calls)"
  by (induction prev calls rule: recorded.induct) auto

lemma recorded_all:
  assumes "P prev"
  shows "(\<forall>x\<in>set (recorded prev calls). P (snd x)) \<longleftrightarrow> (\<forall>x\<in>set calls. P (snd x))"
proof -
  have "(\<forall>n\<in>insert prev (snd ` set (recorded prev calls)). P n) \<longleftrightarrow> (\<forall>n\<in>insert prev (snd ` set calls). P n)"
    unfolding recorded_lines ..
  with assms show ?thesis by simp
qed

text \<open>The debug information of a function finds the bytes of the buffer again.\<close>

lemma create_debug_bytes:
  assumes "dbuf_ok buf"
  shows "\<exists>b. create_debug (js_def_realloc env (Suc 0)) fd buf = Some b \<and> has_debug b \<and> dbg_line_num b = fd_line_num fd \<and>
    pc2line_len b = db_size buf \<and> (pc2line_buf b = None \<longleftrightarrow> db_buf buf = None) \<and>
    (\<forall>p. pc2line_buf b = Some p \<longrightarrow> rd_block p 0 (db_size buf) = Some (dbuf_bytes buf))"
proof (cases "db_buf buf")
  case None
  with assms have "db_size buf = 0" by (auto simp: dbuf_ok_def)
  with None show ?thesis by (simp add: create_debug_def js_def_realloc_def)
next
  case (Some old)
  obtain new st where r: "js_def_realloc env (Suc 0) (db_opaque buf) (Some old) (db_size buf) = Some (new, st)"
    using js_def_realloc_total [of env "Suc 0" "db_opaque buf" "Some old" "db_size buf"] by auto
  have len: "db_size buf \<le> length old" using assms Some by (simp add: dbuf_ok_def)
  have "rd_block p 0 (db_size buf) = Some (take (db_size buf) old)" if "new = Some p" for p
  proof (cases "db_size buf = 0")
    case False
    then have "length p = db_size buf" "take (db_size buf) p = take (db_size buf) old"
      using js_bytes.ra_bytes(1) [OF r [unfolded that]] js_bytes.ra_bytes(2) [OF r [unfolded that], of "db_size buf"] len by simp_all
    then show ?thesis by (simp add: rd_block_def)
  qed (simp add: rd_block_def)
  then show ?thesis
    using Some r len by (cases new) (simp_all add: create_debug_def dbuf_bytes_def rd_block_def)
qed

section \<open>The line of a position\<close>

text \<open>From the calls of \<open>add_pc2line_info\<close> to the debug information, the state of the buffer included.\<close>

definition line_table ::
  "'o realloc_func \<Rightarrow> 'o \<Rightarrow> i32 \<Rightarrow> nat \<Rightarrow> (u32 \<times> i32) list \<Rightarrow> (bool \<times> function_debug) option" where
  "line_table ra st line_num slots_n calls = do {
     let (r, fd) = init_line_numbers True \<lparr>ln_strip = False, line_number_slots = None, line_number_size = slots_n,
       line_number_count = 0, line_number_last = 0, line_number_last_pc = 0, fd_line_num = line_num\<rparr>;
     fd \<leftarrow> add_pc2line_infos fd calls;
     buf \<leftarrow> compute_pc2line_info ra st fd;
     buf \<leftarrow> buf;
     b \<leftarrow> create_debug ra fd buf;
     Some (db_error buf, b)
   }"

lemma line_table_lookup:
  assumes "ascending 0 calls" "length calls \<le> slots_n" "0 < slots_n" "0 \<le> sint line_num"
  shows "\<exists>err b. line_table (js_def_realloc env (Suc 0)) st line_num slots_n calls = Some (err, b) \<and>
    (err \<or> (\<forall>pc. find_line_num b pc =
       Some (if \<forall>(pc, n)\<in>set calls. sint n < 0 \<or> n = line_num then -1 else line_at calls pc line_num)))"
proof -
  define slots0 :: "(u32 \<times> i32) list" where "slots0 = replicate slots_n (0, 0)"
  define fd0 where "fd0 = \<lparr>ln_strip = False, line_number_slots = Some slots0, line_number_size = slots_n,
       line_number_count = 0, line_number_last = line_num, line_number_last_pc = 0, fd_line_num = line_num\<rparr>"
  have init: "init_line_numbers True \<lparr>ln_strip = False, line_number_slots = None, line_number_size = slots_n,
       line_number_count = 0, line_number_last = 0, line_number_last_pc = 0, fd_line_num = line_num\<rparr> = (0, fd0)"
    using assms(3) by (simp add: init_line_numbers_def fd0_def slots0_def)
  define slots where "slots = recorded line_num calls"
  obtain fd sl where fd: "add_pc2line_infos fd0 calls = Some fd" "line_number_slots fd = Some sl" "length sl = slots_n"
    "line_number_count fd = length slots" "take (line_number_count fd) sl = slots" "fd_line_num fd = line_num" "\<not> ln_strip fd"
  proof -
    have "line_number_slots fd0 = Some slots0" "line_number_count fd0 + length calls \<le> line_number_size fd0"
      "line_number_size fd0 = length slots0" "ascending (line_number_last_pc fd0) calls"
      using assms(1,2) by (simp_all add: fd0_def slots0_def)
    from add_pc2line_infos_recorded [OF this] obtain fd sl where r: "add_pc2line_infos fd0 calls = Some fd"
      "line_number_slots fd = Some sl" "length sl = length slots0"
      "line_number_count fd = line_number_count fd0 + length (recorded (line_number_last fd0) calls)"
      "take (line_number_count fd) sl = take (line_number_count fd0) slots0 @ recorded (line_number_last fd0) calls"
      "fd_line_num fd = fd_line_num fd0" "ln_strip fd = ln_strip fd0" by blast
    have f0: "line_number_count fd0 = 0" "line_number_last fd0 = line_num" "fd_line_num fd0 = line_num" "\<not> ln_strip fd0"
      by (simp_all add: fd0_def)
    show ?thesis using that [of fd sl] r unfolding f0 by (simp add: slots_def slots0_def f0)
  qed
  have asc: "ascending 0 slots" using ascending_recorded [OF assms(1)] by (simp add: slots_def)
  have "rd_block sl 0 (line_number_count fd) = Some slots"
    using fd(3-5) recorded_length [of line_num calls] assms(2) by (simp add: rd_block_def slots_def)
  moreover obtain lp ll buf bs where buf: "put_pc2lines (js_def_realloc env (Suc 0)) slots (0, line_num, dbuf_init2 st) = Some (lp, ll, buf)"
    "puts (dbuf_init2 st) bs buf" "\<forall>v. find_line_loop line_num v bs 0 line_num = Some (line_at slots v line_num)"
    "bs = [] \<longleftrightarrow> (\<forall>(pc, n)\<in>set slots. sint n < 0 \<or> n = line_num)" "bs = [] \<longrightarrow> buf = dbuf_init2 st"
    using js_bytes.put_pc2lines_find [where first = line_num and env = env, OF dbuf_init2_ok(1) asc assms(4), of st] by blast
  ultimately have compute: "compute_pc2line_info (js_def_realloc env (Suc 0)) st fd = Some (Some buf)"
    using fd by (simp add: compute_pc2line_info_def)
  obtain b where b: "create_debug (js_def_realloc env (Suc 0)) fd buf = Some b" "has_debug b" "dbg_line_num b = line_num"
    "pc2line_len b = db_size buf" "pc2line_buf b = None \<longleftrightarrow> db_buf buf = None"
    "\<forall>p. pc2line_buf b = Some p \<longrightarrow> rd_block p 0 (db_size buf) = Some (dbuf_bytes buf)"
    using create_debug_bytes [OF puts_ok [OF buf(2)], of env fd] fd(6) by auto
  have empty: "bs = [] \<longleftrightarrow> (\<forall>(pc, n)\<in>set calls. sint n < 0 \<or> n = line_num)"
    using buf(4) recorded_all [of "\<lambda>n. sint n < 0 \<or> n = line_num" line_num calls] unfolding slots_def by (simp add: split_def)
  have "find_line_num b pc =
       Some (if \<forall>(pc, n)\<in>set calls. sint n < 0 \<or> n = line_num then -1 else line_at calls pc line_num)" if ok: "\<not> db_error buf" for pc
  proof (cases "bs = []")
    case True
    then have "pc2line_buf b = None" using buf(5) b(5) by (simp add: dbuf_init2_def)
    with True b(2) empty show ?thesis by (simp add: find_line_num_def)
  next
    case False
    have bytes: "dbuf_bytes buf = bs" using buf(2) ok by (simp add: puts_def)
    then have "db_buf buf \<noteq> None" using False by (cases "db_buf buf") (auto simp: dbuf_bytes_def)
    then obtain p where "pc2line_buf b = Some p" using b(5) by (cases "pc2line_buf b") simp_all
    moreover have "line_at slots pc line_num = line_at calls pc line_num"
      unfolding slots_def by (rule line_at_recorded [OF assms(1)]) simp
    moreover have "\<not> (\<forall>(pc, n)\<in>set calls. sint n < 0 \<or> n = line_num)" using False empty by simp
    ultimately show ?thesis
      using b(2,3,4,6) bytes buf(3) by (subst if_not_P) (assumption, simp add: find_line_num_def)
  qed
  moreover have "line_table (js_def_realloc env (Suc 0)) st line_num slots_n calls = Some (db_error buf, b)"
    using init fd(1) compute b(1) by (simp add: line_table_def)
  ultimately show ?thesis by blast
qed

text \<open>
  C23: The line of a position survives its encoding. The positions and lines that \<open>resolve_labels\<close> records in ascending order
  are encoded by \<open>compute_pc2line_info\<close>; unless memory ran out while the bytes were written, \<open>find_line_num\<close> answers for every
  position the line recorded last at or before it, and the line of the function before the first. The exception: a
  function all of whose lines are its first line has an empty table and gets the answer -1, meant for stripped functions.
\<close>

theorem find_line_num_recorded:
  assumes "ascending 0 calls" "length calls \<le> slots_n" "0 < slots_n" "0 \<le> sint line_num"
  shows "\<exists>err b. line_table (js_def_realloc env 1) st line_num slots_n calls = Some (err, b) \<and>
    (err \<or> (\<forall>pc. find_line_num b pc =
       Some (if \<forall>(pc, n)\<in>set calls. sint n < 0 \<or> n = line_num then -1 else line_at calls pc line_num)))"
  using line_table_lookup [OF assms, of env st] by simp

text \<open>A short entry, one with a big step of the position and one back to an earlier line.\<close>

theorem find_line_num_recorded_witness:
  "let env = \<lparr>lc_avail = (\<lambda>n. True), lc_usable = id, lc_junk = (\<lambda>i. 0)\<rparr>;
       st = \<lparr>malloc_count = 0, malloc_size = 0, malloc_limit = 1000\<rparr>;
       calls = [(0, 10), (3, 12), (200, 13), (210, 5)] in
   \<exists>err b. line_table (js_def_realloc env 1) st 10 8 calls = Some (err, b) \<and>
     (err \<or> find_line_num b 199 = Some 12 \<and> find_line_num b 300 = Some 5)"
proof -
  let ?env = "\<lparr>lc_avail = (\<lambda>n. True), lc_usable = id, lc_junk = (\<lambda>i. 0)\<rparr>"
  let ?st = "\<lparr>malloc_count = 0, malloc_size = 0, malloc_limit = 1000\<rparr>"
  let ?calls = "[(0, 10), (3, 12), (200, 13), (210, 5)] :: (u32 \<times> i32) list"
  have "ascending 0 ?calls" by (simp add: ascending_def)
  then obtain err b where b: "line_table (js_def_realloc ?env 1) ?st 10 8 ?calls = Some (err, b)"
    "err \<or> (\<forall>pc. find_line_num b pc =
       Some (if \<forall>(pc, n)\<in>set ?calls. sint n < 0 \<or> n = 10 then -1 else line_at ?calls pc 10))"
    using find_line_num_recorded [of ?calls 8 10 ?env ?st] by auto
  have "find_line_num b 199 = Some 12 \<and> find_line_num b 300 = Some 5" if "\<not> err"
    using b(2) that by simp
  with b(1) show ?thesis unfolding Let_def by blast
qed

end
