(* ===== verification/Shape.thy ===== *)
theory Shape
  imports Gc_Heap
begin

text \<open>
  Shapes, quickjs.c: the hidden classes that objects with the same properties share. A shape holds the names and flags
  of the properties in order of creation, with a hash table of chains of indices; the runtime has a hash table
  of the shapes that may be shared. An object has a pointer to its shape and the array of its property values.

  Shapes and objects are the cells of two maps from addresses, with 0 as NULL; an access to an address that is not
  allocated is \<open>None\<close>. Uninitialised cells of an array are \<open>None\<close> cells. What happens to the references a
  shape or a property holds is the trace \<open>rt_events\<close>: counting them is the business of the values and atoms
  themselves. \<open>mem\<close> decides each allocation: an address, or failure.
\<close>

section \<open>State\<close>

record shape_prop =
  pr_hash_next :: nat
  pr_flags :: u8
  pr_atom :: u32

record shape =
  ss_ref_count :: int
  ss_is_hashed :: bool
  ss_has_small_array_index :: bool
  ss_hash :: u32
  ss_prop_hash_mask :: u32
  ss_prop_hash :: "nat list"
  ss_prop_size :: nat
  ss_prop_count :: nat
  ss_deleted_prop_count :: nat
  ss_shape_hash_next :: nat
  ss_proto :: nat
  ss_prop :: "shape_prop option list"

record shaped_object =
  so_shape :: nat
  so_prop :: "js_property option list"

datatype ref_event =
    Dup_atom u32
  | Free_atom u32
  | Dup_value js_value
  | Free_value js_value
  | Free_var_ref nat
  | Free_context nat
  | Throw_out_of_memory
  | Throw_type_error

record shape_rt =
  rt_shapes :: "nat \<Rightarrow> shape option"
  rt_objects :: "nat \<Rightarrow> shaped_object option"
  shape_hash_bits :: nat
  shape_hash_size :: nat
  shape_hash_count :: int
  rt_shape_hash :: "nat list"
  rt_gc_objs :: "nat list"
  rt_events :: "ref_event list"

type_synonym shape_mem = "shape_rt \<Rightarrow> nat \<Rightarrow> nat option"

definition get_sh :: "shape_rt \<Rightarrow> nat \<Rightarrow> shape option" where
  "get_sh rt a = (if a = 0 then None else rt_shapes rt a)"

definition get_ob :: "shape_rt \<Rightarrow> nat \<Rightarrow> shaped_object option" where
  "get_ob rt p = (if p = 0 then None else rt_objects rt p)"

definition set_sh :: "nat \<Rightarrow> shape option \<Rightarrow> shape_rt \<Rightarrow> shape_rt" where
  "set_sh a s rt = rt\<lparr>rt_shapes := (rt_shapes rt)(a := s)\<rparr>"

definition set_ob :: "nat \<Rightarrow> shaped_object \<Rightarrow> shape_rt \<Rightarrow> shape_rt" where
  "set_ob p ob rt = rt\<lparr>rt_objects := (rt_objects rt)(p := Some ob)\<rparr>"

definition event :: "ref_event \<Rightarrow> shape_rt \<Rightarrow> shape_rt" where
  "event e rt = rt\<lparr>rt_events := rt_events rt @ [e]\<rparr>"

definition js_malloc :: "shape_mem \<Rightarrow> nat \<Rightarrow> shape_rt \<Rightarrow> nat option \<times> shape_rt" where
  "js_malloc mem n rt =
     (case mem rt n of None \<Rightarrow> (None, event Throw_out_of_memory rt) | Some a \<Rightarrow> (Some a, rt))"

definition add_gc_object :: "nat \<Rightarrow> shape_rt \<Rightarrow> shape_rt" where
  "add_gc_object a rt = rt\<lparr>rt_gc_objs := rt_gc_objs rt @ [a]\<rparr>"

definition remove_gc_object :: "nat \<Rightarrow> shape_rt \<Rightarrow> shape_rt option" where
  "remove_gc_object a rt = do {
     c_assert (a \<in> set (rt_gc_objs rt));
     Some (rt\<lparr>rt_gc_objs := remove1 a (rt_gc_objs rt)\<rparr>)
   }"

definition JS_PROP_INITIAL_SIZE :: nat where "JS_PROP_INITIAL_SIZE = 2"
definition JS_PROP_INITIAL_HASH_SIZE :: nat where "JS_PROP_INITIAL_HASH_SIZE = 4"
definition JS_PROP_CONFIGURABLE :: u8 where "JS_PROP_CONFIGURABLE = 1"
definition JS_PROP_C_W_E :: u8 where "JS_PROP_C_W_E = 7"
definition JS_ATOM_TAG_INT :: u32 where "JS_ATOM_TAG_INT = 0x80000000"
definition JS_UNDEFINED :: js_value where "JS_UNDEFINED = \<lparr>v_tag = JS_TAG_UNDEFINED, v_ptr = 0\<rparr>"

definition AtomIsTaggedInt :: "u32 \<Rightarrow> bool" where
  "AtomIsTaggedInt v \<longleftrightarrow> v AND JS_ATOM_TAG_INT \<noteq> 0"

definition get_shape_size :: "nat \<Rightarrow> nat \<Rightarrow> nat" where
  "get_shape_size hash_size prop_size = hash_size * 4 + 64 + prop_size * 8"

section \<open>The hash table of shapes\<close>

definition shape_hash :: "u32 \<Rightarrow> u32 \<Rightarrow> u32" where
  "shape_hash h val = (h + val) * 0x9e370001"

definition get_shape_hash :: "u32 \<Rightarrow> nat \<Rightarrow> nat" where
  "get_shape_hash h bits = unat (drop_bit (32 - bits) h)"

definition shape_initial_hash :: "nat \<Rightarrow> u32" where
  "shape_initial_hash proto = shape_hash (shape_hash 1 (word_of_nat proto)) (word_of_nat (proto div 2 ^ 32))"

definition init_shape_hash :: "shape_mem \<Rightarrow> shape_rt \<Rightarrow> int \<times> shape_rt" where
  "init_shape_hash mem rt =
     (let rt = rt\<lparr>shape_hash_bits := 4, shape_hash_size := 2 ^ 4, shape_hash_count := 0\<rparr> in
      case mem rt (8 * 2 ^ 4) of
        None \<Rightarrow> (-1, rt)
      | Some _ \<Rightarrow> (0, rt\<lparr>rt_shape_hash := replicate (2 ^ 4) 0\<rparr>))"

text \<open>Moving a chain into the new table.\<close>

partial_function (option) rehash_chain :: "nat \<Rightarrow> nat \<Rightarrow> nat list \<Rightarrow> shape_rt \<Rightarrow> (nat list \<times> shape_rt) option" where
  "rehash_chain bits sh tab rt =
     (if sh = 0 then Some (tab, rt)
      else do {
        s \<leftarrow> get_sh rt sh;
        let sh_next = ss_shape_hash_next s;
        let h = get_shape_hash (ss_hash s) bits;
        t \<leftarrow> rd tab h;
        let rt = set_sh sh (Some (s\<lparr>ss_shape_hash_next := t\<rparr>)) rt;
        tab \<leftarrow> wr tab h sh;
        rehash_chain bits sh_next tab rt
      })"

fun rehash_chains :: "nat \<Rightarrow> nat list \<Rightarrow> nat list \<Rightarrow> shape_rt \<Rightarrow> (nat list \<times> shape_rt) option" where
  "rehash_chains bits [] tab rt = Some (tab, rt)"
| "rehash_chains bits (sh # shs) tab rt = do {
     (tab, rt) \<leftarrow> rehash_chain bits sh tab rt;
     rehash_chains bits shs tab rt
   }"

definition resize_shape_hash :: "shape_mem \<Rightarrow> nat \<Rightarrow> shape_rt \<Rightarrow> (int \<times> shape_rt) option" where
  "resize_shape_hash mem bits rt = do {
     c_assert (bits < 31);
     let new_size = 2 ^ bits;
     case mem rt (8 * new_size) of
       None \<Rightarrow> Some (-1, rt)
     | Some _ \<Rightarrow> do {
         heads \<leftarrow> rd_block (rt_shape_hash rt) 0 (shape_hash_size rt);
         (tab, rt) \<leftarrow> rehash_chains bits heads (replicate new_size 0) rt;
         Some (0, rt\<lparr>shape_hash_bits := bits, shape_hash_size := new_size, rt_shape_hash := tab\<rparr>)
       }
   }"

definition js_shape_hash_link :: "nat \<Rightarrow> shape_rt \<Rightarrow> shape_rt option" where
  "js_shape_hash_link sh rt = do {
     s \<leftarrow> get_sh rt sh;
     let h = get_shape_hash (ss_hash s) (shape_hash_bits rt);
     t \<leftarrow> rd (rt_shape_hash rt) h;
     let rt = set_sh sh (Some (s\<lparr>ss_shape_hash_next := t\<rparr>)) rt;
     tab \<leftarrow> wr (rt_shape_hash rt) h sh;
     Some (rt\<lparr>rt_shape_hash := tab, shape_hash_count := shape_hash_count rt + 1\<rparr>)
   }"

text \<open>The walk of \<open>js_shape_hash_unlink\<close> behind the shape \<open>prev\<close>, whose link \<open>*psh\<close> is changed in the end.\<close>

partial_function (option) unlink_after :: "nat \<Rightarrow> nat \<Rightarrow> nat \<Rightarrow> shape_rt \<Rightarrow> shape_rt option" where
  "unlink_after sh next prev rt = do {
     s \<leftarrow> get_sh rt prev;
     if ss_shape_hash_next s = sh then Some (set_sh prev (Some (s\<lparr>ss_shape_hash_next := next\<rparr>)) rt)
     else unlink_after sh next (ss_shape_hash_next s) rt
   }"

definition js_shape_hash_unlink :: "nat \<Rightarrow> shape_rt \<Rightarrow> shape_rt option" where
  "js_shape_hash_unlink sh rt = do {
     s \<leftarrow> get_sh rt sh;
     let h = get_shape_hash (ss_hash s) (shape_hash_bits rt);
     t \<leftarrow> rd (rt_shape_hash rt) h;
     rt \<leftarrow> (if t = sh then do {
              tab \<leftarrow> wr (rt_shape_hash rt) h (ss_shape_hash_next s);
              Some (rt\<lparr>rt_shape_hash := tab\<rparr>)
            } else unlink_after sh (ss_shape_hash_next s) t rt);
     Some (rt\<lparr>shape_hash_count := shape_hash_count rt - 1\<rparr>)
   }"

section \<open>Creating and freeing shapes\<close>

definition dup_proto :: "nat \<Rightarrow> shape_rt \<Rightarrow> shape_rt" where
  "dup_proto proto rt = (if proto \<noteq> 0 then event (Dup_value (JS_MKPTR JS_TAG_OBJECT proto)) rt else rt)"

text \<open>The result 0 is NULL.\<close>

definition js_new_shape2 :: "shape_mem \<Rightarrow> nat \<Rightarrow> nat \<Rightarrow> nat \<Rightarrow> shape_rt \<Rightarrow> (nat \<times> shape_rt) option" where
  "js_new_shape2 mem proto hash_size prop_size rt = do {
     rt \<leftarrow> (if 2 * (shape_hash_count rt + 1) > int (shape_hash_size rt)
            then do { (r, rt) \<leftarrow> resize_shape_hash mem (shape_hash_bits rt + 1) rt; Some rt }
            else Some rt);
     (case js_malloc mem (get_shape_size hash_size prop_size) rt of
        (None, rt) \<Rightarrow> Some (0, rt)
      | (Some sh, rt) \<Rightarrow> do {
          let rt = dup_proto proto (add_gc_object sh rt);
          let s = \<lparr>ss_ref_count = 1, ss_is_hashed = True, ss_has_small_array_index = False,
                   ss_hash = shape_initial_hash proto, ss_prop_hash_mask = word_of_nat hash_size - 1,
                   ss_prop_hash = replicate hash_size 0, ss_prop_size = prop_size, ss_prop_count = 0,
                   ss_deleted_prop_count = 0, ss_shape_hash_next = 0, ss_proto = proto,
                   ss_prop = replicate prop_size None\<rparr>;
          rt \<leftarrow> js_shape_hash_link sh (set_sh sh (Some s) rt);
          Some (sh, rt)
        })
   }"

definition js_new_shape :: "shape_mem \<Rightarrow> nat \<Rightarrow> shape_rt \<Rightarrow> (nat \<times> shape_rt) option" where
  "js_new_shape mem proto rt = js_new_shape2 mem proto JS_PROP_INITIAL_HASH_SIZE JS_PROP_INITIAL_SIZE rt"

text \<open>\<open>JS_DupAtom\<close> and \<open>JS_FreeAtomRT\<close> on the names of the first n properties.\<close>

fun each_atom :: "(u32 \<Rightarrow> ref_event) \<Rightarrow> shape_prop option list \<Rightarrow> nat \<Rightarrow> shape_rt \<Rightarrow> shape_rt option" where
  "each_atom f props 0 rt = Some rt"
| "each_atom f [] (Suc n) rt = None"
| "each_atom f (pr # props) (Suc n) rt = do { pr \<leftarrow> pr; each_atom f props n (event (f (pr_atom pr)) rt) }"

definition js_clone_shape :: "shape_mem \<Rightarrow> nat \<Rightarrow> shape_rt \<Rightarrow> (nat \<times> shape_rt) option" where
  "js_clone_shape mem sh1 rt = do {
     s1 \<leftarrow> get_sh rt sh1;
     (case js_malloc mem (get_shape_size (unat (ss_prop_hash_mask s1) + 1) (ss_prop_size s1)) rt of
        (None, rt) \<Rightarrow> Some (0, rt)
      | (Some sh, rt) \<Rightarrow> do {
          let s = s1\<lparr>ss_ref_count := 1, ss_is_hashed := False\<rparr>;
          let rt = dup_proto (ss_proto s) (add_gc_object sh (set_sh sh (Some s) rt));
          rt \<leftarrow> each_atom Dup_atom (ss_prop s) (ss_prop_count s) rt;
          Some (sh, rt)
        })
   }"

definition js_dup_shape :: "nat \<Rightarrow> shape_rt \<Rightarrow> shape_rt option" where
  "js_dup_shape sh rt = do {
     s \<leftarrow> get_sh rt sh;
     Some (set_sh sh (Some (s\<lparr>ss_ref_count := ss_ref_count s + 1\<rparr>)) rt)
   }"

definition js_free_shape0 :: "nat \<Rightarrow> shape_rt \<Rightarrow> shape_rt option" where
  "js_free_shape0 sh rt = do {
     s \<leftarrow> get_sh rt sh;
     c_assert (ss_ref_count s = 0);
     rt \<leftarrow> (if ss_is_hashed s then js_shape_hash_unlink sh rt else Some rt);
     let rt = (if ss_proto s \<noteq> 0 then event (Free_value (JS_MKPTR JS_TAG_OBJECT (ss_proto s))) rt else rt);
     rt \<leftarrow> each_atom Free_atom (ss_prop s) (ss_prop_count s) rt;
     rt \<leftarrow> remove_gc_object sh rt;
     Some (set_sh sh None rt)
   }"

definition js_free_shape :: "nat \<Rightarrow> shape_rt \<Rightarrow> shape_rt option" where
  "js_free_shape sh rt = do {
     s \<leftarrow> get_sh rt sh;
     let s = s\<lparr>ss_ref_count := ss_ref_count s - 1\<rparr>;
     let rt = set_sh sh (Some s) rt;
     if ss_ref_count s \<le> 0 then js_free_shape0 sh rt else Some rt
   }"

section \<open>Properties of a shape\<close>

definition atom_slot :: "u32 \<Rightarrow> u32 \<Rightarrow> nat" where
  "atom_slot msk atom = unat (atom AND msk)"

text \<open>\<open>hash_next\<close> is a bit field of 26 bits.\<close>

definition set_hash_next :: "nat \<Rightarrow> shape_prop \<Rightarrow> shape_prop" where
  "set_hash_next n pr = pr\<lparr>pr_hash_next := n mod 2 ^ 26\<rparr>"

text \<open>The loops that double or halve the size of the hash table; \<open>None\<close> if they do not end.\<close>

function grow_hash_size :: "nat \<Rightarrow> nat \<Rightarrow> nat option" where
  "grow_hash_size new_size h =
     (if h < new_size then if h = 0 then None else grow_hash_size new_size (2 * h) else Some h)"
  by auto
termination
  by (relation "measure (\<lambda>(n, h). n - h)") auto

declare grow_hash_size.simps [simp del]

function shrink_hash_size :: "nat \<Rightarrow> nat \<Rightarrow> nat option" where
  "shrink_hash_size new_size h =
     (if h div 2 \<ge> new_size then if h = 0 then None else shrink_hash_size new_size (h div 2) else Some h)"
  by auto
termination
  by (relation "measure snd") auto

declare shrink_hash_size.simps [simp del]

fun rehash_props ::
  "u32 \<Rightarrow> nat list \<Rightarrow> shape_prop option list \<Rightarrow> nat list \<Rightarrow> (shape_prop option list \<times> nat list) option" where
  "rehash_props msk [] props tab = Some (props, tab)"
| "rehash_props msk (i # is) props tab = do {
     pr \<leftarrow> rd props i;
     pr \<leftarrow> pr;
     if pr_atom pr \<noteq> JS_ATOM_NULL then do {
       let h = atom_slot msk (pr_atom pr);
       t \<leftarrow> rd tab h;
       props \<leftarrow> wr props i (Some (set_hash_next t pr));
       tab \<leftarrow> wr tab h (i + 1);
       rehash_props msk is props tab
     } else rehash_props msk is props tab
   }"

text \<open>\<open>js_realloc\<close> of an array to n cells.\<close>

definition realloc_cells :: "nat \<Rightarrow> 'a option list \<Rightarrow> 'a option list" where
  "realloc_cells n xs = take n xs @ replicate (n - length xs) None"

text \<open>
  \<open>resize_properties\<close> on \<open>*psh = sh\<close>. The location \<open>psh\<close> is \<open>&p->shape\<close>; when the object p is NULL it is a variable
  of the context, whose new value is the second component of the result.
\<close>

definition set_psh :: "nat \<Rightarrow> nat \<Rightarrow> shape_rt \<Rightarrow> shape_rt option" where
  "set_psh p sh rt = (if p = 0 then Some rt else do { ob \<leftarrow> get_ob rt p; Some (set_ob p (ob\<lparr>so_shape := sh\<rparr>) rt) })"

definition resize_object_props :: "shape_mem \<Rightarrow> nat \<Rightarrow> nat \<Rightarrow> shape_rt \<Rightarrow> (bool \<times> shape_rt) option" where
  "resize_object_props mem p n rt =
     (if p = 0 then Some (True, rt)
      else do {
        ob \<leftarrow> get_ob rt p;
        case js_malloc mem (16 * n) rt of
          (None, rt) \<Rightarrow> Some (False, rt)
        | (Some _, rt) \<Rightarrow> Some (True, set_ob p (ob\<lparr>so_prop := realloc_cells n (so_prop ob)\<rparr>) rt)
      })"

definition resize_rehash :: "shape_mem \<Rightarrow> nat \<Rightarrow> nat \<Rightarrow> shape \<Rightarrow> nat \<Rightarrow> nat \<Rightarrow> shape_rt \<Rightarrow> (int \<times> nat \<times> shape_rt) option" where
  "resize_rehash mem sh p s new_hash_size new_size rt =
     (case js_malloc mem (get_shape_size new_hash_size new_size) rt of
        (None, rt) \<Rightarrow> Some (-1, sh, rt)
      | (Some sh', rt) \<Rightarrow> do {
          rt \<leftarrow> remove_gc_object sh rt;
          props \<leftarrow> rd_block (ss_prop s) 0 (ss_prop_count s);
          let rt = add_gc_object sh' rt;
          let msk = word_of_nat new_hash_size - 1;
          (props, tab) \<leftarrow> rehash_props msk [0..<ss_prop_count s] (realloc_cells new_size props) (replicate new_hash_size 0);
          let rt = set_sh sh None rt;
          let rt = set_sh sh' (Some (s\<lparr>ss_prop_hash_mask := msk, ss_prop_hash := tab, ss_prop := props,
                                       ss_prop_size := new_size\<rparr>)) rt;
          rt \<leftarrow> set_psh p sh' rt;
          Some (0, sh', rt)
        })"

definition resize_realloc :: "shape_mem \<Rightarrow> nat \<Rightarrow> nat \<Rightarrow> shape \<Rightarrow> nat \<Rightarrow> nat \<Rightarrow> shape_rt \<Rightarrow> (int \<times> nat \<times> shape_rt) option" where
  "resize_realloc mem sh p s new_hash_size new_size rt = do {
     rt \<leftarrow> remove_gc_object sh rt;
     (case js_malloc mem (get_shape_size new_hash_size new_size) (set_sh sh None rt) of
        (None, rt) \<Rightarrow> Some (-1, sh, add_gc_object sh (set_sh sh (Some s) rt))
      | (Some sh', rt) \<Rightarrow> do {
          let rt = set_sh sh' (Some (s\<lparr>ss_prop := realloc_cells new_size (ss_prop s), ss_prop_size := new_size\<rparr>))
                     (add_gc_object sh' rt);
          rt \<leftarrow> set_psh p sh' rt;
          Some (0, sh', rt)
        })
   }"

definition resize_properties :: "shape_mem \<Rightarrow> nat \<Rightarrow> nat \<Rightarrow> nat \<Rightarrow> shape_rt \<Rightarrow> (int \<times> nat \<times> shape_rt) option" where
  "resize_properties mem sh p count rt = do {
     s \<leftarrow> get_sh rt sh;
     let new_size = max count (ss_prop_size s * 3 div 2);
     (ok, rt) \<leftarrow> resize_object_props mem p new_size rt;
     if \<not> ok then Some (-1, sh, rt)
     else do {
       let hash_size = unat (ss_prop_hash_mask s) + 1;
       new_hash_size \<leftarrow> grow_hash_size new_size hash_size;
       if new_hash_size \<noteq> hash_size then resize_rehash mem sh p s new_hash_size new_size rt
       else resize_realloc mem sh p s new_hash_size new_size rt
     }
   }"

text \<open>The loop of \<open>compact_properties\<close>: the properties that are left move down in the shape and in the object.\<close>

fun compact_loop ::
  "u32 \<Rightarrow> shape_prop option list \<Rightarrow> nat list \<Rightarrow> nat \<Rightarrow> shape_prop option list \<Rightarrow> nat list \<Rightarrow> js_property option list \<Rightarrow>
     (nat \<times> shape_prop option list \<times> nat list \<times> js_property option list) option" where
  "compact_loop msk old_props [] j props tab prop = Some (j, props, tab, prop)"
| "compact_loop msk old_props (i # is) j props tab prop = do {
     old_pr \<leftarrow> rd old_props i;
     old_pr \<leftarrow> old_pr;
     if pr_atom old_pr \<noteq> JS_ATOM_NULL then do {
       let h = atom_slot msk (pr_atom old_pr);
       t \<leftarrow> rd tab h;
       props \<leftarrow> wr props j (Some (set_hash_next t old_pr));
       tab \<leftarrow> wr tab h (j + 1);
       v \<leftarrow> rd prop i;
       prop \<leftarrow> wr prop j v;
       compact_loop msk old_props is (j + 1) props tab prop
     } else compact_loop msk old_props is j props tab prop
   }"

text \<open>The copy of \<open>compact_properties\<close>, to the new shape at \<open>sh'\<close>.\<close>

definition compact_into :: "shape_mem \<Rightarrow> nat \<Rightarrow> nat \<Rightarrow> nat \<Rightarrow> nat \<Rightarrow> shape_rt \<Rightarrow> (int \<times> shape_rt) option" where
  "compact_into mem p sh' new_hash_size new_size rt = do {
     ob \<leftarrow> get_ob rt p;
     let sh = so_shape ob;
     s \<leftarrow> get_sh rt sh;
     rt \<leftarrow> remove_gc_object sh rt;
     let rt = add_gc_object sh' rt;
     let msk = word_of_nat new_hash_size - 1;
     (j, props, tab, prop) \<leftarrow>
        compact_loop msk (ss_prop s) [0..<ss_prop_count s] 0 (replicate new_size None) (replicate new_hash_size 0) (so_prop ob);
     c_assert (j = ss_prop_count s - ss_deleted_prop_count s);
     let rt = set_sh sh' (Some (s\<lparr>ss_prop_hash_mask := msk, ss_prop_hash := tab, ss_prop_size := new_size,
                                 ss_deleted_prop_count := 0, ss_prop_count := j, ss_prop := props\<rparr>)) rt;
     let rt = set_sh sh None (set_ob p \<lparr>so_shape = sh', so_prop = prop\<rparr> rt);
     case js_malloc mem (16 * new_size) rt of
       (None, rt) \<Rightarrow> Some (0, rt)
     | (Some _, rt) \<Rightarrow> Some (0, set_ob p \<lparr>so_shape = sh', so_prop = realloc_cells new_size prop\<rparr> rt)
   }"

definition compact_properties :: "shape_mem \<Rightarrow> nat \<Rightarrow> shape_rt \<Rightarrow> (int \<times> shape_rt) option" where
  "compact_properties mem p rt = do {
     ob \<leftarrow> get_ob rt p;
     s \<leftarrow> get_sh rt (so_shape ob);
     c_assert (\<not> ss_is_hashed s);
     let new_size = max JS_PROP_INITIAL_SIZE (ss_prop_count s - ss_deleted_prop_count s);
     c_assert (new_size \<le> ss_prop_size s);
     new_hash_size \<leftarrow> shrink_hash_size new_size (unat (ss_prop_hash_mask s) + 1);
     (case js_malloc mem (get_shape_size new_hash_size new_size) rt of
        (None, rt) \<Rightarrow> Some (-1, rt)
      | (Some sh', rt) \<Rightarrow> compact_into mem p sh' new_hash_size new_size rt)
   }"

text \<open>\<open>add_shape_property\<close> on \<open>*psh = sh\<close>, and its part after the room has been made.\<close>

definition append_shape_property :: "u32 \<Rightarrow> nat \<Rightarrow> u32 \<Rightarrow> u8 \<Rightarrow> shape_rt \<Rightarrow> (int \<times> nat \<times> shape_rt) option" where
  "append_shape_property new_shape_hash sh atom prop_flags rt = do {
     s \<leftarrow> get_sh rt sh;
     rt \<leftarrow> (if ss_is_hashed s then js_shape_hash_link sh (set_sh sh (Some (s\<lparr>ss_hash := new_shape_hash\<rparr>)) rt) else Some rt);
     s \<leftarrow> get_sh rt sh;
     let h = atom_slot (ss_prop_hash_mask s) atom;
     t \<leftarrow> rd (ss_prop_hash s) h;
     props \<leftarrow> wr (ss_prop s) (ss_prop_count s)
       (Some (set_hash_next t \<lparr>pr_hash_next = 0, pr_flags = prop_flags AND 0x3f, pr_atom = atom\<rparr>));
     tab \<leftarrow> wr (ss_prop_hash s) h (ss_prop_count s + 1);
     Some (0, sh, event (Dup_atom atom) (set_sh sh (Some (s\<lparr>ss_prop := props, ss_prop_hash := tab,
       ss_prop_count := ss_prop_count s + 1,
       ss_has_small_array_index := (ss_has_small_array_index s \<or> AtomIsTaggedInt atom)\<rparr>)) rt))
   }"

definition add_shape_property ::
  "shape_mem \<Rightarrow> nat \<Rightarrow> nat \<Rightarrow> u32 \<Rightarrow> u8 \<Rightarrow> shape_rt \<Rightarrow> (int \<times> nat \<times> shape_rt) option" where
  "add_shape_property mem sh p atom prop_flags rt = do {
     s \<leftarrow> get_sh rt sh;
     let new_shape_hash = (if ss_is_hashed s then shape_hash (shape_hash (ss_hash s) atom) (ucast prop_flags) else 0);
     rt \<leftarrow> (if ss_is_hashed s then js_shape_hash_unlink sh rt else Some rt);
     (r, sh, rt) \<leftarrow> (if ss_prop_count s \<ge> ss_prop_size s
        then resize_properties mem sh p (ss_prop_count s + 1) rt else Some (0, sh, rt));
     if r \<noteq> 0 then do {
       rt \<leftarrow> (if ss_is_hashed s then js_shape_hash_link sh rt else Some rt);
       Some (-1, sh, rt)
     } else append_shape_property new_shape_hash sh atom prop_flags rt
   }"

section \<open>Looking for a shape\<close>

partial_function (option) find_in_chain :: "(shape \<Rightarrow> bool option) \<Rightarrow> nat \<Rightarrow> shape_rt \<Rightarrow> nat option" where
  "find_in_chain matches sh1 rt =
     (if sh1 = 0 then Some 0
      else do {
        s \<leftarrow> get_sh rt sh1;
        b \<leftarrow> matches s;
        if b then Some sh1 else find_in_chain matches (ss_shape_hash_next s) rt
      })"

definition find_hashed_shape_proto :: "nat \<Rightarrow> shape_rt \<Rightarrow> nat option" where
  "find_hashed_shape_proto proto rt = do {
     let h = shape_initial_hash proto;
     t \<leftarrow> rd (rt_shape_hash rt) (get_shape_hash h (shape_hash_bits rt));
     find_in_chain (\<lambda>s. Some (ss_hash s = h \<and> ss_proto s = proto \<and> ss_prop_count s = 0)) t rt
   }"

text \<open>The comparison of the first n properties of two shapes.\<close>

fun same_props :: "nat \<Rightarrow> shape_prop option list \<Rightarrow> shape_prop option list \<Rightarrow> bool option" where
  "same_props 0 as bs = Some True"
| "same_props (Suc n) (a # as) (b # bs) = do {
     a \<leftarrow> a;
     b \<leftarrow> b;
     if pr_atom a \<noteq> pr_atom b \<or> pr_flags a \<noteq> pr_flags b then Some False else same_props n as bs
   }"
| "same_props (Suc n) _ _ = None"

definition extends_shape :: "shape \<Rightarrow> u32 \<Rightarrow> u32 \<Rightarrow> u8 \<Rightarrow> shape \<Rightarrow> bool option" where
  "extends_shape s h atom prop_flags s1 =
     (if ss_hash s1 = h \<and> ss_proto s1 = ss_proto s \<and> ss_prop_count s1 = ss_prop_count s + 1 then do {
        same \<leftarrow> same_props (ss_prop_count s) (ss_prop s1) (ss_prop s);
        if \<not> same then Some False
        else do {
          pr \<leftarrow> rd (ss_prop s1) (ss_prop_count s);
          pr \<leftarrow> pr;
          Some (pr_atom pr = atom \<and> pr_flags pr = prop_flags)
        }
      } else Some False)"

definition find_hashed_shape_prop :: "nat \<Rightarrow> u32 \<Rightarrow> u8 \<Rightarrow> shape_rt \<Rightarrow> nat option" where
  "find_hashed_shape_prop sh atom prop_flags rt = do {
     s \<leftarrow> get_sh rt sh;
     let h = shape_hash (shape_hash (ss_hash s) atom) (ucast prop_flags);
     t \<leftarrow> rd (rt_shape_hash rt) (get_shape_hash h (shape_hash_bits rt));
     find_in_chain (extends_shape s h atom prop_flags) t rt
   }"

section \<open>Objects\<close>

text \<open>\<open>JS_NewObjectProtoClass\<close> for the class \<open>JS_CLASS_OBJECT\<close>; the result 0 is an exception.\<close>

definition JS_NewObjectFromShape :: "shape_mem \<Rightarrow> (shape_rt \<Rightarrow> nat option) \<Rightarrow> nat \<Rightarrow> shape_rt \<Rightarrow> (nat \<times> shape_rt) option" where
  "JS_NewObjectFromShape mem new_object sh rt =
     (case new_object rt of
        None \<Rightarrow> do { rt \<leftarrow> js_free_shape sh (event Throw_out_of_memory rt); Some (0, rt) }
      | Some p \<Rightarrow> do {
          s \<leftarrow> get_sh rt sh;
          (case js_malloc mem (16 * ss_prop_size s) rt of
             (None, rt) \<Rightarrow> do { rt \<leftarrow> js_free_shape sh rt; Some (0, rt) }
           | (Some _, rt) \<Rightarrow>
               Some (p, add_gc_object p (set_ob p \<lparr>so_shape = sh, so_prop = replicate (ss_prop_size s) None\<rparr> rt)))
        })"

definition JS_NewObjectProtoClass :: "shape_mem \<Rightarrow> (shape_rt \<Rightarrow> nat option) \<Rightarrow> nat \<Rightarrow> shape_rt \<Rightarrow> (nat \<times> shape_rt) option" where
  "JS_NewObjectProtoClass mem new_object proto rt = do {
     sh \<leftarrow> find_hashed_shape_proto proto rt;
     (sh, rt) \<leftarrow> (if sh \<noteq> 0 then do { rt \<leftarrow> js_dup_shape sh rt; Some (sh, rt) } else js_new_shape mem proto rt);
     if sh = 0 then Some (0, rt) else JS_NewObjectFromShape mem new_object sh rt
   }"

text \<open>The chain from h on, an index plus one; the result is the index of the property.\<close>

partial_function (option) find_own_loop :: "shape_prop option list \<Rightarrow> u32 \<Rightarrow> nat \<Rightarrow> nat option option" where
  "find_own_loop props atom h =
     (if h = 0 then Some None
      else do {
        pr \<leftarrow> rd props (h - 1);
        pr \<leftarrow> pr;
        if pr_atom pr = atom then Some (Some (h - 1)) else find_own_loop props atom (pr_hash_next pr)
      })"

definition find_own_property :: "nat \<Rightarrow> u32 \<Rightarrow> shape_rt \<Rightarrow> nat option option" where
  "find_own_property p atom rt = do {
     ob \<leftarrow> get_ob rt p;
     s \<leftarrow> get_sh rt (so_shape ob);
     h \<leftarrow> rd (ss_prop_hash s) (atom_slot (ss_prop_hash_mask s) atom);
     find_own_loop (ss_prop s) atom h
   }"

text \<open>Two parts of \<open>add_property\<close>: the clone of a shared shape, and the new property in the shape that belongs to p alone.\<close>

definition hash_clone :: "nat \<Rightarrow> shape_rt \<Rightarrow> shape_rt option" where
  "hash_clone new_sh rt = do {
     s \<leftarrow> get_sh rt new_sh;
     js_shape_hash_link new_sh (set_sh new_sh (Some (s\<lparr>ss_is_hashed := True\<rparr>)) rt)
   }"

definition replace_shape :: "nat \<Rightarrow> nat \<Rightarrow> shape_rt \<Rightarrow> shape_rt option" where
  "replace_shape p new_sh rt = do {
     ob \<leftarrow> get_ob rt p;
     rt \<leftarrow> js_free_shape (so_shape ob) rt;
     Some (set_ob p (ob\<lparr>so_shape := new_sh\<rparr>) rt)
   }"

definition add_own_property :: "shape_mem \<Rightarrow> nat \<Rightarrow> u32 \<Rightarrow> u8 \<Rightarrow> shape_rt \<Rightarrow> (nat option \<times> shape_rt) option" where
  "add_own_property mem p prop prop_flags rt = do {
     ob \<leftarrow> get_ob rt p;
     s \<leftarrow> get_sh rt (so_shape ob);
     c_assert (ss_ref_count s = 1);
     (r, sh, rt) \<leftarrow> add_shape_property mem (so_shape ob) p prop prop_flags rt;
     if r \<noteq> 0 then Some (None, rt)
     else do {
       ob \<leftarrow> get_ob rt p;
       s \<leftarrow> get_sh rt (so_shape ob);
       Some (Some (ss_prop_count s - 1), rt)
     }
   }"

text \<open>The index of the new property, whose value the caller initialises; \<open>None\<close> inside is NULL.\<close>

definition add_property :: "shape_mem \<Rightarrow> nat \<Rightarrow> u32 \<Rightarrow> u8 \<Rightarrow> shape_rt \<Rightarrow> (nat option \<times> shape_rt) option" where
  "add_property mem p prop prop_flags rt = do {
     ob \<leftarrow> get_ob rt p;
     s \<leftarrow> get_sh rt (so_shape ob);
     new_sh \<leftarrow> (if ss_is_hashed s then find_hashed_shape_prop (so_shape ob) prop prop_flags rt else Some 0);
     if new_sh \<noteq> 0 then do {
       new_s \<leftarrow> get_sh rt new_sh;
       let (ok, ob', rt) = (if ss_prop_size new_s \<noteq> ss_prop_size s then
            (case js_malloc mem (16 * ss_prop_size new_s) rt of
               (None, rt) \<Rightarrow> (False, ob, rt)
             | (Some _, rt) \<Rightarrow> (True, ob\<lparr>so_prop := realloc_cells (ss_prop_size new_s) (so_prop ob)\<rparr>, rt))
          else (True, ob, rt));
       if \<not> ok then Some (None, rt)
       else do {
         rt \<leftarrow> js_dup_shape new_sh rt;
         let rt = set_ob p (ob'\<lparr>so_shape := new_sh\<rparr>) rt;
         rt \<leftarrow> js_free_shape (so_shape ob) rt;
         new_s \<leftarrow> get_sh rt new_sh;
         Some (Some (ss_prop_count new_s - 1), rt)
       }
     } else do {
       (ok, rt) \<leftarrow> (if ss_is_hashed s \<and> ss_ref_count s \<noteq> 1 then do {
            (new_sh, rt) \<leftarrow> js_clone_shape mem (so_shape ob) rt;
            if new_sh = 0 then Some (False, rt)
            else do { rt \<leftarrow> hash_clone new_sh rt; rt \<leftarrow> replace_shape p new_sh rt; Some (True, rt) }
          } else Some (True, rt));
       if \<not> ok then Some (None, rt)
       else add_own_property mem p prop prop_flags rt
     }
   }"

definition set_property_value :: "nat \<Rightarrow> nat \<Rightarrow> js_property \<Rightarrow> shape_rt \<Rightarrow> shape_rt option" where
  "set_property_value p i v rt = do {
     ob \<leftarrow> get_ob rt p;
     prop \<leftarrow> wr (so_prop ob) i (Some v);
     Some (set_ob p (ob\<lparr>so_prop := prop\<rparr>) rt)
   }"

text \<open>\<open>JS_DefinePrivateField\<close> after its checks of the operands.\<close>

definition JS_DefinePrivateField :: "shape_mem \<Rightarrow> nat \<Rightarrow> u32 \<Rightarrow> js_value \<Rightarrow> shape_rt \<Rightarrow> (int \<times> shape_rt) option" where
  "JS_DefinePrivateField mem p prop val rt = do {
     prs \<leftarrow> find_own_property p prop rt;
     if prs \<noteq> None then Some (-1, event (Free_value val) (event Throw_type_error rt))
     else do {
       (pr, rt) \<leftarrow> add_property mem p prop JS_PROP_C_W_E rt;
       case pr of
         None \<Rightarrow> Some (-1, event (Free_value val) rt)
       | Some i \<Rightarrow> do { rt \<leftarrow> set_property_value p i (Prop_value val) rt; Some (0, rt) }
     }
   }"

text \<open>\<open>js_shape_prepare_update\<close>: afterwards the shape of p belongs to p alone and is not hashed.\<close>

definition js_shape_prepare_update :: "shape_mem \<Rightarrow> nat \<Rightarrow> shape_rt \<Rightarrow> (int \<times> shape_rt) option" where
  "js_shape_prepare_update mem p rt = do {
     ob \<leftarrow> get_ob rt p;
     s \<leftarrow> get_sh rt (so_shape ob);
     if ss_is_hashed s then
       (if ss_ref_count s \<noteq> 1 then do {
          (sh, rt) \<leftarrow> js_clone_shape mem (so_shape ob) rt;
          if sh = 0 then Some (-1, rt)
          else do { rt \<leftarrow> replace_shape p sh rt; Some (0, rt) }
        } else do {
          rt \<leftarrow> js_shape_hash_unlink (so_shape ob) rt;
          s \<leftarrow> get_sh rt (so_shape ob);
          Some (0, set_sh (so_shape ob) (Some (s\<lparr>ss_is_hashed := False\<rparr>)) rt)
        })
     else Some (0, rt)
   }"

definition shape_prop_at :: "nat \<Rightarrow> nat \<Rightarrow> shape_rt \<Rightarrow> shape_prop option" where
  "shape_prop_at sh i rt = do { s \<leftarrow> get_sh rt sh; pr \<leftarrow> rd (ss_prop s) i; pr }"

definition set_shape_prop :: "nat \<Rightarrow> nat \<Rightarrow> shape_prop \<Rightarrow> shape_rt \<Rightarrow> shape_rt option" where
  "set_shape_prop sh i pr rt = do {
     s \<leftarrow> get_sh rt sh;
     props \<leftarrow> wr (ss_prop s) i (Some pr);
     Some (set_sh sh (Some (s\<lparr>ss_prop := props\<rparr>)) rt)
   }"

definition js_update_property_flags :: "shape_mem \<Rightarrow> nat \<Rightarrow> nat \<Rightarrow> u8 \<Rightarrow> shape_rt \<Rightarrow> (int \<times> shape_rt) option" where
  "js_update_property_flags mem p i flags rt = do {
     ob \<leftarrow> get_ob rt p;
     pr \<leftarrow> shape_prop_at (so_shape ob) i rt;
     if flags \<noteq> pr_flags pr then do {
       (r, rt) \<leftarrow> js_shape_prepare_update mem p rt;
       if r \<noteq> 0 then Some (-1, rt)
       else do {
         ob \<leftarrow> get_ob rt p;
         pr \<leftarrow> shape_prop_at (so_shape ob) i rt;
         rt \<leftarrow> set_shape_prop (so_shape ob) i (pr\<lparr>pr_flags := flags AND 0x3f\<rparr>) rt;
         Some (0, rt)
       }
     } else Some (0, rt)
   }"

definition free_property :: "js_property \<Rightarrow> u8 \<Rightarrow> shape_rt \<Rightarrow> shape_rt option" where
  "free_property pr prop_flags rt =
     (if prop_flags AND JS_PROP_TMASK \<noteq> 0 then
        (if prop_flags AND JS_PROP_TMASK = JS_PROP_GETSET then
           (case pr of Prop_getset getter setter \<Rightarrow>
              Some (fold (\<lambda>f. event (Free_value (JS_MKPTR JS_TAG_OBJECT f))) (opt_list getter @ opt_list setter) rt)
            | _ \<Rightarrow> None)
         else if prop_flags AND JS_PROP_TMASK = JS_PROP_VARREF then
           (case pr of Prop_var_ref r \<Rightarrow> Some (event (Free_var_ref r) rt) | _ \<Rightarrow> None)
         else if prop_flags AND JS_PROP_TMASK = JS_PROP_AUTOINIT then
           (case pr of Prop_init realm \<Rightarrow> Some (event (Free_context realm) rt) | _ \<Rightarrow> None)
         else Some rt)
      else (case pr of Prop_value v \<Rightarrow> Some (event (Free_value v) rt) | _ \<Rightarrow> None))"

text \<open>The search of \<open>delete_property\<close>: the index of the property and of the one before it in the chain.\<close>

partial_function (option) delete_find :: "shape_prop option list \<Rightarrow> u32 \<Rightarrow> nat option \<Rightarrow> nat \<Rightarrow> (nat option \<times> nat) option option" where
  "delete_find props atom lpr h =
     (if h = 0 then Some None
      else do {
        pr \<leftarrow> rd props (h - 1);
        pr \<leftarrow> pr;
        if pr_atom pr = atom then Some (Some (lpr, h - 1)) else delete_find props atom (Some (h - 1)) (pr_hash_next pr)
      })"

text \<open>Taking property i out of its chain and out of the shape and the object.\<close>

definition remove_property :: "nat \<Rightarrow> u32 \<Rightarrow> nat option \<Rightarrow> nat \<Rightarrow> shape_rt \<Rightarrow> shape_rt option" where
  "remove_property p atom lpr i rt = do {
     ob \<leftarrow> get_ob rt p;
     let sh = so_shape ob;
     pr \<leftarrow> shape_prop_at sh i rt;
     rt \<leftarrow> (case lpr of
          Some l \<Rightarrow> do { q \<leftarrow> shape_prop_at sh l rt; set_shape_prop sh l (set_hash_next (pr_hash_next pr) q) rt }
        | None \<Rightarrow> do {
            s \<leftarrow> get_sh rt sh;
            tab \<leftarrow> wr (ss_prop_hash s) (atom_slot (ss_prop_hash_mask s) atom) (pr_hash_next pr);
            Some (set_sh sh (Some (s\<lparr>ss_prop_hash := tab\<rparr>)) rt)
          });
     s \<leftarrow> get_sh rt sh;
     let rt = set_sh sh (Some (s\<lparr>ss_deleted_prop_count := ss_deleted_prop_count s + 1\<rparr>)) rt;
     pr1 \<leftarrow> rd (so_prop ob) i;
     pr1 \<leftarrow> pr1;
     rt \<leftarrow> free_property pr1 (pr_flags pr) rt;
     pr \<leftarrow> shape_prop_at sh i rt;
     rt \<leftarrow> set_shape_prop sh i (pr\<lparr>pr_flags := 0, pr_atom := JS_ATOM_NULL\<rparr>) (event (Free_atom (pr_atom pr)) rt);
     set_property_value p i (Prop_value JS_UNDEFINED) rt
   }"

text \<open>The property is removed, and the deleted ones are dropped once there are too many.\<close>

definition delete_found :: "shape_mem \<Rightarrow> nat \<Rightarrow> u32 \<Rightarrow> nat option \<Rightarrow> nat \<Rightarrow> shape_rt \<Rightarrow> (int \<times> shape_rt) option" where
  "delete_found mem p atom lpr i rt = do {
     rt \<leftarrow> remove_property p atom lpr i rt;
     ob \<leftarrow> get_ob rt p;
     s \<leftarrow> get_sh rt (so_shape ob);
     if ss_deleted_prop_count s \<ge> 8 \<and> ss_deleted_prop_count s \<ge> ss_prop_count s div 2 then do {
       (r, rt) \<leftarrow> compact_properties mem p rt;
       Some (1, rt)
     } else Some (1, rt)
   }"

text \<open>\<open>delete_property\<close> of an object that is not exotic: 1 is TRUE, 0 is FALSE.\<close>

definition delete_property :: "shape_mem \<Rightarrow> nat \<Rightarrow> u32 \<Rightarrow> shape_rt \<Rightarrow> (int \<times> shape_rt) option" where
  "delete_property mem p atom rt = do {
     ob \<leftarrow> get_ob rt p;
     s \<leftarrow> get_sh rt (so_shape ob);
     h \<leftarrow> rd (ss_prop_hash s) (atom_slot (ss_prop_hash_mask s) atom);
     found \<leftarrow> delete_find (ss_prop s) atom None h;
     case found of
       None \<Rightarrow> Some (1, rt)
     | Some (lpr, i) \<Rightarrow> do {
         pr \<leftarrow> shape_prop_at (so_shape ob) i rt;
         if pr_flags pr AND JS_PROP_CONFIGURABLE = 0 then Some (0, rt)
         else do {
           (r, rt) \<leftarrow> js_shape_prepare_update mem p rt;
           if r \<noteq> 0 then Some (-1, rt)
           else delete_found mem p atom lpr i rt
         }
       }
   }"

end
