(* ===== verification/Shape_Chain.thy ===== *)
theory Shape_Chain
  imports Shape
begin

text \<open>
  The hash table inside a shape: the chain of a slot holds the indices of the properties with that slot, the newest
  first, so it is a function of the list of properties. Lookup, insertion, removal, rehashing and
  compaction over such chains.
\<close>

section \<open>Chains\<close>

fun chain :: "shape_prop option list \<Rightarrow> nat \<Rightarrow> nat list \<Rightarrow> bool" where
  "chain props x [] \<longleftrightarrow> x = 0"
| "chain props x (i # is) \<longleftrightarrow>
     x = Suc i \<and> i < length props \<and> (\<exists>pr. props ! i = Some pr \<and> chain props (pr_hash_next pr) is)"

lemma chain_cong:
  assumes "length props' = length props" "\<forall>i\<in>set is. props' ! i = props ! i"
  shows "chain props' x is \<longleftrightarrow> chain props x is"
  using assms by (induction "is" arbitrary: x) auto

lemma chain_update: "i \<notin> set is \<Longrightarrow> chain (props[i := v]) x is \<longleftrightarrow> chain props x is"
  by (rule chain_cong) (simp, metis nth_list_update_neq)

lemma chain_append: "chain props x (as @ i # is) \<Longrightarrow> chain props (Suc i) (i # is)"
  by (induction as arbitrary: x) auto

definition has_atom :: "shape_prop option list \<Rightarrow> u32 \<Rightarrow> nat \<Rightarrow> bool" where
  "has_atom props atom i \<longleftrightarrow> (\<exists>pr. props ! i = Some pr \<and> pr_atom pr = atom)"

lemma find_own_loop_chain: "chain props x is \<Longrightarrow> find_own_loop props atom x = Some (List.find (has_atom props atom) is)"
  by (induction "is" arbitrary: x; subst find_own_loop.simps) (auto simp: has_atom_def)

lemma delete_find_none:
  "chain props x is \<Longrightarrow> \<forall>i\<in>set is. \<not> has_atom props atom i \<Longrightarrow> delete_find props atom lpr x = Some None"
  by (induction "is" arbitrary: x lpr; subst delete_find.simps) (auto simp: has_atom_def)

lemma delete_find_some:
  "chain props x (as @ i # bs) \<Longrightarrow> \<forall>j\<in>set as. \<not> has_atom props atom j \<Longrightarrow> has_atom props atom i \<Longrightarrow>
     delete_find props atom lpr x = Some (Some (if as = [] then lpr else Some (last as), i))"
  by (induction as arbitrary: x lpr; subst delete_find.simps) (auto simp: has_atom_def)

section \<open>Slots\<close>

definition in_slot :: "u32 \<Rightarrow> nat \<Rightarrow> shape_prop option list \<Rightarrow> nat \<Rightarrow> bool" where
  "in_slot msk h props i \<longleftrightarrow> (\<exists>pr. props ! i = Some pr \<and> pr_atom pr \<noteq> JS_ATOM_NULL \<and> atom_slot msk (pr_atom pr) = h)"

definition bucket :: "u32 \<Rightarrow> shape_prop option list \<Rightarrow> nat \<Rightarrow> nat \<Rightarrow> nat list" where
  "bucket msk props n h = rev (filter (in_slot msk h props) [0..<n])"

definition hash_ok :: "u32 \<Rightarrow> nat list \<Rightarrow> shape_prop option list \<Rightarrow> nat \<Rightarrow> bool" where
  "hash_ok msk tab props n \<longleftrightarrow>
     length tab = unat msk + 1 \<and> (\<forall>h\<le>unat msk. chain props (tab ! h) (bucket msk props n h))"

lemma atom_slot_le: "atom_slot msk atom \<le> unat msk"
proof -
  have "atom AND msk \<le> msk" by (rule word_and_le1)
  then show ?thesis by (simp add: atom_slot_def word_le_nat_alt)
qed

lemma bucket_0 [simp]: "bucket msk props 0 h = []"
  by (simp add: bucket_def)

lemma bucket_Suc:
  "bucket msk props (Suc n) h = (if in_slot msk h props n then n # bucket msk props n h else bucket msk props n h)"
  by (simp add: bucket_def)

lemma set_bucket: "set (bucket msk props n h) = {i. i < n \<and> in_slot msk h props i}"
  by (auto simp: bucket_def)

lemma distinct_bucket: "distinct (bucket msk props n h)"
  by (simp add: bucket_def)

lemma bucket_cong:
  assumes "\<forall>i<n. in_slot msk h props' i \<longleftrightarrow> in_slot msk h props i"
  shows "bucket msk props' n h = bucket msk props n h"
  using assms unfolding bucket_def by (intro arg_cong [where f = rev] filter_cong) auto

lemma hash_okD: "hash_ok msk tab props n \<Longrightarrow> h \<le> unat msk \<Longrightarrow> chain props (tab ! h) (bucket msk props n h)"
  by (simp add: hash_ok_def)

lemma hash_ok_slot:
  "hash_ok msk tab props n \<Longrightarrow> atom_slot msk atom < length tab \<and>
     chain props (tab ! atom_slot msk atom) (bucket msk props n (atom_slot msk atom))"
  using atom_slot_le [of msk atom] by (auto simp: hash_ok_def)

lemma chain_head_le: "hash_ok msk tab props n \<Longrightarrow> h \<le> unat msk \<Longrightarrow> tab ! h \<le> n"
proof -
  assume "hash_ok msk tab props n" "h \<le> unat msk"
  then have c: "chain props (tab ! h) (bucket msk props n h)" by (rule hash_okD)
  show ?thesis
  proof (cases "bucket msk props n h")
    case Nil
    with c show ?thesis by simp
  next
    case (Cons i "is")
    then have "i < n" using set_bucket [of msk props n h] by auto
    with c Cons show ?thesis by simp
  qed
qed

lemma hash_ok_empty: "hash_ok msk (replicate (unat msk + 1) 0) props 0"
  by (simp add: hash_ok_def del: replicate_Suc)

text \<open>A property that is not live belongs to no slot.\<close>

lemma hash_ok_skip: "hash_ok msk tab props n \<Longrightarrow> \<forall>pr. props ! n = Some pr \<longrightarrow> pr_atom pr = JS_ATOM_NULL \<Longrightarrow> hash_ok msk tab props (Suc n)"
  by (auto simp: hash_ok_def bucket_Suc in_slot_def)

lemma hash_ok_push:
  assumes "hash_ok msk tab props n" "n < length props" "n < 2 ^ 26" "pr_atom pr \<noteq> JS_ATOM_NULL"
  defines "h \<equiv> atom_slot msk (pr_atom pr)"
  shows "hash_ok msk (tab[h := Suc n]) (props[n := Some (set_hash_next (tab ! h) pr)]) (Suc n)"
proof -
  define props' where "props' = props[n := Some (set_hash_next (tab ! h) pr)]"
  have h: "h \<le> unat msk" by (simp add: h_def atom_slot_le)
  have lt: "tab ! h < 2 ^ 26" using chain_head_le [OF assms(1) h] assms(3) by simp
  have old: "bucket msk props' n k = bucket msk props n k" for k
    by (rule bucket_cong) (auto simp: props'_def in_slot_def)
  have chain_old: "chain props' x (bucket msk props n k) \<longleftrightarrow> chain props x (bucket msk props n k)" for x k
    unfolding props'_def by (rule chain_update) (simp add: set_bucket)
  have new: "in_slot msk k props' n \<longleftrightarrow> k = h" for k
    using assms(2,4) by (auto simp: props'_def in_slot_def set_hash_next_def h_def)
  have "chain props' (tab[h := Suc n] ! k) (bucket msk props' (Suc n) k)" if "k \<le> unat msk" for k
  proof (cases "k = h")
    case True
    have "pr_hash_next (set_hash_next (tab ! h) pr) = tab ! h" using lt by (simp add: set_hash_next_def)
    with True h assms(1,2) show ?thesis
      by (simp add: bucket_Suc new old hash_ok_def chain_old) (simp add: props'_def)
  next
    case False
    with that assms(1) show ?thesis by (simp add: bucket_Suc new old hash_ok_def chain_old)
  qed
  with assms(1) show ?thesis by (simp add: hash_ok_def props'_def)
qed

text \<open>Only the keys of the properties and the links inside the chains matter.\<close>

definition prop_key :: "shape_prop \<Rightarrow> u32 \<times> u8" where
  "prop_key pr = (pr_atom pr, pr_flags pr)"

definition same_keys :: "nat \<Rightarrow> shape_prop option list \<Rightarrow> shape_prop option list \<Rightarrow> bool" where
  "same_keys n props props' \<longleftrightarrow> (\<forall>i<n. map_option prop_key (props ! i) = map_option prop_key (props' ! i))"

lemma prop_key_set_hash_next [simp]: "prop_key (set_hash_next t pr) = prop_key pr"
  by (simp add: prop_key_def set_hash_next_def)

lemma set_hash_next_simps [simp]: "pr_atom (set_hash_next t pr) = pr_atom pr" "pr_flags (set_hash_next t pr) = pr_flags pr"
  by (simp_all add: set_hash_next_def)

lemma rehash_props_append:
  "rehash_props msk (is @ js) props tab = rehash_props msk is props tab \<bind> (\<lambda>(props, tab). rehash_props msk js props tab)"
  by (induction "is" arbitrary: props tab) (auto simp: bind_eq_None_conv Let_def split: option.split bind_splits)

lemma rehash_props_spec:
  assumes "\<forall>i<n. props ! i \<noteq> None" "n \<le> length props" "n \<le> 2 ^ 26"
  shows "\<exists>props' tab'. rehash_props msk [0..<n] props (replicate (unat msk + 1) 0) = Some (props', tab') \<and>
    length props' = length props \<and> same_keys (length props) props props' \<and> hash_ok msk tab' props' n"
  using assms
proof (induction n)
  case 0
  then show ?case using hash_ok_empty [of msk props] by (simp add: same_keys_def)
next
  case (Suc n)
  then obtain props1 tab1 where IH: "rehash_props msk [0..<n] props (replicate (unat msk + 1) 0) = Some (props1, tab1)"
    "length props1 = length props" "same_keys (length props) props props1" "hash_ok msk tab1 props1 n" by auto
  obtain pr0 where "props ! n = Some pr0" using Suc.prems(1) by auto
  then obtain pr where pr: "props1 ! n = Some pr"
  proof -
    have "map_option prop_key (props ! n) = map_option prop_key (props1 ! n)" using IH(3) Suc.prems(2) by (simp add: same_keys_def)
    with \<open>props ! n = Some pr0\<close> that show ?thesis by (cases "props1 ! n") auto
  qed
  have n: "n < length props1" using Suc.prems(2) IH(2) by simp
  show ?case
  proof (cases "pr_atom pr = JS_ATOM_NULL")
    case True
    then have "hash_ok msk tab1 props1 (Suc n)" using hash_ok_skip [OF IH(4)] pr by simp
    with True IH pr n show ?thesis by (simp add: rehash_props_append)
  next
    case False
    let ?h = "atom_slot msk (pr_atom pr)"
    have "?h < length tab1" using hash_ok_slot [OF IH(4)] by blast
    moreover have "hash_ok msk (tab1[?h := Suc n]) (props1[n := Some (set_hash_next (tab1 ! ?h) pr)]) (Suc n)"
      using hash_ok_push [OF IH(4) n _ False] Suc.prems(3) by simp
    moreover have "same_keys (length props) props (props1[n := Some (set_hash_next (tab1 ! ?h) pr)])"
      using IH(2,3) pr n by (auto simp: same_keys_def nth_list_update)
    ultimately show ?thesis
      using False IH pr n by (simp add: rehash_props_append Let_def wr_def)
  qed
qed

section \<open>Removal\<close>

lemma chain_skip:
  assumes "chain props x (as @ i # bs)" "as \<noteq> []" "distinct (as @ i # bs)" "props ! i = Some pr" "pr_hash_next pr < 2 ^ 26"
  shows "chain (props[last as := map_option (set_hash_next (pr_hash_next pr)) (props ! last as)]) x (as @ bs)"
  using assms
proof (induction as arbitrary: x)
  case (Cons a as)
  obtain q where a: "x = Suc a" "a < length props" "props ! a = Some q" "chain props (pr_hash_next q) (as @ i # bs)"
    using Cons.prems(1) by auto
  show ?case
  proof (cases "as = []")
    case True
    have "chain props (pr_hash_next pr) bs" using a(4) True Cons.prems(4) by auto
    with True a Cons.prems show ?thesis by (simp add: set_hash_next_def chain_update)
  next
    case False
    have "a \<noteq> last as" using Cons.prems(3) False by auto
    with False a Cons.IH [of "pr_hash_next q"] Cons.prems show ?thesis by simp
  qed
qed simp

lemma chain_next_le:
  assumes "chain props x (as @ i # bs)" "set bs \<subseteq> {..<n}" "props ! i = Some pr"
  shows "chain props (pr_hash_next pr) bs \<and> pr_hash_next pr \<le> n"
  using chain_append [OF assms(1)] assms(2,3) by (cases bs) auto

definition unlink_prop :: "shape_prop option list \<Rightarrow> nat list \<Rightarrow> shape_prop \<Rightarrow> shape_prop option list" where
  "unlink_prop props as pr =
     (if as = [] then props else props[last as := map_option (set_hash_next (pr_hash_next pr)) (props ! last as)])"

lemma hash_ok_remove:
  assumes ok: "hash_ok msk tab props n" and b: "bucket msk props n h = as @ i # bs" and pr: "props ! i = Some pr"
    and len: "n \<le> length props" "n < 2 ^ 26" and h: "h \<le> unat msk" and gone: "pr_atom gone = JS_ATOM_NULL"
  shows "hash_ok msk (if as = [] then tab[h := pr_hash_next pr] else tab) ((unlink_prop props as pr)[i := Some gone]) n"
proof -
  define props1 where "props1 = unlink_prop props as pr"
  define props2 where "props2 = props1[i := Some gone]"
  have in_b: "set (as @ i # bs) = {j. j < n \<and> in_slot msk h props j}" "distinct (as @ i # bs)"
    using set_bucket [of msk props n h] distinct_bucket [of msk props n h] b by simp_all
  have i: "i < length props" "in_slot msk h props i" "i \<notin> set as" "i \<notin> set bs" using in_b len by auto
  have sub: "set bs \<subseteq> {..<n}" using in_b(1) by auto
  have c: "chain props (tab ! h) (as @ i # bs)" using hash_okD [OF ok h] b by simp
  note nxt = chain_next_le [OF c sub pr]
  have l: "last as < n" "in_slot msk h props (last as)" "last as \<noteq> i" if "as \<noteq> []"
    using in_b that i(3) last_in_set [OF that] by auto
  have slot1: "in_slot msk k props1 j \<longleftrightarrow> in_slot msk k props j" for k j
  proof (cases "as \<noteq> [] \<and> j = last as")
    case True
    moreover obtain q where "props ! last as = Some q" using l(2) True by (auto simp: in_slot_def)
    ultimately show ?thesis using l(1) len(1) by (simp add: props1_def unlink_prop_def in_slot_def)
  next
    case False
    then have "props1 ! j = props ! j" by (auto simp: props1_def unlink_prop_def)
    then show ?thesis by (simp add: in_slot_def)
  qed
  have slot2: "in_slot msk k props2 j \<longleftrightarrow> in_slot msk k props j \<and> j \<noteq> i" for k j
  proof (cases "j = i")
    case True
    then show ?thesis using i(1) gone by (simp add: props2_def in_slot_def props1_def unlink_prop_def)
  next
    case False
    then have "in_slot msk k props2 j \<longleftrightarrow> in_slot msk k props1 j" by (simp add: props2_def in_slot_def)
    with False slot1 show ?thesis by simp
  qed
  have bucket2: "bucket msk props2 n k = filter (\<lambda>j. j \<noteq> i) (bucket msk props n k)" for k
  proof -
    have "in_slot msk k props2 = (\<lambda>j. j \<noteq> i \<and> in_slot msk k props j)" using slot2 by blast
    then show ?thesis by (simp add: bucket_def filter_filter rev_filter [symmetric] conj_commute)
  qed
  have here: "bucket msk props2 n h = as @ bs"
  proof -
    have "filter (\<lambda>j. j \<noteq> i) as = as" "filter (\<lambda>j. j \<noteq> i) bs = bs" using i(3,4) by (auto simp: filter_id_conv)
    then show ?thesis by (simp add: bucket2 b)
  qed
  have "chain props2 ((if as = [] then tab[h := pr_hash_next pr] else tab) ! k) (bucket msk props2 n k)" if k: "k \<le> unat msk" for k
  proof (cases "k = h")
    case True
    have "chain props1 (if as = [] then pr_hash_next pr else tab ! h) (as @ bs)"
      using chain_skip [OF c _ in_b(2) pr] nxt len(2) by (simp add: props1_def unlink_prop_def)
    then have "chain props2 (if as = [] then pr_hash_next pr else tab ! h) (as @ bs)"
      using i(3,4) by (simp add: props2_def chain_update)
    moreover have "h < length tab" using ok h by (simp add: hash_ok_def)
    ultimately show ?thesis using True here by (cases "as = []") simp_all
  next
    case False
    have "j \<notin> set (bucket msk props n k)" if "in_slot msk h props j" for j
      using that False by (auto simp: set_bucket in_slot_def)
    then have off: "i \<notin> set (bucket msk props n k)" "as \<noteq> [] \<longrightarrow> last as \<notin> set (bucket msk props n k)"
      using i(2) l by blast+
    have "filter (\<lambda>j. j \<noteq> i) (bucket msk props n k) = bucket msk props n k" using off(1) by (auto simp: filter_id_conv)
    moreover have "chain props2 (tab ! k) (bucket msk props n k)"
      using off by (simp add: props2_def props1_def unlink_prop_def chain_update hash_okD [OF ok k])
    ultimately show ?thesis using False bucket2 by simp
  qed
  with ok show ?thesis by (simp add: hash_ok_def props2_def props1_def)
qed

section \<open>Compaction\<close>

definition live :: "shape_prop option list \<Rightarrow> nat \<Rightarrow> bool" where
  "live props i \<longleftrightarrow> (\<exists>pr. props ! i = Some pr \<and> pr_atom pr \<noteq> JS_ATOM_NULL)"

definition lives :: "shape_prop option list \<Rightarrow> nat \<Rightarrow> nat list" where
  "lives props n = filter (live props) [0..<n]"

lemma lives_simps [simp]:
  "lives props 0 = []" "lives props (Suc n) = lives props n @ (if live props n then [n] else [])"
  by (simp_all add: lives_def)

lemma lives_length: "length (lives props n) \<le> n"
  using length_filter_le [of "live props" "[0..<n]"] by (simp add: lives_def)

lemma lives_mono: "k \<le> n \<Longrightarrow> length (lives props k) \<le> length (lives props n)"
  by (induction n) (auto simp: le_Suc_eq)

lemma compact_loop_append:
  "compact_loop msk old (is @ js) j props tab vals =
     compact_loop msk old is j props tab vals \<bind> (\<lambda>(j, props, tab, vals). compact_loop msk old js j props tab vals)"
  by (induction "is" arbitrary: j props tab vals) (auto simp: bind_eq_None_conv Let_def split: option.split bind_splits)

definition compacted ::
  "u32 \<Rightarrow> shape_prop option list \<Rightarrow> nat \<Rightarrow> js_property option list \<Rightarrow> shape_prop option list \<Rightarrow> nat list \<Rightarrow> js_property option list \<Rightarrow> bool" where
  "compacted msk old k prop0 props tab prop \<longleftrightarrow>
     hash_ok msk tab props (length (lives old k)) \<and>
     (\<forall>m<length (lives old k). map_option prop_key (props ! m) = map_option prop_key (old ! (lives old k ! m))) \<and>
     length prop = length prop0 \<and> (\<forall>m<length (lives old k). prop ! m = prop0 ! (lives old k ! m)) \<and>
     (\<forall>m. k \<le> m \<longrightarrow> prop ! m = prop0 ! m)"

lemma compacted_step:
  assumes inv: "compacted msk old k prop0 props tab prop" and pr: "old ! k = Some pr" and nz: "pr_atom pr \<noteq> JS_ATOM_NULL"
    and len: "length (lives old k) < length props" "k < length prop0" "k < 2 ^ 26"
  defines "h \<equiv> atom_slot msk (pr_atom pr)" and "j \<equiv> length (lives old k)"
  shows "compacted msk old (Suc k) prop0 (props[j := Some (set_hash_next (tab ! h) pr)]) (tab[h := Suc j]) (prop[j := prop ! k])"
proof -
  have lv: "lives old (Suc k) = lives old k @ [k]" using pr nz by (simp add: live_def)
  have jk: "j \<le> k" using lives_length [of old k] by (simp add: j_def)
  have "hash_ok msk (tab[h := Suc j]) (props[j := Some (set_hash_next (tab ! h) pr)]) (Suc j)"
    unfolding h_def j_def using inv len nz jk by (intro hash_ok_push) (auto simp: compacted_def j_def)
  then show ?thesis
    using inv len pr jk unfolding compacted_def lv
    by (auto simp: nth_append nth_list_update j_def less_Suc_eq)
qed

lemma compact_loop_spec:
  assumes "\<forall>i<n. old ! i \<noteq> None" "n \<le> length old" "n < 2 ^ 26" "length (lives old n) \<le> new_size" "n \<le> length prop"
  shows "\<exists>props tab prop'. compact_loop msk old [0..<n] 0 (replicate new_size None) (replicate (unat msk + 1) 0) prop =
      Some (length (lives old n), props, tab, prop') \<and> length props = new_size \<and> compacted msk old n prop props tab prop'"
  using assms
proof (induction n)
  case 0
  then show ?case using hash_ok_empty [of msk] by (simp add: compacted_def)
next
  case (Suc n)
  have "length (lives old n) \<le> new_size" using Suc.prems(4) lives_mono [of n "Suc n" old] by linarith
  then obtain props tab prop' where IH: "compact_loop msk old [0..<n] 0 (replicate new_size None) (replicate (unat msk + 1) 0) prop =
      Some (length (lives old n), props, tab, prop')" "length props = new_size" "compacted msk old n prop props tab prop'"
    using Suc by auto
  obtain pr where pr: "old ! n = Some pr" using Suc.prems(1) by auto
  show ?case
  proof (cases "pr_atom pr = JS_ATOM_NULL")
    case True
    then have "lives old (Suc n) = lives old n" using pr by (simp add: live_def)
    moreover have "compacted msk old (Suc n) prop props tab prop'"
      using IH(3) calculation by (simp add: compacted_def del: lives_simps)
    ultimately show ?thesis using True IH pr Suc.prems(2) by (simp add: compact_loop_append del: lives_simps)
  next
    case False
    have lv: "lives old (Suc n) = lives old n @ [n]" using pr False by (simp add: live_def)
    let ?h = "atom_slot msk (pr_atom pr)" and ?j = "length (lives old n)"
    have "?j < length props" using Suc.prems(4) lv IH(2) by simp
    moreover have "compacted msk old (Suc n) prop (props[?j := Some (set_hash_next (tab ! ?h) pr)]) (tab[?h := Suc ?j]) (prop'[?j := prop' ! n])"
      using compacted_step [OF IH(3) pr False calculation] Suc.prems by simp
    moreover have "?h < length tab" "n < length prop'" "?j < length prop'"
      using IH(3) hash_ok_slot Suc.prems(5) lives_length [of old n] by (auto simp: compacted_def)
    ultimately show ?thesis using False IH pr Suc.prems(2) lv
      by (simp add: compact_loop_append Let_def wr_def del: lives_simps)
  qed
qed

end
