(* ===== verification/Shape_Table.thy ===== *)
theory Shape_Table
  imports Shape_Chain
begin

text \<open>
  The hash table of the shapes that may be shared: chains of shapes through \<open>shape_hash_next\<close>. \<open>linked\<close> says that the
  chains hold exactly the shapes of a set; linking, unlinking, resizing and searching over it.
\<close>

fun schain :: "(nat \<Rightarrow> shape option) \<Rightarrow> nat \<Rightarrow> nat list \<Rightarrow> bool" where
  "schain H x [] \<longleftrightarrow> x = 0"
| "schain H x (a # as) \<longleftrightarrow> x = a \<and> a \<noteq> 0 \<and> (\<exists>s. H a = Some s \<and> schain H (ss_shape_hash_next s) as)"

text \<open>Two heaps of shapes that differ in the links only.\<close>

definition unlinked :: "shape \<Rightarrow> shape" where
  "unlinked s = s\<lparr>ss_shape_hash_next := 0\<rparr>"

definition relinked :: "(nat \<Rightarrow> shape option) \<Rightarrow> (nat \<Rightarrow> shape option) \<Rightarrow> bool" where
  "relinked H H' \<longleftrightarrow> (\<forall>a. map_option unlinked (H' a) = map_option unlinked (H a))"

lemma relinked_refl [simp]: "relinked H H"
  by (simp add: relinked_def)

lemma relinked_trans: "relinked H H1 \<Longrightarrow> relinked H1 H2 \<Longrightarrow> relinked H H2"
  by (simp add: relinked_def)

lemma relinked_update: "H a = Some s \<Longrightarrow> relinked H (H(a := Some (s\<lparr>ss_shape_hash_next := n\<rparr>)))"
  by (simp add: relinked_def unlinked_def)

lemma relinked_Some: "relinked H H' \<Longrightarrow> H a = Some s \<Longrightarrow> \<exists>n. H' a = Some (s\<lparr>ss_shape_hash_next := n\<rparr>)"
proof -
  assume r: "relinked H H'" and s: "H a = Some s"
  have "map_option unlinked (H' a) = Some (unlinked s)" using r s by (simp add: relinked_def)
  then obtain s' where s': "H' a = Some s'" "unlinked s' = unlinked s" by auto
  have "s' = s\<lparr>ss_shape_hash_next := ss_shape_hash_next s'\<rparr>" using s'(2) by (cases s; cases s') (simp add: unlinked_def)
  with s'(1) show ?thesis by (intro exI [of _ "ss_shape_hash_next s'"]) simp
qed

lemma relinked_None: "relinked H H' \<Longrightarrow> H' a = None \<longleftrightarrow> H a = None"
  unfolding relinked_def by (metis map_option_is_None)

lemma relinked_back: "relinked H H' \<Longrightarrow> relinked H' H"
  by (simp add: relinked_def)

definition slot_of :: "(nat \<Rightarrow> shape option) \<Rightarrow> nat \<Rightarrow> nat \<Rightarrow> nat" where
  "slot_of H bits a = (case H a of Some s \<Rightarrow> get_shape_hash (ss_hash s) bits | None \<Rightarrow> 0)"

definition chains :: "(nat \<Rightarrow> shape option) \<Rightarrow> nat list \<Rightarrow> nat \<Rightarrow> nat set \<Rightarrow> (nat \<Rightarrow> nat list) \<Rightarrow> bool" where
  "chains H tab bits S B \<longleftrightarrow> length tab = 2 ^ bits \<and>
     (\<forall>b<2 ^ bits. schain H (tab ! b) (B b) \<and> distinct (B b) \<and> set (B b) = {a \<in> S. slot_of H bits a = b})"

definition linked :: "(nat \<Rightarrow> shape option) \<Rightarrow> nat list \<Rightarrow> nat \<Rightarrow> nat set \<Rightarrow> bool" where
  "linked H tab bits S \<longleftrightarrow> bits \<le> 31 \<and> (\<forall>a\<in>S. a \<noteq> 0 \<and> H a \<noteq> None) \<and> (\<exists>B. chains H tab bits S B)"

lemma get_shape_hash_less: "bits \<le> 31 \<Longrightarrow> get_shape_hash h bits < 2 ^ bits"
proof -
  assume "bits \<le> 31"
  have "unat h < 2 ^ 32" using unsigned_less [of h] by simp
  then have "unat h < 2 ^ bits * 2 ^ (32 - bits)" using \<open>bits \<le> 31\<close> by (simp flip: power_add)
  then show ?thesis by (simp add: get_shape_hash_def unat_shr less_mult_imp_div_less)
qed

lemma slot_of_less: "bits \<le> 31 \<Longrightarrow> slot_of H bits a < 2 ^ bits"
  by (auto simp: slot_of_def get_shape_hash_less split: option.split)

lemma slot_of_Some: "H a = Some s \<Longrightarrow> slot_of H bits a = get_shape_hash (ss_hash s) bits"
  by (simp add: slot_of_def)

lemma schain_cong:
  "\<forall>a\<in>set as. map_option ss_shape_hash_next (H' a) = map_option ss_shape_hash_next (H a) \<Longrightarrow> schain H' x as = schain H x as"
proof (induction as arbitrary: x)
  case (Cons a as)
  then have IH: "schain H' y as = schain H y as" for y by simp
  have "map_option ss_shape_hash_next (H' a) = map_option ss_shape_hash_next (H a)" using Cons.prems by simp
  then show ?case using IH by (cases "H a"; cases "H' a") auto
qed simp

lemma schain_upd [simp]: "a \<notin> set as \<Longrightarrow> schain (H(a := s)) x as = schain H x as"
  by (rule schain_cong) auto

text \<open>What keeps the table: the links and the hashes of the shapes in it.\<close>

lemma linked_cong:
  assumes "linked H tab bits S"
    "\<forall>a\<in>S. \<forall>s. H a = Some s \<longrightarrow> (\<exists>s'. H' a = Some s' \<and> ss_shape_hash_next s' = ss_shape_hash_next s \<and> ss_hash s' = ss_hash s)"
  shows "linked H' tab bits S"
proof -
  obtain B where B: "chains H tab bits S B" using assms(1) by (auto simp: linked_def)
  have same: "map_option ss_shape_hash_next (H' a) = map_option ss_shape_hash_next (H a) \<and> slot_of H' bits a = slot_of H bits a \<and> H' a \<noteq> None"
    if "a \<in> S" for a
    using assms that by (fastforce simp: linked_def slot_of_def)
  have "chains H' tab bits S B"
    unfolding chains_def
  proof (intro conjI allI impI)
    fix b :: nat
    assume b: "b < 2 ^ bits"
    then have *: "schain H (tab ! b) (B b)" "distinct (B b)" "set (B b) = {a \<in> S. slot_of H bits a = b}"
      using B by (simp_all add: chains_def)
    show "schain H' (tab ! b) (B b)" using *(1,3) same by (subst schain_cong [of _ _ H]) auto
    show "distinct (B b)" by fact
    show "set (B b) = {a \<in> S. slot_of H' bits a = b}" using *(3) same by auto
  qed (use B in \<open>simp add: chains_def\<close>)
  with assms(1) same show ?thesis by (auto simp: linked_def)
qed

lemma linked_link:
  assumes "linked H tab bits S" "H a = Some s" "a \<notin> S" "a \<noteq> 0"
  defines "h \<equiv> get_shape_hash (ss_hash s) bits"
  shows "h < length tab \<and> linked (H(a := Some (s\<lparr>ss_shape_hash_next := tab ! h\<rparr>))) (tab[h := a]) bits (insert a S)"
proof -
  obtain B where B: "chains H tab bits S B" and bits: "bits \<le> 31" using assms(1) by (auto simp: linked_def)
  have h: "h < 2 ^ bits" using get_shape_hash_less [OF bits] by (simp add: h_def)
  let ?H = "H(a := Some (s\<lparr>ss_shape_hash_next := tab ! h\<rparr>))"
  have len: "length tab = 2 ^ bits" using B by (simp add: chains_def)
  have slot: "slot_of ?H bits c = slot_of H bits c" for c using assms(2) by (simp add: slot_of_def)
  have sa: "slot_of H bits a = h" using assms(2) by (simp add: slot_of_def h_def)
  have "chains ?H (tab[h := a]) bits (insert a S) (B(h := a # B h))"
    unfolding chains_def
  proof (intro conjI allI impI)
    fix b :: nat
    assume b: "b < 2 ^ bits"
    have *: "schain H (tab ! b) (B b)" "distinct (B b)" "set (B b) = {a \<in> S. slot_of H bits a = b}"
      using B b by (simp_all add: chains_def)
    have na: "a \<notin> set (B b)" using *(3) assms(3) by simp
    show "schain ?H (tab[h := a] ! b) ((B(h := a # B h)) b)"
    proof (cases "b = h")
      case True
      have "schain ?H (tab ! h) (B h)" using * na True by (subst schain_upd) auto
      then show ?thesis using True h len assms(4) by simp
    next
      case False
      have "schain ?H (tab ! b) (B b)" using * na by (subst schain_upd) auto
      then show ?thesis using False by simp
    qed
    show "distinct ((B(h := a # B h)) b)" using * na by auto
    show "set ((B(h := a # B h)) b) = {c \<in> insert a S. slot_of ?H bits c = b}" using *(3) sa by (auto simp: slot)
  qed (simp add: len)
  with assms h len show ?thesis by (auto simp: linked_def)
qed

text \<open>Taking a shape out of its chain.\<close>

lemma unlink_after_chain:
  assumes "schain (rt_shapes rt) x (as @ a # bs)" "as \<noteq> []" "distinct (as @ a # bs)" "\<forall>b\<in>set as. b \<noteq> 0"
  shows "\<exists>q. rt_shapes rt (last as) = Some q \<and>
    unlink_after a n x rt = Some (set_sh (last as) (Some (q\<lparr>ss_shape_hash_next := n\<rparr>)) rt)"
  using assms
proof (induction as arbitrary: x)
  case (Cons b as)
  obtain s where s: "x = b" "b \<noteq> 0" "rt_shapes rt b = Some s" "schain (rt_shapes rt) (ss_shape_hash_next s) (as @ a # bs)"
    using Cons.prems(1) by auto
  have get: "get_sh rt b = Some s" using s by (simp add: get_sh_def)
  show ?case
  proof (cases "as = []")
    case True
    then have "ss_shape_hash_next s = a" using s(4) by simp
    with True s get show ?thesis by (subst unlink_after.simps) simp
  next
    case False
    have "ss_shape_hash_next s \<noteq> a" using s(4) Cons.prems(3) False by (cases as) auto
    moreover have "\<exists>q. rt_shapes rt (last as) = Some q \<and>
        unlink_after a n (ss_shape_hash_next s) rt = Some (set_sh (last as) (Some (q\<lparr>ss_shape_hash_next := n\<rparr>)) rt)"
      using Cons.IH [OF s(4) False] Cons.prems by simp
    ultimately show ?thesis using False s get by (subst unlink_after.simps) simp
  qed
qed simp

lemma schain_skip:
  assumes "schain H x (as @ a # bs)" "as \<noteq> []" "distinct (as @ a # bs)" "H a = Some s" "H (last as) = Some q"
  shows "schain (H(last as := Some (q\<lparr>ss_shape_hash_next := ss_shape_hash_next s\<rparr>))) x (as @ bs)"
  using assms
proof (induction as arbitrary: x)
  case (Cons b as)
  show ?case
  proof (cases "as = []")
    case True
    have "b \<notin> set bs" "schain H (ss_shape_hash_next s) bs" using Cons.prems True by auto
    then have "schain (H(b := Some (q\<lparr>ss_shape_hash_next := ss_shape_hash_next s\<rparr>))) (ss_shape_hash_next s) bs" by (subst schain_upd)
    with True Cons.prems show ?thesis by (simp del: schain_upd fun_upd_apply add: fun_upd_same)
  next
    case False
    then have "b \<noteq> last as" using Cons.prems(3) by auto
    with False Cons show ?thesis by auto
  qed
qed simp

definition skip_shape :: "(nat \<Rightarrow> shape option) \<Rightarrow> nat list \<Rightarrow> shape \<Rightarrow> nat \<Rightarrow> shape option" where
  "skip_shape H as s =
     (if as = [] then H
      else H(last as := map_option (\<lambda>q. q\<lparr>ss_shape_hash_next := ss_shape_hash_next s\<rparr>) (H (last as))))"

lemma relinked_skip: "relinked H (skip_shape H as s)"
  by (cases "H (last as)") (simp_all add: relinked_def skip_shape_def unlinked_def)

lemma slot_of_relinked: "slot_of H' bits c = slot_of H bits c" if "relinked H H'"
proof (cases "H c")
  case (Some s)
  then show ?thesis using relinked_Some [of H H' c s] that by (auto simp: slot_of_def)
next
  case None
  then show ?thesis using relinked_None [of H H' c] that by (simp add: slot_of_def)
qed

lemma schain_skip_shape:
  assumes "schain H x (as @ a # bs)" "distinct (as @ a # bs)" "H a = Some s"
  shows "schain (skip_shape H as s) (if as = [] then ss_shape_hash_next s else x) (as @ bs)"
proof (cases "as = []")
  case True
  with assms show ?thesis by (simp add: skip_shape_def)
next
  case False
  have "\<exists>q. H (last as) = Some q"
    using assms(1) False by (induction as arbitrary: x) (auto split: if_splits)
  then obtain q where "H (last as) = Some q" by blast
  with schain_skip [OF assms(1) False assms(2,3)] False show ?thesis by (simp add: skip_shape_def)
qed

lemma js_shape_hash_unlink_run:
  assumes "schain (rt_shapes rt) (rt_shape_hash rt ! h) (as @ a # bs)" "distinct (as @ a # bs)" "\<forall>b\<in>set (as @ a # bs). b \<noteq> 0"
    and "rt_shapes rt a = Some s" "h = get_shape_hash (ss_hash s) (shape_hash_bits rt)" "h < length (rt_shape_hash rt)"
  shows "js_shape_hash_unlink a rt = Some (rt\<lparr>rt_shapes := skip_shape (rt_shapes rt) as s,
      rt_shape_hash := (if as = [] then (rt_shape_hash rt)[h := ss_shape_hash_next s] else rt_shape_hash rt),
      shape_hash_count := shape_hash_count rt - 1\<rparr>)"
proof -
  have get: "get_sh rt a = Some s" using assms(3,4) by (simp add: get_sh_def)
  show ?thesis
  proof (cases "as = []")
    case True
    then have "rt_shape_hash rt ! h = a" using assms(1) by simp
    with True get assms(5,6) show ?thesis by (simp add: js_shape_hash_unlink_def Let_def wr_def skip_shape_def)
  next
    case False
    have "rt_shape_hash rt ! h \<noteq> a" using assms(1,2) False by (cases as) auto
    moreover obtain q where "rt_shapes rt (last as) = Some q"
      "unlink_after a (ss_shape_hash_next s) (rt_shape_hash rt ! h) rt =
         Some (set_sh (last as) (Some (q\<lparr>ss_shape_hash_next := ss_shape_hash_next s\<rparr>)) rt)"
      using unlink_after_chain [OF assms(1) False assms(2)] assms(3) by auto
    ultimately show ?thesis
      using False get assms(5,6) by (simp add: js_shape_hash_unlink_def Let_def skip_shape_def set_sh_def)
  qed
qed

lemma linked_unlink:
  assumes "linked (rt_shapes rt) (rt_shape_hash rt) (shape_hash_bits rt) S" "a \<in> S"
  shows "\<exists>H tab. js_shape_hash_unlink a rt =
      Some (rt\<lparr>rt_shapes := H, rt_shape_hash := tab, shape_hash_count := shape_hash_count rt - 1\<rparr>) \<and>
    linked H tab (shape_hash_bits rt) (S - {a}) \<and> relinked (rt_shapes rt) H"
proof -
  let ?H = "rt_shapes rt" and ?bits = "shape_hash_bits rt" and ?tab = "rt_shape_hash rt"
  obtain B where B: "chains ?H ?tab ?bits S B" and bits: "?bits \<le> 31" and nz: "\<forall>c\<in>S. c \<noteq> 0 \<and> ?H c \<noteq> None"
    using assms(1) by (auto simp: linked_def)
  obtain s where s: "?H a = Some s" using nz assms(2) by blast
  define h where "h = get_shape_hash (ss_hash s) ?bits"
  have h: "h < 2 ^ ?bits" "slot_of ?H ?bits a = h" using get_shape_hash_less [OF bits] s by (simp_all add: h_def slot_of_def)
  have Bh: "schain ?H (?tab ! h) (B h)" "distinct (B h)" "set (B h) = {c \<in> S. slot_of ?H ?bits c = h}" and len: "length ?tab = 2 ^ ?bits"
    using B h by (simp_all add: chains_def)
  have "a \<in> set (B h)" using Bh(3) h assms(2) by simp
  then obtain as bs where split: "B h = as @ a # bs" by (meson split_list)
  note Bh = Bh [unfolded split]
  define H' tab' where "H' = skip_shape ?H as s" and "tab' = (if as = [] then ?tab[h := ss_shape_hash_next s] else ?tab)"
  have run: "js_shape_hash_unlink a rt = Some (rt\<lparr>rt_shapes := H', rt_shape_hash := tab', shape_hash_count := shape_hash_count rt - 1\<rparr>)"
    unfolding H'_def tab'_def by (rule js_shape_hash_unlink_run [OF Bh(1,2) _ s]) (use Bh(3) nz h len in \<open>auto simp: h_def\<close>)
  have rl: "relinked ?H H'" unfolding H'_def by (rule relinked_skip)
  have "chains H' tab' ?bits (S - {a}) (B(h := as @ bs))"
    unfolding chains_def
  proof (intro conjI allI impI)
    fix b :: nat
    assume b: "b < 2 ^ ?bits"
    have "schain H' (tab' ! h) (as @ bs)" using schain_skip_shape [OF Bh(1,2) s] h(1) len by (auto simp: H'_def tab'_def split: if_splits)
    moreover have "schain H' (tab' ! b) (B b)" if "b \<noteq> h"
    proof -
      have off: "as \<noteq> [] \<longrightarrow> last as \<notin> set (B b)" using B b that Bh(3) last_in_set [of as] by (auto simp: chains_def)
      then have "schain H' (?tab ! b) (B b)" using B b unfolding H'_def skip_shape_def by (simp add: chains_def)
      with that show ?thesis by (simp add: tab'_def)
    qed
    ultimately show "schain H' (tab' ! b) ((B(h := as @ bs)) b)" by simp
    show "distinct ((B(h := as @ bs)) b)" using Bh(2) B b by (simp add: chains_def)
    have "set (as @ bs) = {c \<in> S - {a}. slot_of ?H ?bits c = h}" using Bh(2,3) by auto
    then show "set ((B(h := as @ bs)) b) = {c \<in> S - {a}. slot_of H' ?bits c = b}"
      using B b h by (auto simp: chains_def slot_of_relinked [OF rl])
  qed (simp add: tab'_def len)
  moreover have "\<forall>c\<in>S - {a}. c \<noteq> 0 \<and> H' c \<noteq> None" using nz relinked_None [OF rl] by blast
  ultimately have "linked H' tab' ?bits (S - {a})" using bits by (auto simp: linked_def)
  with run rl show ?thesis by blast
qed

section \<open>Resizing and searching\<close>

text \<open>
  While the chains of the old table are moved, those still to come are intact: \<open>moved\<close> holds of the new table and the
  set of shapes in it, and of the heap, which differs from the old one in the links of these shapes only.
\<close>

definition moved ::
  "(nat \<Rightarrow> shape option) \<Rightarrow> (nat \<Rightarrow> shape option) \<Rightarrow> nat list \<Rightarrow> nat \<Rightarrow> nat set \<Rightarrow> bool" where
  "moved H0 H tab bits S \<longleftrightarrow> linked H tab bits S \<and> relinked H0 H \<and> (\<forall>a. a \<notin> S \<longrightarrow> H a = H0 a)"

lemma rehash_chain_moved:
  assumes "moved H0 (rt_shapes rt) tab bits S" "schain H0 x as" "distinct as" "set as \<inter> S = {}"
  shows "\<exists>tab' H. rehash_chain bits x tab rt = Some (tab', rt\<lparr>rt_shapes := H\<rparr>) \<and> moved H0 H tab' bits (S \<union> set as)"
  using assms
proof (induction as arbitrary: x tab rt S)
  case Nil
  then show ?case by (subst rehash_chain.simps) (auto intro!: exI [of _ "rt_shapes rt"])
next
  case (Cons a as)
  obtain s where s: "x = a" "a \<noteq> 0" "H0 a = Some s" "schain H0 (ss_shape_hash_next s) as" using Cons.prems(2) by auto
  have a: "rt_shapes rt a = Some s" "a \<notin> S" using Cons.prems(1,4) s(3) by (auto simp: moved_def)
  define h where "h = get_shape_hash (ss_hash s) bits"
  define H where "H = (rt_shapes rt)(a := Some (s\<lparr>ss_shape_hash_next := tab ! h\<rparr>))"
  have lk: "linked (rt_shapes rt) tab bits S" using Cons.prems(1) by (simp add: moved_def)
  have l: "h < length tab" "linked H (tab[h := a]) bits (insert a S)"
    using linked_link [OF lk a s(2)] by (simp_all add: h_def H_def)
  have mv: "moved H0 H (tab[h := a]) bits (insert a S)"
    using Cons.prems(1) l(2) relinked_update [of "rt_shapes rt" a s, OF a(1)] relinked_trans
    by (auto simp: moved_def H_def)
  have "rehash_chain bits x tab rt = rehash_chain bits (ss_shape_hash_next s) (tab[h := a]) (rt\<lparr>rt_shapes := H\<rparr>)"
    using s a l(1) by (subst rehash_chain.simps) (simp add: get_sh_def Let_def h_def wr_def set_sh_def H_def)
  moreover obtain tab' H' where "rehash_chain bits (ss_shape_hash_next s) (tab[h := a]) (rt\<lparr>rt_shapes := H\<rparr>) =
      Some (tab', rt\<lparr>rt_shapes := H'\<rparr>)" "moved H0 H' tab' bits (insert a S \<union> set as)"
    using Cons.IH [of "rt\<lparr>rt_shapes := H\<rparr>" "tab[h := a]" "insert a S" "ss_shape_hash_next s"] mv s(4) Cons.prems(3,4) by auto
  ultimately show ?case by auto
qed

lemma rehash_chains_moved:
  assumes "moved H0 (rt_shapes rt) tab bits S" "list_all2 (schain H0) xs ass" "distinct (concat ass)" "set (concat ass) \<inter> S = {}"
  shows "\<exists>tab' H. rehash_chains bits xs tab rt = Some (tab', rt\<lparr>rt_shapes := H\<rparr>) \<and> moved H0 H tab' bits (S \<union> set (concat ass))"
  using assms
proof (induction xs arbitrary: ass tab rt S)
  case Nil
  then show ?case by (auto intro!: exI [of _ "rt_shapes rt"])
next
  case (Cons x xs)
  then obtain as ass' where ass: "ass = as # ass'" "schain H0 x as" "list_all2 (schain H0) xs ass'" by (auto simp: list_all2_Cons1)
  have d: "distinct as" "distinct (concat ass')" "set as \<inter> set (concat ass') = {}" "set as \<inter> S = {}" "set (concat ass') \<inter> S = {}"
    using Cons.prems(3,4) by (auto simp: ass(1))
  obtain tab1 H1 where r1: "rehash_chain bits x tab rt = Some (tab1, rt\<lparr>rt_shapes := H1\<rparr>)" "moved H0 H1 tab1 bits (S \<union> set as)"
    using rehash_chain_moved [OF Cons.prems(1) ass(2) d(1,4)] by blast
  have "moved H0 (rt_shapes (rt\<lparr>rt_shapes := H1\<rparr>)) tab1 bits (S \<union> set as)" "set (concat ass') \<inter> (S \<union> set as) = {}"
    using r1(2) d(3,5) by auto
  from Cons.IH [OF this(1) ass(3) d(2) this(2)] obtain tab2 H2 where
    "rehash_chains bits xs tab1 (rt\<lparr>rt_shapes := H1\<rparr>) = Some (tab2, rt\<lparr>rt_shapes := H2\<rparr>)"
    "moved H0 H2 tab2 bits (S \<union> set as \<union> set (concat ass'))" by auto
  with r1(1) show ?case by (auto simp: ass(1) Un_assoc)
qed

lemma linked_empty: "bits \<le> 31 \<Longrightarrow> linked H (replicate (2 ^ bits) 0) bits {}"
  by (auto simp: linked_def chains_def intro!: exI [of _ "\<lambda>_. []"])

lemma distinct_concat_slots:
  "\<forall>b<n. distinct (B b) \<Longrightarrow> \<forall>b<n. \<forall>c<n. b \<noteq> c \<longrightarrow> set (B b) \<inter> set (B c) = {} \<Longrightarrow> distinct (concat (map B [0..<n]))"
proof (induction n)
  case (Suc n)
  have "distinct (concat (map B [0..<n]))" using Suc by (simp add: less_Suc_eq)
  moreover have "set (concat (map B [0..<n])) \<inter> set (B n) = {}"
  proof -
    have "set (B b) \<inter> set (B n) = {}" if "b < n" for b using Suc.prems(2) that by simp
    then show ?thesis by (auto simp: disjoint_iff)
  qed
  ultimately show ?case using Suc.prems(1) by simp
qed simp

lemma linked_resize:
  assumes "linked (rt_shapes rt) (rt_shape_hash rt) (shape_hash_bits rt) S" "shape_hash_size rt = 2 ^ shape_hash_bits rt" "bits < 31"
  shows "\<exists>r rt'. resize_shape_hash mem bits rt = Some (r, rt') \<and> (rt' = rt \<or>
    (\<exists>H tab. rt' = rt\<lparr>rt_shapes := H, shape_hash_bits := bits, shape_hash_size := 2 ^ bits, rt_shape_hash := tab\<rparr> \<and>
       linked H tab bits S \<and> relinked (rt_shapes rt) H))"
proof (cases "mem rt (8 * 2 ^ bits)")
  case None
  with assms(3) show ?thesis by (auto simp: resize_shape_hash_def Let_def)
next
  case (Some m)
  let ?H = "rt_shapes rt" and ?tab = "rt_shape_hash rt" and ?n = "2 ^ shape_hash_bits rt :: nat"
  obtain B where B: "chains ?H ?tab (shape_hash_bits rt) S B" and b31: "shape_hash_bits rt \<le> 31" using assms(1) by (auto simp: linked_def)
  define ass where "ass = map B [0..<?n]"
  have heads: "rd_block ?tab 0 (shape_hash_size rt) = Some ?tab" using B assms(2) by (simp add: rd_block_def chains_def)
  have 1: "list_all2 (schain ?H) ?tab ass" using B by (simp add: chains_def ass_def list_all2_conv_all_nth)
  have sets: "\<forall>b<?n. distinct (B b) \<and> set (B b) = {a \<in> S. slot_of ?H (shape_hash_bits rt) a = b}" using B by (simp add: chains_def)
  have 2: "distinct (concat ass)" unfolding ass_def using sets by (intro distinct_concat_slots) auto
  have 3: "set (concat ass) = S"
    using sets slot_of_less [OF b31, of ?H] by (auto simp: ass_def)
  have "moved ?H ?H (replicate (2 ^ bits) 0) bits {}" using linked_empty [of bits] assms(3) by (simp add: moved_def)
  from rehash_chains_moved [OF this 1 2] obtain tab' H where
    "rehash_chains bits ?tab (replicate (2 ^ bits) 0) rt = Some (tab', rt\<lparr>rt_shapes := H\<rparr>)" "moved ?H H tab' bits S"
    using 3 by auto
  with Some heads assms(3) show ?thesis by (auto simp: resize_shape_hash_def Let_def moved_def)
qed

text \<open>What a search finds is linked and satisfies the test.\<close>

lemma find_in_chain_sound:
  assumes "schain (rt_shapes rt) x as" "\<forall>a\<in>set as. \<forall>s. rt_shapes rt a = Some s \<longrightarrow> P s \<noteq> None"
  shows "\<exists>a. find_in_chain P x rt = Some a \<and> (a = 0 \<or> a \<in> set as \<and> (\<exists>s. rt_shapes rt a = Some s \<and> P s = Some True))"
  using assms
proof (induction as arbitrary: x)
  case Nil
  then show ?case by (subst find_in_chain.simps) simp
next
  case (Cons a as)
  obtain s where s: "x = a" "a \<noteq> 0" "rt_shapes rt a = Some s" "schain (rt_shapes rt) (ss_shape_hash_next s) as" using Cons.prems(1) by auto
  obtain b where b: "P s = Some b" using Cons.prems(2) s(3) by auto
  have "\<exists>c. find_in_chain P (ss_shape_hash_next s) rt = Some c \<and> (c = 0 \<or> c \<in> set as \<and> (\<exists>s. rt_shapes rt c = Some s \<and> P s = Some True))"
    using Cons.IH [OF s(4)] Cons.prems(2) by simp
  with s b show ?case by (subst find_in_chain.simps) (auto simp: get_sh_def)
qed

lemma linked_find:
  assumes "linked (rt_shapes rt) (rt_shape_hash rt) (shape_hash_bits rt) S"
    and "\<forall>a\<in>S. \<forall>s. rt_shapes rt a = Some s \<longrightarrow> P s \<noteq> None"
  shows "\<exists>t a. rd (rt_shape_hash rt) (get_shape_hash h (shape_hash_bits rt)) = Some t \<and> find_in_chain P t rt = Some a \<and>
    (a = 0 \<or> a \<in> S \<and> (\<exists>s. rt_shapes rt a = Some s \<and> P s = Some True))"
proof -
  let ?b = "get_shape_hash h (shape_hash_bits rt)"
  obtain B where B: "chains (rt_shapes rt) (rt_shape_hash rt) (shape_hash_bits rt) S B" and bits: "shape_hash_bits rt \<le> 31"
    using assms(1) by (auto simp: linked_def)
  note b = get_shape_hash_less [OF bits, of h]
  have c: "schain (rt_shapes rt) (rt_shape_hash rt ! ?b) (B ?b)" "set (B ?b) \<subseteq> S" "?b < length (rt_shape_hash rt)"
    using B b by (auto simp: chains_def)
  have "\<forall>a\<in>set (B ?b). \<forall>s. rt_shapes rt a = Some s \<longrightarrow> P s \<noteq> None" using assms(2) c(2) by blast
  from find_in_chain_sound [OF c(1) this] c(2,3) show ?thesis by (auto simp: rd_def)
qed

end
