(* ===== verification/Shape_Refine.thy ===== *)
theory Shape_Refine
  imports Shape_Table
begin

text \<open>
  What shapes promise: an object is a list of named properties in order of creation, and sharing the shapes between
  objects is invisible. The invariant of the runtime, the abstraction of an object, and the effect of the operations on
  shapes that leave all objects alone.
\<close>

section \<open>Invariant\<close>

definition atom_at :: "shape_prop option list \<Rightarrow> nat \<Rightarrow> u32" where
  "atom_at props i = (case props ! i of Some pr \<Rightarrow> pr_atom pr | None \<Rightarrow> JS_ATOM_NULL)"

definition shape_ok :: "shape \<Rightarrow> bool" where
  "shape_ok s \<longleftrightarrow>
     length (ss_prop s) = ss_prop_size s \<and> ss_prop_count s \<le> ss_prop_size s \<and> ss_prop_count s < 2 ^ 26 \<and>
     (\<forall>i < ss_prop_count s. ss_prop s ! i \<noteq> None) \<and>
     hash_ok (ss_prop_hash_mask s) (ss_prop_hash s) (ss_prop s) (ss_prop_count s) \<and>
     ss_deleted_prop_count s + length (lives (ss_prop s) (ss_prop_count s)) = ss_prop_count s \<and>
     distinct (map (atom_at (ss_prop s)) (lives (ss_prop s) (ss_prop_count s))) \<and>
     (\<forall>i\<in>set (lives (ss_prop s) (ss_prop_count s)). AtomIsTaggedInt (atom_at (ss_prop s) i) \<longrightarrow> ss_has_small_array_index s)"

type_synonym prop_entry = "(u32 \<times> u8) \<times> js_property option"

definition entry_at :: "shape_prop option list \<Rightarrow> js_property option list \<Rightarrow> nat \<Rightarrow> prop_entry" where
  "entry_at props vals i = (case props ! i of Some pr \<Rightarrow> prop_key pr | None \<Rightarrow> (JS_ATOM_NULL, 0), vals ! i)"

definition props_view :: "shape \<Rightarrow> js_property option list \<Rightarrow> prop_entry list" where
  "props_view s vals = map (entry_at (ss_prop s) vals) (lives (ss_prop s) (ss_prop_count s))"

definition view :: "shape_rt \<Rightarrow> nat \<Rightarrow> prop_entry list option" where
  "view rt p = do { ob \<leftarrow> rt_objects rt p; s \<leftarrow> rt_shapes rt (so_shape ob); Some (props_view s (so_prop ob)) }"

text \<open>The member of the union a property has under its flags.\<close>

definition kind_ok :: "u8 \<Rightarrow> js_property \<Rightarrow> bool" where
  "kind_ok flags pr \<longleftrightarrow>
     (case pr of
        Prop_value v \<Rightarrow> flags AND JS_PROP_TMASK = 0
      | Prop_getset g s \<Rightarrow> flags AND JS_PROP_TMASK = JS_PROP_GETSET
      | Prop_var_ref r \<Rightarrow> flags AND JS_PROP_TMASK = JS_PROP_VARREF
      | Prop_init c \<Rightarrow> flags AND JS_PROP_TMASK = JS_PROP_AUTOINIT)"

definition entry_ok :: "prop_entry \<Rightarrow> bool" where
  "entry_ok e \<longleftrightarrow> (\<exists>v. snd e = Some v \<and> kind_ok (snd (fst e)) v)"

definition holders :: "shape_rt \<Rightarrow> nat \<Rightarrow> nat set" where
  "holders rt a = {p. \<exists>ob. rt_objects rt p = Some ob \<and> so_shape ob = a}"

text \<open>
  \<open>E a\<close> counts the references to the shape a that are held by the code outside the objects. The objects in X have a new
  property whose value is not initialised yet. S are the shapes in the hash table.
\<close>

definition shapes_inv :: "shape_rt \<Rightarrow> (nat \<Rightarrow> nat) \<Rightarrow> bool" where
  "shapes_inv rt E \<longleftrightarrow> (\<forall>a s. rt_shapes rt a = Some s \<longrightarrow>
     shape_ok s \<and> a \<in> set (rt_gc_objs rt) \<and> (\<not> ss_is_hashed s \<longrightarrow> ss_ref_count s = 1) \<and>
     finite (holders rt a) \<and> int (card (holders rt a) + E a) \<le> ss_ref_count s)"

definition objects_inv :: "shape_rt \<Rightarrow> nat set \<Rightarrow> bool" where
  "objects_inv rt X \<longleftrightarrow> (\<forall>p ob. rt_objects rt p = Some ob \<longrightarrow>
     (\<exists>s. rt_shapes rt (so_shape ob) = Some s \<and> ss_prop_size s \<le> length (so_prop ob) \<and>
        (p \<notin> X \<longrightarrow> (\<forall>e\<in>set (props_view s (so_prop ob)). entry_ok e))))"

definition rt_inv :: "shape_rt \<Rightarrow> nat set \<Rightarrow> (nat \<Rightarrow> nat) \<Rightarrow> nat set \<Rightarrow> bool" where
  "rt_inv rt S E X \<longleftrightarrow>
     linked (rt_shapes rt) (rt_shape_hash rt) (shape_hash_bits rt) S \<and> shape_hash_size rt = 2 ^ shape_hash_bits rt \<and>
     rt_shapes rt 0 = None \<and> rt_objects rt 0 = None \<and> shapes_inv rt E \<and> objects_inv rt X"

definition hashed_shapes :: "shape_rt \<Rightarrow> nat set" where
  "hashed_shapes rt = {a. \<exists>s. rt_shapes rt a = Some s \<and> ss_is_hashed s}"

definition rt_ok :: "shape_rt \<Rightarrow> bool" where
  "rt_ok rt \<longleftrightarrow> rt_inv rt (hashed_shapes rt) (\<lambda>_. 0) {}"

text \<open>What \<open>malloc\<close> promises: the address is not in use.\<close>

definition mem_ok :: "shape_mem \<Rightarrow> bool" where
  "mem_ok mem \<longleftrightarrow> (\<forall>rt n a. mem rt n = Some a \<longrightarrow> a \<noteq> 0 \<and> rt_shapes rt a = None \<and> rt_objects rt a = None)"

text \<open>Memory can run out: some allocation fails although the heap is finite.\<close>

definition heap_finite :: "shape_rt \<Rightarrow> bool" where
  "heap_finite rt \<longleftrightarrow> finite (dom (rt_shapes rt)) \<and> finite (dom (rt_objects rt))"

definition oom :: "shape_mem \<Rightarrow> bool" where
  "oom mem \<longleftrightarrow> (\<exists>rt n. heap_finite rt \<and> mem rt n = None)"

section \<open>What the invariant depends on\<close>

lemma events_simps [simp]:
  "view (rt\<lparr>rt_events := ev\<rparr>) = view rt" "rt_inv (rt\<lparr>rt_events := ev\<rparr>) S E X = rt_inv rt S E X"
  "hashed_shapes (rt\<lparr>rt_events := ev\<rparr>) = hashed_shapes rt" "holders (rt\<lparr>rt_events := ev\<rparr>) a = holders rt a"
  by (simp_all add: view_def fun_eq_iff rt_inv_def shapes_inv_def objects_inv_def holders_def hashed_shapes_def)

lemma event_simps [simp]:
  "rt_shapes (event e rt) = rt_shapes rt" "rt_objects (event e rt) = rt_objects rt" "rt_gc_objs (event e rt) = rt_gc_objs rt"
  "shape_hash_bits (event e rt) = shape_hash_bits rt" "rt_shape_hash (event e rt) = rt_shape_hash rt"
  "shape_hash_size (event e rt) = shape_hash_size rt" "shape_hash_count (event e rt) = shape_hash_count rt"
  "view (event e rt) = view rt" "rt_inv (event e rt) S E X = rt_inv rt S E X"
  "hashed_shapes (event e rt) = hashed_shapes rt" "get_sh (event e rt) a = get_sh rt a" "get_ob (event e rt) p = get_ob rt p"
  "holders (event e rt) a = holders rt a"
  by (simp_all add: event_def get_sh_def get_ob_def)

lemma rt_inv_get_sh: "rt_inv rt S E X \<Longrightarrow> get_sh rt a = rt_shapes rt a"
  by (simp add: rt_inv_def get_sh_def)

lemma rt_inv_get_ob: "rt_inv rt S E X \<Longrightarrow> get_ob rt p = rt_objects rt p"
  by (simp add: rt_inv_def get_ob_def)

lemma rt_inv_shape: "rt_inv rt S E X \<Longrightarrow> rt_shapes rt a = Some s \<Longrightarrow> a \<noteq> 0 \<and> shape_ok s"
  by (metis option.distinct(1) rt_inv_def shapes_inv_def)

lemma rt_inv_object: "rt_inv rt S E X \<Longrightarrow> rt_objects rt p = Some ob \<Longrightarrow>
    p \<noteq> 0 \<and> so_shape ob \<noteq> 0 \<and> (\<exists>s. rt_shapes rt (so_shape ob) = Some s \<and> ss_prop_size s \<le> length (so_prop ob) \<and>
      (p \<notin> X \<longrightarrow> (\<forall>e\<in>set (props_view s (so_prop ob)). entry_ok e)))"
  by (metis option.distinct(1) rt_inv_def objects_inv_def)

lemma rt_inv_holder: "rt_inv rt S E X \<Longrightarrow> rt_objects rt p = Some ob \<Longrightarrow> rt_shapes rt (so_shape ob) = Some s \<Longrightarrow>
    ss_prop_size s \<le> length (so_prop ob) \<and> (p \<notin> X \<longrightarrow> (\<forall>e\<in>set (props_view s (so_prop ob)). entry_ok e))"
  using rt_inv_object [of rt S E X p ob] by auto

lemma rt_inv_finite: "rt_inv rt S E X \<Longrightarrow> heap_finite rt"
proof -
  assume inv: "rt_inv rt S E X"
  have "dom (rt_shapes rt) \<subseteq> set (rt_gc_objs rt)" using inv by (auto simp: rt_inv_def shapes_inv_def)
  then have f: "finite (dom (rt_shapes rt))" by (rule finite_subset) simp
  have "dom (rt_objects rt) \<subseteq> (\<Union>a\<in>dom (rt_shapes rt). holders rt a)"
    using rt_inv_object [OF inv] by (fastforce simp: holders_def)
  moreover have "finite (holders rt a)" if "a \<in> dom (rt_shapes rt)" for a
    using inv that by (auto simp: rt_inv_def shapes_inv_def)
  then have "finite (\<Union>a\<in>dom (rt_shapes rt). holders rt a)" using f by blast
  ultimately have "finite (dom (rt_objects rt))" by (rule finite_subset)
  with f show ?thesis by (simp add: heap_finite_def)
qed

lemma holder_in: "rt_objects rt p = Some ob \<Longrightarrow> p \<in> holders rt (so_shape ob)"
  by (simp add: holders_def)

text \<open>A shape up to its links, its references and its place in the hash table.\<close>

definition core :: "shape \<Rightarrow> shape" where
  "core s = s\<lparr>ss_shape_hash_next := 0, ss_ref_count := 0, ss_hash := 0, ss_is_hashed := False, ss_proto := 0\<rparr>"

lemma core_eq:
  assumes "core s' = core s"
  shows "ss_prop s' = ss_prop s" "ss_prop_count s' = ss_prop_count s" "ss_prop_size s' = ss_prop_size s" "shape_ok s' = shape_ok s"
    "props_view s' = props_view s" "ss_deleted_prop_count s' = ss_deleted_prop_count s"
proof -
  have fields: "ss_prop s' = ss_prop s" "ss_prop_count s' = ss_prop_count s" "ss_prop_size s' = ss_prop_size s"
    "ss_deleted_prop_count s' = ss_deleted_prop_count s" "ss_prop_hash s' = ss_prop_hash s"
    "ss_prop_hash_mask s' = ss_prop_hash_mask s" "ss_has_small_array_index s' = ss_has_small_array_index s"
    using arg_cong [OF assms, of ss_prop] arg_cong [OF assms, of ss_prop_count] arg_cong [OF assms, of ss_prop_size]
      arg_cong [OF assms, of ss_deleted_prop_count] arg_cong [OF assms, of ss_prop_hash]
      arg_cong [OF assms, of ss_prop_hash_mask] arg_cong [OF assms, of ss_has_small_array_index] by (simp_all add: core_def)
  then show "ss_prop s' = ss_prop s" "ss_prop_count s' = ss_prop_count s" "ss_prop_size s' = ss_prop_size s"
    "ss_deleted_prop_count s' = ss_deleted_prop_count s" by simp_all
  show "shape_ok s' = shape_ok s" unfolding shape_ok_def fields ..
  show "props_view s' = props_view s" unfolding props_view_def fun_eq_iff fields by simp
qed

lemma core_simps [simp]:
  "core (s\<lparr>ss_shape_hash_next := n\<rparr>) = core s" "core (s\<lparr>ss_ref_count := r\<rparr>) = core s" "core (s\<lparr>ss_hash := h\<rparr>) = core s"
  "core (s\<lparr>ss_is_hashed := b\<rparr>) = core s"
  by (simp_all add: core_def)

lemma shape_ok_simps [simp]:
  "shape_ok (s\<lparr>ss_shape_hash_next := n\<rparr>) = shape_ok s" "shape_ok (s\<lparr>ss_ref_count := r\<rparr>) = shape_ok s"
  "shape_ok (s\<lparr>ss_hash := h\<rparr>) = shape_ok s" "shape_ok (s\<lparr>ss_is_hashed := b\<rparr>) = shape_ok s"
  by (simp_all add: shape_ok_def)

lemma props_view_simps [simp]:
  "props_view (s\<lparr>ss_shape_hash_next := n\<rparr>) v = props_view s v" "props_view (s\<lparr>ss_ref_count := r\<rparr>) v = props_view s v"
  "props_view (s\<lparr>ss_hash := h\<rparr>) v = props_view s v" "props_view (s\<lparr>ss_is_hashed := b\<rparr>) v = props_view s v"
  by (simp_all add: props_view_def)

lemma view_cong:
  assumes "rt_objects rt' p = rt_objects rt p"
    "\<And>ob. rt_objects rt p = Some ob \<Longrightarrow> map_option core (rt_shapes rt' (so_shape ob)) = map_option core (rt_shapes rt (so_shape ob))"
  shows "view rt' p = view rt p"
proof (cases "rt_objects rt p")
  case None
  with assms(1) show ?thesis by (simp add: view_def)
next
  case (Some ob)
  note same = assms(2) [OF Some]
  show ?thesis
  proof (cases "rt_shapes rt (so_shape ob)")
    case (Some s)
    then obtain s' where "rt_shapes rt' (so_shape ob) = Some s'" "core s' = core s" using same by auto
    with Some \<open>rt_objects rt p = Some ob\<close> assms(1) core_eq(5) [of s' s] show ?thesis by (simp add: view_def)
  qed (use same Some assms(1) in \<open>simp add: view_def\<close>)
qed

section \<open>Linking and unlinking\<close>

text \<open>Two states that differ in the hash table of the shapes only.\<close>

definition table_step :: "shape_rt \<Rightarrow> shape_rt \<Rightarrow> bool" where
  "table_step rt rt' \<longleftrightarrow> relinked (rt_shapes rt) (rt_shapes rt') \<and> rt_objects rt' = rt_objects rt \<and> rt_gc_objs rt' = rt_gc_objs rt"

lemma table_step_refl [simp]: "table_step rt rt"
  by (simp add: table_step_def)

lemma table_step_trans: "table_step rt rt1 \<Longrightarrow> table_step rt1 rt2 \<Longrightarrow> table_step rt rt2"
  by (auto simp: table_step_def intro: relinked_trans)

lemma table_step_shape: "table_step rt rt' \<Longrightarrow> rt_shapes rt a = Some s \<Longrightarrow> \<exists>n. rt_shapes rt' a = Some (s\<lparr>ss_shape_hash_next := n\<rparr>)"
  by (auto simp: table_step_def dest: relinked_Some)

lemma table_step_back: "table_step rt rt' \<Longrightarrow> rt_shapes rt' a = Some s' \<Longrightarrow>
    \<exists>s n. rt_shapes rt a = Some s \<and> s' = s\<lparr>ss_shape_hash_next := n\<rparr>"
  using relinked_Some [of "rt_shapes rt'" "rt_shapes rt" a s'] relinked_Some [of "rt_shapes rt" "rt_shapes rt'" a]
  by (fastforce simp: table_step_def dest: relinked_back)

lemma table_step_None: "table_step rt rt' \<Longrightarrow> rt_shapes rt' a = None \<longleftrightarrow> rt_shapes rt a = None"
  by (simp add: table_step_def relinked_None)

lemma table_step_view: "table_step rt rt' \<Longrightarrow> view rt' = view rt"
proof
  fix p
  assume t: "table_step rt rt'"
  show "view rt' p = view rt p"
  proof (rule view_cong)
    show "map_option core (rt_shapes rt' (so_shape ob)) = map_option core (rt_shapes rt (so_shape ob))" for ob
      using table_step_shape [OF t, of "so_shape ob"] table_step_None [OF t, of "so_shape ob"]
      by (cases "rt_shapes rt (so_shape ob)") auto
  qed (use t in \<open>simp add: table_step_def\<close>)
qed

lemma table_step_hashed: "table_step rt rt' \<Longrightarrow> hashed_shapes rt' = hashed_shapes rt"
  by (auto simp: hashed_shapes_def dest: table_step_shape table_step_back)

lemma table_step_inv:
  assumes "table_step rt rt'" "rt_inv rt S E X" "linked (rt_shapes rt') (rt_shape_hash rt') (shape_hash_bits rt') S'"
    "shape_hash_size rt' = 2 ^ shape_hash_bits rt'"
  shows "rt_inv rt' S' E X"
proof -
  have h: "holders rt' a = holders rt a" for a using assms(1) by (simp add: holders_def table_step_def)
  have "shapes_inv rt' E"
    using assms(1,2) unfolding shapes_inv_def h by (fastforce dest!: table_step_back [OF assms(1)] simp: rt_inv_def shapes_inv_def table_step_def)
  moreover have "objects_inv rt' X"
    unfolding objects_inv_def
  proof (intro allI impI)
    fix p ob
    assume "rt_objects rt' p = Some ob"
    then have "rt_objects rt p = Some ob" using assms(1) by (simp add: table_step_def)
    then obtain s where s: "rt_shapes rt (so_shape ob) = Some s" "ss_prop_size s \<le> length (so_prop ob)"
      "p \<notin> X \<longrightarrow> (\<forall>e\<in>set (props_view s (so_prop ob)). entry_ok e)" using rt_inv_object [OF assms(2)] by blast
    then show "\<exists>s. rt_shapes rt' (so_shape ob) = Some s \<and> ss_prop_size s \<le> length (so_prop ob) \<and>
        (p \<notin> X \<longrightarrow> (\<forall>e\<in>set (props_view s (so_prop ob)). entry_ok e))"
      using table_step_shape [OF assms(1) s(1)] by auto
  qed
  ultimately show ?thesis using assms table_step_None [OF assms(1), of 0] by (simp add: rt_inv_def table_step_def)
qed

lemma js_shape_hash_link_inv:
  assumes "rt_inv rt S E X" "rt_shapes rt a = Some s" "a \<notin> S"
  shows "\<exists>rt'. js_shape_hash_link a rt = Some rt' \<and> rt_inv rt' (insert a S) E X \<and> table_step rt rt'"
proof -
  let ?h = "get_shape_hash (ss_hash s) (shape_hash_bits rt)"
  have lk: "linked (rt_shapes rt) (rt_shape_hash rt) (shape_hash_bits rt) S" and nz: "a \<noteq> 0"
    using assms rt_inv_shape by (auto simp: rt_inv_def)
  define rt' where "rt' = rt\<lparr>rt_shapes := (rt_shapes rt)(a := Some (s\<lparr>ss_shape_hash_next := rt_shape_hash rt ! ?h\<rparr>)),
      rt_shape_hash := (rt_shape_hash rt)[?h := a], shape_hash_count := shape_hash_count rt + 1\<rparr>"
  note l = linked_link [OF lk assms(2,3) nz]
  have step: "table_step rt rt'" using relinked_update [of "rt_shapes rt" a s, OF assms(2)] by (simp add: table_step_def rt'_def)
  have "js_shape_hash_link a rt = Some rt'"
    using l assms(2) nz by (simp add: js_shape_hash_link_def get_sh_def Let_def wr_def set_sh_def rt'_def)
  moreover have "rt_inv rt' (insert a S) E X"
    using l assms(1) by (intro table_step_inv [OF step assms(1)]) (simp_all add: rt'_def rt_inv_def)
  ultimately show ?thesis using step by blast
qed

lemma js_shape_hash_unlink_inv:
  assumes "rt_inv rt S E X" "a \<in> S"
  shows "\<exists>rt'. js_shape_hash_unlink a rt = Some rt' \<and> rt_inv rt' (S - {a}) E X \<and> table_step rt rt'"
proof -
  have "linked (rt_shapes rt) (rt_shape_hash rt) (shape_hash_bits rt) S" using assms(1) by (simp add: rt_inv_def)
  from linked_unlink [OF this assms(2)] obtain H tab where
    u: "js_shape_hash_unlink a rt = Some (rt\<lparr>rt_shapes := H, rt_shape_hash := tab, shape_hash_count := shape_hash_count rt - 1\<rparr>)"
      "linked H tab (shape_hash_bits rt) (S - {a})" "relinked (rt_shapes rt) H" by blast
  let ?rt = "rt\<lparr>rt_shapes := H, rt_shape_hash := tab, shape_hash_count := shape_hash_count rt - 1\<rparr>"
  have step: "table_step rt ?rt" using u(3) by (simp add: table_step_def)
  have "rt_inv ?rt (S - {a}) E X" using u(2) assms(1) by (intro table_step_inv [OF step assms(1)]) (simp_all add: rt_inv_def)
  with u(1) step show ?thesis by blast
qed

section \<open>Changing a shape or an object\<close>

lemma set_sh_simps [simp]:
  "rt_shapes (set_sh a v rt) = (rt_shapes rt)(a := v)" "rt_objects (set_sh a v rt) = rt_objects rt"
  "rt_gc_objs (set_sh a v rt) = rt_gc_objs rt" "shape_hash_bits (set_sh a v rt) = shape_hash_bits rt"
  "rt_shape_hash (set_sh a v rt) = rt_shape_hash rt" "shape_hash_size (set_sh a v rt) = shape_hash_size rt"
  "holders (set_sh a v rt) b = holders rt b" "get_ob (set_sh a v rt) p = get_ob rt p"
  by (simp_all add: set_sh_def holders_def get_ob_def)

lemma set_ob_simps [simp]:
  "rt_shapes (set_ob p ob rt) = rt_shapes rt" "rt_objects (set_ob p ob rt) = (rt_objects rt)(p := Some ob)"
  "rt_gc_objs (set_ob p ob rt) = rt_gc_objs rt" "shape_hash_bits (set_ob p ob rt) = shape_hash_bits rt"
  "rt_shape_hash (set_ob p ob rt) = rt_shape_hash rt" "shape_hash_size (set_ob p ob rt) = shape_hash_size rt"
  "get_sh (set_ob p ob rt) a = get_sh rt a"
  by (simp_all add: set_ob_def get_sh_def)

lemma add_gc_object_simps [simp]:
  "rt_shapes (add_gc_object a rt) = rt_shapes rt" "rt_objects (add_gc_object a rt) = rt_objects rt"
  "rt_gc_objs (add_gc_object a rt) = rt_gc_objs rt @ [a]" "shape_hash_bits (add_gc_object a rt) = shape_hash_bits rt"
  "rt_shape_hash (add_gc_object a rt) = rt_shape_hash rt" "shape_hash_size (add_gc_object a rt) = shape_hash_size rt"
  "shape_hash_count (add_gc_object a rt) = shape_hash_count rt"
  "holders (add_gc_object a rt) b = holders rt b"
  by (simp_all add: add_gc_object_def holders_def)

lemma dup_proto_simps [simp]:
  "rt_shapes (dup_proto a rt) = rt_shapes rt" "rt_objects (dup_proto a rt) = rt_objects rt"
  "rt_gc_objs (dup_proto a rt) = rt_gc_objs rt" "shape_hash_bits (dup_proto a rt) = shape_hash_bits rt"
  "rt_shape_hash (dup_proto a rt) = rt_shape_hash rt" "shape_hash_size (dup_proto a rt) = shape_hash_size rt"
  "shape_hash_count (dup_proto a rt) = shape_hash_count rt"
  by (simp_all add: dup_proto_def)

lemma each_atom_run:
  "n \<le> length props \<Longrightarrow> \<forall>i<n. props ! i \<noteq> None \<Longrightarrow> \<exists>ev. each_atom f props n rt = Some (rt\<lparr>rt_events := ev\<rparr>)"
proof (induction f props n rt rule: each_atom.induct)
  case (1 f props rt)
  then show ?case by (auto intro!: exI [of _ "rt_events rt"])
next
  case (3 f pr props n rt)
  have "pr \<noteq> None" using "3.prems"(2) by (metis nth_Cons_0 zero_less_Suc)
  then obtain q where q: "pr = Some q" by blast
  have "\<forall>i<n. props ! i \<noteq> None" using "3.prems"(2) by (metis Suc_less_eq nth_Cons_Suc)
  then have "\<exists>ev. each_atom f props n (event (f (pr_atom q)) rt) = Some ((event (f (pr_atom q)) rt)\<lparr>rt_events := ev\<rparr>)"
    using "3.IH" [of q] "3.prems"(1) q by simp
  then show ?case using q by (simp add: event_def)
qed simp

lemma shape_ok_atoms: "shape_ok s \<Longrightarrow> \<exists>ev. each_atom f (ss_prop s) (ss_prop_count s) rt = Some (rt\<lparr>rt_events := ev\<rparr>)"
  by (rule each_atom_run) (simp_all add: shape_ok_def)

lemma rt_inv_holders: "rt_inv rt S E X \<Longrightarrow> rt_shapes rt a = Some s \<Longrightarrow>
    finite (holders rt a) \<and> int (card (holders rt a) + E a) \<le> ss_ref_count s \<and> a \<in> set (rt_gc_objs rt) \<and>
    (\<not> ss_is_hashed s \<longrightarrow> ss_ref_count s = 1)"
  by (simp add: rt_inv_def shapes_inv_def)

lemma rt_inv_free: "rt_inv rt S E X \<Longrightarrow> rt_shapes rt a = None \<Longrightarrow> holders rt a = {} \<and> a \<notin> S"
proof -
  assume inv: "rt_inv rt S E X" and none: "rt_shapes rt a = None"
  have "so_shape ob \<noteq> a" if "rt_objects rt p = Some ob" for p ob using rt_inv_object [OF inv that] none by auto
  moreover have "a \<notin> S" using inv none by (auto simp: rt_inv_def linked_def)
  ultimately show ?thesis by (auto simp: holders_def)
qed

lemma rt_inv_set_sh:
  assumes inv: "rt_inv rt S E X" and s: "rt_shapes rt a = Some s"
    and s': "shape_ok s'" "\<not> ss_is_hashed s' \<longrightarrow> ss_ref_count s' = 1" "int (card (holders rt a) + e) \<le> ss_ref_count s'"
      "a \<in> S \<longrightarrow> ss_shape_hash_next s' = ss_shape_hash_next s \<and> ss_hash s' = ss_hash s"
    and obs: "\<And>p ob. rt_objects rt p = Some ob \<Longrightarrow> so_shape ob = a \<Longrightarrow>
       ss_prop_size s' \<le> length (so_prop ob) \<and> (p \<notin> X' \<longrightarrow> (\<forall>e\<in>set (props_view s' (so_prop ob)). entry_ok e))"
    and X: "X \<subseteq> X'"
  shows "rt_inv (set_sh a (Some s') rt) S (E(a := e)) X'"
proof -
  have "linked ((rt_shapes rt)(a := Some s')) (rt_shape_hash rt) (shape_hash_bits rt) S"
    by (rule linked_cong [of "rt_shapes rt"]) (use inv s s'(4) in \<open>auto simp: rt_inv_def\<close>)
  moreover have "shapes_inv (set_sh a (Some s') rt) (E(a := e))"
    unfolding shapes_inv_def
  proof (intro allI impI)
    fix b t
    assume t: "rt_shapes (set_sh a (Some s') rt) b = Some t"
    note h = rt_inv_holders [OF inv s]
    show "shape_ok t \<and> b \<in> set (rt_gc_objs (set_sh a (Some s') rt)) \<and> (\<not> ss_is_hashed t \<longrightarrow> ss_ref_count t = 1) \<and>
        finite (holders (set_sh a (Some s') rt) b) \<and> int (card (holders (set_sh a (Some s') rt) b) + (E(a := e)) b) \<le> ss_ref_count t"
    proof (cases "b = a")
      case True
      with t s' h show ?thesis by simp
    next
      case False
      then have "rt_shapes rt b = Some t" using t by simp
      with False rt_inv_holders [OF inv this] rt_inv_shape [OF inv this] show ?thesis by simp
    qed
  qed
  moreover have "objects_inv (set_sh a (Some s') rt) X'"
    unfolding objects_inv_def
  proof (intro allI impI)
    fix p ob
    assume "rt_objects (set_sh a (Some s') rt) p = Some ob"
    then have p: "rt_objects rt p = Some ob" by simp
    show "\<exists>s. rt_shapes (set_sh a (Some s') rt) (so_shape ob) = Some s \<and> ss_prop_size s \<le> length (so_prop ob) \<and>
        (p \<notin> X' \<longrightarrow> (\<forall>e\<in>set (props_view s (so_prop ob)). entry_ok e))"
    proof (cases "so_shape ob = a")
      case True
      with obs [OF p True] show ?thesis by simp
    next
      case False
      with rt_inv_object [OF inv p] X show ?thesis by auto
    qed
  qed
  moreover have "a \<noteq> 0" using rt_inv_shape [OF inv s] by blast
  ultimately show ?thesis using inv by (simp add: rt_inv_def)
qed

text \<open>An object gets the shape b, to which the code held a reference, instead of the shape a, which the code holds now.\<close>

lemma rt_inv_set_ob:
  assumes inv: "rt_inv rt S E X" and ob: "rt_objects rt p = Some ob" "so_shape ob = a"
    and b: "rt_shapes rt b = Some sb" "0 < E b" "a \<noteq> b"
    and new: "so_shape ob' = b" "ss_prop_size sb \<le> length (so_prop ob')"
      "p \<notin> X' \<longrightarrow> (\<forall>e\<in>set (props_view sb (so_prop ob')). entry_ok e)"
    and X: "\<And>q. q \<noteq> p \<Longrightarrow> q \<in> X \<Longrightarrow> q \<in> X'"
  shows "rt_inv (set_ob p ob' rt) S (E(b := E b - 1, a := E a + 1)) X'"
proof -
  let ?rt = "set_ob p ob' rt"
  have hb: "holders ?rt b = insert p (holders rt b)" "p \<notin> holders rt b" using ob b(3) new(1) by (auto simp: holders_def)
  have ha: "holders ?rt a = holders rt a - {p}" "p \<in> holders rt a" using ob b(3) new(1) by (auto simp: holders_def)
  have hc: "c \<noteq> a \<Longrightarrow> c \<noteq> b \<Longrightarrow> holders ?rt c = holders rt c" for c using ob new(1) by (auto simp: holders_def)
  have "shapes_inv ?rt (E(b := E b - 1, a := E a + 1))"
    unfolding shapes_inv_def
  proof (intro allI impI)
    fix c t
    assume "rt_shapes ?rt c = Some t"
    then have t: "rt_shapes rt c = Some t" by simp
    note h = rt_inv_holders [OF inv t] rt_inv_shape [OF inv t]
    have "finite (holders ?rt c) \<and> int (card (holders ?rt c) + (E(b := E b - 1, a := E a + 1)) c) \<le> ss_ref_count t"
    proof -
      consider "c = a" | "c = b" "c \<noteq> a" | "c \<noteq> a" "c \<noteq> b" by blast
      then show ?thesis
      proof cases
        case 1
        have "card (holders rt a) = Suc (card (holders rt a - {p}))" using h ha(2) 1 by (metis card_Suc_Diff1)
        with 1 h ha(1) show ?thesis by simp
      next
        case 2
        with h hb b(2) show ?thesis by simp
      next
        case 3
        with h hc show ?thesis by simp
      qed
    qed
    with h show "shape_ok t \<and> c \<in> set (rt_gc_objs ?rt) \<and> (\<not> ss_is_hashed t \<longrightarrow> ss_ref_count t = 1) \<and>
        finite (holders ?rt c) \<and> int (card (holders ?rt c) + (E(b := E b - 1, a := E a + 1)) c) \<le> ss_ref_count t" by simp
  qed
  moreover have "objects_inv ?rt X'"
    unfolding objects_inv_def
  proof (intro allI impI)
    fix q ob1
    assume q: "rt_objects ?rt q = Some ob1"
    show "\<exists>s. rt_shapes ?rt (so_shape ob1) = Some s \<and> ss_prop_size s \<le> length (so_prop ob1) \<and>
        (q \<notin> X' \<longrightarrow> (\<forall>e\<in>set (props_view s (so_prop ob1)). entry_ok e))"
    proof (cases "q = p")
      case True
      with q new b show ?thesis by auto
    next
      case False
      then have "rt_objects rt q = Some ob1" using q by simp
      from rt_inv_object [OF inv this] X [OF False] show ?thesis by auto
    qed
  qed
  ultimately show ?thesis using inv rt_inv_object [OF inv ob(1)] by (auto simp: rt_inv_def)
qed

text \<open>An object keeps its shape and gets other values.\<close>

lemma rt_inv_set_vals:
  assumes inv: "rt_inv rt S E X" and ob: "rt_objects rt p = Some ob" "rt_shapes rt (so_shape ob) = Some s"
    and new: "so_shape ob' = so_shape ob" "ss_prop_size s \<le> length (so_prop ob')"
      "p \<notin> X' \<longrightarrow> (\<forall>e\<in>set (props_view s (so_prop ob')). entry_ok e)"
    and X: "\<And>q. q \<noteq> p \<Longrightarrow> q \<in> X \<Longrightarrow> q \<in> X'"
  shows "rt_inv (set_ob p ob' rt) S E X'"
proof -
  have h: "holders (set_ob p ob' rt) c = holders rt c" for c using ob new(1) by (auto simp: holders_def)
  have "shapes_inv (set_ob p ob' rt) E" using inv by (simp add: rt_inv_def shapes_inv_def h)
  moreover have "objects_inv (set_ob p ob' rt) X'"
    unfolding objects_inv_def
  proof (intro allI impI)
    fix q ob1
    assume q: "rt_objects (set_ob p ob' rt) q = Some ob1"
    show "\<exists>s. rt_shapes (set_ob p ob' rt) (so_shape ob1) = Some s \<and> ss_prop_size s \<le> length (so_prop ob1) \<and>
        (q \<notin> X' \<longrightarrow> (\<forall>e\<in>set (props_view s (so_prop ob1)). entry_ok e))"
    proof (cases "q = p")
      case True
      with q new ob(2) show ?thesis by auto
    next
      case False
      then have "rt_objects rt q = Some ob1" using q by simp
      from rt_inv_object [OF inv this] X [OF False] show ?thesis by auto
    qed
  qed
  ultimately show ?thesis using inv rt_inv_object [OF inv ob(1)] by (auto simp: rt_inv_def)
qed

section \<open>Copying and releasing shapes\<close>

lemma hashed_shapes_set_sh:
  "rt_shapes rt a = Some s \<Longrightarrow> ss_is_hashed s' = ss_is_hashed s \<Longrightarrow> hashed_shapes (set_sh a (Some s') rt) = hashed_shapes rt"
  by (auto simp: hashed_shapes_def)

lemma js_dup_shape_inv:
  assumes inv: "rt_inv rt S E X" and s: "rt_shapes rt a = Some s" "ss_is_hashed s"
  shows "\<exists>rt'. js_dup_shape a rt = Some rt' \<and> rt' = set_sh a (Some (s\<lparr>ss_ref_count := ss_ref_count s + 1\<rparr>)) rt \<and>
    rt_inv rt' S (E(a := E a + 1)) X \<and> view rt' = view rt \<and> hashed_shapes rt' = hashed_shapes rt"
proof -
  let ?s = "s\<lparr>ss_ref_count := ss_ref_count s + 1\<rparr>"
  have "rt_inv (set_sh a (Some ?s) rt) S (E(a := E a + 1)) X"
    by (rule rt_inv_set_sh [OF inv s(1)])
      (use rt_inv_shape [OF inv s(1)] rt_inv_holders [OF inv s(1)] s(2) rt_inv_holder [OF inv] s(1) in simp_all)
  moreover have "view (set_sh a (Some ?s) rt) p = view rt p" for p
    by (rule view_cong) (use s(1) in auto)
  ultimately show ?thesis
    using s rt_inv_get_sh [OF inv] hashed_shapes_set_sh [of rt a s ?s] by (auto simp: js_dup_shape_def)
qed

lemma js_malloc_cases:
  assumes "mem_ok mem" "js_malloc mem n rt = (r, rt')"
  shows "\<exists>ev. rt' = rt\<lparr>rt_events := ev\<rparr>" "r = Some a \<Longrightarrow> a \<noteq> 0 \<and> rt_shapes rt a = None \<and> rt_objects rt a = None \<and> rt' = rt"
    "r = None \<Longrightarrow> heap_finite rt \<Longrightarrow> oom mem"
  using assms by (auto simp: js_malloc_def event_def mem_ok_def oom_def split: option.splits intro: exI [of _ "rt_events rt"])

text \<open>A new shape at a free address, referred to once.\<close>

lemma rt_inv_new_shape:
  assumes inv: "rt_inv rt S E X" and a: "a \<noteq> 0" "rt_shapes rt a = None" and s: "shape_ok s" "ss_ref_count s = 1"
    and rt': "rt_shapes rt' = (rt_shapes rt)(a := Some s)" "rt_objects rt' = rt_objects rt" "rt_gc_objs rt' = rt_gc_objs rt @ [a]"
      "shape_hash_bits rt' = shape_hash_bits rt" "rt_shape_hash rt' = rt_shape_hash rt" "shape_hash_size rt' = shape_hash_size rt"
  shows "rt_inv rt' S (E(a := 1)) X"
proof -
  note none = rt_inv_free [OF inv a(2)]
  have h: "holders rt' c = holders rt c" for c by (simp add: holders_def rt')
  have "linked (rt_shapes rt') (rt_shape_hash rt') (shape_hash_bits rt') S"
    unfolding rt' by (rule linked_cong [of "rt_shapes rt"]) (use inv none in \<open>auto simp: rt_inv_def\<close>)
  moreover have "shapes_inv rt' (E(a := 1))"
    using inv none s unfolding shapes_inv_def h rt' by (auto simp: rt_inv_def shapes_inv_def)
  moreover have "objects_inv rt' X"
    unfolding objects_inv_def rt'
  proof (intro allI impI)
    fix p ob
    assume p: "rt_objects rt p = Some ob"
    then have "so_shape ob \<noteq> a" using none holder_in by blast
    with rt_inv_object [OF inv p] show "\<exists>t. ((rt_shapes rt)(a \<mapsto> s)) (so_shape ob) = Some t \<and> ss_prop_size t \<le> length (so_prop ob) \<and>
        (p \<notin> X \<longrightarrow> (\<forall>e\<in>set (props_view t (so_prop ob)). entry_ok e))" by simp
  qed
  ultimately show ?thesis using inv a(1) by (simp add: rt_inv_def rt')
qed

lemma view_new_shape:
  assumes "rt_inv rt S E X" "rt_shapes rt a = None" "rt_shapes rt' = (rt_shapes rt)(a := s)" "rt_objects rt' = rt_objects rt"
  shows "view rt' = view rt"
proof
  fix p
  show "view rt' p = view rt p"
  proof (rule view_cong)
    fix ob
    assume "rt_objects rt p = Some ob"
    then have "so_shape ob \<noteq> a" using rt_inv_free [OF assms(1,2)] holder_in by blast
    then show "map_option core (rt_shapes rt' (so_shape ob)) = map_option core (rt_shapes rt (so_shape ob))" by (simp add: assms(3))
  qed (simp add: assms(4))
qed

lemma js_clone_shape_inv:
  assumes inv: "rt_inv rt S E X" and mem: "mem_ok mem" and s: "rt_shapes rt a = Some s"
  shows "\<exists>sh rt'. js_clone_shape mem a rt = Some (sh, rt') \<and> rt_objects rt' = rt_objects rt \<and> view rt' = view rt \<and>
    (sh = 0 \<and> oom mem \<and> rt_shapes rt' = rt_shapes rt \<and> rt_inv rt' S E X \<or>
     sh \<noteq> 0 \<and> rt_shapes rt sh = None \<and> rt_shapes rt' = (rt_shapes rt)(sh := Some (s\<lparr>ss_ref_count := 1, ss_is_hashed := False\<rparr>)) \<and>
       rt_inv rt' S (E(sh := 1)) X)"
proof -
  obtain r rt1 where m: "js_malloc mem (get_shape_size (unat (ss_prop_hash_mask s) + 1) (ss_prop_size s)) rt = (r, rt1)" by fastforce
  note mc = js_malloc_cases [OF mem m]
  have get: "get_sh rt a = Some s" using s rt_inv_get_sh [OF inv] by simp
  show ?thesis
  proof (cases r)
    case None
    obtain ev where "rt1 = rt\<lparr>rt_events := ev\<rparr>" using mc(1) by blast
    with None m get inv mc(3) rt_inv_finite [OF inv] show ?thesis by (simp add: js_clone_shape_def)
  next
    case (Some sh)
    let ?s = "s\<lparr>ss_ref_count := 1, ss_is_hashed := False\<rparr>"
    note new = mc(2) [OF Some]
    let ?rt = "dup_proto (ss_proto ?s) (add_gc_object sh (set_sh sh (Some ?s) rt))"
    have ok: "shape_ok ?s" using rt_inv_shape [OF inv s] by simp
    obtain ev where ev: "each_atom Dup_atom (ss_prop ?s) (ss_prop_count ?s) ?rt = Some (?rt\<lparr>rt_events := ev\<rparr>)"
      using shape_ok_atoms [OF ok] by blast
    have "rt_inv ?rt S (E(sh := 1)) X" by (rule rt_inv_new_shape [OF inv _ _ ok]) (use new in simp_all)
    moreover have "view ?rt = view rt" by (rule view_new_shape [OF inv]) (use new in auto)
    ultimately show ?thesis using Some m get ev new by (simp add: js_clone_shape_def Let_def)
  qed
qed

text \<open>A shape nobody refers to any more disappears.\<close>

lemma rt_inv_drop_shape:
  assumes inv: "rt_inv rt S E X" and a: "a \<notin> S" "holders rt a = {}"
    and rt': "rt_shapes rt' = (rt_shapes rt)(a := None)" "rt_objects rt' = rt_objects rt" "rt_gc_objs rt' = remove1 a (rt_gc_objs rt)"
      "shape_hash_bits rt' = shape_hash_bits rt" "rt_shape_hash rt' = rt_shape_hash rt" "shape_hash_size rt' = shape_hash_size rt"
  shows "rt_inv rt' S (E(a := 0)) X \<and> view rt' = view rt"
proof -
  have h: "holders rt' c = holders rt c" for c by (simp add: holders_def rt')
  have "linked (rt_shapes rt') (rt_shape_hash rt') (shape_hash_bits rt') S"
    unfolding rt' by (rule linked_cong [of "rt_shapes rt"]) (use inv a in \<open>auto simp: rt_inv_def\<close>)
  moreover have "shapes_inv rt' (E(a := 0))"
    using inv unfolding shapes_inv_def h rt' by (auto simp: rt_inv_def shapes_inv_def)
  moreover have off: "so_shape ob \<noteq> a" if "rt_objects rt p = Some ob" for p ob using a(2) holder_in [OF that] by auto
  have "objects_inv rt' X"
    unfolding objects_inv_def rt'
  proof (intro allI impI)
    fix p ob
    assume p: "rt_objects rt p = Some ob"
    with rt_inv_object [OF inv p] off show "\<exists>t. ((rt_shapes rt)(a := None)) (so_shape ob) = Some t \<and> ss_prop_size t \<le> length (so_prop ob) \<and>
        (p \<notin> X \<longrightarrow> (\<forall>e\<in>set (props_view t (so_prop ob)). entry_ok e))" by simp
  qed
  moreover have "view rt' p = view rt p" for p
    by (rule view_cong) (use off rt' in auto)
  ultimately show ?thesis using inv by (simp add: rt_inv_def rt' fun_eq_iff)
qed

end
