(* ===== verification/Shape_Ops.thy ===== *)
theory Shape_Ops
  imports Shape_Refine
begin

text \<open>
  The operations on objects keep the invariant of the shapes and do to the list of properties of the object, the \<open>view\<close>,
  what their name says; the view of every other object stays.
\<close>

section \<open>Releasing a shape\<close>

lemma free_shape0_tail:
  assumes "shape_ok s" "a \<in> set (rt_gc_objs rt)"
  shows "\<exists>ev. (do {
       let rt = (if ss_proto s \<noteq> 0 then event (Free_value (JS_MKPTR JS_TAG_OBJECT (ss_proto s))) rt else rt);
       rt \<leftarrow> each_atom Free_atom (ss_prop s) (ss_prop_count s) rt;
       rt \<leftarrow> remove_gc_object a rt;
       Some (set_sh a None rt)
     }) = Some (rt\<lparr>rt_shapes := (rt_shapes rt)(a := None), rt_gc_objs := remove1 a (rt_gc_objs rt), rt_events := ev\<rparr>)"
proof -
  define rt1 where "rt1 = (if ss_proto s \<noteq> 0 then event (Free_value (JS_MKPTR JS_TAG_OBJECT (ss_proto s))) rt else rt)"
  obtain ev where ev: "each_atom Free_atom (ss_prop s) (ss_prop_count s) rt1 = Some (rt1\<lparr>rt_events := ev\<rparr>)"
    using shape_ok_atoms [OF assms(1)] by blast
  have "rt1\<lparr>rt_events := ev\<rparr> = rt\<lparr>rt_events := ev\<rparr>" by (simp add: rt1_def event_def)
  with ev assms(2) show ?thesis unfolding rt1_def [symmetric]
    by (intro exI [of _ ev]) (simp add: remove_gc_object_def set_sh_def)
qed

lemma js_free_shape_inv:
  assumes inv: "rt_inv rt S E X" and s: "rt_shapes rt a = Some s" and e: "0 < E a" and h: "ss_is_hashed s \<longleftrightarrow> a \<in> S"
  shows "\<exists>rt' S'. js_free_shape a rt = Some rt' \<and> rt_inv rt' S' (E(a := E a - 1)) X \<and> rt_objects rt' = rt_objects rt \<and>
    view rt' = view rt \<and> (\<forall>b. b \<noteq> a \<longrightarrow> map_option unlinked (rt_shapes rt' b) = map_option unlinked (rt_shapes rt b)) \<and>
    (S = hashed_shapes rt \<longrightarrow> S' = hashed_shapes rt')"
proof -
  note ok = rt_inv_shape [OF inv s] and hs = rt_inv_holders [OF inv s]
  define s0 where "s0 = s\<lparr>ss_ref_count := ss_ref_count s - 1\<rparr>"
  define rt1 where "rt1 = set_sh a (Some s0) rt"
  have get: "get_sh rt a = Some s" "get_sh rt1 a = Some s0" using s rt_inv_get_sh [OF inv] ok by (simp_all add: rt1_def get_sh_def)
  have view1: "view rt1 = view rt"
  proof
    show "view rt1 p = view rt p" for p by (rule view_cong) (use s in \<open>auto simp: rt1_def s0_def\<close>)
  qed
  have inv1: "rt_inv rt1 S (E(a := E a - 1)) X" if "ss_is_hashed s"
    unfolding rt1_def
    by (rule rt_inv_set_sh [OF inv s]) (use ok hs e that s rt_inv_holder [OF inv] in \<open>simp_all add: s0_def\<close>)
  have hashed1: "hashed_shapes rt1 = hashed_shapes rt"
    unfolding rt1_def by (rule hashed_shapes_set_sh [OF s]) (simp add: s0_def)
  show ?thesis
  proof (cases "ss_ref_count s > 1")
    case True
    then have hashed: "ss_is_hashed s" using hs by auto
    have "js_free_shape a rt = Some rt1" using True get by (simp add: js_free_shape_def Let_def s0_def rt1_def)
    moreover have "\<forall>b. b \<noteq> a \<longrightarrow> map_option unlinked (rt_shapes rt1 b) = map_option unlinked (rt_shapes rt b)" by (simp add: rt1_def)
    ultimately show ?thesis using inv1 [OF hashed] view1 hashed1 by (auto simp: rt1_def)
  next
    case False
    have "ss_ref_count s = 1 \<and> E a = 1 \<and> card (holders rt a) = 0" using hs e False by linarith
    then have one: "ss_ref_count s = 1" "E a = 1" "holders rt a = {}" using hs by auto
    have s0: "ss_ref_count s0 = 0" "shape_ok s0" using one(1) ok by (simp_all add: s0_def)
    have "js_free_shape a rt = js_free_shape0 a rt1" using one get by (simp add: js_free_shape_def Let_def s0_def rt1_def)
    moreover have "\<exists>rt2 S'. (if ss_is_hashed s0 then js_shape_hash_unlink a rt1 else Some rt1) = Some rt2 \<and>
        table_step rt1 rt2 \<and> S' = S - {a} \<and>
        (\<forall>rt3. rt_shapes rt3 = (rt_shapes rt2)(a := None) \<and> rt_objects rt3 = rt_objects rt2 \<and> rt_gc_objs rt3 = remove1 a (rt_gc_objs rt2) \<and>
           shape_hash_bits rt3 = shape_hash_bits rt2 \<and> rt_shape_hash rt3 = rt_shape_hash rt2 \<and> shape_hash_size rt3 = shape_hash_size rt2 \<longrightarrow>
           rt_inv rt3 S' (E(a := 0)) X \<and> view rt3 = view rt)"
    proof (cases "ss_is_hashed s")
      case True
      obtain rt2 where rt2: "js_shape_hash_unlink a rt1 = Some rt2" "rt_inv rt2 (S - {a}) (E(a := E a - 1)) X" "table_step rt1 rt2"
        using js_shape_hash_unlink_inv [OF inv1 [OF True]] True h by blast
      have "holders rt2 a = {}" using rt2(3) one(3) by (simp add: table_step_def holders_def rt1_def)
      with rt_inv_drop_shape [OF rt2(2), of a] have "rt_inv rt3 (S - {a}) (E(a := 0)) X \<and> view rt3 = view rt2"
        if "rt_shapes rt3 = (rt_shapes rt2)(a := None)" "rt_objects rt3 = rt_objects rt2" "rt_gc_objs rt3 = remove1 a (rt_gc_objs rt2)"
          "shape_hash_bits rt3 = shape_hash_bits rt2" "rt_shape_hash rt3 = rt_shape_hash rt2" "shape_hash_size rt3 = shape_hash_size rt2" for rt3
        using that by simp
      with rt2 True table_step_view [OF rt2(3)] view1 show ?thesis by (auto simp: s0_def)
    next
      case unhashed: False
      then have "a \<notin> S" using h by simp
      with rt_inv_drop_shape [OF inv this one(3)] have "rt_inv rt3 (S - {a}) (E(a := 0)) X \<and> view rt3 = view rt"
        if "rt_shapes rt3 = (rt_shapes rt1)(a := None)" "rt_objects rt3 = rt_objects rt1" "rt_gc_objs rt3 = remove1 a (rt_gc_objs rt1)"
          "shape_hash_bits rt3 = shape_hash_bits rt1" "rt_shape_hash rt3 = rt_shape_hash rt1" "shape_hash_size rt3 = shape_hash_size rt1" for rt3
        using that by (simp add: rt1_def)
      with unhashed show ?thesis by (auto simp: s0_def)
    qed
    then obtain rt2 S' where rt2: "(if ss_is_hashed s0 then js_shape_hash_unlink a rt1 else Some rt1) = Some rt2"
      "table_step rt1 rt2" "S' = S - {a}"
      "\<And>rt3. rt_shapes rt3 = (rt_shapes rt2)(a := None) \<Longrightarrow> rt_objects rt3 = rt_objects rt2 \<Longrightarrow> rt_gc_objs rt3 = remove1 a (rt_gc_objs rt2) \<Longrightarrow>
         shape_hash_bits rt3 = shape_hash_bits rt2 \<Longrightarrow> rt_shape_hash rt3 = rt_shape_hash rt2 \<Longrightarrow> shape_hash_size rt3 = shape_hash_size rt2 \<Longrightarrow>
         rt_inv rt3 S' (E(a := 0)) X \<and> view rt3 = view rt" by blast
    have gc: "a \<in> set (rt_gc_objs rt2)" using rt2(2) hs by (simp add: table_step_def rt1_def)
    obtain ev where tail: "(do {
         let rt = (if ss_proto s0 \<noteq> 0 then event (Free_value (JS_MKPTR JS_TAG_OBJECT (ss_proto s0))) rt2 else rt2);
         rt \<leftarrow> each_atom Free_atom (ss_prop s0) (ss_prop_count s0) rt;
         rt \<leftarrow> remove_gc_object a rt;
         Some (set_sh a None rt)
       }) = Some (rt2\<lparr>rt_shapes := (rt_shapes rt2)(a := None), rt_gc_objs := remove1 a (rt_gc_objs rt2), rt_events := ev\<rparr>)"
      using free_shape0_tail [OF s0(2) gc] by blast
    define rt3 where "rt3 = rt2\<lparr>rt_shapes := (rt_shapes rt2)(a := None), rt_gc_objs := remove1 a (rt_gc_objs rt2), rt_events := ev\<rparr>"
    have "js_free_shape0 a rt1 = Some rt3"
      using get(2) s0(1) rt2(1) tail by (simp add: js_free_shape0_def rt3_def)
    moreover have "rt_inv rt3 S' (E(a := 0)) X \<and> view rt3 = view rt" by (rule rt2(4)) (simp_all add: rt3_def)
    moreover have "rt_objects rt3 = rt_objects rt" using rt2(2) by (simp add: rt3_def table_step_def rt1_def)
    moreover have "map_option unlinked (rt_shapes rt3 b) = map_option unlinked (rt_shapes rt b)" if "b \<noteq> a" for b
      using rt2(2) that by (simp add: rt3_def table_step_def relinked_def rt1_def)
    moreover have "hashed_shapes rt3 = hashed_shapes rt - {a}"
      using table_step_hashed [OF rt2(2)] hashed1 by (auto simp: rt3_def hashed_shapes_def)
    ultimately show ?thesis using one(2) rt2(3) by auto
  qed
qed

section \<open>Resizing\<close>

lemma same_keys_at:
  assumes "same_keys n props props'" "i < n"
  shows "live props' i = live props i" "atom_at props' i = atom_at props i" "props' ! i = None \<longleftrightarrow> props ! i = None"
    "vals' ! i = vals ! i \<Longrightarrow> entry_at props' vals' i = entry_at props vals i"
proof -
  have "map_option prop_key (props' ! i) = map_option prop_key (props ! i)" using assms by (simp add: same_keys_def)
  then show "live props' i = live props i" "atom_at props' i = atom_at props i" "props' ! i = None \<longleftrightarrow> props ! i = None"
    "vals' ! i = vals ! i \<Longrightarrow> entry_at props' vals' i = entry_at props vals i"
    by (cases "props ! i"; cases "props' ! i"; auto simp: live_def atom_at_def entry_at_def prop_key_def)+
qed

lemma lives_less: "i \<in> set (lives props n) \<Longrightarrow> i < n"
  by (simp add: lives_def)

lemma same_keys_lives: "same_keys n props props' \<Longrightarrow> lives props' n = lives props n"
  unfolding lives_def by (rule filter_cong) (auto simp: same_keys_at)

lemma shape_ok_same_keys:
  assumes ok: "shape_ok s" and same: "ss_prop_count s' = ss_prop_count s" "ss_deleted_prop_count s' = ss_deleted_prop_count s"
      "ss_has_small_array_index s' = ss_has_small_array_index s"
    and keys: "same_keys (ss_prop_count s) (ss_prop s) (ss_prop s')"
    and new: "hash_ok (ss_prop_hash_mask s') (ss_prop_hash s') (ss_prop s') (ss_prop_count s)"
      "length (ss_prop s') = ss_prop_size s'" "ss_prop_count s \<le> ss_prop_size s'"
  shows "shape_ok s'"
proof -
  have lv: "lives (ss_prop s') (ss_prop_count s) = lives (ss_prop s) (ss_prop_count s)" by (rule same_keys_lives [OF keys])
  have at: "map (atom_at (ss_prop s')) (lives (ss_prop s) (ss_prop_count s)) = map (atom_at (ss_prop s)) (lives (ss_prop s) (ss_prop_count s))"
    "\<forall>i\<in>set (lives (ss_prop s) (ss_prop_count s)). atom_at (ss_prop s') i = atom_at (ss_prop s) i"
    using same_keys_at(2) [OF keys] lives_less by auto
  have "\<forall>i < ss_prop_count s. ss_prop s' ! i \<noteq> None" using ok same_keys_at(3) [OF keys] by (simp add: shape_ok_def)
  then show ?thesis using ok same new at(2) unfolding shape_ok_def same lv at(1) by simp
qed

lemma props_view_same_keys:
  assumes "same_keys (ss_prop_count s) (ss_prop s) (ss_prop s')" "ss_prop_count s' = ss_prop_count s"
    "\<forall>i < ss_prop_count s. vals' ! i = vals ! i"
  shows "props_view s' vals' = props_view s vals"
  unfolding props_view_def assms(2) same_keys_lives [OF assms(1)]
  using same_keys_at(4) [OF assms(1)] assms(3) lives_less by (intro map_cong) auto

lemma hash_ok_cells:
  assumes "hash_ok msk tab props n" "\<forall>i<n. props' ! i = props ! i" "n \<le> length props'"
  shows "hash_ok msk tab props' n"
proof -
  have b: "bucket msk props' n h = bucket msk props n h" for h using assms(2) by (intro bucket_cong) (simp add: in_slot_def)
  have "chain props' x is" if "chain props x is" "\<forall>i\<in>set is. i < n" for x "is"
    using that assms(2,3) by (induction "is" arbitrary: x) auto
  with assms(1) show ?thesis by (simp add: hash_ok_def b set_bucket)
qed

lemma grow_hash_size_spec: "0 < h \<Longrightarrow> \<exists>h'. grow_hash_size n h = Some h' \<and> h \<le> h' \<and> (h' \<noteq> h \<longrightarrow> h' < 2 * n)"
proof (induction n h rule: grow_hash_size.induct)
  case (1 n h)
  show ?case
  proof (cases "h < n")
    case True
    with 1 obtain h' where "grow_hash_size n (2 * h) = Some h'" "2 * h \<le> h'" "h' \<noteq> 2 * h \<longrightarrow> h' < 2 * n" by auto
    with True "1.prems" show ?thesis by (subst grow_hash_size.simps) auto
  next
    case False
    then show ?thesis by (subst grow_hash_size.simps) simp
  qed
qed

lemma unat_table_mask: "0 < n \<Longrightarrow> n \<le> 2 ^ 32 \<Longrightarrow> unat (word_of_nat n - 1 :: u32) = n - 1"
proof -
  assume n: "0 < n" "n \<le> 2 ^ 32"
  have w: "(word_of_nat n - 1 :: u32) = word_of_nat (n - 1)" using n(1) by (simp add: of_nat_diff)
  have "n - 1 < 2 ^ 32" using n by simp
  then show ?thesis unfolding w unat_of_nat by (simp add: take_bit_nat_eq_self_iff)
qed

text \<open>The only holder of the shape a takes the shape to the address sh.\<close>

lemma rt_inv_move_shape:
  assumes inv: "rt_inv rt S E X" and ob: "rt_objects rt p = Some ob" "so_shape ob = a" and s: "rt_shapes rt a = Some s"
    and only: "holders rt a = {p}" "a \<notin> S" "E sh = 0" and sh: "sh \<noteq> 0" "rt_shapes rt sh = None \<or> sh = a"
    and s': "shape_ok s'" "ss_ref_count s' = 1"
    and ob': "so_shape ob' = sh" "ss_prop_size s' \<le> length (so_prop ob')" "props_view s' (so_prop ob') = props_view s (so_prop ob)"
    and rt': "rt_shapes rt' = (rt_shapes rt)(a := None, sh := Some s')" "rt_objects rt' = (rt_objects rt)(p := Some ob')"
      "rt_gc_objs rt' = remove1 a (rt_gc_objs rt) @ [sh]"
      "shape_hash_bits rt' = shape_hash_bits rt" "rt_shape_hash rt' = rt_shape_hash rt" "shape_hash_size rt' = shape_hash_size rt"
  shows "rt_inv rt' S E X \<and> view rt' = view rt \<and> holders rt' sh = {p} \<and> sh \<notin> S"
proof -
  have free: "holders rt sh = {} \<and> sh \<notin> S" if "sh \<noteq> a" using sh(2) that rt_inv_free [OF inv] by blast
  have shS: "sh \<notin> S" using free only(2) by blast
  have "q = p" if "rt_objects rt q = Some ob1" "so_shape ob1 = sh" for q ob1
    using holder_in [OF that(1)] that(2) only(1) free by (cases "sh = a") auto
  then have hsh: "holders rt' sh = {p}" using ob'(1) by (auto simp: holders_def rt' split: if_splits)
  have hb: "holders rt' b = holders rt b" if "b \<noteq> a" "b \<noteq> sh" for b using that ob ob'(1) by (auto simp: holders_def rt')
  have "linked (rt_shapes rt') (rt_shape_hash rt') (shape_hash_bits rt') S"
    unfolding rt' by (rule linked_cong [of "rt_shapes rt"]) (use inv shS only(2) in \<open>auto simp: rt_inv_def\<close>)
  moreover have "shapes_inv rt' E"
    unfolding shapes_inv_def
  proof (intro allI impI)
    fix b t
    assume t: "rt_shapes rt' b = Some t"
    show "shape_ok t \<and> b \<in> set (rt_gc_objs rt') \<and> (\<not> ss_is_hashed t \<longrightarrow> ss_ref_count t = 1) \<and>
        finite (holders rt' b) \<and> int (card (holders rt' b) + E b) \<le> ss_ref_count t"
    proof (cases "b = sh")
      case True
      with t s' hsh only(3) show ?thesis by (simp add: rt')
    next
      case False
      then have b: "b \<noteq> a" "rt_shapes rt b = Some t" using t by (auto simp: rt' split: if_splits)
      with False rt_inv_holders [OF inv b(2)] rt_inv_shape [OF inv b(2)] hb [OF b(1) False] show ?thesis by (simp add: rt')
    qed
  qed
  moreover have off: "so_shape ob1 \<noteq> a \<and> so_shape ob1 \<noteq> sh" if "rt_objects rt q = Some ob1" "q \<noteq> p" for q ob1
    using that holder_in [OF that(1)] only(1) free by auto
  have "objects_inv rt' X"
    unfolding objects_inv_def
  proof (intro allI impI)
    fix q ob1
    assume q: "rt_objects rt' q = Some ob1"
    show "\<exists>s. rt_shapes rt' (so_shape ob1) = Some s \<and> ss_prop_size s \<le> length (so_prop ob1) \<and>
        (q \<notin> X \<longrightarrow> (\<forall>e\<in>set (props_view s (so_prop ob1)). entry_ok e))"
    proof (cases "q = p")
      case True
      with q ob' rt_inv_holder [OF inv ob(1)] ob(2) s show ?thesis by (auto simp: rt')
    next
      case False
      then have "rt_objects rt q = Some ob1" using q by (simp add: rt')
      from rt_inv_object [OF inv this] off [OF this False] show ?thesis by (simp add: rt')
    qed
  qed
  moreover have "view rt' q = view rt q" for q
  proof (cases "q = p")
    case True
    with ob ob' s show ?thesis by (simp add: view_def rt')
  next
    case False
    then show ?thesis by (intro view_cong) (use off in \<open>auto simp: rt'\<close>)
  qed
  ultimately show ?thesis using inv rt_inv_object [OF inv ob(1)] sh(1) hsh shS by (auto simp: rt_inv_def rt' fun_eq_iff)
qed

lemma realloc_cells_simps [simp]:
  "length (realloc_cells n xs) = n" "i < length xs \<Longrightarrow> i < n \<Longrightarrow> realloc_cells n xs ! i = xs ! i"
  by (simp_all add: realloc_cells_def nth_append)

lemma sole_holder:
  assumes "rt_inv rt S E X" "rt_shapes rt a = Some s" "ss_ref_count s = 1" "rt_objects rt p = Some ob" "so_shape ob = a"
  shows "holders rt a = {p} \<and> E a = 0"
proof -
  have h: "finite (holders rt a)" "card (holders rt a) + E a \<le> 1" using rt_inv_holders [OF assms(1,2)] assms(3) by auto
  have p: "p \<in> holders rt a" using holder_in [OF assms(4)] assms(5) by simp
  then have "0 < card (holders rt a)" using h(1) by (auto simp: card_gt_0_iff)
  then have "card (holders rt a) = 1" "E a = 0" using h(2) by linarith+
  then show ?thesis using p by (auto simp: card_1_singleton_iff)
qed

text \<open>The outcome of \<open>resize_properties\<close>: room for one more property, or failure; the views stay.\<close>

definition resized :: "shape_mem \<Rightarrow> shape_rt \<Rightarrow> nat set \<Rightarrow> nat set \<Rightarrow> nat \<Rightarrow> nat \<Rightarrow> shape \<Rightarrow> int \<times> nat \<times> shape_rt \<Rightarrow> bool" where
  "resized mem rt S X a p s = (\<lambda>(r, sh, rt').
     (r = 0 \<or> r = -1 \<and> oom mem) \<and> rt_inv rt' S (\<lambda>_. 0) X \<and> view rt' = view rt \<and> sh \<notin> S \<and>
     (\<exists>ob'. rt_objects rt' = (rt_objects rt)(p := Some ob') \<and> so_shape ob' = sh) \<and>
     (\<exists>s'. rt_shapes rt' = (rt_shapes rt)(a := None, sh := Some s') \<and> ss_is_hashed s' = ss_is_hashed s \<and> ss_ref_count s' = 1 \<and>
        ss_prop_count s' = ss_prop_count s \<and> (r = 0 \<longrightarrow> ss_prop_count s' < ss_prop_size s')))"

lemma resized_same:
  assumes "rt_inv rt S (\<lambda>_. 0) X" "a \<notin> S" "rt_shapes rt a = Some s" "ss_ref_count s = 1" "rt_objects rt p = Some ob" "so_shape ob = a"
    "rt_inv rt' S (\<lambda>_. 0) X" "view rt' = view rt" "rt_shapes rt' = rt_shapes rt" "rt_objects rt' = rt_objects rt" "oom mem"
  shows "resized mem rt S X a p s (-1, a, rt')"
  using assms by (auto simp: resized_def intro!: exI [of _ ob] exI [of _ s])

lemma set_remove1_insert: "a \<in> set xs \<Longrightarrow> insert a (set (remove1 a xs)) = set xs"
  by (induction xs) auto

lemma rt_inv_cong:
  assumes "rt_inv rt S E X" "rt_shapes rt' = rt_shapes rt" "rt_objects rt' = rt_objects rt" "set (rt_gc_objs rt') = set (rt_gc_objs rt)"
    "shape_hash_bits rt' = shape_hash_bits rt" "rt_shape_hash rt' = rt_shape_hash rt" "shape_hash_size rt' = shape_hash_size rt"
  shows "rt_inv rt' S E X \<and> view rt' = view rt"
proof
  show "rt_inv rt' S E X" using assms by (simp add: rt_inv_def shapes_inv_def objects_inv_def holders_def)
  show "view rt' = view rt" using assms(2,3) by (simp add: view_def fun_eq_iff)
qed

lemma resized_move:
  assumes inv: "rt_inv rt S (\<lambda>_. 0) X" and ob: "rt_objects rt p = Some ob" "so_shape ob = a" and s: "rt_shapes rt a = Some s"
    and one: "ss_ref_count s = 1" "a \<notin> S" and sh: "sh \<noteq> 0" "rt_shapes rt sh = None \<or> sh = a"
    and s': "ss_prop_count s' = ss_prop_count s" "ss_deleted_prop_count s' = ss_deleted_prop_count s"
      "ss_has_small_array_index s' = ss_has_small_array_index s" "ss_is_hashed s' = ss_is_hashed s" "ss_ref_count s' = 1"
      "same_keys (ss_prop_count s) (ss_prop s) (ss_prop s')"
      "hash_ok (ss_prop_hash_mask s') (ss_prop_hash s') (ss_prop s') (ss_prop_count s)"
      "length (ss_prop s') = ss_prop_size s'" "ss_prop_count s < ss_prop_size s'" "ss_prop_size s' \<le> length (so_prop ob)"
    and rt': "rt_shapes rt' = (rt_shapes rt)(a := None, sh := Some s')" "rt_objects rt' = (rt_objects rt)(p := Some (ob\<lparr>so_shape := sh\<rparr>))"
      "rt_gc_objs rt' = remove1 a (rt_gc_objs rt) @ [sh]"
      "shape_hash_bits rt' = shape_hash_bits rt" "rt_shape_hash rt' = rt_shape_hash rt" "shape_hash_size rt' = shape_hash_size rt"
  shows "resized mem rt S X a p s (0, sh, rt')"
proof -
  have ok: "shape_ok s'" using shape_ok_same_keys [of s s'] rt_inv_shape [OF inv s] s' by simp
  have v: "props_view s' (so_prop ob) = props_view s (so_prop ob)" by (rule props_view_same_keys) (use s' in auto)
  have sole: "holders rt a = {p}" using sole_holder [OF inv s one(1) ob] by simp
  have "rt_inv rt' S (\<lambda>_. 0) X \<and> view rt' = view rt \<and> holders rt' sh = {p} \<and> sh \<notin> S"
    by (rule rt_inv_move_shape [OF inv ob s sole one(2) _ sh ok s'(5), of "ob\<lparr>so_shape := sh\<rparr>"]) (use s' rt' v in simp_all)
  with s' rt' show ?thesis by (auto simp: resized_def)
qed

lemma resize_rehash_inv:
  assumes inv: "rt_inv rt S (\<lambda>_. 0) X" and mem: "mem_ok mem" and ob: "rt_objects rt p = Some ob" "so_shape ob = a" and s: "rt_shapes rt a = Some s"
    and one: "ss_ref_count s = 1" "a \<notin> S" and n: "ss_prop_count s < n" "n \<le> length (so_prop ob)" and m: "0 < m" "m \<le> 2 ^ 32"
  shows "\<exists>res. resize_rehash mem a p s m n rt = Some res \<and> resized mem rt S X a p s res"
proof -
  obtain r rt1 where malloc: "js_malloc mem (get_shape_size m n) rt = (r, rt1)" by fastforce
  note mc = js_malloc_cases [OF mem malloc]
  note ok = rt_inv_shape [OF inv s] and h = rt_inv_holders [OF inv s]
  show ?thesis
  proof (cases r)
    case None
    obtain ev where "rt1 = rt\<lparr>rt_events := ev\<rparr>" using mc(1) by blast
    then have "resized mem rt S X a p s (-1, a, rt1)" using inv by (intro resized_same [OF inv one(2) s one(1) ob]) (simp_all add: mc(3) None rt_inv_finite [OF inv])
    with None malloc show ?thesis by (simp add: resize_rehash_def)
  next
    case (Some sh)
    note new = mc(2) [OF Some]
    let ?n = "ss_prop_count s" and ?m = "word_of_nat m - 1 :: u32"
    define props0 where "props0 = realloc_cells n (take ?n (ss_prop s))"
    have len: "length props0 = n" by (simp add: props0_def)
    have cells: "props0 ! i = ss_prop s ! i" if "i < ?n" for i
      using that ok n by (simp add: props0_def shape_ok_def)
    have c: "\<forall>i<?n. props0 ! i \<noteq> None" "?n \<le> length props0" "?n \<le> 2 ^ 26" "unat ?m + 1 = m"
      using cells ok n(1) len m unat_table_mask [OF m] by (auto simp: shape_ok_def)
    obtain props tab where re: "rehash_props ?m [0..<?n] props0 (replicate m 0) = Some (props, tab)"
      "length props = n" "same_keys n props0 props" "hash_ok ?m tab props ?n"
      using rehash_props_spec [OF c(1-3), of ?m, unfolded c(4) len] by blast
    have keys: "same_keys ?n (ss_prop s) props" using re(3) n(1) cells unfolding same_keys_def by (metis less_trans)
    define s' where "s' = s\<lparr>ss_prop_hash_mask := ?m, ss_prop_hash := tab, ss_prop := props, ss_prop_size := n\<rparr>"
    define rt2 where "rt2 = rt\<lparr>rt_gc_objs := remove1 a (rt_gc_objs rt) @ [sh], rt_shapes := (rt_shapes rt)(a := None, sh := Some s'),
      rt_objects := (rt_objects rt)(p := Some (ob\<lparr>so_shape := sh\<rparr>))\<rparr>"
    have p: "p \<noteq> 0" using rt_inv_object [OF inv ob(1)] by blast
    have "rd_block (ss_prop s) 0 ?n = Some (take ?n (ss_prop s))" using ok by (simp add: rd_block_def shape_ok_def)
    then have "resize_rehash mem a p s m n rt = Some (0, sh, rt2)"
      using Some malloc new h re(1) p ob
      by (simp add: resize_rehash_def Let_def remove_gc_object_def props0_def [symmetric] s'_def [symmetric] set_psh_def get_ob_def
          set_sh_def set_ob_def add_gc_object_def rt2_def)
    moreover have "resized mem rt S X a p s (0, sh, rt2)"
      by (rule resized_move [OF inv ob s one, of sh s']) (use new re keys n one in \<open>simp_all add: s'_def rt2_def\<close>)
    ultimately show ?thesis by blast
  qed
qed

lemma resize_realloc_inv:
  assumes inv: "rt_inv rt S (\<lambda>_. 0) X" and mem: "mem_ok mem" and ob: "rt_objects rt p = Some ob" "so_shape ob = a" and s: "rt_shapes rt a = Some s"
    and one: "ss_ref_count s = 1" "a \<notin> S" and n: "ss_prop_count s < n" "n \<le> length (so_prop ob)"
  shows "\<exists>res. resize_realloc mem a p s m n rt = Some res \<and> resized mem rt S X a p s res"
proof -
  define rt0 where "rt0 = rt\<lparr>rt_gc_objs := remove1 a (rt_gc_objs rt), rt_shapes := (rt_shapes rt)(a := None)\<rparr>"
  obtain r rt1 where malloc: "js_malloc mem (get_shape_size m n) rt0 = (r, rt1)" by fastforce
  note mc = js_malloc_cases [OF mem malloc]
  have fin: "heap_finite rt0" using rt_inv_finite [OF inv] by (simp add: heap_finite_def rt0_def)
  note ok = rt_inv_shape [OF inv s] and h = rt_inv_holders [OF inv s]
  have start: "resize_realloc mem a p s m n rt = (case (r, rt1) of
        (None, rt) \<Rightarrow> Some (-1, a, add_gc_object a (set_sh a (Some s) rt))
      | (Some sh', rt) \<Rightarrow> do {
          let rt = set_sh sh' (Some (s\<lparr>ss_prop := realloc_cells n (ss_prop s), ss_prop_size := n\<rparr>)) (add_gc_object sh' rt);
          rt \<leftarrow> set_psh p sh' rt;
          Some (0, sh', rt)
        })"
    using malloc h unfolding resize_realloc_def remove_gc_object_def by (simp add: rt0_def set_sh_def)
  show ?thesis
  proof (cases r)
    case None
    obtain ev where rt1: "rt1 = rt0\<lparr>rt_events := ev\<rparr>" using mc(1) by blast
    let ?rt = "add_gc_object a (set_sh a (Some s) rt1)"
    have eq: "rt_shapes ?rt = rt_shapes rt" "rt_objects ?rt = rt_objects rt" using s by (auto simp: rt1 rt0_def)
    have gc: "set (rt_gc_objs ?rt) = set (rt_gc_objs rt)" using h set_remove1_insert [of a "rt_gc_objs rt"] by (simp add: rt1 rt0_def)
    have "rt_inv ?rt S (\<lambda>_. 0) X \<and> view ?rt = view rt"
      by (rule rt_inv_cong [OF inv eq gc]) (simp_all add: rt1 rt0_def)
    then have "resized mem rt S X a p s (-1, a, ?rt)" using eq by (intro resized_same [OF inv one(2) s one(1) ob]) (simp_all add: mc(3) None fin)
    with None start show ?thesis by simp
  next
    case (Some sh)
    note new = mc(2) [OF Some]
    define s' where "s' = s\<lparr>ss_prop := realloc_cells n (ss_prop s), ss_prop_size := n\<rparr>"
    define rt2 where "rt2 = rt\<lparr>rt_gc_objs := remove1 a (rt_gc_objs rt) @ [sh], rt_shapes := (rt_shapes rt)(a := None, sh := Some s'),
      rt_objects := (rt_objects rt)(p := Some (ob\<lparr>so_shape := sh\<rparr>))\<rparr>"
    have p: "p \<noteq> 0" using rt_inv_object [OF inv ob(1)] by blast
    have "resize_realloc mem a p s m n rt = Some (0, sh, rt2)"
      using Some start new p ob
      by (simp add: Let_def s'_def [symmetric] set_psh_def get_ob_def set_sh_def set_ob_def add_gc_object_def rt2_def rt0_def)
    moreover have sh: "sh \<noteq> 0" "rt_shapes rt sh = None \<or> sh = a" using new by (auto simp: rt0_def split: if_splits)
    have cells: "\<forall>i < ss_prop_count s. realloc_cells n (ss_prop s) ! i = ss_prop s ! i" using ok n(1) by (simp add: shape_ok_def)
    have "hash_ok (ss_prop_hash_mask s) (ss_prop_hash s) (realloc_cells n (ss_prop s)) (ss_prop_count s)"
      by (rule hash_ok_cells [OF _ cells]) (use ok n(1) in \<open>simp_all add: shape_ok_def\<close>)
    then have "resized mem rt S X a p s (0, sh, rt2)"
      by (intro resized_move [OF inv ob s one, of sh s']) (use sh cells n one in \<open>simp_all add: s'_def rt2_def same_keys_def\<close>)
    ultimately show ?thesis by blast
  qed
qed

end
