(* ===== verification/Shape_Add.thy ===== *)
theory Shape_Add
  imports Shape_Ops
begin

text \<open>Adding a property: room in the shape and in the object, then a new entry at the end of both.\<close>

section \<open>Room for one more property\<close>

lemma lives_props_view_cong:
  assumes "shape_ok s" "\<forall>i < ss_prop_count s. vals' ! i = vals ! i"
  shows "props_view s vals' = props_view s vals"
  using assms lives_less by (auto simp: props_view_def entry_at_def)

lemma view_Some: "rt_objects rt p = Some ob \<Longrightarrow> rt_shapes rt (so_shape ob) = Some s \<Longrightarrow> view rt p = Some (props_view s (so_prop ob))"
  by (simp add: view_def)

lemma resize_object_props_inv:
  assumes inv: "rt_inv rt S E X" and mem: "mem_ok mem" and ob: "rt_objects rt p = Some ob" "rt_shapes rt (so_shape ob) = Some s"
    and n: "ss_prop_size s \<le> n"
  shows "\<exists>ok rt'. resize_object_props mem p n rt = Some (ok, rt') \<and> rt_inv rt' S E X \<and> view rt' = view rt \<and> rt_shapes rt' = rt_shapes rt \<and>
    rt_objects rt' = (if ok then (rt_objects rt)(p := Some (ob\<lparr>so_prop := realloc_cells n (so_prop ob)\<rparr>)) else rt_objects rt) \<and>
    hashed_shapes rt' = hashed_shapes rt \<and> (\<not> ok \<longrightarrow> oom mem)"
proof -
  obtain r rt1 where malloc: "js_malloc mem (16 * n) rt = (r, rt1)" by fastforce
  note mc = js_malloc_cases [OF mem malloc] and obj = rt_inv_holder [OF inv ob]
  have get: "p \<noteq> 0" "get_ob rt p = Some ob" using rt_inv_object [OF inv ob(1)] ob(1) by (auto simp: get_ob_def)
  show ?thesis
  proof (cases r)
    case None
    obtain ev where "rt1 = rt\<lparr>rt_events := ev\<rparr>" using mc(1) by blast
    with None malloc get inv mc(3) rt_inv_finite [OF inv] show ?thesis by (auto simp: resize_object_props_def intro!: exI [of _ False])
  next
    case (Some b)
    let ?ob = "ob\<lparr>so_prop := realloc_cells n (so_prop ob)\<rparr>"
    have ok: "shape_ok s" using rt_inv_shape [OF inv ob(2)] by simp
    then have same: "props_view s (so_prop ?ob) = props_view s (so_prop ob)"
      using obj n by (intro lives_props_view_cong) (auto simp: shape_ok_def)
    have "rt_inv (set_ob p ?ob rt) S E X"
      by (rule rt_inv_set_vals [OF inv ob]) (use n obj same in simp_all)
    moreover have "view (set_ob p ?ob rt) q = view rt q" for q
      using same ob by (cases "q = p") (simp_all add: view_def)
    ultimately show ?thesis using Some malloc get mc(2) [OF Some]
      by (auto simp: resize_object_props_def fun_eq_iff hashed_shapes_def intro!: exI [of _ True])
  qed
qed

lemma resize_properties_inv:
  assumes inv: "rt_inv rt S (\<lambda>_. 0) X" and mem: "mem_ok mem" and ob: "rt_objects rt p = Some ob" "so_shape ob = a" and s: "rt_shapes rt a = Some s"
    and one: "ss_ref_count s = 1" "a \<notin> S" and full: "ss_prop_count s = ss_prop_size s"
  shows "\<exists>res. resize_properties mem a p (ss_prop_count s + 1) rt = Some res \<and> resized mem rt S X a p s res"
proof -
  let ?n = "max (ss_prop_count s + 1) (ss_prop_size s * 3 div 2)"
  let ?h = "unat (ss_prop_hash_mask s) + 1"
  have ok: "shape_ok s" "get_sh rt a = Some s" using rt_inv_shape [OF inv s] rt_inv_get_sh [OF inv] s by auto
  have small: "?n < 2 ^ 28" 
  proof -
    have "ss_prop_size s < 2 ^ 26" using ok(1) full by (simp add: shape_ok_def)
    then show ?thesis using full by simp
  qed
  have s': "rt_shapes rt (so_shape ob) = Some s" using s ob(2) by simp
  have big: "ss_prop_size s \<le> ?n" using full by simp
  obtain b rt1 where r: "resize_object_props mem p ?n rt = Some (b, rt1)" "rt_inv rt1 S (\<lambda>_. 0) X" "view rt1 = view rt"
    "rt_shapes rt1 = rt_shapes rt"
    "rt_objects rt1 = (if b then (rt_objects rt)(p := Some (ob\<lparr>so_prop := realloc_cells ?n (so_prop ob)\<rparr>)) else rt_objects rt)" "\<not> b \<longrightarrow> oom mem"
    using resize_object_props_inv [OF inv mem ob(1) s' big] by blast
  obtain h' where h': "grow_hash_size ?n ?h = Some h'" "?h \<le> h'" "h' \<noteq> ?h \<longrightarrow> h' < 2 * ?n"
    using grow_hash_size_spec [of ?h ?n] by auto
  show ?thesis
  proof (cases b)
    case False
    then have "resized mem rt S X a p s (-1, a, rt1)" using r by (intro resized_same [OF inv one(2) s one(1) ob]) simp_all
    with False r(1) ok(2) show ?thesis by (simp add: resize_properties_def Let_def)
  next
    case True
    have ob1: "rt_objects rt1 p = Some (ob\<lparr>so_prop := realloc_cells ?n (so_prop ob)\<rparr>)"
      "so_shape (ob\<lparr>so_prop := realloc_cells ?n (so_prop ob)\<rparr>) = a" and s1: "rt_shapes rt1 a = Some s"
      using r(4,5) True ob(2) s by simp_all
    have "\<exists>res. (if h' \<noteq> ?h then resize_rehash mem a p s h' ?n rt1 else resize_realloc mem a p s h' ?n rt1) = Some res \<and>
        resized mem rt1 S X a p s res"
    proof (cases "h' \<noteq> ?h")
      case True
      then have "h' < 2 * ?n" "?h \<le> h'" using h' by blast+
      moreover have "2 * ?n < 2 * 2 ^ 28" using small by simp
      ultimately have "h' < 2 * 2 ^ 28" "?h \<le> h'" by (blast intro: less_trans)+
      then have "0 < h'" "h' \<le> 2 ^ 32" by simp_all
      from resize_rehash_inv [OF r(2) mem ob1 s1 one _ _ this, of ?n] True show ?thesis by simp
    next
      case False
      from resize_realloc_inv [OF r(2) mem ob1 s1 one, of ?n] False show ?thesis by simp
    qed
    then obtain res where res: "(if h' \<noteq> ?h then resize_rehash mem a p s h' ?n rt1 else resize_realloc mem a p s h' ?n rt1) = Some res"
      "resized mem rt1 S X a p s res" by blast
    have "resized mem rt S X a p s res" using res(2) r(3,4,5) True by (simp add: resized_def split: prod.splits)
    with True r(1) ok(2) h'(1) res(1) show ?thesis 
      by (cases res; cases "h' \<noteq> ?h") (simp_all add: resize_properties_def Let_def)
  qed
qed

lemma resized_none:
  assumes "rt_inv rt S (\<lambda>_. 0) X" "a \<notin> S" "rt_shapes rt a = Some s" "ss_ref_count s = 1" "rt_objects rt p = Some ob" "so_shape ob = a"
    "ss_prop_count s < ss_prop_size s"
  shows "resized mem rt S X a p s (0, a, rt)"
  using assms by (auto simp: resized_def intro!: exI [of _ ob] exI [of _ s])

lemma make_room:
  assumes inv: "rt_inv rt S (\<lambda>_. 0) X" and mem: "mem_ok mem" and ob: "rt_objects rt p = Some ob" "so_shape ob = a" and s: "rt_shapes rt a = Some s"
    and one: "ss_ref_count s = 1" "a \<notin> S"
  shows "\<exists>res. (if ss_prop_count s \<ge> ss_prop_size s then resize_properties mem a p (ss_prop_count s + 1) rt else Some (0, a, rt)) = Some res \<and>
    resized mem rt S X a p s res"
proof (cases "ss_prop_count s \<ge> ss_prop_size s")
  case True
  then have "ss_prop_count s = ss_prop_size s" using rt_inv_shape [OF inv s] by (auto simp: shape_ok_def)
  from resize_properties_inv [OF inv mem ob s one this] True show ?thesis by simp
next
  case False
  with resized_none [OF inv one(2) s one(1) ob] show ?thesis by simp
qed

section \<open>The new property in the shape\<close>

definition entry_atom :: "prop_entry \<Rightarrow> u32" where
  "entry_atom e = fst (fst e)"

lemma entry_atom_at: "entry_atom (entry_at props vals i) = atom_at props i"
  by (simp add: entry_atom_def entry_at_def atom_at_def prop_key_def JS_ATOM_NULL_def split: option.split)

lemma props_view_atoms: "map entry_atom (props_view s vals) = map (atom_at (ss_prop s)) (lives (ss_prop s) (ss_prop_count s))"
  by (simp add: props_view_def entry_atom_at)

definition push_prop :: "u32 \<Rightarrow> u8 \<Rightarrow> shape \<Rightarrow> shape" where
  "push_prop atom flags s =
     (let h = atom_slot (ss_prop_hash_mask s) atom in
      s\<lparr>ss_prop := (ss_prop s)[ss_prop_count s :=
           Some (set_hash_next (ss_prop_hash s ! h) \<lparr>pr_hash_next = 0, pr_flags = flags, pr_atom = atom\<rparr>)],
        ss_prop_hash := (ss_prop_hash s)[h := ss_prop_count s + 1], ss_prop_count := ss_prop_count s + 1,
        ss_has_small_array_index := (ss_has_small_array_index s \<or> AtomIsTaggedInt atom)\<rparr>)"

lemma push_prop_simps [simp]:
  "ss_prop_count (push_prop atom flags s) = Suc (ss_prop_count s)" "ss_prop_size (push_prop atom flags s) = ss_prop_size s"
  "ss_is_hashed (push_prop atom flags s) = ss_is_hashed s" "ss_ref_count (push_prop atom flags s) = ss_ref_count s"
  "ss_hash (push_prop atom flags s) = ss_hash s" "ss_shape_hash_next (push_prop atom flags s) = ss_shape_hash_next s"
  "ss_deleted_prop_count (push_prop atom flags s) = ss_deleted_prop_count s"
  by (simp_all add: push_prop_def Let_def)

lemma push_prop_cells:
  assumes "ss_prop_count s < length (ss_prop s)"
  shows "i < ss_prop_count s \<Longrightarrow> ss_prop (push_prop atom flags s) ! i = ss_prop s ! i"
    "map_option prop_key (ss_prop (push_prop atom flags s) ! ss_prop_count s) = Some (atom, flags)"
  using assms by (simp_all add: push_prop_def Let_def prop_key_def)

lemma push_prop_lives:
  assumes "ss_prop_count s < length (ss_prop s)" "atom \<noteq> JS_ATOM_NULL"
  shows "lives (ss_prop (push_prop atom flags s)) (ss_prop_count s) = lives (ss_prop s) (ss_prop_count s)"
    "live (ss_prop (push_prop atom flags s)) (ss_prop_count s)"
    "atom_at (ss_prop (push_prop atom flags s)) (ss_prop_count s) = atom"
proof -
  show "lives (ss_prop (push_prop atom flags s)) (ss_prop_count s) = lives (ss_prop s) (ss_prop_count s)"
    unfolding lives_def by (rule filter_cong) (simp_all add: live_def push_prop_cells [OF assms(1)])
  show "live (ss_prop (push_prop atom flags s)) (ss_prop_count s)"
    "atom_at (ss_prop (push_prop atom flags s)) (ss_prop_count s) = atom"
    using push_prop_cells(2) [OF assms(1), of atom flags] assms(2) by (auto simp: live_def atom_at_def prop_key_def)
qed

lemma shape_ok_push:
  assumes ok: "shape_ok s" and room: "ss_prop_count s < ss_prop_size s" "ss_prop_count s + 1 < 2 ^ 26"
    and atom: "atom \<noteq> JS_ATOM_NULL" "atom \<notin> set (map (atom_at (ss_prop s)) (lives (ss_prop s) (ss_prop_count s)))"
  shows "shape_ok (push_prop atom flags s)"
proof -
  let ?s = "push_prop atom flags s" and ?n = "ss_prop_count s"
  have n: "?n < length (ss_prop s)" using ok room by (simp add: shape_ok_def)
  note cells = push_prop_cells [OF n] and lv = push_prop_lives [OF n atom(1)]
  have at: "atom_at (ss_prop ?s) i = atom_at (ss_prop s) i" if "i < ?n" for i using cells(1) [OF that] by (simp add: atom_at_def)
  have "hash_ok (ss_prop_hash_mask ?s) (ss_prop_hash ?s) (ss_prop ?s) (Suc ?n)"
    using hash_ok_push [of "ss_prop_hash_mask s" "ss_prop_hash s" "ss_prop s" ?n "\<lparr>pr_hash_next = 0, pr_flags = flags, pr_atom = atom\<rparr>"]
      ok n room atom(1) by (simp add: push_prop_def Let_def shape_ok_def)
  moreover have "ss_prop ?s ! i \<noteq> None" if "i < Suc ?n" for i
    using that cells(1) [of i atom flags] cells(2) [of atom flags] ok by (cases "i = ?n") (auto simp: shape_ok_def)
  moreover have "map (atom_at (ss_prop ?s)) (lives (ss_prop ?s) (Suc ?n)) = map (atom_at (ss_prop s)) (lives (ss_prop s) ?n) @ [atom]"
    using lv at lives_less by auto
  moreover have "ss_has_small_array_index ?s" if "i \<in> set (lives (ss_prop ?s) (Suc ?n))" "AtomIsTaggedInt (atom_at (ss_prop ?s) i)" for i
    using that lv at ok lives_less [of i] by (cases "i = ?n") (auto simp: shape_ok_def push_prop_def Let_def)
  moreover have "length (lives (ss_prop ?s) (Suc ?n)) = Suc (length (lives (ss_prop s) ?n))" using lv by simp
  moreover have "length (ss_prop ?s) = ss_prop_size s" using ok by (simp add: push_prop_def Let_def shape_ok_def)
  ultimately show ?thesis using ok room atom(2) unfolding shape_ok_def by (simp del: lives_simps)
qed

text \<open>Property i of p is new: its name and flags are there, its value is not.\<close>

definition added :: "shape_rt \<Rightarrow> nat \<Rightarrow> u32 \<Rightarrow> u8 \<Rightarrow> nat \<Rightarrow> shape_rt \<Rightarrow> bool" where
  "added rt p atom flags i rt' \<longleftrightarrow>
     (\<exists>ob s. rt_objects rt' p = Some ob \<and> rt_shapes rt' (so_shape ob) = Some s \<and> ss_prop_count s = Suc i \<and>
        map_option prop_key (ss_prop s ! i) = Some (atom, flags) \<and>
        view rt p = Some (map (entry_at (ss_prop s) (so_prop ob)) (lives (ss_prop s) i))) \<and>
     (\<forall>q. q \<noteq> p \<longrightarrow> view rt' q = view rt q)"

lemma added_view_cong: "view rt1 = view rt \<Longrightarrow> added rt1 p atom flags i rt' = added rt p atom flags i rt'"
  by (simp add: added_def)

lemma entry_at_cong: "props' ! i = props ! i \<Longrightarrow> entry_at props' vals i = entry_at props vals i"
  by (simp add: entry_at_def)

lemma E_idem [simp]: "(\<lambda>_. 0)(a := 0) = (\<lambda>_. 0)"
  by auto

lemma push_prop_inv:
  assumes inv: "rt_inv rt S (\<lambda>_. 0) X" and ob: "rt_objects rt p = Some ob" and s: "rt_shapes rt (so_shape ob) = Some s"
    and one: "ss_ref_count s = 1" and room: "ss_prop_count s < ss_prop_size s" "ss_prop_count s + 1 < 2 ^ 26"
    and atom: "atom \<noteq> JS_ATOM_NULL" "atom \<notin> set (map entry_atom (props_view s (so_prop ob)))"
    and rt': "rt' = set_sh (so_shape ob) (Some (push_prop atom flags s)) rt"
  shows "rt_inv rt' S (\<lambda>_. 0) (insert p X) \<and> added rt p atom flags (ss_prop_count s) rt'"
proof
  note ok = rt_inv_shape [OF inv s] and sole = sole_holder [OF inv s one ob refl]
  have n: "ss_prop_count s < length (ss_prop s)" using ok room by (simp add: shape_ok_def)
  have ok': "shape_ok (push_prop atom flags s)"
    using shape_ok_push [OF _ room atom(1)] ok atom(2) unfolding props_view_atoms by blast
  have only: "q = p" if "rt_objects rt q = Some ob1" "so_shape ob1 = so_shape ob" for q ob1
    using holder_in [OF that(1)] that(2) sole by simp
  have obs: "ss_prop_size (push_prop atom flags s) \<le> length (so_prop ob1) \<and>
      (q \<notin> insert p X \<longrightarrow> (\<forall>e\<in>set (props_view (push_prop atom flags s) (so_prop ob1)). entry_ok e))"
    if "rt_objects rt q = Some ob1" "so_shape ob1 = so_shape ob" for q ob1
    using only [OF that] that(1) rt_inv_holder [OF inv ob s] ob by simp
  have "rt_inv rt' S ((\<lambda>_. 0)(so_shape ob := 0)) (insert p X)"
    unfolding rt'
    by (rule rt_inv_set_sh [OF inv s ok' _ _ _ obs]) (use one sole in auto)
  then show "rt_inv rt' S (\<lambda>_. 0) (insert p X)" by simp
  have "map (entry_at (ss_prop (push_prop atom flags s)) (so_prop ob)) (lives (ss_prop s) (ss_prop_count s)) = props_view s (so_prop ob)"
    by (auto simp: props_view_def intro!: entry_at_cong push_prop_cells(1) [OF n] dest: lives_less)
  moreover have "view rt' q = view rt q" if "q \<noteq> p" for q
    unfolding rt' by (rule view_cong) (use only that in auto)
  ultimately show "added rt p atom flags (ss_prop_count s) rt'"
    using ob s push_prop_cells(2) [OF n] push_prop_lives(1) [OF n atom(1)] by (simp add: added_def rt' view_def)
qed

lemma relink_inv:
  assumes "rt_inv rt (hashed_shapes rt - {a}) E X" "rt_shapes rt a = Some s"
  shows "\<exists>rt'. (if ss_is_hashed s then js_shape_hash_link a rt else Some rt) = Some rt' \<and>
    rt_inv rt' (hashed_shapes rt') E X \<and> table_step rt rt'"
proof (cases "ss_is_hashed s")
  case True
  then have "insert a (hashed_shapes rt - {a}) = hashed_shapes rt" using assms(2) by (auto simp: hashed_shapes_def)
  with True js_shape_hash_link_inv [OF assms] table_step_hashed show ?thesis by fastforce
next
  case False
  then have "hashed_shapes rt - {a} = hashed_shapes rt" using assms(2) by (auto simp: hashed_shapes_def)
  with False assms show ?thesis by simp
qed

lemma unhash_inv:
  assumes "rt_inv rt (hashed_shapes rt) E X" "rt_shapes rt a = Some s"
  shows "\<exists>rt'. (if ss_is_hashed s then js_shape_hash_unlink a rt else Some rt) = Some rt' \<and>
    rt_inv rt' (hashed_shapes rt' - {a}) E X \<and> table_step rt rt'"
proof (cases "ss_is_hashed s")
  case True
  then have "a \<in> hashed_shapes rt" using assms(2) by (auto simp: hashed_shapes_def)
  with True js_shape_hash_unlink_inv [OF assms(1)] table_step_hashed show ?thesis by fastforce
next
  case False
  then have "hashed_shapes rt - {a} = hashed_shapes rt" using assms(2) by (auto simp: hashed_shapes_def)
  with False assms show ?thesis by simp
qed

lemma set_hash_inv:
  assumes inv: "rt_inv rt (hashed_shapes rt - {a}) E X" and s: "rt_shapes rt a = Some s"
    and rt': "rt' = set_sh a (Some (s\<lparr>ss_hash := h\<rparr>)) rt"
  shows "rt_inv rt' (hashed_shapes rt' - {a}) E X \<and> view rt' = view rt"
proof
  have "rt_inv rt' (hashed_shapes rt - {a}) (E(a := E a)) X"
    unfolding rt'
    by (rule rt_inv_set_sh [OF inv s]) (use rt_inv_shape [OF inv s] rt_inv_holders [OF inv s] rt_inv_holder [OF inv] s in simp_all)
  moreover have "hashed_shapes rt' = hashed_shapes rt" using hashed_shapes_set_sh [OF s] by (simp add: rt')
  ultimately show "rt_inv rt' (hashed_shapes rt' - {a}) E X" by simp
  show "view rt' = view rt"
  proof
    show "view rt' q = view rt q" for q unfolding rt' by (rule view_cong) (use s in auto)
  qed
qed

lemma flags_keep: "flags < 64 \<Longrightarrow> flags AND 0x3f = (flags :: u8)"
  using less_mask_eq [of flags 6] by (simp add: mask_eq_exp_minus_1)

text \<open>The part of \<open>add_shape_property\<close> after the room has been made.\<close>

lemma add_shape_property_room:
  assumes inv: "rt_inv rt (hashed_shapes rt - {sh}) (\<lambda>_. 0) X" and ob: "rt_objects rt p = Some ob" "so_shape ob = sh"
    and s: "rt_shapes rt sh = Some s" and one: "ss_ref_count s = 1" and room: "ss_prop_count s < ss_prop_size s" "ss_prop_count s + 1 < 2 ^ 26"
    and flags: "flags < 64"
    and atom: "atom \<noteq> JS_ATOM_NULL" "atom \<notin> set (map entry_atom (props_view s (so_prop ob)))"
  shows "\<exists>rt'. append_shape_property new_shape_hash sh atom flags rt = Some (0, sh, rt') \<and> rt_inv rt' (hashed_shapes rt') (\<lambda>_. 0) (insert p X) \<and> added rt p atom flags (ss_prop_count s) rt'"
proof -
  define s1 where "s1 = (if ss_is_hashed s then s\<lparr>ss_hash := new_shape_hash\<rparr> else s)"
  define rt1 where "rt1 = (if ss_is_hashed s then set_sh sh (Some s1) rt else rt)"
  have s1: "rt_shapes rt1 sh = Some s1" "rt_objects rt1 = rt_objects rt" "ss_is_hashed s1 = ss_is_hashed s"
    using s by (simp_all add: rt1_def s1_def)
  have inv1: "rt_inv rt1 (hashed_shapes rt1 - {sh}) (\<lambda>_. 0) X \<and> view rt1 = view rt"
    using set_hash_inv [OF inv s refl] inv by (simp add: rt1_def s1_def)
  obtain rt2 where rt2: "(if ss_is_hashed s1 then js_shape_hash_link sh rt1 else Some rt1) = Some rt2"
    "rt_inv rt2 (hashed_shapes rt2) (\<lambda>_. 0) X" "table_step rt1 rt2" using relink_inv [OF _ s1(1)] inv1 by blast
  obtain n where s2: "rt_shapes rt2 sh = Some (s1\<lparr>ss_shape_hash_next := n\<rparr>)" using table_step_shape [OF rt2(3) s1(1)] by blast
  let ?s2 = "s1\<lparr>ss_shape_hash_next := n\<rparr>"
  have fields: "ss_ref_count ?s2 = 1" "ss_prop_count ?s2 = ss_prop_count s" "ss_prop_size ?s2 = ss_prop_size s"
    "props_view ?s2 = props_view s" using one by (auto simp: s1_def fun_eq_iff)
  have ob2: "rt_objects rt2 p = Some ob" using rt2(3) s1(2) ob(1) by (simp add: table_step_def)
  define rt3 where "rt3 = set_sh sh (Some (push_prop atom flags ?s2)) rt2"
  have p: "rt_inv rt3 (hashed_shapes rt2) (\<lambda>_. 0) (insert p X) \<and> added rt2 p atom flags (ss_prop_count ?s2) rt3"
    by (rule push_prop_inv [OF rt2(2) ob2, of ?s2]) (use ob(2) s2 fields room atom in \<open>simp_all add: rt3_def\<close>)
  have ok: "shape_ok ?s2" using rt_inv_shape [OF rt2(2) s2] by simp
  have slot: "atom_slot (ss_prop_hash_mask ?s2) atom < length (ss_prop_hash ?s2)" "ss_prop_count ?s2 < length (ss_prop ?s2)"
    using ok hash_ok_slot room fields unfolding shape_ok_def by (blast, metis)
  have get: "get_sh rt2 sh = Some ?s2" using rt_inv_get_sh [OF rt2(2)] s2 by simp
  have get0: "get_sh rt sh = Some s" using rt_inv_get_sh [OF inv] s by simp
  have link: "(if ss_is_hashed s then js_shape_hash_link sh (set_sh sh (Some (s\<lparr>ss_hash := new_shape_hash\<rparr>)) rt) else Some rt) = Some rt2"
    using rt2(1) s1(3) by (simp add: rt1_def s1_def split: if_splits)
  have "hashed_shapes rt3 = hashed_shapes rt2" using hashed_shapes_set_sh [OF s2] by (simp add: rt3_def)
  moreover have "added rt p atom flags (ss_prop_count s) rt3"
    using p fields(2) inv1 table_step_view [OF rt2(3)] by (simp add: added_def)
  ultimately show ?thesis
    using p slot get fields
    by (intro exI [of _ "event (Dup_atom atom) rt3"])
      (simp add: append_shape_property_def get0 link Let_def wr_def flags_keep [OF flags] rt3_def push_prop_def added_def)
qed

lemma add_shape_property_inv:
  assumes inv: "rt_inv rt (hashed_shapes rt) (\<lambda>_. 0) X" and mem: "mem_ok mem" and ob: "rt_objects rt p = Some ob" "so_shape ob = a"
    and s: "rt_shapes rt a = Some s" and one: "ss_ref_count s = 1" and room: "ss_prop_count s + 1 < 2 ^ 26" and flags: "flags < 64"
    and atom: "atom \<noteq> JS_ATOM_NULL" "atom \<notin> set (map entry_atom (props_view s (so_prop ob)))"
  shows "\<exists>r sh rt'. add_shape_property mem a p atom flags rt = Some (r, sh, rt') \<and>
    (r = -1 \<and> oom mem \<and> rt_inv rt' (hashed_shapes rt') (\<lambda>_. 0) X \<and> view rt' = view rt \<or>
     r = 0 \<and> rt_inv rt' (hashed_shapes rt') (\<lambda>_. 0) (insert p X) \<and> added rt p atom flags (ss_prop_count s) rt')"
proof -
  have get: "get_sh rt a = Some s" using rt_inv_get_sh [OF inv] s by simp
  obtain rt1 where rt1: "(if ss_is_hashed s then js_shape_hash_unlink a rt else Some rt) = Some rt1"
    "rt_inv rt1 (hashed_shapes rt1 - {a}) (\<lambda>_. 0) X" "table_step rt rt1" using unhash_inv [OF inv s] by blast
  obtain n where s1: "rt_shapes rt1 a = Some (s\<lparr>ss_shape_hash_next := n\<rparr>)" using table_step_shape [OF rt1(3) s] by blast
  let ?s1 = "s\<lparr>ss_shape_hash_next := n\<rparr>"
  have ob1: "rt_objects rt1 p = Some ob" using rt1(3) ob(1) by (simp add: table_step_def)
  obtain r sh rt2 where res: "(if ss_prop_count ?s1 \<ge> ss_prop_size ?s1 then resize_properties mem a p (ss_prop_count ?s1 + 1) rt1
      else Some (0, a, rt1)) = Some (r, sh, rt2)" "resized mem rt1 (hashed_shapes rt1 - {a}) X a p ?s1 (r, sh, rt2)"
    using make_room [OF rt1(2) mem ob1 ob(2) s1] one by (metis (no_types, lifting) Diff_iff insertI1 prod_cases3 shape.select_convs(1) shape.surjective shape.update_convs(10))
  obtain ob2 s2 where rd: "r = 0 \<or> r = -1 \<and> oom mem" "rt_inv rt2 (hashed_shapes rt1 - {a}) (\<lambda>_. 0) X" "view rt2 = view rt1" "sh \<notin> hashed_shapes rt1 - {a}"
    "rt_objects rt2 = (rt_objects rt1)(p := Some ob2)" "so_shape ob2 = sh" "rt_shapes rt2 = (rt_shapes rt1)(a := None, sh := Some s2)"
    "ss_is_hashed s2 = ss_is_hashed s" "ss_ref_count s2 = 1" "ss_prop_count s2 = ss_prop_count s" "r = 0 \<longrightarrow> ss_prop_count s2 < ss_prop_size s2"
    using res(2) by (auto simp: resized_def)
  have "hashed_shapes rt2 - {sh} = hashed_shapes rt1 - {a}"
    using rd(4,7) by (auto simp: hashed_shapes_def)
  then have inv2: "rt_inv rt2 (hashed_shapes rt2 - {sh}) (\<lambda>_. 0) X" using rd(2) by simp
  have s2: "rt_shapes rt2 sh = Some s2" and ob2: "rt_objects rt2 p = Some ob2" using rd(5,7) by simp_all
  have view2: "view rt2 = view rt" using rd(3) table_step_view [OF rt1(3)] by simp
  have start: "add_shape_property mem a p atom flags rt =
      (if r \<noteq> 0 then do { rt \<leftarrow> (if ss_is_hashed s2 then js_shape_hash_link sh rt2 else Some rt2); Some (-1, sh, rt) }
       else append_shape_property (if ss_is_hashed s then shape_hash (shape_hash (ss_hash s) atom) (ucast flags) else 0) sh atom flags rt2)"
    using get rt1(1) res(1) rd(8)
    by (cases "ss_prop_size s \<le> ss_prop_count s"; cases "ss_is_hashed s") (simp_all add: add_shape_property_def)
  show ?thesis
  proof (cases "r = 0")
    case True
    have "props_view s2 (so_prop ob2) = props_view s (so_prop ob)"
      using view2 view_Some [OF ob2, of s2] view_Some [OF ob(1), of s] s2 s ob(2) rd(6) by simp
    then have at: "atom \<notin> set (map entry_atom (props_view s2 (so_prop ob2)))" using atom(2) by simp
    have room2: "ss_prop_count s2 < ss_prop_size s2" "ss_prop_count s2 + 1 < 2 ^ 26" using rd(10,11) True room by simp_all
    obtain rt3 where "append_shape_property (if ss_is_hashed s then shape_hash (shape_hash (ss_hash s) atom) (ucast flags) else 0)
        sh atom flags rt2 = Some (0, sh, rt3)"
      "rt_inv rt3 (hashed_shapes rt3) (\<lambda>_. 0) (insert p X)" "added rt2 p atom flags (ss_prop_count s2) rt3"
      using add_shape_property_room [OF inv2 ob2 rd(6) s2 rd(9) room2 flags atom(1) at] by blast
    with True start show ?thesis using added_view_cong [OF view2] rd(10) by simp
  next
    case False
    from relink_inv [OF inv2 s2] obtain rt3 where rt3: "(if ss_is_hashed s2 then js_shape_hash_link sh rt2 else Some rt2) = Some rt3"
      "rt_inv rt3 (hashed_shapes rt3) (\<lambda>_. 0) X" "table_step rt2 rt3" by blast
    with False rd(1) start view2 table_step_view [OF rt3(3)] show ?thesis by simp
  qed
qed

end
