(* ===== verification/Shape_Define.thy ===== *)
theory Shape_Define
  imports Shape_Add
begin

text \<open>\<open>add_property\<close>: the object moves to a shape that already has the property, or gets a shape of its own and extends it.\<close>

section \<open>The search for a shape with the property\<close>

lemma same_props_keys:
  assumes "n \<le> length as" "n \<le> length bs" "\<forall>i<n. as ! i \<noteq> None \<and> bs ! i \<noteq> None"
  shows "same_props n as bs = Some (same_keys n bs as)"
  using assms
proof (induction n as bs rule: same_props.induct)
  case (2 n a as b bs)
  have "a \<noteq> None \<and> b \<noteq> None" using "2.prems"(3) by (metis nth_Cons_0 zero_less_Suc)
  then obtain x y where ab: "a = Some x" "b = Some y" by blast
  have rest: "\<forall>i<n. as ! i \<noteq> None \<and> bs ! i \<noteq> None" using "2.prems"(3) by (metis Suc_less_eq nth_Cons_Suc)
  have "same_keys (Suc n) (b # bs) (a # as) \<longleftrightarrow> prop_key y = prop_key x \<and> same_keys n bs as"
    using ab by (auto simp: same_keys_def nth_Cons split: nat.splits)
  moreover have "prop_key y = prop_key x \<longleftrightarrow> pr_atom x = pr_atom y \<and> pr_flags x = pr_flags y" by (auto simp: prop_key_def)
  ultimately show ?case using "2.IH" [of x y] "2.prems" rest ab by auto
qed (simp_all add: same_keys_def)

definition extended_by :: "shape \<Rightarrow> u32 \<Rightarrow> u8 \<Rightarrow> shape \<Rightarrow> bool" where
  "extended_by s atom flags s1 \<longleftrightarrow>
     ss_prop_count s1 = Suc (ss_prop_count s) \<and> same_keys (ss_prop_count s) (ss_prop s) (ss_prop s1) \<and>
     map_option prop_key (ss_prop s1 ! ss_prop_count s) = Some (atom, flags)"

lemma extends_shape_run:
  assumes ok: "shape_ok s" "shape_ok s1"
  shows "\<exists>b. extends_shape s h atom flags s1 = Some b \<and> (b \<longrightarrow> extended_by s atom flags s1)"
proof (cases "ss_prop_count s1 = ss_prop_count s + 1")
  case True
  let ?n = "ss_prop_count s"
  have same: "same_props ?n (ss_prop s1) (ss_prop s) = Some (same_keys ?n (ss_prop s) (ss_prop s1))"
    using ok True by (intro same_props_keys) (auto simp: shape_ok_def)
  obtain pr where pr: "ss_prop s1 ! ?n = Some pr" "?n < length (ss_prop s1)" using ok True by (fastforce simp: shape_ok_def)
  show ?thesis using True same pr by (auto simp: extends_shape_def extended_by_def prop_key_def)
qed (auto simp: extends_shape_def intro: exI [of _ False])

lemma find_hashed_shape_prop_inv:
  assumes inv: "rt_inv rt (hashed_shapes rt) E X" and s: "rt_shapes rt a = Some s"
  shows "\<exists>b. find_hashed_shape_prop a atom flags rt = Some b \<and>
    (b \<noteq> 0 \<longrightarrow> (\<exists>s1. rt_shapes rt b = Some s1 \<and> ss_is_hashed s1 \<and> extended_by s atom flags s1))"
proof -
  let ?h = "shape_hash (shape_hash (ss_hash s) atom) (ucast flags)"
  note ok = rt_inv_shape [OF inv s]
  have get: "get_sh rt a = Some s" using rt_inv_get_sh [OF inv] s by simp
  have lk: "linked (rt_shapes rt) (rt_shape_hash rt) (shape_hash_bits rt) (hashed_shapes rt)" using inv by (simp add: rt_inv_def)
  have total: "extends_shape s ?h atom flags t \<noteq> None" if "rt_shapes rt c = Some t" for c t
    using extends_shape_run [of s t ?h atom flags] ok rt_inv_shape [OF inv that] by auto
  obtain t b where f: "rd (rt_shape_hash rt) (get_shape_hash ?h (shape_hash_bits rt)) = Some t"
    "find_in_chain (extends_shape s ?h atom flags) t rt = Some b"
    "b = 0 \<or> b \<in> hashed_shapes rt \<and> (\<exists>t. rt_shapes rt b = Some t \<and> extends_shape s ?h atom flags t = Some True)"
    using linked_find [OF lk, of "extends_shape s ?h atom flags" ?h] total by blast
  have "\<exists>s1. rt_shapes rt b = Some s1 \<and> ss_is_hashed s1 \<and> extended_by s atom flags s1" if nz: "b \<noteq> 0"
  proof -
    obtain s1 where s1: "rt_shapes rt b = Some s1" "extends_shape s ?h atom flags s1 = Some True" "ss_is_hashed s1"
      using f(3) nz by (auto simp: hashed_shapes_def)
    have ok1: "shape_ok s1" using rt_inv_shape [OF inv s1(1)] by blast
    from extends_shape_run [of s s1 ?h atom flags] s1 ok ok1 show ?thesis by auto
  qed
  with f get show ?thesis by (simp add: find_hashed_shape_prop_def Let_def)
qed

section \<open>Moving an object to another shape\<close>

lemma hashed_shapes_set_ob [simp]: "hashed_shapes (set_ob p ob rt) = hashed_shapes rt"
  by (simp add: hashed_shapes_def)

lemma switch_shape:
  assumes inv: "rt_inv rt (hashed_shapes rt) ((\<lambda>_. 0)(b := 1)) X" and ob: "rt_objects rt p = Some ob" "so_shape ob = a" "a \<noteq> b"
    and sb: "rt_shapes rt b = Some sb"
    and ob': "so_shape ob' = b" "ss_prop_size sb \<le> length (so_prop ob')" "p \<notin> X' \<longrightarrow> (\<forall>e\<in>set (props_view sb (so_prop ob')). entry_ok e)"
    and X: "\<And>q. q \<noteq> p \<Longrightarrow> q \<in> X \<Longrightarrow> q \<in> X'"
  shows "\<exists>rt'. js_free_shape a (set_ob p ob' rt) = Some rt' \<and> rt_inv rt' (hashed_shapes rt') (\<lambda>_. 0) X' \<and>
    rt_objects rt' = (rt_objects rt)(p := Some ob') \<and> (\<exists>n. rt_shapes rt' b = Some (sb\<lparr>ss_shape_hash_next := n\<rparr>)) \<and>
    view rt' = (view rt)(p := Some (props_view sb (so_prop ob')))"
proof -
  let ?rt = "set_ob p ob' rt"
  obtain s where s: "rt_shapes rt a = Some s" using rt_inv_object [OF inv ob(1)] ob(2) by auto
  have "rt_inv ?rt (hashed_shapes rt) (((\<lambda>_. 0)(b := 1))(b := ((\<lambda>_. 0)(b := 1)) b - 1, a := ((\<lambda>_. 0)(b := 1)) a + 1)) X'"
    by (rule rt_inv_set_ob [OF inv ob(1,2) sb _ ob(3) ob' X]) simp_all
  moreover have "((\<lambda>_. 0)(b := 1 :: nat))(b := ((\<lambda>_. 0)(b := 1)) b - 1, a := ((\<lambda>_. 0)(b := 1)) a + 1) = (\<lambda>_. 0)(a := 1)"
    using ob(3) by auto
  ultimately have inv1: "rt_inv ?rt (hashed_shapes rt) ((\<lambda>_. 0)(a := 1)) X'" by (simp only:)
  have h: "ss_is_hashed s \<longleftrightarrow> a \<in> hashed_shapes rt" using s by (simp add: hashed_shapes_def)
  have s1: "rt_shapes ?rt a = Some s" using s by simp
  have e: "0 < ((\<lambda>_. 0)(a := 1 :: nat)) a" by simp
  have z: "((\<lambda>_. 0)(a := 1 :: nat))(a := ((\<lambda>_. 0)(a := 1)) a - 1) = (\<lambda>_. 0)" by auto
  obtain rt' where rt': "js_free_shape a ?rt = Some rt'" "rt_inv rt' (hashed_shapes rt') (\<lambda>_. 0) X'"
    "rt_objects rt' = rt_objects ?rt" "view rt' = view ?rt"
    "\<forall>c. c \<noteq> a \<longrightarrow> map_option unlinked (rt_shapes rt' c) = map_option unlinked (rt_shapes rt c)"
    using js_free_shape_inv [OF inv1 s1 e h, unfolded z] by (simp, blast)
  have "map_option unlinked (rt_shapes rt' b) = Some (unlinked sb)" using rt'(5) ob(3) sb by simp
  then obtain sb' where sb': "rt_shapes rt' b = Some sb'" "unlinked sb' = unlinked sb" by auto
  have "sb' = sb\<lparr>ss_shape_hash_next := ss_shape_hash_next sb'\<rparr>" using sb'(2) by (cases sb; cases sb') (simp add: unlinked_def)
  then have "\<exists>n. rt_shapes rt' b = Some (sb\<lparr>ss_shape_hash_next := n\<rparr>)" using sb'(1) by metis
  moreover have "view ?rt = (view rt)(p := Some (props_view sb (so_prop ob')))"
    using sb ob'(1) by (auto simp: view_def fun_eq_iff)
  ultimately show ?thesis using rt' by simp
qed

lemma replace_shared_shape:
  "get_ob rt p = Some ob \<Longrightarrow> so_shape ob = a \<Longrightarrow> get_sh rt a = Some s \<Longrightarrow> ss_ref_count s > 1 \<Longrightarrow>
     replace_shape p b rt = js_free_shape a (set_ob p (ob\<lparr>so_shape := b\<rparr>) rt)"
  by (simp add: replace_shape_def js_free_shape_def Let_def set_sh_def set_ob_def get_sh_def split: if_splits)

text \<open>The object gets a copy of its shape.\<close>

lemma switch_to_copy:
  assumes inv: "rt_inv rt (hashed_shapes rt) ((\<lambda>_. 0)(b := 1)) X" and ob: "rt_objects rt p = Some ob" "so_shape ob = a" "a \<noteq> b"
    and s: "rt_shapes rt a = Some s" and sb: "rt_shapes rt b = Some sb" "core sb = core s"
  shows "\<exists>rt'. js_free_shape a (set_ob p (ob\<lparr>so_shape := b\<rparr>) rt) = Some rt' \<and> rt_inv rt' (hashed_shapes rt') (\<lambda>_. 0) X \<and>
    rt_objects rt' p = Some (ob\<lparr>so_shape := b\<rparr>) \<and> (\<exists>n. rt_shapes rt' b = Some (sb\<lparr>ss_shape_hash_next := n\<rparr>)) \<and> view rt' = view rt"
proof -
  note c = core_eq [OF sb(2)]
  have h: "ss_prop_size s \<le> length (so_prop ob) \<and> (p \<notin> X \<longrightarrow> (\<forall>e\<in>set (props_view s (so_prop ob)). entry_ok e))"
    using rt_inv_holder [OF inv ob(1)] s ob(2) by simp
  have "\<exists>rt'. js_free_shape a (set_ob p (ob\<lparr>so_shape := b\<rparr>) rt) = Some rt' \<and> rt_inv rt' (hashed_shapes rt') (\<lambda>_. 0) X \<and>
    rt_objects rt' = (rt_objects rt)(p := Some (ob\<lparr>so_shape := b\<rparr>)) \<and> (\<exists>n. rt_shapes rt' b = Some (sb\<lparr>ss_shape_hash_next := n\<rparr>)) \<and>
    view rt' = (view rt)(p := Some (props_view sb (so_prop (ob\<lparr>so_shape := b\<rparr>))))"
    by (rule switch_shape [OF inv ob sb(1)]) (use h c in simp_all)
  moreover have "view rt p = Some (props_view sb (so_prop ob))" using ob s c(5) by (simp add: view_def)
  ultimately show ?thesis by (auto simp: fun_upd_idem)
qed

section \<open>Adding a property\<close>

lemma extended_view:
  assumes ok: "shape_ok s" and ext: "extended_by s atom flags s1" and vals: "\<forall>i < ss_prop_count s. vals' ! i = vals ! i"
  shows "map (entry_at (ss_prop s1) vals') (lives (ss_prop s1) (ss_prop_count s)) = props_view s vals"
proof -
  have keys: "same_keys (ss_prop_count s) (ss_prop s) (ss_prop s1)" using ext by (simp add: extended_by_def)
  show ?thesis
    unfolding props_view_def same_keys_lives [OF keys]
    using same_keys_at(4) [OF keys] vals by (auto dest: lives_less)
qed

text \<open>The outcome of \<open>add_property\<close>.\<close>

definition property_added :: "shape_mem \<Rightarrow> shape_rt \<Rightarrow> nat \<Rightarrow> u32 \<Rightarrow> u8 \<Rightarrow> nat set \<Rightarrow> nat option \<times> shape_rt \<Rightarrow> bool" where
  "property_added mem rt p atom flags X = (\<lambda>(r, rt').
     case r of
       None \<Rightarrow> oom mem \<and> rt_inv rt' (hashed_shapes rt') (\<lambda>_. 0) X \<and> view rt' = view rt
     | Some i \<Rightarrow> rt_inv rt' (hashed_shapes rt') (\<lambda>_. 0) (insert p X) \<and> added rt p atom flags i rt')"

lemma add_property_found:
  assumes inv: "rt_inv rt (hashed_shapes rt) (\<lambda>_. 0) X" and mem: "mem_ok mem" and ob: "rt_objects rt p = Some ob" "so_shape ob = a"
    and s: "rt_shapes rt a = Some s" "ss_is_hashed s"
    and b: "find_hashed_shape_prop a atom flags rt = Some b" "b \<noteq> 0" "rt_shapes rt b = Some s1" "ss_is_hashed s1" "extended_by s atom flags s1"
  shows "\<exists>res. add_property mem p atom flags rt = Some res \<and> property_added mem rt p atom flags X res"
proof -
  have get: "get_ob rt p = Some ob" "get_sh rt (so_shape ob) = Some s" "get_sh rt b = Some s1"
    using ob s b rt_inv_get_sh [OF inv] rt_inv_get_ob [OF inv] by simp_all
  have ab: "a \<noteq> b" using s(1) b(3,5) by (auto simp: extended_by_def)
  note ok = rt_inv_shape [OF inv s(1)] and ok1 = rt_inv_shape [OF inv b(3)]
  have h: "ss_prop_size s \<le> length (so_prop ob)" using rt_inv_holder [OF inv ob(1)] s ob(2) by simp
  have fits: "ss_prop_count s \<le> ss_prop_size s" "Suc (ss_prop_count s) \<le> ss_prop_size s1"
    using ok ok1 b(5) by (simp_all add: shape_ok_def extended_by_def)
  define m where "m = (if ss_prop_size s1 \<noteq> ss_prop_size s then
            (case js_malloc mem (16 * ss_prop_size s1) rt of
               (None, rt) \<Rightarrow> (False, ob, rt)
             | (Some _, rt) \<Rightarrow> (True, ob\<lparr>so_prop := realloc_cells (ss_prop_size s1) (so_prop ob)\<rparr>, rt))
          else (True, ob, rt))"
  have start: "add_property mem p atom flags rt = (case m of (ok, ob', rt) \<Rightarrow>
      if \<not> ok then Some (None, rt)
       else do {
         rt \<leftarrow> js_dup_shape b rt;
         let rt = set_ob p (ob'\<lparr>so_shape := b\<rparr>) rt;
         rt \<leftarrow> js_free_shape a rt;
         new_s \<leftarrow> get_sh rt b;
         Some (Some (ss_prop_count new_s - 1), rt)
       })"
    using get s(2) b(1,2) ob(2) 
    by (cases "ss_prop_size s1 \<noteq> ss_prop_size s"; cases "js_malloc mem (16 * ss_prop_size s1) rt"; cases "fst (js_malloc mem (16 * ss_prop_size s1) rt)")
      (simp_all add: add_property_def m_def Let_def)
  have "\<exists>ok ob' rt'. m = (ok, ob', rt') \<and> (\<not> ok \<longrightarrow> oom mem \<and> (\<exists>ev. rt' = rt\<lparr>rt_events := ev\<rparr>)) \<and>
      (ok \<longrightarrow> rt' = rt \<and> ss_prop_size s1 \<le> length (so_prop ob') \<and> (\<forall>i < ss_prop_count s. so_prop ob' ! i = so_prop ob ! i))"
  proof -
    obtain r rt1 where malloc: "js_malloc mem (16 * ss_prop_size s1) rt = (r, rt1)" by fastforce
    from js_malloc_cases [OF mem malloc] rt_inv_finite [OF inv] malloc h fits show ?thesis by (cases r) (auto simp: m_def)
  qed
  then obtain ok2 ob' rt1 where m: "m = (ok2, ob', rt1)" "\<not> ok2 \<longrightarrow> oom mem \<and> (\<exists>ev. rt1 = rt\<lparr>rt_events := ev\<rparr>)"
    "ok2 \<longrightarrow> rt1 = rt \<and> ss_prop_size s1 \<le> length (so_prop ob') \<and> (\<forall>i < ss_prop_count s. so_prop ob' ! i = so_prop ob ! i)" by blast
  show ?thesis
  proof (cases ok2)
    case False
    then obtain ev where "rt1 = rt\<lparr>rt_events := ev\<rparr>" "oom mem" using m(2) by blast
    with False m(1) start inv show ?thesis by (simp add: property_added_def)
  next
    case True
    then have m': "rt1 = rt" "ss_prop_size s1 \<le> length (so_prop ob')" "\<forall>i < ss_prop_count s. so_prop ob' ! i = so_prop ob ! i"
      using m(3) by simp_all
    let ?s1 = "s1\<lparr>ss_ref_count := ss_ref_count s1 + 1\<rparr>"
    obtain rt2 where rt2: "js_dup_shape b rt = Some rt2" "rt2 = set_sh b (Some ?s1) rt"
      "rt_inv rt2 (hashed_shapes rt2) ((\<lambda>_. 0)(b := 1)) X" "view rt2 = view rt"
      using js_dup_shape_inv [OF inv b(3,4)] by auto
    have o2: "rt_objects rt2 p = Some ob" "rt_shapes rt2 b = Some ?s1" using rt2(2) ob(1) by simp_all
    let ?ob = "ob'\<lparr>so_shape := b\<rparr>"
    have "\<exists>rt'. js_free_shape a (set_ob p ?ob rt2) = Some rt' \<and> rt_inv rt' (hashed_shapes rt') (\<lambda>_. 0) (insert p X) \<and>
      rt_objects rt' = (rt_objects rt2)(p := Some ?ob) \<and> (\<exists>n. rt_shapes rt' b = Some (?s1\<lparr>ss_shape_hash_next := n\<rparr>)) \<and>
      view rt' = (view rt2)(p := Some (props_view ?s1 (so_prop ?ob)))"
      by (rule switch_shape [OF rt2(3) o2(1) ob(2) ab o2(2)]) (use m'(2) in simp_all)
    then obtain rt3 n where rt3: "js_free_shape a (set_ob p ?ob rt2) = Some rt3" "rt_inv rt3 (hashed_shapes rt3) (\<lambda>_. 0) (insert p X)"
      "rt_objects rt3 p = Some ?ob" "rt_shapes rt3 b = Some (?s1\<lparr>ss_shape_hash_next := n\<rparr>)" "\<forall>q. q \<noteq> p \<longrightarrow> view rt3 q = view rt2 q" by auto
    have ext: "ss_prop_count s1 = Suc (ss_prop_count s)" "map_option prop_key (ss_prop s1 ! ss_prop_count s) = Some (atom, flags)"
      using b(5) by (simp_all add: extended_by_def)
    have "map (entry_at (ss_prop s1) (so_prop ob')) (lives (ss_prop s1) (ss_prop_count s)) = props_view s (so_prop ob)"
      using extended_view [OF _ b(5) m'(3)] ok by blast
    then have "added rt p atom flags (ss_prop_count s) rt3"
      using rt3 rt2(4) ext view_Some [OF ob(1)] s(1) ob(2) by (simp add: added_def)
    moreover have "get_sh rt3 b = Some (?s1\<lparr>ss_shape_hash_next := n\<rparr>)" using rt_inv_get_sh [OF rt3(2)] rt3(4) by simp
    ultimately show ?thesis
      using True m(1) m'(1) start rt2(1) rt3(1,2) ext(1) by (simp add: property_added_def)
  qed
qed

section \<open>A shape of its own\<close>

text \<open>In rt', the object p has its shape, a copy of s, for itself.\<close>

definition owns_copy :: "shape_rt \<Rightarrow> nat \<Rightarrow> shaped_object \<Rightarrow> shape \<Rightarrow> bool \<Rightarrow> nat set \<Rightarrow> shape_rt \<Rightarrow> bool" where
  "owns_copy rt p ob s hashed X rt' \<longleftrightarrow>
     rt_inv rt' (hashed_shapes rt') (\<lambda>_. 0) X \<and> view rt' = view rt \<and>
     (\<exists>sh s'. rt_objects rt' p = Some (ob\<lparr>so_shape := sh\<rparr>) \<and> rt_shapes rt' sh = Some s' \<and> core s' = core s \<and> ss_ref_count s' = 1 \<and>
        ss_is_hashed s' = hashed)"

lemma shared_ref_count:
  assumes "rt_inv rt S E X" "rt_objects rt p = Some ob" "rt_shapes rt (so_shape ob) = Some s" "ss_ref_count s \<noteq> 1"
  shows "1 < ss_ref_count s"
proof -
  have h: "finite (holders rt (so_shape ob))" "int (card (holders rt (so_shape ob)) + E (so_shape ob)) \<le> ss_ref_count s"
    using rt_inv_holders [OF assms(1,3)] by blast+
  have "0 < card (holders rt (so_shape ob))" using h(1) holder_in [OF assms(2)] by (auto simp: card_gt_0_iff)
  then show ?thesis using h(2) assms(4) by linarith
qed

lemma set_hashed_inv:
  assumes inv: "rt_inv rt S E X" and s: "rt_shapes rt a = Some s" "a \<notin> S"
  shows "rt_inv (set_sh a (Some (s\<lparr>ss_is_hashed := True\<rparr>)) rt) S E X \<and> view (set_sh a (Some (s\<lparr>ss_is_hashed := True\<rparr>)) rt) = view rt"
proof
  have "rt_inv (set_sh a (Some (s\<lparr>ss_is_hashed := True\<rparr>)) rt) S (E(a := E a)) X"
    by (rule rt_inv_set_sh [OF inv s(1)]) (use rt_inv_shape [OF inv s(1)] rt_inv_holders [OF inv s(1)] rt_inv_holder [OF inv] s in simp_all)
  then show "rt_inv (set_sh a (Some (s\<lparr>ss_is_hashed := True\<rparr>)) rt) S E X" by simp
  show "view (set_sh a (Some (s\<lparr>ss_is_hashed := True\<rparr>)) rt) = view rt"
  proof
    show "view (set_sh a (Some (s\<lparr>ss_is_hashed := True\<rparr>)) rt) q = view rt q" for q by (rule view_cong) (use s in auto)
  qed
qed

lemma copy_shape_inv:
  assumes inv: "rt_inv rt (hashed_shapes rt) (\<lambda>_. 0) X" and mem: "mem_ok mem" and ob: "rt_objects rt p = Some ob" "so_shape ob = a"
    and s: "rt_shapes rt a = Some s" "ss_ref_count s \<noteq> 1"
  shows "\<exists>sh rt1. js_clone_shape mem a rt = Some (sh, rt1) \<and>
    (sh = 0 \<and> oom mem \<and> rt_inv rt1 (hashed_shapes rt1) (\<lambda>_. 0) X \<and> view rt1 = view rt \<or>
     sh \<noteq> 0 \<and> (\<exists>rt2. replace_shape p sh rt1 = Some rt2 \<and>
        owns_copy rt p ob s False X rt2) \<and>
      (\<exists>rt2. (do { rt \<leftarrow> hash_clone sh rt1; replace_shape p sh rt }) = Some rt2 \<and> owns_copy rt p ob s True X rt2))"
proof -
  have ref: "1 < ss_ref_count s" using shared_ref_count [OF inv ob(1)] s ob(2) by simp
  obtain sh rt1 where c: "js_clone_shape mem a rt = Some (sh, rt1)" "rt_objects rt1 = rt_objects rt" "view rt1 = view rt"
    "sh = 0 \<and> oom mem \<and> rt_shapes rt1 = rt_shapes rt \<and> rt_inv rt1 (hashed_shapes rt) (\<lambda>_. 0) X \<or>
     sh \<noteq> 0 \<and> rt_shapes rt sh = None \<and> rt_shapes rt1 = (rt_shapes rt)(sh := Some (s\<lparr>ss_ref_count := 1, ss_is_hashed := False\<rparr>)) \<and>
       rt_inv rt1 (hashed_shapes rt) ((\<lambda>_. 0)(sh := 1)) X"
    using js_clone_shape_inv [OF inv mem s(1)] by blast
  show ?thesis
  proof (cases "sh = 0")
    case True
    then have "hashed_shapes rt1 = hashed_shapes rt" using c(4) by (simp add: hashed_shapes_def)
    with True c show ?thesis by simp
  next
    case False
    let ?c = "s\<lparr>ss_ref_count := 1, ss_is_hashed := False\<rparr>"
    have new: "rt_shapes rt sh = None" "rt_shapes rt1 = (rt_shapes rt)(sh := Some ?c)" "rt_inv rt1 (hashed_shapes rt) ((\<lambda>_. 0)(sh := 1)) X"
      using c(4) False by blast+
    have ash: "a \<noteq> sh" using new(1) s(1) by auto
    have fresh: "sh \<notin> hashed_shapes rt" "hashed_shapes rt1 = hashed_shapes rt" using new(1,2) by (auto simp: hashed_shapes_def)
    have r1: "rt_objects rt1 p = Some ob" "rt_shapes rt1 a = Some s" "rt_shapes rt1 sh = Some ?c" using c(2) ob(1) new(2) s(1) ash by simp_all
    have inv1: "rt_inv rt1 (hashed_shapes rt1) ((\<lambda>_. 0)(sh := 1)) X" using new(3) fresh by simp
    have plain: "\<exists>rt2. replace_shape p sh rt1 = Some rt2 \<and>
        owns_copy rt p ob s False X rt2"
    proof -
      have get: "get_sh rt1 a = Some s" "get_ob rt1 p = Some ob" using rt_inv_get_sh [OF inv1] rt_inv_get_ob [OF inv1] r1 by simp_all
      from switch_to_copy [OF inv1 r1(1) ob(2) ash r1(2,3)] show ?thesis
        unfolding replace_shared_shape [OF get(2) ob(2) get(1) ref] using c(3) by (auto simp: owns_copy_def intro!: exI [of _ sh])
    qed
    let ?d = "?c\<lparr>ss_is_hashed := True\<rparr>"
    let ?rt = "set_sh sh (Some ?d) rt1"
    have inv2: "rt_inv ?rt (hashed_shapes rt) ((\<lambda>_. 0)(sh := 1)) X \<and> view ?rt = view rt1"
      by (rule set_hashed_inv [OF new(3) r1(3) fresh(1)])
    moreover have "hashed_shapes ?rt - {sh} = hashed_shapes rt" using fresh new(2) by (auto simp: hashed_shapes_def)
    ultimately have inv2': "rt_inv ?rt (hashed_shapes ?rt - {sh}) ((\<lambda>_. 0)(sh := 1)) X" "view ?rt = view rt1" by simp_all
    have d: "rt_shapes ?rt sh = Some ?d" by simp
    obtain rt3 where rt3: "js_shape_hash_link sh ?rt = Some rt3" "rt_inv rt3 (hashed_shapes rt3) ((\<lambda>_. 0)(sh := 1)) X" "table_step ?rt rt3"
      using relink_inv [OF inv2'(1) d] by auto
    obtain n m where n: "rt_shapes rt3 sh = Some (?d\<lparr>ss_shape_hash_next := n\<rparr>)" "rt_shapes rt3 a = Some (s\<lparr>ss_shape_hash_next := m\<rparr>)"
      using table_step_shape [OF rt3(3) d] table_step_shape [OF rt3(3), of a s] ash r1(2) by auto
    have ob3: "rt_objects rt3 p = Some ob" using rt3(3) r1(1) by (simp add: table_step_def)
    have "\<exists>rt2. (do { rt \<leftarrow> hash_clone sh rt1; replace_shape p sh rt }) = Some rt2 \<and> owns_copy rt p ob s True X rt2"
    proof -
      have get: "get_sh rt3 a = Some (s\<lparr>ss_shape_hash_next := m\<rparr>)" "get_sh rt1 sh = Some ?c" "get_ob rt3 p = Some ob"
        using rt_inv_get_sh [OF rt3(2)] rt_inv_get_sh [OF inv1] rt_inv_get_ob [OF rt3(2)] ob3 r1 n by simp_all
      have link: "js_shape_hash_link sh (set_sh sh (Some (s\<lparr>ss_ref_count := 1, ss_is_hashed := True\<rparr>)) rt1) = Some rt3"
        using rt3(1) by simp
      have ref': "1 < ss_ref_count (s\<lparr>ss_shape_hash_next := m\<rparr>)" using ref by simp
      have v: "view rt3 = view rt" using table_step_view [OF rt3(3)] inv2'(2) c(3) by simp
      from switch_to_copy [OF rt3(2) ob3 ob(2) ash n(2,1)] show ?thesis
        using v by (auto simp: hash_clone_def get(2) link replace_shared_shape [OF get(3) ob(2) get(1) ref'] owns_copy_def intro!: exI [of _ sh])
    qed
    with False c(1) plain show ?thesis by blast
  qed
qed

section \<open>All cases of add_property\<close>

lemma property_added_cong: "view rt1 = view rt \<Longrightarrow> property_added mem rt1 p atom flags X res = property_added mem rt p atom flags X res"
  by (simp add: property_added_def added_def split: prod.split option.split)

text \<open>The last part of \<open>add_property\<close>: the shape of p is its own.\<close>

lemma add_property_own:
  assumes inv: "rt_inv rt (hashed_shapes rt) (\<lambda>_. 0) X" and mem: "mem_ok mem" and ob: "rt_objects rt p = Some ob"
    and s: "rt_shapes rt (so_shape ob) = Some s" "ss_ref_count s = 1" and room: "ss_prop_count s + 1 < 2 ^ 26" and flags: "flags < 64"
    and atom: "atom \<noteq> JS_ATOM_NULL" "atom \<notin> set (map entry_atom (props_view s (so_prop ob)))"
  shows "\<exists>res. add_own_property mem p atom flags rt = Some res \<and> property_added mem rt p atom flags X res"
proof -
  have get: "get_ob rt p = Some ob" "get_sh rt (so_shape ob) = Some s"
    using ob s rt_inv_get_sh [OF inv] rt_inv_get_ob [OF inv] by simp_all
  obtain r sh rt' where res: "add_shape_property mem (so_shape ob) p atom flags rt = Some (r, sh, rt')"
    "r = -1 \<and> oom mem \<and> rt_inv rt' (hashed_shapes rt') (\<lambda>_. 0) X \<and> view rt' = view rt \<or>
     r = 0 \<and> rt_inv rt' (hashed_shapes rt') (\<lambda>_. 0) (insert p X) \<and> added rt p atom flags (ss_prop_count s) rt'"
    using add_shape_property_inv [OF inv mem ob refl s room flags atom] by blast
  show ?thesis
  proof (cases "r = 0")
    case True
    then have r: "rt_inv rt' (hashed_shapes rt') (\<lambda>_. 0) (insert p X)" "added rt p atom flags (ss_prop_count s) rt'" using res(2) by simp_all
    obtain ob' s' where "rt_objects rt' p = Some ob'" "rt_shapes rt' (so_shape ob') = Some s'" "ss_prop_count s' = Suc (ss_prop_count s)"
      using r(2) by (auto simp: added_def)
    then have "get_ob rt' p = Some ob'" "get_sh rt' (so_shape ob') = Some s'" "ss_prop_count s' = Suc (ss_prop_count s)"
      using rt_inv_get_sh [OF r(1)] rt_inv_get_ob [OF r(1)] by simp_all
    with True get s(2) res(1) r show ?thesis by (simp add: add_own_property_def property_added_def)
  next
    case False
    with get s(2) res show ?thesis by (simp add: add_own_property_def property_added_def)
  qed
qed

lemma add_property_inv:
  assumes inv: "rt_inv rt (hashed_shapes rt) (\<lambda>_. 0) X" and mem: "mem_ok mem" and ob: "rt_objects rt p = Some ob"
    and s: "rt_shapes rt (so_shape ob) = Some s" and room: "ss_prop_count s + 1 < 2 ^ 26" and flags: "flags < 64"
    and atom: "atom \<noteq> JS_ATOM_NULL" "atom \<notin> set (map entry_atom (props_view s (so_prop ob)))"
  shows "\<exists>res. add_property mem p atom flags rt = Some res \<and> property_added mem rt p atom flags X res"
proof -
  have get: "get_ob rt p = Some ob" "get_sh rt (so_shape ob) = Some s"
    using ob s rt_inv_get_sh [OF inv] rt_inv_get_ob [OF inv] by simp_all
  obtain b where b: "find_hashed_shape_prop (so_shape ob) atom flags rt = Some b"
    "b \<noteq> 0 \<longrightarrow> (\<exists>s1. rt_shapes rt b = Some s1 \<and> ss_is_hashed s1 \<and> extended_by s atom flags s1)"
    using find_hashed_shape_prop_inv [OF inv s] by blast
  show ?thesis
  proof (cases "ss_is_hashed s \<and> b \<noteq> 0")
    case True
    then show ?thesis using add_property_found [OF inv mem ob refl s _ b(1)] b(2) by blast
  next
    case nofound: False
    show ?thesis
    proof (cases "ss_is_hashed s \<and> ss_ref_count s \<noteq> 1")
      case False
      then have "ss_ref_count s = 1" using rt_inv_holders [OF inv s] by blast
      with add_property_own [OF inv mem ob s this room flags atom] nofound False get b(1)
      show ?thesis by (cases "ss_is_hashed s") (simp_all add: add_property_def)
    next
      case True
      obtain sh rt1 where c: "js_clone_shape mem (so_shape ob) rt = Some (sh, rt1)"
        "sh = 0 \<and> oom mem \<and> rt_inv rt1 (hashed_shapes rt1) (\<lambda>_. 0) X \<and> view rt1 = view rt \<or>
         sh \<noteq> 0 \<and> (\<exists>rt2. (do { rt \<leftarrow> hash_clone sh rt1; replace_shape p sh rt }) = Some rt2 \<and> owns_copy rt p ob s True X rt2)"
        using copy_shape_inv [OF inv mem ob refl s] True by blast
      show ?thesis
      proof (cases "sh = 0")
        case sh0: True
        with True nofound c get b(1) show ?thesis by (simp add: add_property_def property_added_def)
      next
        case False
        then obtain rt2 where rt2: "(do { rt \<leftarrow> hash_clone sh rt1; replace_shape p sh rt }) = Some rt2" "owns_copy rt p ob s True X rt2" using c(2) by blast
        obtain sh' s' where o: "rt_inv rt2 (hashed_shapes rt2) (\<lambda>_. 0) X" "view rt2 = view rt"
          "rt_objects rt2 p = Some (ob\<lparr>so_shape := sh'\<rparr>)" "rt_shapes rt2 sh' = Some s'" "core s' = core s" "ss_ref_count s' = 1"
          using rt2(2) by (auto simp: owns_copy_def)
        note cc = core_eq [OF o(5)]
        have sh': "rt_shapes rt2 (so_shape (ob\<lparr>so_shape := sh'\<rparr>)) = Some s'" using o(4) by simp
        have room': "ss_prop_count s' + 1 < 2 ^ 26" "atom \<notin> set (map entry_atom (props_view s' (so_prop (ob\<lparr>so_shape := sh'\<rparr>))))"
          using cc room atom(2) by simp_all
        from add_property_own [OF o(1) mem o(3) sh' o(6) room'(1) flags atom(1) room'(2)]
        obtain res where res: "add_own_property mem p atom flags rt2 = Some res" "property_added mem rt p atom flags X res"
          unfolding property_added_cong [OF o(2)] by blast
        have "add_property mem p atom flags rt = Some res"
          using False True nofound b(1) get c(1) rt2(1) res(1)
          by (cases "hash_clone sh rt1") (simp_all add: add_property_def)
        with res(2) show ?thesis by blast
      qed
    qed
  qed
qed

end
