(* ===== verification/Shape_Update.thy ===== *)
theory Shape_Update
  imports Shape_Define
begin

text \<open>Looking a property up, defining one, and changing the flags of one: the effect on the list of properties of the object.\<close>

section \<open>Lookup\<close>

lemma rt_inv_find_slot:
  assumes inv: "rt_inv rt S E X" and s: "rt_shapes rt a = Some s"
  shows "rd (ss_prop_hash s) (atom_slot (ss_prop_hash_mask s) atom) = Some (ss_prop_hash s ! atom_slot (ss_prop_hash_mask s) atom) \<and>
    chain (ss_prop s) (ss_prop_hash s ! atom_slot (ss_prop_hash_mask s) atom)
      (bucket (ss_prop_hash_mask s) (ss_prop s) (ss_prop_count s) (atom_slot (ss_prop_hash_mask s) atom))"
  using rt_inv_shape [OF inv s] hash_ok_slot [of "ss_prop_hash_mask s" "ss_prop_hash s" "ss_prop s" "ss_prop_count s" atom]
  by (simp add: shape_ok_def)

lemma bucket_has_atom:
  assumes "atom \<noteq> JS_ATOM_NULL"
  shows "i \<in> set (bucket msk props n (atom_slot msk atom)) \<and> has_atom props atom i \<longleftrightarrow>
    i \<in> set (lives props n) \<and> atom_at props i = atom"
  using assms by (auto simp: set_bucket lives_def live_def has_atom_def atom_at_def in_slot_def)

lemma map_eq_unique: "distinct (map f xs) \<Longrightarrow> x \<in> set xs \<Longrightarrow> y \<in> set xs \<Longrightarrow> f x = f y \<Longrightarrow> x = y"
  by (auto simp: distinct_map inj_on_def)

lemma find_unique:
  assumes "distinct (map f xs)" "x \<in> set xs" "f x = k"
  shows "List.find (\<lambda>x. f x = k) xs = Some x"
  using assms
proof (induction xs)
  case (Cons y xs)
  then show ?case by (cases "f y = k") auto
qed simp

lemma find_map: "List.find P (map f xs) = map_option f (List.find (P \<circ> f) xs)"
  by (induction xs) auto

lemma find_own_property_run:
  assumes inv: "rt_inv rt S E X" and ob: "rt_objects rt p = Some ob" "rt_shapes rt (so_shape ob) = Some s" and atom: "atom \<noteq> JS_ATOM_NULL"
  shows "find_own_property p atom rt =
    Some (List.find (\<lambda>i. atom_at (ss_prop s) i = atom) (lives (ss_prop s) (ss_prop_count s)))"
proof -
  let ?l = "lives (ss_prop s) (ss_prop_count s)"
  let ?b = "bucket (ss_prop_hash_mask s) (ss_prop s) (ss_prop_count s) (atom_slot (ss_prop_hash_mask s) atom)"
  have get: "get_ob rt p = Some ob" "get_sh rt (so_shape ob) = Some s"
    using ob rt_inv_get_sh [OF inv] rt_inv_get_ob [OF inv] by simp_all
  note slot = rt_inv_find_slot [OF inv ob(2), of atom]
  have run: "find_own_property p atom rt = Some (List.find (has_atom (ss_prop s) atom) ?b)"
    using get slot find_own_loop_chain by (simp add: find_own_property_def)
  have dist: "distinct (map (atom_at (ss_prop s)) ?l)" using rt_inv_shape [OF inv ob(2)] by (simp add: shape_ok_def)
  show ?thesis
  proof (cases "List.find (has_atom (ss_prop s) atom) ?b")
    case None
    then have "\<forall>i\<in>set ?l. atom_at (ss_prop s) i \<noteq> atom"
      using bucket_has_atom [OF atom] by (fastforce simp: find_None_iff)
    then have "List.find (\<lambda>i. atom_at (ss_prop s) i = atom) ?l = None" by (auto simp: find_None_iff)
    with run None show ?thesis by simp
  next
    case (Some i)
    then have "i \<in> set ?b \<and> has_atom (ss_prop s) atom i" by (auto simp: find_Some_iff)
    then have "i \<in> set ?l" "atom_at (ss_prop s) i = atom" using bucket_has_atom [OF atom] by blast+
    with find_unique [OF dist this] run Some show ?thesis by simp
  qed
qed

lemma find_own_property_view:
  assumes inv: "rt_inv rt S E X" and ob: "rt_objects rt p = Some ob" "rt_shapes rt (so_shape ob) = Some s" and atom: "atom \<noteq> JS_ATOM_NULL"
  shows "\<exists>r. find_own_property p atom rt = Some r \<and>
    List.find (\<lambda>e. entry_atom e = atom) (props_view s (so_prop ob)) = map_option (entry_at (ss_prop s) (so_prop ob)) r"
  using find_own_property_run [OF assms] by (simp add: props_view_def find_map comp_def entry_atom_at)

section \<open>Defining a property\<close>

lemma set_property_value_added:
  assumes inv: "rt_inv rt1 S E (insert p X)" and new: "added rt p atom flags i rt1" "atom \<noteq> JS_ATOM_NULL"
    and es: "view rt p = Some es" "\<forall>e\<in>set es. entry_ok e" and v: "kind_ok flags v"
  shows "\<exists>rt'. set_property_value p i v rt1 = Some rt' \<and> rt_inv rt' S E (X - {p}) \<and> hashed_shapes rt' = hashed_shapes rt1 \<and>
    view rt' = (view rt)(p := Some (es @ [((atom, flags), Some v)]))"
proof -
  obtain ob s where a: "rt_objects rt1 p = Some ob" "rt_shapes rt1 (so_shape ob) = Some s" "ss_prop_count s = Suc i"
    "map_option prop_key (ss_prop s ! i) = Some (atom, flags)"
    "es = map (entry_at (ss_prop s) (so_prop ob)) (lives (ss_prop s) i)" "\<forall>q. q \<noteq> p \<longrightarrow> view rt1 q = view rt q"
    using new(1) es(1) by (auto simp: added_def)
  obtain pr where pr: "ss_prop s ! i = Some pr" "prop_key pr = (atom, flags)" using a(4) by auto
  then have live: "live (ss_prop s) i" using new(2) by (auto simp: live_def prop_key_def)
  have len: "i < length (so_prop ob)"
    using rt_inv_holder [OF inv a(1,2)] rt_inv_shape [OF inv a(2)] a(3) by (auto simp: shape_ok_def)
  let ?ob = "ob\<lparr>so_prop := (so_prop ob)[i := Some v]\<rparr>"
  have "map (entry_at (ss_prop s) ((so_prop ob)[i := Some v])) (lives (ss_prop s) i) = es"
    unfolding a(5) by (rule map_cong) (auto simp: entry_at_def dest: lives_less)
  then have view: "props_view s (so_prop ?ob) = es @ [((atom, flags), Some v)]"
    using live len pr a(3) by (simp add: props_view_def entry_at_def)
  have "rt_inv (set_ob p ?ob rt1) S E (X - {p})"
    by (rule rt_inv_set_vals [OF inv a(1,2)])
      (use view es(2) v rt_inv_holder [OF inv a(1,2)] in \<open>auto simp: entry_ok_def\<close>)
  moreover have "view (set_ob p ?ob rt1) = (view rt)(p := Some (es @ [((atom, flags), Some v)]))"
    using view a(2,6) by (auto simp: view_def fun_eq_iff)
  moreover have "set_property_value p i v rt1 = Some (set_ob p ?ob rt1)"
    using rt_inv_get_ob [OF inv] a(1) len by (simp add: set_property_value_def wr_def)
  ultimately show ?thesis by simp
qed

text \<open>The number of places an object has used for its properties, the deleted ones included.\<close>

definition prop_slots :: "shape_rt \<Rightarrow> nat \<Rightarrow> nat" where
  "prop_slots rt p = (case rt_objects rt p of None \<Rightarrow> 0 | Some ob \<Rightarrow>
     (case rt_shapes rt (so_shape ob) of None \<Rightarrow> 0 | Some s \<Rightarrow> ss_prop_count s))"

lemma rt_ok_object:
  assumes "rt_ok rt" "view rt p = Some es"
  obtains ob s where "rt_inv rt (hashed_shapes rt) (\<lambda>_. 0) {}" "rt_objects rt p = Some ob" "rt_shapes rt (so_shape ob) = Some s"
    "es = props_view s (so_prop ob)" "\<forall>e\<in>set es. entry_ok e" "get_ob rt p = Some ob" "get_sh rt (so_shape ob) = Some s"
    "prop_slots rt p = ss_prop_count s"
proof -
  have inv: "rt_inv rt (hashed_shapes rt) (\<lambda>_. 0) {}" using assms(1) by (simp add: rt_ok_def)
  obtain ob s where os: "rt_objects rt p = Some ob" "rt_shapes rt (so_shape ob) = Some s" "es = props_view s (so_prop ob)"
    using assms(2) by (auto simp: view_def bind_eq_Some_conv)
  have "\<forall>e\<in>set es. entry_ok e" using rt_inv_holder [OF inv os(1,2)] os(3) by simp
  with that [OF inv os] show thesis using rt_inv_get_sh [OF inv] rt_inv_get_ob [OF inv] os by (simp add: prop_slots_def)
qed

lemma JS_DefinePrivateField_spec:
  assumes ok: "rt_ok rt" "mem_ok mem" and es: "view rt p = Some es" and atom: "atom \<noteq> JS_ATOM_NULL" and room: "prop_slots rt p + 1 < 2 ^ 26"
  shows "\<exists>r rt'. JS_DefinePrivateField mem p atom val rt = Some (r, rt') \<and> rt_ok rt' \<and>
    (if atom \<notin> set (map entry_atom es) \<and> r = 0
     then view rt' = (view rt)(p := Some (es @ [((atom, JS_PROP_C_W_E), Some (Prop_value val))]))
     else r = -1 \<and> view rt' = view rt \<and> (atom \<in> set (map entry_atom es) \<or> oom mem))"
proof -
  obtain ob s where o: "rt_inv rt (hashed_shapes rt) (\<lambda>_. 0) {}" "rt_objects rt p = Some ob" "rt_shapes rt (so_shape ob) = Some s"
    "es = props_view s (so_prop ob)" "\<forall>e\<in>set es. entry_ok e" "prop_slots rt p = ss_prop_count s"
    using rt_ok_object [OF ok(1) es] by metis
  obtain r where r: "find_own_property p atom rt = Some r" "List.find (\<lambda>e. entry_atom e = atom) es = map_option (entry_at (ss_prop s) (so_prop ob)) r"
    using find_own_property_view [OF o(1,2,3) atom] o(4) by blast
  show ?thesis
  proof (cases r)
    case (Some i)
    then have "atom \<in> set (map entry_atom es)" using r(2) by (auto simp: find_Some_iff intro!: imageI)
    with Some r(1) ok(1) show ?thesis by (simp add: JS_DefinePrivateField_def rt_ok_def)
  next
    case None
    then have fresh: "atom \<notin> set (map entry_atom es)" using r(2) by (auto simp: find_None_iff)
    have flags: "JS_PROP_C_W_E < 64" "kind_ok JS_PROP_C_W_E (Prop_value val)"
      by (simp_all add: JS_PROP_C_W_E_def kind_ok_def JS_PROP_TMASK_def)
    obtain pr rt1 where a: "add_property mem p atom JS_PROP_C_W_E rt = Some (pr, rt1)" "property_added mem rt p atom JS_PROP_C_W_E {} (pr, rt1)"
      using add_property_inv [OF o(1) ok(2) o(2,3) _ flags(1) atom] fresh room o(4,6) by fastforce
    show ?thesis
    proof (cases pr)
      case None
      with a r(1) \<open>r = None\<close> show ?thesis by (simp add: JS_DefinePrivateField_def property_added_def rt_ok_def)
    next
      case (Some i)
      have "rt_inv rt1 (hashed_shapes rt1) (\<lambda>_. 0) (insert p {})" "added rt p atom JS_PROP_C_W_E i rt1"
        using a(2) Some by (simp_all add: property_added_def)
      from set_property_value_added [OF this atom es o(5) flags(2)] Some a(1) r(1) \<open>r = None\<close> fresh
      show ?thesis by (auto simp: JS_DefinePrivateField_def rt_ok_def)
    qed
  qed
qed

section \<open>Changing a shape that belongs to one object\<close>

lemma js_shape_prepare_update_inv:
  assumes inv: "rt_inv rt (hashed_shapes rt) (\<lambda>_. 0) X" and mem: "mem_ok mem" and ob: "rt_objects rt p = Some ob"
    and s: "rt_shapes rt (so_shape ob) = Some s"
  shows "\<exists>r rt'. js_shape_prepare_update mem p rt = Some (r, rt') \<and>
    (r = -1 \<and> oom mem \<and> rt_inv rt' (hashed_shapes rt') (\<lambda>_. 0) X \<and> view rt' = view rt \<or> r = 0 \<and> owns_copy rt p ob s False X rt')"
proof -
  have get: "get_ob rt p = Some ob" "get_sh rt (so_shape ob) = Some s"
    using ob s rt_inv_get_sh [OF inv] rt_inv_get_ob [OF inv] by simp_all
  have same: "ob\<lparr>so_shape := so_shape ob\<rparr> = ob" by simp
  consider "ss_is_hashed s" "ss_ref_count s \<noteq> 1" | "ss_is_hashed s" "ss_ref_count s = 1" | "\<not> ss_is_hashed s" by blast
  then show ?thesis
  proof cases
    case 1
    obtain sh rt1 where c: "js_clone_shape mem (so_shape ob) rt = Some (sh, rt1)"
      "sh = 0 \<and> oom mem \<and> rt_inv rt1 (hashed_shapes rt1) (\<lambda>_. 0) X \<and> view rt1 = view rt \<or>
       sh \<noteq> 0 \<and> (\<exists>rt2. replace_shape p sh rt1 = Some rt2 \<and> owns_copy rt p ob s False X rt2)"
      using copy_shape_inv [OF inv mem ob refl s 1(2)] by blast
    with 1 get show ?thesis by (auto simp: js_shape_prepare_update_def)
  next
    case 2
    let ?a = "so_shape ob"
    obtain rt1 where u: "js_shape_hash_unlink ?a rt = Some rt1" "rt_inv rt1 (hashed_shapes rt1 - {?a}) (\<lambda>_. 0) X" "table_step rt rt1"
      using unhash_inv [OF inv s] 2 by auto
    obtain n where s1: "rt_shapes rt1 ?a = Some (s\<lparr>ss_shape_hash_next := n\<rparr>)" using table_step_shape [OF u(3) s] by blast
    let ?s = "s\<lparr>ss_shape_hash_next := n, ss_is_hashed := False\<rparr>"
    let ?rt = "set_sh ?a (Some ?s) rt1"
    have obs: "ss_prop_size ?s \<le> length (so_prop ob1) \<and> (q \<notin> X \<longrightarrow> (\<forall>e\<in>set (props_view ?s (so_prop ob1)). entry_ok e))"
      if "rt_objects rt1 q = Some ob1" "so_shape ob1 = ?a" for q ob1
      using rt_inv_holder [OF u(2) that(1), of "s\<lparr>ss_shape_hash_next := n\<rparr>"] s1 that(2) by simp
    have "rt_inv ?rt (hashed_shapes rt1 - {?a}) ((\<lambda>_. 0)(?a := 0)) X"
      by (rule rt_inv_set_sh [OF u(2) s1 _ _ _ _ obs]) (use 2 rt_inv_shape [OF inv s] rt_inv_holders [OF u(2) s1] in simp_all)
    moreover have "hashed_shapes ?rt = hashed_shapes rt1 - {?a}" by (auto simp: hashed_shapes_def)
    moreover have "view ?rt q = view rt1 q" for q by (rule view_cong) (use s1 in auto)
    moreover have "rt_objects ?rt p = Some (ob\<lparr>so_shape := ?a\<rparr>)" using u(3) ob by (simp add: table_step_def)
    moreover have "rt_shapes ?rt ?a = Some ?s \<and> core ?s = core s \<and> ss_ref_count ?s = 1 \<and> ss_is_hashed ?s = False" using 2 by simp
    ultimately have "owns_copy rt p ob s False X ?rt"
      using table_step_view [OF u(3)] unfolding owns_copy_def by (metis (no_types, lifting) E_idem ext)
    moreover have "get_sh rt1 ?a = Some (s\<lparr>ss_shape_hash_next := n\<rparr>)" using rt_inv_get_sh [OF u(2)] s1 by simp
    ultimately show ?thesis using 2 get u(1) by (simp add: js_shape_prepare_update_def)
  next
    case 3
    have "ss_ref_count s = 1" using 3 rt_inv_holders [OF inv s] by blast
    then have "owns_copy rt p ob s False X rt" using 3 inv ob s same unfolding owns_copy_def by metis
    with 3 get show ?thesis by (simp add: js_shape_prepare_update_def)
  qed
qed

lemma edit_own_shape:
  assumes inv: "rt_inv rt (hashed_shapes rt) (\<lambda>_. 0) X" and ob: "rt_objects rt p = Some ob" and s: "rt_shapes rt (so_shape ob) = Some s"
    and own: "ss_ref_count s = 1" "\<not> ss_is_hashed s"
    and s': "shape_ok s'" "ss_prop_size s' = ss_prop_size s" "ss_ref_count s' = 1" "\<not> ss_is_hashed s'"
    and vals: "length vals = length (so_prop ob)" "\<forall>e\<in>set (props_view s' vals). entry_ok e"
    and rt': "rt_shapes rt' = (rt_shapes rt)(so_shape ob := Some s')" "rt_objects rt' = (rt_objects rt)(p := Some (ob\<lparr>so_prop := vals\<rparr>))"
      "rt_gc_objs rt' = rt_gc_objs rt" "shape_hash_bits rt' = shape_hash_bits rt" "rt_shape_hash rt' = rt_shape_hash rt"
      "shape_hash_size rt' = shape_hash_size rt"
  shows "rt_inv rt' (hashed_shapes rt') (\<lambda>_. 0) X \<and> view rt' = (view rt)(p := Some (props_view s' vals))"
proof -
  let ?a = "so_shape ob"
  let ?rt = "set_ob p (ob\<lparr>so_prop := vals\<rparr>) (set_sh ?a (Some s') rt)"
  have sole: "holders rt ?a = {p}" using sole_holder [OF inv s own(1) ob] by simp
  have only: "q = p" if "rt_objects rt q = Some ob1" "so_shape ob1 = ?a" for q ob1
    using holder_in [OF that(1)] that(2) sole by simp
  have unhashed: "?a \<notin> hashed_shapes rt" "hashed_shapes rt' = hashed_shapes rt"
    using s own(2) s'(4) by (auto simp: hashed_shapes_def rt')
  have size: "ss_prop_size s' \<le> length (so_prop ob)" using rt_inv_holder [OF inv ob s] s'(2) by simp
  have obs: "ss_prop_size s' \<le> length (so_prop ob1) \<and> (q \<notin> insert p X \<longrightarrow> (\<forall>e\<in>set (props_view s' (so_prop ob1)). entry_ok e))"
    if "rt_objects rt q = Some ob1" "so_shape ob1 = ?a" for q ob1
    using only [OF that] that(1) ob size by simp
  have "rt_inv (set_sh ?a (Some s') rt) (hashed_shapes rt) ((\<lambda>_. 0)(?a := 0)) (insert p X)"
    by (rule rt_inv_set_sh [OF inv s s'(1) _ _ _ obs]) (use s' sole unhashed in auto)
  then have inv1: "rt_inv (set_sh ?a (Some s') rt) (hashed_shapes rt) (\<lambda>_. 0) (insert p X)" by simp
  have "rt_inv ?rt (hashed_shapes rt) (\<lambda>_. 0) X"
    by (rule rt_inv_set_vals [OF inv1, of p ob s']) (use ob vals size in auto)
  then have "rt_inv rt' (hashed_shapes rt) (\<lambda>_. 0) X \<and> view rt' = view ?rt"
    by (rule rt_inv_cong) (simp_all add: rt')
  moreover have "view ?rt q = view rt q" if "q \<noteq> p" for q
    by (rule view_cong) (use that only in auto)
  moreover have "view ?rt p = Some (props_view s' vals)" by (simp add: view_def)
  ultimately show ?thesis using unhashed(2) by (auto simp: fun_eq_iff)
qed

end
