(* ===== verification/Shape_Delete.thy ===== *)
theory Shape_Delete
  imports Shape_Update
begin

text \<open>Changing the flags of a property and deleting one.\<close>

section \<open>Flags\<close>

definition flag_prop :: "nat \<Rightarrow> u8 \<Rightarrow> shape \<Rightarrow> shape" where
  "flag_prop i flags s = s\<lparr>ss_prop := (ss_prop s)[i := map_option (\<lambda>pr. pr\<lparr>pr_flags := flags\<rparr>) (ss_prop s ! i)]\<rparr>"

definition change_flags :: "u32 \<Rightarrow> u8 \<Rightarrow> prop_entry \<Rightarrow> prop_entry" where
  "change_flags atom flags e = (if entry_atom e = atom then ((atom, flags), snd e) else e)"

text \<open>What the hash table inside a shape depends on.\<close>

definition prop_link :: "shape_prop \<Rightarrow> nat \<times> u32" where
  "prop_link pr = (pr_hash_next pr, pr_atom pr)"

lemma hash_ok_links:
  assumes "\<forall>j. map_option prop_link (props' ! j) = map_option prop_link (props ! j)" "length props' = length props" "hash_ok msk tab props n"
  shows "hash_ok msk tab props' n"
proof -
  have some: "(\<exists>pr'. props' ! j = Some pr' \<and> P (pr_hash_next pr') (pr_atom pr')) \<longleftrightarrow> (\<exists>pr. props ! j = Some pr \<and> P (pr_hash_next pr) (pr_atom pr))"
    for j P using assms(1) [rule_format, of j] by (cases "props ! j"; cases "props' ! j") (auto simp: prop_link_def)
  have "chain props' x is \<longleftrightarrow> chain props x is" for x "is"
    by (induction "is" arbitrary: x) (simp_all add: assms(2) some [of _ "\<lambda>n a. chain props n _"])
  moreover have "bucket msk props' n h = bucket msk props n h" for h
    unfolding bucket_def in_slot_def some [of _ "\<lambda>n a. a \<noteq> JS_ATOM_NULL \<and> atom_slot msk a = h"] ..
  ultimately show ?thesis using assms(3) by (simp add: hash_ok_def)
qed

lemma flag_prop_cells:
  "map_option prop_link (ss_prop (flag_prop i flags s) ! j) = map_option prop_link (ss_prop s ! j)"
  "live (ss_prop (flag_prop i flags s)) j = live (ss_prop s) j" "atom_at (ss_prop (flag_prop i flags s)) j = atom_at (ss_prop s) j"
  "lives (ss_prop (flag_prop i flags s)) n = lives (ss_prop s) n"
  "ss_prop (flag_prop i flags s) ! j = None \<longleftrightarrow> ss_prop s ! j = None"
proof -
  have cell: "map_option prop_link (ss_prop (flag_prop i flags s) ! j) = map_option prop_link (ss_prop s ! j)" for j
    by (cases "i < length (ss_prop s)"; cases "j = i"; cases "ss_prop s ! i") (auto simp: flag_prop_def prop_link_def list_update_beyond)
  have at: "live (ss_prop (flag_prop i flags s)) j = live (ss_prop s) j \<and> atom_at (ss_prop (flag_prop i flags s)) j = atom_at (ss_prop s) j \<and>
      (ss_prop (flag_prop i flags s) ! j = None \<longleftrightarrow> ss_prop s ! j = None)" for j
    using cell [of j] by (cases "ss_prop (flag_prop i flags s) ! j"; cases "ss_prop s ! j") (auto simp: live_def atom_at_def prop_link_def)
  show "map_option prop_link (ss_prop (flag_prop i flags s) ! j) = map_option prop_link (ss_prop s ! j)" by (rule cell)
  show "live (ss_prop (flag_prop i flags s)) j = live (ss_prop s) j" "atom_at (ss_prop (flag_prop i flags s)) j = atom_at (ss_prop s) j"
    "ss_prop (flag_prop i flags s) ! j = None \<longleftrightarrow> ss_prop s ! j = None" using at by blast+
  show "lives (ss_prop (flag_prop i flags s)) n = lives (ss_prop s) n" unfolding lives_def by (rule filter_cong) (simp_all add: at)
qed

lemma flag_prop_simps [simp]:
  "ss_prop_count (flag_prop i flags s) = ss_prop_count s" "ss_prop_size (flag_prop i flags s) = ss_prop_size s"
  "ss_is_hashed (flag_prop i flags s) = ss_is_hashed s" "ss_ref_count (flag_prop i flags s) = ss_ref_count s"
  "ss_deleted_prop_count (flag_prop i flags s) = ss_deleted_prop_count s" "length (ss_prop (flag_prop i flags s)) = length (ss_prop s)"
  "ss_prop_hash (flag_prop i flags s) = ss_prop_hash s" "ss_prop_hash_mask (flag_prop i flags s) = ss_prop_hash_mask s"
  "ss_has_small_array_index (flag_prop i flags s) = ss_has_small_array_index s"
  by (simp_all add: flag_prop_def)

lemma flag_prop_atoms: "atom_at (ss_prop (flag_prop i flags s)) = atom_at (ss_prop s)"
  by (rule ext) (rule flag_prop_cells(3))

lemma shape_ok_flag_prop: "shape_ok s \<Longrightarrow> shape_ok (flag_prop i flags s)"
  using hash_ok_links [of "ss_prop (flag_prop i flags s)" "ss_prop s" "ss_prop_hash_mask s" "ss_prop_hash s" "ss_prop_count s"]
  by (simp add: shape_ok_def flag_prop_cells flag_prop_atoms del: not_None_eq)

lemma atom_at_inj:
  "shape_ok s \<Longrightarrow> i \<in> set (lives (ss_prop s) (ss_prop_count s)) \<Longrightarrow> j \<in> set (lives (ss_prop s) (ss_prop_count s)) \<Longrightarrow>
     atom_at (ss_prop s) i = atom_at (ss_prop s) j \<longleftrightarrow> i = j"
  by (auto simp: shape_ok_def dest: map_eq_unique)

lemma flag_prop_view:
  assumes ok: "shape_ok s" and i: "i \<in> set (lives (ss_prop s) (ss_prop_count s))" "atom_at (ss_prop s) i = atom"
  shows "props_view (flag_prop i flags s) vals = map (change_flags atom flags) (props_view s vals)"
proof -
  have "entry_at (ss_prop (flag_prop i flags s)) vals j = change_flags atom flags (entry_at (ss_prop s) vals j)"
    if j: "j \<in> set (lives (ss_prop s) (ss_prop_count s))" for j
  proof (cases "j = i")
    case True
    obtain pr where pr: "ss_prop s ! i = Some pr" using i(1) by (auto simp: lives_def live_def)
    have "i < length (ss_prop s)" using ok lives_less [OF i(1)] by (simp add: shape_ok_def)
    with True pr i(2) show ?thesis by (simp add: flag_prop_def change_flags_def entry_atom_at) (auto simp: entry_at_def prop_key_def atom_at_def)
  next
    case False
    then have "entry_atom (entry_at (ss_prop s) vals j) \<noteq> atom" using atom_at_inj [OF ok j i(1)] i(2) by (simp add: entry_atom_at)
    with False show ?thesis by (simp add: change_flags_def flag_prop_def entry_at_def)
  qed
  then show ?thesis by (simp add: props_view_def flag_prop_cells)
qed

lemma kind_ok_flags: "f AND JS_PROP_TMASK = g AND JS_PROP_TMASK \<Longrightarrow> kind_ok f v = kind_ok g v"
  by (simp add: kind_ok_def split: js_property.split)

lemma entry_in_view: "i \<in> set (lives (ss_prop s) (ss_prop_count s)) \<Longrightarrow> entry_at (ss_prop s) vals i \<in> set (props_view s vals)"
  by (simp add: props_view_def)

lemma js_update_property_flags_spec:
  assumes ok: "rt_ok rt" "mem_ok mem" and es: "view rt p = Some es" and atom: "atom \<noteq> JS_ATOM_NULL"
    and i: "find_own_property p atom rt = Some (Some i)" and flags: "flags < 64"
    and kind: "\<forall>e\<in>set es. entry_atom e = atom \<longrightarrow> snd (fst e) AND JS_PROP_TMASK = flags AND JS_PROP_TMASK"
  shows "\<exists>r rt'. js_update_property_flags mem p i flags rt = Some (r, rt') \<and> rt_ok rt' \<and>
    (if r = 0 then view rt' = (view rt)(p := Some (map (change_flags atom flags) es)) else r = -1 \<and> oom mem \<and> view rt' = view rt)"
proof -
  obtain ob s where o: "rt_inv rt (hashed_shapes rt) (\<lambda>_. 0) {}" "rt_objects rt p = Some ob" "rt_shapes rt (so_shape ob) = Some s"
    "es = props_view s (so_prop ob)" "\<forall>e\<in>set es. entry_ok e" "get_ob rt p = Some ob" "get_sh rt (so_shape ob) = Some s"
    using rt_ok_object [OF ok(1) es] by metis
  have sok: "shape_ok s" using rt_inv_shape [OF o(1,3)] by blast
  have il: "i \<in> set (lives (ss_prop s) (ss_prop_count s))" "atom_at (ss_prop s) i = atom"
  proof -
    have "List.find (\<lambda>i. atom_at (ss_prop s) i = atom) (lives (ss_prop s) (ss_prop_count s)) = Some i"
      using find_own_property_run [OF o(1,2,3) atom] i by simp
    then show "i \<in> set (lives (ss_prop s) (ss_prop_count s))" "atom_at (ss_prop s) i = atom" by (auto simp: find_Some_iff)
  qed
  obtain pr where pr: "ss_prop s ! i = Some pr" "pr_atom pr = atom" using il by (auto simp: lives_def live_def atom_at_def)
  have len: "i < length (ss_prop s)" using sok lives_less [OF il(1)] by (simp add: shape_ok_def)
  have at: "shape_prop_at (so_shape ob) i rt = Some pr" using o(7) pr len by (simp add: shape_prop_at_def)
  have changed: "\<forall>e\<in>set (map (change_flags atom flags) es). entry_ok e"
  proof
    fix e
    assume "e \<in> set (map (change_flags atom flags) es)"
    then obtain e0 where e0: "e0 \<in> set es" "e = change_flags atom flags e0" by auto
    obtain v where v: "snd e0 = Some v" "kind_ok (snd (fst e0)) v" using o(5) e0(1) by (auto simp: entry_ok_def)
    have "entry_atom e0 = atom \<Longrightarrow> kind_ok flags v" using kind_ok_flags kind e0(1) v(2) by blast
    with v e0(2) show "entry_ok e" by (simp add: change_flags_def entry_ok_def)
  qed
  show ?thesis
  proof (cases "flags = pr_flags pr")
    case True
    have "change_flags atom flags e = e" if "e \<in> set es" for e
    proof -
      obtain j where j: "j \<in> set (lives (ss_prop s) (ss_prop_count s))" "e = entry_at (ss_prop s) (so_prop ob) j"
        using \<open>e \<in> set es\<close> o(4) by (auto simp: props_view_def)
      show ?thesis using atom_at_inj [OF sok j(1) il(1)] il(2) pr True j(2)
        by (auto simp: change_flags_def entry_atom_at) (simp add: entry_at_def prop_key_def)
    qed
    then have "map (change_flags atom flags) es = es" by (simp add: map_idI)
    with True at o(6) es ok(1) show ?thesis by (simp add: js_update_property_flags_def fun_upd_idem)
  next
    case False
    obtain r rt1 where u: "js_shape_prepare_update mem p rt = Some (r, rt1)"
      "r = -1 \<and> oom mem \<and> rt_inv rt1 (hashed_shapes rt1) (\<lambda>_. 0) {} \<and> view rt1 = view rt \<or> r = 0 \<and> owns_copy rt p ob s False {} rt1"
      using js_shape_prepare_update_inv [OF o(1) ok(2) o(2,3)] by blast
    show ?thesis
    proof (cases "r = 0")
      case r: False
      with False at o(6) u show ?thesis by (simp add: js_update_property_flags_def rt_ok_def)
    next
      case True
      obtain sh s1 where c: "rt_inv rt1 (hashed_shapes rt1) (\<lambda>_. 0) {}" "view rt1 = view rt" "rt_objects rt1 p = Some (ob\<lparr>so_shape := sh\<rparr>)"
        "rt_shapes rt1 sh = Some s1" "core s1 = core s" "ss_ref_count s1 = 1" "\<not> ss_is_hashed s1"
        using u(2) True by (auto simp: owns_copy_def)
      note cc = core_eq [OF c(5)]
      let ?ob = "ob\<lparr>so_shape := sh\<rparr>"
      have s1: "rt_shapes rt1 (so_shape ?ob) = Some s1" "shape_ok s1" using c(4) cc(4) sok by simp_all
      have get: "get_ob rt1 p = Some ?ob" "get_sh rt1 sh = Some s1"
        using rt_inv_get_sh [OF c(1)] rt_inv_get_ob [OF c(1)] c(3,4) by simp_all
      have v: "props_view (flag_prop i flags s1) (so_prop ob) = map (change_flags atom flags) es"
        using flag_prop_view [OF s1(2), of i atom flags "so_prop ob"] il cc o(4) by simp
      let ?rt = "set_sh sh (Some (flag_prop i flags s1)) rt1"
      have "rt_inv ?rt (hashed_shapes ?rt) (\<lambda>_. 0) {} \<and> view ?rt = (view rt1)(p := Some (props_view (flag_prop i flags s1) (so_prop ob)))"
        by (rule edit_own_shape [OF c(1,3) s1(1) c(6,7) shape_ok_flag_prop [OF s1(2)]])
          (use c v changed in \<open>simp_all add: fun_upd_idem\<close>)
      moreover have "shape_prop_at sh i rt1 = Some pr" using get(2) cc(1) pr len by (simp add: shape_prop_at_def)
      moreover have "set_shape_prop sh i (pr\<lparr>pr_flags := flags\<rparr>) rt1 = Some ?rt"
        using get(2) cc(1) pr len by (simp add: set_shape_prop_def wr_def flag_prop_def)
      ultimately have "rt_inv ?rt (hashed_shapes ?rt) (\<lambda>_. 0) {} \<and> view ?rt = (view rt1)(p := Some (props_view (flag_prop i flags s1) (so_prop ob)))"
        "js_update_property_flags mem p i flags rt = Some (0, ?rt)"
        using False at o(6) u(1) True get(1) by (simp_all add: js_update_property_flags_def flags_keep [OF flags])
      then show ?thesis using c(2) v by (simp add: rt_ok_def)
    qed
  qed
qed

section \<open>Taking a property out\<close>

definition dead_prop :: "shape_prop \<Rightarrow> shape_prop" where
  "dead_prop pr = pr\<lparr>pr_flags := 0, pr_atom := JS_ATOM_NULL\<rparr>"

definition removed_shape :: "nat list \<Rightarrow> nat \<Rightarrow> shape_prop \<Rightarrow> shape \<Rightarrow> shape" where
  "removed_shape as i pr s =
     s\<lparr>ss_prop := (unlink_prop (ss_prop s) as pr)[i := Some (dead_prop pr)],
       ss_prop_hash := (if as = [] then (ss_prop_hash s)[atom_slot (ss_prop_hash_mask s) (pr_atom pr) := pr_hash_next pr] else ss_prop_hash s),
       ss_deleted_prop_count := ss_deleted_prop_count s + 1\<rparr>"

lemma removed_shape_simps [simp]:
  "ss_prop_count (removed_shape as i pr s) = ss_prop_count s" "ss_prop_size (removed_shape as i pr s) = ss_prop_size s"
  "ss_is_hashed (removed_shape as i pr s) = ss_is_hashed s" "ss_ref_count (removed_shape as i pr s) = ss_ref_count s"
  "ss_prop_hash_mask (removed_shape as i pr s) = ss_prop_hash_mask s"
  "ss_has_small_array_index (removed_shape as i pr s) = ss_has_small_array_index s"
  "length (ss_prop (removed_shape as i pr s)) = length (ss_prop s)"
  "ss_deleted_prop_count (removed_shape as i pr s) = Suc (ss_deleted_prop_count s)"
  by (simp_all add: removed_shape_def unlink_prop_def)

text \<open>The cells of the shape without property i.\<close>

lemma removed_cells:
  assumes i: "i < length (ss_prop s)" and j: "j \<noteq> i"
  shows "map_option prop_key (ss_prop (removed_shape as i pr s) ! j) = map_option prop_key (ss_prop s ! j)"
proof (cases "as = []")
  case False
  then show ?thesis using j
    by (cases "j = last as"; cases "last as < length (ss_prop s)"; cases "ss_prop s ! last as")
      (simp_all add: removed_shape_def unlink_prop_def list_update_beyond)
qed (use j in \<open>simp add: removed_shape_def unlink_prop_def\<close>)

lemma removed_dead:
  assumes "i < length (ss_prop s)"
  shows "ss_prop (removed_shape as i pr s) ! i = Some (dead_prop pr)"
  using assms by (simp add: removed_shape_def unlink_prop_def)

lemma key_cells:
  assumes "map_option prop_key x = map_option prop_key (props ! j)" "props' ! j = x"
  shows "live props' j = live props j" "atom_at props' j = atom_at props j" "entry_at props' vals j = entry_at props vals j"
    "props' ! j = None \<longleftrightarrow> props ! j = None"
  using assms by (cases "props ! j"; cases x; auto simp: live_def atom_at_def entry_at_def prop_key_def)+

lemma removed_lives:
  assumes i: "i < length (ss_prop s)"
  shows "lives (ss_prop (removed_shape as i pr s)) n = filter (\<lambda>j. j \<noteq> i) (lives (ss_prop s) n)"
proof -
  have "live (ss_prop (removed_shape as i pr s)) j \<longleftrightarrow> live (ss_prop s) j \<and> j \<noteq> i" for j
  proof (cases "j = i")
    case True
    then show ?thesis using removed_dead [OF i] by (simp add: live_def dead_prop_def)
  next
    case False
    then show ?thesis using key_cells(1) [OF removed_cells [OF i False] refl] by simp
  qed
  then show ?thesis by (simp add: lives_def conj_commute cong: filter_cong)
qed

lemma length_filter_out: "distinct xs \<Longrightarrow> x \<in> set xs \<Longrightarrow> Suc (length (filter (\<lambda>y. y \<noteq> x) xs)) = length xs"
proof (induction xs)
  case (Cons y xs)
  have "y = x \<Longrightarrow> filter (\<lambda>y. y \<noteq> x) xs = xs" using Cons.prems(1) by (auto simp: filter_id_conv)
  with Cons show ?case by auto
qed simp

lemma shape_ok_removed:
  assumes ok: "shape_ok s" and b: "bucket (ss_prop_hash_mask s) (ss_prop s) (ss_prop_count s) (atom_slot (ss_prop_hash_mask s) (pr_atom pr)) = as @ i # bs"
    and pr: "ss_prop s ! i = Some pr"
  shows "shape_ok (removed_shape as i pr s)"
proof -
  let ?s = "removed_shape as i pr s" and ?n = "ss_prop_count s"
  have ib: "i \<in> set (bucket (ss_prop_hash_mask s) (ss_prop s) ?n (atom_slot (ss_prop_hash_mask s) (pr_atom pr)))" unfolding b by simp
  then have i: "i < ?n" "pr_atom pr \<noteq> JS_ATOM_NULL" using pr by (auto simp: set_bucket in_slot_def)
  then have il: "i \<in> set (lives (ss_prop s) ?n)" using pr by (auto simp: lives_def live_def)
  have len: "i < length (ss_prop s)" "?n \<le> length (ss_prop s)" "?n < 2 ^ 26" using ok i by (auto simp: shape_ok_def)
  have "hash_ok (ss_prop_hash_mask ?s) (ss_prop_hash ?s) (ss_prop ?s) ?n"
    using hash_ok_remove [OF _ b pr len(2,3) atom_slot_le, of "ss_prop_hash s" "dead_prop pr"] ok
    by (simp add: shape_ok_def removed_shape_def dead_prop_def)
  moreover have "\<forall>j<?n. ss_prop ?s ! j \<noteq> None"
  proof (intro allI impI)
    fix j
    assume "j < ?n"
    then have "ss_prop s ! j \<noteq> None" using ok by (simp add: shape_ok_def del: not_None_eq)
    then show "ss_prop ?s ! j \<noteq> None"
      using removed_dead [OF len(1)] key_cells(4) [OF removed_cells [OF len(1), of j] refl] by (cases "j = i") (simp_all del: not_None_eq)
  qed
  moreover have lv: "lives (ss_prop ?s) ?n = filter (\<lambda>j. j \<noteq> i) (lives (ss_prop s) ?n)" by (rule removed_lives [OF len(1)])
  moreover have at: "atom_at (ss_prop ?s) j = atom_at (ss_prop s) j" if "j \<noteq> i" for j
    using key_cells(2) [OF removed_cells [OF len(1) that] refl] by simp
  then have "map (atom_at (ss_prop ?s)) (lives (ss_prop ?s) ?n) = map (atom_at (ss_prop s)) (filter (\<lambda>j. j \<noteq> i) (lives (ss_prop s) ?n))"
    unfolding lv by (intro map_cong) auto
  then have "distinct (map (atom_at (ss_prop ?s)) (lives (ss_prop ?s) ?n))"
    using ok by (simp only: shape_ok_def distinct_map_filter)
  moreover have "ss_has_small_array_index s" if "j \<in> set (lives (ss_prop s) ?n)" "AtomIsTaggedInt (atom_at (ss_prop s) j)" for j
    using that ok by (auto simp: shape_ok_def)
  moreover have "ss_deleted_prop_count ?s + length (lives (ss_prop ?s) ?n) = ?n"
  proof -
    have "distinct (lives (ss_prop s) ?n)" by (simp add: lives_def)
    from length_filter_out [OF this il] ok show ?thesis by (simp add: lv shape_ok_def)
  qed
  ultimately show ?thesis using ok at unfolding shape_ok_def [of ?s] by (auto simp: shape_ok_def)
qed

lemma removed_view:
  assumes ok: "shape_ok s" and i: "i \<in> set (lives (ss_prop s) (ss_prop_count s))"
  shows "props_view (removed_shape as i pr s) (vals[i := v]) = filter (\<lambda>e. entry_atom e \<noteq> atom_at (ss_prop s) i) (props_view s vals)"
proof -
  let ?l = "lives (ss_prop s) (ss_prop_count s)"
  have len: "i < length (ss_prop s)" using ok lives_less [OF i] by (simp add: shape_ok_def)
  have "map (entry_at (ss_prop (removed_shape as i pr s)) (vals[i := v])) (filter (\<lambda>j. j \<noteq> i) ?l) =
      map (entry_at (ss_prop s) vals) (filter (\<lambda>j. j \<noteq> i) ?l)"
  proof (rule map_cong [OF refl])
    fix j
    assume "j \<in> set (filter (\<lambda>j. j \<noteq> i) ?l)"
    then have "j \<noteq> i" by simp
    from key_cells(3) [OF removed_cells [OF len this] refl, where vals = "vals[i := v]"] this
    show "entry_at (ss_prop (removed_shape as i pr s)) (vals[i := v]) j = entry_at (ss_prop s) vals j" by (simp add: entry_at_def)
  qed
  moreover have "filter (\<lambda>e. entry_atom e \<noteq> atom_at (ss_prop s) i) (props_view s vals) = map (entry_at (ss_prop s) vals) (filter (\<lambda>j. j \<noteq> i) ?l)"
  proof -
    have "filter (\<lambda>j. atom_at (ss_prop s) j \<noteq> atom_at (ss_prop s) i) ?l = filter (\<lambda>j. j \<noteq> i) ?l"
      by (rule filter_cong) (use atom_at_inj [OF ok _ i] in auto)
    then show ?thesis by (simp add: props_view_def filter_map comp_def entry_atom_at)
  qed
  ultimately show ?thesis by (simp add: props_view_def removed_lives [OF len])
qed

end
