(* ===== verification/Shape_Remove.thy ===== *)
theory Shape_Remove
  imports Shape_Delete
begin

text \<open>\<open>delete_property\<close> with the compaction of the properties that are left.\<close>

section \<open>The property goes\<close>

lemma fold_events: "\<exists>ev. fold (\<lambda>f. event (g f)) fs rt = rt\<lparr>rt_events := ev\<rparr>"
proof (induction fs arbitrary: rt)
  case Nil
  show ?case by (auto intro!: exI [of _ "rt_events rt"])
next
  case (Cons f fs)
  from Cons.IH [of "event (g f) rt"] show ?case by (simp add: event_def)
qed

lemma free_property_run: "kind_ok flags v \<Longrightarrow> \<exists>ev. free_property v flags rt = Some (rt\<lparr>rt_events := ev\<rparr>)"
  using fold_events
  by (cases v) (auto simp: free_property_def kind_ok_def event_def JS_PROP_TMASK_def JS_PROP_GETSET_def JS_PROP_VARREF_def JS_PROP_AUTOINIT_def
      simp del: fold_append)

lemma remove_property_run:
  assumes inv: "rt_inv rt S E X" and ob: "rt_objects rt p = Some ob" "rt_shapes rt (so_shape ob) = Some s"
    and b: "bucket (ss_prop_hash_mask s) (ss_prop s) (ss_prop_count s) (atom_slot (ss_prop_hash_mask s) atom) = as @ i # bs"
    and pr: "ss_prop s ! i = Some pr" "pr_atom pr = atom" and v: "so_prop ob ! i = Some v" "kind_ok (pr_flags pr) v"
  shows "\<exists>ev. remove_property p atom (if as = [] then None else Some (last as)) i rt = Some (rt\<lparr>
     rt_shapes := (rt_shapes rt)(so_shape ob := Some (removed_shape as i pr s)),
     rt_objects := (rt_objects rt)(p := Some (ob\<lparr>so_prop := (so_prop ob)[i := Some (Prop_value JS_UNDEFINED)]\<rparr>)), rt_events := ev\<rparr>)"
proof -
  let ?a = "so_shape ob" and ?m = "ss_prop_hash_mask s" and ?h = "atom_slot (ss_prop_hash_mask s) atom"
  have nz: "p \<noteq> 0" "?a \<noteq> 0" using rt_inv_object [OF inv ob(1)] by blast+
  have sok: "shape_ok s" and size: "ss_prop_size s \<le> length (so_prop ob)" using rt_inv_shape [OF inv ob(2)] rt_inv_holder [OF inv ob] by simp_all
  have in_b: "set (as @ i # bs) = {j. j < ss_prop_count s \<and> in_slot ?m ?h (ss_prop s) j}" "distinct (as @ i # bs)"
    using set_bucket [of ?m "ss_prop s" "ss_prop_count s" ?h] distinct_bucket [of ?m "ss_prop s" "ss_prop_count s" ?h] b by simp_all
  have n: "ss_prop_count s \<le> length (ss_prop s)" "ss_prop_count s \<le> length (so_prop ob)" using sok size by (simp_all add: shape_ok_def)
  have i: "i < length (ss_prop s)" "i < length (so_prop ob)"
  proof -
    have "i < ss_prop_count s" using in_b(1) by auto
    then show "i < length (ss_prop s)" "i < length (so_prop ob)" using n by simp_all
  qed
  have h: "?h < length (ss_prop_hash s)" using sok hash_ok_slot [of ?m "ss_prop_hash s" "ss_prop s" "ss_prop_count s" atom] by (simp add: shape_ok_def)
  obtain ev where ev: "free_property v (pr_flags pr) (set_sh ?a (Some (s\<lparr>ss_prop := unlink_prop (ss_prop s) as pr,
      ss_prop_hash := (if as = [] then (ss_prop_hash s)[?h := pr_hash_next pr] else ss_prop_hash s),
      ss_deleted_prop_count := ss_deleted_prop_count s + 1\<rparr>)) rt) = Some ((set_sh ?a (Some (s\<lparr>ss_prop := unlink_prop (ss_prop s) as pr,
      ss_prop_hash := (if as = [] then (ss_prop_hash s)[?h := pr_hash_next pr] else ss_prop_hash s),
      ss_deleted_prop_count := ss_deleted_prop_count s + 1\<rparr>)) rt)\<lparr>rt_events := ev\<rparr>)"
    using free_property_run [OF v(2)] by blast
  show ?thesis
  proof (cases "as = []")
    case True
    with ev nz ob pr v i h show ?thesis
      by (intro exI [of _ "ev @ [Free_atom (pr_atom pr)]"]; cases s) (simp add: remove_property_def shape_prop_at_def set_shape_prop_def set_property_value_def get_sh_def get_ob_def wr_def
          set_sh_def set_ob_def event_def unlink_prop_def removed_shape_def dead_prop_def)
  next
    case False
    have l: "last as < length (ss_prop s)" "last as \<noteq> i" "in_slot ?m ?h (ss_prop s) (last as)"
      using in_b n(1) last_in_set [OF False] by auto
    then obtain q where q: "ss_prop s ! last as = Some q" by (auto simp: in_slot_def)
    with False l(1,2) ev nz ob pr v i h show ?thesis
      by (intro exI [of _ "ev @ [Free_atom (pr_atom pr)]"]; cases s) (simp add: remove_property_def shape_prop_at_def set_shape_prop_def set_property_value_def get_sh_def get_ob_def wr_def
          set_sh_def set_ob_def event_def unlink_prop_def removed_shape_def dead_prop_def)
  qed
qed

section \<open>Compaction\<close>

lemma shrink_hash_size_spec: "0 < h \<Longrightarrow> 0 < n \<Longrightarrow> \<exists>h'. shrink_hash_size n h = Some h' \<and> 0 < h' \<and> h' \<le> h"
proof (induction n h rule: shrink_hash_size.induct)
  case (1 n h)
  show ?case
  proof (cases "n \<le> h div 2")
    case True
    then obtain h' where "shrink_hash_size n (h div 2) = Some h'" "0 < h'" "h' \<le> h div 2" using 1 by auto
    with True "1.prems" show ?thesis by (subst shrink_hash_size.simps) auto
  next
    case False
    with "1.prems" show ?thesis by (subst shrink_hash_size.simps) simp
  qed
qed

text \<open>The shape with the live properties only.\<close>

definition compact_shape :: "u32 \<Rightarrow> nat list \<Rightarrow> nat \<Rightarrow> shape_prop option list \<Rightarrow> shape \<Rightarrow> shape" where
  "compact_shape msk tab n props s =
     s\<lparr>ss_prop_hash_mask := msk, ss_prop_hash := tab, ss_prop_size := n, ss_deleted_prop_count := 0,
       ss_prop_count := length (lives (ss_prop s) (ss_prop_count s)), ss_prop := props\<rparr>"

lemma compacted_cells:
  assumes c: "compacted msk old n prop0 props tab prop" and m: "m < length (lives old n)"
  shows "live props m" "atom_at props m = atom_at old (lives old n ! m)" "entry_at props prop m = entry_at old prop0 (lives old n ! m)"
proof -
  have "live old (lives old n ! m)" using nth_mem [OF m] by (simp add: lives_def)
  moreover have "map_option prop_key (props ! m) = map_option prop_key (old ! (lives old n ! m))" "prop ! m = prop0 ! (lives old n ! m)"
    using c m by (simp_all add: compacted_def)
  ultimately show "live props m" "atom_at props m = atom_at old (lives old n ! m)" "entry_at props prop m = entry_at old prop0 (lives old n ! m)"
    by (cases "props ! m"; auto simp: live_def atom_at_def entry_at_def prop_key_def)+
qed

lemma compacted_lives: "compacted msk old n prop0 props tab prop \<Longrightarrow> lives props (length (lives old n)) = [0..<length (lives old n)]"
  unfolding lives_def [of props] using compacted_cells(1) by (auto simp: filter_id_conv)

lemma compacted_map:
  assumes "\<And>m. m < length xs \<Longrightarrow> f m = g (xs ! m)"
  shows "map f [0..<length xs] = map g xs"
  by (rule nth_equalityI) (simp_all add: assms)

lemma compact_shape_ok:
  assumes ok: "shape_ok s" and c: "compacted msk (ss_prop s) (ss_prop_count s) prop0 props tab prop"
    and n: "length props = n" "length (lives (ss_prop s) (ss_prop_count s)) \<le> n"
  shows "shape_ok (compact_shape msk tab n props s)" "props_view (compact_shape msk tab n props s) prop = props_view s prop0"
proof -
  let ?l = "lives (ss_prop s) (ss_prop_count s)"
  note lv = compacted_lives [OF c] and cells = compacted_cells [OF c]
  have at: "map (atom_at props) [0..<length ?l] = map (atom_at (ss_prop s)) ?l" by (rule compacted_map) (rule cells(2))
  have "map (entry_at props prop) [0..<length ?l] = map (entry_at (ss_prop s) prop0) ?l" by (rule compacted_map) (rule cells(3))
  then show "props_view (compact_shape msk tab n props s) prop = props_view s prop0" by (simp add: props_view_def compact_shape_def lv)
  have "length ?l < 2 ^ 26" using ok lives_length [of "ss_prop s" "ss_prop_count s"] by (simp add: shape_ok_def)
  moreover have "\<forall>i < length ?l. props ! i \<noteq> None" using cells(1) by (auto simp: live_def)
  moreover have "hash_ok msk tab props (length ?l)" using c by (simp add: compacted_def)
  moreover have "distinct (map (atom_at props) [0..<length ?l])" unfolding at using ok by (simp add: shape_ok_def)
  moreover have "ss_has_small_array_index s" if "i < length ?l" "AtomIsTaggedInt (atom_at props i)" for i
    using that cells(2) [OF that(1)] nth_mem [OF that(1)] ok by (auto simp: shape_ok_def)
  ultimately show "shape_ok (compact_shape msk tab n props s)"
    using n unfolding shape_ok_def by (simp add: compact_shape_def lv del: not_None_eq)
qed

lemma compact_properties_inv:
  assumes inv: "rt_inv rt (hashed_shapes rt) (\<lambda>_. 0) X" and mem: "mem_ok mem" and ob: "rt_objects rt p = Some ob"
    and s: "rt_shapes rt (so_shape ob) = Some s" and own: "ss_ref_count s = 1" "\<not> ss_is_hashed s" and del: "8 \<le> ss_deleted_prop_count s"
  shows "\<exists>r rt'. compact_properties mem p rt = Some (r, rt') \<and> rt_inv rt' (hashed_shapes rt') (\<lambda>_. 0) X \<and> view rt' = view rt"
proof -
  let ?a = "so_shape ob" and ?n = "ss_prop_count s"
  let ?l = "lives (ss_prop s) ?n"
  let ?size = "max JS_PROP_INITIAL_SIZE (length ?l)"
  have get: "get_ob rt p = Some ob" "get_sh rt ?a = Some s" "p \<noteq> 0"
    using ob s rt_inv_get_sh [OF inv] rt_inv_get_ob [OF inv] rt_inv_object [OF inv ob] by simp_all
  have sok: "shape_ok s" using rt_inv_shape [OF inv s] by blast
  then have k: "?n - ss_deleted_prop_count s = length ?l" "?size \<le> ss_prop_size s"
    using del lives_length [of "ss_prop s" ?n] by (auto simp: shape_ok_def JS_PROP_INITIAL_SIZE_def)
  have "unat (ss_prop_hash_mask s) < 2 ^ LENGTH(32)" by (rule unsigned_less)
  then have bnd: "unat (ss_prop_hash_mask s) + 1 \<le> 2 ^ 32" by simp
  have pos: "0 < unat (ss_prop_hash_mask s) + 1" "0 < ?size" by (simp_all add: JS_PROP_INITIAL_SIZE_def less_max_iff_disj)
  obtain h where h: "shrink_hash_size ?size (unat (ss_prop_hash_mask s) + 1) = Some h" "0 < h" "h \<le> unat (ss_prop_hash_mask s) + 1"
    using shrink_hash_size_spec [OF pos] by blast
  let ?msk = "word_of_nat h - 1 :: u32"
  have msk: "unat ?msk + 1 = h" using unat_table_mask [OF h(2)] h(2,3) bnd by simp
  obtain r rt1 where malloc: "js_malloc mem (get_shape_size h ?size) rt = (r, rt1)" by fastforce
  note mc = js_malloc_cases [OF mem malloc]
  have start: "compact_properties mem p rt = (case r of None \<Rightarrow> Some (-1, rt1) | Some sh' \<Rightarrow> compact_into mem p sh' h ?size rt1)"
    using get(1,2) own(2) k h(1) malloc by (cases r) (simp_all add: compact_properties_def)
  show ?thesis
  proof (cases r)
    case None
    obtain ev where "rt1 = rt\<lparr>rt_events := ev\<rparr>" using mc(1) by blast
    with None start inv show ?thesis by simp
  next
    case (Some sh)
    note new = mc(2) [OF Some]
    have ash: "?a \<noteq> sh" using new s by auto
    have vals: "?n \<le> length (so_prop ob)" "?size \<le> length (so_prop ob)"
      using rt_inv_holder [OF inv ob s] sok k(2) by (auto simp: shape_ok_def)
    have cl: "\<forall>i<?n. ss_prop s ! i \<noteq> None" "?n \<le> length (ss_prop s)" "?n < 2 ^ 26" "length ?l \<le> ?size"
      using sok by (simp_all add: shape_ok_def)
    obtain props tab vals2 where loop: "compact_loop ?msk (ss_prop s) [0..<?n] 0 (replicate ?size None) (replicate h 0) (so_prop ob) =
        Some (length ?l, props, tab, vals2)" "length props = ?size" "compacted ?msk (ss_prop s) ?n (so_prop ob) props tab vals2"
      using compact_loop_spec [OF cl vals(1), of ?msk, unfolded msk] by blast
    let ?s = "compact_shape ?msk tab ?size props s"
    note s' = compact_shape_ok [OF sok loop(3,2) cl(4)]
    have sole: "holders rt ?a = {p}" using sole_holder [OF inv s own(1) ob refl] by simp
    have unhashed: "?a \<notin> hashed_shapes rt" using s own(2) by (simp add: hashed_shapes_def)
    have size: "ss_prop_size ?s = ?size" "ss_prop_count ?s \<le> ?size" "ss_ref_count ?s = 1" "\<not> ss_is_hashed ?s"
      using own by (simp_all add: compact_shape_def)
    have plen: "length vals2 = length (so_prop ob)" using loop(3) by (simp add: compacted_def)
    define rtm where "rtm = set_sh ?a None (set_ob p \<lparr>so_shape = sh, so_prop = vals2\<rparr>
        (set_sh sh (Some ?s) (add_gc_object sh (rt\<lparr>rt_gc_objs := remove1 ?a (rt_gc_objs rt)\<rparr>))))"
    have move: "rt_inv rt' (hashed_shapes rt') (\<lambda>_. 0) X \<and> view rt' = view rt"
      if v: "?size \<le> length v" "\<forall>i < ss_prop_count ?s. v ! i = vals2 ! i" and rt': "rt' = set_ob p \<lparr>so_shape = sh, so_prop = v\<rparr> rtm" for v rt'
    proof -
      have "props_view ?s v = props_view s (so_prop ob)" using lives_props_view_cong [OF s'(1) v(2)] s'(2) by simp
      then have "rt_inv rt' (hashed_shapes rt) (\<lambda>_. 0) X \<and> view rt' = view rt \<and> holders rt' sh = {p} \<and> sh \<notin> hashed_shapes rt"
        by (intro rt_inv_move_shape [OF inv ob refl s sole unhashed _ _ _ s'(1) size(3), of sh "\<lparr>so_shape = sh, so_prop = v\<rparr>"])
          (use new v size ash in \<open>auto simp: rt' rtm_def fun_upd_twist\<close>)
      moreover have "hashed_shapes rt' = hashed_shapes rt"
        using size(4) unhashed new by (auto simp: hashed_shapes_def rt' rtm_def)
      ultimately show ?thesis by simp
    qed
    obtain r2 rt2 where malloc2: "js_malloc mem (16 * ?size) rtm = (r2, rt2)" by fastforce
    note mc2 = js_malloc_cases [OF mem malloc2]
    have run: "compact_properties mem p rt = (case (r2, rt2) of
            (None, rt) \<Rightarrow> Some (0, rt)
          | (Some _, rt) \<Rightarrow> Some (0, set_ob p \<lparr>so_shape = sh, so_prop = realloc_cells ?size vals2\<rparr> rt))"
      using start Some new loop(1) rt_inv_holders [OF inv s] malloc2 get k(1)
      by (simp add: compact_into_def remove_gc_object_def Let_def rtm_def compact_shape_def)
    show ?thesis
    proof (cases r2)
      case None
      obtain ev where rt2: "rt2 = rtm\<lparr>rt_events := ev\<rparr>" using mc2(1) by blast
      have "set_ob p \<lparr>so_shape = sh, so_prop = vals2\<rparr> rtm = rtm" by (simp add: rtm_def set_ob_def set_sh_def)
      with move [OF _ _ refl, of vals2] plen vals(2) None run rt2 show ?thesis by simp
    next
      case r2: (Some b)
      have "rt2 = rtm" using mc2(2) [OF r2] by blast
      with move [OF _ _ refl, of "realloc_cells ?size vals2"] plen vals(2) size(2) r2 run show ?thesis by simp
    qed
  qed
qed

section \<open>delete_property\<close>

definition deletable :: "u32 \<Rightarrow> prop_entry list \<Rightarrow> bool" where
  "deletable atom es \<longleftrightarrow> (\<forall>e\<in>set es. entry_atom e = atom \<longrightarrow> snd (fst e) AND JS_PROP_CONFIGURABLE \<noteq> 0)"

definition without :: "u32 \<Rightarrow> prop_entry list \<Rightarrow> prop_entry list" where
  "without atom es = filter (\<lambda>e. entry_atom e \<noteq> atom) es"

lemma without_absent: "atom \<notin> set (map entry_atom es) \<Longrightarrow> without atom es = es"
  by (auto simp: without_def filter_id_conv)

text \<open>The search finds the property and its place in the chain.\<close>

lemma delete_find_run:
  assumes inv: "rt_inv rt S E X" and ob: "rt_objects rt p = Some ob" "rt_shapes rt (so_shape ob) = Some s" and atom: "atom \<noteq> JS_ATOM_NULL"
  shows "\<exists>h found. rd (ss_prop_hash s) (atom_slot (ss_prop_hash_mask s) atom) = Some h \<and> delete_find (ss_prop s) atom None h = Some found \<and>
    (case found of
       None \<Rightarrow> atom \<notin> set (map entry_atom (props_view s (so_prop ob)))
     | Some (lpr, i) \<Rightarrow> i \<in> set (lives (ss_prop s) (ss_prop_count s)) \<and> atom_at (ss_prop s) i = atom \<and>
         (\<exists>as bs. bucket (ss_prop_hash_mask s) (ss_prop s) (ss_prop_count s) (atom_slot (ss_prop_hash_mask s) atom) = as @ i # bs \<and>
            lpr = (if as = [] then None else Some (last as))))"
proof -
  let ?b = "bucket (ss_prop_hash_mask s) (ss_prop s) (ss_prop_count s) (atom_slot (ss_prop_hash_mask s) atom)"
  note slot = rt_inv_find_slot [OF inv ob(2), of atom]
  note has = bucket_has_atom [OF atom, of _ "ss_prop_hash_mask s" "ss_prop s" "ss_prop_count s"]
  show ?thesis
  proof (cases "\<exists>i\<in>set ?b. has_atom (ss_prop s) atom i")
    case True
    then obtain as i bs where b: "?b = as @ i # bs" "has_atom (ss_prop s) atom i" "\<forall>j\<in>set as. \<not> has_atom (ss_prop s) atom j"
      using split_list_first_prop [of ?b "has_atom (ss_prop s) atom"] by blast
    have "i \<in> set (lives (ss_prop s) (ss_prop_count s)) \<and> atom_at (ss_prop s) i = atom" using has [of i] b by simp
    moreover have "delete_find (ss_prop s) atom None (ss_prop_hash s ! atom_slot (ss_prop_hash_mask s) atom) =
        Some (Some (if as = [] then None else Some (last as), i))"
      using slot b by (intro delete_find_some) auto
    ultimately show ?thesis using slot b(1) by fastforce
  next
    case False
    then have "delete_find (ss_prop s) atom None (ss_prop_hash s ! atom_slot (ss_prop_hash_mask s) atom) = Some None"
      using slot by (intro delete_find_none) auto
    moreover have "atom \<notin> set (map entry_atom (props_view s (so_prop ob)))"
      unfolding props_view_atoms using False has by auto
    ultimately show ?thesis using slot by fastforce
  qed
qed

lemma delete_own_property:
  assumes inv: "rt_inv rt (hashed_shapes rt) (\<lambda>_. 0) {}" and mem: "mem_ok mem" and ob: "rt_objects rt p = Some ob"
    and s: "rt_shapes rt (so_shape ob) = Some s" and own: "ss_ref_count s = 1" "\<not> ss_is_hashed s"
    and i: "i \<in> set (lives (ss_prop s) (ss_prop_count s))" "atom_at (ss_prop s) i = atom"
    and b: "bucket (ss_prop_hash_mask s) (ss_prop s) (ss_prop_count s) (atom_slot (ss_prop_hash_mask s) atom) = as @ i # bs"
  shows "\<exists>rt'. delete_found mem p atom (if as = [] then None else Some (last as)) i rt = Some (1, rt') \<and> rt_inv rt' (hashed_shapes rt') (\<lambda>_. 0) {} \<and>
    view rt' = (view rt)(p := Some (without atom (props_view s (so_prop ob))))"
proof -
  let ?vals = "(so_prop ob)[i := Some (Prop_value JS_UNDEFINED)]" and ?es = "props_view s (so_prop ob)"
  have sok: "shape_ok s" using rt_inv_shape [OF inv s] by blast
  obtain pr where pr: "ss_prop s ! i = Some pr" "pr_atom pr = atom" using i by (auto simp: lives_def live_def atom_at_def)
  have ents: "\<forall>e\<in>set ?es. entry_ok e" using rt_inv_holder [OF inv ob s] by simp
  then have "entry_ok (entry_at (ss_prop s) (so_prop ob) i)" using entry_in_view [OF i(1)] by blast
  then obtain v where v: "so_prop ob ! i = Some v" "kind_ok (pr_flags pr) v" using pr(1) by (auto simp: entry_ok_def entry_at_def prop_key_def)
  obtain ev where run: "remove_property p atom (if as = [] then None else Some (last as)) i rt = Some (rt\<lparr>
     rt_shapes := (rt_shapes rt)(so_shape ob := Some (removed_shape as i pr s)),
     rt_objects := (rt_objects rt)(p := Some (ob\<lparr>so_prop := ?vals\<rparr>)), rt_events := ev\<rparr>)"
    using remove_property_run [OF inv ob s b pr v] by blast
  define rt1 where "rt1 = rt\<lparr>
     rt_shapes := (rt_shapes rt)(so_shape ob := Some (removed_shape as i pr s)),
     rt_objects := (rt_objects rt)(p := Some (ob\<lparr>so_prop := ?vals\<rparr>)), rt_events := ev\<rparr>"
  have b': "bucket (ss_prop_hash_mask s) (ss_prop s) (ss_prop_count s) (atom_slot (ss_prop_hash_mask s) (pr_atom pr)) = as @ i # bs"
    using b pr(2) by simp
  have view: "props_view (removed_shape as i pr s) ?vals = without atom ?es"
    using removed_view [OF sok i(1)] i(2) by (simp add: without_def)
  have inv1: "rt_inv rt1 (hashed_shapes rt1) (\<lambda>_. 0) {} \<and> view rt1 = (view rt)(p := Some (props_view (removed_shape as i pr s) ?vals))"
    by (rule edit_own_shape [OF inv ob s own shape_ok_removed [OF sok b' pr(1)]])
      (use own ents view in \<open>simp_all add: rt1_def without_def\<close>)
  have st: "rt_objects rt1 p = Some (ob\<lparr>so_prop := ?vals\<rparr>)" "rt_shapes rt1 (so_shape (ob\<lparr>so_prop := ?vals\<rparr>)) = Some (removed_shape as i pr s)"
    by (simp_all add: rt1_def)
  have get: "get_ob rt1 p = Some (ob\<lparr>so_prop := ?vals\<rparr>)" "get_sh rt1 (so_shape ob) = Some (removed_shape as i pr s)"
    using rt_inv_get_sh rt_inv_get_ob inv1 st by auto
  note run' = run [folded rt1_def]
  show ?thesis
  proof (cases "ss_deleted_prop_count (removed_shape as i pr s) \<ge> 8 \<and> ss_deleted_prop_count (removed_shape as i pr s) \<ge> ss_prop_count s div 2")
    case True
    obtain r rt2 where c: "compact_properties mem p rt1 = Some (r, rt2)" "rt_inv rt2 (hashed_shapes rt2) (\<lambda>_. 0) {}" "view rt2 = view rt1"
      using compact_properties_inv [OF conjunct1 [OF inv1] mem st] own True by auto
    with True run' get inv1 view show ?thesis by (simp add: delete_found_def)
  next
    case False
    with run' get inv1 view show ?thesis by (auto simp: delete_found_def)
  qed
qed

lemma delete_property_spec:
  assumes ok: "rt_ok rt" "mem_ok mem" and es: "view rt p = Some es" and atom: "atom \<noteq> JS_ATOM_NULL"
  shows "\<exists>r rt'. delete_property mem p atom rt = Some (r, rt') \<and> rt_ok rt' \<and>
    (if r = 1 then deletable atom es \<and> view rt' = (view rt)(p := Some (without atom es))
     else view rt' = view rt \<and> (r = 0 \<and> \<not> deletable atom es \<or> r = -1 \<and> deletable atom es \<and> oom mem))"
proof -
  obtain ob s where o: "rt_inv rt (hashed_shapes rt) (\<lambda>_. 0) {}" "rt_objects rt p = Some ob" "rt_shapes rt (so_shape ob) = Some s"
    "es = props_view s (so_prop ob)" "get_ob rt p = Some ob" "get_sh rt (so_shape ob) = Some s"
    using rt_ok_object [OF ok(1) es] by metis
  have sok: "shape_ok s" using rt_inv_shape [OF o(1,3)] by blast
  obtain h found where f: "rd (ss_prop_hash s) (atom_slot (ss_prop_hash_mask s) atom) = Some h" "delete_find (ss_prop s) atom None h = Some found"
    "case found of None \<Rightarrow> atom \<notin> set (map entry_atom es)
     | Some (lpr, i) \<Rightarrow> i \<in> set (lives (ss_prop s) (ss_prop_count s)) \<and> atom_at (ss_prop s) i = atom \<and>
         (\<exists>as bs. bucket (ss_prop_hash_mask s) (ss_prop s) (ss_prop_count s) (atom_slot (ss_prop_hash_mask s) atom) = as @ i # bs \<and>
            lpr = (if as = [] then None else Some (last as)))"
    using delete_find_run [OF o(1,2,3) atom] o(4) by blast
  show ?thesis
  proof (cases found)
    case None
    with f(3) have absent: "atom \<notin> set (map entry_atom es)" by simp
    then have "deletable atom es" by (auto simp: deletable_def)
    with None f(1,2) o(5,6) without_absent [OF absent] es ok(1) show ?thesis by (simp add: delete_property_def fun_upd_idem)
  next
    case (Some res)
    obtain lpr i where li: "res = (lpr, i)" by fastforce
    obtain as bs where i: "i \<in> set (lives (ss_prop s) (ss_prop_count s))" "atom_at (ss_prop s) i = atom"
      "bucket (ss_prop_hash_mask s) (ss_prop s) (ss_prop_count s) (atom_slot (ss_prop_hash_mask s) atom) = as @ i # bs"
      "lpr = (if as = [] then None else Some (last as))" using f(3) Some li by auto
    obtain pr where pr: "ss_prop s ! i = Some pr" using i(1) by (auto simp: lives_def live_def)
    have at: "shape_prop_at (so_shape ob) i rt = Some pr"
      using o(6) pr sok lives_less [OF i(1)] by (simp add: shape_prop_at_def shape_ok_def)
    have del: "deletable atom es \<longleftrightarrow> pr_flags pr AND JS_PROP_CONFIGURABLE \<noteq> 0"
    proof -
      have "entry_atom e = atom \<longleftrightarrow> e = entry_at (ss_prop s) (so_prop ob) i" if "e \<in> set es" for e
        using that atom_at_inj [OF sok _ i(1)] i(2) o(4) by (auto simp: props_view_def entry_atom_at)
      moreover have "entry_at (ss_prop s) (so_prop ob) i \<in> set es" using entry_in_view [OF i(1)] o(4) by simp
      ultimately have "deletable atom es \<longleftrightarrow> snd (fst (entry_at (ss_prop s) (so_prop ob) i)) AND JS_PROP_CONFIGURABLE \<noteq> 0"
        unfolding deletable_def by blast
      then show ?thesis using pr by (simp add: entry_at_def prop_key_def)
    qed
    show ?thesis
    proof (cases "pr_flags pr AND JS_PROP_CONFIGURABLE = 0")
      case True
      with Some li f(1,2) o(5,6) at del ok(1) show ?thesis by (simp add: delete_property_def)
    next
      case False
      obtain r rt1 where u: "js_shape_prepare_update mem p rt = Some (r, rt1)"
        "r = -1 \<and> oom mem \<and> rt_inv rt1 (hashed_shapes rt1) (\<lambda>_. 0) {} \<and> view rt1 = view rt \<or> r = 0 \<and> owns_copy rt p ob s False {} rt1"
        using js_shape_prepare_update_inv [OF o(1) ok(2) o(2,3)] by blast
      show ?thesis
      proof (cases "r = 0")
        case r: False
        with False Some li f(1,2) o(5,6) at del u show ?thesis by (simp add: delete_property_def rt_ok_def)
      next
        case True
        obtain sh s1 where c: "rt_inv rt1 (hashed_shapes rt1) (\<lambda>_. 0) {}" "view rt1 = view rt" "rt_objects rt1 p = Some (ob\<lparr>so_shape := sh\<rparr>)"
          "rt_shapes rt1 (so_shape (ob\<lparr>so_shape := sh\<rparr>)) = Some s1" "core s1 = core s" "ss_ref_count s1 = 1" "\<not> ss_is_hashed s1"
          using u(2) True by (auto simp: owns_copy_def)
        note cc = core_eq [OF c(5)]
        have msk: "ss_prop_hash_mask s1 = ss_prop_hash_mask s" using arg_cong [OF c(5), of ss_prop_hash_mask] by (simp add: core_def)
        obtain rt2 where rt2: "delete_found mem p atom lpr i rt1 = Some (1, rt2)" "rt_inv rt2 (hashed_shapes rt2) (\<lambda>_. 0) {}"
          "view rt2 = (view rt1)(p := Some (without atom (props_view s1 (so_prop (ob\<lparr>so_shape := sh\<rparr>)))))"
          using delete_own_property [OF c(1) ok(2) c(3,4,6,7), of i atom as bs] i cc(1,2) msk by auto
        with False True Some li f(1,2) o(4,5,6) at del u c(2) cc(5) show ?thesis by (simp add: delete_property_def rt_ok_def)
      qed
    qed
  qed
qed

end
