(* ===== verification/Shape_Object.thy ===== *)
theory Shape_Object
  imports Shape_Remove
begin

text \<open>Creating objects, and the promises of all operations on one page.\<close>

section \<open>A new shape\<close>

lemma resize_shape_hash_inv:
  assumes inv: "rt_inv rt (hashed_shapes rt) E X" and bits: "bits < 31"
  shows "\<exists>r rt'. resize_shape_hash mem bits rt = Some (r, rt') \<and> rt_inv rt' (hashed_shapes rt') E X \<and> table_step rt rt'"
proof -
  have lk: "linked (rt_shapes rt) (rt_shape_hash rt) (shape_hash_bits rt) (hashed_shapes rt)" "shape_hash_size rt = 2 ^ shape_hash_bits rt"
    using inv by (simp_all add: rt_inv_def)
  obtain r rt' where r: "resize_shape_hash mem bits rt = Some (r, rt')" "rt' = rt \<or>
    (\<exists>H tab. rt' = rt\<lparr>rt_shapes := H, shape_hash_bits := bits, shape_hash_size := 2 ^ bits, rt_shape_hash := tab\<rparr> \<and>
       linked H tab bits (hashed_shapes rt) \<and> relinked (rt_shapes rt) H)"
    using linked_resize [OF lk bits] by blast
  show ?thesis
  proof (cases "rt' = rt")
    case True
    with r(1) inv show ?thesis by simp
  next
    case False
    then obtain H tab where h: "rt' = rt\<lparr>rt_shapes := H, shape_hash_bits := bits, shape_hash_size := 2 ^ bits, rt_shape_hash := tab\<rparr>"
      "linked H tab bits (hashed_shapes rt)" "relinked (rt_shapes rt) H" using r(2) by blast
    have step: "table_step rt rt'" using h by (simp add: table_step_def)
    have "rt_inv rt' (hashed_shapes rt) E X" by (rule table_step_inv [OF step inv]) (simp_all add: h)
    with r(1) step table_step_hashed [OF step] show ?thesis by auto
  qed
qed

definition empty_shape :: "nat \<Rightarrow> shape" where
  "empty_shape proto = \<lparr>ss_ref_count = 1, ss_is_hashed = True, ss_has_small_array_index = False,
     ss_hash = shape_initial_hash proto, ss_prop_hash_mask = 3, ss_prop_hash = replicate 4 0, ss_prop_size = 2, ss_prop_count = 0,
     ss_deleted_prop_count = 0, ss_shape_hash_next = 0, ss_proto = proto, ss_prop = replicate 2 None\<rparr>"

lemma empty_shape_ok: "shape_ok (empty_shape proto)"
  using hash_ok_empty [of 3 "replicate 2 None"] by (simp add: shape_ok_def empty_shape_def)

lemma js_new_shape_inv:
  assumes inv: "rt_inv rt (hashed_shapes rt) (\<lambda>_. 0) X" and mem: "mem_ok mem" and bits: "shape_hash_bits rt < 30"
  shows "\<exists>sh rt'. js_new_shape mem proto rt = Some (sh, rt') \<and> rt_objects rt' = rt_objects rt \<and> view rt' = view rt \<and>
    (\<forall>a. a \<noteq> sh \<or> sh = 0 \<longrightarrow> map_option unlinked (rt_shapes rt' a) = map_option unlinked (rt_shapes rt a)) \<and>
    (sh \<noteq> 0 \<longrightarrow> rt_shapes rt sh = None) \<and>
    (sh = 0 \<and> oom mem \<and> rt_inv rt' (hashed_shapes rt') (\<lambda>_. 0) X \<or>
     sh \<noteq> 0 \<and> rt_inv rt' (hashed_shapes rt') ((\<lambda>_. 0)(sh := 1)) X \<and>
       (\<exists>n. rt_shapes rt' sh = Some ((empty_shape proto)\<lparr>ss_shape_hash_next := n\<rparr>)))"
proof -
  obtain rt1 where rt1: "(if 2 * (shape_hash_count rt + 1) > int (shape_hash_size rt)
            then do { (r, rt) \<leftarrow> resize_shape_hash mem (shape_hash_bits rt + 1) rt; Some rt }
            else Some rt) = Some rt1" "rt_inv rt1 (hashed_shapes rt1) (\<lambda>_. 0) X" "table_step rt rt1"
    using resize_shape_hash_inv [OF inv, of "shape_hash_bits rt + 1" mem] bits inv
    by (cases "2 * (shape_hash_count rt + 1) > int (shape_hash_size rt)") auto
  have v1: "view rt1 = view rt" "rt_objects rt1 = rt_objects rt" using table_step_view [OF rt1(3)] rt1(3) by (simp_all add: table_step_def)
  obtain r rt2 where malloc: "js_malloc mem (get_shape_size JS_PROP_INITIAL_HASH_SIZE JS_PROP_INITIAL_SIZE) rt1 = (r, rt2)" by fastforce
  note mc = js_malloc_cases [OF mem malloc]
  show ?thesis
  proof (cases r)
    case None
    obtain ev where "rt2 = rt1\<lparr>rt_events := ev\<rparr>" using mc(1) by blast
    with None malloc rt1 v1 mc(3) rt_inv_finite [OF rt1(2)] show ?thesis
      by (simp add: js_new_shape_def js_new_shape2_def table_step_def relinked_def)
  next
    case (Some sh)
    note new = mc(2) [OF Some]
    let ?rt = "set_sh sh (Some (empty_shape proto)) (dup_proto proto (add_gc_object sh rt1))"
    have free: "sh \<notin> hashed_shapes rt1" using new by (simp add: hashed_shapes_def)
    have "rt_inv ?rt (hashed_shapes rt1) ((\<lambda>_. 0)(sh := 1)) X"
      by (rule rt_inv_new_shape [OF rt1(2) _ _ empty_shape_ok]) (use new in \<open>simp_all add: empty_shape_def\<close>)
    moreover have "hashed_shapes ?rt - {sh} = hashed_shapes rt1" using free new by (auto simp: hashed_shapes_def)
    ultimately have inv2: "rt_inv ?rt (hashed_shapes ?rt - {sh}) ((\<lambda>_. 0)(sh := 1)) X" by simp
    have s: "rt_shapes ?rt sh = Some (empty_shape proto)" by simp
    obtain rt3 where rt3: "js_shape_hash_link sh ?rt = Some rt3" "rt_inv rt3 (hashed_shapes rt3) ((\<lambda>_. 0)(sh := 1)) X" "table_step ?rt rt3"
      using relink_inv [OF inv2 s] by (auto simp: empty_shape_def)
    have "view ?rt = view rt1" by (rule view_new_shape [OF rt1(2)]) (use new in auto)
    moreover have "view rt3 = view ?rt" by (rule table_step_view [OF rt3(3)])
    moreover have "rt_objects rt3 = rt_objects rt" using rt3(3) v1(2) by (simp add: table_step_def)
    moreover have "js_new_shape mem proto rt = Some (sh, rt3)"
      using rt1(1) malloc Some new rt3(1)
      by (simp add: js_new_shape_def js_new_shape2_def Let_def empty_shape_def JS_PROP_INITIAL_HASH_SIZE_def JS_PROP_INITIAL_SIZE_def)
    moreover have "map_option unlinked (rt_shapes rt3 a) = map_option unlinked (rt_shapes rt a)" if "a \<noteq> sh" for a
      using rt3(3) rt1(3) that by (simp add: table_step_def relinked_def)
    moreover have "map_option unlinked (rt_shapes rt1 sh) = map_option unlinked (rt_shapes rt sh)"
      using rt1(3) by (simp add: table_step_def relinked_def)
    then have "rt_shapes rt sh = None" using new by simp
    ultimately show ?thesis using rt3(2) table_step_shape [OF rt3(3) s] new v1(1) by auto
  qed
qed

section \<open>A new object\<close>

lemma rt_inv_new_object:
  assumes inv: "rt_inv rt S ((\<lambda>_. 0)(a := 1)) X" and s: "rt_shapes rt a = Some s" "ss_prop_count s = 0"
    and p: "p \<noteq> 0" "rt_objects rt p = None" and ob: "so_shape ob = a" "ss_prop_size s \<le> length (so_prop ob)"
  shows "rt_inv (add_gc_object q (set_ob p ob rt)) S (\<lambda>_. 0) X \<and>
    view (add_gc_object q (set_ob p ob rt)) = (view rt)(p := Some [])"
proof
  let ?rt = "add_gc_object q (set_ob p ob rt)"
  have empty: "props_view s (so_prop ob) = []" using s(2) by (simp add: props_view_def)
  have ha: "holders ?rt a = insert p (holders rt a)" "p \<notin> holders rt a" using ob(1) p(2) by (auto simp: holders_def)
  have hc: "holders ?rt c = holders rt c" if "c \<noteq> a" for c using ob(1) p(2) that by (auto simp: holders_def)
  have "shapes_inv ?rt (\<lambda>_. 0)"
    unfolding shapes_inv_def
  proof (intro allI impI)
    fix c t
    assume "rt_shapes ?rt c = Some t"
    then have t: "rt_shapes rt c = Some t" by simp
    note h = rt_inv_holders [OF inv t] rt_inv_shape [OF inv t]
    show "shape_ok t \<and> c \<in> set (rt_gc_objs ?rt) \<and> (\<not> ss_is_hashed t \<longrightarrow> ss_ref_count t = 1) \<and>
        finite (holders ?rt c) \<and> int (card (holders ?rt c) + 0) \<le> ss_ref_count t"
      using h ha hc by (cases "c = a") simp_all
  qed
  moreover have "objects_inv ?rt X"
    unfolding objects_inv_def
  proof (intro allI impI)
    fix q ob1
    assume q: "rt_objects ?rt q = Some ob1"
    show "\<exists>s. rt_shapes ?rt (so_shape ob1) = Some s \<and> ss_prop_size s \<le> length (so_prop ob1) \<and>
        (q \<notin> X \<longrightarrow> (\<forall>e\<in>set (props_view s (so_prop ob1)). entry_ok e))"
    proof (cases "q = p")
      case True
      with q s ob empty show ?thesis by auto
    next
      case False
      then have "rt_objects rt q = Some ob1" using q by simp
      from rt_inv_object [OF inv this] show ?thesis by auto
    qed
  qed
  ultimately show "rt_inv ?rt S (\<lambda>_. 0) X" using inv p(1) by (simp add: rt_inv_def)
  show "view ?rt = (view rt)(p := Some [])" using s(1) ob(1) empty by (auto simp: view_def fun_eq_iff)
qed

text \<open>One reference to the shape s at a is gone, and the shape with it when it was the last one.\<close>

definition released :: "nat \<Rightarrow> shape \<Rightarrow> shape_rt \<Rightarrow> shape_rt \<Rightarrow> bool" where
  "released a s rt rt' \<longleftrightarrow>
     rt_shapes rt' a = (if 1 < ss_ref_count s then Some (s\<lparr>ss_ref_count := ss_ref_count s - 1\<rparr>) else None) \<and>
     (\<forall>b. b \<noteq> a \<longrightarrow> map_option unlinked (rt_shapes rt' b) = map_option unlinked (rt_shapes rt b))"

lemma js_free_shape_at:
  assumes "js_free_shape a rt = Some rt'" "rt_shapes rt a = Some s"
  shows "rt_shapes rt' a = (if 1 < ss_ref_count s then Some (s\<lparr>ss_ref_count := ss_ref_count s - 1\<rparr>) else None)"
  using assms by (auto simp: js_free_shape_def js_free_shape0_def get_sh_def Let_def bind_eq_Some_conv split: if_splits)

lemma js_free_new_shape:
  assumes inv: "rt_inv rt (hashed_shapes rt) ((\<lambda>_. 0)(a := 1)) X" and s: "rt_shapes rt a = Some s"
  shows "\<exists>rt'. js_free_shape a rt = Some rt' \<and> rt_inv rt' (hashed_shapes rt') (\<lambda>_. 0) X \<and> view rt' = view rt \<and> released a s rt rt'"
proof -
  have e: "0 < ((\<lambda>_. 0)(a := 1 :: nat)) a" and h: "ss_is_hashed s \<longleftrightarrow> a \<in> hashed_shapes rt"
    using s by (simp_all add: hashed_shapes_def)
  have z: "((\<lambda>_. 0)(a := 1 :: nat))(a := ((\<lambda>_. 0)(a := 1)) a - 1) = (\<lambda>_. 0)" by auto
  obtain rt' where "js_free_shape a rt = Some rt'" "rt_inv rt' (hashed_shapes rt') (\<lambda>_. 0) X" "view rt' = view rt"
      "\<forall>b. b \<noteq> a \<longrightarrow> map_option unlinked (rt_shapes rt' b) = map_option unlinked (rt_shapes rt b)"
    using js_free_shape_inv [OF inv s e h, unfolded z] by auto
  with js_free_shape_at [OF _ s] show ?thesis unfolding released_def by blast
qed

text \<open>What the allocator of object headers promises.\<close>

definition new_object_ok :: "(shape_rt \<Rightarrow> nat option) \<Rightarrow> bool" where
  "new_object_ok new_object \<longleftrightarrow> (\<forall>rt p. new_object rt = Some p \<longrightarrow> p \<noteq> 0 \<and> rt_objects rt p = None)"

definition no_object :: "(shape_rt \<Rightarrow> nat option) \<Rightarrow> bool" where
  "no_object new_object \<longleftrightarrow> (\<exists>rt. heap_finite rt \<and> new_object rt = None)"

lemma JS_NewObjectFromShape_inv:
  assumes inv: "rt_inv rt (hashed_shapes rt) ((\<lambda>_. 0)(a := 1)) X" and mem: "mem_ok mem" "new_object_ok new_object"
    and s: "rt_shapes rt a = Some s" "ss_prop_count s = 0"
  shows "\<exists>p rt'. JS_NewObjectFromShape mem new_object a rt = Some (p, rt') \<and> rt_inv rt' (hashed_shapes rt') (\<lambda>_. 0) X \<and>
    (if p = 0 then view rt' = view rt \<and> (oom mem \<or> no_object new_object) \<and> released a s rt rt'
     else view rt p = None \<and> view rt' = (view rt)(p := Some []) \<and> rt_shapes rt' = rt_shapes rt \<and>
       (\<exists>ob. rt_objects rt' p = Some ob \<and> so_shape ob = a))"
proof (cases "new_object rt")
  case None
  have "rt_inv (event Throw_out_of_memory rt) (hashed_shapes (event Throw_out_of_memory rt)) ((\<lambda>_. 0)(a := 1)) X" using inv by simp
  from js_free_new_shape [OF this, of s] s(1) obtain rt2 where
    "js_free_shape a (event Throw_out_of_memory rt) = Some rt2" "rt_inv rt2 (hashed_shapes rt2) (\<lambda>_. 0) X" "view rt2 = view rt"
    "released a s rt rt2" by (auto simp: released_def)
  then show ?thesis using None rt_inv_finite [OF inv] by (auto simp: JS_NewObjectFromShape_def no_object_def)
next
  case (Some p)
  then have p: "p \<noteq> 0" "rt_objects rt p = None" using mem(2) by (auto simp: new_object_ok_def)
  have get: "get_sh rt a = Some s" using rt_inv_get_sh [OF inv] s(1) by simp
  obtain r rt1 where malloc: "js_malloc mem (16 * ss_prop_size s) rt = (r, rt1)" by fastforce
  note mc = js_malloc_cases [OF mem(1) malloc]
  show ?thesis
  proof (cases r)
    case None
    obtain ev where ev: "rt1 = rt\<lparr>rt_events := ev\<rparr>" using mc(1) by blast
    then have "rt_inv rt1 (hashed_shapes rt1) ((\<lambda>_. 0)(a := 1)) X" "rt_shapes rt1 a = Some s" using inv s(1) by simp_all
    from js_free_new_shape [OF this] obtain rt2 where
      "js_free_shape a rt1 = Some rt2" "rt_inv rt2 (hashed_shapes rt2) (\<lambda>_. 0) X" "view rt2 = view rt1"
      "released a s rt1 rt2" by blast
    moreover from this(4) ev have "released a s rt rt2" by (simp add: released_def)
    ultimately show ?thesis using Some None get malloc mc(3) rt_inv_finite [OF inv] ev by (simp add: JS_NewObjectFromShape_def)
  next
    case r: (Some b)
    have "rt1 = rt" using mc(2) [OF r] by blast
    let ?ob = "\<lparr>so_shape = a, so_prop = replicate (ss_prop_size s) None\<rparr>"
    let ?rt = "add_gc_object p (set_ob p ?ob rt)"
    have "rt_inv ?rt (hashed_shapes rt) (\<lambda>_. 0) X \<and> view ?rt = (view rt)(p := Some [])"
      by (rule rt_inv_new_object [OF inv s p]) simp_all
    moreover have "hashed_shapes ?rt = hashed_shapes rt" by (simp add: hashed_shapes_def)
    moreover have "view rt p = None" using p(2) by (simp add: view_def)
    ultimately show ?thesis using Some r get malloc \<open>rt1 = rt\<close> p(1) s(1) by (simp add: JS_NewObjectFromShape_def)
  qed
qed

text \<open>The shapes a new object with the prototype may share.\<close>

definition shape_of_kind :: "nat \<Rightarrow> shape \<Rightarrow> bool" where
  "shape_of_kind proto s \<longleftrightarrow> ss_is_hashed s \<and> ss_hash s = shape_initial_hash proto \<and> ss_proto s = proto \<and> ss_prop_count s = 0"

lemma find_in_chain_complete:
  assumes "schain (rt_shapes rt) x as" "\<forall>a\<in>set as. \<forall>s. rt_shapes rt a = Some s \<longrightarrow> P s \<noteq> None"
    and "a \<in> set as" "rt_shapes rt a = Some s" "P s = Some True"
  shows "find_in_chain P x rt \<noteq> Some 0"
  using assms
proof (induction as arbitrary: x)
  case (Cons b as)
  obtain t where t: "x = b" "b \<noteq> 0" "rt_shapes rt b = Some t" "schain (rt_shapes rt) (ss_shape_hash_next t) as" using Cons.prems(1) by auto
  obtain v where v: "P t = Some v" using Cons.prems(2) t(3) by auto
  have "v \<or> a \<in> set as" using Cons.prems(3-5) t(3) v by auto
  then have "\<not> v \<longrightarrow> find_in_chain P (ss_shape_hash_next t) rt \<noteq> Some 0"
    using Cons.IH [OF t(4)] Cons.prems(2,4,5) by auto
  with t v show ?case by (subst find_in_chain.simps) (simp add: get_sh_def)
qed simp

lemma find_hashed_shape_proto_inv:
  assumes inv: "rt_inv rt (hashed_shapes rt) E X"
  shows "\<exists>b. find_hashed_shape_proto proto rt = Some b \<and>
    (if \<exists>a s. rt_shapes rt a = Some s \<and> shape_of_kind proto s
     then b \<noteq> 0 \<and> (\<exists>s. rt_shapes rt b = Some s \<and> shape_of_kind proto s) else b = 0)"
proof -
  have lk: "linked (rt_shapes rt) (rt_shape_hash rt) (shape_hash_bits rt) (hashed_shapes rt)" using inv by (simp add: rt_inv_def)
  let ?P = "\<lambda>s. Some (ss_hash s = shape_initial_hash proto \<and> ss_proto s = proto \<and> ss_prop_count s = 0)"
  let ?h = "get_shape_hash (shape_initial_hash proto) (shape_hash_bits rt)"
  obtain t b where f: "rd (rt_shape_hash rt) ?h = Some t"
    "find_in_chain ?P t rt = Some b" "b = 0 \<or> b \<in> hashed_shapes rt \<and> (\<exists>s. rt_shapes rt b = Some s \<and> ?P s = Some True)"
    using linked_find [OF lk, of ?P "shape_initial_hash proto"] by blast
  have "b \<noteq> 0" if a: "rt_shapes rt a = Some s" "shape_of_kind proto s" for a s
  proof -
    obtain C where C: "chains (rt_shapes rt) (rt_shape_hash rt) (shape_hash_bits rt) (hashed_shapes rt) C" "shape_hash_bits rt \<le> 31"
      using lk by (auto simp: linked_def)
    note h = get_shape_hash_less [OF C(2), of "shape_initial_hash proto"]
    have c: "schain (rt_shapes rt) t (C ?h)" "a \<in> set (C ?h)"
      using C(1) h f(1) a by (auto simp: chains_def rd_def slot_of_Some shape_of_kind_def hashed_shapes_def)
    show ?thesis using find_in_chain_complete [OF c(1) _ c(2) a(1), of ?P] f(2) a(2) by (simp add: shape_of_kind_def)
  qed
  moreover have "b = 0 \<or> (\<exists>s. rt_shapes rt b = Some s \<and> shape_of_kind proto s)"
    using f(3) by (auto simp: shape_of_kind_def hashed_shapes_def)
  ultimately show ?thesis using f(1,2) by (auto simp: find_hashed_shape_proto_def Let_def)
qed

text \<open>
  What creation does to the shapes. A failure keeps all shapes that someone refers to and leaves no new one; a success takes one
  more reference to a shape of the kind, or makes a new one with one reference when there is none.
\<close>

definition kept_shapes :: "shape_rt \<Rightarrow> shape_rt \<Rightarrow> bool" where
  "kept_shapes rt rt' \<longleftrightarrow> (\<forall>a. (\<forall>s. rt_shapes rt a = Some s \<longrightarrow> 0 < ss_ref_count s) \<longrightarrow>
     map_option unlinked (rt_shapes rt' a) = map_option unlinked (rt_shapes rt a))"

definition shares_shape :: "nat \<Rightarrow> nat \<Rightarrow> shape_rt \<Rightarrow> shape_rt \<Rightarrow> bool" where
  "shares_shape proto sh rt rt' \<longleftrightarrow>
     (\<exists>s. rt_shapes rt' sh = Some s \<and> shape_of_kind proto s \<and>
        (if \<exists>a t. rt_shapes rt a = Some t \<and> shape_of_kind proto t
         then \<exists>t. rt_shapes rt sh = Some t \<and> s = t\<lparr>ss_ref_count := ss_ref_count t + 1\<rparr>
         else rt_shapes rt sh = None \<and> ss_ref_count s = 1)) \<and>
     (\<forall>a. a \<noteq> sh \<longrightarrow> map_option unlinked (rt_shapes rt' a) = map_option unlinked (rt_shapes rt a))"

text \<open>The first half of the creation: a reference to a shape.\<close>

lemma take_shape:
  assumes inv: "rt_inv rt (hashed_shapes rt) (\<lambda>_. 0) {}" and mem: "mem_ok mem" and bits: "shape_hash_bits rt < 30"
    and b: "find_hashed_shape_proto proto rt = Some b"
  shows "\<exists>sh rt1. (if b \<noteq> 0 then do { rt \<leftarrow> js_dup_shape b rt; Some (b, rt) } else js_new_shape mem proto rt) = Some (sh, rt1) \<and>
    view rt1 = view rt \<and>
    (sh = 0 \<and> oom mem \<and> rt_inv rt1 (hashed_shapes rt1) (\<lambda>_. 0) {} \<and> kept_shapes rt rt1 \<or>
     sh \<noteq> 0 \<and> rt_inv rt1 (hashed_shapes rt1) ((\<lambda>_. 0)(sh := 1)) {} \<and> shares_shape proto sh rt rt1)"
proof (cases "b = 0")
  case True
  have none: "\<not> (\<exists>a s. rt_shapes rt a = Some s \<and> shape_of_kind proto s)"
    using find_hashed_shape_proto_inv [OF inv, of proto] b True by (auto split: if_splits)
  obtain sh rt1 where n: "js_new_shape mem proto rt = Some (sh, rt1)" "view rt1 = view rt"
    "\<forall>a. a \<noteq> sh \<or> sh = 0 \<longrightarrow> map_option unlinked (rt_shapes rt1 a) = map_option unlinked (rt_shapes rt a)"
    "sh \<noteq> 0 \<longrightarrow> rt_shapes rt sh = None"
    "sh = 0 \<and> oom mem \<and> rt_inv rt1 (hashed_shapes rt1) (\<lambda>_. 0) {} \<or>
     sh \<noteq> 0 \<and> rt_inv rt1 (hashed_shapes rt1) ((\<lambda>_. 0)(sh := 1)) {} \<and>
       (\<exists>n. rt_shapes rt1 sh = Some ((empty_shape proto)\<lparr>ss_shape_hash_next := n\<rparr>))"
    using js_new_shape_inv [OF inv mem bits, of proto] by blast
  have "shape_of_kind proto ((empty_shape proto)\<lparr>ss_shape_hash_next := n\<rparr>)" "ss_ref_count (empty_shape proto) = 1" for n
    by (simp_all add: shape_of_kind_def empty_shape_def)
  with n(3-5) none have "sh = 0 \<and> oom mem \<and> rt_inv rt1 (hashed_shapes rt1) (\<lambda>_. 0) {} \<and> kept_shapes rt rt1 \<or>
     sh \<noteq> 0 \<and> rt_inv rt1 (hashed_shapes rt1) ((\<lambda>_. 0)(sh := 1)) {} \<and> shares_shape proto sh rt rt1"
    unfolding kept_shapes_def shares_shape_def if_not_P [OF none] by auto
  with True n(1,2) show ?thesis by auto
next
  case False
  then obtain s where s: "rt_shapes rt b = Some s" "shape_of_kind proto s"
    using find_hashed_shape_proto_inv [OF inv, of proto] b by (auto split: if_splits)
  then have ex: "\<exists>a s. rt_shapes rt a = Some s \<and> shape_of_kind proto s" by blast
  let ?rt = "set_sh b (Some (s\<lparr>ss_ref_count := ss_ref_count s + 1\<rparr>)) rt"
  have "js_dup_shape b rt = Some ?rt" "rt_inv ?rt (hashed_shapes ?rt) ((\<lambda>_. 0)(b := 1)) {}" "view ?rt = view rt"
    using js_dup_shape_inv [OF inv s(1)] s(2) by (auto simp: shape_of_kind_def)
  moreover have "shares_shape proto b rt ?rt"
    unfolding shares_shape_def if_P [OF ex] using s by (auto simp: shape_of_kind_def)
  ultimately show ?thesis using False by auto
qed

lemma released_kept:
  assumes "shares_shape proto sh rt rt1" "rt_shapes rt1 sh = Some s" "released sh s rt1 rt2"
  shows "kept_shapes rt rt2"
  unfolding kept_shapes_def
proof (intro allI impI)
  fix a assume pos: "\<forall>s. rt_shapes rt a = Some s \<longrightarrow> 0 < ss_ref_count s"
  show "map_option unlinked (rt_shapes rt2 a) = map_option unlinked (rt_shapes rt a)"
    using assms pos unfolding shares_shape_def released_def by (cases "a = sh") (auto split: if_splits)
qed

lemma JS_NewObjectProtoClass_spec:
  assumes ok: "rt_ok rt" "mem_ok mem" "new_object_ok new_object" and bits: "shape_hash_bits rt < 30"
  shows "\<exists>p rt'. JS_NewObjectProtoClass mem new_object proto rt = Some (p, rt') \<and> rt_ok rt' \<and>
    (if p = 0 then view rt' = view rt \<and> (oom mem \<or> no_object new_object) \<and> kept_shapes rt rt'
     else view rt p = None \<and> view rt' = (view rt)(p := Some []) \<and>
       (\<exists>ob. rt_objects rt' p = Some ob \<and> shares_shape proto (so_shape ob) rt rt'))"
proof -
  have inv: "rt_inv rt (hashed_shapes rt) (\<lambda>_. 0) {}" using ok(1) by (simp add: rt_ok_def)
  obtain b where b: "find_hashed_shape_proto proto rt = Some b" using find_hashed_shape_proto_inv [OF inv] by blast
  obtain sh rt1 where r: "(if b \<noteq> 0 then do { rt \<leftarrow> js_dup_shape b rt; Some (b, rt) } else js_new_shape mem proto rt) = Some (sh, rt1)" "view rt1 = view rt"
    "sh = 0 \<and> oom mem \<and> rt_inv rt1 (hashed_shapes rt1) (\<lambda>_. 0) {} \<and> kept_shapes rt rt1 \<or>
     sh \<noteq> 0 \<and> rt_inv rt1 (hashed_shapes rt1) ((\<lambda>_. 0)(sh := 1)) {} \<and> shares_shape proto sh rt rt1"
    using take_shape [OF inv ok(2) bits b] by blast
  have start: "JS_NewObjectProtoClass mem new_object proto rt =
      (if sh = 0 then Some (0, rt1) else JS_NewObjectFromShape mem new_object sh rt1)"
    using b(1) r(1) by (simp add: JS_NewObjectProtoClass_def split: if_splits)
  show ?thesis
  proof (cases "sh = 0")
    case True
    with start r show ?thesis by (simp add: rt_ok_def)
  next
    case False
    then have sh: "rt_inv rt1 (hashed_shapes rt1) ((\<lambda>_. 0)(sh := 1)) {}" "shares_shape proto sh rt rt1" using r(3) by simp_all
    then obtain s where s: "rt_shapes rt1 sh = Some s" "ss_prop_count s = 0" by (auto simp: shares_shape_def shape_of_kind_def)
    obtain p rt2 where p: "JS_NewObjectFromShape mem new_object sh rt1 = Some (p, rt2)" "rt_inv rt2 (hashed_shapes rt2) (\<lambda>_. 0) {}"
      "if p = 0 then view rt2 = view rt1 \<and> (oom mem \<or> no_object new_object) \<and> released sh s rt1 rt2
       else view rt1 p = None \<and> view rt2 = (view rt1)(p := Some []) \<and> rt_shapes rt2 = rt_shapes rt1 \<and>
         (\<exists>ob. rt_objects rt2 p = Some ob \<and> so_shape ob = sh)"
      using JS_NewObjectFromShape_inv [OF sh(1) ok(2,3) s] by blast
    show ?thesis
    proof (cases "p = 0")
      case True
      with p start False r(2) released_kept [OF sh(2) s(1)] show ?thesis by (simp add: rt_ok_def)
    next
      case nz: False
      then have "shares_shape proto sh rt rt2" using sh(2) p(3) by (simp add: shares_shape_def)
      with nz p start False r(2) show ?thesis by (auto simp: rt_ok_def)
    qed
  qed
qed

end
