(* ===== verification/Shape_Machine.thy ===== *)
theory Shape_Machine
  imports Shape_Object
begin

text \<open>The runtime as a machine on objects, and the properties of the component.\<close>

section \<open>The machine\<close>

text \<open>The runtime that \<open>JS_NewRuntime2\<close> starts with, cleared.\<close>

definition blank_rt :: shape_rt where
  "blank_rt = \<lparr>rt_shapes = (\<lambda>_. None), rt_objects = (\<lambda>_. None), shape_hash_bits = 0, shape_hash_size = 0, shape_hash_count = 0,
     rt_shape_hash = [], rt_gc_objs = [], rt_events = []\<rparr>"

datatype object_op =
    New_object nat
  | Define_field nat u32 js_value
  | Delete_property nat u32
  | Set_flags nat u32 u8

fun run_op :: "shape_mem \<Rightarrow> (shape_rt \<Rightarrow> nat option) \<Rightarrow> object_op \<Rightarrow> shape_rt \<Rightarrow> (int \<times> shape_rt) option" where
  "run_op mem new_object (New_object proto) rt = map_option (apfst int) (JS_NewObjectProtoClass mem new_object proto rt)"
| "run_op mem new_object (Define_field p atom val) rt = JS_DefinePrivateField mem p atom val rt"
| "run_op mem new_object (Delete_property p atom) rt = delete_property mem p atom rt"
| "run_op mem new_object (Set_flags p atom flags) rt = do {
     prs \<leftarrow> find_own_property p atom rt;
     case prs of None \<Rightarrow> Some (0, rt) | Some i \<Rightarrow> js_update_property_flags mem p i flags rt
   }"

text \<open>When the client may call an operation.\<close>

fun op_guard :: "object_op \<Rightarrow> shape_rt \<Rightarrow> bool" where
  "op_guard (New_object proto) rt \<longleftrightarrow> shape_hash_bits rt < 30"
| "op_guard (Define_field p atom val) rt \<longleftrightarrow> view rt p \<noteq> None \<and> atom \<noteq> JS_ATOM_NULL \<and> prop_slots rt p + 1 < 2 ^ 26"
| "op_guard (Delete_property p atom) rt \<longleftrightarrow> view rt p \<noteq> None \<and> atom \<noteq> JS_ATOM_NULL"
| "op_guard (Set_flags p atom flags) rt \<longleftrightarrow> view rt p \<noteq> None \<and> atom \<noteq> JS_ATOM_NULL \<and> flags < 64 \<and>
     (\<forall>e\<in>set (the (view rt p)). entry_atom e = atom \<longrightarrow> snd (fst e) AND JS_PROP_TMASK = flags AND JS_PROP_TMASK)"

text \<open>What it does to the lists of properties, given its result.\<close>

type_synonym objects = "nat \<Rightarrow> prop_entry list option"

fun op_effect :: "object_op \<Rightarrow> int \<Rightarrow> objects \<Rightarrow> objects \<Rightarrow> bool" where
  "op_effect (New_object proto) r v v' \<longleftrightarrow> (if r = 0 then v' = v else v (nat r) = None \<and> v' = v(nat r := Some []))"
| "op_effect (Define_field p atom val) r v v' \<longleftrightarrow>
     (if r = 0 then atom \<notin> set (map entry_atom (the (v p))) \<and>
        v' = v(p := Some (the (v p) @ [((atom, JS_PROP_C_W_E), Some (Prop_value val))]))
      else v' = v)"
| "op_effect (Delete_property p atom) r v v' \<longleftrightarrow>
     (if r = 1 then deletable atom (the (v p)) \<and> v' = v(p := Some (without atom (the (v p)))) else v' = v)"
| "op_effect (Set_flags p atom flags) r v v' \<longleftrightarrow>
     (if r = 0 then v' = v(p := Some (map (change_flags atom flags) (the (v p)))) else v' = v)"

inductive reachable :: "shape_mem \<Rightarrow> (shape_rt \<Rightarrow> nat option) \<Rightarrow> shape_rt \<Rightarrow> bool" for mem new_object where
  start: "init_shape_hash mem blank_rt = (0, rt) \<Longrightarrow> reachable mem new_object rt"
| step: "reachable mem new_object rt \<Longrightarrow> op_guard op rt \<Longrightarrow> run_op mem new_object op rt = Some (r, rt') \<Longrightarrow> reachable mem new_object rt'"

lemma init_shape_hash_ok: "init_shape_hash mem blank_rt = (0, rt) \<Longrightarrow> rt_ok rt"
  using linked_empty [of 4]
  by (auto simp: init_shape_hash_def blank_rt_def rt_ok_def rt_inv_def hashed_shapes_def shapes_inv_def objects_inv_def Let_def
      split: option.splits)

lemma change_flags_absent: "atom \<notin> set (map entry_atom es) \<Longrightarrow> map (change_flags atom flags) es = es"
  by (rule map_idI) (auto simp: change_flags_def)

lemma find_own_property_spec:
  assumes "rt_ok rt" "view rt p = Some es" "atom \<noteq> JS_ATOM_NULL"
  shows "\<exists>ob s r. rt_objects rt p = Some ob \<and> rt_shapes rt (so_shape ob) = Some s \<and> find_own_property p atom rt = Some r \<and>
    List.find (\<lambda>e. entry_atom e = atom) es = map_option (entry_at (ss_prop s) (so_prop ob)) r"
proof -
  obtain ob s where o: "rt_inv rt (hashed_shapes rt) (\<lambda>_. 0) {}" "rt_objects rt p = Some ob" "rt_shapes rt (so_shape ob) = Some s"
    "es = props_view s (so_prop ob)" using rt_ok_object [OF assms(1,2)] by metis
  from find_own_property_view [OF o(1,2,3) assms(3)] o(2,3,4) show ?thesis by blast
qed

lemma run_op_spec:
  assumes ok: "rt_ok rt" "mem_ok mem" "new_object_ok new_object" and g: "op_guard op rt"
  shows "\<exists>r rt'. run_op mem new_object op rt = Some (r, rt') \<and> rt_ok rt' \<and> op_effect op r (view rt) (view rt')"
proof (cases op)
  case (New_object proto)
  then have "shape_hash_bits rt < 30" using g by simp
  from JS_NewObjectProtoClass_spec [OF ok this, of proto] obtain p rt' where p:
    "JS_NewObjectProtoClass mem new_object proto rt = Some (p, rt')" "rt_ok rt'"
    "p = 0 \<longrightarrow> view rt' = view rt" "p \<noteq> 0 \<longrightarrow> view rt p = None \<and> view rt' = (view rt)(p := Some [])" by (auto split: if_splits)
  then have "op_effect op (int p) (view rt) (view rt')" by (simp add: New_object)
  with p(1,2) New_object show ?thesis by simp
next
  case (Define_field p atom val)
  then obtain es where "view rt p = Some es" "atom \<noteq> JS_ATOM_NULL" "prop_slots rt p + 1 < 2 ^ 26" using g by auto
  note es = this
  from JS_DefinePrivateField_spec [OF ok(1,2) es, of val] obtain r rt' where r:
    "JS_DefinePrivateField mem p atom val rt = Some (r, rt')" "rt_ok rt'"
    "if atom \<notin> set (map entry_atom es) \<and> r = 0
     then view rt' = (view rt)(p := Some (es @ [((atom, JS_PROP_C_W_E), Some (Prop_value val))]))
     else r = -1 \<and> view rt' = view rt \<and> (atom \<in> set (map entry_atom es) \<or> oom mem)" by blast
  then have "op_effect op r (view rt) (view rt')" using es(1) by (simp add: Define_field split: if_splits)
  with r(1,2) Define_field show ?thesis by simp
next
  case (Delete_property p atom)
  then obtain es where es: "view rt p = Some es" "atom \<noteq> JS_ATOM_NULL" using g by auto
  from delete_property_spec [OF ok(1,2) es] obtain r rt' where r: "delete_property mem p atom rt = Some (r, rt')" "rt_ok rt'"
    "if r = 1 then deletable atom es \<and> view rt' = (view rt)(p := Some (without atom es)) else view rt' = view rt"
    by (auto split: if_splits)
  then have "op_effect op r (view rt) (view rt')" using es(1) by (simp add: Delete_property)
  with r(1,2) Delete_property show ?thesis by simp
next
  case (Set_flags p atom flags)
  then obtain es where es: "view rt p = Some es" "atom \<noteq> JS_ATOM_NULL" "flags < 64"
    "\<forall>e\<in>set es. entry_atom e = atom \<longrightarrow> snd (fst e) AND JS_PROP_TMASK = flags AND JS_PROP_TMASK" using g by auto
  obtain ob :: shaped_object and s :: shape and r where f: "find_own_property p atom rt = Some r"
    "List.find (\<lambda>e. entry_atom e = atom) es = map_option (entry_at (ss_prop s) (so_prop ob)) r"
    using find_own_property_spec [OF ok(1) es(1,2)] by blast
  show ?thesis
  proof (cases r)
    case None
    then have "atom \<notin> set (map entry_atom es)" using f(2) by (auto simp: find_None_iff)
    with None f(1) Set_flags es(1) ok(1) show ?thesis by (simp add: change_flags_absent fun_upd_idem)
  next
    case (Some i)
    from js_update_property_flags_spec [OF ok(1,2) es(1,2) f(1) [unfolded Some] es(3,4)] obtain r' rt' where r:
      "js_update_property_flags mem p i flags rt = Some (r', rt')" "rt_ok rt'"
      "if r' = 0 then view rt' = (view rt)(p := Some (map (change_flags atom flags) es)) else view rt' = view rt"
      by (auto split: if_splits)
    then have "op_effect op r' (view rt) (view rt')" using es(1) by (simp add: Set_flags)
    with r(1,2) Some f(1) Set_flags show ?thesis by simp
  qed
qed

lemma reachable_ok: "reachable mem new_object rt \<Longrightarrow> mem_ok mem \<Longrightarrow> new_object_ok new_object \<Longrightarrow> rt_ok rt"
proof (induction rule: reachable.induct)
  case (start rt)
  then show ?case by (blast intro: init_shape_hash_ok)
next
  case (step rt op r rt')
  from run_op_spec [OF step.IH [OF step.prems] step.prems step.hyps(2)] step.hyps(3) show ?case by auto
qed

section \<open>A concrete allocator\<close>

definition next_addr :: "shape_rt \<Rightarrow> nat option" where
  "next_addr rt = (let a = 64 * Suc (length (rt_gc_objs rt)) in if rt_shapes rt a = None \<and> rt_objects rt a = None then Some a else None)"

definition bump_mem :: shape_mem where
  "bump_mem rt n = next_addr rt"

lemma bump_mem_ok [simp]: "mem_ok bump_mem" "new_object_ok next_addr"
  by (auto simp: mem_ok_def new_object_ok_def bump_mem_def next_addr_def Let_def split: if_splits)

definition start_rt :: shape_rt where
  "start_rt = snd (init_shape_hash bump_mem blank_rt)"

lemma start_rt_init: "init_shape_hash bump_mem blank_rt = (0, start_rt)"
  by (simp add: start_rt_def init_shape_hash_def bump_mem_def next_addr_def blank_rt_def Let_def)

lemma start_rt_reachable: "reachable bump_mem next_addr start_rt"
  by (rule reachable.start [OF start_rt_init])

text \<open>An object without properties and one with a field, after one and two operations.\<close>

definition object_rt :: shape_rt where
  "object_rt = blank_rt\<lparr>rt_shapes := [64 \<mapsto> (empty_shape 0)], rt_objects := [128 \<mapsto> \<lparr>so_shape = 64, so_prop = replicate 2 None\<rparr>],
     shape_hash_bits := 4, shape_hash_size := 16, shape_hash_count := 1, rt_shape_hash := (replicate 16 0)[3 := 64], rt_gc_objs := [64, 128]\<rparr>"

lemmas create_defs =
  start_rt_def init_shape_hash_def bump_mem_def next_addr_def blank_rt_def Let_def JS_NewObjectProtoClass_def find_hashed_shape_proto_def
  shape_initial_hash_def shape_hash_def get_shape_hash_def find_in_chain.simps rd_def JS_NewObjectFromShape_def js_new_shape_def
  js_new_shape2_def js_malloc_def JS_PROP_INITIAL_HASH_SIZE_def JS_PROP_INITIAL_SIZE_def js_shape_hash_link_def get_sh_def set_sh_def
  set_ob_def add_gc_object_def dup_proto_def wr_def

lemma object_rt_eval: "run_op bump_mem next_addr (New_object 0) start_rt = Some (128, object_rt)"
  by (simp add: create_defs object_rt_def empty_shape_def)

definition field_rt :: shape_rt where
  "field_rt = snd (the (run_op bump_mem next_addr (Define_field 128 5 JS_UNDEFINED) object_rt))"

lemmas define_defs = create_defs JS_DefinePrivateField_def add_property_def find_own_property_def get_ob_def find_own_loop.simps atom_slot_def
  find_hashed_shape_prop_def add_own_property_def add_shape_property_def append_shape_property_def js_shape_hash_unlink_def
  set_property_value_def event_def set_hash_next_def JS_PROP_C_W_E_def

lemma field_rt_eval: "run_op bump_mem next_addr (Define_field 128 5 JS_UNDEFINED) object_rt = Some (0, field_rt)"
  by (simp add: field_rt_def object_rt_def empty_shape_def define_defs)

lemma object_rt_state: "reachable bump_mem next_addr object_rt" "rt_ok object_rt" "view object_rt 128 = Some []" "prop_slots object_rt 128 = 0"
proof -
  have g: "op_guard (New_object 0) start_rt" by (simp add: start_rt_def init_shape_hash_def bump_mem_def next_addr_def blank_rt_def Let_def)
  show r: "reachable bump_mem next_addr object_rt" by (rule reachable.step [OF start_rt_reachable g object_rt_eval])
  show "rt_ok object_rt" by (rule reachable_ok [OF r]) simp_all
  show "view object_rt 128 = Some []" "prop_slots object_rt 128 = 0"
    by (simp_all add: view_def object_rt_def props_view_def empty_shape_def prop_slots_def)
qed

lemma field_rt_state: "reachable bump_mem next_addr field_rt" "rt_ok field_rt" "view field_rt 128 = Some [((5, 7), Some (Prop_value JS_UNDEFINED))]"
proof -
  have g: "op_guard (Define_field 128 5 JS_UNDEFINED) object_rt" using object_rt_state by (simp add: JS_ATOM_NULL_def)
  show r: "reachable bump_mem next_addr field_rt" by (rule reachable.step [OF object_rt_state(1) g field_rt_eval])
  show "rt_ok field_rt" by (rule reachable_ok [OF r]) simp_all
  have "op_effect (Define_field 128 5 JS_UNDEFINED) 0 (view object_rt) (view field_rt)"
    using run_op_spec [OF object_rt_state(2) _ _ g, of bump_mem next_addr] field_rt_eval by simp
  then show "view field_rt 128 = Some [((5, 7), Some (Prop_value JS_UNDEFINED))]" using object_rt_state(3) by (simp add: JS_PROP_C_W_E_def)
qed

section \<open>Properties\<close>

text \<open>
  C25: Shapes refine objects as lists of named properties. From a fresh runtime, after any sequence of creations of objects, definitions
  of private fields, deletions and changes of flags, the next operation runs without reading outside an array, through a
  dangling pointer or past an assertion, keeps the invariant of the shapes and their hash tables, and does to the lists of
  properties of the objects what its name says; the shapes that objects share never leak a change from one object to another.
\<close>

theorem object_machine_refines:
  assumes "mem_ok mem" "new_object_ok new_object" "reachable mem new_object rt" "op_guard op rt"
  shows "\<exists>r rt'. run_op mem new_object op rt = Some (r, rt') \<and> reachable mem new_object rt' \<and> rt_ok rt' \<and>
    op_effect op r (view rt) (view rt')"
proof -
  from run_op_spec [OF reachable_ok [OF assms(3,1,2)] assms(1,2,4)] reachable.step [OF assms(3,4)] show ?thesis by blast
qed

theorem object_machine_refines_witness:
  "\<exists>r rt'. run_op bump_mem next_addr (Delete_property 128 5) field_rt = Some (r, rt') \<and> reachable bump_mem next_addr rt' \<and> rt_ok rt' \<and>
    op_effect (Delete_property 128 5) r (view field_rt) (view rt')"
  by (rule object_machine_refines) (simp_all add: field_rt_state JS_ATOM_NULL_def)

text \<open>
  C29: Looking a name up walks the chain of its slot in the hash table of the shape and finds the property of the object with that
  name, with its flags and value, exactly when there is one.
\<close>

theorem find_own_property_lookup:
  assumes "rt_ok rt" "view rt p = Some es" "atom \<noteq> JS_ATOM_NULL"
  shows "\<exists>ob s r. get_ob rt p = Some ob \<and> get_sh rt (so_shape ob) = Some s \<and> find_own_property p atom rt = Some r \<and>
    List.find (\<lambda>e. entry_atom e = atom) es = map_option (entry_at (ss_prop s) (so_prop ob)) r"
proof -
  have inv: "rt_inv rt (hashed_shapes rt) (\<lambda>_. 0) {}" using assms(1) by (simp add: rt_ok_def)
  from find_own_property_spec [OF assms] show ?thesis unfolding rt_inv_get_ob [OF inv] rt_inv_get_sh [OF inv] by blast
qed

theorem find_own_property_lookup_witness:
  "\<exists>ob s r. get_ob field_rt 128 = Some ob \<and> get_sh field_rt (so_shape ob) = Some s \<and> find_own_property 128 5 field_rt = Some r \<and>
    List.find (\<lambda>e. entry_atom e = 5) [((5, 7), Some (Prop_value JS_UNDEFINED))] = map_option (entry_at (ss_prop s) (so_prop ob)) r"
  by (rule find_own_property_lookup) (simp_all add: field_rt_state JS_ATOM_NULL_def)

text \<open>
  C26: Defining a private field on an object appends the property to its list, or reports an error and changes no object: the error is
  that the object already has the field, or that memory ran out. No other object changes, though the objects share shapes: the new
  shape is found by the names and flags of all its properties, and a shared shape is cloned before it is extended.
\<close>

theorem define_field_appends:
  assumes "rt_ok rt" "mem_ok mem" "view rt p = Some es" "atom \<noteq> JS_ATOM_NULL" "prop_slots rt p + 1 < 2 ^ 26"
  shows "\<exists>r rt'. JS_DefinePrivateField mem p atom val rt = Some (r, rt') \<and> rt_ok rt' \<and>
    (if atom \<notin> set (map entry_atom es) \<and> r = 0
     then view rt' = (view rt)(p := Some (es @ [((atom, JS_PROP_C_W_E), Some (Prop_value val))]))
     else r = -1 \<and> view rt' = view rt \<and> (atom \<in> set (map entry_atom es) \<or> oom mem))"
  by (rule JS_DefinePrivateField_spec) (fact assms)+

theorem define_field_appends_witness:
  "\<exists>r rt'. JS_DefinePrivateField bump_mem 128 6 JS_UNDEFINED field_rt = Some (r, rt') \<and> rt_ok rt' \<and>
    (if 6 \<notin> set (map entry_atom [((5, 7), Some (Prop_value JS_UNDEFINED))]) \<and> r = 0
     then view rt' = (view field_rt)(128 := Some ([((5, 7), Some (Prop_value JS_UNDEFINED))] @ [((6, JS_PROP_C_W_E), Some (Prop_value JS_UNDEFINED))]))
     else r = -1 \<and> view rt' = view field_rt \<and> (6 \<in> set (map entry_atom [((5, 7), Some (Prop_value JS_UNDEFINED))]) \<or> oom bump_mem))"
proof (rule define_field_appends)
  show "prop_slots field_rt 128 + 1 < 2 ^ 26"
    by (simp add: field_rt_def prop_slots_def object_rt_def empty_shape_def define_defs)
qed (simp_all add: field_rt_state JS_ATOM_NULL_def)

text \<open>
  C27: Deleting a property takes it out of the list of the object, also when the object does not have it; it is refused
  exactly when the property is not configurable; and it fails, changing no object, only when there is no memory to unshare the shape. This covers
  the removal from the chain, the deleted places and their compaction.
\<close>

theorem delete_property_removes:
  assumes "rt_ok rt" "mem_ok mem" "view rt p = Some es" "atom \<noteq> JS_ATOM_NULL"
  shows "\<exists>r rt'. delete_property mem p atom rt = Some (r, rt') \<and> rt_ok rt' \<and>
    (if r = 1 then deletable atom es \<and> view rt' = (view rt)(p := Some (without atom es))
     else view rt' = view rt \<and> (r = 0 \<and> \<not> deletable atom es \<or> r = -1 \<and> deletable atom es \<and> oom mem))"
  by (rule delete_property_spec) (fact assms)+

theorem delete_property_removes_witness:
  "\<exists>r rt'. delete_property bump_mem 128 5 field_rt = Some (r, rt') \<and> rt_ok rt' \<and>
    (if r = 1 then deletable 5 [((5, 7), Some (Prop_value JS_UNDEFINED))] \<and>
        view rt' = (view field_rt)(128 := Some (without 5 [((5, 7), Some (Prop_value JS_UNDEFINED))]))
     else view rt' = view field_rt \<and> (r = 0 \<and> \<not> deletable 5 [((5, 7), Some (Prop_value JS_UNDEFINED))] \<or>
        r = -1 \<and> deletable 5 [((5, 7), Some (Prop_value JS_UNDEFINED))] \<and> oom bump_mem))"
  by (rule delete_property_removes) (simp_all add: field_rt_state JS_ATOM_NULL_def)

text \<open>
  C28: Changing the flags of the property that a lookup found changes them for that property of that object alone: a shared or hashed
  shape is unshared first. It fails, changing nothing, only when memory runs out.
\<close>

theorem update_property_flags_local:
  assumes "rt_ok rt" "mem_ok mem" "view rt p = Some es" "atom \<noteq> JS_ATOM_NULL" "find_own_property p atom rt = Some (Some i)" "flags < 64"
    "\<forall>e\<in>set es. entry_atom e = atom \<longrightarrow> snd (fst e) AND JS_PROP_TMASK = flags AND JS_PROP_TMASK"
  shows "\<exists>r rt'. js_update_property_flags mem p i flags rt = Some (r, rt') \<and> rt_ok rt' \<and>
    (if r = 0 then view rt' = (view rt)(p := Some (map (change_flags atom flags) es)) else r = -1 \<and> oom mem \<and> view rt' = view rt)"
  by (rule js_update_property_flags_spec) (fact assms)+

theorem update_property_flags_local_witness:
  "\<exists>r rt'. js_update_property_flags bump_mem 128 0 3 field_rt = Some (r, rt') \<and> rt_ok rt' \<and>
    (if r = 0 then view rt' = (view field_rt)(128 := Some (map (change_flags 5 3) [((5, 7), Some (Prop_value JS_UNDEFINED))]))
     else r = -1 \<and> oom bump_mem \<and> view rt' = view field_rt)"
proof (rule update_property_flags_local)
  show "find_own_property 128 5 field_rt = Some (Some 0)"
    by (simp add: field_rt_def object_rt_def empty_shape_def define_defs)
qed (simp_all add: field_rt_state JS_ATOM_NULL_def JS_PROP_TMASK_def)

text \<open>
  C30: A new object has no properties and is a new entry of the heap; all other objects stay. When the hash table of shapes has a
  shape for the prototype without properties, the object shares such a shape and takes one reference to it; otherwise it gets a
  new shape with one reference, which is in the hash table (\<open>shares_shape\<close>). All other shapes stay, up to their links in the
  hash table, which grows when it is half full. The creation fails only when memory runs out, and then the shapes and their
  reference counts are what they were (\<open>kept_shapes\<close>).
\<close>

theorem new_object_shares_shape:
  assumes "rt_ok rt" "mem_ok mem" "new_object_ok new_object" "shape_hash_bits rt < 30"
  shows "\<exists>p rt'. JS_NewObjectProtoClass mem new_object proto rt = Some (p, rt') \<and> rt_ok rt' \<and>
    (if p = 0 then view rt' = view rt \<and> (oom mem \<or> no_object new_object) \<and> kept_shapes rt rt'
     else view rt p = None \<and> view rt' = (view rt)(p := Some []) \<and>
       (\<exists>ob. rt_objects rt' p = Some ob \<and> shares_shape proto (so_shape ob) rt rt'))"
  by (rule JS_NewObjectProtoClass_spec) (fact assms)+

theorem new_object_shares_shape_witness:
  "\<exists>p rt'. JS_NewObjectProtoClass bump_mem next_addr 0 object_rt = Some (p, rt') \<and> rt_ok rt' \<and>
    (if p = 0 then view rt' = view object_rt \<and> (oom bump_mem \<or> no_object next_addr) \<and> kept_shapes object_rt rt'
     else view object_rt p = None \<and> view rt' = (view object_rt)(p := Some []) \<and>
       (\<exists>ob. rt_objects rt' p = Some ob \<and> shares_shape 0 (so_shape ob) object_rt rt'))"
  by (rule new_object_shares_shape) (simp_all add: object_rt_state, simp add: object_rt_def)

end
