(* ===== verification/Mp.thy ===== *)
theory Mp
  imports QJS_Prelude
begin

text \<open>
  The limb arithmetic under the big numbers, libbf.c: natural numbers as arrays of limbs, the least significant first.
  The targets have 64-bit limbs and 128-bit double limbs.

  A loop over the first n limbs of an array is a recursion over the list of these limbs, from the low end or,
  where the index runs down, from the high end. The loops read the limbs of an index before they write the
  result at it, so an operation in place is the operation on the old values. Arrays that are accessed at several offsets
  are blocks, and an access outside a block is \<open>None\<close>.
\<close>

type_synonym limb = u64
type_synonym dlimb = "128 word"

definition FFT_MUL_THRESHOLD :: nat where "FFT_MUL_THRESHOLD = 100"
definition DIVNORM_LARGE_THRESHOLD :: nat where "DIVNORM_LARGE_THRESHOLD = 50"
definition UDIV1NORM_THRESHOLD :: nat where "UDIV1NORM_THRESHOLD = 3"

section \<open>Addition and subtraction\<close>

fun mp_add :: "limb list \<Rightarrow> limb list \<Rightarrow> limb \<Rightarrow> limb list \<times> limb" where
  "mp_add (v # op1) (b # op2) k =
     (let a = v + b;
          k1 = of_bool (a < v);
          a = a + k;
          k = of_bool (a < k) OR k1;
          (res, k) = mp_add op1 op2 k
      in (a # res, k))"
| "mp_add _ _ k = ([], k)"

fun mp_add_ui :: "limb list \<Rightarrow> limb \<Rightarrow> limb list \<times> limb" where
  "mp_add_ui [] k = ([], k)"
| "mp_add_ui (v # tab) k =
     (if k = 0 then (v # tab, k)
      else let a = v + k;
               (res, k) = mp_add_ui tab (of_bool (a < k))
           in (a # res, k))"

fun mp_sub :: "limb list \<Rightarrow> limb list \<Rightarrow> limb \<Rightarrow> limb list \<times> limb" where
  "mp_sub (v # op1) (b # op2) k =
     (let a = v - b;
          k1 = of_bool (a > v);
          v = a - k;
          k = of_bool (v > a) OR k1;
          (res, k) = mp_sub op1 op2 k
      in (v # res, k))"
| "mp_sub _ _ k = ([], k)"

fun mp_neg :: "limb list \<Rightarrow> limb \<Rightarrow> limb list \<times> limb" where
  "mp_neg [] k = ([], k)"
| "mp_neg (b # op2) k =
     (let v = 0;
          a = v - b;
          k1 = of_bool (a > v);
          v = a - k;
          k = of_bool (v > a) OR k1;
          (res, k) = mp_neg op2 k
      in (v # res, k))"

fun mp_sub_ui :: "limb list \<Rightarrow> limb \<Rightarrow> limb list \<times> limb" where
  "mp_sub_ui [] k = ([], k)"
| "mp_sub_ui (v # tab) k =
     (let a = v - k;
          k = of_bool (a > v)
      in if k = 0 then (a # tab, k)
         else let (res, k) = mp_sub_ui tab k in (a # res, k))"

text \<open>The loop of \<open>mp_shr\<close> runs from the high end; l is the limb above.\<close>

fun mp_shr_loop :: "limb list \<Rightarrow> nat \<Rightarrow> limb \<Rightarrow> limb list \<times> limb" where
  "mp_shr_loop [] shift high = ([], high)"
| "mp_shr_loop (a # tab) shift high =
     (let (res, l) = mp_shr_loop tab shift high
      in ((drop_bit shift a OR push_bit (64 - shift) l) # res, a))"

definition mp_shr :: "limb list \<Rightarrow> nat \<Rightarrow> limb \<Rightarrow> (limb list \<times> limb) option" where
  "mp_shr tab shift high = do {
     c_assert (1 \<le> shift \<and> shift < 64);
     let (res, l) = mp_shr_loop tab shift high;
     Some (res, l AND (push_bit shift 1 - 1))
   }"

definition mp_scan_nz :: "limb list \<Rightarrow> limb" where
  "mp_scan_nz tab = of_bool (\<exists>x\<in>set tab. x \<noteq> 0)"

section \<open>Multiplication\<close>

fun mp_mul1 :: "limb list \<Rightarrow> limb \<Rightarrow> limb \<Rightarrow> limb list \<times> limb" where
  "mp_mul1 [] b l = ([], l)"
| "mp_mul1 (a # taba) b l =
     (let t = (ucast a :: dlimb) * ucast b + ucast l;
          (res, l) = mp_mul1 taba b (ucast (drop_bit 64 t))
      in (ucast t # res, l))"

fun mp_add_mul1_loop :: "limb list \<Rightarrow> limb list \<Rightarrow> limb \<Rightarrow> limb \<Rightarrow> limb list \<times> limb" where
  "mp_add_mul1_loop (r # tabr) (a # taba) b l =
     (let t = (ucast a :: dlimb) * ucast b + ucast l + ucast r;
          (res, l) = mp_add_mul1_loop tabr taba b (ucast (drop_bit 64 t))
      in (ucast t # res, l))"
| "mp_add_mul1_loop _ _ b l = ([], l)"

definition mp_add_mul1 :: "limb list \<Rightarrow> limb list \<Rightarrow> limb \<Rightarrow> limb list \<times> limb" where
  "mp_add_mul1 tabr taba b = mp_add_mul1_loop tabr taba b 0"

fun mul_basecase_loop :: "limb list \<Rightarrow> limb list \<Rightarrow> nat \<Rightarrow> limb list \<Rightarrow> limb list option" where
  "mul_basecase_loop op1 [] i result = Some result"
| "mul_basecase_loop op1 (b # op2) i result = do {
     w \<leftarrow> rd_block result i (length op1);
     let (w, r) = mp_add_mul1 w op1 b;
     result \<leftarrow> wr_block result i w;
     result \<leftarrow> wr result (i + length op1) r;
     mul_basecase_loop op1 op2 (i + 1) result
   }"

definition mp_mul_basecase :: "limb list \<Rightarrow> limb list \<Rightarrow> limb list \<Rightarrow> limb list option" where
  "mp_mul_basecase result op1 op2 =
     (case op2 of
        [] \<Rightarrow> None
      | b # op2 \<Rightarrow> do {
          let (w, l) = mp_mul1 op1 b 0;
          result \<leftarrow> wr_block result 0 w;
          result \<leftarrow> wr result (length op1) l;
          mul_basecase_loop op1 op2 1 result
        })"

text \<open>\<open>mp_mul\<close>; \<open>fft_mul\<close> is the transform used for large factors. The first result is 0, or -1 without memory.\<close>

type_synonym fft_mul = "limb list \<Rightarrow> limb list \<Rightarrow> limb list \<Rightarrow> (int \<times> limb list) option"

definition mp_mul :: "fft_mul \<Rightarrow> limb list \<Rightarrow> limb list \<Rightarrow> limb list \<Rightarrow> (int \<times> limb list) option" where
  "mp_mul fft_mul result op1 op2 =
     (if min (length op1) (length op2) \<ge> FFT_MUL_THRESHOLD then fft_mul result op1 op2
      else do { result \<leftarrow> mp_mul_basecase result op1 op2; Some (0, result) })"

section \<open>Division\<close>

fun mp_sub_mul1_loop :: "limb list \<Rightarrow> limb list \<Rightarrow> limb \<Rightarrow> limb \<Rightarrow> limb list \<times> limb" where
  "mp_sub_mul1_loop (r # tabr) (a # taba) b l =
     (let t = (ucast r :: dlimb) - ucast a * ucast b - ucast l;
          (res, l) = mp_sub_mul1_loop tabr taba b (- ucast (drop_bit 64 t))
      in (ucast t # res, l))"
| "mp_sub_mul1_loop _ _ b l = ([], l)"

definition mp_sub_mul1 :: "limb list \<Rightarrow> limb list \<Rightarrow> limb \<Rightarrow> limb list \<times> limb" where
  "mp_sub_mul1 tabr taba b = mp_sub_mul1_loop tabr taba b 0"

definition udiv1norm_init :: "limb \<Rightarrow> limb" where
  "udiv1norm_init d =
     (let a1 = - d - 1;
          a0 = - 1 :: limb
      in ucast ((push_bit 64 (ucast a1 :: dlimb) OR ucast a0) div ucast d))"

definition udiv1norm :: "limb \<Rightarrow> limb \<Rightarrow> limb \<Rightarrow> limb \<Rightarrow> limb \<times> limb" where
  "udiv1norm a1 a0 d d_inv =
     (let n1m = signed_drop_bit 63 a0;
          n_adj = a0 + (n1m AND d);
          a = (ucast d_inv :: dlimb) * ucast (a1 - n1m) + ucast n_adj;
          q = ucast (drop_bit 64 a) + a1;
          a = push_bit 64 (ucast a1 :: dlimb) OR ucast a0;
          a = a - ucast q * ucast d - ucast d;
          ah = ucast (drop_bit 64 a);
          q = q + (1 + ah);
          r = ucast a + (ah AND d)
      in (q, r))"

text \<open>The two loops of \<open>mp_div1norm\<close>, from the high end; \<open>step\<close> divides the double limb \<open>r * 2^64 + a\<close>.\<close>

fun div1_loop :: "(limb \<Rightarrow> limb \<Rightarrow> limb \<times> limb) \<Rightarrow> limb list \<Rightarrow> limb \<Rightarrow> limb list \<times> limb" where
  "div1_loop step [] r = ([], r)"
| "div1_loop step (a # taba) r =
     (let (tabr, r) = div1_loop step taba r;
          (q, r) = step r a
      in (q # tabr, r))"

definition div_dlimb :: "limb \<Rightarrow> limb \<Rightarrow> limb \<Rightarrow> limb \<times> limb" where
  "div_dlimb b r a =
     (let a1 = push_bit 64 (ucast r :: dlimb) OR ucast a
      in (ucast (a1 div ucast b), ucast (a1 mod ucast b)))"

definition mp_div1norm :: "limb list \<Rightarrow> limb \<Rightarrow> limb \<Rightarrow> limb list \<times> limb" where
  "mp_div1norm taba b r =
     (if length taba \<ge> UDIV1NORM_THRESHOLD
      then let b_inv = udiv1norm_init b in div1_loop (\<lambda>r a. udiv1norm r a b b_inv) taba r
      else div1_loop (div_dlimb b) taba r)"

text \<open>The comparison of the first iteration of \<open>mp_divnorm\<close>, from the high end: 0 if the first number is smaller, else 1.\<close>

fun cmp_quotient :: "limb list \<Rightarrow> limb list \<Rightarrow> limb" where
  "cmp_quotient (a # as) (b # bs) = (if a \<noteq> b then (if a < b then 0 else 1) else cmp_quotient as bs)"
| "cmp_quotient _ _ = 1"

text \<open>The loop that corrects a quotient that was too large; it may not end, so the result is \<open>None\<close> then.\<close>

partial_function (option) add_back :: "limb list \<Rightarrow> limb \<Rightarrow> limb list \<Rightarrow> limb \<Rightarrow> (limb list \<times> limb \<times> limb) option" where
  "add_back w high tabb q =
     (let q = q - 1;
          (w, c) = mp_add w tabb 0
      in if c \<noteq> 0 then
           (if high + 1 = 0 then Some (w, high + 1, q) else add_back w (high + 1) tabb q)
         else add_back w high tabb q)"

definition divnorm_quotient :: "limb \<Rightarrow> limb \<Rightarrow> limb \<Rightarrow> limb \<Rightarrow> limb" where
  "divnorm_quotient b1 b1_inv ah al =
     (if ah \<ge> b1 then - 1
      else if b1_inv \<noteq> 0 then fst (udiv1norm ah al b1 b1_inv)
      else fst (div_dlimb b1 ah al))"

definition divnorm_step :: "limb list \<Rightarrow> limb \<Rightarrow> nat \<Rightarrow> limb list \<Rightarrow> (limb \<times> limb list) option" where
  "divnorm_step tabb b1_inv i taba = do {
     let nb = length tabb;
     b1 \<leftarrow> rd tabb (nb - 1);
     ah \<leftarrow> rd taba (i + nb);
     al \<leftarrow> rd taba (i + nb - 1);
     let q = divnorm_quotient b1 b1_inv ah al;
     w \<leftarrow> rd_block taba i nb;
     let (w, r) = mp_sub_mul1 w tabb q;
     let a = ah - r;
     (w, a, q) \<leftarrow> (if a > ah then add_back w a tabb q else Some (w, a, q));
     taba \<leftarrow> wr_block taba i w;
     taba \<leftarrow> wr taba (i + nb) a;
     Some (q, taba)
   }"

fun divnorm_loop :: "limb list \<Rightarrow> limb \<Rightarrow> nat \<Rightarrow> limb list \<Rightarrow> limb list \<Rightarrow> (limb list \<times> limb list) option" where
  "divnorm_loop tabb b1_inv 0 taba tabq = Some (tabq, taba)"
| "divnorm_loop tabb b1_inv (Suc i) taba tabq = do {
     (q, taba) \<leftarrow> divnorm_step tabb b1_inv i taba;
     divnorm_loop tabb b1_inv i taba (q # tabq)
   }"

text \<open>\<open>mp_divnorm_large\<close> is the subquadratic division for large operands. The results are 0 or -1, \<open>tabq\<close>, \<open>taba\<close>.\<close>

type_synonym divnorm_large = "limb list \<Rightarrow> limb list \<Rightarrow> (int \<times> limb list \<times> limb list) option"

definition mp_divnorm :: "divnorm_large \<Rightarrow> limb list \<Rightarrow> limb list \<Rightarrow> (int \<times> limb list \<times> limb list) option" where
  "mp_divnorm mp_divnorm_large taba tabb = do {
     let na = length taba;
     let nb = length tabb;
     b1 \<leftarrow> rd tabb (nb - 1);
     if nb = 1 then do {
       let (tabq, r) = mp_div1norm taba b1 0;
       taba \<leftarrow> wr taba 0 r;
       Some (0, tabq, taba)
     } else do {
       c_assert (nb \<le> na);
       let n = na - nb;
       if min n nb \<ge> DIVNORM_LARGE_THRESHOLD then mp_divnorm_large taba tabb
       else do {
         let b1_inv = (if n \<ge> UDIV1NORM_THRESHOLD then udiv1norm_init b1 else 0);
         w \<leftarrow> rd_block taba n nb;
         let q = cmp_quotient (rev w) (rev tabb);
         taba \<leftarrow> (if q \<noteq> 0 then wr_block taba n (fst (mp_sub w tabb 0)) else Some taba);
         (tabq, taba) \<leftarrow> divnorm_loop tabb b1_inv n taba [q];
         Some (0, tabq, taba)
       }
     }
   }"

end
