(* ===== verification/Mp_Value.thy ===== *)
theory Mp_Value
  imports Mp
begin

text \<open>The number an array of limbs stands for, and the additions, subtractions and multiplications on it.\<close>

fun lval :: "limb list \<Rightarrow> nat" where
  "lval [] = 0"
| "lval (x # xs) = unat x + 2 ^ 64 * lval xs"

abbreviation B :: nat where "B \<equiv> 2 ^ 64"

lemma unat_limb_less [simp]: "unat (x :: limb) < 2 ^ 64"
proof -
  have "unat x < 2 ^ LENGTH(64)" by (rule unsigned_less)
  then show ?thesis by simp
qed

lemma lval_less: "lval xs < B ^ length xs"
proof (induction xs)
  case (Cons x xs)
  have "lval xs + 1 \<le> B ^ length xs" using Cons by simp
  then have "B * (lval xs + 1) \<le> B * B ^ length xs" by (rule mult_le_mono2)
  then show ?case using unat_limb_less [of x] by simp
qed simp

lemma lval_append: "lval (xs @ ys) = lval xs + B ^ length xs * lval ys"
  by (induction xs) (simp_all add: algebra_simps)

lemma lval_replicate_0 [simp]: "lval (replicate n 0) = 0"
  by (induction n) simp_all

lemma unat_add: "unat (x + y :: limb) = (if unat x + unat y < B then unat x + unat y else unat x + unat y - B)"
  using unat_limb_less [of x] unat_limb_less [of y] by (simp add: unat_word_ariths mod_if)

lemma unat_sub: "unat (x - y :: limb) = (if unat y \<le> unat x then unat x - unat y else unat x + B - unat y)"
  using unat_limb_less [of x] unat_limb_less [of y] by (auto simp: unat_sub_if' word_size)

lemma or_of_bool: "(of_bool P :: limb) OR of_bool Q = of_bool (P \<or> Q)"
  by (cases P; cases Q) simp_all

lemma unat_of_bool [simp]: "unat (of_bool P :: limb) = of_bool P"
  by (cases P) simp_all

section \<open>Addition\<close>

lemma add_step:
  assumes "unat k \<le> 1"
  shows "unat (v + b + k) + B * unat (of_bool (v + b + k < k) OR of_bool (v + b < v) :: limb) = unat v + unat b + unat (k :: limb)"
  using assms unat_limb_less [of v] unat_limb_less [of b]
  by (auto simp: or_of_bool word_less_nat_alt unat_add of_bool_def)

lemma carry_le: "unat (of_bool P OR of_bool Q :: limb) \<le> 1"
  by (simp add: or_of_bool)

lemma mp_add_value:
  assumes "mp_add op1 op2 k = (res, k')" "length op1 = length op2" "unat k \<le> 1"
  shows "length res = length op1 \<and> unat k' \<le> 1 \<and> lval res + B ^ length op1 * unat k' = lval op1 + lval op2 + unat k"
  using assms
proof (induction op1 op2 k arbitrary: res k' rule: mp_add.induct)
  case (1 v op1 b op2 k)
  let ?k = "of_bool (v + b + k < k) OR of_bool (v + b < v) :: limb"
  obtain rs where r: "mp_add op1 op2 ?k = (rs, k')" "res = (v + b + k) # rs"
    using "1.prems"(1) by (auto simp: Let_def split: prod.splits)
  have IH: "length rs = length op1 \<and> unat k' \<le> 1 \<and> lval rs + B ^ length op1 * unat k' = lval op1 + lval op2 + unat ?k"
    using "1.IH" [OF refl refl refl refl r(1) _ carry_le] "1.prems"(2) by simp
  have "lval res + B ^ length (v # op1) * unat k' = unat (v + b + k) + B * (lval rs + B ^ length op1 * unat k')"
    using r(2) by (simp add: algebra_simps)
  also have "\<dots> = unat (v + b + k) + B * unat ?k + B * (lval op1 + lval op2)" using IH by (simp add: algebra_simps)
  also have "\<dots> = lval (v # op1) + lval (b # op2) + unat k"
    using add_step [OF "1.prems"(3), of v b] by (simp add: algebra_simps)
  finally show ?case using IH r(2) by simp
qed auto

lemma mp_add_ui_value:
  assumes "mp_add_ui tab k = (res, k')"
  shows "length res = length tab \<and> lval res + B ^ length tab * unat k' = lval tab + unat k"
  using assms
proof (induction tab k arbitrary: res k' rule: mp_add_ui.induct)
  case (2 v tab k)
  show ?case
  proof (cases "k = 0")
    case False
    obtain rs where r: "mp_add_ui tab (of_bool (v + k < k)) = (rs, k')" "res = (v + k) # rs"
      using "2.prems" False by (auto simp: Let_def split: prod.splits)
    have IH: "length rs = length tab \<and> lval rs + B ^ length tab * unat k' = lval tab + unat (of_bool (v + k < k) :: limb)"
      using "2.IH" [OF False refl r(1)] .
    have s: "unat (v + k) + B * unat (of_bool (v + k < k) :: limb) = unat v + unat k"
      using unat_limb_less [of v] unat_limb_less [of k] by (auto simp: word_less_nat_alt unat_add)
    have "lval res + B ^ length (v # tab) * unat k' = unat (v + k) + B * (lval rs + B ^ length tab * unat k')"
      using r(2) by (simp add: algebra_simps)
    also have "\<dots> = lval (v # tab) + unat k" using IH s by (simp add: algebra_simps)
    finally show ?thesis using IH r(2) by simp
  qed (use "2.prems" in simp)
qed simp

section \<open>Subtraction\<close>

lemma sub_step:
  assumes "unat k \<le> 1"
  shows "unat (v - b - k :: limb) + unat b + unat k = unat v + B * unat (of_bool (v - b - k > v - b) OR of_bool (v - b > v) :: limb)"
  using assms unat_limb_less [of v] unat_limb_less [of b]
  by (auto simp: or_of_bool word_less_nat_alt unat_sub of_bool_def)

lemma mp_sub_value:
  assumes "mp_sub op1 op2 k = (res, k')" "length op1 = length op2" "unat k \<le> 1"
  shows "length res = length op1 \<and> unat k' \<le> 1 \<and> lval res + lval op2 + unat k = lval op1 + B ^ length op1 * unat k'"
  using assms
proof (induction op1 op2 k arbitrary: res k' rule: mp_sub.induct)
  case (1 v op1 b op2 k)
  let ?k = "of_bool (v - b - k > v - b) OR of_bool (v - b > v) :: limb"
  obtain rs where r: "mp_sub op1 op2 ?k = (rs, k')" "res = (v - b - k) # rs"
    using "1.prems"(1) by (auto simp: Let_def split: prod.splits)
  have IH: "length rs = length op1 \<and> unat k' \<le> 1 \<and> lval rs + lval op2 + unat ?k = lval op1 + B ^ length op1 * unat k'"
    using "1.IH" [OF refl refl refl refl r(1) _ carry_le] "1.prems"(2) by simp
  have "lval res + lval (b # op2) + unat k = (unat (v - b - k) + unat b + unat k) + B * (lval rs + lval op2)"
    using r(2) by (simp add: algebra_simps)
  also have "\<dots> = unat v + B * (lval rs + lval op2 + unat ?k)" using sub_step [OF "1.prems"(3), of v b] by (simp add: algebra_simps)
  also have "\<dots> = lval (v # op1) + B ^ length (v # op1) * unat k'" using IH by (simp add: algebra_simps)
  finally show ?case using IH r(2) by simp
qed auto

lemma mp_neg_sub: "mp_neg op2 k = mp_sub (replicate (length op2) 0) op2 k"
  by (induction op2 k rule: mp_neg.induct) (simp_all add: Let_def)

lemma mp_sub_ui_value:
  assumes "mp_sub_ui tab k = (res, k')"
  shows "length res = length tab \<and> lval res + unat k = lval tab + B ^ length tab * unat k'"
  using assms
proof (induction tab k arbitrary: res k' rule: mp_sub_ui.induct)
  case (2 v tab k)
  let ?k = "of_bool (v - k > v) :: limb"
  have s: "unat (v - k) + unat k = unat v + B * unat ?k"
    using unat_limb_less [of v] unat_limb_less [of k] by (auto simp: word_less_nat_alt unat_sub)
  show ?case
  proof (cases "?k = 0")
    case True
    with "2.prems" s show ?thesis by (auto simp: Let_def)
  next
    case False
    obtain rs where r: "mp_sub_ui tab ?k = (rs, k')" "res = (v - k) # rs"
      using "2.prems" False by (auto simp: Let_def split: prod.splits if_splits)
    have IH: "length rs = length tab \<and> lval rs + unat ?k = lval tab + B ^ length tab * unat k'"
      using "2.IH" [OF refl refl False r(1)] .
    have "lval res + unat k = unat v + B * (lval rs + unat ?k)" using r(2) s by (simp add: algebra_simps)
    also have "\<dots> = lval (v # tab) + B ^ length (v # tab) * unat k'" using IH by (simp add: algebra_simps)
    finally show ?thesis using IH r(2) by simp
  qed
qed simp

end
