(* ===== verification/Mp_Mul.thy ===== *)
theory Mp_Mul
  imports Mp_Value
begin

text \<open>
  The products of libbf.c: the double limbs of a step, the products of a number and a limb and the schoolbook
  multiplication.
\<close>

section \<open>Double limbs\<close>

lemma unat_ucast_dlimb [simp]: "unat (ucast (x :: limb) :: dlimb) = unat x"
  using unat_limb_less [of x] by (simp add: unsigned_ucast_eq take_bit_nat_eq_self)

lemma unat_lo: "unat (ucast (t :: dlimb) :: limb) = unat t mod B"
  by (simp add: unsigned_ucast_eq take_bit_eq_mod)

lemma unat_dlimb_less: "unat (t :: dlimb) < 2 ^ 128"
proof -
  have "unat t < 2 ^ LENGTH(128)" by (rule unsigned_less)
  then show ?thesis by simp
qed

lemma unat_hi: "unat (ucast (drop_bit 64 (t :: dlimb)) :: limb) = unat t div B"
proof -
  have "unat t div B < B" using unat_dlimb_less [of t] by (simp add: less_mult_imp_div_less)
  moreover have "unat (drop_bit 64 t) = unat t div B" by (subst unat_drop_bit_eq) (rule drop_bit_eq_div)
  ultimately show ?thesis by (simp only: unat_lo mod_less)
qed

lemma lo_hi: "unat (ucast t :: limb) + B * unat (ucast (drop_bit 64 t) :: limb) = unat (t :: dlimb)"
  by (subst unat_hi, subst unat_lo) (rule mod_mult_div_eq)

lemma limb_mult_le: "unat (a :: limb) * unat (b :: limb) \<le> (B - 1) * (B - 1)"
  using unat_limb_less [of a] unat_limb_less [of b] by (intro mult_le_mono) linarith+

lemma unat_mul_add: "unat ((ucast a :: dlimb) * ucast b + ucast l + ucast r) = unat (a :: limb) * unat (b :: limb) + unat (l :: limb) + unat (r :: limb)"
  using limb_mult_le [of a b] unat_limb_less [of l] unat_limb_less [of r]
  by (simp add: unat_word_ariths mod_less)

section \<open>Product of a number and a limb\<close>

lemma mp_add_mul1_loop_value:
  assumes "mp_add_mul1_loop tabr taba b l = (res, l')" "length tabr = length taba"
  shows "length res = length taba \<and> lval res + B ^ length taba * unat l' = lval tabr + lval taba * unat b + unat l"
  using assms
proof (induction tabr taba b l arbitrary: res l' rule: mp_add_mul1_loop.induct)
  case (1 r tabr a taba b l)
  let ?t = "(ucast a :: dlimb) * ucast b + ucast l + ucast r"
  obtain rs where rs: "mp_add_mul1_loop tabr taba b (ucast (drop_bit 64 ?t)) = (rs, l')" "res = ucast ?t # rs"
    using "1.prems"(1) by (auto simp: Let_def split: prod.splits)
  have IH: "length rs = length taba \<and> lval rs + B ^ length taba * unat l' =
      lval tabr + lval taba * unat b + unat (ucast (drop_bit 64 ?t) :: limb)"
    using "1.IH" [OF refl rs(1)] "1.prems"(2) by simp
  have "lval res + B ^ length (a # taba) * unat l' = unat (ucast ?t :: limb) + B * (lval rs + B ^ length taba * unat l')"
    using rs(2) by (simp add: algebra_simps)
  also have "\<dots> = unat ?t + B * (lval tabr + lval taba * unat b)" using IH lo_hi [of ?t] by (simp add: algebra_simps)
  also have "\<dots> = lval (r # tabr) + lval (a # taba) * unat b + unat l" by (simp only: unat_mul_add lval.simps) (simp add: algebra_simps)
  finally show ?case using IH rs(2) by simp
qed auto

lemma mp_mul1_add_mul1: "mp_mul1 taba b l = mp_add_mul1_loop (replicate (length taba) 0) taba b l"
  by (induction taba b l rule: mp_mul1.induct) (simp_all add: Let_def)

lemma mp_mul1_value:
  assumes "mp_mul1 taba b l = (res, l')"
  shows "length res = length taba \<and> lval res + B ^ length taba * unat l' = lval taba * unat b + unat l"
  using mp_add_mul1_loop_value [of "replicate (length taba) 0" taba b l res l'] assms by (simp add: mp_mul1_add_mul1)

lemma sub_mul_step:
  fixes r a b l :: limb
  defines "t \<equiv> (ucast r :: dlimb) - ucast a * ucast b - ucast l"
  shows "unat (ucast t :: limb) + unat a * unat b + unat l = unat r + B * unat (- ucast (drop_bit 64 t) :: limb)"
proof -
  let ?m = "unat a * unat b + unat l"
  have m: "?m \<le> B * (B - 1)" using limb_mult_le [of a b] unat_limb_less [of l] by simp
  have "t = ucast r - (ucast a * ucast b + ucast l)" unfolding t_def by (simp add: algebra_simps)
  moreover have "unat ((ucast a :: dlimb) * ucast b + ucast l) = ?m" using unat_mul_add [of a b l 0] by simp
  ultimately have t: "unat t = (if ?m \<le> unat r then unat r - ?m else unat r + 2 ^ 128 - ?m)"
    using m unat_limb_less [of r] by (auto simp: unat_sub_if' word_size)
  have n: "unat (- x :: limb) = (if x = 0 then 0 else B - unat x)" for x using unat_sub [of 0 x] by (simp add: word_unat_eq_iff)
  let ?h = "ucast (drop_bit 64 t) :: limb"
  show ?thesis
  proof (cases "?m \<le> unat r")
    case True
    then have "?h = 0" using t unat_limb_less [of r] by (simp add: unat_hi word_unat_eq_iff)
    then show ?thesis using lo_hi [of t] t True by simp
  next
    case False
    have "unat t \<ge> B" using t False m by simp
    then have "unat ?h \<noteq> 0" unfolding unat_hi by (simp add: div_eq_0_iff)
    then have "unat (- ?h) + unat ?h = B" using unat_limb_less [of ?h] by (auto simp: n word_unat_eq_iff)
    then have "B * unat (- ?h) + B * unat ?h = B * B" by (metis distrib_left)
    then show ?thesis using lo_hi [of t] t False m by simp
  qed
qed

lemma mp_sub_mul1_loop_value:
  assumes "mp_sub_mul1_loop tabr taba b l = (res, l')" "length tabr = length taba"
  shows "length res = length taba \<and> lval res + lval taba * unat b + unat l = lval tabr + B ^ length taba * unat l'"
  using assms
proof (induction tabr taba b l arbitrary: res l' rule: mp_sub_mul1_loop.induct)
  case (1 r tabr a taba b l)
  let ?t = "(ucast r :: dlimb) - ucast a * ucast b - ucast l"
  let ?l = "- ucast (drop_bit 64 ?t) :: limb"
  obtain rs where rs: "mp_sub_mul1_loop tabr taba b ?l = (rs, l')" "res = ucast ?t # rs"
    using "1.prems"(1) by (auto simp: Let_def split: prod.splits)
  have IH: "length rs = length taba \<and> lval rs + lval taba * unat b + unat ?l = lval tabr + B ^ length taba * unat l'"
    using "1.IH" [OF refl rs(1)] "1.prems"(2) by simp
  have "lval res + lval (a # taba) * unat b + unat l = (unat (ucast ?t :: limb) + unat a * unat b + unat l) + B * (lval rs + lval taba * unat b)"
    using rs(2) by (simp add: algebra_simps)
  also have "\<dots> = unat r + B * (lval rs + lval taba * unat b + unat ?l)" using sub_mul_step [of r a b l] by (simp add: algebra_simps)
  also have "\<dots> = lval (r # tabr) + B ^ length (a # taba) * unat l'" using IH by (simp add: algebra_simps)
  finally show ?case using IH rs(2) by simp
qed auto

section \<open>Schoolbook multiplication\<close>

lemma wr_block_append_mid:
  "off = length xs \<Longrightarrow> length d = length ys \<Longrightarrow> wr_block (xs @ ys @ zs) off d = Some (xs @ d @ zs)"
  by (simp add: wr_block_def)

lemma split_block:
  assumes "i + n < length m"
  obtains xs w y ys where "m = xs @ w @ y # ys" "length xs = i" "length w = n"
proof -
  have "m = take i m @ take n (drop i m) @ drop (i + n) m" by (metis append_take_drop_id drop_drop add.commute)
  moreover have "drop (i + n) m = m ! (i + n) # drop (Suc (i + n)) m" using assms by (simp add: Cons_nth_drop_Suc)
  ultimately show thesis using assms that [of "take i m" "take n (drop i m)" "m ! (i + n)" "drop (Suc (i + n)) m"] by simp
qed

lemma wr_append_mid: "off = length xs \<Longrightarrow> wr (xs @ y # ys) off v = Some (xs @ v # ys)"
  by (simp add: wr_def)

lemma mul_basecase_loop_value:
  assumes "i + length op1 + length op2 \<le> length result"
  shows "\<exists>res. mul_basecase_loop op1 op2 i result = Some res \<and> length res = length result \<and>
    drop (i + length op1 + length op2) res = drop (i + length op1 + length op2) result \<and>
    lval (take (i + length op1 + length op2) res) = lval (take (i + length op1) result) + B ^ i * (lval op1 * lval op2)"
  using assms
proof (induction op2 arbitrary: i result)
  case (Cons b op2)
  have "i + length op1 < length result" using Cons.prems by simp
  then obtain xs w y ys where m: "result = xs @ w @ y # ys" "length xs = i" "length w = length op1" by (rule split_block)
  obtain w' r where w': "mp_add_mul1 w op1 b = (w', r)" by fastforce
  have v: "length w' = length op1" "lval w' + B ^ length op1 * unat r = lval w + lval op1 * unat b"
    using mp_add_mul1_loop_value [of w op1 b 0 w' r] w' m(3) by (simp_all add: mp_add_mul1_def)
  let ?result = "xs @ w' @ r # ys"
  have step: "mul_basecase_loop op1 (b # op2) i result = mul_basecase_loop op1 op2 (i + 1) ?result"
    using m v(1) w' rd_block_append_mid [of i xs "length op1" w "y # ys"] wr_block_append_mid [of i xs w' w "y # ys"]
      wr_append_mid [of "i + length op1" "xs @ w'" y ys r]
    by simp
  have "i + 1 + length op1 + length op2 \<le> length ?result" using Cons.prems m v(1) by simp
  then obtain res where res: "mul_basecase_loop op1 op2 (i + 1) ?result = Some res" "length res = length ?result"
      "drop (i + 1 + length op1 + length op2) res = drop (i + 1 + length op1 + length op2) ?result"
      "lval (take (i + 1 + length op1 + length op2) res) = lval (take (i + 1 + length op1) ?result) + B ^ (i + 1) * (lval op1 * lval op2)"
    using Cons.IH by blast
  have "lval (take (i + 1 + length op1) ?result) = lval xs + B ^ i * (lval w' + B ^ length op1 * unat r)"
    using m v(1) by (simp add: lval_append algebra_simps power_add)
  also have "\<dots> = lval (take (i + length op1) result) + B ^ i * (lval op1 * unat b)"
    using m v by (simp add: lval_append algebra_simps)
  finally have "lval (take (i + 1 + length op1 + length op2) res) = lval (take (i + length op1) result) + B ^ i * (lval op1 * lval (b # op2))"
    using res(4) by (simp add: algebra_simps)
  then show ?case using res step m v(1) by simp
qed simp

lemma mp_mul_basecase_value:
  assumes "length op1 + length op2 \<le> length result" "op2 \<noteq> []"
  shows "\<exists>res. mp_mul_basecase result op1 op2 = Some res \<and> length res = length result \<and>
    drop (length op1 + length op2) res = drop (length op1 + length op2) result \<and>
    lval (take (length op1 + length op2) res) = lval op1 * lval op2"
proof -
  obtain b bs where op2: "op2 = b # bs" using assms(2) by (cases op2) auto
  have "0 + length op1 < length result" using assms(1) op2 by simp
  then obtain xs w y ys where m: "result = xs @ w @ y # ys" "length xs = 0" "length w = length op1" by (rule split_block)
  obtain w' l where w': "mp_mul1 op1 b 0 = (w', l)" by fastforce
  have v: "length w' = length op1" "lval w' + B ^ length op1 * unat l = lval op1 * unat b"
    using mp_mul1_value [OF w'] by simp_all
  have step: "mp_mul_basecase result op1 op2 = mul_basecase_loop op1 bs 1 (w' @ l # ys)"
    using m v(1) w' op2 rd_block_append_mid [of 0 "[]" "length op1" w "y # ys"] wr_block_append_mid [of 0 "[]" w' w "y # ys"]
      wr_append_mid [of "length op1" w' y ys l]
    by (simp add: mp_mul_basecase_def)
  have "1 + length op1 + length bs \<le> length (w' @ l # ys)" using assms m v(1) op2 by simp
  then obtain res where res: "mul_basecase_loop op1 bs 1 (w' @ l # ys) = Some res" "length res = length (w' @ l # ys)"
      "drop (1 + length op1 + length bs) res = drop (1 + length op1 + length bs) (w' @ l # ys)"
      "lval (take (1 + length op1 + length bs) res) = lval (take (1 + length op1) (w' @ l # ys)) + B ^ 1 * (lval op1 * lval bs)"
    using mul_basecase_loop_value by blast
  have "lval (take (1 + length op1) (w' @ l # ys)) = lval op1 * unat b" using v by (simp add: lval_append)
  then have "lval (take (1 + length op1 + length bs) res) = lval op1 * lval op2"
    using res(4) op2 by (simp add: algebra_simps)
  then show ?thesis using res step op2 m v(1) by simp
qed

text \<open>C33:
  For factors of which one has fewer limbs than \<open>FFT_MUL_THRESHOLD\<close>, \<open>mp_mul\<close> succeeds, stays inside
  the buffer of the result, changes nothing behind the \<open>op1_size + op2_size\<close> limbs of the product, and these limbs are the
  product of the two numbers, whatever they held before.
\<close>

theorem mp_mul_product:
  assumes "op2 \<noteq> []" "min (length op1) (length op2) < FFT_MUL_THRESHOLD"
    and "length op1 + length op2 \<le> length result"
  shows "\<exists>res. mp_mul fft_mul result op1 op2 = Some (0, res) \<and> length res = length result \<and>
    drop (length op1 + length op2) res = drop (length op1 + length op2) result \<and>
    lval (take (length op1 + length op2) res) = lval op1 * lval op2"
  using mp_mul_basecase_value [OF assms(3,1)] assms(2) by (auto simp: mp_mul_def)

theorem mp_mul_product_witness:
  "\<exists>res. mp_mul (\<lambda>_ _ _. None) [9, 9, 9, 7] [5, 2 ^ 63] [6] = Some (0, res) \<and> length res = Suc 3 \<and> drop 3 res = [7] \<and>
    lval (take 3 res) = (5 + 2 ^ 64 * 2 ^ 63) * 6"
  using mp_mul_product [of "[6]" "[5, 2 ^ 63]" "[9, 9, 9, 7]" "\<lambda>_ _ _. None"]
  by (simp add: FFT_MUL_THRESHOLD_def numeral_3_eq_3)

end
