(* ===== verification/Mp_Div1.thy ===== *)
theory Mp_Div1
  imports Mp_Mul
begin

text \<open>
  Division by one limb in libbf.c: the quotient of a double limb computed with a product by the inverse of the
  divisor, and the division of a number by a limb.
\<close>

section \<open>The estimate of the quotient\<close>

text \<open>
  d is normalised, \<open>v\<close> is its inverse and the dividend is \<open>n = a1 * b + a0\<close> for the base b. The estimate
  is at most the quotient and the next but one multiple of d is above the dividend.
\<close>

lemma estimate_bounds:
  fixes b :: int
  assumes b: "0 < b" and x: "b * q \<le> x" "x < b * q + b" and d: "0 < d"
    and lo: "d * x \<le> b * n" and hi: "b * n \<le> d * x + b * d"
  shows "q * d \<le> n \<and> n < (q + 2) * d"
proof
  have "b * (q * d) \<le> d * x" using mult_left_mono [OF x(1), of d] d by (simp add: algebra_simps)
  with lo have "b * (q * d) \<le> b * n" by linarith
  then show "q * d \<le> n" using b by simp
  have "d * x < b * (q * d + d)" using mult_strict_left_mono [OF x(2) d] by (simp add: algebra_simps)
  with hi have "b * n < b * ((q + 2) * d)" by (simp add: algebra_simps)
  with b show "n < (q + 2) * d" by (simp only: mult_less_cancel_left_pos)
qed

lemma div_shift: "0 < b \<Longrightarrow> x = y + c * b \<Longrightarrow> y div b + c = x div b" for b :: int
  by simp

lemma estimate_low:
  fixes b :: int
  assumes inv: "d * (v + b) = b * b - 1 - e" "0 \<le> e" "e < d"
    and d: "d < b" "b \<le> 2 * d" and a: "0 \<le> a1" "a1 < d" "0 \<le> a0" "2 * a0 < b"
    and q: "q = (v * a1 + a0) div b + a1"
  shows "q * d \<le> a1 * b + a0 \<and> a1 * b + a0 < (q + 2) * d"
proof (rule estimate_bounds [where b = b and x = "(v + b) * a1 + a0"])
  let ?x = "(v + b) * a1 + a0"
  have b: "0 < b" "0 < d" using d a by linarith+
  then show "0 < b" "0 < d" by simp_all
  have "?x = (v * a1 + a0) + a1 * b" by (simp add: algebra_simps)
  then have q': "q = ?x div b" unfolding q by (rule div_shift [OF b(1)])
  show "b * q \<le> ?x" "?x < b * q + b"
    using b mod_pos_pos_trivial pos_mod_bound [OF b(1), of ?x] pos_mod_sign [OF b(1), of ?x] mult_div_mod_eq [of b ?x] unfolding q' by linarith+
  have x: "d * ?x = b * b * a1 - (1 + e) * a1 + d * a0"
    using arg_cong [OF inv(1), of "\<lambda>t. t * a1"] by (simp add: algebra_simps)
  have "0 \<le> (b - d) * a0" "0 \<le> (1 + e) * a1" using d a inv by simp_all
  then show "d * ?x \<le> b * (a1 * b + a0)" unfolding x by (simp add: algebra_simps)
  have "(1 + e) * a1 \<le> d * d" using inv a by (intro mult_mono) linarith+
  moreover have "(b - d) * a0 \<le> (b - d) * d" using d a by (intro mult_left_mono) linarith+
  ultimately show "b * (a1 * b + a0) \<le> d * ?x + b * d" unfolding x by (simp add: algebra_simps)
qed

lemma estimate_high:
  fixes b :: int
  assumes inv: "d * (v + b) = b * b - 1 - e" "0 \<le> e" "e < d"
    and d: "d < b" "b \<le> 2 * d" and a: "0 \<le> a1" "a1 < d" "b \<le> 2 * a0" "a0 < b"
    and q: "q = (v * (a1 + 1) + (a0 + d - b)) div b + a1"
  shows "q * d \<le> a1 * b + a0 \<and> a1 * b + a0 < (q + 2) * d"
proof (rule estimate_bounds [where b = b and x = "(v + b) * (a1 + 1) + a0 + d - 2 * b"])
  let ?x = "(v + b) * (a1 + 1) + a0 + d - 2 * b"
  have b: "0 < b" "0 < d" using d a by linarith+
  then show "0 < b" "0 < d" by simp_all
  have "?x = (v * (a1 + 1) + (a0 + d - b)) + a1 * b" by (simp add: algebra_simps)
  then have q': "q = ?x div b" unfolding q by (rule div_shift [OF b(1)])
  show "b * q \<le> ?x" "?x < b * q + b"
    using b mod_pos_pos_trivial pos_mod_bound [OF b(1), of ?x] pos_mod_sign [OF b(1), of ?x] mult_div_mod_eq [of b ?x] unfolding q' by linarith+
  have x: "d * ?x = b * b * (a1 + 1) - (1 + e) * (a1 + 1) + d * a0 + d * d - 2 * (b * d)"
    using arg_cong [OF inv(1), of "\<lambda>t. t * (a1 + 1)"] by (simp add: algebra_simps)
  have "0 \<le> (b - d) * (a0 - (b - d))" "0 \<le> (1 + e) * (a1 + 1)" using d a inv by simp_all
  then show "d * ?x \<le> b * (a1 * b + a0)" unfolding x by (simp add: algebra_simps)
  have "(1 + e) * (a1 + 1) \<le> d * d" using inv a by (intro mult_mono) linarith+
  moreover have "(b - d) * (a0 - (b - d)) \<le> (b - d) * d" using d a by (intro mult_left_mono) linarith+
  ultimately show "b * (a1 * b + a0) \<le> d * ?x + b * d" unfolding x by (simp add: algebra_simps)
qed

section \<open>Double limbs\<close>

lemma unat_join: "unat (push_bit 64 (ucast h :: dlimb) OR ucast l) = B * unat (h :: limb) + unat (l :: limb)"
proof -
  let ?h = "push_bit 64 (ucast h :: dlimb)"
  have "?h AND ucast l = 0"
    by (rule bit_word_eqI) (auto simp: bit_simps dest: bit_imp_le_length)
  then have "?h OR ucast l = ?h + ucast l" using word_plus_and_or [of ?h "ucast l"] by simp
  moreover have h: "unat ?h = B * unat h"
    using unat_limb_less [of h] by (simp add: push_bit_eq_mult unat_word_ariths mod_less)
  ultimately show ?thesis using unat_limb_less [of h] unat_limb_less [of l] by (simp add: unat_word_ariths mod_less)
qed

lemma unat_minus: "unat (- x :: limb) = (if x = 0 then 0 else B - unat x)"
  using unat_sub [of 0 x] by (simp add: word_unat_eq_iff)

lemma unat_minus_1 [simp]: "unat (- 1 :: limb) = B - 1"
  by (simp add: unat_minus)

section \<open>The inverse of a limb\<close>

lemma udiv1norm_init_value:
  assumes "B \<le> 2 * unat d"
  obtains e where "int (unat d) * (int (unat (udiv1norm_init d)) + int B) = int B * int B - 1 - e" "0 \<le> e" "e < int (unat d)"
proof -
  let ?D = "unat d"
  have D: "0 < ?D" "?D < B" using assms unat_limb_less [of d] by simp_all
  have a1: "unat (- d - 1) = B - ?D - 1" using D by (simp add: unat_sub unat_minus word_unat_eq_iff)
  have n: "unat (push_bit 64 (ucast (- d - 1) :: dlimb) OR ucast (- 1 :: limb)) = B * B - 1 - B * ?D"
    using D unfolding unat_join a1 by (simp add: algebra_simps)
  have nq: "unat (push_bit 64 (ucast (- d - 1) :: dlimb) OR ucast (- 1 :: limb)) div ?D < B"
    unfolding n using assms D by (intro less_mult_imp_div_less) simp
  have q: "unat (udiv1norm_init d) = (B * B - 1 - B * ?D) div ?D"
    unfolding udiv1norm_init_def Let_def unat_lo unat_div unat_ucast_dlimb using nq n by (simp only: mod_less)
  have "?D * ((B * B - 1 - B * ?D) div ?D) + (B * B - 1 - B * ?D) mod ?D = B * B - 1 - B * ?D" by simp
  moreover have "B * ?D \<le> B * B - 1" using D(2) by simp
  ultimately have "?D * (unat (udiv1norm_init d) + B) + (B * B - 1 - B * ?D) mod ?D + 1 = B * B"
    unfolding q by (simp only: distrib_left) simp
  from arg_cong [OF this, of int]
  have "int ?D * (int (unat (udiv1norm_init d)) + int B) + int ((B * B - 1 - B * ?D) mod ?D) + 1 = int B * int B"
    by (simp only: of_nat_add of_nat_mult of_nat_1)
  then have eq: "int ?D * (int (unat (udiv1norm_init d)) + int B) = int B * int B - 1 - int ((B * B - 1 - B * ?D) mod ?D)"
    by linarith
  have m: "(B * B - 1 - B * ?D) mod ?D < ?D" using D(1) by (rule mod_less_divisor)
  show thesis by (rule that [OF eq]) (use m in linarith)+
qed

section \<open>Division of a double limb\<close>

lemma sar_63: "signed_drop_bit 63 (x :: limb) = (if B \<le> 2 * unat x then - 1 else 0)"
proof (rule bit_word_eqI)
  fix n assume "n < LENGTH(64)"
  moreover have "bit x 63 \<longleftrightarrow> B \<le> 2 * unat x"
  proof -
    have "bit x 63 \<longleftrightarrow> odd (unat x div 2 ^ 63)"
      by (metis bit_iff_odd bit_unsigned_iff possible_bit_nat)
    also have "unat x div 2 ^ 63 < 2" using unat_limb_less [of x] by (intro less_mult_imp_div_less) simp
    then have "odd (unat x div 2 ^ 63) \<longleftrightarrow> unat x div 2 ^ 63 = 1" by (auto simp: less_2_cases_iff)
    also have "\<dots> \<longleftrightarrow> 2 ^ 63 \<le> unat x" using unat_limb_less [of x] by (simp add: div_nat_eqI) linarith
    finally show ?thesis by simp
  qed
  ultimately show "bit (signed_drop_bit 63 x) n = bit (if B \<le> 2 * unat x then - 1 else 0 :: limb) n"
    by (cases n) (auto simp: bit_signed_drop_bit_iff)
qed

lemma estimate_nat:
  assumes "int q * int d \<le> int a1 * int b + int a0 \<and> int a1 * int b + int a0 < (int q + 2) * int d"
  shows "q * d \<le> b * a1 + a0 \<and> b * a1 + a0 < (q + 2) * d"
proof -
  have "int (q * d) \<le> int (b * a1 + a0) \<and> int (b * a1 + a0) < int ((q + 2) * d)"
    using assms by (simp only: of_nat_mult of_nat_add of_nat_numeral mult.commute)
  then show ?thesis by (simp only: of_nat_le_iff of_nat_less_iff)
qed

lemma estimate_word:
  fixes d a1 a0 :: limb
  assumes d: "B \<le> 2 * unat d" and a1: "unat a1 < unat d"
  defines "n1m \<equiv> signed_drop_bit 63 a0"
  defines "a \<equiv> (ucast (udiv1norm_init d) :: dlimb) * ucast (a1 - n1m) + ucast (a0 + (n1m AND d))"
  shows "(unat a div B + unat a1) * unat d \<le> B * unat a1 + unat a0 \<and>
    B * unat a1 + unat a0 < (unat a div B + unat a1 + 2) * unat d"
proof -
  let ?V = "unat (udiv1norm_init d)"
  obtain e where e: "int (unat d) * (int ?V + int B) = int B * int B - 1 - e" "0 \<le> e" "e < int (unat d)"
    using udiv1norm_init_value [OF d] .
  have a: "unat a = ?V * unat (a1 - n1m) + unat (a0 + (n1m AND d))"
    using unat_mul_add [of "udiv1norm_init d" "a1 - n1m" "a0 + (n1m AND d)" 0] unfolding a_def by simp
  have db: "int (unat d) < int B" "int B \<le> 2 * int (unat d)" using unat_limb_less [of d] d by linarith+
  let ?q = "unat a div B + unat a1"
  have q: "int ?q = int (unat a) div int B + int (unat a1)" by (simp only: of_nat_add zdiv_int)
  have a1': "0 \<le> int (unat a1)" "int (unat a1) < int (unat d)" using a1 by linarith+
  show ?thesis
  proof (cases "B \<le> 2 * unat a0")
    case True
    then have n: "unat (a1 - n1m) = unat a1 + 1" "unat (a0 + (n1m AND d)) = unat a0 + unat d - B"
      using d a1 unat_limb_less [of d] unat_limb_less [of a0] by (simp_all add: n1m_def sar_63 unat_add unat_sub)
    have "int (unat a) = int ?V * (int (unat a1) + 1) + (int (unat a0) + int (unat d) - int B)"
      using True d unfolding a n by (simp add: of_nat_diff algebra_simps)
    then have "int ?q = (int ?V * (int (unat a1) + 1) + (int (unat a0) + int (unat d) - int B)) div int B + int (unat a1)"
      unfolding q by (rule arg_cong)
    moreover have "int B \<le> 2 * int (unat a0)" "int (unat a0) < int B" using True unat_limb_less [of a0] by linarith+
    ultimately show ?thesis by (intro estimate_nat estimate_high [OF e db a1'])
  next
    case False
    then have n: "unat (a1 - n1m) = unat a1" "unat (a0 + (n1m AND d)) = unat a0"
      by (simp_all add: n1m_def sar_63)
    have "int (unat a) = int ?V * int (unat a1) + int (unat a0)" unfolding a n by simp
    then have "int ?q = (int ?V * int (unat a1) + int (unat a0)) div int B + int (unat a1)"
      unfolding q by (rule arg_cong)
    moreover have "0 \<le> int (unat a0)" "2 * int (unat a0) < int B" using False by linarith+
    ultimately show ?thesis by (intro estimate_nat estimate_low [OF e db a1'])
  qed
qed

text \<open>The correction of the estimate, by the sign of the remainder.\<close>

lemma correct_estimate:
  fixes d a1 a0 q :: limb
  defines "n \<equiv> B * unat a1 + unat a0"
  defines "t \<equiv> (push_bit 64 (ucast a1 :: dlimb) OR ucast a0) - ucast q * ucast d - ucast d"
  defines "ah \<equiv> ucast (drop_bit 64 t) :: limb"
  assumes a1: "unat a1 < unat d" and q: "unat q * unat d \<le> n" "n < (unat q + 2) * unat d"
  shows "n = unat (q + (1 + ah)) * unat d + unat (ucast t + (ah AND d)) \<and> unat (ucast t + (ah AND d)) < unat d"
proof -
  let ?m = "unat q * unat d + unat d"
  have d: "unat d < B" by (rule unat_limb_less)
  have m: "unat ((ucast q :: dlimb) * ucast d + ucast d) = ?m" using unat_mul_add [of q d d 0] by simp
  have t: "unat t = (if ?m \<le> n then n - ?m else n + 2 ^ 128 - ?m)"
  proof -
    have "t = (push_bit 64 (ucast a1 :: dlimb) OR ucast a0) - (ucast q * ucast d + ucast d)"
      unfolding t_def by (simp add: algebra_simps)
    then show ?thesis using unat_sub_if' [of "push_bit 64 (ucast a1 :: dlimb) OR ucast a0" "ucast q * ucast d + ucast d"]
      by (simp add: m unat_join n_def)
  qed
  have hi: "unat ah = unat t div B" unfolding ah_def by (rule unat_hi)
  show ?thesis
  proof (cases "?m \<le> n")
    case True
    have lo: "unat t = n - ?m" "n - ?m < unat d" using t True q(2) by (simp_all add: algebra_simps)
    then have ah: "ah = 0" using hi d by (simp add: word_unat_eq_iff)
    have "(unat q + 1) * unat d < B * unat d"
    proof -
      have "B * unat a1 + unat a0 < B * (unat a1 + 1)" using unat_limb_less [of a0] by simp
      also have "\<dots> \<le> B * unat d" using a1 by (intro mult_le_mono2) simp
      finally show ?thesis using True unfolding n_def distrib_right mult_1 by linarith
    qed
    then have "unat q + 1 < B" by (simp only: mult_less_cancel2)
    then have "unat (q + 1) = unat q + 1" by (simp add: unat_add)
    moreover have "unat (ucast t :: limb) = n - ?m" using lo d by (subst unat_lo) simp
    ultimately show ?thesis using True lo ah by (simp add: algebra_simps)
  next
    case False
    then have mn: "?m - n \<le> unat d" "?m - n \<noteq> 0" "n < ?m" using q(1) by simp_all
    have lo: "unat t = B * (B - 1) + (B - (?m - n))" using t False mn d by simp
    have "unat ah = B - 1" using hi lo mn d by (simp add: div_add)
    then have ah: "ah = - 1" by (simp add: word_unat_eq_iff)
    have "unat (ucast t :: limb) = (B * (B - 1) + (B - (?m - n))) mod B" unfolding unat_lo lo ..
    also have "\<dots> = (B - (?m - n)) mod B" by (rule mod_mult_self4)
    also have "\<dots> = B - (?m - n)" using mn(2) by (intro mod_less diff_less) simp_all
    finally have "unat (ucast t + (ah AND d)) = unat d - (?m - n)" using mn d q(1) by (simp add: unat_add ah)
    then show ?thesis using mn q(1) ah by simp
  qed
qed

lemma udiv1norm_value:
  assumes "B \<le> 2 * unat d" "unat a1 < unat d" "udiv1norm a1 a0 d (udiv1norm_init d) = (q, r)"
  shows "B * unat a1 + unat a0 = unat q * unat d + unat r \<and> unat r < unat d"
proof -
  let ?n1m = "signed_drop_bit 63 a0"
  let ?a = "(ucast (udiv1norm_init d) :: dlimb) * ucast (a1 - ?n1m) + ucast (a0 + (?n1m AND d))"
  let ?q = "ucast (drop_bit 64 ?a) + a1"
  note est = estimate_word [OF assms(1,2), of a0]
  have "B * unat a1 + unat a0 < B * (unat a1 + 1)" using unat_limb_less [of a0] by simp
  also have "\<dots> \<le> B * unat d" using assms(2) by (intro mult_le_mono2) simp
  finally have "(unat ?a div B + unat a1) * unat d < B * unat d" using est by linarith
  then have "unat ?a div B + unat a1 < B" by simp
  then have q: "unat ?q = unat ?a div B + unat a1" unfolding unat_add unat_hi by simp
  show ?thesis
    using correct_estimate [OF assms(2), of ?q a0] est assms(3) unfolding q udiv1norm_def Let_def by simp
qed

section \<open>Division of a number by a limb\<close>

text \<open>
  What the loops of \<open>mp_div1norm\<close> need of their step: for an admissible divisor d and a remainder r below it,
  the quotient and the remainder of \<open>r * 2^64 + a\<close>.
\<close>

locale limb_divider =
  fixes step :: "limb \<Rightarrow> limb \<Rightarrow> limb \<Rightarrow> limb \<times> limb"
    and ok :: "limb \<Rightarrow> bool"
  assumes step_divides: "ok d \<Longrightarrow> unat r < unat d \<Longrightarrow> step d r a = (q, r') \<Longrightarrow>
    B * unat r + unat a = unat q * unat d + unat r' \<and> unat r' < unat d"
begin

lemma loop_divides:
  assumes "ok d" "unat r < unat d" "div1_loop (step d) taba r = (tabq, r')"
  shows "length tabq = length taba \<and> lval taba + B ^ length taba * unat r = lval tabq * unat d + unat r' \<and> unat r' < unat d"
  using assms(3)
proof (induction taba arbitrary: tabq r')
  case (Cons a taba)
  obtain qs r1 where l: "div1_loop (step d) taba r = (qs, r1)" by fastforce
  obtain q where q: "step d r1 a = (q, r')" "tabq = q # qs" using Cons.prems l by (auto split: prod.splits)
  have IH: "length qs = length taba" "lval taba + B ^ length taba * unat r = lval qs * unat d + unat r1" "unat r1 < unat d"
    using Cons.IH [OF l] by simp_all
  have st: "B * unat r1 + unat a = unat q * unat d + unat r'" "unat r' < unat d"
    using step_divides [OF assms(1) IH(3) q(1)] by simp_all
  have "lval (a # taba) + B ^ length (a # taba) * unat r = unat a + B * (lval taba + B ^ length taba * unat r)"
    by (simp add: algebra_simps)
  also have "\<dots> = (B * unat r1 + unat a) + B * (lval qs * unat d)" unfolding IH(2) by (simp add: algebra_simps)
  also have "\<dots> = lval tabq * unat d + unat r'" unfolding st(1) q(2) by (simp add: algebra_simps)
  finally show ?case using IH(1) st(2) q(2) by simp
qed (use assms(2) in simp)

end

lemma double_limb_less: "unat a1 < unat d \<Longrightarrow> B * unat a1 + unat (a0 :: limb) < B * unat (d :: limb)"
proof -
  assume "unat a1 < unat d"
  then have "B * (unat a1 + 1) \<le> B * unat d" by (intro mult_le_mono2) simp
  then show ?thesis using unat_limb_less [of a0] by simp
qed

interpretation by_inverse: limb_divider "\<lambda>d r a. udiv1norm r a d (udiv1norm_init d)" "\<lambda>d. B \<le> 2 * unat d"
  by unfold_locales (rule udiv1norm_value)

interpretation by_dlimb: limb_divider div_dlimb "\<lambda>d. True"
proof unfold_locales
  fix d r a q r' :: limb
  assume r: "unat r < unat d" and s: "div_dlimb d r a = (q, r')"
  let ?n = "B * unat r + unat a"
  have "?n div unat d < B" using double_limb_less [OF r] by (intro less_mult_imp_div_less) (simp add: mult.commute)
  moreover have "?n mod unat d < unat d" using r by simp
  moreover have "?n mod unat d < B" using r unat_limb_less [of d] by (meson less_trans calculation(2))
  moreover have "q = ucast ((push_bit 64 (ucast r :: dlimb) OR ucast a) div ucast d)"
    "r' = ucast ((push_bit 64 (ucast r :: dlimb) OR ucast a) mod ucast d)"
    using s by (simp_all add: div_dlimb_def Let_def)
  ultimately have "unat q = ?n div unat d" "unat r' = ?n mod unat d" "unat r' < unat d"
    by (simp_all only: unat_lo unat_div unat_mod unat_join unat_ucast_dlimb mod_less)
  then show "?n = unat q * unat d + unat r' \<and> unat r' < unat d" by (simp only: div_mult_mod_eq)
qed

lemma mp_div1norm_value:
  assumes "B \<le> 2 * unat b" "unat r < unat b" "mp_div1norm taba b r = (tabq, r')"
  shows "length tabq = length taba \<and> lval taba + B ^ length taba * unat r = lval tabq * unat b + unat r' \<and> unat r' < unat b"
  using assms by_inverse.loop_divides [of b r taba tabq r'] by_dlimb.loop_divides [OF TrueI assms(2), of taba tabq r']
  by (simp add: mp_div1norm_def Let_def split: if_splits)

text \<open>C32:
  For a normalised divisor d and a high limb below d, \<open>udiv1norm\<close> with the inverse from \<open>udiv1norm_init\<close> returns the
  quotient and the remainder of the double limb, although it multiplies by a truncated inverse and corrects the
  estimate once, in arithmetic modulo \<open>2^64\<close> and \<open>2^128\<close>.
\<close>

theorem udiv1norm_divides:
  assumes "2 ^ 63 \<le> unat d" "unat a1 < unat d"
  shows "(case udiv1norm a1 a0 d (udiv1norm_init d) of (q, r) \<Rightarrow>
    unat q = (2 ^ 64 * unat a1 + unat a0) div unat d \<and> unat r = (2 ^ 64 * unat a1 + unat a0) mod unat d)"
proof -
  obtain q r where u: "udiv1norm a1 a0 d (udiv1norm_init d) = (q, r)" by fastforce
  have "B \<le> 2 * unat d" using assms(1) by simp
  from udiv1norm_value [OF this assms(2) u] show ?thesis unfolding u by simp
qed

theorem udiv1norm_divides_witness:
  "udiv1norm (2 ^ 63 - 1) (2 ^ 64 - 1) (2 ^ 63) (udiv1norm_init (2 ^ 63)) = (2 ^ 64 - 1, 2 ^ 63 - 1)"
  using udiv1norm_divides [of "2 ^ 63" "2 ^ 63 - 1" "2 ^ 64 - 1"]
  by (simp add: word_unat_eq_iff split: prod.splits)

end
