(* ===== verification/Mp_Div.thy ===== *)
theory Mp_Div
  imports Mp_Div1
begin

text \<open>
  The basecase division of libbf.c, \<open>mp_divnorm\<close>: each step estimates one limb of the quotient from the highest limbs
  and corrects it, and the loops compute the quotient and the remainder of the two numbers.
\<close>

section \<open>The correction of a quotient that was too large\<close>

text \<open>
  The window \<open>w\<close>, \<open>high\<close> holds \<open>A - q * b\<close> modulo the size of the window, and this difference is negative.
\<close>

lemma window_less: "lval w + B ^ length w * unat high < B ^ length w * B" for high :: limb
proof -
  have "B ^ length w * (unat high + 1) \<le> B ^ length w * B" using unat_limb_less [of high] by (intro mult_le_mono2) simp
  with lval_less [of w] show ?thesis unfolding distrib_left mult_1_right by linarith
qed

lemma add_back_value:
  assumes "length w = length tabb"
    and "lval w + B ^ length tabb * unat high + unat q * lval tabb = A + B ^ length tabb * B"
  shows "\<exists>w' q'. add_back w high tabb q = Some (w', 0, q') \<and> length w' = length tabb \<and>
    A = unat q' * lval tabb + lval w' \<and> lval w' < lval tabb"
  using assms
proof (induction "unat q" arbitrary: w high q)
  case 0
  with window_less [of w high] show ?case by simp
next
  let ?n = "B ^ length tabb"
  case (Suc k)
  obtain w2 c where a: "mp_add w tabb 0 = (w2, c)" by fastforce
  have v: "length w2 = length tabb" "unat c \<le> 1" "lval w2 + ?n * unat c = lval w + lval tabb"
    using mp_add_value [OF a] Suc.prems(1) by simp_all
  have q: "unat (q - 1) = k" using Suc.hyps(2) by (simp add: unat_sub)
  have sum: "lval w2 + ?n * unat c + ?n * unat high + k * lval tabb = A + ?n * B"
    using Suc.prems(2) v(3) Suc.hyps(2) [symmetric] by simp
  show ?case
  proof (cases "c \<noteq> 0 \<and> high + 1 = 0")
    case True
    then have h: "unat c = 1" "unat high + 1 = B"
      using v(2) unat_limb_less [of high] unat_add [of high 1]
      by (simp_all add: word_unat_eq_iff split: if_splits)
    have "?n * unat c + ?n * unat high = ?n * B" using h by (metis add.commute distrib_left)
    with sum have "A = k * lval tabb + lval w2" by linarith
    moreover have "lval w2 < lval tabb" using v(3) h(1) lval_less [of w] Suc.prems(1) by simp
    ultimately show ?thesis using True a q v(1) by (subst add_back.simps) (simp add: Let_def)
  next
    case False
    let ?high = "if c \<noteq> 0 then high + 1 else high"
    have "add_back w high tabb q = add_back w2 ?high tabb (q - 1)"
      using False a by (subst add_back.simps) (auto simp: Let_def)
    moreover have "unat ?high = unat high + unat c"
      using False v(2) unat_add [of high 1] unat_limb_less [of high]
      by (auto simp: word_unat_eq_iff)
    then have "lval w2 + ?n * unat ?high + unat (q - 1) * lval tabb = A + ?n * B"
      using sum q by (simp add: distrib_left)
    ultimately show ?thesis using Suc.hyps(1) [OF q [symmetric] v(1)] by simp
  qed
qed

section \<open>The estimate\<close>

lemma divnorm_quotient_ge:
  assumes A: "lval low + B ^ length low * (unat al + B * unat ah) < B * b"
    and b: "B ^ length low * unat b1 \<le> b" "B \<le> 2 * unat b1"
    and inv: "b1_inv = 0 \<or> b1_inv = udiv1norm_init b1"
  shows "lval low + B ^ length low * (unat al + B * unat ah) < (unat (divnorm_quotient b1 b1_inv ah al) + 1) * b"
proof (cases "ah \<ge> b1")
  case True
  with A show ?thesis by (simp add: divnorm_quotient_def)
next
  case False
  then have less: "unat ah < unat b1" by (simp add: word_le_nat_alt)
  let ?q = "divnorm_quotient b1 b1_inv ah al"
  let ?n = "B ^ length low"
  have "\<exists>r :: limb. B * unat ah + unat al = unat ?q * unat b1 + unat r \<and> unat r < unat b1"
  proof (cases "b1_inv = 0")
    case True
    then have "div_dlimb b1 ah al = (?q, snd (div_dlimb b1 ah al))" using False by (simp add: divnorm_quotient_def)
    from by_dlimb.step_divides [OF TrueI less this] show ?thesis by (rule exI)
  next
    case inverse: False
    then have "udiv1norm ah al b1 (udiv1norm_init b1) = (?q, snd (udiv1norm ah al b1 (udiv1norm_init b1)))"
      using False inv by (simp add: divnorm_quotient_def)
    from by_inverse.step_divides [OF b(2) less this] show ?thesis by (rule exI)
  qed
  then have "unat al + B * unat ah + 1 \<le> (unat ?q + 1) * unat b1" by auto
  then have "?n * (unat al + B * unat ah + 1) \<le> ?n * ((unat ?q + 1) * unat b1)" by (rule mult_le_mono2)
  also have "\<dots> = (unat ?q + 1) * (?n * unat b1)" by (simp only: mult_ac)
  also have "\<dots> \<le> (unat ?q + 1) * b" using b(1) by (rule mult_le_mono2)
  finally show ?thesis using lval_less [of low] by (simp only: distrib_left)
qed

section \<open>One limb of the quotient\<close>

lemma divnorm_step_value:
  assumes len: "length w = length tabb" "2 \<le> length tabb" "length xs = i"
    and norm: "B \<le> 2 * unat (last tabb)"
    and inv: "b1_inv = 0 \<or> b1_inv = udiv1norm_init (last tabb)"
    and A: "lval w + B ^ length tabb * unat ah < B * lval tabb"
  shows "\<exists>q w'. divnorm_step tabb b1_inv i (xs @ w @ ah # ys) = Some (q, xs @ w' @ 0 # ys) \<and> length w' = length tabb \<and>
    lval w + B ^ length tabb * unat ah = unat q * lval tabb + lval w' \<and> lval w' < lval tabb"
proof -
  let ?n = "B ^ length tabb"
  let ?A = "lval w + ?n * unat ah"
  obtain low al where w: "w = low @ [al]" using len by (cases w rule: rev_cases) auto
  obtain bl b1 where tb: "tabb = bl @ [b1]" using len by (cases tabb rule: rev_cases) auto
  have low: "length low = length bl" using len w tb by simp
  let ?q = "divnorm_quotient b1 b1_inv ah al"
  have A': "?A = lval low + B ^ length low * (unat al + B * unat ah)"
    using w tb low by (simp add: lval_append algebra_simps)
  have "B ^ length low * unat b1 \<le> lval tabb" using tb low by (simp add: lval_append)
  from divnorm_quotient_ge [OF A [unfolded A'] this] norm inv
  have ge: "?A < (unat ?q + 1) * lval tabb" unfolding A' by (simp add: tb)
  obtain w' r where s: "mp_sub_mul1 w tabb ?q = (w', r)" by fastforce
  have v: "length w' = length tabb" "lval w' + lval tabb * unat ?q = lval w + ?n * unat r"
    using mp_sub_mul1_loop_value [of w tabb ?q 0 w' r] s len(1) by (simp_all add: mp_sub_mul1_def)
  have read: "rd tabb (length tabb - 1) = Some b1" "rd (xs @ w @ ah # ys) (i + length tabb) = Some ah"
    "rd (xs @ w @ ah # ys) (i + length tabb - 1) = Some al"
    using len w tb by (simp_all add: rd_def nth_append)
  have block: "rd_block (xs @ w @ ah # ys) i (length tabb) = Some w"
    using len by (simp add: rd_block_append_mid)
  have upd: "wr_block (xs @ w @ ah # ys) i u = Some (xs @ u @ ah # ys)"
    "wr (xs @ u @ ah # ys) (i + length tabb) a = Some (xs @ u @ a # ys)" if "length u = length tabb" for u a
    using len that wr_block_append_mid [of i xs u w "ah # ys"] wr_append_mid [of "i + length tabb" "xs @ u" ah ys a] by simp_all
  show ?thesis
  proof (cases "unat r \<le> unat ah")
    case True
    then have "unat (ah - r) + unat r = unat ah" by (simp add: unat_sub)
    then have "?n * unat (ah - r) + ?n * unat r = ?n * unat ah" by (metis distrib_left)
    with v(2) have rem: "?A = unat ?q * lval tabb + (lval w' + ?n * unat (ah - r))" by (simp add: mult.commute)
    with ge have less: "lval w' + ?n * unat (ah - r) < lval tabb" by simp
    have "ah - r = 0"
    proof (rule ccontr)
      assume "ah - r \<noteq> 0"
      then have "?n * 1 \<le> ?n * unat (ah - r)" by (intro mult_le_mono2) (simp add: word_unat_eq_iff)
      with less lval_less [of tabb] show False unfolding mult_1_right by linarith
    qed
    moreover have "\<not> ah - r > ah" using \<open>unat (ah - r) + unat r = unat ah\<close> by (simp add: word_less_nat_alt)
    ultimately show ?thesis using rem less read block upd [OF v(1)] s v(1)
      by (simp add: divnorm_step_def Let_def)
  next
    case False
    then have a: "unat (ah - r) + unat r = unat ah + B" "ah - r > ah"
      using unat_limb_less [of r] unat_limb_less [of ah] by (simp_all add: unat_sub word_less_nat_alt)
    have "?n * unat (ah - r) + ?n * unat r = ?n * unat ah + ?n * B" using a(1) by (metis distrib_left)
    with v(2) have "lval w' + ?n * unat (ah - r) + unat ?q * lval tabb = ?A + ?n * B" by (simp add: mult.commute)
    from add_back_value [OF v(1) this]
    obtain w2 q2 where "add_back w' (ah - r) tabb ?q = Some (w2, 0, q2)" "length w2 = length tabb"
        "?A = unat q2 * lval tabb + lval w2" "lval w2 < lval tabb" by blast
    then show ?thesis using read block upd [of w2] s a(2) by (simp add: divnorm_step_def Let_def)
  qed
qed

section \<open>The loop over the limbs of the quotient\<close>

lemma divnorm_loop_value:
  assumes tabb: "2 \<le> length tabb" "B \<le> 2 * unat (last tabb)" "b1_inv = 0 \<or> b1_inv = udiv1norm_init (last tabb)"
    and "length xs = n" "length r = length tabb" "lval r < lval tabb"
  shows "\<exists>qs r' ys'. divnorm_loop tabb b1_inv n (xs @ r @ ys) tabq = Some (qs @ tabq, r' @ ys') \<and>
    length qs = n \<and> length r' = length tabb \<and> length ys' = n + length ys \<and>
    lval (xs @ r) = lval qs * lval tabb + lval r' \<and> lval r' < lval tabb"
  using assms(4-6)
proof (induction n arbitrary: xs r ys tabq)
  case (Suc n)
  let ?b = "lval tabb"
  obtain xs' x where xs: "xs = xs' @ [x]" "length xs' = n" using Suc.prems(1) by (cases xs rule: rev_cases) auto
  obtain w ah where w: "x # r = w @ [ah]" "length w = length tabb"
    using Suc.prems(2) by (cases "x # r" rule: rev_cases) (auto dest: arg_cong [where f = length])
  have window: "lval w + B ^ length tabb * unat ah = unat x + B * lval r"
    using arg_cong [OF w(1), of lval] w(2) by (simp add: lval_append)
  have "B * (lval r + 1) \<le> B * ?b" using Suc.prems(3) by (intro mult_le_mono2) simp
  then have "lval w + B ^ length tabb * unat ah < B * ?b" unfolding window using unat_limb_less [of x] by simp
  from divnorm_step_value [OF w(2) tabb(1) xs(2) tabb(2,3) this, of ys]
  obtain q w' where step: "divnorm_step tabb b1_inv n (xs' @ w @ ah # ys) = Some (q, xs' @ w' @ 0 # ys)"
      "length w' = length tabb" "unat x + B * lval r = unat q * ?b + lval w'" "lval w' < ?b"
    unfolding window by blast
  from Suc.IH [OF xs(2) step(2,4), of "0 # ys" "q # tabq"]
  obtain qs r' ys' where IH: "divnorm_loop tabb b1_inv n (xs' @ w' @ 0 # ys) (q # tabq) = Some (qs @ q # tabq, r' @ ys')"
      "length qs = n" "length r' = length tabb" "length ys' = n + length (0 # ys)"
      "lval (xs' @ w') = lval qs * ?b + lval r'" "lval r' < ?b" by blast
  have eq: "xs @ r @ ys = xs' @ w @ ah # ys" using w(1) xs(1) by (metis append.assoc append_Cons append_Nil)
  have "divnorm_loop tabb b1_inv (Suc n) (xs @ r @ ys) tabq = Some ((qs @ [q]) @ tabq, r' @ ys')"
    unfolding eq using step(1) IH(1) by simp
  moreover have "lval (xs @ r) = lval xs' + B ^ n * (unat x + B * lval r)"
    using xs by (simp add: lval_append algebra_simps)
  then have "lval (xs @ r) = lval (qs @ [q]) * ?b + lval r'"
    unfolding step(3) using IH(5) IH(2) xs(2) by (simp add: lval_append algebra_simps)
  ultimately show ?case using IH by (intro exI [of _ "qs @ [q]"] exI [of _ r'] exI [of _ ys']) simp
qed auto

section \<open>The first limb of the quotient\<close>

lemma lval_snoc_less:
  fixes u v :: limb
  assumes "length us = length vs" "u < v"
  shows "lval (us @ [u]) < lval (vs @ [v])"
proof -
  have "B ^ length us * (unat u + 1) \<le> B ^ length us * unat v"
    using assms(2) by (intro mult_le_mono2) (simp add: word_less_nat_alt)
  with lval_less [of us] assms(1) show ?thesis by (simp add: lval_append algebra_simps)
qed

lemma cmp_quotient_value:
  "length xs = length ys \<Longrightarrow> cmp_quotient (rev xs) (rev ys) = (if lval xs < lval ys then 0 else 1)"
proof (induction xs arbitrary: ys rule: rev_induct)
  case (snoc x xs)
  obtain ys' y where ys: "ys = ys' @ [y]" "length ys' = length xs"
    using snoc.prems by (cases ys rule: rev_cases) auto
  show ?case
  proof (cases x y rule: linorder_cases)
    case less
    then show ?thesis using lval_snoc_less [of xs ys' x y] ys by auto
  next
    case equal
    then show ?thesis using snoc.IH [of ys'] ys by (simp add: lval_append)
  next
    case greater
    then show ?thesis using lval_snoc_less [of ys' xs y x] ys by auto
  qed
qed simp

section \<open>The whole division\<close>

lemma norm_lval:
  assumes "tabb \<noteq> []" "B \<le> 2 * unat (last tabb)"
  shows "B ^ length tabb \<le> 2 * lval tabb"
proof -
  obtain bl b1 where tb: "tabb = bl @ [b1]" using assms(1) by (cases tabb rule: rev_cases) auto
  have "B ^ length tabb = B ^ length bl * B" by (simp add: tb)
  also have "\<dots> \<le> B ^ length bl * (2 * unat b1)" using assms(2) tb by (intro mult_le_mono2) simp
  also have "\<dots> \<le> 2 * lval tabb" by (simp add: tb lval_append)
  finally show ?thesis .
qed

lemma mp_divnorm_basecase:
  assumes tabb: "2 \<le> length tabb" "B \<le> 2 * unat (last tabb)" "length tabb \<le> length taba"
    and small: "min (length taba - length tabb) (length tabb) < DIVNORM_LARGE_THRESHOLD"
  shows "\<exists>tabq taba'. mp_divnorm large taba tabb = Some (0, tabq, taba') \<and>
    length tabq = length taba - length tabb + 1 \<and> length taba' = length taba \<and>
    lval taba = lval tabq * lval tabb + lval (take (length tabb) taba') \<and> lval (take (length tabb) taba') < lval tabb"
proof -
  obtain n where n: "length taba - length tabb = n" by simp
  let ?b = "lval tabb"
  obtain xs w where taba: "taba = xs @ w" "length xs = n" "length w = length tabb"
    by (rule that [of "take n taba" "drop n taba"]) (use tabb(3) n in simp_all)
  let ?inv = "if n \<ge> UDIV1NORM_THRESHOLD then udiv1norm_init (last tabb) else 0"
  let ?q = "if lval w < ?b then 0 else 1 :: limb"
  let ?r = "if lval w < ?b then w else fst (mp_sub w tabb 0)"
  obtain res k where sub: "mp_sub w tabb 0 = (res, k)" by fastforce
  have "length ?r = length tabb \<and> lval w = unat ?q * ?b + lval ?r \<and> lval ?r < ?b"
  proof (cases "lval w < ?b")
    case True
    then show ?thesis using taba(3) by simp
  next
    case False
    have v: "length res = length w" "lval res + ?b = lval w + B ^ length w * unat k"
      using mp_sub_value [OF sub taba(3)] by simp_all
    have "k = 0"
    proof (rule ccontr)
      assume "k \<noteq> 0"
      then have "B ^ length w * 1 \<le> B ^ length w * unat k" by (intro mult_le_mono2) (simp add: word_unat_eq_iff)
      with v lval_less [of res] False show False unfolding mult_1_right v(1) by linarith
    qed
    with v(2) have "lval res + ?b = lval w" by simp
    moreover have "tabb \<noteq> []" using tabb(1) by auto
    from norm_lval [OF this tabb(2)] have "lval w < 2 * ?b" using lval_less [of w] unfolding taba(3) by linarith
    ultimately show ?thesis using False sub v(1) taba(3) by simp
  qed
  then have r: "length ?r = length tabb" "lval w = unat ?q * ?b + lval ?r" "lval ?r < ?b" by blast+
  have inv: "?inv = 0 \<or> ?inv = udiv1norm_init (last tabb)" by simp
  obtain qs r' ys' where loop: "divnorm_loop tabb ?inv n (xs @ ?r @ []) [?q] = Some (qs @ [?q], r' @ ys')"
      "length qs = n" "length r' = length tabb" "length ys' = n + length ([] :: limb list)"
      "lval (xs @ ?r) = lval qs * ?b + lval r'" "lval r' < ?b"
    using divnorm_loop_value [OF tabb(1,2) inv taba(2) r(1,3), of "[]" "[?q]"] by blast
  have run: "mp_divnorm large taba tabb = Some (0, qs @ [?q], r' @ ys')"
  proof -
    have "rd tabb (length tabb - 1) = Some (last tabb)"
      using tabb(1) by (cases tabb rule: rev_cases) (auto simp: rd_def nth_append)
    moreover have "rd_block taba n (length tabb) = Some w"
      using rd_block_append_mid [of n xs "length tabb" w "[]"] taba by simp
    moreover have "cmp_quotient (rev w) (rev tabb) = ?q" using taba(3) by (rule cmp_quotient_value)
    moreover have "(if ?q \<noteq> 0 then wr_block taba n (fst (mp_sub w tabb 0)) else Some taba) = Some (xs @ ?r)"
      using wr_block_append_mid [of n xs ?r w "[]"] taba r(1) by (auto split: if_splits)
    moreover have "\<not> DIVNORM_LARGE_THRESHOLD \<le> min n (length tabb)" using small n by (simp only: not_le)
    ultimately show ?thesis using tabb(1,3) loop(1) n
      by (simp only: mp_divnorm_def Let_def) (simp del: min.bounded_iff)
  qed
  have "lval taba = lval xs + B ^ n * (unat ?q * ?b + lval ?r)" using taba(1,2) r(2) by (simp add: lval_append)
  also have "\<dots> = B ^ n * (unat ?q * ?b) + lval (xs @ ?r)" using taba(2) by (simp add: lval_append algebra_simps)
  also have "\<dots> = lval (qs @ [?q]) * ?b + lval r'" unfolding loop(5) using loop(2) by (simp add: lval_append algebra_simps)
  finally show ?thesis using run loop tabb(3) n by (intro exI [of _ "qs @ [?q]"] exI [of _ "r' @ ys'"]) simp
qed

lemma mp_divnorm_one_limb:
  assumes "taba \<noteq> []" "B \<le> 2 * unat b"
  shows "\<exists>tabq taba'. mp_divnorm large taba [b] = Some (0, tabq, taba') \<and>
    length tabq = length taba \<and> length taba' = length taba \<and>
    lval taba = lval tabq * unat b + lval (take 1 taba') \<and> lval (take 1 taba') < unat b"
proof -
  obtain a taba1 where a: "taba = a # taba1" using assms(1) by (cases taba) auto
  obtain tabq r where d: "mp_div1norm taba b 0 = (tabq, r)" by fastforce
  have "0 < unat b" using assms(2) by (cases "unat b = 0") simp_all
  then have v: "length tabq = length taba" "lval taba = lval tabq * unat b + unat r" "unat r < unat b"
    using mp_div1norm_value [OF assms(2) _ d] by simp_all
  have "mp_divnorm large taba [b] = Some (0, tabq, r # taba1)"
    using d a by (simp add: mp_divnorm_def wr_def)
  then show ?thesis using v a by simp
qed

lemma quotient_head_le:
  assumes "lval tabq * lval tabb \<le> lval taba" "length tabq = length taba - length tabb + 1"
    and "tabb \<noteq> []" "B \<le> 2 * unat (last tabb)" "length tabb \<le> length taba"
  shows "unat (last tabq) \<le> 1"
proof (rule ccontr)
  assume "\<not> unat (last tabq) \<le> 1"
  moreover obtain qs q where q: "tabq = qs @ [q]" "length qs = length taba - length tabb"
    using assms(2) by (cases tabq rule: rev_cases) auto
  ultimately have "B ^ length qs * 2 \<le> B ^ length qs * unat q" by (intro mult_le_mono2) simp
  also have "\<dots> \<le> lval tabq" by (simp add: q lval_append)
  finally have "B ^ length qs * 2 * lval tabb \<le> lval tabq * lval tabb" by (rule mult_le_mono1)
  moreover have "B ^ length qs * B ^ length tabb \<le> B ^ length qs * (2 * lval tabb)"
    using norm_lval [OF assms(3,4)] by (rule mult_le_mono2)
  moreover have "B ^ length qs * B ^ length tabb = B ^ length taba"
    using q(2) assms(5) by (simp flip: power_add)
  ultimately show False using assms(1) lval_less [of taba] by (simp only: mult.assoc)
qed

lemma mp_divnorm_value:
  assumes "tabb \<noteq> []" "B \<le> 2 * unat (last tabb)" "length tabb \<le> length taba"
    and "length tabb = 1 \<or> min (length taba - length tabb) (length tabb) < DIVNORM_LARGE_THRESHOLD"
  shows "\<exists>tabq taba'. mp_divnorm large taba tabb = Some (0, tabq, taba') \<and>
    length tabq = length taba - length tabb + 1 \<and> unat (last tabq) \<le> 1 \<and> length taba' = length taba \<and>
    lval taba = lval tabq * lval tabb + lval (take (length tabb) taba') \<and> lval (take (length tabb) taba') < lval tabb"
proof -
  have "\<exists>tabq taba'. mp_divnorm large taba tabb = Some (0, tabq, taba') \<and>
    length tabq = length taba - length tabb + 1 \<and> length taba' = length taba \<and>
    lval taba = lval tabq * lval tabb + lval (take (length tabb) taba') \<and> lval (take (length tabb) taba') < lval tabb"
  proof (cases "length tabb = 1")
    case True
    then obtain b where b: "tabb = [b]" by (cases tabb) auto
    moreover have "taba \<noteq> []" using assms(3) b by auto
    ultimately show ?thesis using mp_divnorm_one_limb [of taba b large] assms(2,3) by auto
  next
    case False
    then have "2 \<le> length tabb" using assms(1) by (cases tabb) (auto simp: Suc_le_eq)
    then show ?thesis using mp_divnorm_basecase assms(2-4) False by blast
  qed
  then obtain tabq taba' where d: "mp_divnorm large taba tabb = Some (0, tabq, taba')"
    "length tabq = length taba - length tabb + 1" "length taba' = length taba"
    "lval taba = lval tabq * lval tabb + lval (take (length tabb) taba')" "lval (take (length tabb) taba') < lval tabb"
    by blast
  moreover have "unat (last tabq) \<le> 1" using d(4) by (intro quotient_head_le [OF _ d(2) assms(1-3)]) simp
  ultimately show ?thesis by blast
qed

text \<open>C31:
  For a normalised divisor not longer than the dividend, and outside the range of the subquadratic division,
  \<open>mp_divnorm\<close> returns 0 without an access outside its arrays and without looping, leaves the quotient in
  \<open>na - nb + 1\<close> limbs of which the highest is at most 1, and the remainder in the low \<open>nb\<close> limbs of the dividend.
\<close>

theorem mp_divnorm_divides:
  assumes "tabb \<noteq> []" "2 ^ 63 \<le> unat (last tabb)" "length tabb \<le> length taba"
    and "length tabb = 1 \<or> min (length taba - length tabb) (length tabb) < DIVNORM_LARGE_THRESHOLD"
  shows "\<exists>tabq taba'. mp_divnorm large taba tabb = Some (0, tabq, taba') \<and>
    length tabq = length taba - length tabb + 1 \<and> unat (last tabq) \<le> 1 \<and> length taba' = length taba \<and>
    lval tabq = lval taba div lval tabb \<and> lval (take (length tabb) taba') = lval taba mod lval tabb"
proof -
  have "B \<le> 2 * unat (last tabb)" using assms(2) by simp
  from mp_divnorm_value [OF assms(1) this assms(3,4), of large] show ?thesis by fastforce
qed

theorem mp_divnorm_divides_witness:
  "\<exists>tabq taba'. mp_divnorm (\<lambda>_ _. None) [1, 2, 3, 4] [5, 2 ^ 63] = Some (0, tabq, taba') \<and>
    length tabq = 3 \<and> unat (last tabq) \<le> 1 \<and> length taba' = 4 \<and>
    lval tabq = lval [1, 2, 3, 4] div lval [5, 2 ^ 63] \<and> lval (take 2 taba') = lval [1, 2, 3, 4] mod lval [5, 2 ^ 63]"
proof -
  have "[5, 2 ^ 63 :: limb] \<noteq> []" "2 ^ 63 \<le> unat (last [5, 2 ^ 63 :: limb])"
    "length [5, 2 ^ 63 :: limb] \<le> length [1, 2, 3, 4 :: limb]" by simp_all
  moreover have "min (length [1, 2, 3, 4 :: limb] - length [5, 2 ^ 63 :: limb]) (length [5, 2 ^ 63 :: limb]) < DIVNORM_LARGE_THRESHOLD"
    by (simp add: DIVNORM_LARGE_THRESHOLD_def)
  moreover have "length [5, 2 ^ 63 :: limb] = 2" "length [1, 2, 3, 4 :: limb] = 4" "4 - 2 + 1 = (3 :: nat)" by simp_all
  ultimately show ?thesis using mp_divnorm_divides [of "[5, 2 ^ 63]" "[1, 2, 3, 4]" "\<lambda>_ _. None"] by metis
qed

end
