(* ===== verification/Spec2Isabelle.thy ===== *)
theory Spec2Isabelle
  imports Case_Maps Re_Escapes Re_Corner_Cases Gc_Cycles Array_Sort Exchange Pc2line Shape_Machine Mp_Div
begin

text \<open>
  A verification library of QuickJS (src/quickjs), the JavaScript engine that quickjspp wraps.

  \<^bold>\<open>The parts and how they interact.\<close> The library covers, from the bottom up, the runtime's allocator, the C
  helpers of cutils.c, the Unicode library and the regular expression engine, with all the code between
  \<open>lre_compile\<close>/\<open>lre_exec\<close> and \<open>malloc\<close>; the sort behind \<open>Array.prototype.sort\<close>; the objects of the interpreter
  as they share their shapes; the limb arithmetic of the big numbers; and the cycle collector of
  the runtime with the lists and the object graph it works on. The regular expression compiler reads a zero-terminated UTF-8 pattern, builds character
  ranges from the Unicode tables and emits byte code into a dynamic buffer; the executor runs the byte code on a
  subject of 8-bit or 16-bit units, with a stack of backtracking states in a reallocated block. Both take their
  memory from the realloc function of the runtime.

  \<^bold>\<open>Theories and the code they model.\<close>
  \<^item> \<open>QJS_Prelude\<close>: blocks of memory as lists of cells (\<open>rd\<close>, \<open>wr\<close>, \<open>rd_block\<close>, \<open>wr_block\<close>: \<open>None\<close> is an access
    outside the block), \<open>size_t\<close> wrap-around (\<open>szt\<close>, \<open>szt_sub\<close>), the little-endian accesses of cutils.h.
  \<^item> \<open>Js_Alloc\<close>: quickjs.c \<open>js_def_malloc\<close>, \<open>js_def_free\<close>, \<open>js_def_realloc\<close> and their counters; the C library
    behind them is the parameter \<open>libc_env\<close>. Its locale \<open>reallocator\<close> states what the rest of the code relies
    on, and \<open>js_heap\<close> interprets it on the model of the default allocator.
  \<^item> \<open>Dyn_Buf\<close>: cutils.c string helpers and \<open>DynBuf\<close>, \<open>dbuf_insert\<close> of libregexp.c; locale \<open>byte_reallocator\<close>.
  \<^item> \<open>Utf8\<close>: \<open>unicode_to_utf8\<close>, \<open>unicode_from_utf8\<close>, \<open>from_hex\<close>.
  \<^item> \<open>Char_Range\<close>: libunicode.c \<open>CharRange\<close> with its set operations, and the class tables of libregexp.c.
  \<^item> \<open>Unicode_Tables\<close>, \<open>Unicode_Props\<close>, \<open>Case_Conv\<close>: the tables of libunicode-table.h for identifiers and case,
    the indexed lookup, \<open>lre_case_conv\<close>, \<open>lre_canonicalize\<close>; \<open>Case_Maps\<close> says what the run types of the case table mean.
  \<^item> \<open>Unicode_Range_Tables\<close>, \<open>Unicode_Ranges\<close>: the category, script and property tables and the functions that
    build the range of a property by name.
  \<^item> \<open>Re_Opcode\<close>, \<open>Re_Exec\<close>: the byte code of libregexp-opcode.h and the executor, one function per opcode group,
    run with a number of steps as fuel.
  \<^item> \<open>Re_Safety\<close>, \<open>Re_Invariant\<close>, \<open>Re_Exec_Safe\<close>: the check \<open>re_code_ok\<close> on byte code (every instruction complete,
    every jump to an instruction, one stack depth per instruction) and the invariant that makes the executor
    memory safe on code that passes it.
  \<^item> \<open>Re_Emit\<close>, \<open>Re_Class\<close>, \<open>Re_Parse\<close>: the regular expression compiler, function by function.
  \<^item> \<open>Re_Escapes\<close>: what the lexing functions compute.
  \<^item> \<open>Re_Fragment\<close>, \<open>Re_Compile_Safe\<close>, \<open>Re_Parse_Safe\<close>, \<open>Re_Compile\<close>: the compiler emits code that passes the
    check. \<open>Re_Fragment\<close> has the templates of the compiler as an inductive predicate and their certificates,
    \<open>Re_Compile_Safe\<close> the emission functions and quantifiers, \<open>Re_Parse_Safe\<close> the parse functions by induction on
    the nesting, \<open>Re_Compile\<close> the whole of \<open>lre_compile\<close> and its composition with \<open>lre_exec\<close>.
  \<^item> \<open>Re_Corner_Cases\<close>: concrete runs where the regular expression code does not do what it means to.

  \<^item> \<open>Rq_Sort\<close>, \<open>Rq_Sort_Correct\<close>, \<open>Rq_Sort_Uses\<close>, \<open>Exchange\<close>: \<open>rqsort\<close> of cutils.c on elements, its
    correctness in the locale \<open>comparator\<close> (a comparison with a state of its own that agrees with a preorder), the
    comparisons of quickjs.c that interpret it, and the exchange functions on bytes. \<open>Array_Sort\<close>: \<open>js_array_sort\<close> on top, with
    a method, over the property accesses of the engine as parameters.
  \<^item> \<open>Pc2line\<close>: the line number table of a function, from \<open>add_pc2line_info\<close> to \<open>find_line_num\<close>.
  \<^item> \<open>List_Head\<close>: list.h on the links of the nodes; its locale \<open>intrusive_lists\<close> is the contract of the lists.
  \<^item> \<open>Gc_Heap\<close>, \<open>Gc_Cycles\<close>: the objects the collector sees with every \<open>gc_mark\<close> function of the classes, and
    \<open>gc_decref\<close>, \<open>gc_scan\<close> of quickjs.c, which separate the reachable objects from the garbage.
  \<^item> \<open>Shape\<close>: the shapes of quickjs.c, hidden classes that objects share, with the hash table of shapes, the hash table
    of names inside a shape, and the operations on own properties (\<open>find_own_property\<close>, \<open>add_property\<close>,
    \<open>delete_property\<close>, \<open>js_update_property_flags\<close>, \<open>JS_DefinePrivateField\<close>, \<open>JS_NewObjectProtoClass\<close>). \<open>Shape_Chain\<close> has
    the chains of names, \<open>Shape_Table\<close> the chains of shapes, \<open>Shape_Refine\<close> the invariant \<open>rt_ok\<close> and the abstraction
    \<open>view\<close> of an object as its list of named properties; \<open>Shape_Ops\<close>, \<open>Shape_Add\<close>, \<open>Shape_Define\<close>, \<open>Shape_Update\<close>,
    \<open>Shape_Delete\<close>, \<open>Shape_Remove\<close>, \<open>Shape_Object\<close> follow the operations, and \<open>Shape_Machine\<close> states what they promise together.
  \<^item> \<open>Mp\<close>: the arithmetic of libbf.c on arrays of limbs, up to \<open>mp_mul\<close> and \<open>mp_divnorm\<close>. \<open>Mp_Value\<close> has the number
    an array stands for and the additions and subtractions, \<open>Mp_Mul\<close> the products, \<open>Mp_Div1\<close> the division by a limb with
    the locale \<open>limb_divider\<close> and its two implementations, \<open>Mp_Div\<close> the basecase division.

  \<^bold>\<open>Conventions.\<close> A function returns \<open>None\<close> for undefined behaviour (an access outside a block, a failed
  assertion, a loop that does not end); every error code of C is an ordinary value. Blocks that \<open>realloc\<close> returns
  hold arbitrary cells behind the old ones. Machine integers are words, \<open>size_t\<close> values natural numbers with the
  wrap-around written out.

  \<^bold>\<open>Bounds and fuel.\<close> The executor takes the number of steps it may run; its safety theorem holds for every number.
  The loops of the compiler over the pattern take the pattern's length plus one as fuel, and each round consumes a
  byte. \<open>re_parse_disjunction\<close> takes the number of nested calls the C stack has room for, where the code asks
  \<open>lre_check_stack_overflow\<close>. The theorems on shapes assume less than 2^26 properties in a shape and less than 2^30
  entries in the hash table of shapes, the room of their bit fields and integers. The theorems on compiled code assume it shorter than 2 GiB, the reach of its jumps.

  \<^bold>\<open>Not modelled.\<close> The JavaScript parser, the interpreter and the built-in objects of quickjs.c, the atom table (names are
  numbers in the model of shapes, and what happens to the references a shape or property holds is a trace of events) and the
  freeing of the garbage; libbf.c above the limbs, with its transform \<open>fft_mul\<close> and the subquadratic division
  \<open>mp_divnorm_large\<close> (parameters of the functions that call them); the normalisation of libunicode.c; the host library, the command line tools, generated byte
  code and the C++ wrapper. \<open>dbuf_printf\<close> and the dump functions are formatting only.
\<close>

end
